(* ===== verification/Mesh_Prelude.thy ===== *)
theory Mesh_Prelude
  imports Main "HOL-Library.Word" "HOL-Library.List_Lexorder" "HOL-Library.AList"
begin

text \<open>
  What every component shares: JavaScript strings as lists of UTF-16 code units, Node
  buffers as lists of bytes with the reads and writes the code performs on them
  (out-of-range accesses throw, \<open>subarray\<close> and \<open>copy\<close> clip), thrown errors as values,
  the insertion-ordered \<open>Map\<close> and \<open>Set\<close> of the language, number printing, and UTF-8.
  The two interface locales of the library (a dictionary with an expiry sweep, a
  length-prefixed packet list) are stated here and interpreted where the code provides
  the operations.
\<close>

named_theorems buf_simps
named_theorems dict_simps

section \<open>Thrown errors\<close>

datatype js_error = RangeError | TypeError | SyntaxError | Err string

type_synonym 'a res = "js_error + 'a"

definition ebind :: "'a res \<Rightarrow> ('a \<Rightarrow> 'b res) \<Rightarrow> 'b res" where
  "ebind x f = (case x of Inl e \<Rightarrow> Inl e | Inr v \<Rightarrow> f v)"

lemma ebind_simps [simp]:
  "ebind (Inl e) f = Inl e"
  "ebind (Inr v) f = f v"
  by (simp_all add: ebind_def)

lemma ebind_Inr_iff: "ebind x f = Inr y \<longleftrightarrow> (\<exists>v. x = Inr v \<and> f v = Inr y)"
  by (cases x) auto

section \<open>Strings\<close>

text \<open>A JavaScript string is a sequence of UTF-16 code units.\<close>

type_synonym jsstring = "nat list"

definition js :: "string \<Rightarrow> jsstring" where
  "js s = map of_char s"

definition padEnd :: "nat \<Rightarrow> nat \<Rightarrow> jsstring \<Rightarrow> jsstring" where
  "padEnd n c s = s @ replicate (n - length s) c"

definition padStart :: "nat \<Rightarrow> nat \<Rightarrow> jsstring \<Rightarrow> jsstring" where
  "padStart n c s = replicate (n - length s) c @ s"

text \<open>\<open>slice(-n)\<close>: the last \<open>n\<close> code units.\<close>

definition slice_last :: "nat \<Rightarrow> 'a list \<Rightarrow> 'a list" where
  "slice_last n s = drop (length s - n) s"

definition strip_nul :: "jsstring \<Rightarrow> jsstring" where
  "strip_nul s = filter (\<lambda>c. c \<noteq> 0) s"

text \<open>\<open>s || null\<close>: the empty string is falsy.\<close>

definition or_null :: "jsstring \<Rightarrow> jsstring option" where
  "or_null s = (if s = [] then None else Some s)"

definition digit_char :: "nat \<Rightarrow> nat" where
  "digit_char d = (if d < 10 then 48 + d else 87 + d)"

fun to_radix :: "nat \<Rightarrow> nat \<Rightarrow> jsstring" where
  "to_radix b n =
     (if b < 2 \<or> n < b then [digit_char n] else to_radix b (n div b) @ [digit_char (n mod b)])"

declare to_radix.simps [simp del]

text \<open>Template literals print integers in base ten.\<close>

definition dec :: "nat \<Rightarrow> jsstring" where
  "dec n = to_radix 10 n"

definition digit_val :: "nat \<Rightarrow> nat" where
  "digit_val c = (if c < 58 then c - 48 else c - 87)"

definition from_radix :: "nat \<Rightarrow> jsstring \<Rightarrow> nat" where
  "from_radix b s = foldl (\<lambda>a c. b * a + digit_val c) 0 s"

lemma to_radix_step:
  "1 < b \<Longrightarrow> b \<le> n \<Longrightarrow> to_radix b n = to_radix b (n div b) @ [digit_char (n mod b)]"
  by (subst to_radix.simps) simp

lemma to_radix_small: "n < b \<Longrightarrow> to_radix b n = [digit_char n]"
  by (subst to_radix.simps) simp

lemma to_radix_nonempty: "to_radix b n \<noteq> []"
  by (subst to_radix.simps) simp

lemma from_radix_snoc: "from_radix b (s @ [c]) = b * from_radix b s + digit_val c"
  by (simp add: from_radix_def)

lemma digit_val_char [simp]: "d < 36 \<Longrightarrow> digit_val (digit_char d) = d"
  by (simp add: digit_val_def digit_char_def)

lemma from_radix_to_radix:
  assumes "1 < b" "b \<le> 36"
  shows "from_radix b (to_radix b n) = n"
proof (induction n rule: less_induct)
  case (less n)
  show ?case
  proof (cases "n < b")
    case True
    then show ?thesis
      using assms by (simp add: to_radix_small from_radix_def)
  next
    case False
    then have "from_radix b (to_radix b (n div b)) = n div b"
      using assms by (intro less) simp
    moreover have "n mod b < 36"
      using assms mod_less_divisor [of b n] by linarith
    ultimately show ?thesis
      using False assms by (simp add: to_radix_step from_radix_snoc)
  qed
qed

lemma from_radix_padStart [simp]: "from_radix b (padStart n 48 s) = from_radix b s"
proof -
  have "foldl (\<lambda>a c. b * a + digit_val c) 0 (replicate k 48) = 0" for k
    by (induction k) (simp_all add: digit_val_def)
  then show ?thesis by (simp add: padStart_def from_radix_def)
qed

lemma length_to_radix:
  "1 < b \<Longrightarrow> n < b ^ k \<Longrightarrow> 0 < k \<Longrightarrow> length (to_radix b n) \<le> k"
proof (induction k arbitrary: n)
  case 0
  then show ?case by simp
next
  case (Suc k)
  show ?case
  proof (cases "n < b")
    case True
    then show ?thesis by (simp add: to_radix_small)
  next
    case False
    then have "0 < k" using Suc.prems by (cases k) auto
    moreover have "n div b < b ^ k"
      using Suc.prems by (simp add: div_less_iff_less_mult mult.commute)
    ultimately have "length (to_radix b (n div b)) \<le> k"
      using Suc by simp
    then show ?thesis
      using False Suc.prems by (simp add: to_radix_step)
  qed
qed

lemma dec_nonempty [simp]: "dec n \<noteq> []"
  by (simp add: dec_def to_radix_nonempty)

lemma from_radix_dec [simp]: "from_radix 10 (dec n) = n"
  by (simp add: dec_def from_radix_to_radix)

lemma dec_inj [simp]: "dec m = dec n \<longleftrightarrow> m = n"
  by (metis from_radix_dec)

lemma set_dec: "set (dec n) \<subseteq> {48..57}"
proof (induction n rule: less_induct)
  case (less n)
  show ?case
  proof (cases "n < 10")
    case True
    then show ?thesis by (simp add: dec_def to_radix_small digit_char_def)
  next
    case False
    then have "set (dec n) = set (dec (n div 10)) \<union> {digit_char (n mod 10)}"
      by (simp add: dec_def to_radix_step)
    moreover have "set (dec (n div 10)) \<subseteq> {48..57}"
      using False by (intro less) simp
    ultimately show ?thesis by (auto simp: digit_char_def)
  qed
qed

text \<open>
  Keys such as \<open>a:b:c\<close> are unambiguous when the separator does not occur in the parts.
\<close>

lemma append_sep_inj:
  "c \<notin> set xs \<Longrightarrow> c \<notin> set xs' \<Longrightarrow>
   xs @ c # ys = xs' @ c # ys' \<longleftrightarrow> xs = xs' \<and> ys = ys'"
proof (induction xs arbitrary: xs')
  case Nil
  then show ?case by (cases xs') auto
next
  case (Cons x xs)
  then show ?case by (cases xs') auto
qed

lemma colon_notin_dec [simp]: "58 \<notin> set (dec n)" and dot_notin_dec [simp]: "46 \<notin> set (dec n)"
  using set_dec [of n] by auto

section \<open>Buffers\<close>

type_synonym byte = "8 word"
type_synonym buffer = "byte list"

definition Buffer_alloc :: "nat \<Rightarrow> buffer" where
  "Buffer_alloc n = replicate n 0"

text \<open>\<open>subarray(a, b)\<close> clips both ends to the buffer.\<close>

definition subarray :: "nat \<Rightarrow> nat \<Rightarrow> buffer \<Rightarrow> buffer" where
  "subarray a b buf = drop a (take b buf)"

text \<open>Replace the bytes at an offset; what would fall outside is not written.\<close>

definition put_at :: "buffer \<Rightarrow> nat \<Rightarrow> buffer \<Rightarrow> buffer" where
  "put_at bs off buf =
     take off buf @ take (length buf - off) bs @ drop (off + length bs) buf"

text \<open>\<open>src.copy(target, off)\<close>.\<close>

definition buf_copy :: "buffer \<Rightarrow> buffer \<Rightarrow> nat \<Rightarrow> buffer" where
  "buf_copy src target off = put_at src off target"

text \<open>\<open>buf[i] = v\<close>: converted modulo 256, ignored outside the buffer.\<close>

definition buf_set :: "buffer \<Rightarrow> nat \<Rightarrow> int \<Rightarrow> buffer" where
  "buf_set buf i v = buf[i := word_of_int v]"

text \<open>\<open>buf[i]\<close>: \<open>undefined\<close> outside the buffer.\<close>

definition buf_get :: "buffer \<Rightarrow> nat \<Rightarrow> byte option" where
  "buf_get buf i = (if i < length buf then Some (buf ! i) else None)"

definition u8_bytes :: "nat \<Rightarrow> buffer" where
  "u8_bytes v = [of_nat v]"

definition u16_bytes :: "nat \<Rightarrow> buffer" where
  "u16_bytes v = [of_nat (v div 256), of_nat v]"

definition u32_bytes :: "nat \<Rightarrow> buffer" where
  "u32_bytes v =
     [of_nat (v div 16777216), of_nat (v div 65536), of_nat (v div 256), of_nat v]"

text \<open>\<open>writeUInt8\<close>, \<open>writeUInt16BE\<close>, \<open>writeUInt32BE\<close>: a value or an offset out of range throws.\<close>

definition write_bytes :: "buffer \<Rightarrow> nat \<Rightarrow> buffer \<Rightarrow> buffer res" where
  "write_bytes bs off buf =
     (if off + length bs \<le> length buf then Inr (put_at bs off buf) else Inl RangeError)"

definition writeUInt8 :: "buffer \<Rightarrow> int \<Rightarrow> nat \<Rightarrow> buffer res" where
  "writeUInt8 buf v off =
     (if 0 \<le> v \<and> v < 256 then write_bytes (u8_bytes (nat v)) off buf else Inl RangeError)"

definition writeUInt16BE :: "buffer \<Rightarrow> int \<Rightarrow> nat \<Rightarrow> buffer res" where
  "writeUInt16BE buf v off =
     (if 0 \<le> v \<and> v < 65536 then write_bytes (u16_bytes (nat v)) off buf else Inl RangeError)"

definition writeUInt32BE :: "buffer \<Rightarrow> int \<Rightarrow> nat \<Rightarrow> buffer res" where
  "writeUInt32BE buf v off =
     (if 0 \<le> v \<and> v < 4294967296 then write_bytes (u32_bytes (nat v)) off buf else Inl RangeError)"

definition readUInt8 :: "buffer \<Rightarrow> nat \<Rightarrow> nat res" where
  "readUInt8 buf off = (if off < length buf then Inr (unat (buf ! off)) else Inl RangeError)"

definition u16_at :: "buffer \<Rightarrow> nat \<Rightarrow> nat" where
  "u16_at buf off = 256 * unat (buf ! off) + unat (buf ! (off + 1))"

definition u32_at :: "buffer \<Rightarrow> nat \<Rightarrow> nat" where
  "u32_at buf off =
     16777216 * unat (buf ! off) + 65536 * unat (buf ! (off + 1))
     + 256 * unat (buf ! (off + 2)) + unat (buf ! (off + 3))"

definition readUInt16BE :: "buffer \<Rightarrow> nat \<Rightarrow> nat res" where
  "readUInt16BE buf off =
     (if off + 2 \<le> length buf then Inr (u16_at buf off) else Inl RangeError)"

definition readUInt32BE :: "buffer \<Rightarrow> nat \<Rightarrow> nat res" where
  "readUInt32BE buf off =
     (if off + 4 \<le> length buf then Inr (u32_at buf off) else Inl RangeError)"

lemma length_uN_bytes [simp]:
  "length (u8_bytes v) = 1" "length (u16_bytes v) = 2" "length (u32_bytes v) = 4"
  by (simp_all add: u8_bytes_def u16_bytes_def u32_bytes_def)

lemma length_Buffer_alloc [simp]: "length (Buffer_alloc n) = n"
  by (simp add: Buffer_alloc_def)

lemma length_put_at [simp]: "length (put_at bs off buf) = length buf"
  by (auto simp: put_at_def)

lemma length_buf_copy [simp]: "length (buf_copy src t off) = length t"
  by (simp add: buf_copy_def)

lemma length_buf_set [simp]: "length (buf_set b i v) = length b"
  by (simp add: buf_set_def)

lemma unat_byte_lt [simp]: "unat (b :: byte) < 256"
  using unsigned_less [of b, where ?'a = nat] by simp

lemma uint_byte_lt [simp]: "uint (b :: byte) < 256"
  using unsigned_less [of b, where ?'a = int] by simp

lemma unat_of_nat_byte [simp]: "unat (of_nat n :: byte) = n mod 256"
  by (simp add: unat_of_nat)

lemma u16_at_lt: "u16_at buf off < 65536"
  using unat_byte_lt [of "buf ! off"] unat_byte_lt [of "buf ! (off + 1)"]
  unfolding u16_at_def by linarith

lemma u32_at_lt: "u32_at buf off < 4294967296"
  using unat_byte_lt [of "buf ! off"] unat_byte_lt [of "buf ! (off + 1)"]
    unat_byte_lt [of "buf ! (off + 2)"] unat_byte_lt [of "buf ! (off + 3)"]
  unfolding u32_at_def by linarith

text \<open>
  Writing fields one after the other into a zeroed buffer: the state of the buffer is the
  fields written so far followed by what is still zero.
\<close>

lemma put_at_append [buf_simps]:
  "off = length pre \<Longrightarrow> length bs \<le> length rest \<Longrightarrow>
   put_at bs off (pre @ rest) = (pre @ bs) @ drop (length bs) rest"
  by (simp add: put_at_def)

lemma drop_alloc [buf_simps]: "drop k (Buffer_alloc n) = Buffer_alloc (n - k)"
  by (simp add: Buffer_alloc_def)

lemma put_at_replace [buf_simps]:
  "off = length pre \<Longrightarrow> length mid = length bs \<Longrightarrow> put_at bs off (pre @ mid @ rest) = pre @ bs @ rest"
  by (simp add: put_at_def)

lemma write_bytes_alloc [buf_simps]:
  "off = length pre \<Longrightarrow> length bs \<le> n \<Longrightarrow>
   write_bytes bs off (pre @ Buffer_alloc n) = Inr ((pre @ bs) @ Buffer_alloc (n - length bs))"
  by (simp add: write_bytes_def put_at_append drop_alloc)

lemma write_int [buf_simps]:
  "v < 256 \<Longrightarrow> writeUInt8 buf (int v) off = write_bytes (u8_bytes v) off buf"
  "v < 65536 \<Longrightarrow> writeUInt16BE buf (int v) off = write_bytes (u16_bytes v) off buf"
  "v < 4294967296 \<Longrightarrow> writeUInt32BE buf (int v) off = write_bytes (u32_bytes v) off buf"
  by (simp_all add: writeUInt8_def writeUInt16BE_def writeUInt32BE_def)

lemma write_numeral [buf_simps]:
  "writeUInt16BE buf 0 off = write_bytes (u16_bytes 0) off buf"
  "writeUInt16BE buf 16384 off = write_bytes (u16_bytes 16384) off buf"
  by (simp_all add: writeUInt16BE_def)

lemma buf_copy_alloc [buf_simps]:
  "off = length pre \<Longrightarrow> length bs \<le> n \<Longrightarrow>
   buf_copy bs (pre @ Buffer_alloc n) off = (pre @ bs) @ Buffer_alloc (n - length bs)"
  by (simp add: buf_copy_def put_at_append drop_alloc)

lemma buf_set_alloc [buf_simps]:
  "off = length pre \<Longrightarrow> 0 < n \<Longrightarrow>
   buf_set (pre @ Buffer_alloc n) off v = (pre @ [word_of_int v]) @ Buffer_alloc (n - 1)"
  by (cases n) (simp_all add: buf_set_def Buffer_alloc_def list_update_append)

text \<open>Reading a field back from a buffer that is split at its offset.\<close>

lemma nth_append_off: "(pre @ xs) ! (length pre + i) = xs ! i"
  by (simp add: nth_append)

lemma u16_at_append [buf_simps]:
  "off = length pre \<Longrightarrow> v < 65536 \<Longrightarrow> u16_at (pre @ u16_bytes v @ rest) off = v"
  using nth_append_off [of pre "u16_bytes v @ rest" 0] nth_append_off [of pre "u16_bytes v @ rest" 1]
  by (simp add: u16_at_def u16_bytes_def)

lemma u32_split: "(v::nat) < 4294967296 \<Longrightarrow>
   16777216 * (v div 16777216 mod 256) + 65536 * (v div 65536 mod 256)
   + 256 * (v div 256 mod 256) + v mod 256 = v"
proof -
  assume v: "v < 4294967296"
  define a where "a = v div 256"
  define b where "b = a div 256"
  have b: "v div 65536 = b" and c: "v div 16777216 = b div 256"
    using div_mult2_eq [of v 256 256] div_mult2_eq [of v 65536 256]
    by (simp_all add: a_def b_def)
  have "b div 256 mod 256 = b div 256"
    using v c by (intro mod_less) linarith
  moreover have "v = 256 * a + v mod 256" "a = 256 * b + a mod 256"
      "b = 256 * (b div 256) + b mod 256"
    by (simp_all add: a_def b_def)
  ultimately show ?thesis
    unfolding c b a_def [symmetric] by linarith
qed

lemma u32_at_append [buf_simps]:
  "off = length pre \<Longrightarrow> v < 4294967296 \<Longrightarrow> u32_at (pre @ u32_bytes v @ rest) off = v"
  using nth_append_off [of pre "u32_bytes v @ rest" 0] nth_append_off [of pre "u32_bytes v @ rest" 1]
    nth_append_off [of pre "u32_bytes v @ rest" 2] nth_append_off [of pre "u32_bytes v @ rest" 3]
    u32_split [of v]
  by (simp add: u32_at_def u32_bytes_def)

lemma subarray_append [buf_simps]:
  "a = length pre \<Longrightarrow> b = length pre + length mid \<Longrightarrow> subarray a b (pre @ mid @ rest) = mid"
  by (simp add: subarray_def)

section \<open>UTF-8\<close>

text \<open>\<open>Buffer.from(string)\<close>: surrogate pairs combine, a lone surrogate becomes U+FFFD.\<close>

definition utf8_point :: "nat \<Rightarrow> buffer" where
  "utf8_point c =
     (if c < 128 then [of_nat c]
      else if c < 2048 then [of_nat (192 + c div 64), of_nat (128 + c mod 64)]
      else if c < 65536 then
        [of_nat (224 + c div 4096), of_nat (128 + c div 64 mod 64), of_nat (128 + c mod 64)]
      else
        [of_nat (240 + c div 262144), of_nat (128 + c div 4096 mod 64),
         of_nat (128 + c div 64 mod 64), of_nat (128 + c mod 64)])"

definition hi_surr :: "nat \<Rightarrow> bool" where
  "hi_surr u \<longleftrightarrow> 55296 \<le> u \<and> u < 56320"

definition lo_surr :: "nat \<Rightarrow> bool" where
  "lo_surr u \<longleftrightarrow> 56320 \<le> u \<and> u < 57344"

fun code_points :: "jsstring \<Rightarrow> nat list" where
  "code_points [] = []"
| "code_points (u # us) =
     (if hi_surr u then
        (case us of
           v # vs \<Rightarrow> if lo_surr v
             then (65536 + (u - 55296) * 1024 + (v - 56320)) # code_points vs
             else 65533 # code_points us
         | [] \<Rightarrow> [65533])
      else if lo_surr u then 65533 # code_points us
      else u # code_points us)"

definition utf8_encode :: "jsstring \<Rightarrow> buffer" where
  "utf8_encode s = concat (map utf8_point (code_points s))"

text \<open>
  \<open>buffer.toString()\<close>: an ill-formed sequence is replaced by U+FFFD, one replacement per
  maximal prefix of a well-formed sequence.
\<close>

definition cont :: "nat \<Rightarrow> bool" where
  "cont b \<longleftrightarrow> 128 \<le> b \<and> b < 192"

definition second_ok :: "nat \<Rightarrow> nat \<Rightarrow> bool" where
  "second_ok b c \<longleftrightarrow>
     (if b = 224 then 160 \<le> c \<and> c < 192
      else if b = 237 then 128 \<le> c \<and> c < 160
      else if b = 240 then 144 \<le> c \<and> c < 192
      else if b = 244 then 128 \<le> c \<and> c < 144
      else cont c)"

fun decode_points :: "nat list \<Rightarrow> nat list" where
  "decode_points [] = []"
| "decode_points (b # bs) =
     (if b < 128 then b # decode_points bs
      else if 194 \<le> b \<and> b < 224 then
        (case bs of
           c # cs \<Rightarrow> if cont c then ((b - 192) * 64 + (c - 128)) # decode_points cs
                     else 65533 # decode_points bs
         | [] \<Rightarrow> [65533])
      else if 224 \<le> b \<and> b < 240 then
        (case bs of
           c # cs \<Rightarrow> if second_ok b c then
             (case cs of
                d # ds \<Rightarrow> if cont d
                  then ((b - 224) * 4096 + (c - 128) * 64 + (d - 128)) # decode_points ds
                  else 65533 # decode_points cs
              | [] \<Rightarrow> [65533])
             else 65533 # decode_points bs
         | [] \<Rightarrow> [65533])
      else if 240 \<le> b \<and> b < 245 then
        (case bs of
           c # cs \<Rightarrow> if second_ok b c then
             (case cs of
                d # ds \<Rightarrow> if cont d then
                  (case ds of
                     e # es \<Rightarrow> if cont e
                       then ((b - 240) * 262144 + (c - 128) * 4096 + (d - 128) * 64 + (e - 128))
                              # decode_points es
                       else 65533 # decode_points ds
                   | [] \<Rightarrow> [65533])
                  else 65533 # decode_points cs
              | [] \<Rightarrow> [65533])
             else 65533 # decode_points bs
         | [] \<Rightarrow> [65533])
      else 65533 # decode_points bs)"

definition code_units :: "nat list \<Rightarrow> jsstring" where
  "code_units cs =
     concat (map (\<lambda>c. if c < 65536 then [c]
       else [55296 + (c - 65536) div 1024, 56320 + (c - 65536) mod 1024]) cs)"

definition utf8_decode :: "buffer \<Rightarrow> jsstring" where
  "utf8_decode bs = code_units (decode_points (map unat bs))"

definition ascii :: "jsstring \<Rightarrow> bool" where
  "ascii s \<longleftrightarrow> (\<forall>c \<in> set s. c < 128)"

lemma ascii_simps [simp]:
  "ascii []" "ascii (c # s) \<longleftrightarrow> c < 128 \<and> ascii s" "ascii (s @ t) \<longleftrightarrow> ascii s \<and> ascii t"
  by (auto simp: ascii_def)

lemma ascii_replicate [simp]: "c < 128 \<Longrightarrow> ascii (replicate n c)"
  by (simp add: ascii_def)

lemma ascii_take [simp]: "ascii s \<Longrightarrow> ascii (take n s)"
  by (auto simp: ascii_def dest: in_set_takeD)

lemma code_points_ascii: "ascii s \<Longrightarrow> code_points s = s"
  by (induction s) (auto simp: hi_surr_def lo_surr_def)

lemma utf8_encode_ascii: "ascii s \<Longrightarrow> utf8_encode s = map of_nat s"
proof -
  assume s: "ascii s"
  have "concat (map utf8_point s) = map of_nat s"
    using s by (induction s) (auto simp: utf8_point_def)
  then show ?thesis using s by (simp add: utf8_encode_def code_points_ascii)
qed

lemma decode_points_ascii: "ascii s \<Longrightarrow> decode_points s = s"
  by (induction s) auto

lemma code_units_ascii: "ascii s \<Longrightarrow> code_units s = s"
  by (induction s) (auto simp: code_units_def)

lemma utf8_roundtrip_ascii [simp]: "ascii s \<Longrightarrow> utf8_decode (utf8_encode s) = s"
proof -
  assume s: "ascii s"
  have "map unat (map of_nat s :: buffer) = s"
    using s by (induction s) auto
  then show ?thesis
    using s by (simp add: utf8_encode_ascii utf8_decode_def decode_points_ascii code_units_ascii)
qed

lemma length_utf8_encode_ascii [simp]: "ascii s \<Longrightarrow> length (utf8_encode s) = length s"
  by (simp add: utf8_encode_ascii)

section \<open>Ordered maps and sets\<close>

text \<open>
  A \<open>Map\<close> keeps its keys in insertion order: setting an existing key keeps its place, a new
  key goes to the end. \<open>AList.update\<close> and \<open>AList.delete\<close> do exactly that.
\<close>

type_synonym ('k, 'v) jsmap = "('k \<times> 'v) list"

abbreviation map_get :: "('k, 'v) jsmap \<Rightarrow> 'k \<Rightarrow> 'v option" where
  "map_get m k \<equiv> map_of m k"

abbreviation map_put :: "'k \<Rightarrow> 'v \<Rightarrow> ('k, 'v) jsmap \<Rightarrow> ('k, 'v) jsmap" where
  "map_put k v m \<equiv> AList.update k v m"

abbreviation map_del :: "'k \<Rightarrow> ('k, 'v) jsmap \<Rightarrow> ('k, 'v) jsmap" where
  "map_del k m \<equiv> AList.delete k m"

abbreviation map_keys :: "('k, 'v) jsmap \<Rightarrow> 'k list" where
  "map_keys m \<equiv> map fst m"

definition wf_map :: "('k, 'v) jsmap \<Rightarrow> bool" where
  "wf_map m \<longleftrightarrow> distinct (map fst m)"

lemma wf_map_Nil [simp]: "wf_map []"
  by (simp add: wf_map_def)

lemma wf_map_put [simp]: "wf_map m \<Longrightarrow> wf_map (map_put k v m)"
  by (simp add: wf_map_def distinct_update)

lemma wf_map_del [simp]: "wf_map m \<Longrightarrow> wf_map (map_del k m)"
  by (simp add: wf_map_def distinct_delete)

lemma map_get_put [simp]: "map_get (map_put k v m) k' = (if k' = k then Some v else map_get m k')"
  by (simp add: update_conv)

lemma map_get_del [simp]: "map_get (map_del k m) k' = (if k' = k then None else map_get m k')"
  by (simp add: delete_conv)

lemma map_get_None_iff: "map_get m k = None \<longleftrightarrow> k \<notin> set (map_keys m)"
  by (auto simp: map_of_eq_None_iff)

lemma map_get_SomeD: "map_get m k = Some v \<Longrightarrow> (k, v) \<in> set m"
  by (rule map_of_SomeD)

lemma wf_map_get_iff: "wf_map m \<Longrightarrow> map_get m k = Some v \<longleftrightarrow> (k, v) \<in> set m"
  by (simp add: wf_map_def)

lemma length_map_put:
  "length (map_put k v m) = (if map_get m k = None then Suc (length m) else length m)"
  by (induction m) auto

lemma keys_map_put: "set (map_keys (map_put k v m)) = insert k (set (map_keys m))"
  by (induction m) auto

text \<open>A \<open>Set\<close> in insertion order.\<close>

definition set_add :: "'a \<Rightarrow> 'a list \<Rightarrow> 'a list" where
  "set_add x xs = (if x \<in> set xs then xs else xs @ [x])"

definition set_del :: "'a \<Rightarrow> 'a list \<Rightarrow> 'a list" where
  "set_del x xs = filter (\<lambda>y. y \<noteq> x) xs"

lemma set_set_add [simp]: "set (set_add x xs) = insert x (set xs)"
  by (auto simp: set_add_def)

lemma set_set_del [simp]: "set (set_del x xs) = set xs - {x}"
  by (auto simp: set_del_def)

lemma distinct_set_add [simp]: "distinct xs \<Longrightarrow> distinct (set_add x xs)"
  by (auto simp: set_add_def)

lemma distinct_set_del [simp]: "distinct xs \<Longrightarrow> distinct (set_del x xs)"
  by (simp add: set_del_def)

section \<open>Interfaces\<close>

text \<open>
  A dictionary and the sweep that several components run over theirs from a timer: visit
  the keys, delete those whose value is expired.
\<close>

locale dict =
  fixes get :: "'m \<Rightarrow> 'k \<Rightarrow> 'v option"
    and del :: "'k \<Rightarrow> 'm \<Rightarrow> 'm"
    and keys :: "'m \<Rightarrow> 'k list"
  assumes get_del: "get (del k m) k' = (if k' = k then None else get m k')"
    and get_keys: "get m k \<noteq> None \<Longrightarrow> k \<in> set (keys m)"
begin

definition sweep :: "('v \<Rightarrow> bool) \<Rightarrow> 'm \<Rightarrow> 'm" where
  "sweep expired m =
     fold (\<lambda>k m'. case get m' k of
             Some v \<Rightarrow> if expired v then del k m' else m' | None \<Rightarrow> m') (keys m) m"

lemma get_sweep_step:
  "get (case get m k of Some v \<Rightarrow> if expired v then del k m else m | None \<Rightarrow> m) k' =
   (case get m k' of Some v \<Rightarrow> if k' = k \<and> expired v then None else Some v | None \<Rightarrow> None)"
  by (auto simp: get_del split: option.splits)

lemma get_sweep_fold:
  "get (fold (\<lambda>k m'. case get m' k of
             Some v \<Rightarrow> if expired v then del k m' else m' | None \<Rightarrow> m') ks m) k' =
   (case get m k' of Some v \<Rightarrow> if k' \<in> set ks \<and> expired v then None else Some v | None \<Rightarrow> None)"
proof (induction ks arbitrary: m)
  case Nil
  then show ?case by (simp split: option.splits)
next
  case (Cons k ks)
  show ?case
    unfolding fold_simps(2) comp_apply Cons.IH get_sweep_step
    by (auto split: option.splits)
qed

lemma get_sweep:
  "get (sweep expired m) k =
   (case get m k of Some v \<Rightarrow> if expired v then None else Some v | None \<Rightarrow> None)"
  using get_keys [of m k] by (auto simp: sweep_def get_sweep_fold split: option.splits)

lemma sweep_survivor: "get (sweep expired m) k = Some v \<longleftrightarrow> get m k = Some v \<and> \<not> expired v"
  by (auto simp: get_sweep split: option.splits)

end

interpretation jsd: dict "map_of :: ('k \<times> 'v) list \<Rightarrow> 'k \<Rightarrow> 'v option" AList.delete "map fst"
  by unfold_locales (auto simp: delete_conv' map_of_eq_None_iff)

text \<open>
  A sequence of packets, each behind a fixed-width length prefix: the layout that the
  batcher and the transport frame share.
\<close>

locale prefixed =
  fixes width :: nat
    and put_len :: "nat \<Rightarrow> buffer"
    and len_at :: "buffer \<Rightarrow> nat \<Rightarrow> nat"
    and max_len :: nat
  assumes length_put_len: "length (put_len n) = width"
    and len_at_put: "n < max_len \<Longrightarrow> len_at (pre @ put_len n @ rest) (length pre) = n"
begin

definition packed :: "buffer list \<Rightarrow> buffer" where
  "packed pkts = concat (map (\<lambda>p. put_len (length p) @ p) pkts)"

lemma packed_simps: "packed [] = []" "packed (p # ps) = put_len (length p) @ p @ packed ps"
  by (simp_all add: packed_def)

lemma packed_append: "packed (ps @ qs) = packed ps @ packed qs"
  by (simp add: packed_def)

lemma length_packed: "length (packed ps) = (\<Sum>p\<leftarrow>ps. width + length p)"
  by (induction ps) (simp_all add: packed_simps length_put_len)

lemma packed_prefix_length:
  "length p < max_len \<Longrightarrow> len_at (pre @ packed (p # ps)) (length pre) = length p"
  by (simp add: packed_simps len_at_put)

lemma packed_payload:
  "subarray (length pre + width) (length pre + width + length p) (pre @ packed (p # ps)) = p"
  using subarray_append [of "length (pre @ put_len (length p))" "pre @ put_len (length p)"
      "length (pre @ put_len (length p)) + length p" p "packed ps"]
  by (simp add: packed_simps length_put_len)

end

interpretation p16: prefixed 2 u16_bytes u16_at 65536
  by unfold_locales (simp_all add: u16_at_append)

interpretation p32: prefixed 4 u32_bytes u32_at 4294967296
  by unfold_locales (simp_all add: u32_at_append)

end
