(* ===== verification/Packet_Wire.thy ===== *)
theory Packet_Wire
  imports Mesh_Prelude
begin

text \<open>
  The mesh packet of \<open>src/network/packet.js\<close> (class \<open>Packet\<close> and the \<open>create*Packet\<close>
  helpers): its constructor with the defaults of \<open>||\<close> and \<open>??\<close>, the flow id counter of the
  module, TTL and visited-node bookkeeping, and the two wire formats. \<open>Date.now()\<close> is the
  argument \<open>now\<close>, the module variables \<open>flowIdPrefix\<close> and \<open>flowIdCounter\<close> are a record that
  is passed along. Version 1 calls \<open>JSON.parse\<close>, which is the argument \<open>parse_json\<close>
  (\<open>None\<close> for a thrown \<open>SyntaxError\<close>).
\<close>

section \<open>Constants and data\<close>

definition PT_DATA :: int where "PT_DATA = 1"
definition PT_CONTROL :: int where "PT_CONTROL = 2"
definition PT_PING :: int where "PT_PING = 3"
definition PT_PONG :: int where "PT_PONG = 4"
definition PT_ACK :: int where "PT_ACK = 5"
definition PT_ROUTE_REQUEST :: int where "PT_ROUTE_REQUEST = 6"
definition PT_ROUTE_RESPONSE :: int where "PT_ROUTE_RESPONSE = 7"
definition PT_DATA_DIRECT :: int where "PT_DATA_DIRECT = 8"

lemmas packet_types = PT_DATA_def PT_CONTROL_def PT_PING_def PT_PONG_def PT_ACK_def
  PT_ROUTE_REQUEST_def PT_ROUTE_RESPONSE_def PT_DATA_DIRECT_def

definition DEFAULT_TTL :: int where "DEFAULT_TTL = 32"
definition MAX_TTL :: int where "MAX_TTL = 64"

record packet =
  p_version :: int
  p_type :: int
  p_flowId :: jsstring
  p_seq :: int
  p_hop :: int
  p_ttl :: int
  p_srcNode :: "jsstring option"
  p_dstNode :: "jsstring option"
  p_route :: "jsstring list"
  p_visitedNodes :: "jsstring list"
  p_timestamp :: int
  p_payload :: buffer

text \<open>The constructor's argument: a property that is absent is \<open>None\<close>.\<close>

record packet_options =
  o_version :: "int option"
  o_type :: "int option"
  o_flowId :: "jsstring option"
  o_seq :: "int option"
  o_hop :: "int option"
  o_ttl :: "int option"
  o_srcNode :: "jsstring option"
  o_dstNode :: "jsstring option"
  o_route :: "jsstring list option"
  o_visitedNodes :: "jsstring list option"
  o_timestamp :: "int option"
  o_payload :: "buffer option"

definition no_options :: packet_options where
  "no_options = \<lparr>o_version = None, o_type = None, o_flowId = None, o_seq = None, o_hop = None,
     o_ttl = None, o_srcNode = None, o_dstNode = None, o_route = None, o_visitedNodes = None,
     o_timestamp = None, o_payload = None\<rparr>"

record flow_gen =
  flowIdPrefix :: jsstring
  flowIdCounter :: nat

definition init_flow_gen :: "nat \<Rightarrow> flow_gen" where
  "init_flow_gen now = \<lparr>flowIdPrefix = slice_last 8 (to_radix 16 now), flowIdCounter = 0\<rparr>"

definition generateFlowId :: "flow_gen \<Rightarrow> jsstring \<times> flow_gen" where
  "generateFlowId g =
     (flowIdPrefix g @ padStart 8 48 (to_radix 16 (flowIdCounter g)),
      g\<lparr>flowIdCounter := flowIdCounter g + 1\<rparr>)"

text \<open>\<open>x || d\<close> on numbers (0 and undefined are falsy) and on strings.\<close>

definition or_num :: "int option \<Rightarrow> int \<Rightarrow> int" where
  "or_num x d = (case x of Some v \<Rightarrow> if v = 0 then d else v | None \<Rightarrow> d)"

definition or_str :: "jsstring option \<Rightarrow> jsstring option" where
  "or_str x = (case x of Some s \<Rightarrow> or_null s | None \<Rightarrow> None)"

definition new_Packet :: "int \<Rightarrow> flow_gen \<Rightarrow> packet_options \<Rightarrow> packet \<times> flow_gen" where
  "new_Packet now g opt =
     (let (fid, g') = (case or_str (o_flowId opt) of Some f \<Rightarrow> (f, g) | None \<Rightarrow> generateFlowId g) in
      (\<lparr>p_version = or_num (o_version opt) 1,
        p_type = or_num (o_type opt) PT_DATA,
        p_flowId = fid,
        p_seq = or_num (o_seq opt) 0,
        p_hop = or_num (o_hop opt) 0,
        p_ttl = (case o_ttl opt of Some t \<Rightarrow> t | None \<Rightarrow> DEFAULT_TTL),
        p_srcNode = or_str (o_srcNode opt),
        p_dstNode = or_str (o_dstNode opt),
        p_route = (case o_route opt of Some r \<Rightarrow> r | None \<Rightarrow> []),
        p_visitedNodes = (case o_visitedNodes opt of Some v \<Rightarrow> v | None \<Rightarrow> []),
        p_timestamp = or_num (o_timestamp opt) now,
        p_payload = (case o_payload opt of Some b \<Rightarrow> b | None \<Rightarrow> [])\<rparr>, g'))"

lemma new_Packet_fields:
  "p_version (fst (new_Packet now g opt)) = or_num (o_version opt) 1"
  "p_type (fst (new_Packet now g opt)) = or_num (o_type opt) PT_DATA"
  "p_seq (fst (new_Packet now g opt)) = or_num (o_seq opt) 0"
  "p_hop (fst (new_Packet now g opt)) = or_num (o_hop opt) 0"
  "p_ttl (fst (new_Packet now g opt)) = (case o_ttl opt of Some t \<Rightarrow> t | None \<Rightarrow> DEFAULT_TTL)"
  "p_srcNode (fst (new_Packet now g opt)) = or_str (o_srcNode opt)"
  "p_dstNode (fst (new_Packet now g opt)) = or_str (o_dstNode opt)"
  "p_route (fst (new_Packet now g opt)) = (case o_route opt of Some r \<Rightarrow> r | None \<Rightarrow> [])"
  "p_visitedNodes (fst (new_Packet now g opt)) = (case o_visitedNodes opt of Some v \<Rightarrow> v | None \<Rightarrow> [])"
  "p_timestamp (fst (new_Packet now g opt)) = or_num (o_timestamp opt) now"
  "p_payload (fst (new_Packet now g opt)) = (case o_payload opt of Some b \<Rightarrow> b | None \<Rightarrow> [])"
  by (simp_all add: new_Packet_def split: prod.splits)

lemma new_Packet_flowId: "p_flowId (fst (new_Packet now g opt)) \<noteq> []"
  by (auto simp: new_Packet_def or_str_def or_null_def generateFlowId_def padStart_def
      to_radix_nonempty split: option.splits)

section \<open>Methods\<close>

definition decrementTTL :: "packet \<Rightarrow> packet \<times> bool" where
  "decrementTTL p = (let p' = p\<lparr>p_ttl := p_ttl p - 1\<rparr> in (p', p_ttl p' > 0))"

definition isTTLExpired :: "packet \<Rightarrow> bool" where
  "isTTLExpired p \<longleftrightarrow> p_ttl p \<le> 0"

definition hasVisited :: "packet \<Rightarrow> jsstring \<Rightarrow> bool" where
  "hasVisited p n \<longleftrightarrow> n \<in> set (p_visitedNodes p)"

definition addVisitedNode :: "packet \<Rightarrow> jsstring \<Rightarrow> packet" where
  "addVisitedNode p n =
     (if n \<notin> set (p_visitedNodes p) then p\<lparr>p_visitedNodes := p_visitedNodes p @ [n]\<rparr> else p)"

definition getVisitedCount :: "packet \<Rightarrow> nat" where
  "getVisitedCount p = length (p_visitedNodes p)"

definition incrementHop :: "packet \<Rightarrow> packet" where
  "incrementHop p = p\<lparr>p_hop := p_hop p + 1\<rparr>"

definition getNextHop :: "packet \<Rightarrow> jsstring option" where
  "getNextHop p =
     (if p_hop p < int (length (p_route p)) \<and> 0 \<le> p_hop p
      then Some (p_route p ! nat (p_hop p)) else None)"

definition isLastHop :: "packet \<Rightarrow> bool" where
  "isLastHop p \<longleftrightarrow> p_hop p \<ge> int (length (p_route p)) - 1"

definition clone :: "int \<Rightarrow> flow_gen \<Rightarrow> packet \<Rightarrow> packet \<times> flow_gen" where
  "clone now g p = new_Packet now g
     \<lparr>o_version = Some (p_version p), o_type = Some (p_type p), o_flowId = Some (p_flowId p),
      o_seq = Some (p_seq p), o_hop = Some (p_hop p), o_ttl = Some (p_ttl p),
      o_srcNode = p_srcNode p, o_dstNode = p_dstNode p, o_route = Some (p_route p),
      o_visitedNodes = Some (p_visitedNodes p), o_timestamp = Some (p_timestamp p),
      o_payload = Some (p_payload p)\<rparr>"

section \<open>Serialisation, version 2\<close>

text \<open>\<open>Buffer.from(s.padEnd(16, '\0').slice(0, 16))\<close>\<close>

definition node_field :: "jsstring \<Rightarrow> buffer" where
  "node_field s = utf8_encode (take 16 (padEnd 16 0 s))"

definition str_or_empty :: "jsstring option \<Rightarrow> jsstring" where
  "str_or_empty s = (case s of Some x \<Rightarrow> x | None \<Rightarrow> [])"

fun write_route :: "jsstring list \<Rightarrow> buffer \<Rightarrow> nat \<Rightarrow> buffer \<times> nat" where
  "write_route [] buffer offset = (buffer, offset)"
| "write_route (nodeId # ids) buffer offset =
     write_route ids (buf_copy (node_field nodeId) buffer offset) (offset + 16)"

definition serialize :: "packet \<Rightarrow> buffer res" where
  "serialize p =
     (let routeCount = length (p_route p);
          totalSize = 58 + routeCount * 16 + 4 + length (p_payload p) in
      ebind (writeUInt8 (Buffer_alloc totalSize) 2 0) (\<lambda>buffer.
      ebind (writeUInt8 buffer (p_type p) 1) (\<lambda>buffer.
      ebind (writeUInt16BE buffer (p_hop p) 2) (\<lambda>buffer.
      ebind (writeUInt8 buffer (p_ttl p) 4) (\<lambda>buffer.
      ebind (writeUInt8 buffer (int routeCount) 5) (\<lambda>buffer.
      ebind (writeUInt32BE buffer (p_seq p) 6) (\<lambda>buffer.
      let buffer = buf_copy (node_field (p_flowId p)) buffer 10;
          buffer = buf_copy (node_field (str_or_empty (p_srcNode p))) buffer 26;
          buffer = buf_copy (node_field (str_or_empty (p_dstNode p))) buffer 42;
          (buffer, offset) = write_route (p_route p) buffer 58 in
      ebind (writeUInt32BE buffer (int (length (p_payload p))) offset) (\<lambda>buffer.
      Inr (buf_copy (p_payload p) buffer (offset + 4))))))))))"

text \<open>\<open>buffer.subarray(o, o + 16).toString().replace(/\0/g, '')\<close>\<close>

definition read_id :: "buffer \<Rightarrow> nat \<Rightarrow> jsstring" where
  "read_id buffer off = strip_nul (utf8_decode (subarray off (off + 16) buffer))"

definition deserializeV2 :: "int \<Rightarrow> flow_gen \<Rightarrow> buffer \<Rightarrow> (packet \<times> flow_gen) res" where
  "deserializeV2 now g buffer =
     (if length buffer < 58 then Inl (Err ''Buffer too short for v2 packet header'') else
      ebind (readUInt8 buffer 0) (\<lambda>version.
      ebind (readUInt8 buffer 1) (\<lambda>type.
      ebind (readUInt16BE buffer 2) (\<lambda>hop.
      ebind (readUInt8 buffer 4) (\<lambda>ttl.
      ebind (readUInt8 buffer 5) (\<lambda>routeCount.
      ebind (readUInt32BE buffer 6) (\<lambda>seq.
      let flowId = read_id buffer 10;
          srcNode = or_null (read_id buffer 26);
          dstNode = or_null (read_id buffer 42);
          route = map (\<lambda>i. read_id buffer (58 + 16 * i)) [0..<routeCount];
          offset = 58 + 16 * routeCount in
      ebind (readUInt32BE buffer offset) (\<lambda>payloadLen.
      let payload = subarray (offset + 4) (offset + 4 + payloadLen) buffer in
      Inr (new_Packet now g
        \<lparr>o_version = Some (int version), o_type = Some (int type), o_flowId = Some flowId,
         o_seq = Some (int seq), o_hop = Some (int hop), o_ttl = Some (int ttl),
         o_srcNode = srcNode, o_dstNode = dstNode, o_route = Some route,
         o_visitedNodes = Some [], o_timestamp = Some now, o_payload = Some payload\<rparr>)))))))))"

section \<open>Deserialisation, version 1\<close>

fun excess_bits :: "nat \<Rightarrow> nat" where
  "excess_bits n = (if n < 9007199254740992 then 0 else Suc (excess_bits (n div 2)))"

declare excess_bits.simps [simp del]

text \<open>\<open>Number(bigint)\<close>: round to 53 bits, ties to even.\<close>

definition number_of_big :: "nat \<Rightarrow> nat" where
  "number_of_big n =
     (let k = excess_bits n; q = n div 2 ^ k; r = n mod 2 ^ k; half = 2 ^ (k - 1) in
      if k = 0 then n
      else if half < r \<or> r = half \<and> odd q then (q + 1) * 2 ^ k else q * 2 ^ k)"

definition readBigUInt64BE :: "buffer \<Rightarrow> nat \<Rightarrow> nat res" where
  "readBigUInt64BE buf off =
     (if off + 8 \<le> length buf then Inr (4294967296 * u32_at buf off + u32_at buf (off + 4))
      else Inl RangeError)"

definition json_or_throw :: "'a option \<Rightarrow> 'a res" where
  "json_or_throw x = (case x of Some v \<Rightarrow> Inr v | None \<Rightarrow> Inl SyntaxError)"

definition deserializeV1 ::
  "(jsstring \<Rightarrow> jsstring list option) \<Rightarrow> int \<Rightarrow> flow_gen \<Rightarrow> buffer \<Rightarrow> (packet \<times> flow_gen) res" where
  "deserializeV1 parse_json now g buffer =
     (if length buffer < 66 then Inl (Err ''Buffer too short for v1 packet header'') else
      ebind (readUInt8 buffer 0) (\<lambda>version.
      ebind (readUInt8 buffer 1) (\<lambda>type.
      ebind (readUInt16BE buffer 2) (\<lambda>hop.
      ebind (readUInt8 buffer 4) (\<lambda>ttl.
      ebind (readUInt32BE buffer 6) (\<lambda>seq.
      let flowId = read_id buffer 10;
          srcNode = or_null (read_id buffer 26);
          dstNode = or_null (read_id buffer 42) in
      ebind (readBigUInt64BE buffer 58) (\<lambda>timestamp.
      ebind (readUInt16BE buffer 66) (\<lambda>routeLen.
      ebind (json_or_throw (parse_json (utf8_decode (subarray 68 (68 + routeLen) buffer)))) (\<lambda>route.
      let offset = 68 + routeLen in
      ebind (readUInt16BE buffer offset) (\<lambda>visitedLen.
      let offset = offset + 2 in
      ebind (json_or_throw (parse_json (utf8_decode (subarray offset (offset + visitedLen) buffer)))) (\<lambda>visitedNodes.
      let offset = offset + visitedLen in
      ebind (readUInt32BE buffer offset) (\<lambda>payloadLen.
      let offset = offset + 4;
          payload = subarray offset (offset + payloadLen) buffer in
      Inr (new_Packet now g
        \<lparr>o_version = Some (int version), o_type = Some (int type), o_flowId = Some flowId,
         o_seq = Some (int seq), o_hop = Some (int hop), o_ttl = Some (int ttl),
         o_srcNode = srcNode, o_dstNode = dstNode, o_route = Some route,
         o_visitedNodes = Some visitedNodes,
         o_timestamp = Some (int (number_of_big timestamp)),
         o_payload = Some payload\<rparr>)))))))))))))"

definition deserialize ::
  "(jsstring \<Rightarrow> jsstring list option) \<Rightarrow> int \<Rightarrow> flow_gen \<Rightarrow> buffer \<Rightarrow> (packet \<times> flow_gen) res" where
  "deserialize parse_json now g buffer =
     (if length buffer < 6 then Inl (Err ''Buffer too short for packet header'') else
      ebind (readUInt8 buffer 0) (\<lambda>version.
      if version = 2 then deserializeV2 now g buffer
      else deserializeV1 parse_json now g buffer))"

section \<open>Packet factories\<close>

definition createDataPacket ::
  "int \<Rightarrow> flow_gen \<Rightarrow> jsstring option \<Rightarrow> jsstring option \<Rightarrow> jsstring list \<Rightarrow> buffer \<Rightarrow>
   jsstring option \<Rightarrow> int \<Rightarrow> packet \<times> flow_gen" where
  "createDataPacket now g srcNode dstNode route payload flowId ttl = new_Packet now g
     (no_options\<lparr>o_type := Some PT_DATA, o_srcNode := srcNode, o_dstNode := dstNode,
        o_route := Some route, o_payload := Some payload, o_flowId := flowId, o_ttl := Some ttl\<rparr>)"

definition createPingPacket :: "int \<Rightarrow> flow_gen \<Rightarrow> jsstring option \<Rightarrow> packet \<times> flow_gen" where
  "createPingPacket now g srcNode = new_Packet now g
     (no_options\<lparr>o_type := Some PT_PING, o_srcNode := srcNode, o_timestamp := Some now\<rparr>)"

definition int_str :: "int \<Rightarrow> jsstring" where
  "int_str n = (if n < 0 then 45 # dec (nat (- n)) else dec (nat n))"

definition createPongPacket :: "int \<Rightarrow> flow_gen \<Rightarrow> jsstring option \<Rightarrow> int \<Rightarrow> packet \<times> flow_gen" where
  "createPongPacket now g srcNode originalTimestamp = new_Packet now g
     (no_options\<lparr>o_type := Some PT_PONG, o_srcNode := srcNode,
        o_payload := Some (utf8_encode (int_str originalTimestamp))\<rparr>)"

definition createAckPacket ::
  "int \<Rightarrow> flow_gen \<Rightarrow> jsstring option \<Rightarrow> jsstring option \<Rightarrow> int \<Rightarrow> packet \<times> flow_gen" where
  "createAckPacket now g srcNode flowId seq = new_Packet now g
     (no_options\<lparr>o_type := Some PT_ACK, o_srcNode := srcNode, o_flowId := flowId,
        o_seq := Some seq\<rparr>)"

section \<open>The wire image\<close>

text \<open>Identifiers that survive the 16-byte fields: ASCII, without NUL, at most 16 characters.\<close>

definition id_ok :: "jsstring \<Rightarrow> bool" where
  "id_ok s \<longleftrightarrow> ascii s \<and> 0 \<notin> set s \<and> length s \<le> 16"

definition wf_packet :: "packet \<Rightarrow> bool" where
  "wf_packet p \<longleftrightarrow>
     0 < p_type p \<and> p_type p < 256 \<and> 0 \<le> p_hop p \<and> p_hop p < 65536 \<and>
     0 \<le> p_ttl p \<and> p_ttl p < 256 \<and> length (p_route p) < 256 \<and>
     0 \<le> p_seq p \<and> p_seq p < 4294967296 \<and>
     p_flowId p \<noteq> [] \<and> id_ok (p_flowId p) \<and>
     (\<forall>s \<in> set_option (p_srcNode p) \<union> set_option (p_dstNode p). s \<noteq> [] \<and> id_ok s) \<and>
     list_all id_ok (p_route p) \<and> length (p_payload p) < 4294967296"

definition wire_header :: "packet \<Rightarrow> buffer" where
  "wire_header p =
     u8_bytes 2 @ u8_bytes (nat (p_type p)) @ u16_bytes (nat (p_hop p)) @ u8_bytes (nat (p_ttl p))
     @ u8_bytes (length (p_route p)) @ u32_bytes (nat (p_seq p))"

definition wire_ids :: "packet \<Rightarrow> buffer" where
  "wire_ids p = node_field (p_flowId p) @ node_field (str_or_empty (p_srcNode p))
     @ node_field (str_or_empty (p_dstNode p))"

definition wire :: "packet \<Rightarrow> buffer" where
  "wire p = wire_header p @ wire_ids p @ concat (map node_field (p_route p))
     @ u32_bytes (length (p_payload p)) @ p_payload p"

lemma id_ok_Nil [simp]: "id_ok []"
  by (simp add: id_ok_def)

lemma id_ok_str_or_empty: "wf_packet p \<Longrightarrow>
   id_ok (p_flowId p) \<and> id_ok (str_or_empty (p_srcNode p)) \<and> id_ok (str_or_empty (p_dstNode p))"
  by (auto simp: wf_packet_def str_or_empty_def split: option.splits)

lemma padded_id: "id_ok s \<Longrightarrow> ascii (padEnd 16 0 s) \<and> length (padEnd 16 0 s) = 16"
  by (simp add: id_ok_def padEnd_def)

lemma length_node_field [simp]: "id_ok s \<Longrightarrow> length (node_field s) = 16"
  using padded_id [of s] by (simp add: node_field_def)

lemma strip_nul_padEnd: "0 \<notin> set s \<Longrightarrow> strip_nul (padEnd n 0 s) = s"
  by (auto simp: strip_nul_def padEnd_def filter_id_conv intro: gr0I)

lemma decode_node_field [simp]: "id_ok s \<Longrightarrow> strip_nul (utf8_decode (node_field s)) = s"
  using padded_id [of s] by (simp add: node_field_def id_ok_def strip_nul_padEnd)

lemma write_route_alloc:
  "list_all id_ok ids \<Longrightarrow> off = length pre \<Longrightarrow> 16 * length ids \<le> n \<Longrightarrow>
   write_route ids (pre @ Buffer_alloc n) off =
     ((pre @ concat (map node_field ids)) @ Buffer_alloc (n - 16 * length ids), off + 16 * length ids)"
proof (induction ids arbitrary: pre n off)
  case Nil
  then show ?case by simp
next
  case (Cons i ids)
  then have "write_route (i # ids) (pre @ Buffer_alloc n) off =
      write_route ids ((pre @ node_field i) @ Buffer_alloc (n - 16)) (off + 16)"
    by (simp add: buf_copy_alloc del: append_assoc)
  also have "\<dots> = (((pre @ node_field i) @ concat (map node_field ids))
      @ Buffer_alloc (n - 16 - 16 * length ids), off + 16 + 16 * length ids)"
    using Cons.prems by (intro Cons.IH) auto
  finally show ?case by simp
qed

lemma length_route_fields:
  "list_all id_ok ids \<Longrightarrow> length (concat (map node_field ids)) = 16 * length ids"
  by (induction ids) auto

lemma serialize_wire:
  assumes wf: "wf_packet p"
  shows "serialize p = Inr (wire p)"
proof -
  define n where "n = length (p_route p) * 16 + 4 + length (p_payload p)"
  have start: "Buffer_alloc (58 + length (p_route p) * 16 + 4 + length (p_payload p)) = [] @ Buffer_alloc (58 + n)"
    by (simp add: n_def add.assoc)
  note ids = id_ok_str_or_empty [OF wf]
  have bounds: "0 \<le> p_type p \<and> p_type p < 256" "0 \<le> p_hop p \<and> p_hop p < 65536"
      "0 \<le> p_ttl p \<and> p_ttl p < 256" "length (p_route p) < 256"
      "0 \<le> p_seq p \<and> p_seq p < 4294967296" "list_all id_ok (p_route p)"
      "length (p_payload p) < 4294967296"
    using wf by (auto simp: wf_packet_def)
  have route: "write_route (p_route p) (pre @ Buffer_alloc n) 58 =
      ((pre @ concat (map node_field (p_route p))) @ Buffer_alloc (4 + length (p_payload p)),
       58 + 16 * length (p_route p))" if "length pre = 58" for pre
    using write_route_alloc [of "p_route p" 58 pre n] that bounds(6) by (simp add: n_def)
  note len = length_route_fields [OF bounds(6)]
  show ?thesis
    unfolding serialize_def Let_def start
    using bounds ids len
    by (simp add: writeUInt8_def writeUInt16BE_def writeUInt32BE_def write_bytes_alloc
        buf_copy_alloc route del: append_assoc append.simps)
      (simp add: wire_def wire_header_def wire_ids_def Buffer_alloc_def)
qed

section \<open>Reading the wire image back\<close>

lemma length_wire_header [simp]: "length (wire_header p) = 10"
  by (simp add: wire_header_def)

lemma length_wire_ids: "wf_packet p \<Longrightarrow> length (wire_ids p) = 48"
  using id_ok_str_or_empty [of p] by (simp add: wire_ids_def)

lemma read_id_split:
  "off = length pre \<Longrightarrow> id_ok s \<Longrightarrow> read_id (pre @ node_field s @ rest) off = s"
  by (simp add: read_id_def subarray_append)

lemma wire_fixed_fields:
  assumes "wf_packet p"
  shows "readUInt8 (wire p) 0 = Inr 2" "readUInt8 (wire p) 1 = Inr (nat (p_type p))"
    "readUInt16BE (wire p) 2 = Inr (nat (p_hop p))" "readUInt8 (wire p) 4 = Inr (nat (p_ttl p))"
    "readUInt8 (wire p) 5 = Inr (length (p_route p))"
    "readUInt32BE (wire p) 6 = Inr (nat (p_seq p))"
proof -
  define rest where "rest = wire_ids p @ concat (map node_field (p_route p))
     @ u32_bytes (length (p_payload p)) @ p_payload p"
  have w: "wire p = wire_header p @ rest" by (simp add: wire_def rest_def)
  have bounds: "nat (p_type p) < 256" "nat (p_ttl p) < 256" "length (p_route p) < 256"
      "nat (p_hop p) < 65536" "nat (p_seq p) < 4294967296"
    using assms by (auto simp: wf_packet_def nat_less_iff)
  have hop: "u16_at (wire_header p @ rest) 2 = nat (p_hop p)"
    using u16_at_append [of 2 "u8_bytes 2 @ u8_bytes (nat (p_type p))" "nat (p_hop p)"] bounds
    by (simp add: wire_header_def)
  have seq: "u32_at (wire_header p @ rest) 6 = nat (p_seq p)"
    using u32_at_append [of 6 "u8_bytes 2 @ u8_bytes (nat (p_type p)) @ u16_bytes (nat (p_hop p))
        @ u8_bytes (nat (p_ttl p)) @ u8_bytes (length (p_route p))" "nat (p_seq p)"] bounds
    by (simp add: wire_header_def)
  show "readUInt16BE (wire p) 2 = Inr (nat (p_hop p))" "readUInt32BE (wire p) 6 = Inr (nat (p_seq p))"
    by (simp_all add: readUInt16BE_def readUInt32BE_def w hop seq)
  show "readUInt8 (wire p) 0 = Inr 2" "readUInt8 (wire p) 1 = Inr (nat (p_type p))"
      "readUInt8 (wire p) 4 = Inr (nat (p_ttl p))" "readUInt8 (wire p) 5 = Inr (length (p_route p))"
    using bounds
    by (simp_all add: readUInt8_def w wire_header_def u8_bytes_def u16_bytes_def u32_bytes_def)
qed

lemma wire_id_fields:
  assumes "wf_packet p"
  shows "read_id (wire p) 10 = p_flowId p"
    "read_id (wire p) 26 = str_or_empty (p_srcNode p)"
    "read_id (wire p) 42 = str_or_empty (p_dstNode p)"
  using id_ok_str_or_empty [OF assms]
    read_id_split [of 10 "wire_header p"]
    read_id_split [of 26 "wire_header p @ node_field (p_flowId p)"]
    read_id_split [of 42 "wire_header p @ node_field (p_flowId p) @ node_field (str_or_empty (p_srcNode p))"]
  by (simp_all add: wire_def wire_ids_def)

lemma wire_route_field:
  assumes wf: "wf_packet p" and i: "i < length (p_route p)"
  shows "read_id (wire p) (58 + 16 * i) = p_route p ! i"
proof -
  have ok: "list_all id_ok (p_route p)" using wf by (simp add: wf_packet_def)
  then have oki: "id_ok (p_route p ! i)" "list_all id_ok (take i (p_route p))"
    using i by (auto simp: list_all_length)
  define pre where "pre = wire_header p @ wire_ids p @ concat (map node_field (take i (p_route p)))"
  have "length pre = 58 + 16 * i"
    using length_route_fields [OF oki(2)] i by (simp add: pre_def length_wire_ids [OF wf])
  moreover have "wire p = pre @ node_field (p_route p ! i)
      @ concat (map node_field (drop (Suc i) (p_route p))) @ u32_bytes (length (p_payload p)) @ p_payload p"
    unfolding wire_def pre_def
    by (subst (1) id_take_nth_drop [OF i]) simp
  ultimately show ?thesis
    using oki(1) by (simp add: read_id_split)
qed

lemma wire_payload_fields:
  assumes wf: "wf_packet p"
  defines "off \<equiv> 58 + 16 * length (p_route p)"
  shows "readUInt32BE (wire p) off = Inr (length (p_payload p))"
    "subarray (off + 4) (off + 4 + length (p_payload p)) (wire p) = p_payload p"
proof -
  define pre where "pre = wire_header p @ wire_ids p @ concat (map node_field (p_route p))"
  have ok: "list_all id_ok (p_route p)" "length (p_payload p) < 4294967296"
    using wf by (auto simp: wf_packet_def)
  have len: "length pre = off"
    using length_route_fields [OF ok(1)] by (simp add: pre_def off_def length_wire_ids [OF wf])
  have w: "wire p = pre @ u32_bytes (length (p_payload p)) @ p_payload p"
    by (simp add: wire_def pre_def)
  show "readUInt32BE (wire p) off = Inr (length (p_payload p))"
    using u32_at_append [of off pre "length (p_payload p)"] ok len
    by (simp add: readUInt32BE_def w)
  show "subarray (off + 4) (off + 4 + length (p_payload p)) (wire p) = p_payload p"
    using subarray_append [of "off + 4" "pre @ u32_bytes (length (p_payload p))" _ "p_payload p" "[]"] len
    by (simp add: w)
qed

lemma length_wire:
  "wf_packet p \<Longrightarrow> length (wire p) = 62 + 16 * length (p_route p) + length (p_payload p)"
  using length_route_fields [of "p_route p"] length_wire_ids [of p]
  by (simp add: wire_def wf_packet_def)

lemma or_null_str_or_empty:
  "(\<forall>s \<in> set_option x. s \<noteq> []) \<Longrightarrow> or_null (str_or_empty x) = x"
  by (cases x) (auto simp: or_null_def str_or_empty_def)

lemma or_str_id: "(\<forall>s \<in> set_option x. s \<noteq> []) \<Longrightarrow> or_str x = x"
  by (cases x) (auto simp: or_str_def or_null_def)

lemma or_num_nonneg [simp]: "or_num (Some v) 0 = v"
  by (simp add: or_num_def)

text \<open>What the receiver of a packet holds: the sender's fields, without the local bookkeeping.\<close>

definition received :: "int \<Rightarrow> packet \<Rightarrow> packet" where
  "received now p = p\<lparr>p_version := 2, p_visitedNodes := [], p_timestamp := now\<rparr>"

lemma deserializeV2_wire:
  assumes wf: "wf_packet p"
  shows "deserializeV2 now g (wire p) = Inr (received now p, g)"
proof -
  have route: "map (\<lambda>i. read_id (wire p) (58 + 16 * i)) [0..<length (p_route p)] = p_route p"
    using wire_route_field [OF wf] by (intro nth_equalityI) simp_all
  have ids: "or_null (read_id (wire p) 26) = p_srcNode p" "or_null (read_id (wire p) 42) = p_dstNode p"
      "or_str (p_srcNode p) = p_srcNode p" "or_str (p_dstNode p) = p_dstNode p"
      "or_str (Some (p_flowId p)) = Some (p_flowId p)"
    using wf wire_id_fields [OF wf]
    by (auto simp: wf_packet_def or_null_str_or_empty or_str_id)
  have bounds: "0 < p_type p" "0 \<le> p_hop p" "0 \<le> p_ttl p" "0 \<le> p_seq p"
    using wf by (auto simp: wf_packet_def)
  show ?thesis
    using bounds length_wire [OF wf]
    by (simp add: deserializeV2_def wire_fixed_fields [OF wf, simplified]
        wire_payload_fields [OF wf, simplified]
        wire_id_fields(1) [OF wf] route ids Let_def new_Packet_def received_def or_num_def
        del: upt_Suc)
qed

section \<open>What an accepted buffer holds\<close>

definition v2_options :: "int \<Rightarrow> buffer \<Rightarrow> packet_options" where
  "v2_options now buf =
     (let n = unat (buf ! 5); off = 58 + 16 * n in
      \<lparr>o_version = Some (int (unat (buf ! 0))), o_type = Some (int (unat (buf ! 1))),
       o_flowId = Some (read_id buf 10), o_seq = Some (int (u32_at buf 6)),
       o_hop = Some (int (u16_at buf 2)), o_ttl = Some (int (unat (buf ! 4))),
       o_srcNode = or_null (read_id buf 26), o_dstNode = or_null (read_id buf 42),
       o_route = Some (map (\<lambda>i. read_id buf (58 + 16 * i)) [0..<n]),
       o_visitedNodes = Some [], o_timestamp = Some now,
       o_payload = Some (subarray (off + 4) (off + 4 + u32_at buf off) buf)\<rparr>)"

lemma deserializeV2_eq:
  "58 \<le> length buf \<Longrightarrow> 62 + 16 * unat (buf ! 5) \<le> length buf \<Longrightarrow>
   deserializeV2 now g buf = Inr (new_Packet now g (v2_options now buf))"
  by (simp add: deserializeV2_def readUInt8_def readUInt16BE_def readUInt32BE_def Let_def
      v2_options_def del: upt_Suc) auto

lemma new_Packet_ranges:
  assumes "new_Packet now g (v2_options now buf) = (p, g')"
  shows "p_route p = the (o_route (v2_options now buf))" "0 < p_type p" "p_type p < 256"
    "0 \<le> p_hop p" "p_hop p < 65536" "0 \<le> p_ttl p" "p_ttl p < 256"
    "0 \<le> p_seq p" "p_seq p < 4294967296" "p_flowId p \<noteq> []" "p_visitedNodes p = []"
    "p_payload p = the (o_payload (v2_options now buf))"
proof -
  have p: "p = fst (new_Packet now g (v2_options now buf))" using assms by simp
  have t: "0 < or_num (Some (int (unat b))) PT_DATA \<and> or_num (Some (int (unat b))) PT_DATA < 256"
    for b :: byte
    using unat_byte_lt [of b]
    by (simp only: or_num_def packet_types option.case split: if_split) linarith
  show "0 < p_type p" "p_type p < 256"
    using t [of "buf ! 1"] by (simp_all only: p new_Packet_fields v2_options_def Let_def packet_options.simps)
  show "0 \<le> p_hop p" "p_hop p < 65536" "0 \<le> p_seq p" "p_seq p < 4294967296"
    using u16_at_lt [of buf 2] u32_at_lt [of buf 6]
    by (simp_all add: p new_Packet_fields v2_options_def Let_def)
  show "0 \<le> p_ttl p" "p_ttl p < 256" "p_visitedNodes p = []" "p_flowId p \<noteq> []"
      "p_route p = the (o_route (v2_options now buf))"
      "p_payload p = the (o_payload (v2_options now buf))"
    by (simp_all add: p new_Packet_fields new_Packet_flowId v2_options_def Let_def)
qed

section \<open>Flow identifiers\<close>

definition flow_id :: "jsstring \<Rightarrow> nat \<Rightarrow> jsstring" where
  "flow_id prefix i = fst (generateFlowId \<lparr>flowIdPrefix = prefix, flowIdCounter = i\<rparr>)"

lemma length_flow_id: "length prefix = 8 \<Longrightarrow> i < 2 ^ 32 \<Longrightarrow> length (flow_id prefix i) = 16"
  using length_to_radix [of 16 i 8] by (simp add: flow_id_def generateFlowId_def padStart_def)

lemma flow_id_inj: "flow_id prefix i = flow_id prefix j \<longleftrightarrow> i = j"
proof
  assume "flow_id prefix i = flow_id prefix j"
  then have "from_radix 16 (padStart 8 48 (to_radix 16 i)) = from_radix 16 (padStart 8 48 (to_radix 16 j))"
    by (simp add: flow_id_def generateFlowId_def)
  then show "i = j" by (simp add: from_radix_to_radix)
qed simp

text \<open>What the 16-byte wire field keeps of an identifier.\<close>

definition wire_flow_id :: "jsstring \<Rightarrow> jsstring" where
  "wire_flow_id s = take 16 (padEnd 16 0 s)"

section \<open>Properties\<close>

text \<open>(C1) A well-formed packet survives the wire: serialising never throws, and the
  receiver's \<open>deserialize\<close> returns the same type, flow id, sequence number, hop, TTL, source,
  destination, route and payload, whatever version-1 parser is in use.\<close>

theorem packet_roundtrip:
  assumes "wf_packet p"
  shows "\<exists>buf. serialize p = Inr buf \<and>
           deserialize parse_json now g buf = Inr (received now p, g)"
  using serialize_wire [OF assms] deserializeV2_wire [OF assms] wire_fixed_fields(1) [OF assms]
    length_wire [OF assms]
  by (simp add: deserialize_def)

definition sample_packet :: packet where
  "sample_packet = \<lparr>p_version = 1, p_type = PT_DATA, p_flowId = js ''0f0f'', p_seq = 7, p_hop = 1,
     p_ttl = 31, p_srcNode = Some (js ''alice''), p_dstNode = None,
     p_route = [js ''relay'', js ''exit''], p_visitedNodes = [js ''alice''], p_timestamp = 5,
     p_payload = [69, 0, 1]\<rparr>"

theorem packet_roundtrip_witness:
  "wf_packet sample_packet \<and>
   (\<exists>buf. serialize sample_packet = Inr buf \<and>
      deserialize (\<lambda>_. None) 9 (init_flow_gen 0) buf =
        Inr (received 9 sample_packet, init_flow_gen 0))"
proof -
  have wf: "wf_packet sample_packet"
    by (simp add: wf_packet_def sample_packet_def id_ok_def js_def packet_types ascii_def)
  with packet_roundtrip [OF wf] show ?thesis by blast
qed

text \<open>A version-2 buffer is accepted exactly when the 58-byte header, the announced route
  entries and the payload length field fit into it; every accepted packet carries values that
  fit the header fields again (a type byte of 0 is read as a data packet), and its payload is a
  piece of the buffer, possibly shorter than announced.\<close>

theorem deserializeV2_accepts:
  "(case deserializeV2 now g buf of
      Inr (p, g') \<Rightarrow> 58 \<le> length buf \<and> 62 + 16 * unat (buf ! 5) \<le> length buf \<and>
        length (p_route p) = unat (buf ! 5) \<and>
        0 < p_type p \<and> p_type p < 256 \<and> 0 \<le> p_hop p \<and> p_hop p < 65536 \<and>
        0 \<le> p_ttl p \<and> p_ttl p < 256 \<and> 0 \<le> p_seq p \<and> p_seq p < 4294967296 \<and>
        p_flowId p \<noteq> [] \<and> p_visitedNodes p = [] \<and>
        length (p_payload p) \<le> length buf - (62 + 16 * unat (buf ! 5))
    | Inl e \<Rightarrow> length buf < 58 \<and> e = Err ''Buffer too short for v2 packet header'' \<or>
        58 \<le> length buf \<and> length buf < 62 + 16 * unat (buf ! 5) \<and> e = RangeError)"
proof (cases "58 \<le> length buf \<and> 62 + 16 * unat (buf ! 5) \<le> length buf")
  case True
  obtain p g' where p: "new_Packet now g (v2_options now buf) = (p, g')"
    by fastforce
  then show ?thesis
    using True deserializeV2_eq [of buf now g] new_Packet_ranges [OF p]
    by (simp add: v2_options_def Let_def subarray_def)
next
  case False
  then show ?thesis
    by (auto simp: deserializeV2_def readUInt8_def readUInt16BE_def readUInt32BE_def Let_def)
qed

text \<open>Flow ids stay unique on the wire for the first \<open>2^32\<close> packets of a process: the ids
  of two different counter values fill the 16-byte field exactly and differ in it.\<close>

theorem flow_ids_unique_on_wire:
  assumes "length prefix = 8" and "i < 2 ^ 32" and "j < 2 ^ 32" and "i \<noteq> j"
  shows "wire_flow_id (flow_id prefix i) \<noteq> wire_flow_id (flow_id prefix j)"
proof -
  have "wire_flow_id (flow_id prefix k) = flow_id prefix k" if "k < 2 ^ 32" for k
    using length_flow_id [OF assms(1) that] by (simp add: wire_flow_id_def padEnd_def)
  with assms show ?thesis by (simp add: flow_id_inj)
qed

theorem flow_ids_unique_on_wire_witness:
  "wire_flow_id (flow_id (flowIdPrefix (init_flow_gen 1700000000000)) 0) \<noteq>
   wire_flow_id (flow_id (flowIdPrefix (init_flow_gen 1700000000000)) 4294967295)"
proof -
  have "length (flowIdPrefix (init_flow_gen 1700000000000)) = 8"
    by (simp add: init_flow_gen_def slice_last_def to_radix.simps digit_char_def)
  then show ?thesis
    using flow_ids_unique_on_wire [of "flowIdPrefix (init_flow_gen 1700000000000)" 0 4294967295]
    by simp
qed

text \<open>Past \<open>2^32\<close> packets the nine-digit counter no longer fits the field and the id on the
  wire repeats an earlier one, which the duplicate filter of a receiver then drops.\<close>

theorem flow_id_collision_after_wrap:
  "flow_id (replicate 8 c) 4294967296 \<noteq> flow_id (replicate 8 c) 268435456 \<and>
   wire_flow_id (flow_id (replicate 8 c) 4294967296) = wire_flow_id (flow_id (replicate 8 c) 268435456)"
proof
  show "flow_id (replicate 8 c) 4294967296 \<noteq> flow_id (replicate 8 c) 268435456"
    by (simp add: flow_id_inj)
  show "wire_flow_id (flow_id (replicate 8 c) 4294967296)
      = wire_flow_id (flow_id (replicate 8 c) 268435456)"
    by (simp add: wire_flow_id_def flow_id_def generateFlowId_def to_radix.simps digit_char_def
        padStart_def padEnd_def)
qed

end
