(* ===== verification/IP_Packet.thy ===== *)
theory IP_Packet
  imports Mesh_Prelude
begin

text \<open>
  The IPv4, TCP, UDP and option code of \<open>src/network/packet.js\<close>: \<open>parseIPPacket\<close>, the
  Internet checksum and its TCP/UDP pseudo-header variants, \<open>parseTcpSynOptions\<close>,
  \<open>buildSynAckOptions\<close> and the packet builders. A dotted address is the quadruple of its
  bytes (the code splits it at the dots and converts each part); \<open>ip_str\<close> prints it where the
  code needs the string. Bitwise operators on numbers work on 32-bit two's complement, which
  \<open>to_int32\<close> makes explicit. \<open>Math.random\<close> and \<open>Date.now\<close> are arguments.
\<close>

section \<open>Addresses and protocol numbers\<close>

type_synonym ipv4 = "byte \<times> byte \<times> byte \<times> byte"

fun ip_bytes :: "ipv4 \<Rightarrow> buffer" where
  "ip_bytes (a, b, c, d) = [a, b, c, d]"

fun ip_str :: "ipv4 \<Rightarrow> jsstring" where
  "ip_str (a, b, c, d) =
     dec (unat a) @ 46 # dec (unat b) @ 46 # dec (unat c) @ 46 # dec (unat d)"

definition ip_at :: "buffer \<Rightarrow> nat \<Rightarrow> ipv4" where
  "ip_at buf i = (buf ! i, buf ! (i + 1), buf ! (i + 2), buf ! (i + 3))"

definition PROTO_ICMP :: nat where "PROTO_ICMP = 1"
definition PROTO_TCP :: nat where "PROTO_TCP = 6"
definition PROTO_UDP :: nat where "PROTO_UDP = 17"

lemmas protocols = PROTO_ICMP_def PROTO_TCP_def PROTO_UDP_def

definition FLAG_FIN :: nat where "FLAG_FIN = 1"
definition FLAG_SYN :: nat where "FLAG_SYN = 2"
definition FLAG_RST :: nat where "FLAG_RST = 4"
definition FLAG_PSH :: nat where "FLAG_PSH = 8"
definition FLAG_ACK :: nat where "FLAG_ACK = 16"
definition FLAG_URG :: nat where "FLAG_URG = 32"

lemmas tcp_flag_values = FLAG_FIN_def FLAG_SYN_def FLAG_RST_def FLAG_PSH_def FLAG_ACK_def FLAG_URG_def

text \<open>\<open>!!(flags & F)\<close> for a single-bit flag \<open>F\<close>.\<close>

definition has_flag :: "nat \<Rightarrow> nat \<Rightarrow> bool" where
  "has_flag flags f \<longleftrightarrow> odd (flags div f)"

section \<open>Parsing\<close>

record tcp_info =
  tcpSeq :: nat
  tcpAck :: nat
  tcpDataOffset :: nat
  tcpFlags :: nat
  tcpWindow :: nat

definition tcpFlagsSYN :: "tcp_info \<Rightarrow> bool" where "tcpFlagsSYN t = has_flag (tcpFlags t) FLAG_SYN"
definition tcpFlagsACK :: "tcp_info \<Rightarrow> bool" where "tcpFlagsACK t = has_flag (tcpFlags t) FLAG_ACK"
definition tcpFlagsFIN :: "tcp_info \<Rightarrow> bool" where "tcpFlagsFIN t = has_flag (tcpFlags t) FLAG_FIN"
definition tcpFlagsRST :: "tcp_info \<Rightarrow> bool" where "tcpFlagsRST t = has_flag (tcpFlags t) FLAG_RST"
definition tcpFlagsPSH :: "tcp_info \<Rightarrow> bool" where "tcpFlagsPSH t = has_flag (tcpFlags t) FLAG_PSH"

record icmp_info =
  icmpType :: nat
  icmpCode :: nat
  icmpData :: buffer

record parsed_ip =
  headerLength :: nat
  totalLength :: nat
  ipId :: nat
  protocol :: nat
  srcIp :: ipv4
  dstIp :: ipv4
  srcPort :: nat
  dstPort :: nat
  ip_data :: buffer
  tcp :: "tcp_info option"
  udpLength :: "nat option"
  icmp :: "icmp_info option"

datatype ip_parse = NoPacket | InvalidVersion nat | Valid parsed_ip

definition tail_from :: "nat \<Rightarrow> buffer \<Rightarrow> buffer" where
  "tail_from i buf = (if length buf > i then subarray i (length buf) buf else [])"

definition parse_transport :: "buffer \<Rightarrow> parsed_ip \<Rightarrow> parsed_ip res" where
  "parse_transport buffer r =
     (let off = headerLength r in
      if protocol r = PROTO_TCP \<and> length buffer \<ge> off + 20 then
        ebind (readUInt16BE buffer off) (\<lambda>sp.
        ebind (readUInt16BE buffer (off + 2)) (\<lambda>dp.
        ebind (readUInt32BE buffer (off + 4)) (\<lambda>seq.
        ebind (readUInt32BE buffer (off + 8)) (\<lambda>ack.
        let dataOffset = unat (buffer ! (off + 12)) div 16 * 4;
            flags = unat (buffer ! (off + 13)) in
        ebind (readUInt16BE buffer (off + 14)) (\<lambda>window.
        Inr (r\<lparr>srcPort := sp, dstPort := dp,
               tcp := Some \<lparr>tcpSeq = seq, tcpAck = ack, tcpDataOffset = dataOffset,
                             tcpFlags = flags, tcpWindow = window\<rparr>,
               ip_data := tail_from (off + dataOffset) buffer\<rparr>))))))
      else if protocol r = PROTO_UDP \<and> length buffer \<ge> off + 8 then
        ebind (readUInt16BE buffer off) (\<lambda>sp.
        ebind (readUInt16BE buffer (off + 2)) (\<lambda>dp.
        ebind (readUInt16BE buffer (off + 4)) (\<lambda>len.
        Inr (r\<lparr>srcPort := sp, dstPort := dp, udpLength := Some len,
               ip_data := tail_from (off + 8) buffer\<rparr>))))
      else if protocol r = PROTO_ICMP \<and> length buffer \<ge> off + 4 then
        Inr (r\<lparr>icmp := Some \<lparr>icmpType = unat (buffer ! off), icmpCode = unat (buffer ! (off + 1)),
                              icmpData = subarray (off + 4) (length buffer) buffer\<rparr>,
               ip_data := subarray (off + 8) (length buffer) buffer\<rparr>)
      else Inr r)"

definition parseIPPacket :: "buffer \<Rightarrow> ip_parse res" where
  "parseIPPacket buffer =
     (if length buffer < 20 then Inr NoPacket
      else if unat (buffer ! 0) div 16 \<noteq> 4 then Inr (InvalidVersion (unat (buffer ! 0) div 16))
      else
        ebind (readUInt16BE buffer 2) (\<lambda>total.
        ebind (readUInt16BE buffer 4) (\<lambda>ident.
        ebind (parse_transport buffer
          \<lparr>headerLength = unat (buffer ! 0) mod 16 * 4, totalLength = total, ipId = ident,
           protocol = unat (buffer ! 9), srcIp = ip_at buffer 12, dstIp = ip_at buffer 16,
           srcPort = 0, dstPort = 0, ip_data = [], tcp = None, udpLength = None, icmp = None\<rparr>)
        (\<lambda>r. Inr (Valid r)))))"

section \<open>Internet checksum\<close>

definition to_int32 :: "int \<Rightarrow> int" where
  "to_int32 x = (x + 2147483648) mod 4294967296 - 2147483648"

text \<open>\<open>x >> 16\<close> and \<open>x & 0xffff\<close>.\<close>

definition shr16 :: "int \<Rightarrow> int" where
  "shr16 x = to_int32 x div 65536"

definition and16 :: "int \<Rightarrow> int" where
  "and16 x = to_int32 x mod 65536"

text \<open>The summing loop: big-endian 16-bit words, a trailing byte counts as the high byte.\<close>

fun word_sum :: "buffer \<Rightarrow> int" where
  "word_sum [] = 0"
| "word_sum [a] = int (256 * unat a)"
| "word_sum (a # b # bs) = int (256 * unat a + unat b) + word_sum bs"

definition fold_measure :: "int \<Rightarrow> nat" where
  "fold_measure s =
     (let t = to_int32 s in
      (if t = s then 0 else 8589934592) + (if t < 0 then 4294967296 + nat (- t) else nat t))"

lemma to_int32_range: "- 2147483648 \<le> to_int32 x \<and> to_int32 x < 2147483648"
  by (simp add: to_int32_def)

lemma to_int32_id: "- 2147483648 \<le> x \<Longrightarrow> x < 2147483648 \<Longrightarrow> to_int32 x = x"
  by (simp add: to_int32_def)

lemma fold_measure_decreases:
  assumes "shr16 s \<noteq> 0"
  shows "fold_measure (and16 s + shr16 s) < fold_measure s"
proof -
  define t where "t = to_int32 s"
  define q r where "q = t div 65536" and "r = t mod 65536"
  have t: "t = 65536 * q + r" "0 \<le> r" "r < 65536" by (simp_all add: q_def r_def)
  have rng: "- 2147483648 \<le> t" "t < 2147483648" using to_int32_range [of s] by (simp_all add: t_def)
  have q0: "q \<noteq> 0" using assms by (simp add: shr16_def q_def t_def)
  have qr: "- 32768 \<le> q" "q < 32768" using t rng by linarith+
  have n: "and16 s + shr16 s = r + q" by (simp add: and16_def shr16_def q_def r_def t_def)
  have id: "to_int32 (r + q) = r + q" using t qr by (intro to_int32_id) linarith+
  have small: "(if r + q < 0 then 4294967296 + nat (- (r + q)) else nat (r + q))
      < (if t < 0 then 4294967296 + nat (- t) else nat t)"
    using t q0 qr rng by (auto split: if_splits)
  show ?thesis
    unfolding n fold_measure_def id Let_def
    unfolding t_def [symmetric] using small by auto
qed

function checksum_fold :: "int \<Rightarrow> int" where
  "checksum_fold s = (if shr16 s = 0 then s else checksum_fold (and16 s + shr16 s))"
  by pat_completeness auto
termination
  by (relation "measure fold_measure") (auto intro: fold_measure_decreases)

declare checksum_fold.simps [simp del]

definition calculateIPChecksum :: "buffer \<Rightarrow> nat" where
  "calculateIPChecksum buffer = nat (65535 - and16 (checksum_fold (word_sum buffer)))"

text \<open>\<open>calculateTCPChecksum\<close> and \<open>calculateUDPChecksum\<close> differ in the protocol byte only.\<close>

definition pseudo_checksum :: "nat \<Rightarrow> ipv4 \<Rightarrow> ipv4 \<Rightarrow> buffer \<Rightarrow> nat res" where
  "pseudo_checksum proto src dst segment =
     (let totalLen = 12 + length segment;
          paddedLen = (if even totalLen then totalLen else totalLen + 1);
          buffer = put_at (ip_bytes src @ ip_bytes dst @ [0, of_nat proto]) 0 (Buffer_alloc paddedLen) in
      ebind (writeUInt16BE buffer (int (length segment)) 10) (\<lambda>buffer.
      Inr (calculateIPChecksum (buf_copy segment buffer 12))))"

definition calculateTCPChecksum :: "ipv4 \<Rightarrow> ipv4 \<Rightarrow> buffer \<Rightarrow> nat res" where
  "calculateTCPChecksum = pseudo_checksum PROTO_TCP"

definition calculateUDPChecksum :: "ipv4 \<Rightarrow> ipv4 \<Rightarrow> buffer \<Rightarrow> nat res" where
  "calculateUDPChecksum = pseudo_checksum PROTO_UDP"

section \<open>TCP options\<close>

record syn_opts =
  so_mss :: "nat option"
  so_wscale :: "nat option"
  so_sackPerm :: bool
  so_tsval :: "nat option"

definition no_opts :: syn_opts where
  "no_opts = \<lparr>so_mss = None, so_wscale = None, so_sackPerm = False, so_tsval = None\<rparr>"

text \<open>The effect of one option of kind \<open>kind\<close> and length \<open>len\<close> at offset \<open>i\<close>.\<close>

definition tcp_option :: "buffer \<Rightarrow> nat \<Rightarrow> nat \<Rightarrow> nat \<Rightarrow> syn_opts \<Rightarrow> syn_opts" where
  "tcp_option buf i kind len n =
     (if kind = 2 \<and> len \<ge> 4 then n\<lparr>so_mss := Some (u16_at buf (i + 2))\<rparr>
      else if kind = 3 \<and> len \<ge> 3 then
        (let sc = unat (buf ! (i + 2)) in if sc \<le> 14 then n\<lparr>so_wscale := Some sc\<rparr> else n)
      else if kind = 4 \<and> len = 2 then n\<lparr>so_sackPerm := True\<rparr>
      else if kind = 8 \<and> len \<ge> 10 then n\<lparr>so_tsval := Some (u32_at buf (i + 2))\<rparr>
      else n)"

text \<open>
  The option loop. A length byte behind the end of the buffer is \<open>undefined\<close>: the comparisons
  with it are false, the offset becomes \<open>NaN\<close> and the loop ends.
\<close>

function tcp_options :: "buffer \<Rightarrow> nat \<Rightarrow> nat \<Rightarrow> syn_opts \<Rightarrow> syn_opts" where
  "tcp_options buf i optEnd n =
     (if i < optEnd then
        (let kind = unat (buf ! i) in
         if kind = 0 then n
         else if kind = 1 then tcp_options buf (i + 1) optEnd n
         else (case buf_get buf (i + 1) of
             None \<Rightarrow> n
           | Some l \<Rightarrow>
               (let len = unat l in
                if len < 2 \<or> i + len > optEnd then n
                else tcp_options buf (i + len) optEnd (tcp_option buf i kind len n))))
      else n)"
  by pat_completeness auto
termination
  by (relation "measure (\<lambda>(buf, i, optEnd, n). optEnd - i)") auto

declare tcp_options.simps [simp del]

definition parseTcpSynOptions :: "buffer \<Rightarrow> syn_opts" where
  "parseTcpSynOptions ipBuffer =
     (if length ipBuffer < 20 then no_opts
      else let ihl = unat (ipBuffer ! 0) mod 16 * 4 in
        if length ipBuffer < ihl + 20 \<or> unat (ipBuffer ! 9) \<noteq> PROTO_TCP then no_opts
        else let thl = unat (ipBuffer ! (ihl + 12)) div 16 * 4 in
          if thl < 20 \<or> length ipBuffer < ihl + thl then no_opts
          else tcp_options ipBuffer (ihl + 20) (ihl + thl) no_opts)"

definition buildSynAckOptions :: "nat \<Rightarrow> syn_opts \<Rightarrow> buffer" where
  "buildSynAckOptions nowSec n =
     (let ourMss = min 1360 (case so_mss n of Some m \<Rightarrow> if m \<noteq> 0 then min m 1360 else 1360 | None \<Rightarrow> 1360);
          buf = [2, 4] @ u16_bytes ourMss
            @ (if so_sackPerm n then [4, 2] else [])
            @ (case so_tsval n of
                 Some v \<Rightarrow> [8, 10] @ u32_bytes (nowSec mod 4294967296) @ u32_bytes (v mod 4294967296)
               | None \<Rightarrow> [])
            @ (case so_wscale n of
                 Some w \<Rightarrow> if w \<le> 14 then [1, 1, 1, 1] @ [3, 3, of_nat w] else []
               | None \<Rightarrow> []);
          pad = (4 - length buf mod 4) mod 4 in
      buf @ replicate pad 0)"

section \<open>Builders\<close>

definition buildTCPSegment ::
  "int \<Rightarrow> int \<Rightarrow> int \<Rightarrow> int \<Rightarrow> nat \<Rightarrow> buffer \<Rightarrow> nat \<Rightarrow> buffer \<Rightarrow> buffer res" where
  "buildTCPSegment sp dp seq ack flags data windowSize options =
     (let headerCore = 20 + length options;
          pad = (4 - headerCore mod 4) mod 4;
          totalHeader = headerCore + pad;
          dataOffsetWords = totalHeader div 4 in
      ebind (writeUInt16BE (Buffer_alloc (totalHeader + length data)) sp 0) (\<lambda>segment.
      ebind (writeUInt16BE segment dp 2) (\<lambda>segment.
      ebind (writeUInt32BE segment (seq mod 4294967296) 4) (\<lambda>segment.
      ebind (writeUInt32BE segment (ack mod 4294967296) 8) (\<lambda>segment.
      let segment = buf_set segment 12 (int (dataOffsetWords * 16));
          segment = buf_set segment 13 (int flags) in
      ebind (writeUInt16BE segment (int (windowSize mod 65536)) 14) (\<lambda>segment.
      ebind (writeUInt16BE segment 0 16) (\<lambda>segment.
      ebind (writeUInt16BE segment 0 18) (\<lambda>segment.
      Inr (buf_copy data (buf_copy options segment 20) totalHeader)))))))))"

text \<open>\<open>id || (Math.random() * 0xffff) >>> 0\<close>: the identification is \<open>ident\<close> if it is given and
  not 0, the random number otherwise.\<close>

definition buildIPPacket :: "nat \<Rightarrow> ipv4 \<Rightarrow> ipv4 \<Rightarrow> nat \<Rightarrow> buffer \<Rightarrow> nat option \<Rightarrow> buffer res" where
  "buildIPPacket rnd src dst proto payload ident =
     (let totalLen = 20 + length payload;
          idv = (case ident of Some i \<Rightarrow> if i \<noteq> 0 then i else rnd | None \<Rightarrow> rnd);
          packet = buf_set (buf_set (Buffer_alloc totalLen) 0 69) 1 0 in
      ebind (writeUInt16BE packet (int totalLen) 2) (\<lambda>packet.
      ebind (writeUInt16BE packet (int idv) 4) (\<lambda>packet.
      ebind (writeUInt16BE packet 16384 6) (\<lambda>packet.
      let packet = buf_set (buf_set packet 8 64) 9 (int proto) in
      ebind (writeUInt16BE packet 0 10) (\<lambda>packet.
      let packet = put_at (ip_bytes src @ ip_bytes dst) 12 packet;
          checksum = calculateIPChecksum (subarray 0 20 packet) in
      ebind (writeUInt16BE packet (int checksum) 10) (\<lambda>packet.
      Inr (buf_copy payload packet 20)))))))"

definition buildTCPPacket ::
  "nat \<Rightarrow> ipv4 \<Rightarrow> ipv4 \<Rightarrow> int \<Rightarrow> int \<Rightarrow> int \<Rightarrow> int \<Rightarrow> nat \<Rightarrow> buffer \<Rightarrow> buffer \<Rightarrow> buffer res" where
  "buildTCPPacket rnd src dst sp dp seq ack flags data options =
     ebind (buildTCPSegment sp dp seq ack flags data 65535 options) (\<lambda>tcpSegment.
     ebind (calculateTCPChecksum src dst tcpSegment) (\<lambda>checksum.
     ebind (writeUInt16BE tcpSegment (int checksum) 16) (\<lambda>tcpSegment.
     buildIPPacket rnd src dst PROTO_TCP tcpSegment None)))"

definition buildUDPDatagram :: "int \<Rightarrow> int \<Rightarrow> buffer \<Rightarrow> buffer res" where
  "buildUDPDatagram sp dp data =
     (let totalLen = 8 + length data in
      ebind (writeUInt16BE (Buffer_alloc totalLen) sp 0) (\<lambda>datagram.
      ebind (writeUInt16BE datagram dp 2) (\<lambda>datagram.
      ebind (writeUInt16BE datagram (int totalLen) 4) (\<lambda>datagram.
      ebind (writeUInt16BE datagram 0 6) (\<lambda>datagram.
      Inr (if length data > 0 then buf_copy data datagram 8 else datagram))))))"

definition buildUDPPacket ::
  "nat \<Rightarrow> ipv4 \<Rightarrow> ipv4 \<Rightarrow> int \<Rightarrow> int \<Rightarrow> buffer \<Rightarrow> buffer res" where
  "buildUDPPacket rnd src dst sp dp data =
     ebind (buildUDPDatagram sp dp data) (\<lambda>udpDatagram.
     ebind (calculateUDPChecksum src dst udpDatagram) (\<lambda>checksum.
     ebind (writeUInt16BE udpDatagram (int checksum) 6) (\<lambda>udpDatagram.
     buildIPPacket rnd src dst PROTO_UDP udpDatagram None)))"

section \<open>One's complement arithmetic\<close>

lemma word_sum_nonneg: "0 \<le> word_sum bs"
  by (induction bs rule: word_sum.induct) auto

lemma word_sum_append: "even (length xs) \<Longrightarrow> word_sum (xs @ ys) = word_sum xs + word_sum ys"
  by (induction xs rule: word_sum.induct) auto

lemma word_sum_alloc [simp]: "word_sum (replicate n 0) = 0"
proof (induction n rule: less_induct)
  case (less n)
  show ?case
  proof (cases "n < 2")
    case True
    then have "n = 0 \<or> n = 1" by auto
    then show ?thesis by auto
  next
    case False
    then obtain k where "n = Suc (Suc k)" by (metis add_2_eq_Suc le_Suc_ex not_less)
    then show ?thesis using less [of k] by simp
  qed
qed

lemma word_sum_u16: "v < 65536 \<Longrightarrow> word_sum (u16_bytes v) = int v"
  by (simp add: u16_bytes_def)

lemma word_sum_le: "word_sum bs \<le> 65535 * int ((length bs + 1) div 2)"
proof (induction bs rule: word_sum.induct)
  case (2 a)
  have "256 * uint a \<le> 65535" using uint_byte_lt [of a] by linarith
  then show ?case by simp
next
  case (3 a b bs)
  have "int (256 * unat a + unat b) \<le> 65535"
    using unat_byte_lt [of a] unat_byte_lt [of b] by linarith
  with 3 show ?case by simp
qed simp

text \<open>Below \<open>2^31\<close> the folding loop computes the one's complement sum.\<close>

lemma checksum_fold_value:
  assumes "0 < s" "s < 2147483648"
  shows "0 < checksum_fold s \<and> checksum_fold s \<le> 65535 \<and> checksum_fold s mod 65535 = s mod 65535"
  using assms
proof (induction "nat s" arbitrary: s rule: less_induct)
  case less
  have id: "to_int32 s = s" using less.prems by (intro to_int32_id) auto
  show ?case
  proof (cases "s < 65536")
    case True
    then have "shr16 s = 0" using less.prems by (simp add: shr16_def id)
    then show ?thesis using True less.prems by (simp add: checksum_fold.simps)
  next
    case False
    define q r where "q = s div 65536" and "r = s mod 65536"
    have s: "s = 65536 * q + r" "0 \<le> r" "r < 65536" by (simp_all add: q_def r_def)
    then have q: "0 < q" using False by linarith
    have "checksum_fold s = checksum_fold (r + q)"
      using q by (subst checksum_fold.simps) (simp add: shr16_def and16_def id q_def r_def)
    moreover have "(r + q) mod 65535 = s mod 65535"
    proof -
      have "s = (r + q) + 65535 * q" using s by simp
      then show ?thesis by (metis mod_mult_self2)
    qed
    moreover have "nat (r + q) < nat s" "0 < r + q" "r + q < 2147483648"
      using s q less.prems by linarith+
    ultimately show ?thesis using less.hyps [of "r + q"] by simp
  qed
qed

lemma and16_checksum_fold:
  "0 < s \<Longrightarrow> s < 2147483648 \<Longrightarrow> and16 (checksum_fold s) = checksum_fold s"
  using checksum_fold_value [of s] by (simp add: and16_def to_int32_id)

text \<open>Adding the checksum field to a nonzero sum makes it verify: the receiver computes 0.\<close>

lemma checksum_verifies:
  assumes "0 < word_sum bs" "word_sum bs < 2147418112" "word_sum bs' = word_sum bs + int c"
    and "c = calculateIPChecksum bs"
  shows "calculateIPChecksum bs' = 0"
proof -
  define f where "f = checksum_fold (word_sum bs)"
  have f: "0 < f" "f \<le> 65535" "f mod 65535 = word_sum bs mod 65535"
    using checksum_fold_value [of "word_sum bs"] assms(1,2) by (simp_all add: f_def)
  have c: "int c = 65535 - f"
    using f and16_checksum_fold [of "word_sum bs"] assms
    by (simp add: calculateIPChecksum_def f_def)
  have sum: "0 < word_sum bs'" "word_sum bs' < 2147483648"
    using assms c f by linarith+
  have "(word_sum bs - f) mod 65535 = 0"
    using f(3) by (metis dvd_imp_mod_0 mod_eq_dvd_iff)
  then have "word_sum bs' mod 65535 = 0"
    using assms(3) c by (metis add_diff_eq diff_add_eq mod_add_self1 add.commute diff_diff_eq2)
  then have "checksum_fold (word_sum bs') mod 65535 = 0"
    using checksum_fold_value [OF sum] by simp
  then have "checksum_fold (word_sum bs') = 65535"
    using checksum_fold_value [OF sum] by (metis leD mod_pos_pos_trivial not_less_iff_gr_or_eq order_less_imp_le)
  then show ?thesis
    using and16_checksum_fold [OF sum] by (simp add: calculateIPChecksum_def)
qed

lemma calculateIPChecksum_lt: "calculateIPChecksum bs < 65536"
proof -
  have "0 \<le> and16 (checksum_fold (word_sum bs))" by (simp add: and16_def)
  then show ?thesis unfolding calculateIPChecksum_def by linarith
qed

section \<open>Layout of what the builders produce\<close>

definition ip_header :: "nat \<Rightarrow> nat \<Rightarrow> nat \<Rightarrow> nat \<Rightarrow> ipv4 \<Rightarrow> ipv4 \<Rightarrow> buffer" where
  "ip_header totalLen ident proto csum src dst =
     [69, 0] @ u16_bytes totalLen @ u16_bytes ident @ u16_bytes 16384 @ [64, of_nat proto]
     @ u16_bytes csum @ ip_bytes src @ ip_bytes dst"

lemma length_ip_bytes [simp]: "length (ip_bytes a) = 4"
  by (cases a rule: ip_bytes.cases) simp

lemma length_ip_header [simp]: "length (ip_header t i pr c s d) = 20"
  by (simp add: ip_header_def)

lemma ip_header_sum:
  assumes "t < 65536" "i < 65536" "c < 65536"
  shows "word_sum (ip_header t i pr c s d) = word_sum (ip_header t i pr 0 s d) + int c"
    "0 < word_sum (ip_header t i pr 0 s d)" "word_sum (ip_header t i pr 0 s d) < 2147418112"
proof -
  define pre where "pre = [69, 0] @ u16_bytes t @ u16_bytes i @ u16_bytes 16384 @ [64, of_nat pr :: byte]"
  define post where "post = ip_bytes s @ ip_bytes d"
  have eq: "word_sum (ip_header t i pr k s d) = word_sum pre + (int k + word_sum post)" if "k < 65536" for k
    using that word_sum_append [of pre "u16_bytes k @ post"] word_sum_append [of "u16_bytes k" post]
    by (simp add: ip_header_def pre_def post_def word_sum_u16)
  show "word_sum (ip_header t i pr c s d) = word_sum (ip_header t i pr 0 s d) + int c"
    using assms by (simp add: eq)
  have "0 < word_sum ([69, 0] @ rest)" for rest
    using word_sum_nonneg [of rest] by simp
  then have "0 < word_sum pre"
    unfolding pre_def by blast
  then show "0 < word_sum (ip_header t i pr 0 s d)"
    using word_sum_nonneg [of post] by (simp add: eq)
  show "word_sum (ip_header t i pr 0 s d) < 2147418112"
    using word_sum_le [of "ip_header t i pr 0 s d"] by simp
qed

lemma ip_header_verifies:
  assumes "t < 65536" "i < 65536"
  shows "calculateIPChecksum (ip_header t i pr (calculateIPChecksum (ip_header t i pr 0 s d)) s d) = 0"
  using ip_header_sum [OF assms calculateIPChecksum_lt] by (intro checksum_verifies [OF _ _ _ refl])

lemma buildIPPacket_layout:
  assumes len: "20 + length payload < 65536" and rnd: "rnd < 65536"
  shows "buildIPPacket rnd src dst proto payload None =
    Inr (ip_header (20 + length payload) rnd proto
      (calculateIPChecksum (ip_header (20 + length payload) rnd proto 0 src dst)) src dst @ payload)"
proof -
  define n h c where "n = length payload"
    and "h = ip_header (20 + n) rnd proto 0 src dst" and "c = calculateIPChecksum h"
  have start: "Buffer_alloc (20 + n) = [] @ Buffer_alloc (20 + n)" by simp
  have c: "c < 65536" using calculateIPChecksum_lt by (simp add: c_def)
  have ips: "put_at (ip_bytes src @ ip_bytes dst) 12 ((((((((([] @ [69]) @ [0]) @ u16_bytes (20 + n))
      @ u16_bytes rnd) @ u16_bytes 16384) @ [64]) @ [of_nat proto]) @ u16_bytes 0) @ Buffer_alloc (8 + n)) =
      h @ Buffer_alloc n"
    using put_at_append [of 12 "[69, 0] @ u16_bytes (20 + n) @ u16_bytes rnd @ u16_bytes 16384
        @ [64, of_nat proto] @ u16_bytes 0" "ip_bytes src @ ip_bytes dst" "Buffer_alloc (8 + n)"]
    by (simp add: drop_alloc h_def ip_header_def)
  have head: "calculateIPChecksum (subarray 0 20 (h @ Buffer_alloc n)) = c"
    by (simp add: subarray_def h_def c_def)
  have csum: "write_bytes (u16_bytes c) 10 (h @ Buffer_alloc n) =
      Inr (ip_header (20 + n) rnd proto c src dst @ Buffer_alloc n)"
    using put_at_replace [of 10 "[69, 0] @ u16_bytes (20 + n) @ u16_bytes rnd @ u16_bytes 16384
        @ [64, of_nat proto]" "u16_bytes 0" "u16_bytes c" "(ip_bytes src @ ip_bytes dst) @ Buffer_alloc n"]
    by (simp add: write_bytes_def h_def ip_header_def)
  have body: "buf_copy payload (ip_header (20 + n) rnd proto c src dst @ Buffer_alloc n) 20 =
      ip_header (20 + n) rnd proto c src dst @ payload"
    by (simp add: buf_copy_alloc n_def) (simp add: Buffer_alloc_def)
  show ?thesis
    using len rnd c
    unfolding buildIPPacket_def Let_def n_def [symmetric] h_def [symmetric] c_def [symmetric]
    by (subst start)
      (simp add: write_int write_numeral buf_set_alloc write_bytes_alloc head csum body
        ips
        del: append_assoc append.simps of_nat_add)
qed

definition tcp_header ::
  "nat \<Rightarrow> nat \<Rightarrow> nat \<Rightarrow> nat \<Rightarrow> nat \<Rightarrow> nat \<Rightarrow> nat \<Rightarrow> buffer \<Rightarrow> buffer" where
  "tcp_header sp dp seq ack flags win csum options =
     u16_bytes sp @ u16_bytes dp @ u32_bytes seq @ u32_bytes ack
     @ [of_nat ((20 + length options + (4 - length options mod 4) mod 4) div 4 * 16), of_nat flags]
     @ u16_bytes win @ u16_bytes csum @ u16_bytes 0
     @ options @ replicate ((4 - length options mod 4) mod 4) 0"

lemma pad_20: "(4 - (20 + n) mod 4) mod 4 = (4 - n mod 4) mod (4::nat)"
proof -
  have "(20 + n) mod 4 = n mod 4" by presburger
  then show ?thesis by simp
qed

lemma pad4: obtains j where "n + (4 - n mod 4) mod 4 = 4 * (j::nat)"
proof -
  define q r where "q = n div 4" and "r = n mod 4"
  have n: "n = 4 * q + r" "r < 4" by (simp_all add: q_def r_def)
  have "n + (4 - r) mod 4 = 4 * (q + (if r = 0 then 0 else 1))"
    using n by (auto split: if_splits)
  then show thesis using that r_def by blast
qed

lemma pad_le_40: "n \<le> 40 \<Longrightarrow> n + (4 - n mod 4) mod 4 \<le> (40::nat)"
proof -
  assume n: "n \<le> 40"
  define k where "k = (4 - n mod 4) mod 4"
  obtain j where j: "n + k = 4 * j" unfolding k_def by (rule pad4)
  have "k < 4" by (simp add: k_def)
  with n j have "n + k \<le> 40" by presburger
  then show ?thesis by (simp add: k_def)
qed

lemma length_tcp_header:
  "length (tcp_header sp dp seq ack flags win c opts) = 20 + length opts + (4 - length opts mod 4) mod 4"
  by (simp add: tcp_header_def)

lemma buildTCPSegment_layout:
  assumes "sp < 65536" "dp < 65536" "win < 65536"
  shows "buildTCPSegment (int sp) (int dp) seq ack flags data win options =
    Inr (tcp_header sp dp (nat (seq mod 4294967296)) (nat (ack mod 4294967296)) flags win 0 options @ data)"
proof -
  define o' k n where "o' = length options" and "k = (4 - o' mod 4) mod 4" and "n = length data"
  define sq ak where "sq = nat (seq mod 4294967296)" and "ak = nat (ack mod 4294967296)"
  have sq: "int sq = seq mod 4294967296" "sq < 4294967296"
    and ak: "int ak = ack mod 4294967296" "ak < 4294967296"
    by (simp_all add: sq_def ak_def nat_less_iff)
  have start: "Buffer_alloc (20 + o' + k + n) = [] @ Buffer_alloc (20 + (o' + (k + n)))"
    by (simp add: add.assoc)
  have data: "buf_copy data (buf_copy options (pre @ Buffer_alloc (o' + (k + n))) 20) (20 + o' + k) =
      pre @ options @ replicate k 0 @ data" if "length pre = 20" for pre
    using that put_at_append [of 20 pre options "Buffer_alloc (o' + (k + n))"]
      put_at_append [of "20 + o' + k" "pre @ options @ replicate k 0" data "Buffer_alloc n"]
    by (simp add: buf_copy_def o'_def n_def drop_alloc)
      (simp add: Buffer_alloc_def replicate_add)
  show ?thesis
    using assms sq(2) ak(2)
    unfolding buildTCPSegment_def Let_def o'_def [symmetric] pad_20 k_def [symmetric] n_def [symmetric]
      sq(1) [symmetric] ak(1) [symmetric]
    by (subst start)
      (simp add: write_int write_numeral buf_set_alloc write_bytes_alloc data
        del: append_assoc append.simps of_nat_add,
       simp add: tcp_header_def o'_def [symmetric] k_def [symmetric])
qed

definition pseudo_header :: "nat \<Rightarrow> ipv4 \<Rightarrow> ipv4 \<Rightarrow> nat \<Rightarrow> buffer" where
  "pseudo_header proto src dst len = ip_bytes src @ ip_bytes dst @ [0, of_nat proto] @ u16_bytes len"

lemma pseudo_checksum_layout:
  assumes "length segment < 65536"
  shows "pseudo_checksum proto src dst segment =
    Inr (calculateIPChecksum (pseudo_header proto src dst (length segment) @ segment
      @ replicate (length segment mod 2) 0))"
proof -
  define n where "n = length segment"
  define p where "p = n + n mod 2"
  have padded: "(if even (12 + n) then 12 + n else 12 + n + 1) = 12 + p"
    by (auto simp: p_def odd_iff_mod_2_eq_one)
  have head: "put_at (ip_bytes src @ ip_bytes dst @ [0, of_nat proto]) 0 (Buffer_alloc (12 + p)) =
      (ip_bytes src @ ip_bytes dst @ [0, of_nat proto]) @ Buffer_alloc (2 + p)"
    using put_at_append [of 0 "[]" "ip_bytes src @ ip_bytes dst @ [0, of_nat proto]" "Buffer_alloc (12 + p)"]
    by (simp add: drop_alloc)
  have body: "buf_copy segment (pre @ Buffer_alloc p) 12 = pre @ segment @ replicate (n mod 2) 0"
    if "length pre = 12" for pre
    using that by (simp add: buf_copy_alloc n_def p_def) (simp add: Buffer_alloc_def)
  show ?thesis
    using assms
    unfolding pseudo_checksum_def Let_def n_def [symmetric] padded head
    by (simp add: write_int write_bytes_alloc body del: append_assoc append.simps)
      (simp add: pseudo_header_def)
qed

text \<open>
  A segment whose checksum field (at an even offset, zero while summing) receives the computed
  value verifies: summing it again with the pseudo header gives 0.
\<close>

lemma pseudo_verifies:
  assumes len: "length pre + 2 + length post \<le> 65515" and pre: "even (length pre)"
    and proto: "0 < proto" "proto < 256"
    and c: "pseudo_checksum proto src dst (pre @ u16_bytes 0 @ post) = Inr c"
  shows "pseudo_checksum proto src dst (pre @ u16_bytes c @ post) = Inr 0"
proof -
  define n where "n = length pre + 2 + length post"
  define h where "h = pseudo_header proto src dst n"
  define msg where "msg k = h @ (pre @ u16_bytes k @ post) @ replicate (n mod 2) 0" for k
  have pc: "pseudo_checksum proto src dst (pre @ u16_bytes k @ post) = Inr (calculateIPChecksum (msg k))" for k
    using pseudo_checksum_layout [of "pre @ u16_bytes k @ post"] len
    by (simp add: msg_def h_def n_def)
  have c': "c = calculateIPChecksum (msg 0)" using c by (simp add: pc)
  have lt: "c < 65536" using c' calculateIPChecksum_lt by simp
  have len_h: "length h = 12" by (simp add: h_def pseudo_header_def)
  have sum: "word_sum (msg k) = word_sum (h @ pre) + (int k + word_sum (post @ replicate (n mod 2) 0))"
    if "k < 65536" for k
    using that pre len_h word_sum_append [of "h @ pre" "u16_bytes k @ post @ replicate (n mod 2) 0"]
      word_sum_append [of "u16_bytes k" "post @ replicate (n mod 2) 0"]
    by (simp add: msg_def word_sum_u16)
  have "0 < word_sum h"
  proof -
    have "word_sum h = word_sum (ip_bytes src @ ip_bytes dst) + (int proto + word_sum (u16_bytes n))"
      using proto word_sum_append [of "ip_bytes src @ ip_bytes dst" "[0, of_nat proto] @ u16_bytes n"]
      by (simp add: h_def pseudo_header_def)
    then show ?thesis
      using proto word_sum_nonneg [of "u16_bytes n"] word_sum_nonneg [of "ip_bytes src @ ip_bytes dst"]
      by simp
  qed
  then have pos: "0 < word_sum (msg 0)"
    using sum [of 0] word_sum_append [of h pre] len_h word_sum_nonneg [of pre]
      word_sum_nonneg [of "post @ replicate (n mod 2) 0"] by simp
  have "(length (msg 0) + 1) div 2 \<le> 32766"
    using len by (simp add: msg_def len_h n_def)
  then have "word_sum (msg 0) < 2147418112"
    using word_sum_le [of "msg 0"] by linarith
  then show ?thesis
    using checksum_verifies [OF pos _ _ c', of "msg c"] sum [of 0] sum [OF lt] by (simp add: pc)
qed

section \<open>Parsing what was built\<close>

lemma parseIPPacket_header:
  assumes "t < 65536" "i < 65536" "proto < 256"
  shows "parseIPPacket (ip_header t i proto c src dst @ body) =
    ebind (parse_transport (ip_header t i proto c src dst @ body)
      \<lparr>headerLength = 20, totalLength = t, ipId = i, protocol = proto, srcIp = src, dstIp = dst,
       srcPort = 0, dstPort = 0, ip_data = [], tcp = None, udpLength = None, icmp = None\<rparr>)
      (\<lambda>r. Inr (Valid r))"
proof -
  define b where "b = ip_header t i proto c src dst @ body"
  obtain s0 s1 s2 s3 d0 d1 d2 d3 where ips: "src = (s0, s1, s2, s3)" "dst = (d0, d1, d2, d3)"
    by (metis prod_cases4)
  have at: "b ! 0 = 69" "unat (b ! 9) = proto" "ip_at b 12 = src" "ip_at b 16 = dst"
    using assms(3) by (simp_all add: b_def ip_header_def u16_bytes_def ips ip_at_def)
  have "u16_at b 2 = t" "u16_at b 4 = i"
    using assms u16_at_append [of 2 "[69, 0]" t] u16_at_append [of 4 "[69, 0] @ u16_bytes t" i]
    by (simp_all add: b_def ip_header_def)
  moreover have "20 \<le> length b" by (simp add: b_def)
  ultimately show ?thesis
    unfolding parseIPPacket_def b_def [symmetric] by (simp add: at readUInt16BE_def)
qed

lemma parse_tcp_segment:
  fixes h body :: buffer
  assumes "length h = 20" "sp < 65536" "dp < 65536" "seq < 4294967296" "ack < 4294967296"
    "flags < 256" "win < 65536" "length opts \<le> 40" "headerLength r = 20" "protocol r = PROTO_TCP"
  shows "parse_transport (h @ tcp_header sp dp seq ack flags win c opts @ data) r =
    Inr (r\<lparr>srcPort := sp, dstPort := dp,
      tcp := Some \<lparr>tcpSeq = seq, tcpAck = ack,
        tcpDataOffset = 20 + length opts + (4 - length opts mod 4) mod 4,
        tcpFlags = flags, tcpWindow = win\<rparr>,
      ip_data := data\<rparr>)"
proof -
  define k where "k = (4 - length opts mod 4) mod 4"
  define b where "b = h @ tcp_header sp dp seq ack flags win c opts @ data"
  obtain j where j: "length opts + k = 4 * j" unfolding k_def by (rule pad4)
  have k40: "length opts + k \<le> 40" using pad_le_40 [OF assms(8)] by (simp add: k_def)
  have k: "(20 + length opts + k) div 4 * 4 = 20 + length opts + k"
    using j by (simp add: add.assoc)
  have rd: "u16_at b 20 = sp" "u16_at b 22 = dp" "u32_at b 24 = seq" "u32_at b 28 = ack" "u16_at b 34 = win"
    using assms u16_at_append [of 20 h sp] u16_at_append [of 22 "h @ u16_bytes sp" dp]
      u32_at_append [of 24 "h @ u16_bytes sp @ u16_bytes dp" seq]
      u32_at_append [of 28 "h @ u16_bytes sp @ u16_bytes dp @ u32_bytes seq" ack]
      u16_at_append [of 34 "h @ u16_bytes sp @ u16_bytes dp @ u32_bytes seq @ u32_bytes ack
        @ [of_nat ((20 + length opts + k) div 4 * 16), of_nat flags]" win]
    by (simp_all add: b_def tcp_header_def k_def [symmetric])
  have len: "length b = 40 + length opts + k + length data"
    using assms(1) by (simp add: b_def length_tcp_header k_def)
  have "unat (b ! 32) = (20 + length opts + k) div 4 * 16 mod 256" "unat (b ! 33) = flags"
    using assms(1,6) nth_append_off [of "h @ u16_bytes sp @ u16_bytes dp @ u32_bytes seq @ u32_bytes ack" _ 0]
      nth_append_off [of "h @ u16_bytes sp @ u16_bytes dp @ u32_bytes seq @ u32_bytes ack" _ 1]
    by (simp_all add: b_def tcp_header_def k_def [symmetric] del: of_nat_mult)
  moreover have "(20 + length opts + k) div 4 * 16 < 256" using k40 by simp
  ultimately have off: "unat (b ! 32) div 16 * 4 = 20 + length opts + k" "unat (b ! 33) = flags"
    using k by simp_all
  have data: "tail_from (40 + length opts + k) b = data"
    using subarray_append [of "40 + length opts + k" "h @ tcp_header sp dp seq ack flags win c opts" _ data "[]"]
      assms(1) len
    by (cases data) (simp_all add: tail_from_def b_def length_tcp_header k_def [symmetric])
  show ?thesis
    unfolding b_def [symmetric] k_def [symmetric] using assms(9,10) len off rd data
    by (simp add: parse_transport_def readUInt16BE_def readUInt32BE_def Let_def add.assoc)
qed

definition udp_header :: "nat \<Rightarrow> nat \<Rightarrow> nat \<Rightarrow> nat \<Rightarrow> buffer" where
  "udp_header sp dp len csum = u16_bytes sp @ u16_bytes dp @ u16_bytes len @ u16_bytes csum"

lemma length_udp_header [simp]: "length (udp_header sp dp len c) = 8"
  by (simp add: udp_header_def)

lemma buildUDPDatagram_layout:
  assumes "sp < 65536" "dp < 65536" "8 + length data < 65536"
  shows "buildUDPDatagram (int sp) (int dp) data = Inr (udp_header sp dp (8 + length data) 0 @ data)"
proof -
  define n where "n = length data"
  have start: "Buffer_alloc (8 + n) = [] @ Buffer_alloc (8 + n)" by simp
  have body: "(if 0 < n then buf_copy data (pre @ Buffer_alloc n) 8 else pre @ Buffer_alloc n) = pre @ data"
    if "length pre = 8" for pre
    using that by (auto simp: n_def buf_copy_alloc) (simp_all add: Buffer_alloc_def)
  show ?thesis
    using assms unfolding buildUDPDatagram_def Let_def n_def [symmetric]
    by (subst start)
      (simp add: write_int write_numeral write_bytes_alloc body del: append_assoc append.simps of_nat_add,
       simp add: udp_header_def)
qed

lemma parse_udp_datagram:
  fixes h :: buffer
  assumes "length h = 20" "sp < 65536" "dp < 65536" "len < 65536" "headerLength r = 20"
    "protocol r = PROTO_UDP"
  shows "parse_transport (h @ udp_header sp dp len c @ data) r =
    Inr (r\<lparr>srcPort := sp, dstPort := dp, udpLength := Some len, ip_data := data\<rparr>)"
proof -
  define b where "b = h @ udp_header sp dp len c @ data"
  have rd: "u16_at b 20 = sp" "u16_at b 22 = dp" "u16_at b 24 = len"
    using assms u16_at_append [of 20 h sp] u16_at_append [of 22 "h @ u16_bytes sp" dp]
      u16_at_append [of 24 "h @ u16_bytes sp @ u16_bytes dp" len]
    by (simp_all add: b_def udp_header_def)
  have len: "length b = 28 + length data" using assms(1) by (simp add: b_def)
  have data: "tail_from 28 b = data"
    using subarray_append [of 28 "h @ udp_header sp dp len c" _ data "[]"] assms(1) len
    by (cases data) (simp_all add: tail_from_def b_def)
  show ?thesis
    unfolding b_def [symmetric] using assms(5,6) rd len data
    by (simp add: parse_transport_def readUInt16BE_def protocols)
qed

lemma write_checksum:
  "off = length pre \<Longrightarrow> c < 65536 \<Longrightarrow>
   writeUInt16BE (pre @ u16_bytes 0 @ post) (int c) off = Inr (pre @ u16_bytes c @ post)"
  by (simp add: write_int write_bytes_def put_at_replace)

text \<open>
  The common last step of both builders: put the checksum into the segment, wrap it into IP.
\<close>

lemma wrap_segment:
  assumes "20 + (length pre + 2 + length post) < 65536" "even (length pre)" "rnd < 65536"
    "0 < proto" "proto < 256" "off = length pre"
  shows "\<exists>c i. c < 65536 \<and>
    ebind (pseudo_checksum proto src dst (pre @ u16_bytes 0 @ post)) (\<lambda>checksum.
    ebind (writeUInt16BE (pre @ u16_bytes 0 @ post) (int checksum) off) (\<lambda>seg.
    buildIPPacket rnd src dst proto seg None)) =
      Inr (ip_header (20 + (length pre + 2 + length post)) rnd proto i src dst @ pre @ u16_bytes c @ post) \<and>
    calculateIPChecksum (ip_header (20 + (length pre + 2 + length post)) rnd proto i src dst) = 0 \<and>
    pseudo_checksum proto src dst (pre @ u16_bytes c @ post) = Inr 0"
proof -
  define n where "n = length pre + 2 + length post"
  obtain c where c: "pseudo_checksum proto src dst (pre @ u16_bytes 0 @ post) = Inr c" "c < 65536"
    using pseudo_checksum_layout [of "pre @ u16_bytes 0 @ post"] assms(1) calculateIPChecksum_lt by simp
  define i where "i = calculateIPChecksum (ip_header (20 + n) rnd proto 0 src dst)"
  have "buildIPPacket rnd src dst proto (pre @ u16_bytes c @ post) None =
      Inr (ip_header (20 + n) rnd proto i src dst @ pre @ u16_bytes c @ post)"
    using buildIPPacket_layout [of "pre @ u16_bytes c @ post" rnd] assms by (simp add: n_def i_def)
  moreover have "calculateIPChecksum (ip_header (20 + n) rnd proto i src dst) = 0"
    using ip_header_verifies [of "20 + n" rnd] assms by (simp add: n_def i_def)
  moreover have "pseudo_checksum proto src dst (pre @ u16_bytes c @ post) = Inr 0"
    using pseudo_verifies [OF _ assms(2,4,5) c(1)] assms(1) by simp
  ultimately show ?thesis
    using c assms(6) by (auto simp: write_checksum n_def)
qed

section \<open>Option lists\<close>

lemma tcp_options_step:
  assumes "i = length pre" "kind \<noteq> 0" "kind \<noteq> 1" "length vs + 2 < 256" "i + (length vs + 2) \<le> e"
    and buf: "buf = pre @ [kind, of_nat (length vs + 2)] @ vs @ rest"
  shows "tcp_options buf i e n =
    tcp_options buf (i + (length vs + 2)) e (tcp_option buf i (unat kind) (length vs + 2) n)"
proof -
  have "buf ! i = kind" "buf ! (i + 1) = of_nat (length vs + 2)" "i + 1 < length buf"
    using assms by (simp_all add: nth_append)
  moreover have "unat (of_nat (length vs + 2) :: byte) = length vs + 2"
    using assms(4) by (simp only: unat_of_nat_byte mod_less)
  moreover have "unat kind \<noteq> 0" "unat kind \<noteq> 1"
    using assms(2,3) by (metis unsigned_word_eqI unsigned_0, metis unsigned_word_eqI unsigned_1)
  ultimately show ?thesis
    using assms(5) by (subst tcp_options.simps) (simp add: Let_def buf_get_def)
qed

lemma tcp_options_nop:
  "i = length pre \<Longrightarrow> i < e \<Longrightarrow> buf = pre @ [1] @ rest \<Longrightarrow>
   tcp_options buf i e n = tcp_options buf (i + 1) e n"
  by (subst tcp_options.simps) (simp add: nth_append)

lemma tcp_options_end:
  "i = length pre \<Longrightarrow> buf = pre @ replicate k 0 @ rest \<Longrightarrow> e = i + k \<Longrightarrow> tcp_options buf i e n = n"
  by (subst tcp_options.simps) (cases k; simp add: nth_append)

text \<open>What the peer reads from our SYN-ACK options.\<close>

definition synack_offer :: "nat \<Rightarrow> syn_opts \<Rightarrow> syn_opts" where
  "synack_offer nowSec n =
     \<lparr>so_mss = Some (min 1360 (case so_mss n of Some m \<Rightarrow> if m \<noteq> 0 then min m 1360 else 1360 | None \<Rightarrow> 1360)),
      so_wscale = (case so_wscale n of Some w \<Rightarrow> if w \<le> 14 then Some w else None | None \<Rightarrow> None),
      so_sackPerm = so_sackPerm n,
      so_tsval = map_option (\<lambda>_. nowSec mod 4294967296) (so_tsval n)\<rparr>"

lemma opt_mss:
  assumes "i = length pre" "m < 65536" "i + 4 \<le> e" "buf = pre @ [2, 4] @ u16_bytes m @ rest"
  shows "tcp_options buf i e n = tcp_options buf (i + 4) e (n\<lparr>so_mss := Some m\<rparr>)"
  using assms tcp_options_step [of i pre 2 "u16_bytes m" e buf rest n] u16_at_append [of "i + 2" "pre @ [2, 4]" m rest]
  by (simp add: tcp_option_def)

lemma opt_sack:
  assumes "i = length pre" "i + 2 \<le> e" "buf = pre @ [4, 2] @ rest"
  shows "tcp_options buf i e n = tcp_options buf (i + 2) e (n\<lparr>so_sackPerm := True\<rparr>)"
  using assms tcp_options_step [of i pre 4 "[]" e buf rest n]
  by (simp add: tcp_option_def)

lemma opt_ts:
  assumes "i = length pre" "t < 4294967296" "i + 10 \<le> e"
    "buf = pre @ [8, 10] @ u32_bytes t @ u32_bytes v @ rest"
  shows "tcp_options buf i e n = tcp_options buf (i + 10) e (n\<lparr>so_tsval := Some t\<rparr>)"
  using assms tcp_options_step [of i pre 8 "u32_bytes t @ u32_bytes v" e buf rest n]
    u32_at_append [of "i + 2" "pre @ [8, 10]" t "u32_bytes v @ rest"]
  by (simp add: tcp_option_def)

lemma opt_ws:
  assumes "i = length pre" "w \<le> 14" "i + 7 \<le> e" "buf = pre @ [1, 1, 1, 1] @ [3, 3, of_nat w] @ rest"
  shows "tcp_options buf i e n = tcp_options buf (i + 7) e (n\<lparr>so_wscale := Some w\<rparr>)"
proof -
  have nop: "tcp_options buf (i + j) e n = tcp_options buf (i + Suc j) e n" if "j < 4" for j
  proof -
    have "pre @ [1, 1, 1, 1] @ [3, 3, of_nat w] @ rest =
        (pre @ replicate j 1) @ [1] @ replicate (3 - j) 1 @ [3, 3, of_nat w] @ rest"
      using that by (auto simp: less_Suc_eq numeral_eq_Suc)
    then show ?thesis
      using tcp_options_nop [of "i + j" "pre @ replicate j 1" e buf] assms that by simp
  qed
  have "tcp_options buf i e n = tcp_options buf (i + 4) e n"
    using nop [of 0] nop [of 1] nop [of 2] nop [of 3] by (simp add: eval_nat_numeral)
  also have "\<dots> = tcp_options buf (i + 4 + 3) e (n\<lparr>so_wscale := Some w\<rparr>)"
    using assms tcp_options_step [of "i + 4" "pre @ [1, 1, 1, 1]" 3 "[of_nat w]" e buf rest n]
    by (simp add: tcp_option_def nth_append)
  finally show ?thesis by (simp add: add.commute)
qed

lemma synack_options_parse:
  assumes "i = length pre" and opts: "opts = buildSynAckOptions nowSec n" and "e = i + length opts"
  shows "tcp_options (pre @ opts @ rest) i e no_opts = synack_offer nowSec n"
proof -
  define m where "m = min 1360 (case so_mss n of Some m \<Rightarrow> if m \<noteq> 0 then min m 1360 else 1360 | None \<Rightarrow> (1360::nat))"
  define sack :: buffer where "sack = (if so_sackPerm n then [4, 2] else [])"
  define ts where "ts = (case so_tsval n of
      Some v \<Rightarrow> [8, 10] @ u32_bytes (nowSec mod 4294967296) @ u32_bytes (v mod 4294967296) | None \<Rightarrow> [])"
  define ws :: buffer where "ws = (case so_wscale n of
      Some w \<Rightarrow> if w \<le> 14 then [1, 1, 1, 1] @ [3, 3, of_nat w] else [] | None \<Rightarrow> [])"
  define body where "body = [2, 4] @ u16_bytes m @ sack @ ts @ ws"
  obtain k where layout: "opts = body @ replicate k 0"
    unfolding opts buildSynAckOptions_def Let_def m_def sack_def ts_def ws_def body_def by simp
  define buf where "buf = pre @ opts @ rest"
  have buf: "buf = pre @ [2, 4] @ u16_bytes m @ sack @ ts @ ws @ replicate k 0 @ rest"
    by (simp add: buf_def layout body_def)
  have e: "e = i + 4 + length sack + length ts + length ws + k"
    using assms(3) by (simp add: layout body_def)
  have "m < 65536" by (simp add: m_def)
  then have 1: "tcp_options buf i e no_opts = tcp_options buf (i + 4) e (no_opts\<lparr>so_mss := Some m\<rparr>)"
    using assms(1) e buf by (intro opt_mss) auto
  have 2: "tcp_options buf (i + 4) e x =
      tcp_options buf (i + 4 + length sack) e (if so_sackPerm n then x\<lparr>so_sackPerm := True\<rparr> else x)" for x
    using assms(1) e buf
      opt_sack [of "i + 4" "pre @ [2, 4] @ u16_bytes m" e buf "ts @ ws @ replicate k 0 @ rest" x]
    by (cases "so_sackPerm n") (simp_all add: sack_def)
  have 3: "tcp_options buf (i + 4 + length sack) e x = tcp_options buf (i + 4 + length sack + length ts) e
      (case so_tsval n of Some _ \<Rightarrow> x\<lparr>so_tsval := Some (nowSec mod 4294967296)\<rparr> | None \<Rightarrow> x)" for x
    using assms(1) e buf opt_ts [of "i + 4 + length sack" "pre @ [2, 4] @ u16_bytes m @ sack"
        "nowSec mod 4294967296" e buf "the (so_tsval n) mod 4294967296" "ws @ replicate k 0 @ rest" x]
    by (cases "so_tsval n") (simp_all add: ts_def)
  have 4: "tcp_options buf (i + 4 + length sack + length ts) e x =
      tcp_options buf (i + 4 + length sack + length ts + length ws) e
      (case so_wscale n of Some w \<Rightarrow> if w \<le> 14 then x\<lparr>so_wscale := Some w\<rparr> else x | None \<Rightarrow> x)" for x
    using assms(1) e buf opt_ws [of "i + 4 + length sack + length ts"
        "pre @ [2, 4] @ u16_bytes m @ sack @ ts" "the (so_wscale n)" e buf "replicate k 0 @ rest" x]
    by (cases "so_wscale n") (simp_all add: ws_def)
  have 5: "tcp_options buf (i + 4 + length sack + length ts + length ws) e x = x" for x
    using assms(1) e buf tcp_options_end [of _ "pre @ [2, 4] @ u16_bytes m @ sack @ ts @ ws" buf k rest e]
    by simp
  show ?thesis
    unfolding buf_def [symmetric] 1 2 3 4 5
    by (auto simp: synack_offer_def no_opts_def m_def split: option.splits)
qed

lemma synack_options_length:
  "length (buildSynAckOptions nowSec n) \<le> 40" "length (buildSynAckOptions nowSec n) mod 4 = 0"
proof -
  define m where "m = min 1360 (case so_mss n of Some m \<Rightarrow> if m \<noteq> 0 then min m 1360 else 1360 | None \<Rightarrow> 1360)"
  define sack :: buffer where "sack = (if so_sackPerm n then [4, 2] else [])"
  define ts where "ts = (case so_tsval n of
      Some v \<Rightarrow> [8, 10] @ u32_bytes (nowSec mod 4294967296) @ u32_bytes (v mod 4294967296) | None \<Rightarrow> [])"
  define ws :: buffer where "ws = (case so_wscale n of
      Some w \<Rightarrow> if w \<le> 14 then [1, 1, 1, 1] @ [3, 3, of_nat w] else [] | None \<Rightarrow> [])"
  define body where "body = [2, 4] @ u16_bytes m @ sack @ ts @ ws"
  have "buildSynAckOptions nowSec n = body @ replicate ((4 - length body mod 4) mod 4) 0"
    unfolding buildSynAckOptions_def Let_def m_def sack_def ts_def ws_def body_def by simp
  moreover have "length sack \<le> 2" "length ts \<le> 10" "length ws \<le> 7"
    by (simp_all add: sack_def ts_def ws_def split: option.splits)
  then have "length body \<le> 23" by (simp add: body_def)
  ultimately obtain body where body: "buildSynAckOptions nowSec n = body @ replicate ((4 - length body mod 4) mod 4) 0"
      "length body \<le> 23" by blast
  then show "length (buildSynAckOptions nowSec n) \<le> 40"
    using pad_le_40 [of "length body"] by simp
  show "length (buildSynAckOptions nowSec n) mod 4 = 0"
    using pad4 [of "length body"] body by (metis length_append length_replicate mod_mult_self1_is_0)
qed

lemma buildIPPacket_too_long:
  "65536 \<le> 20 + length payload \<Longrightarrow> buildIPPacket rnd src dst proto payload ident = Inl RangeError"
  by (simp add: buildIPPacket_def writeUInt16BE_def Let_def)

lemma udp_too_long:
  assumes "sp < 65536" "dp < 65536" "65536 \<le> 28 + length data"
  shows "buildUDPPacket rnd src dst (int sp) (int dp) data = Inl RangeError"
proof (cases "8 + length data < 65536")
  case True
  define u where "u = udp_header sp dp (8 + length data) 0"
  obtain c where c: "calculateUDPChecksum src dst (u @ data) = Inr c" "c < 65536"
    using pseudo_checksum_layout [of "u @ data"] True calculateIPChecksum_lt
    by (simp add: calculateUDPChecksum_def u_def)
  have "buildIPPacket rnd src dst PROTO_UDP (put_at (u16_bytes c) 6 (u @ data)) None = Inl RangeError"
    using assms(3) by (intro buildIPPacket_too_long) (simp add: u_def)
  then show ?thesis
    using buildUDPDatagram_layout [OF assms(1,2) True] c
    by (simp add: buildUDPPacket_def u_def [symmetric] write_int write_bytes_def)
next
  case False
  define b where "b = Buffer_alloc (8 + length data)"
  have "writeUInt16BE x (int (8 + length data)) 4 = Inl RangeError" for x
    using False by (simp add: writeUInt16BE_def)
  moreover have "\<exists>y. ebind (writeUInt16BE b (int sp) 0) (\<lambda>d. writeUInt16BE d (int dp) 2) = Inr y"
    using assms(1,2) by (simp add: write_int write_bytes_def b_def)
  ultimately show ?thesis
    using assms(1,2)
    by (simp add: buildUDPPacket_def buildUDPDatagram_def Let_def write_int write_bytes_def
        del: of_nat_add)
qed

lemma buildTCPPacket_layout:
  assumes "sp < 65536" "dp < 65536" "flags < 256" "length opts \<le> 40" "rnd < 65536"
    "80 + length data < 65536"
  shows "\<exists>c i. buildTCPPacket rnd src dst (int sp) (int dp) seq ack flags data opts =
      Inr (ip_header (20 + (20 + length opts + (4 - length opts mod 4) mod 4 + length data))
             rnd PROTO_TCP i src dst
           @ tcp_header sp dp (nat (seq mod 4294967296)) (nat (ack mod 4294967296)) flags 65535 c opts @ data) \<and>
    calculateIPChecksum (ip_header (20 + (20 + length opts + (4 - length opts mod 4) mod 4 + length data))
             rnd PROTO_TCP i src dst) = 0 \<and>
    calculateTCPChecksum src dst
      (tcp_header sp dp (nat (seq mod 4294967296)) (nat (ack mod 4294967296)) flags 65535 c opts @ data) = Inr 0"
proof -
  define sq ak where "sq = nat (seq mod 4294967296)" and "ak = nat (ack mod 4294967296)"
  define k where "k = (4 - length opts mod 4) mod 4"
  define pre where "pre = u16_bytes sp @ u16_bytes dp @ u32_bytes sq @ u32_bytes ak
     @ [of_nat ((20 + length opts + k) div 4 * 16), of_nat flags] @ u16_bytes 65535"
  define post where "post = u16_bytes 0 @ opts @ replicate k 0 @ data"
  define n where "n = length pre + 2 + length post"
  have split: "tcp_header sp dp sq ak flags 65535 c opts @ data = pre @ u16_bytes c @ post" for c
    by (simp add: tcp_header_def pre_def post_def k_def)
  have n: "n = 20 + length opts + k + length data" "even (length pre)" "length pre = 16"
    by (simp_all add: n_def pre_def post_def)
  have k: "length opts + k \<le> 40" using pad_le_40 [OF assms(4)] by (simp add: k_def)
  have fits: "20 + n < 65536" using n(1) k assms(6) by linarith
  have seg: "buildTCPSegment (int sp) (int dp) seq ack flags data 65535 opts = Inr (pre @ u16_bytes 0 @ post)"
    using buildTCPSegment_layout [of sp dp 65535 seq ack flags data opts] assms
    by (simp add: split flip: sq_def ak_def)
  show ?thesis
    using wrap_segment [OF _ n(2) assms(5) _ _ n(3) [symmetric], of post PROTO_TCP src dst] fits
    unfolding n_def [symmetric] n(1) k_def [symmetric] sq_def [symmetric] ak_def [symmetric] split
      buildTCPPacket_def seg calculateTCPChecksum_def ebind_simps
    by (auto simp: protocols)
qed

section \<open>Properties\<close>

text \<open>(C37) \<open>parseIPPacket\<close> never throws, whatever bytes arrive from the tunnel or a peer: every read
  it performs is covered by its length checks. A packet it accepts has ports, sequence numbers
  and lengths inside their fields.\<close>

theorem parseIPPacket_total:
  "\<exists>r. parseIPPacket buf = Inr r \<and>
     (case r of
        NoPacket \<Rightarrow> length buf < 20
      | InvalidVersion v \<Rightarrow> 20 \<le> length buf \<and> v \<noteq> 4 \<and> v < 16
      | Valid q \<Rightarrow> 20 \<le> length buf \<and> headerLength q \<le> 60 \<and> totalLength q < 65536 \<and>
          protocol q < 256 \<and> srcPort q < 65536 \<and> dstPort q < 65536 \<and>
          length (ip_data q) \<le> length buf \<and>
          (case tcp q of None \<Rightarrow> True | Some t \<Rightarrow> protocol q = PROTO_TCP \<and> tcpSeq t < 4294967296 \<and>
             tcpAck t < 4294967296 \<and> tcpDataOffset t \<le> 60 \<and> tcpFlags t < 256 \<and> tcpWindow t < 65536))"
proof -
  have "unat b div 16 < 16" for b :: byte
    using unat_byte_lt [of b] by linarith
  then have lt16: "unat b div 16 < 16" "unat b mod 16 * 4 \<le> 60" "unat b div 16 * 4 \<le> 60" for b :: byte
    using mod_less_divisor [of 16 "unat b"] by (auto simp: less_Suc_eq_le [of _ 15, simplified])
  show ?thesis
    using u16_at_lt u32_at_lt lt16
    by (auto simp: parseIPPacket_def parse_transport_def readUInt16BE_def readUInt32BE_def Let_def
        tail_from_def subarray_def protocols)
qed

text \<open>(C35) A TCP packet built by the exit node is read back unchanged by the parser of the other
  end: addresses, ports, sequence and acknowledgement numbers modulo \<open>2^32\<close>, flags and data; and
  both the IP header checksum and the TCP checksum verify.\<close>

theorem tcp_packet_roundtrip:
  assumes "sp < 65536" "dp < 65536" "flags < 256" "length opts \<le> 40" "rnd < 65536"
    "80 + length data < 65536"
  shows "\<exists>pkt q t. buildTCPPacket rnd src dst (int sp) (int dp) seq ack flags data opts = Inr pkt \<and>
    parseIPPacket pkt = Inr (Valid q) \<and> tcp q = Some t \<and>
    srcIp q = src \<and> dstIp q = dst \<and> srcPort q = sp \<and> dstPort q = dp \<and> protocol q = PROTO_TCP \<and>
    totalLength q = length pkt \<and> ip_data q = data \<and>
    int (tcpSeq t) = seq mod 4294967296 \<and> int (tcpAck t) = ack mod 4294967296 \<and> tcpFlags t = flags \<and>
    calculateIPChecksum (subarray 0 20 pkt) = 0 \<and>
    calculateTCPChecksum src dst (subarray 20 (length pkt) pkt) = Inr 0"
proof -
  define sq ak where "sq = nat (seq mod 4294967296)" and "ak = nat (ack mod 4294967296)"
  define n where "n = 20 + length opts + (4 - length opts mod 4) mod 4 + length data"
  have bounds: "sq < 4294967296" "ak < 4294967296" "20 + n < 65536"
    using assms(6) pad_le_40 [OF assms(4)] by (simp_all add: sq_def ak_def nat_less_iff n_def)
  obtain c i where built: "buildTCPPacket rnd src dst (int sp) (int dp) seq ack flags data opts =
        Inr (ip_header (20 + n) rnd PROTO_TCP i src dst @ tcp_header sp dp sq ak flags 65535 c opts @ data)"
    and ok: "calculateIPChecksum (ip_header (20 + n) rnd PROTO_TCP i src dst) = 0"
      "calculateTCPChecksum src dst (tcp_header sp dp sq ak flags 65535 c opts @ data) = Inr 0"
    using buildTCPPacket_layout [OF assms] unfolding sq_def ak_def n_def by blast
  define h seg where "h = ip_header (20 + n) rnd PROTO_TCP i src dst"
    and "seg = tcp_header sp dp sq ak flags 65535 c opts @ data"
  have len: "length h = 20" "length seg = n" by (simp_all add: h_def seg_def length_tcp_header n_def)
  have parse: "parseIPPacket (h @ seg) = Inr (Valid
      \<lparr>headerLength = 20, totalLength = 20 + n, ipId = rnd, protocol = PROTO_TCP, srcIp = src, dstIp = dst,
       srcPort = sp, dstPort = dp, ip_data = data,
       tcp = Some \<lparr>tcpSeq = sq, tcpAck = ak,
         tcpDataOffset = 20 + length opts + (4 - length opts mod 4) mod 4,
         tcpFlags = flags, tcpWindow = 65535\<rparr>, udpLength = None, icmp = None\<rparr>)"
    using parseIPPacket_header [of "20 + n" rnd PROTO_TCP i src dst seg] bounds assms
      parse_tcp_segment [of h sp dp sq ak flags 65535 opts _ c data]
    by (simp add: h_def seg_def protocols)
  have "subarray 0 20 (h @ seg) = h" "subarray 20 (20 + n) (h @ seg) = seg"
    using subarray_append [of 0 "[]" 20 h seg] subarray_append [of 20 h "20 + n" seg "[]"] len
    by simp_all
  then show ?thesis
    using built ok parse len unfolding h_def [symmetric] seg_def [symmetric]
    by (simp add: sq_def ak_def)
qed

theorem tcp_packet_roundtrip_witness:
  "\<exists>pkt q t. buildTCPPacket 7 (10, 200, 0, 2) (8, 8, 8, 8) (int 40000) (int 443) (2 ^ 32 + 5) 9
      (FLAG_PSH + FLAG_ACK) [1, 2, 3] [] = Inr pkt \<and>
    parseIPPacket pkt = Inr (Valid q) \<and> tcp q = Some t \<and> int (tcpSeq t) = 5 \<and> ip_data q = [1, 2, 3] \<and>
    calculateIPChecksum (subarray 0 20 pkt) = 0"
  using tcp_packet_roundtrip [of 40000 443 "FLAG_PSH + FLAG_ACK" "[]" 7 "[1, 2, 3]"
      "(10, 200, 0, 2)" "(8, 8, 8, 8)" "2 ^ 32 + 5" 9]
  by (auto simp: tcp_flag_values)

text \<open>The same for UDP replies; and a datagram that does not fit one IP packet makes the
  builder throw instead of sending a truncated packet.\<close>

theorem udp_packet_roundtrip:
  assumes "sp < 65536" "dp < 65536" "rnd < 65536"
  shows "if 28 + length data < 65536
    then \<exists>pkt q. buildUDPPacket rnd src dst (int sp) (int dp) data = Inr pkt \<and>
      parseIPPacket pkt = Inr (Valid q) \<and> srcIp q = src \<and> dstIp q = dst \<and> srcPort q = sp \<and>
      dstPort q = dp \<and> protocol q = PROTO_UDP \<and> udpLength q = Some (8 + length data) \<and>
      totalLength q = length pkt \<and> ip_data q = data \<and>
      calculateIPChecksum (subarray 0 20 pkt) = 0 \<and>
      calculateUDPChecksum src dst (subarray 20 (length pkt) pkt) = Inr 0
    else buildUDPPacket rnd src dst (int sp) (int dp) data = Inl RangeError"
proof (cases "28 + length data < 65536")
  case True
  define n where "n = 8 + length data"
  define pre where "pre = u16_bytes sp @ u16_bytes dp @ u16_bytes n"
  have split: "udp_header sp dp n c @ data = pre @ u16_bytes c @ data" for c
    by (simp add: udp_header_def pre_def)
  have len: "length pre = 6" "length pre + 2 + length data = n" "even (length pre)" "20 + n < 65536"
    using True by (simp_all add: pre_def n_def)
  have seg: "buildUDPDatagram (int sp) (int dp) data = Inr (pre @ u16_bytes 0 @ data)"
    using buildUDPDatagram_layout [of sp dp data] assms True by (simp add: n_def split [unfolded n_def])
  obtain c i where built: "ebind (pseudo_checksum PROTO_UDP src dst (pre @ u16_bytes 0 @ data)) (\<lambda>checksum.
      ebind (writeUInt16BE (pre @ u16_bytes 0 @ data) (int checksum) 6) (\<lambda>seg.
      buildIPPacket rnd src dst PROTO_UDP seg None)) =
        Inr (ip_header (20 + n) rnd PROTO_UDP i src dst @ pre @ u16_bytes c @ data)"
    and ok: "calculateIPChecksum (ip_header (20 + n) rnd PROTO_UDP i src dst) = 0"
      "pseudo_checksum PROTO_UDP src dst (pre @ u16_bytes c @ data) = Inr 0"
    using wrap_segment [OF _ len(3) assms(3) _ _ len(1) [symmetric], of data PROTO_UDP src dst] len(4)
    unfolding len(2) protocols by auto
  define h where "h = ip_header (20 + n) rnd PROTO_UDP i src dst"
  have parse: "parseIPPacket (h @ pre @ u16_bytes c @ data) = Inr (Valid
      \<lparr>headerLength = 20, totalLength = 20 + n, ipId = rnd, protocol = PROTO_UDP, srcIp = src, dstIp = dst,
       srcPort = sp, dstPort = dp, ip_data = data, tcp = None, udpLength = Some n, icmp = None\<rparr>)"
    using parseIPPacket_header [of "20 + n" rnd PROTO_UDP i src dst "pre @ u16_bytes c @ data"] assms len(4)
      parse_udp_datagram [of h sp dp n _ c data]
    by (simp add: split h_def protocols)
  have "subarray 0 20 (h @ pre @ u16_bytes c @ data) = h"
      "subarray 20 (20 + n) (h @ pre @ u16_bytes c @ data) = pre @ u16_bytes c @ data"
    using subarray_append [of 0 "[]" 20 h "pre @ u16_bytes c @ data"]
      subarray_append [of 20 h "20 + n" "pre @ u16_bytes c @ data" "[]"]
    by (simp_all add: h_def pre_def n_def)
  moreover have "length (h @ pre @ u16_bytes c @ data) = 20 + n" by (simp add: h_def pre_def n_def)
  ultimately show ?thesis
    unfolding buildUDPPacket_def seg calculateUDPChecksum_def
    using built ok parse True n_def by (simp add: h_def)
next
  case False
  then show ?thesis
    using udp_too_long [OF assms(1,2)] by simp
qed

theorem udp_packet_roundtrip_witness:
  "\<exists>pkt q. buildUDPPacket 3 (1, 1, 1, 1) (10, 200, 0, 2) (int 53) (int 5353) [7, 7] = Inr pkt \<and>
     parseIPPacket pkt = Inr (Valid q) \<and> srcPort q = 53 \<and> ip_data q = [7, 7]"
  using udp_packet_roundtrip [of 53 5353 3 "[7, 7]" "(1, 1, 1, 1)" "(10, 200, 0, 2)"] by auto

text \<open>Option negotiation: the options of a SYN-ACK that \<open>buildSynAckOptions\<close> derives from a
  client's SYN are read back by \<open>parseTcpSynOptions\<close> as exactly the offer: an MSS of at most
  1360, SACK if the client permitted it, a window scale of at most 14, our time stamp.\<close>

theorem synack_negotiation:
  assumes "sp < 65536" "dp < 65536" "rnd < 65536"
  shows "\<exists>pkt. buildTCPPacket rnd src dst (int sp) (int dp) seq ack (FLAG_SYN + FLAG_ACK) []
      (buildSynAckOptions nowSec n) = Inr pkt \<and> parseTcpSynOptions pkt = synack_offer nowSec n"
proof -
  define opts where "opts = buildSynAckOptions nowSec n"
  have len: "length opts \<le> 40" "length opts mod 4 = 0"
    unfolding opts_def by (rule synack_options_length)+
  then have pad: "(4 - length opts mod 4) mod 4 = 0" by simp
  define sq ak where "sq = nat (seq mod 4294967296)" and "ak = nat (ack mod 4294967296)"
  have fl: "FLAG_SYN + FLAG_ACK = 18" by (simp add: tcp_flag_values)
  obtain c i where built: "buildTCPPacket rnd src dst (int sp) (int dp) seq ack 18 [] opts =
      Inr (ip_header (20 + (20 + length opts)) rnd PROTO_TCP i src dst @ tcp_header sp dp sq ak 18 65535 c opts)"
    using buildTCPPacket_layout [of sp dp 18 opts rnd "[]" src dst seq ack] len assms
    by (auto simp: pad sq_def ak_def)
  obtain h where h: "tcp_header sp dp sq ak 18 65535 c opts = h @ opts" "length h = 20"
      "unat (h ! 12) = (20 + length opts) div 4 * 16 mod 256"
    using that [of "u16_bytes sp @ u16_bytes dp @ u32_bytes sq @ u32_bytes ak
      @ [of_nat ((20 + length opts) div 4 * 16), of_nat 18] @ u16_bytes 65535 @ u16_bytes c @ u16_bytes 0"]
    by (simp add: tcp_header_def pad u16_bytes_def u32_bytes_def del: of_nat_mult)
  define b where "b = ip_header (20 + (20 + length opts)) rnd PROTO_TCP i src dst @ h @ opts"
  have at: "b ! 0 = 69" "unat (b ! 9) = PROTO_TCP" "length b = 40 + length opts"
    using h(2) by (simp_all add: b_def ip_header_def u16_bytes_def protocols)
  have "b ! 32 = h ! 12"
    using nth_append_off [of "ip_header (20 + (20 + length opts)) rnd PROTO_TCP i src dst" "h @ opts" 12] h(2)
    by (simp add: b_def nth_append)
  then have "unat (b ! 32) div 16 * 4 = 20 + length opts"
    using h(3) len by auto
  then have "parseTcpSynOptions b = tcp_options b 40 (40 + length opts) no_opts"
    by (simp add: parseTcpSynOptions_def at Let_def)
  also have "\<dots> = synack_offer nowSec n"
    using synack_options_parse [of 40 "ip_header (20 + (20 + length opts)) rnd PROTO_TCP i src dst @ h"
        opts nowSec n "40 + length opts" "[]"] h(2) by (simp add: b_def opts_def)
  finally show ?thesis
    using built unfolding fl h(1) b_def [symmetric] opts_def [symmetric] by blast
qed

theorem synack_negotiation_witness:
  "\<exists>pkt. buildTCPPacket 1 (8, 8, 8, 8) (10, 200, 0, 2) (int 443) (int 40000) 0 1 (FLAG_SYN + FLAG_ACK) []
      (buildSynAckOptions 77 \<lparr>so_mss = Some 1460, so_wscale = Some 7, so_sackPerm = True, so_tsval = Some 5\<rparr>)
      = Inr pkt \<and>
    parseTcpSynOptions pkt =
      \<lparr>so_mss = Some 1360, so_wscale = Some 7, so_sackPerm = True, so_tsval = Some 77\<rparr>"
  using synack_negotiation [of 443 40000 1 "(8, 8, 8, 8)" "(10, 200, 0, 2)" 0 1 77
      "\<lparr>so_mss = Some 1460, so_wscale = Some 7, so_sackPerm = True, so_tsval = Some 5\<rparr>"]
  by (simp add: synack_offer_def)

end
