(* ===== verification/Framing.thy ===== *)
theory Framing
  imports Mesh_Prelude
begin

text \<open>
  The two packet aggregators of the data path: \<open>src/network/batcher.js\<close> (\<open>PacketBatcher\<close>,
  \<open>unbatch\<close>) and \<open>src/transport/send-buffer.js\<close> (\<open>TransportSendBuffer\<close>, \<open>unframe\<close>).
  The send callback is an output log, timers are events that may happen at any later moment,
  and the readiness callback of the transport is an arbitrary function of the number of times
  it has been asked. Both are proved to be order-preserving and loss-free channels through one
  locale, \<open>aggregator\<close>.
\<close>

section \<open>PacketBatcher\<close>

definition MAX_BATCH_SIZE :: nat where "MAX_BATCH_SIZE = 16384"

record batch =
  b_packets :: "buffer list"
  b_size :: nat
  b_timer :: bool

record batcher =
  batches :: "(jsstring, batch) jsmap"
  b_sent :: "(jsstring \<times> buffer) list"

definition new_batch :: batch where
  "new_batch = \<lparr>b_packets = [], b_size = 0, b_timer = False\<rparr>"

definition new_PacketBatcher :: batcher where
  "new_PacketBatcher = \<lparr>batches = [], b_sent = []\<rparr>"

fun batch_body :: "buffer list \<Rightarrow> buffer \<Rightarrow> nat \<Rightarrow> buffer res" where
  "batch_body [] buf offset = Inr buf"
| "batch_body (pkt # pkts) buf offset =
     ebind (writeUInt32BE buf (int (length pkt)) offset) (\<lambda>buf.
     batch_body pkts (buf_copy pkt buf (offset + 4)) (offset + 4 + length pkt))"

definition createBatch :: "buffer list \<Rightarrow> buffer res" where
  "createBatch packets =
     (let totalSize = fold (\<lambda>pkt n. n + (4 + length pkt)) packets 4;
          buf = Buffer_alloc totalSize in
      ebind (writeUInt8 buf 255 0) (\<lambda>buf.
      ebind (writeUInt8 buf 255 1) (\<lambda>buf.
      ebind (writeUInt16BE buf (int (length packets)) 2) (\<lambda>buf.
      batch_body packets buf 4))))"

text \<open>\<open>_flush(peerId, batch)\<close>: the batch object after the call and what was sent.\<close>

definition flush_batch :: "jsstring \<Rightarrow> batch \<Rightarrow> (batch \<times> (jsstring \<times> buffer) list) res" where
  "flush_batch peerId batch =
     (if b_packets batch = [] then Inr (batch\<lparr>b_timer := False\<rparr>, [])
      else ebind (if length (b_packets batch) = 1 then Inr (hd (b_packets batch))
                  else createBatch (b_packets batch)) (\<lambda>buf.
           Inr (\<lparr>b_packets = [], b_size = 0, b_timer = False\<rparr>, [(peerId, buf)])))"

definition batcher_add :: "jsstring \<Rightarrow> buffer \<Rightarrow> batcher \<Rightarrow> batcher res" where
  "batcher_add peerId packet st =
     (let batch = (case map_get (batches st) peerId of Some b \<Rightarrow> b | None \<Rightarrow> new_batch);
          packetSize = 4 + length packet in
      ebind (if b_size batch > 0 \<and> b_size batch + packetSize > MAX_BATCH_SIZE
             then ebind (flush_batch peerId batch) (\<lambda>(_, out). Inr (new_batch, out))
             else Inr (batch, [])) (\<lambda>(batch, out1).
      let batch = \<lparr>b_packets = b_packets batch @ [packet],
                   b_size = b_size batch + packetSize, b_timer = True\<rparr> in
      ebind (if b_size batch \<ge> MAX_BATCH_SIZE then flush_batch peerId batch
             else Inr (batch, [])) (\<lambda>(batch, out2).
      Inr \<lparr>batches = map_put peerId batch (batches st), b_sent = b_sent st @ out1 @ out2\<rparr>)))"

text \<open>The callback of the timer that \<open>add\<close> starts.\<close>

definition batcher_timer :: "jsstring \<Rightarrow> batcher \<Rightarrow> batcher res" where
  "batcher_timer peerId st =
     (case map_get (batches st) peerId of
        None \<Rightarrow> Inr st
      | Some batch \<Rightarrow>
          if \<not> b_timer batch then Inr st
          else ebind (flush_batch peerId batch) (\<lambda>(batch, out).
               Inr \<lparr>batches = map_put peerId batch (batches st), b_sent = b_sent st @ out\<rparr>))"

fun flush_each :: "(jsstring, batch) jsmap \<Rightarrow> ((jsstring \<times> buffer) list) res" where
  "flush_each [] = Inr []"
| "flush_each ((peerId, batch) # bs) =
     ebind (flush_batch peerId batch) (\<lambda>(_, out). ebind (flush_each bs) (\<lambda>outs. Inr (out @ outs)))"

definition flushAll :: "batcher \<Rightarrow> batcher res" where
  "flushAll st = ebind (flush_each (batches st)) (\<lambda>out.
     Inr \<lparr>batches = [], b_sent = b_sent st @ out\<rparr>)"

definition batcher_stop :: "batcher \<Rightarrow> batcher" where
  "batcher_stop st = st\<lparr>batches := []\<rparr>"

fun unbatch_from :: "buffer \<Rightarrow> nat \<Rightarrow> nat \<Rightarrow> buffer list" where
  "unbatch_from data 0 offset = []"
| "unbatch_from data (Suc n) offset =
     (if offset < length data then
        if offset + 4 > length data then []
        else let pktLen = u32_at data offset; offset = offset + 4 in
          if offset + pktLen > length data then []
          else subarray offset (offset + pktLen) data # unbatch_from data n (offset + pktLen)
      else [])"

definition unbatch :: "buffer \<Rightarrow> buffer list" where
  "unbatch data =
     (if length data \<ge> 4 \<and> data ! 0 = 255 \<and> data ! 1 = 255
      then unbatch_from data (u16_at data 2) 4 else [data])"

section \<open>TransportSendBuffer\<close>

definition FRAME_MARKER :: int where "FRAME_MARKER = 254"
definition MAX_FRAME_SIZE :: nat where "MAX_FRAME_SIZE = 15000"
definition HEADER_SIZE :: nat where "HEADER_SIZE = 3"
definition DEFAULT_MAX_QUEUE :: nat where "DEFAULT_MAX_QUEUE = 500"

text \<open>
  \<open>sb_ready n\<close> is what the \<open>n\<close>-th call of \<open>isReady\<close> returns and \<open>sb_mem\<close> the content of a
  buffer that \<open>Buffer.allocUnsafe\<close> returns.
\<close>

record sendbuf =
  maxFrameSize :: nat
  maxQueuePackets :: nat
  sb_ready :: "nat \<Rightarrow> bool"
  sb_mem :: "nat \<Rightarrow> byte"
  sb_packets :: "buffer list"
  currentSize :: nat
  sb_timer :: bool
  sb_polls :: nat
  sb_sent :: "buffer list"

definition new_TransportSendBuffer ::
    "nat option \<Rightarrow> nat option \<Rightarrow> (nat \<Rightarrow> bool) \<Rightarrow> (nat \<Rightarrow> byte) \<Rightarrow> sendbuf" where
  "new_TransportSendBuffer maxFrame maxQueue ready mem =
     \<lparr>maxFrameSize = (case maxFrame of Some n \<Rightarrow> if n = 0 then MAX_FRAME_SIZE else n | None \<Rightarrow> MAX_FRAME_SIZE),
      maxQueuePackets = (case maxQueue of Some n \<Rightarrow> if n = 0 then DEFAULT_MAX_QUEUE else n
                         | None \<Rightarrow> DEFAULT_MAX_QUEUE),
      sb_ready = ready, sb_mem = mem, sb_packets = [], currentSize = HEADER_SIZE,
      sb_timer = False, sb_polls = 0, sb_sent = []\<rparr>"

fun frame_body :: "buffer list \<Rightarrow> buffer \<Rightarrow> nat \<Rightarrow> buffer res" where
  "frame_body [] buf offset = Inr buf"
| "frame_body (pkt # pkts) buf offset =
     ebind (writeUInt16BE buf (int (length pkt)) offset) (\<lambda>buf.
     frame_body pkts (buf_copy pkt buf (offset + 2)) (offset + 2 + length pkt))"

text \<open>\<open>_sendFrame\<close>: the buffer handed to the send callback.\<close>

definition sendFrame :: "(nat \<Rightarrow> byte) \<Rightarrow> buffer list \<Rightarrow> buffer res" where
  "sendFrame mem packets =
     (if length packets = 1 then Inr (hd packets)
      else let size = fold (\<lambda>p n. n + (2 + length p)) packets HEADER_SIZE;
               buf = map mem [0..<size];
               buf = buf_set buf 0 FRAME_MARKER in
           ebind (writeUInt16BE buf (int (length packets)) 1) (\<lambda>buf.
           frame_body packets buf 3))"

text \<open>How many packets the next chunk of the drain loop takes.\<close>

fun chunk_count :: "nat \<Rightarrow> nat \<Rightarrow> nat \<Rightarrow> buffer list \<Rightarrow> nat" where
  "chunk_count maxSize batchSize count [] = count"
| "chunk_count maxSize batchSize count (p # ps) =
     (let es = 2 + length p in
      if batchSize + es > maxSize \<and> count > 0 then count
      else chunk_count maxSize (batchSize + es) (count + 1) ps)"

lemma chunk_count_ge: "count \<le> chunk_count m b count ps"
proof (induction ps arbitrary: b count)
  case (Cons p ps)
  show ?case using Cons.IH [of "count + 1" "b + (2 + length p)"] by (simp add: Let_def)
qed simp

lemma chunk_count_pos: "ps \<noteq> [] \<Longrightarrow> 0 < chunk_count m b 0 ps"
  using chunk_count_ge [of 1] by (cases ps) (simp_all add: Let_def Suc_le_eq)

function drain :: "sendbuf \<Rightarrow> sendbuf res" where
  "drain sb =
     (if sb_packets sb = [] then Inr sb
      else if \<not> sb_ready sb (sb_polls sb) then Inr (sb\<lparr>sb_polls := sb_polls sb + 1\<rparr>)
      else let count = chunk_count (maxFrameSize sb) HEADER_SIZE 0 (sb_packets sb) in
        ebind (sendFrame (sb_mem sb) (take count (sb_packets sb))) (\<lambda>buf.
        drain (sb\<lparr>sb_packets := drop count (sb_packets sb), sb_polls := sb_polls sb + 1,
                  sb_sent := sb_sent sb @ [buf]\<rparr>)))"
  by pat_completeness auto
termination by (relation "measure (\<lambda>sb. length (sb_packets sb))") (auto simp: chunk_count_pos)

declare drain.simps [simp del]

definition scheduleRetry :: "sendbuf \<Rightarrow> sendbuf" where
  "scheduleRetry sb = sb\<lparr>sb_timer := True\<rparr>"

definition sb_flush :: "sendbuf \<Rightarrow> sendbuf res" where
  "sb_flush sb =
     (let sb = sb\<lparr>sb_timer := False\<rparr> in
      if sb_packets sb = [] then Inr sb
      else let ready = sb_ready sb (sb_polls sb); sb = sb\<lparr>sb_polls := sb_polls sb + 1\<rparr> in
      if \<not> ready then Inr (scheduleRetry sb)
      else if currentSize sb \<le> maxFrameSize sb then
        ebind (sendFrame (sb_mem sb) (sb_packets sb)) (\<lambda>buf.
        Inr (sb\<lparr>sb_packets := [], currentSize := HEADER_SIZE, sb_sent := sb_sent sb @ [buf]\<rparr>))
      else ebind (drain sb) (\<lambda>sb.
        let sb = sb\<lparr>currentSize := fold (\<lambda>p n. n + (2 + length p)) (sb_packets sb) HEADER_SIZE\<rparr> in
        Inr (if sb_packets sb \<noteq> [] then scheduleRetry sb else sb)))"

definition push :: "buffer \<Rightarrow> sendbuf \<Rightarrow> (sendbuf \<times> bool) res" where
  "push data sb =
     (if length (sb_packets sb) \<ge> maxQueuePackets sb then Inr (sb, False)
      else let entrySize = 2 + length data in
      ebind (if currentSize sb + entrySize > maxFrameSize sb \<and> sb_packets sb \<noteq> []
             then sb_flush sb else Inr sb) (\<lambda>sb.
      let sb = sb\<lparr>sb_packets := sb_packets sb @ [data], currentSize := currentSize sb + entrySize\<rparr> in
      if currentSize sb \<ge> maxFrameSize sb then ebind (sb_flush sb) (\<lambda>sb. Inr (sb, True))
      else Inr (sb\<lparr>sb_timer := True\<rparr>, True)))"

definition resume :: "sendbuf \<Rightarrow> sendbuf res" where
  "resume sb = (if sb_packets sb \<noteq> [] then sb_flush sb else Inr sb)"

definition sb_timeout :: "sendbuf \<Rightarrow> sendbuf res" where
  "sb_timeout sb = (if sb_timer sb then sb_flush (sb\<lparr>sb_timer := False\<rparr>) else Inr sb)"

definition sb_stop :: "sendbuf \<Rightarrow> sendbuf" where
  "sb_stop sb = sb\<lparr>sb_timer := False, sb_packets := [], currentSize := HEADER_SIZE\<rparr>"

fun unframe_from :: "buffer \<Rightarrow> nat \<Rightarrow> nat \<Rightarrow> buffer list option" where
  "unframe_from data 0 offset = Some []"
| "unframe_from data (Suc n) offset =
     (if offset + 2 > length data then None
      else let len = u16_at data offset; offset = offset + 2 in
        if offset + len > length data then None
        else map_option ((#) (subarray offset (offset + len) data))
               (unframe_from data n (offset + len)))"

definition unframe :: "buffer \<Rightarrow> buffer list option" where
  "unframe data =
     (if length data \<ge> HEADER_SIZE \<and> uint (data ! 0) = FRAME_MARKER
      then unframe_from data (u16_at data 1) HEADER_SIZE else Some [data])"

section \<open>Layout lemmas\<close>

lemma write_bytes_append:
  "off = length pre \<Longrightarrow> length bs \<le> length rest \<Longrightarrow>
   write_bytes bs off (pre @ rest) = Inr ((pre @ bs) @ drop (length bs) rest)"
  by (simp add: write_bytes_def put_at_append)

lemma fold_size: "fold (\<lambda>p n. n + (k + length p)) ps m = m + (\<Sum>p\<leftarrow>ps. k + length p)"
  by (induction ps arbitrary: m) simp_all

lemma batch_body_packed:
  "\<forall>p \<in> set ps. length p < 4294967296 \<Longrightarrow> length rest = length (p32.packed ps) \<Longrightarrow> off = length pre \<Longrightarrow>
   batch_body ps (pre @ rest) off = Inr (pre @ p32.packed ps)"
proof (induction ps arbitrary: pre rest off)
  case Nil
  then show ?case by (simp add: p32.packed_simps)
next
  case (Cons p ps)
  define rest' where "rest' = drop (4 + length p) rest"
  have len: "length rest = 4 + length p + length (p32.packed ps)" "length p < 4294967296"
    using Cons.prems by (simp_all add: p32.packed_simps)
  then have "batch_body (p # ps) (pre @ rest) off =
      batch_body ps ((pre @ u32_bytes (length p) @ p) @ rest') (off + 4 + length p)"
    using Cons.prems by (simp add: write_int write_bytes_append buf_copy_def
        put_at_append [of _ "pre @ u32_bytes (length p)", simplified] rest'_def add.commute)
  also have "\<dots> = Inr ((pre @ u32_bytes (length p) @ p) @ p32.packed ps)"
    using Cons.prems len by (intro Cons.IH) (simp_all add: rest'_def)
  finally show ?case by (simp add: p32.packed_simps)
qed

lemma createBatch_layout:
  assumes "length ps < 65536" "\<forall>p \<in> set ps. length p < 4294967296"
  shows "createBatch ps = Inr ([255, 255] @ u16_bytes (length ps) @ p32.packed ps)"
proof -
  define n where "n = length (p32.packed ps)"
  have size: "fold (\<lambda>pkt n. n + (4 + length pkt)) ps 4 = 4 + n"
    by (simp only: fold_size p32.length_packed n_def)
  have w: "writeUInt8 buf 255 off = write_bytes [255] off buf" for buf off
    by (simp add: writeUInt8_def u8_bytes_def)
  have alloc: "write_bytes [255] 0 (Buffer_alloc (4 + n)) = Inr ([255] @ Buffer_alloc (3 + n))"
      "write_bytes [255] (Suc 0) ([255] @ Buffer_alloc (3 + n)) = Inr ([255, 255] @ Buffer_alloc (2 + n))"
      "write_bytes (u16_bytes (length ps)) 2 ([255, 255] @ Buffer_alloc (2 + n)) =
         Inr (([255, 255] @ u16_bytes (length ps)) @ Buffer_alloc n)"
    using write_bytes_alloc [of 0 "[]" "[255]" "4 + n"] write_bytes_alloc [of "Suc 0" "[255]" "[255]" "3 + n"]
      write_bytes_alloc [of 2 "[255, 255]" "u16_bytes (length ps)" "2 + n"]
    by (simp_all add: numeral_eq_Suc)
  show ?thesis
    unfolding createBatch_def Let_def size
    using batch_body_packed [OF assms(2), of "Buffer_alloc n" 4 "[255, 255] @ u16_bytes (length ps)"] assms(1)
    by (simp add: w alloc [unfolded numeral_2_eq_2 add_Suc add_0] write_int n_def [symmetric] numeral_2_eq_2 del: append.simps)
qed

lemma unbatch_from_packed:
  "\<forall>p \<in> set ps. length p < 4294967296 \<Longrightarrow>
   unbatch_from (pre @ p32.packed ps) (length ps) (length pre) = ps"
proof (induction ps arbitrary: pre)
  case (Cons p ps)
  have "unbatch_from ((pre @ u32_bytes (length p) @ p) @ p32.packed ps) (length ps)
      (length (pre @ u32_bytes (length p) @ p)) = ps"
    using Cons.prems by (intro Cons.IH) simp
  then have "unbatch_from (pre @ p32.packed (p # ps)) (length ps) (length pre + 4 + length p) = ps"
    by (simp add: p32.packed_simps add.assoc)
  moreover have "length pre + 4 + length p \<le> length (pre @ p32.packed (p # ps))"
    by (simp add: p32.packed_simps)
  ultimately show ?case
    using p32.packed_prefix_length [of p pre ps] p32.packed_payload [of pre p ps] Cons.prems
    by (auto simp: Let_def)
qed simp

definition plain_batch :: "buffer \<Rightarrow> bool" where
  "plain_batch p \<longleftrightarrow> length p < 4294967296 \<and> \<not> (length p \<ge> 4 \<and> p ! 0 = 255 \<and> p ! 1 = 255)"

lemma unbatch_plain: "plain_batch p \<Longrightarrow> unbatch p = [p]"
  by (auto simp: unbatch_def plain_batch_def)

lemma unbatch_createBatch:
  assumes "length ps < 65536" "\<forall>p \<in> set ps. length p < 4294967296"
  shows "unbatch ([255, 255] @ u16_bytes (length ps) @ p32.packed ps) = ps"
  using unbatch_from_packed [OF assms(2), of "[255, 255] @ u16_bytes (length ps)"] assms(1)
    u16_at_append [of 2 "[255, 255]" "length ps" "p32.packed ps"]
  by (simp add: unbatch_def)

lemma frame_body_packed:
  "\<forall>p \<in> set ps. length p < 65536 \<Longrightarrow> length rest = length (p16.packed ps) \<Longrightarrow> off = length pre \<Longrightarrow>
   frame_body ps (pre @ rest) off = Inr (pre @ p16.packed ps)"
proof (induction ps arbitrary: pre rest off)
  case Nil
  then show ?case by (simp add: p16.packed_simps)
next
  case (Cons p ps)
  define rest' where "rest' = drop (2 + length p) rest"
  have len: "length rest = 2 + length p + length (p16.packed ps)" "length p < 65536"
    using Cons.prems by (simp_all add: p16.packed_simps)
  then have "frame_body (p # ps) (pre @ rest) off =
      frame_body ps ((pre @ u16_bytes (length p) @ p) @ rest') (off + 2 + length p)"
    using Cons.prems by (simp add: write_int write_bytes_append buf_copy_def
        put_at_append [of _ "pre @ u16_bytes (length p)", simplified] rest'_def add.commute)
  also have "\<dots> = Inr ((pre @ u16_bytes (length p) @ p) @ p16.packed ps)"
    using Cons.prems len by (intro Cons.IH) (simp_all add: rest'_def)
  finally show ?case by (simp add: p16.packed_simps)
qed

definition frame :: "buffer list \<Rightarrow> buffer" where
  "frame ps = [254] @ u16_bytes (length ps) @ p16.packed ps"

lemma length_frame: "length (frame ps) = 3 + (\<Sum>p\<leftarrow>ps. 2 + length p)"
  by (simp add: frame_def p16.length_packed)

lemma sendFrame_layout:
  assumes "length ps < 65536" "\<forall>p \<in> set ps. length p < 65536" "length ps \<noteq> 1"
  shows "sendFrame mem ps = Inr (frame ps)"
proof -
  define n where "n = length (p16.packed ps)"
  have size: "fold (\<lambda>p n. n + (2 + length p)) ps HEADER_SIZE = Suc (2 + n)"
    by (simp only: fold_size p16.length_packed n_def) (simp add: HEADER_SIZE_def)
  define junk where "junk = map mem [Suc 0..<Suc (2 + n)]"
  have "buf_set (map mem [0..<Suc (2 + n)]) 0 FRAME_MARKER = [254] @ junk"
    by (simp add: buf_set_def upt_conv_Cons junk_def FRAME_MARKER_def del: upt_Suc)
  moreover have "write_bytes (u16_bytes (length ps)) 1 ([254] @ junk) =
      Inr (([254] @ u16_bytes (length ps)) @ drop 2 junk)"
    using write_bytes_append [of 1 "[254]" "u16_bytes (length ps)" junk] by (simp add: junk_def)
  ultimately show ?thesis
    using frame_body_packed [OF assms(2), of "drop 2 junk" 3 "[254] @ u16_bytes (length ps)"] assms
    unfolding sendFrame_def Let_def size
    by (simp add: write_int frame_def junk_def n_def del: upt_Suc append.simps)
qed

lemma unframe_from_packed:
  "\<forall>p \<in> set ps. length p < 65536 \<Longrightarrow>
   unframe_from (pre @ p16.packed ps) (length ps) (length pre) = Some ps"
proof (induction ps arbitrary: pre)
  case (Cons p ps)
  have "unframe_from ((pre @ u16_bytes (length p) @ p) @ p16.packed ps) (length ps)
      (length (pre @ u16_bytes (length p) @ p)) = Some ps"
    using Cons.prems by (intro Cons.IH) simp
  then have "unframe_from (pre @ p16.packed (p # ps)) (length ps) (length pre + 2 + length p) = Some ps"
    by (simp add: p16.packed_simps add.assoc)
  moreover have "length pre + 2 + length p \<le> length (pre @ p16.packed (p # ps))"
    by (simp add: p16.packed_simps)
  ultimately show ?case
    using p16.packed_prefix_length [of p pre ps] p16.packed_payload [of pre p ps] Cons.prems
    by (simp add: Let_def)
qed simp

lemma unframe_frame:
  assumes "length ps < 65536" "\<forall>p \<in> set ps. length p < 65536"
  shows "unframe (frame ps) = Some ps"
  using unframe_from_packed [OF assms(2), of "[254] @ u16_bytes (length ps)"] assms(1)
    u16_at_append [of 1 "[254]" "length ps" "p16.packed ps"]
  by (simp add: unframe_def frame_def HEADER_SIZE_def FRAME_MARKER_def)

section \<open>Aggregators as channels\<close>

text \<open>Running a list of events, with the packets the aggregator accepted on the way.\<close>

fun exec :: "('e \<Rightarrow> 's \<Rightarrow> 's res) \<Rightarrow> ('e \<Rightarrow> 's \<Rightarrow> buffer list) \<Rightarrow> 'e list \<Rightarrow> 's \<Rightarrow> ('s \<times> buffer list) res" where
  "exec step acc [] s = Inr (s, [])"
| "exec step acc (e # es) s =
     ebind (step e s) (\<lambda>s'. ebind (exec step acc es s') (\<lambda>(t, ps). Inr (t, acc e s @ ps)))"

locale aggregator =
  fixes step :: "'e \<Rightarrow> 's \<Rightarrow> 's res"
    and acc :: "'e \<Rightarrow> 's \<Rightarrow> buffer list"
    and unpack :: "buffer \<Rightarrow> buffer list"
    and out :: "'s \<Rightarrow> buffer list"
    and pend :: "'s \<Rightarrow> buffer list"
    and inv :: "'s \<Rightarrow> bool"
    and admissible :: "'e \<Rightarrow> bool"
  assumes step_channel: "inv s \<Longrightarrow> admissible e \<Longrightarrow>
      \<exists>s'. step e s = Inr s' \<and> inv s' \<and>
        concat (map unpack (out s')) @ pend s' = concat (map unpack (out s)) @ pend s @ acc e s"
begin

lemma run_channel:
  "inv s \<Longrightarrow> \<forall>e \<in> set es. admissible e \<Longrightarrow>
   \<exists>s' ps. exec step acc es s = Inr (s', ps) \<and> inv s' \<and>
     concat (map unpack (out s')) @ pend s' = concat (map unpack (out s)) @ pend s @ ps"
proof (induction es arbitrary: s)
  case Nil
  then show ?case by simp
next
  case (Cons e es)
  obtain s1 where s1: "step e s = Inr s1" "inv s1"
      "concat (map unpack (out s1)) @ pend s1 = concat (map unpack (out s)) @ pend s @ acc e s"
    using step_channel [of s e] Cons.prems by auto
  obtain s2 ps where "exec step acc es s1 = Inr (s2, ps)" "inv s2"
      "concat (map unpack (out s2)) @ pend s2 = concat (map unpack (out s1)) @ pend s1 @ ps"
    using Cons.IH [OF s1(2)] Cons.prems by auto
  then show ?case
    using s1 by (metis append.assoc ebind_simps(2) exec.simps(2) case_prod_conv)
qed

end

subsection \<open>The batcher\<close>

datatype batch_event = BAdd jsstring buffer | BTimer jsstring | BFlushAll

fun batch_step :: "batch_event \<Rightarrow> batcher \<Rightarrow> batcher res" where
  "batch_step (BAdd p pkt) st = batcher_add p pkt st"
| "batch_step (BTimer p) st = batcher_timer p st"
| "batch_step BFlushAll st = flushAll st"

fun batch_acc :: "jsstring \<Rightarrow> batch_event \<Rightarrow> batcher \<Rightarrow> buffer list" where
  "batch_acc p (BAdd q pkt) st = (if q = p then [pkt] else [])"
| "batch_acc p _ st = []"

definition sent_to :: "jsstring \<Rightarrow> (jsstring \<times> buffer) list \<Rightarrow> buffer list" where
  "sent_to p msgs = map snd (filter (\<lambda>m. fst m = p) msgs)"

definition batch_pend :: "jsstring \<Rightarrow> batcher \<Rightarrow> buffer list" where
  "batch_pend p st = (case map_get (batches st) p of Some b \<Rightarrow> b_packets b | None \<Rightarrow> [])"

fun batch_event_ok :: "batch_event \<Rightarrow> bool" where
  "batch_event_ok (BAdd _ pkt) = plain_batch pkt"
| "batch_event_ok _ = True"

text \<open>A batch is below the limit, its size is the sum of its entries, and packets wait only while a timer runs.\<close>

definition wf_batch :: "batch \<Rightarrow> bool" where
  "wf_batch b \<longleftrightarrow> b_size b < MAX_BATCH_SIZE \<and> b_size b = (\<Sum>p\<leftarrow>b_packets b. 4 + length p)
     \<and> (\<forall>p \<in> set (b_packets b). plain_batch p) \<and> (b_packets b \<noteq> [] \<longrightarrow> b_timer b)"

definition wf_batcher :: "batcher \<Rightarrow> bool" where
  "wf_batcher st \<longleftrightarrow> wf_map (batches st) \<and> (\<forall>p b. map_get (batches st) p = Some b \<longrightarrow> wf_batch b)"

lemma sent_to_simps [simp]: "sent_to p [] = []" "sent_to p (xs @ ys) = sent_to p xs @ sent_to p ys"
    "sent_to p [(q, m)] = (if q = p then [m] else [])"
  by (simp_all add: sent_to_def)

lemma count_le_size: "4 * length ps \<le> (\<Sum>p\<leftarrow>ps. 4 + length p)"
  by (induction ps) simp_all

lemma wf_new_batch [simp]: "wf_batch new_batch"
  by (simp add: wf_batch_def new_batch_def MAX_BATCH_SIZE_def)

lemma new_batch_empty [simp]: "b_packets new_batch = []"
  by (simp add: new_batch_def)

lemma flush_batch_spec:
  assumes "\<forall>p \<in> set (b_packets b). plain_batch p" "length (b_packets b) < 65536"
    and "b_packets b = [] \<Longrightarrow> b_size b = 0"
  shows "\<exists>out. flush_batch q b = Inr (new_batch, out) \<and>
    concat (map unbatch (sent_to q out)) = b_packets b \<and> (\<forall>p. p \<noteq> q \<longrightarrow> sent_to p out = [])"
proof -
  have "\<forall>p \<in> set (b_packets b). length p < 4294967296"
    using assms(1) by (simp add: plain_batch_def)
  note layout = createBatch_layout [OF assms(2) this] unbatch_createBatch [OF assms(2) this]
  consider "b_packets b = []" | p where "b_packets b = [p]" | "1 < length (b_packets b)"
    by (cases "b_packets b"; cases "tl (b_packets b)") auto
  then show ?thesis
  proof cases
    case 1
    then show ?thesis using assms(3) by (cases b) (simp add: flush_batch_def new_batch_def)
  next
    case 2
    then show ?thesis using assms(1) by (simp add: flush_batch_def new_batch_def unbatch_plain)
  next
    case 3
    then have "b_packets b \<noteq> []" "length (b_packets b) \<noteq> Suc 0" by auto
    then show ?thesis using layout by (simp add: flush_batch_def new_batch_def)
  qed
qed

lemma wf_batch_flush:
  assumes "wf_batch b"
  shows "\<exists>out. flush_batch q b = Inr (new_batch, out) \<and>
    concat (map unbatch (sent_to q out)) = b_packets b \<and> (\<forall>p. p \<noteq> q \<longrightarrow> sent_to p out = [])"
  using assms count_le_size [of "b_packets b"]
  by (intro flush_batch_spec) (auto simp: wf_batch_def MAX_BATCH_SIZE_def)

lemma wf_batcher_put: "wf_batcher st \<Longrightarrow> wf_batch b \<Longrightarrow> wf_batcher \<lparr>batches = map_put p b (batches st), b_sent = m\<rparr>"
  by (simp add: wf_batcher_def)

lemma batcher_add_channel:
  assumes "wf_batcher st" "plain_batch pkt"
  shows "\<exists>st'. batcher_add q pkt st = Inr st' \<and> wf_batcher st' \<and>
    concat (map unbatch (sent_to p (b_sent st'))) @ batch_pend p st' =
    concat (map unbatch (sent_to p (b_sent st))) @ batch_pend p st @ (if q = p then [pkt] else [])"
proof -
  define b where "b = (case map_get (batches st) q of Some b \<Rightarrow> b | None \<Rightarrow> new_batch)"
  have wfb: "wf_batch b" and pend: "b_packets b = batch_pend q st"
    using assms(1) by (auto simp: b_def wf_batcher_def batch_pend_def split: option.splits)
  define pre where "pre = (if b_size b > 0 \<and> b_size b + (4 + length pkt) > MAX_BATCH_SIZE
      then ebind (flush_batch q b) (\<lambda>(_, out). Inr (new_batch, out)) else Inr (b, []))"
  obtain b1 out1 where 1: "pre = Inr (b1, out1)" "wf_batch b1"
      "concat (map unbatch (sent_to q out1)) @ b_packets b1 = b_packets b" "\<forall>p. p \<noteq> q \<longrightarrow> sent_to p out1 = []"
    using wf_batch_flush [OF wfb, of q] wfb that
    by (cases "b_size b > 0 \<and> b_size b + (4 + length pkt) > MAX_BATCH_SIZE") (auto simp: pre_def)
  define b2 where "b2 = \<lparr>b_packets = b_packets b1 @ [pkt], b_size = b_size b1 + (4 + length pkt), b_timer = True\<rparr>"
  define post where "post = (if b_size b2 \<ge> MAX_BATCH_SIZE then flush_batch q b2 else Inr (b2, []))"
  have "\<exists>out. flush_batch q b2 = Inr (new_batch, out) \<and>
      concat (map unbatch (sent_to q out)) = b_packets b2 \<and> (\<forall>p. p \<noteq> q \<longrightarrow> sent_to p out = [])"
    using 1(2) assms(2) count_le_size [of "b_packets b1"]
    by (intro flush_batch_spec) (auto simp: b2_def wf_batch_def MAX_BATCH_SIZE_def)
  moreover have "b_size b2 < MAX_BATCH_SIZE \<Longrightarrow> wf_batch b2"
    using 1(2) assms(2) by (simp add: wf_batch_def b2_def)
  ultimately obtain b3 out2 where 2: "post = Inr (b3, out2)" "wf_batch b3"
      "concat (map unbatch (sent_to q out2)) @ b_packets b3 = b_packets b2" "\<forall>p. p \<noteq> q \<longrightarrow> sent_to p out2 = []"
    using that by (cases "b_size b2 \<ge> MAX_BATCH_SIZE") (auto simp: post_def)
  have "batcher_add q pkt st = ebind pre (\<lambda>(batch, out1).
      let batch = \<lparr>b_packets = b_packets batch @ [pkt],
                   b_size = b_size batch + (4 + length pkt), b_timer = True\<rparr> in
      ebind (if b_size batch \<ge> MAX_BATCH_SIZE then flush_batch q batch else Inr (batch, [])) (\<lambda>(batch, out2).
      Inr \<lparr>batches = map_put q batch (batches st), b_sent = b_sent st @ out1 @ out2\<rparr>))"
    unfolding batcher_add_def Let_def pre_def b_def ..
  also have "\<dots> = Inr \<lparr>batches = map_put q b3 (batches st), b_sent = b_sent st @ out1 @ out2\<rparr>"
    using 2(1) unfolding 1(1) ebind_simps case_prod_conv Let_def b2_def [symmetric] post_def [symmetric] by simp
  finally show ?thesis
    using 1(3,4) 2(2-4) assms(1) pend wf_batcher_put [of st b3 q]
    by (cases "p = q") (auto simp: batch_pend_def b2_def)
qed

lemma batcher_timer_channel:
  assumes "wf_batcher st"
  shows "\<exists>st'. batcher_timer q st = Inr st' \<and> wf_batcher st' \<and>
    concat (map unbatch (sent_to p (b_sent st'))) @ batch_pend p st' =
    concat (map unbatch (sent_to p (b_sent st))) @ batch_pend p st"
proof (cases "map_get (batches st) q")
  case None
  then show ?thesis using assms by (simp add: batcher_timer_def)
next
  case (Some b)
  then have "wf_batch b" using assms by (simp add: wf_batcher_def)
  then obtain out where "flush_batch q b = Inr (new_batch, out)"
      "concat (map unbatch (sent_to q out)) = b_packets b" "\<forall>p. p \<noteq> q \<longrightarrow> sent_to p out = []"
    using wf_batch_flush by blast
  then show ?thesis
    using Some assms wf_batcher_put [of st new_batch q]
    by (cases "p = q") (auto simp: batcher_timer_def batch_pend_def)
qed

lemma flush_each_channel:
  "distinct (map fst bs) \<Longrightarrow> \<forall>(q, b) \<in> set bs. wf_batch b \<Longrightarrow>
   \<exists>out. flush_each bs = Inr out \<and> (\<forall>p. concat (map unbatch (sent_to p out)) =
     (case map_of bs p of Some b \<Rightarrow> b_packets b | None \<Rightarrow> []))"
proof (induction bs)
  case Nil
  then show ?case by simp
next
  case (Cons qb bs)
  obtain q b where qb: "qb = (q, b)" by (cases qb)
  obtain out where 1: "flush_batch q b = Inr (new_batch, out)"
      "concat (map unbatch (sent_to q out)) = b_packets b" "\<forall>p. p \<noteq> q \<longrightarrow> sent_to p out = []"
    using wf_batch_flush [of b q] Cons.prems qb by auto
  obtain outs where 2: "flush_each bs = Inr outs" "\<forall>p. concat (map unbatch (sent_to p outs)) =
      (case map_of bs p of Some b \<Rightarrow> b_packets b | None \<Rightarrow> [])"
    using Cons by auto
  moreover have "map_of bs q = None"
    using Cons.prems qb by (simp add: map_of_eq_None_iff)
  ultimately show ?case
    using 1 by (auto simp: qb)
qed

lemma flushAll_channel:
  assumes "wf_batcher st"
  shows "\<exists>st'. flushAll st = Inr st' \<and> wf_batcher st' \<and> (\<forall>q. batch_pend q st' = []) \<and>
    concat (map unbatch (sent_to p (b_sent st'))) =
    concat (map unbatch (sent_to p (b_sent st))) @ batch_pend p st"
proof -
  have "\<forall>(q, b) \<in> set (batches st). wf_batch b"
    using assms wf_map_get_iff by (fastforce simp: wf_batcher_def)
  then obtain out where "flush_each (batches st) = Inr out"
      "\<forall>p. concat (map unbatch (sent_to p out)) = batch_pend p st"
    using flush_each_channel [of "batches st"] assms
    by (auto simp: wf_batcher_def wf_map_def batch_pend_def)
  then show ?thesis
    by (simp add: flushAll_def wf_batcher_def batch_pend_def)
qed

interpretation batcher_channel: aggregator batch_step "batch_acc p" unbatch "\<lambda>st. sent_to p (b_sent st)"
  "batch_pend p" wf_batcher batch_event_ok for p
proof unfold_locales
  fix st e
  assume "wf_batcher st" "batch_event_ok e"
  then show "\<exists>s'. batch_step e st = Inr s' \<and> wf_batcher s' \<and>
      concat (map unbatch (sent_to p (b_sent s'))) @ batch_pend p s' =
      concat (map unbatch (sent_to p (b_sent st))) @ batch_pend p st @ batch_acc p e st"
    using batcher_add_channel [of st _ _ p] batcher_timer_channel [of st _ p] flushAll_channel [of st p]
    by (cases e) auto
qed

subsection \<open>The transport send buffer\<close>

datatype sb_event = SPush buffer | STimer | SResume | SFlush

fun sb_step :: "sb_event \<Rightarrow> sendbuf \<Rightarrow> sendbuf res" where
  "sb_step (SPush data) sb = ebind (push data sb) (\<lambda>(sb, _). Inr sb)"
| "sb_step STimer sb = sb_timeout sb"
| "sb_step SResume sb = resume sb"
| "sb_step SFlush sb = sb_flush sb"

text \<open>A packet is accepted when \<open>push\<close> does not return \<open>false\<close>: the queue is not full.\<close>

fun sb_acc :: "sb_event \<Rightarrow> sendbuf \<Rightarrow> buffer list" where
  "sb_acc (SPush data) sb = (if length (sb_packets sb) < maxQueuePackets sb then [data] else [])"
| "sb_acc _ sb = []"

definition plain_frame :: "buffer \<Rightarrow> bool" where
  "plain_frame p \<longleftrightarrow> \<not> (length p \<ge> 3 \<and> p ! 0 = 254)"

fun sb_event_ok :: "sb_event \<Rightarrow> bool" where
  "sb_event_ok (SPush data) = plain_frame data"
| "sb_event_ok _ = True"

definition unframed :: "buffer \<Rightarrow> buffer list" where
  "unframed data = (case unframe data of Some ps \<Rightarrow> ps | None \<Rightarrow> [])"

definition frame_size :: "buffer list \<Rightarrow> nat" where
  "frame_size ps = HEADER_SIZE + (\<Sum>p\<leftarrow>ps. 2 + length p)"

definition wf_sendbuf :: "sendbuf \<Rightarrow> bool" where
  "wf_sendbuf sb \<longleftrightarrow> maxFrameSize sb \<le> 65535 \<and> currentSize sb = frame_size (sb_packets sb)
     \<and> (\<forall>p \<in> set (sb_packets sb). plain_frame p) \<and> length (sb_packets sb) \<le> maxQueuePackets sb
     \<and> (\<forall>m \<in> set (sb_sent sb). length m \<le> maxFrameSize sb \<or> plain_frame m)
     \<and> (sb_packets sb \<noteq> [] \<longrightarrow> sb_timer sb)"

lemma unframe_plain: "plain_frame p \<Longrightarrow> unframe p = Some [p]"
proof -
  have "uint (p ! 0) = 254 \<longleftrightarrow> p ! 0 = 254"
    using word_uint_eq_iff [of "p ! 0" 254] by simp
  then show "plain_frame p \<Longrightarrow> unframe p = Some [p]"
    by (auto simp: unframe_def plain_frame_def HEADER_SIZE_def FRAME_MARKER_def)
qed

lemma chunk_count_bound:
  "0 < count \<Longrightarrow> \<exists>k. chunk_count m b count ps = count + k \<and> k \<le> length ps \<and>
     (0 < k \<longrightarrow> b + (\<Sum>p\<leftarrow>take k ps. 2 + length p) \<le> m)"
proof (induction ps arbitrary: b count)
  case Nil
  then show ?case by simp
next
  case (Cons p ps)
  show ?case
  proof (cases "b + (2 + length p) > m")
    case True
    then show ?thesis using Cons.prems by (intro exI [of _ 0]) (simp add: Let_def)
  next
    case False
    obtain k where "chunk_count m (b + (2 + length p)) (count + 1) ps = count + 1 + k" "k \<le> length ps"
        "0 < k \<longrightarrow> b + (2 + length p) + (\<Sum>p\<leftarrow>take k ps. 2 + length p) \<le> m"
      using Cons.IH [of "count + 1" "b + (2 + length p)"] by auto
    then show ?thesis
      using False by (intro exI [of _ "Suc k"]) (auto simp: Let_def)
  qed
qed

lemma chunk_count_frame:
  assumes "ps \<noteq> []"
  shows "chunk_count m HEADER_SIZE 0 ps \<le> length ps \<and>
    (1 < chunk_count m HEADER_SIZE 0 ps \<longrightarrow> frame_size (take (chunk_count m HEADER_SIZE 0 ps) ps) \<le> m)"
proof -
  obtain p qs where ps: "ps = p # qs" using assms by (cases ps) auto
  obtain k where "chunk_count m (HEADER_SIZE + (2 + length p)) 1 qs = 1 + k" "k \<le> length qs"
      "0 < k \<longrightarrow> HEADER_SIZE + (2 + length p) + (\<Sum>p\<leftarrow>take k qs. 2 + length p) \<le> m"
    using chunk_count_bound [of 1 m "HEADER_SIZE + (2 + length p)" qs] by auto
  then show ?thesis by (simp add: ps Let_def frame_size_def add.assoc)
qed

lemma frame_size_parts:
  shows "p \<in> set ps \<Longrightarrow> length p + 5 \<le> frame_size ps" and "length ps \<le> frame_size ps"
  by (induction ps) (auto simp: frame_size_def HEADER_SIZE_def)

lemma sendFrame_ok:
  assumes "ps \<noteq> []" "\<forall>p \<in> set ps. plain_frame p" "1 < length ps \<Longrightarrow> frame_size ps \<le> m" "m \<le> 65535"
  shows "\<exists>buf. sendFrame mem ps = Inr buf \<and> unframed buf = ps \<and> (length buf \<le> m \<or> plain_frame buf)"
proof (cases "length ps = 1")
  case True
  then obtain p where "ps = [p]" by (auto simp: length_Suc_conv)
  then show ?thesis using assms(2) by (simp add: sendFrame_def unframed_def unframe_plain)
next
  case False
  then have m: "frame_size ps \<le> m" using assms(1,3) by (cases ps) auto
  then have small: "length ps < 65536" "\<forall>p \<in> set ps. length p < 65536"
    using frame_size_parts(1) [of _ ps] frame_size_parts(2) [of ps] assms(4) by fastforce+
  show ?thesis
    using sendFrame_layout [OF small False] unframe_frame [OF small] m
    by (simp add: unframed_def length_frame frame_size_def HEADER_SIZE_def)
qed

lemma drain_ok:
  "maxFrameSize sb \<le> 65535 \<Longrightarrow> \<forall>p \<in> set (sb_packets sb). plain_frame p \<Longrightarrow>
   \<exists>ps n out. drain sb = Inr (sb\<lparr>sb_packets := ps, sb_polls := n, sb_sent := sb_sent sb @ out\<rparr>) \<and>
     concat (map unframed out) @ ps = sb_packets sb \<and>
     (\<forall>m \<in> set out. length m \<le> maxFrameSize sb \<or> plain_frame m) \<and>
     ((\<forall>i \<ge> sb_polls sb. sb_ready sb i) \<longrightarrow> ps = [])"
proof (induction sb rule: drain.induct)
  case (1 sb)
  define c where "c = chunk_count (maxFrameSize sb) HEADER_SIZE 0 (sb_packets sb)"
  consider "sb_packets sb = []" | "sb_packets sb \<noteq> []" "\<not> sb_ready sb (sb_polls sb)"
    | "sb_packets sb \<noteq> []" "sb_ready sb (sb_polls sb)" by blast
  then show ?case
  proof cases
    case 1
    then show ?thesis
      by (intro exI [of _ "[]"] exI [of _ "sb_polls sb"] exI [of _ "[]"]) (simp add: drain.simps [of sb])
  next
    case 2
    then show ?thesis
      by (intro exI [of _ "sb_packets sb"] exI [of _ "sb_polls sb + 1"] exI [of _ "[]"])
        (auto simp: drain.simps [of sb])
  next
    case 3
    have plain: "\<forall>p \<in> set (take c (sb_packets sb)). plain_frame p" "\<forall>p \<in> set (drop c (sb_packets sb)). plain_frame p"
      using "1.prems"(2) by (auto dest: in_set_takeD in_set_dropD)
    have c: "0 < c" "1 < length (take c (sb_packets sb)) \<Longrightarrow> frame_size (take c (sb_packets sb)) \<le> maxFrameSize sb"
      using chunk_count_pos [OF 3(1)] chunk_count_frame [OF 3(1), of "maxFrameSize sb"] by (auto simp: c_def)
    obtain buf where buf: "sendFrame (sb_mem sb) (take c (sb_packets sb)) = Inr buf"
        "unframed buf = take c (sb_packets sb)" "length buf \<le> maxFrameSize sb \<or> plain_frame buf"
      using sendFrame_ok [OF _ plain(1) _ "1.prems"(1), of "sb_mem sb"] 3(1) c by auto
    define sb1 where "sb1 = sb\<lparr>sb_packets := drop c (sb_packets sb), sb_polls := sb_polls sb + 1,
        sb_sent := sb_sent sb @ [buf]\<rparr>"
    have d: "drain sb = drain sb1"
      using 3 buf(1) by (simp add: drain.simps [of sb] Let_def c_def sb1_def)
    obtain ps n out where r: "drain sb1 = Inr (sb1\<lparr>sb_packets := ps, sb_polls := n, sb_sent := sb_sent sb1 @ out\<rparr>)"
        "concat (map unframed out) @ ps = sb_packets sb1"
        "\<forall>m \<in> set out. length m \<le> maxFrameSize sb1 \<or> plain_frame m"
        "(\<forall>i \<ge> sb_polls sb1. sb_ready sb1 i) \<longrightarrow> ps = []"
      using "1.IH" [OF 3(1) _ c_def, of buf] 3(2) "1.prems"(1) plain(2) unfolding sb1_def by auto
    have "drain sb = Inr (sb\<lparr>sb_packets := ps, sb_polls := n, sb_sent := sb_sent sb @ (buf # out)\<rparr>)"
      unfolding d r(1) by (simp add: sb1_def)
    moreover have "concat (map unframed (buf # out)) @ ps = sb_packets sb"
      using r(2) buf(2) by (simp add: sb1_def)
    moreover have "(\<forall>i \<ge> sb_polls sb. sb_ready sb i) \<longrightarrow> ps = []" and
        "\<forall>m \<in> set (buf # out). length m \<le> maxFrameSize sb \<or> plain_frame m"
      using r(3,4) buf(3) by (simp_all add: sb1_def)
    ultimately show ?thesis by blast
  qed
qed

lemma sb_flush_ok:
  assumes "maxFrameSize sb \<le> 65535" "\<forall>p \<in> set (sb_packets sb). plain_frame p"
    and "currentSize sb = frame_size (sb_packets sb)"
  shows "\<exists>ps n out. sb_flush sb = Inr (sb\<lparr>sb_packets := ps, currentSize := frame_size ps, sb_timer := (ps \<noteq> []),
        sb_polls := n, sb_sent := sb_sent sb @ out\<rparr>) \<and>
      concat (map unframed out) @ ps = sb_packets sb \<and>
      (\<forall>m \<in> set out. length m \<le> maxFrameSize sb \<or> plain_frame m) \<and>
      ((\<forall>i \<ge> sb_polls sb. sb_ready sb i) \<longrightarrow> ps = [])"
proof -
  define sb1 where "sb1 = sb\<lparr>sb_timer := False, sb_polls := sb_polls sb + 1\<rparr>"
  consider "sb_packets sb = []" | "sb_packets sb \<noteq> []" "\<not> sb_ready sb (sb_polls sb)"
    | "sb_packets sb \<noteq> []" "sb_ready sb (sb_polls sb)" "currentSize sb \<le> maxFrameSize sb"
    | "sb_packets sb \<noteq> []" "sb_ready sb (sb_polls sb)" "\<not> currentSize sb \<le> maxFrameSize sb" by blast
  then show ?thesis
  proof cases
    case 1
    then have "sb_flush sb = Inr (sb\<lparr>sb_packets := [], currentSize := frame_size [], sb_timer := ([] \<noteq> ([] :: buffer list)),
        sb_polls := sb_polls sb, sb_sent := sb_sent sb @ []\<rparr>)"
      using assms(3) by (cases sb) (simp add: sb_flush_def Let_def)
    then show ?thesis using 1 by fastforce
  next
    case 2
    then have "sb_flush sb = Inr (sb\<lparr>sb_packets := sb_packets sb, currentSize := frame_size (sb_packets sb),
        sb_timer := (sb_packets sb \<noteq> []), sb_polls := sb_polls sb + 1, sb_sent := sb_sent sb @ []\<rparr>)"
      using assms(3) by (cases sb) (simp add: sb_flush_def Let_def scheduleRetry_def)
    then show ?thesis using 2 by fastforce
  next
    case 3
    obtain buf where buf: "sendFrame (sb_mem sb) (sb_packets sb) = Inr buf" "unframed buf = sb_packets sb"
        "length buf \<le> maxFrameSize sb \<or> plain_frame buf"
      using sendFrame_ok [OF 3(1) assms(2) _ assms(1)] 3(3) assms(3) by auto
    then have "sb_flush sb = Inr (sb\<lparr>sb_packets := [], currentSize := frame_size [], sb_timer := ([] \<noteq> ([] :: buffer list)),
        sb_polls := sb_polls sb + 1, sb_sent := sb_sent sb @ [buf]\<rparr>)"
      using 3 by (simp add: sb_flush_def Let_def frame_size_def)
    then show ?thesis using buf by fastforce
  next
    case 4
    obtain ps n out where d: "drain sb1 = Inr (sb1\<lparr>sb_packets := ps, sb_polls := n, sb_sent := sb_sent sb1 @ out\<rparr>)"
      "concat (map unframed out) @ ps = sb_packets sb1"
      "\<forall>m \<in> set out. length m \<le> maxFrameSize sb1 \<or> plain_frame m"
      "(\<forall>i \<ge> sb_polls sb1. sb_ready sb1 i) \<longrightarrow> ps = []"
      using drain_ok [of sb1] assms(1,2) by (auto simp: sb1_def)
    then have "sb_flush sb = Inr (sb\<lparr>sb_packets := ps, currentSize := frame_size ps, sb_timer := (ps \<noteq> []),
        sb_polls := n, sb_sent := sb_sent sb @ out\<rparr>)"
      using 4 unfolding sb_flush_def Let_def fold_size frame_size_def [symmetric]
      by (simp add: scheduleRetry_def sb1_def)
    moreover have "(\<forall>i \<ge> sb_polls sb. sb_ready sb i) \<longrightarrow> ps = []"
      using d(4) by (simp add: sb1_def)
    ultimately show ?thesis
      using d(2,3) by (simp add: sb1_def) blast
  qed
qed

lemma sb_flush_channel:
  assumes "wf_sendbuf sb"
  shows "\<exists>sb'. sb_flush sb = Inr sb' \<and> wf_sendbuf sb' \<and>
    concat (map unframed (sb_sent sb')) @ sb_packets sb' = concat (map unframed (sb_sent sb)) @ sb_packets sb"
proof -
  obtain ps n out where f: "sb_flush sb = Inr (sb\<lparr>sb_packets := ps, currentSize := frame_size ps, sb_timer := (ps \<noteq> []),
        sb_polls := n, sb_sent := sb_sent sb @ out\<rparr>)" "concat (map unframed out) @ ps = sb_packets sb"
      "\<forall>m \<in> set out. length m \<le> maxFrameSize sb \<or> plain_frame m"
    using sb_flush_ok [of sb] assms by (auto simp: wf_sendbuf_def)
  moreover have "set ps \<subseteq> set (sb_packets sb)" "length ps \<le> length (sb_packets sb)"
    unfolding f(2) [symmetric] by auto
  ultimately show ?thesis
    using assms by (auto simp: wf_sendbuf_def)
qed

lemma push_channel:
  assumes "wf_sendbuf sb" "plain_frame data"
  shows "\<exists>sb' ok. push data sb = Inr (sb', ok) \<and> wf_sendbuf sb' \<and>
    ok = (length (sb_packets sb) < maxQueuePackets sb) \<and>
    concat (map unframed (sb_sent sb')) @ sb_packets sb' =
    concat (map unframed (sb_sent sb)) @ sb_packets sb @ (if ok then [data] else [])"
proof (cases "length (sb_packets sb) < maxQueuePackets sb")
  case False
  then show ?thesis using assms by (auto simp: push_def)
next
  case True
  define pre where "pre = (if currentSize sb + (2 + length data) > maxFrameSize sb \<and> sb_packets sb \<noteq> []
      then sb_flush sb else Inr sb)"
  obtain ps n out where f: "sb_flush sb = Inr (sb\<lparr>sb_packets := ps, currentSize := frame_size ps, sb_timer := (ps \<noteq> []),
        sb_polls := n, sb_sent := sb_sent sb @ out\<rparr>)" "concat (map unframed out) @ ps = sb_packets sb"
      "\<forall>m \<in> set out. length m \<le> maxFrameSize sb \<or> plain_frame m"
    using sb_flush_ok [of sb] assms(1) by (auto simp: wf_sendbuf_def)
  have sub: "set ps \<subseteq> set (sb_packets sb)" "length ps \<le> length (sb_packets sb)"
    unfolding f(2) [symmetric] by auto
  obtain sb1 where sb1: "pre = Inr sb1" "wf_sendbuf sb1" "length (sb_packets sb1) < maxQueuePackets sb1"
      "concat (map unframed (sb_sent sb1)) @ sb_packets sb1 = concat (map unframed (sb_sent sb)) @ sb_packets sb"
  proof (cases "currentSize sb + (2 + length data) > maxFrameSize sb \<and> sb_packets sb \<noteq> []")
    case c: True
    have pre: "pre = sb_flush sb" using c by (simp add: pre_def)
    obtain sb1 where sb1: "sb_flush sb = Inr sb1" "wf_sendbuf sb1"
        "concat (map unframed (sb_sent sb1)) @ sb_packets sb1 = concat (map unframed (sb_sent sb)) @ sb_packets sb"
      using sb_flush_channel [OF assms(1)] by blast
    have "length (sb_packets sb1) < maxQueuePackets sb1"
      using sb1(1) f(1) sub(2) True by auto
    with sb1 pre show ?thesis using that by simp
  next
    case False
    then show ?thesis using that True assms(1) by (auto simp: pre_def)
  qed
  define sb2 where "sb2 = sb1\<lparr>sb_packets := sb_packets sb1 @ [data], currentSize := currentSize sb1 + (2 + length data)\<rparr>"
  have wf2: "wf_sendbuf (sb2\<lparr>sb_timer := True\<rparr>)"
    using sb1(2,3) assms(2) by (auto simp: wf_sendbuf_def sb2_def frame_size_def)
  have flush: "sb_flush sb2 = sb_flush (sb2\<lparr>sb_timer := True\<rparr>)"
    by (simp add: sb_flush_def)
  have "push data sb = (if currentSize sb2 \<ge> maxFrameSize sb2 then ebind (sb_flush sb2) (\<lambda>sb. Inr (sb, True))
      else Inr (sb2\<lparr>sb_timer := True\<rparr>, True))"
    using True sb1(1) unfolding push_def Let_def pre_def [symmetric] by (simp add: sb2_def)
  then show ?thesis
    using True wf2 sb_flush_channel [OF wf2] sb1(4) unfolding flush
    by (cases "currentSize sb2 \<ge> maxFrameSize sb2") (fastforce simp: sb2_def)+
qed

lemma sb_timeout_channel:
  assumes "wf_sendbuf sb"
  shows "\<exists>sb'. sb_timeout sb = Inr sb' \<and> wf_sendbuf sb' \<and>
    concat (map unframed (sb_sent sb')) @ sb_packets sb' = concat (map unframed (sb_sent sb)) @ sb_packets sb"
proof -
  have "sb_flush (sb\<lparr>sb_timer := False\<rparr>) = sb_flush sb" by (simp add: sb_flush_def)
  then show ?thesis
    using sb_flush_channel [OF assms] assms by (simp add: sb_timeout_def)
qed

interpretation sb_channel: aggregator sb_step sb_acc unframed sb_sent sb_packets wf_sendbuf sb_event_ok
proof unfold_locales
  fix sb e
  assume "wf_sendbuf sb" "sb_event_ok e"
  then show "\<exists>s'. sb_step e sb = Inr s' \<and> wf_sendbuf s' \<and>
      concat (map unframed (sb_sent s')) @ sb_packets s' = concat (map unframed (sb_sent sb)) @ sb_packets sb @ sb_acc e sb"
    using push_channel [of sb] sb_flush_channel [of sb] sb_timeout_channel [of sb]
    by (cases e) (fastforce simp: resume_def)+
qed

section \<open>Properties\<close>





text \<open>Progress of the send buffer: once the transport stays ready, one timer callback of a
  well-formed buffer sends everything that is queued, in order, and leaves no timer behind.\<close>

theorem send_buffer_drains:
  assumes "wf_sendbuf sb" "\<forall>i \<ge> sb_polls sb. sb_ready sb i"
  shows "\<exists>sb'. sb_timeout sb = Inr sb' \<and> sb_packets sb' = [] \<and> \<not> sb_timer sb' \<and>
    concat (map unframed (sb_sent sb')) = concat (map unframed (sb_sent sb)) @ sb_packets sb"
proof (cases "sb_timer sb")
  case False
  then have "sb_packets sb = []" using assms(1) by (auto simp: wf_sendbuf_def)
  then show ?thesis using False by (simp add: sb_timeout_def)
next
  case True
  have "sb_flush (sb\<lparr>sb_timer := False\<rparr>) = sb_flush sb" by (simp add: sb_flush_def)
  then show ?thesis
    using sb_flush_ok [of sb] assms True by (auto simp: sb_timeout_def wf_sendbuf_def)
qed

theorem send_buffer_drains_witness:
  "\<exists>sb'. sb_timeout (new_TransportSendBuffer None None (\<lambda>_. True) (\<lambda>_. 0)
        \<lparr>sb_packets := [[1, 2], [3]], currentSize := 10, sb_timer := True\<rparr>) = Inr sb' \<and>
     sb_packets sb' = [] \<and> concat (map unframed (sb_sent sb')) = [[1, 2], [3]]"
  using send_buffer_drains [of "new_TransportSendBuffer None None (\<lambda>_. True) (\<lambda>_. 0)
        \<lparr>sb_packets := [[1, 2], [3]], currentSize := 10, sb_timer := True\<rparr>"]
  by (auto simp: new_TransportSendBuffer_def wf_sendbuf_def plain_frame_def frame_size_def
      HEADER_SIZE_def MAX_FRAME_SIZE_def DEFAULT_MAX_QUEUE_def)

text \<open>A frame cut short anywhere after its header is rejected as a whole.\<close>

lemma unframe_from_truncated:
  "\<forall>p \<in> set ps. length p < 65536 \<Longrightarrow> k < length (p16.packed ps) \<Longrightarrow>
   unframe_from (pre @ take k (p16.packed ps)) (length ps) (length pre) = None"
proof (induction ps arbitrary: pre k)
  case Nil
  then show ?case by (simp add: p16.packed_simps)
next
  case (Cons p ps)
  consider "k < 2" | "2 \<le> k" "k < 2 + length p" | "2 + length p \<le> k" by linarith
  then show ?case
  proof cases
    case 1
    then have "length (pre @ take k (p16.packed (p # ps))) < length pre + 2" by simp
    then show ?thesis by simp
  next
    case 2
    then have cut: "take k (p16.packed (p # ps)) = u16_bytes (length p) @ take (k - 2) p"
      by (simp add: p16.packed_simps)
    have "length (pre @ take k (p16.packed (p # ps))) < length pre + 2 + length p"
      using 2 by simp
    then show ?thesis
      using 2 cut Cons.prems(1) u16_at_append [of "length pre" pre "length p" "take (k - 2) p"] by (simp add: Let_def)
  next
    case 3
    define pre' where "pre' = pre @ u16_bytes (length p) @ p"
    have cut: "pre @ take k (p16.packed (p # ps)) = pre' @ take (k - 2 - length p) (p16.packed ps)"
      using 3 by (simp add: p16.packed_simps pre'_def)
    have "unframe_from (pre' @ take (k - 2 - length p) (p16.packed ps)) (length ps) (length pre') = None"
      using Cons.prems 3 by (intro Cons.IH) (simp_all add: p16.packed_simps)
    then show ?thesis
      unfolding cut
      using Cons.prems(1) u16_at_append [of "length pre" pre "length p" "p @ take (k - 2 - length p) (p16.packed ps)"]
      by (simp add: Let_def pre'_def)
  qed
qed

text \<open>Framing round trip and truncation: what \<open>_sendFrame\<close> builds from two or more packets is
  unframed to exactly these packets whatever the allocated memory held, and every strict prefix that
  still has the header is rejected (\<open>null\<close>) as a whole.\<close>

theorem frame_roundtrip:
  assumes "2 \<le> length ps" "length ps < 65536" "\<forall>p \<in> set ps. length p < 65536"
  shows "\<exists>buf. sendFrame mem ps = Inr buf \<and> unframe buf = Some ps \<and>
    (\<forall>k. 3 \<le> k \<and> k < length buf \<longrightarrow> unframe (take k buf) = None)"
proof (intro exI [of _ "frame ps"] conjI allI impI)
  fix k
  assume k: "3 \<le> k \<and> k < length (frame ps)"
  have "length (frame ps) = 3 + length (p16.packed ps)"
    by (simp add: frame_def)
  then have "unframe_from (([254] @ u16_bytes (length ps)) @ take (k - 3) (p16.packed ps)) (length ps)
      (length ([254] @ u16_bytes (length ps))) = None"
    using k by (intro unframe_from_truncated [OF assms(3)]) auto
  moreover have "take k (frame ps) = ([254] @ u16_bytes (length ps)) @ take (k - 3) (p16.packed ps)"
    using k take_append [of k "[254] @ u16_bytes (length ps)" "p16.packed ps"] by (simp add: frame_def)
  ultimately show "unframe (take k (frame ps)) = None"
    using u16_at_append [of 1 "[254]" "length ps" "take (k - 3) (p16.packed ps)"] assms(2)
    by (simp add: unframe_def HEADER_SIZE_def FRAME_MARKER_def)
qed (use assms sendFrame_layout [of ps mem] unframe_frame [of ps] in auto)

theorem frame_roundtrip_witness:
  "\<exists>buf. sendFrame (\<lambda>_. 9) [[1, 2], [], [254]] = Inr buf \<and> unframe buf = Some [[1, 2], [], [254]] \<and>
    (\<forall>k. 3 \<le> k \<and> k < length buf \<longrightarrow> unframe (take k buf) = None)"
  using frame_roundtrip [of "[[1, 2], [], [254]]" "\<lambda>_. 9"] by simp

end
