(* ===== verification/Net_Graph.thy ===== *)
theory Net_Graph
  imports Mesh_Prelude
begin

text \<open>
  \<open>src/core/graph.js\<close>: the \<open>NetworkGraph\<close> of nodes, neighbour sets and edge metrics, its
  updates (also from a topology snapshot), the breadth-first searches and the two Dijkstra
  searches by latency. Node ids are strings, neighbour sets keep insertion order, latencies
  are integers (differences of \<open>Date.now()\<close>). The loops that end only because of the shape of
  their state are \<open>partial_function\<close>s; they are proved to return.
\<close>

type_synonym node_id = jsstring

section \<open>The graph and its updates\<close>

record node_info =
  ni_nodeId :: node_id
  ni_role :: "jsstring option"
  ni_virtualIp :: "jsstring option"
  ni_publicKey :: "jsstring option"
  ni_addedAt :: int
  ni_fromTopology :: bool

text \<open>
  The \<open>info\<close> argument of \<open>addNode\<close>: \<open>None\<close> is a property that the object does not have,
  \<open>Some None\<close> one whose value is undefined or null (the spread copies it).
\<close>

record info_patch =
  ip_role :: "jsstring option option"
  ip_virtualIp :: "jsstring option option"
  ip_publicKey :: "jsstring option option"
  ip_fromTopology :: "bool option"

record edge_metrics =
  em_latency :: "int option"
  em_isTurnRelay :: bool
  em_updatedAt :: int

record metrics_patch =
  mp_latency :: "int option"
  mp_isTurnRelay :: "bool option"

record graph =
  nodes :: "(node_id, node_info) jsmap"
  edges :: "(node_id, node_id list) jsmap"
  metrics :: "(jsstring, edge_metrics) jsmap"

definition new_NetworkGraph :: graph where
  "new_NetworkGraph = \<lparr>nodes = [], edges = [], metrics = []\<rparr>"

definition no_info :: info_patch where
  "no_info = \<lparr>ip_role = None, ip_virtualIp = None, ip_publicKey = None, ip_fromTopology = None\<rparr>"

definition no_metrics :: metrics_patch where
  "no_metrics = \<lparr>mp_latency = None, mp_isTurnRelay = None\<rparr>"

text \<open>\<open>{ ...base, ...info }\<close>.\<close>

definition spread_info :: "node_info \<Rightarrow> info_patch \<Rightarrow> node_info" where
  "spread_info base info = base\<lparr>
     ni_role := (case ip_role info of Some v \<Rightarrow> v | None \<Rightarrow> ni_role base),
     ni_virtualIp := (case ip_virtualIp info of Some v \<Rightarrow> v | None \<Rightarrow> ni_virtualIp base),
     ni_publicKey := (case ip_publicKey info of Some v \<Rightarrow> v | None \<Rightarrow> ni_publicKey base),
     ni_fromTopology := (case ip_fromTopology info of Some v \<Rightarrow> v | None \<Rightarrow> ni_fromTopology base)\<rparr>"

definition addNode :: "int \<Rightarrow> node_id \<Rightarrow> info_patch \<Rightarrow> graph \<Rightarrow> graph" where
  "addNode now nodeId info g =
     (case map_get (nodes g) nodeId of
        None \<Rightarrow> g\<lparr>nodes := map_put nodeId
            (spread_info \<lparr>ni_nodeId = nodeId, ni_role = Some (js ''client''), ni_virtualIp = None,
               ni_publicKey = None, ni_addedAt = now, ni_fromTopology = False\<rparr> info) (nodes g),
          edges := map_put nodeId [] (edges g)\<rparr>
      | Some existing \<Rightarrow> g\<lparr>nodes := map_put nodeId (spread_info existing info) (nodes g)\<rparr>)"

definition edgeKey :: "node_id \<Rightarrow> node_id \<Rightarrow> jsstring" where
  "edgeKey a b = (if a < b then a @ 58 # b else b @ 58 # a)"

definition getNeighbors :: "graph \<Rightarrow> node_id \<Rightarrow> node_id list" where
  "getNeighbors g n = (case map_get (edges g) n of Some ns \<Rightarrow> ns | None \<Rightarrow> [])"

text \<open>\<open>set.delete(x)\<close> on a neighbour set, if there is one.\<close>

definition del_neighbor :: "node_id \<Rightarrow> node_id \<Rightarrow> (node_id, node_id list) jsmap \<Rightarrow> (node_id, node_id list) jsmap" where
  "del_neighbor n x es = (case map_get es n of Some ns \<Rightarrow> map_put n (set_del x ns) es | None \<Rightarrow> es)"

definition removeNode :: "node_id \<Rightarrow> graph \<Rightarrow> graph" where
  "removeNode nodeId g =
     (if map_get (nodes g) nodeId = None then g
      else let g = fold (\<lambda>neighbor g. g\<lparr>edges := del_neighbor neighbor nodeId (edges g),
                          metrics := map_del (edgeKey nodeId neighbor) (metrics g)\<rparr>)
                    (getNeighbors g nodeId) g
           in g\<lparr>nodes := map_del nodeId (nodes g), edges := map_del nodeId (edges g)\<rparr>)"

definition updateEdgeMetrics :: "int \<Rightarrow> node_id \<Rightarrow> node_id \<Rightarrow> metrics_patch \<Rightarrow> graph \<Rightarrow> graph" where
  "updateEdgeMetrics now a b mp g =
     (let key = edgeKey a b;
          existing = (case map_get (metrics g) key of Some m \<Rightarrow> m
            | None \<Rightarrow> \<lparr>em_latency = None, em_isTurnRelay = False, em_updatedAt = now\<rparr>) in
      g\<lparr>metrics := map_put key \<lparr>em_latency = (case mp_latency mp of Some l \<Rightarrow> Some l | None \<Rightarrow> em_latency existing),
          em_isTurnRelay = (case mp_isTurnRelay mp of Some t \<Rightarrow> t | None \<Rightarrow> em_isTurnRelay existing),
          em_updatedAt = now\<rparr> (metrics g)\<rparr>)"

definition ensure_edges :: "node_id \<Rightarrow> graph \<Rightarrow> graph" where
  "ensure_edges n g = (if map_get (edges g) n = None then g\<lparr>edges := map_put n [] (edges g)\<rparr> else g)"

definition add_neighbor :: "node_id \<Rightarrow> node_id \<Rightarrow> graph \<Rightarrow> graph" where
  "add_neighbor n x g = g\<lparr>edges := map_put n (set_add x (getNeighbors g n)) (edges g)\<rparr>"

definition addEdge :: "int \<Rightarrow> node_id \<Rightarrow> node_id \<Rightarrow> metrics_patch \<Rightarrow> graph \<Rightarrow> graph" where
  "addEdge now a b mp g =
     updateEdgeMetrics now a b mp (add_neighbor b a (add_neighbor a b (ensure_edges b (ensure_edges a g))))"

definition removeEdge :: "node_id \<Rightarrow> node_id \<Rightarrow> graph \<Rightarrow> graph" where
  "removeEdge a b g = g\<lparr>edges := del_neighbor b a (del_neighbor a b (edges g)),
     metrics := map_del (edgeKey a b) (metrics g)\<rparr>"

definition getEdgeMetrics :: "graph \<Rightarrow> node_id \<Rightarrow> node_id \<Rightarrow> edge_metrics option" where
  "getEdgeMetrics g a b = map_get (metrics g) (edgeKey a b)"

definition hasNode :: "graph \<Rightarrow> node_id \<Rightarrow> bool" where
  "hasNode g n \<longleftrightarrow> map_get (nodes g) n \<noteq> None"

definition hasEdge :: "graph \<Rightarrow> node_id \<Rightarrow> node_id \<Rightarrow> bool" where
  "hasEdge g a b \<longleftrightarrow> b \<in> set (getNeighbors g a)"

definition getNodesByRole :: "graph \<Rightarrow> jsstring \<Rightarrow> node_info list" where
  "getNodesByRole g r = filter (\<lambda>n. ni_role n = Some r) (map snd (nodes g))"

definition getExitNodes :: "graph \<Rightarrow> node_info list" where
  "getExitNodes g = getNodesByRole g (js ''exit'')"

definition getRelayNodes :: "graph \<Rightarrow> node_info list" where
  "getRelayNodes g = getNodesByRole g (js ''relay'')"

definition getClientNodes :: "graph \<Rightarrow> node_info list" where
  "getClientNodes g = getNodesByRole g (js ''client'')"

definition role_of :: "graph \<Rightarrow> node_id \<Rightarrow> jsstring option" where
  "role_of g n = (case map_get (nodes g) n of Some i \<Rightarrow> ni_role i | None \<Rightarrow> None)"

definition clear_graph :: "graph \<Rightarrow> graph" where
  "clear_graph g = \<lparr>nodes = [], edges = [], metrics = []\<rparr>"

section \<open>Topology snapshots\<close>

record topo_info =
  ti_role :: "jsstring option"
  ti_virtualIp :: "jsstring option"
  ti_connectedTo :: "node_id list"

type_synonym topology = "(node_id, topo_info) jsmap"

definition topo_entry :: "int \<Rightarrow> topology \<Rightarrow> node_id \<times> topo_info \<Rightarrow> graph \<Rightarrow> graph" where
  "topo_entry now topology entry g =
     (case entry of (nodeId, info) \<Rightarrow>
        fold (\<lambda>c g. if hasNode g c \<or> map_get topology c \<noteq> None
                    then addEdge now nodeId c no_metrics g else g)
          (ti_connectedTo info)
          (addNode now nodeId \<lparr>ip_role = Some (ti_role info), ip_virtualIp = Some (ti_virtualIp info),
             ip_publicKey = None, ip_fromTopology = Some True\<rparr> g))"

definition prune :: "topology \<Rightarrow> graph \<Rightarrow> graph" where
  "prune topology g =
     fold (\<lambda>(nodeId, info) g. if ni_fromTopology info \<and> map_get topology nodeId = None
                               then removeNode nodeId g else g) (nodes g) g"

definition updateFromTopology :: "int \<Rightarrow> topology \<Rightarrow> graph \<Rightarrow> graph" where
  "updateFromTopology now topology g = prune topology (fold (topo_entry now topology) topology g)"

section \<open>Breadth-first search\<close>

text \<open>The inner loop over the neighbours of the last node of \<open>path\<close>.\<close>

fun expand :: "node_id list \<Rightarrow> node_id list \<Rightarrow> node_id list \<Rightarrow> node_id list \<times> node_id list list
    \<Rightarrow> node_id list \<times> node_id list list" where
  "expand path excl [] st = st"
| "expand path excl (nb # nbs) (visited, queue) =
     (if nb \<notin> set visited \<and> nb \<notin> set excl
      then expand path excl nbs (visited @ [nb], queue @ [path @ [nb]])
      else expand path excl nbs (visited, queue))"

partial_function (option) bfs_loop ::
    "graph \<Rightarrow> (node_id \<Rightarrow> node_id list \<Rightarrow> 'r option) \<Rightarrow> node_id list \<Rightarrow> node_id list \<Rightarrow> node_id list list
     \<Rightarrow> 'r option option" where
  "bfs_loop g isGoal excl visited queue =
     (case queue of
        [] \<Rightarrow> Some None
      | path # queue \<Rightarrow>
          (case isGoal (last path) path of
             Some hit \<Rightarrow> Some (Some hit)
           | None \<Rightarrow> (case expand path excl (getNeighbors g (last path)) (visited, queue) of
                        (visited, queue) \<Rightarrow> bfs_loop g isGoal excl visited queue)))"

definition bfs :: "graph \<Rightarrow> node_id \<Rightarrow> (node_id \<Rightarrow> node_id list \<Rightarrow> 'r option) \<Rightarrow> node_id list \<Rightarrow> 'r option option" where
  "bfs g startId isGoal excl =
     (if \<not> hasNode g startId then Some None else bfs_loop g isGoal excl [startId] [[startId]])"

definition findShortestPath :: "graph \<Rightarrow> node_id \<Rightarrow> node_id \<Rightarrow> node_id list \<Rightarrow> node_id list option option" where
  "findShortestPath g fromNode toNode excl =
     (if \<not> hasNode g toNode then Some None
      else if fromNode = toNode then Some (Some [fromNode])
      else bfs g fromNode (\<lambda>cur path. if cur = toNode then Some path else None) excl)"

definition exit_goal :: "graph \<Rightarrow> node_id \<Rightarrow> node_id \<Rightarrow> bool" where
  "exit_goal g fromNode cur \<longleftrightarrow> role_of g cur = Some (js ''exit'') \<and> cur \<noteq> fromNode"

definition findPathToNearestExit :: "graph \<Rightarrow> node_id \<Rightarrow> node_id list \<Rightarrow> (node_id list \<times> node_id) option option" where
  "findPathToNearestExit g fromNode excl =
     bfs g fromNode (\<lambda>cur path. if exit_goal g fromNode cur then Some (path, cur) else None) excl"

record exit_path =
  xp_path :: "node_id list"
  xp_exitNode :: node_id
  xp_hops :: nat

partial_function (option) all_exits_loop ::
    "graph \<Rightarrow> node_id \<Rightarrow> nat \<Rightarrow> node_id list \<Rightarrow> node_id list \<Rightarrow> node_id list list \<Rightarrow> exit_path list
     \<Rightarrow> exit_path list option" where
  "all_exits_loop g fromNode maxPaths excl visited queue paths =
     (case queue of
        [] \<Rightarrow> Some paths
      | path # queue \<Rightarrow>
          if length paths \<ge> maxPaths then Some paths
          else let cur = last path;
                   paths = (if exit_goal g fromNode cur
                     then paths @ [\<lparr>xp_path = path, xp_exitNode = cur, xp_hops = length path - 1\<rparr>] else paths) in
            if exit_goal g fromNode cur \<and> length paths \<ge> maxPaths then Some paths
            else (case expand path excl (getNeighbors g cur) (visited, queue) of
                    (visited, queue) \<Rightarrow> all_exits_loop g fromNode maxPaths excl visited queue paths))"

definition findAllPathsToExits :: "graph \<Rightarrow> node_id \<Rightarrow> nat \<Rightarrow> node_id list \<Rightarrow> exit_path list option" where
  "findAllPathsToExits g fromNode maxPaths excl =
     (if \<not> hasNode g fromNode then Some []
      else map_option (sort_key xp_hops) (all_exits_loop g fromNode maxPaths excl [fromNode] [[fromNode]] []))"

section \<open>Dijkstra by latency\<close>

definition DEFAULT_LATENCY :: int where "DEFAULT_LATENCY = 100"

definition edge_weight :: "graph \<Rightarrow> node_id \<Rightarrow> node_id \<Rightarrow> int" where
  "edge_weight g cur nb =
     (case getEdgeMetrics g cur nb of
        Some m \<Rightarrow> (case em_latency m of Some l \<Rightarrow> if l > 0 then l else DEFAULT_LATENCY | None \<Rightarrow> DEFAULT_LATENCY)
      | None \<Rightarrow> DEFAULT_LATENCY)"

record search =
  s_dist :: "(node_id, int) jsmap"
  s_prev :: "(node_id, node_id) jsmap"
  s_heap :: "(int \<times> node_id) list"

definition relax :: "graph \<Rightarrow> node_id list \<Rightarrow> int \<Rightarrow> node_id \<Rightarrow> node_id \<Rightarrow> search \<Rightarrow> search" where
  "relax g excl cost cur nb st =
     (if nb \<in> set excl then st
      else let newCost = cost + edge_weight g cur nb in
        if (case map_get (s_dist st) nb of Some d \<Rightarrow> newCost < d | None \<Rightarrow> True)
        then \<lparr>s_dist = map_put nb newCost (s_dist st), s_prev = map_put nb cur (s_prev st),
              s_heap = s_heap st @ [(newCost, nb)]\<rparr>
        else st)"

text \<open>Following \<open>prev\<close> back from a node, \<open>path\<close> being what was collected so far.\<close>

partial_function (option) trace_back ::
    "(node_id, node_id) jsmap \<Rightarrow> node_id \<Rightarrow> node_id list \<Rightarrow> node_id list option" where
  "trace_back prev n path =
     (case map_get prev n of None \<Rightarrow> Some (n # path) | Some m \<Rightarrow> trace_back prev m (n # path))"

partial_function (option) dijkstra_loop ::
    "graph \<Rightarrow> (node_id \<Rightarrow> bool) \<Rightarrow> node_id list \<Rightarrow> search \<Rightarrow> (node_id list \<times> node_id \<times> int) option option" where
  "dijkstra_loop g goal excl st =
     (case sort_key fst (s_heap st) of
        [] \<Rightarrow> Some None
      | (cost, cur) # heap \<Rightarrow>
          if goal cur then
            (case trace_back (s_prev st) cur [] of
               None \<Rightarrow> None | Some path \<Rightarrow> Some (Some (path, cur, cost)))
          else if (case map_get (s_dist st) cur of Some d \<Rightarrow> cost > d | None \<Rightarrow> False)
          then dijkstra_loop g goal excl (st\<lparr>s_heap := heap\<rparr>)
          else dijkstra_loop g goal excl
            (fold (relax g excl cost cur) (getNeighbors g cur) (st\<lparr>s_heap := heap\<rparr>)))"

definition dijkstra_start :: "node_id \<Rightarrow> search" where
  "dijkstra_start fromNode = \<lparr>s_dist = [(fromNode, 0)], s_prev = [], s_heap = [(0, fromNode)]\<rparr>"

definition findShortestPathWeighted :: "graph \<Rightarrow> node_id \<Rightarrow> node_id \<Rightarrow> node_id list \<Rightarrow> node_id list option option" where
  "findShortestPathWeighted g fromNode toNode excl =
     (if \<not> hasNode g toNode then Some None
      else if fromNode = toNode then Some (Some [fromNode])
      else map_option (map_option fst) (dijkstra_loop g (\<lambda>cur. cur = toNode) excl (dijkstra_start fromNode)))"

definition findPathToNearestExitWeighted ::
    "graph \<Rightarrow> node_id \<Rightarrow> node_id list \<Rightarrow> (node_id list \<times> node_id \<times> int) option option" where
  "findPathToNearestExitWeighted g fromNode excl =
     (if \<not> hasNode g fromNode then Some None
      else dijkstra_loop g (exit_goal g fromNode) excl (dijkstra_start fromNode))"

declare bfs_loop.simps [code] all_exits_loop.simps [code] trace_back.simps [code] dijkstra_loop.simps [code]

section \<open>Serialisation\<close>

fun json_edges :: "graph \<Rightarrow> (node_id \<times> node_id) list \<Rightarrow> jsstring list
    \<Rightarrow> (node_id \<times> node_id \<times> edge_metrics option) list" where
  "json_edges g [] seen = []"
| "json_edges g ((a, b) # es) seen =
     (let key = edgeKey a b in
      if key \<in> set seen then json_edges g es seen
      else (a, b, map_get (metrics g) key) # json_edges g es (seen @ [key]))"

definition graph_toJSON ::
    "graph \<Rightarrow> (node_id, node_info) jsmap \<times> (node_id \<times> node_id \<times> edge_metrics option) list" where
  "graph_toJSON g = (nodes g, json_edges g (concat (map (\<lambda>(a, bs). map (Pair a) bs) (edges g))) [])"

section \<open>Walks\<close>

fun walk :: "('n \<Rightarrow> 'n set) \<Rightarrow> 'n list \<Rightarrow> bool" where
  "walk S [] = False"
| "walk S [u] = True"
| "walk S (u # v # p) = (v \<in> S u \<and> walk S (v # p))"

definition walk_to :: "('n \<Rightarrow> 'n set) \<Rightarrow> 'n \<Rightarrow> 'n \<Rightarrow> 'n list \<Rightarrow> bool" where
  "walk_to S s v p \<longleftrightarrow> walk S p \<and> hd p = s \<and> last p = v"

definition succs :: "graph \<Rightarrow> node_id list \<Rightarrow> node_id \<Rightarrow> node_id set" where
  "succs g excl u = set (getNeighbors g u) - set excl"

lemma walk_nonempty: "walk S p \<Longrightarrow> p \<noteq> []"
  by auto

lemma walk_snoc: "p \<noteq> [] \<Longrightarrow> walk S (p @ [v]) \<longleftrightarrow> walk S p \<and> v \<in> S (last p)"
  by (induction S p rule: walk.induct) auto

lemma walk_to_single [simp]: "walk_to S s s [s]"
  by (simp add: walk_to_def)

lemma walk_to_snoc: "walk_to S s u p \<Longrightarrow> v \<in> S u \<Longrightarrow> walk_to S s v (p @ [v])"
  using walk_nonempty [of S p] by (auto simp: walk_to_def walk_snoc)

lemma walk_to_induct [consumes 1, case_names single snoc]:
  assumes "walk_to S s v p"
    and "P s [s]"
    and "\<And>u p v. walk_to S s u p \<Longrightarrow> P u p \<Longrightarrow> v \<in> S u \<Longrightarrow> P v (p @ [v])"
  shows "P v p"
  using assms(1)
proof (induction p arbitrary: v rule: rev_induct)
  case Nil
  then show ?case by (simp add: walk_to_def)
next
  case (snoc x p)
  then show ?case
    using assms(2,3) walk_snoc [of p S x] by (cases "p = []") (auto simp: walk_to_def)
qed

lemma walk_to_closed:
  "walk_to S s v p \<Longrightarrow> s \<in> V \<Longrightarrow> (\<And>u. u \<in> V \<Longrightarrow> S u \<subseteq> V) \<Longrightarrow> v \<in> V"
  by (induction rule: walk_to_induct) auto

text \<open>
  The interface of the searches: a successor relation whose reachable part is finite.
\<close>

locale finite_search =
  fixes S :: "'n \<Rightarrow> 'n set" and s :: 'n and U :: "'n set"
  assumes finite_U: "finite U"
    and start_U: "s \<in> U"
    and closed_U: "u \<in> U \<Longrightarrow> S u \<subseteq> U"
begin

text \<open>The breadth-first invariant: visited nodes \<open>V\<close>, queue of paths \<open>Q\<close>.\<close>

definition bfs_inv :: "'n set \<Rightarrow> 'n list list \<Rightarrow> bool" where
  "bfs_inv V Q \<longleftrightarrow> s \<in> V \<and> V \<subseteq> U
     \<and> (\<forall>p \<in> set Q. walk_to S s (last p) p \<and> last p \<in> V \<and> (\<forall>p'. walk_to S s (last p) p' \<longrightarrow> length p \<le> length p'))
     \<and> sorted (map length Q) \<and> (\<forall>p \<in> set Q. length p \<le> Suc (length (hd Q)))
     \<and> (Q \<noteq> [] \<longrightarrow> (\<forall>v p'. walk_to S s v p' \<and> length p' \<le> length (hd Q) \<longrightarrow> v \<in> V))
     \<and> (\<forall>u \<in> V. u \<notin> last ` set Q \<longrightarrow> S u \<subseteq> V)
     \<and> distinct (map last Q)"

lemma bfs_inv_start: "bfs_inv {s} [[s]]"
proof -
  have "v = s" if "walk_to S s v p'" "length p' \<le> Suc 0" for v p'
    using that walk_nonempty [of S p'] by (cases p') (auto simp: walk_to_def)
  moreover have "1 \<le> length p'" if "walk_to S s v p'" for v p'
    using that walk_nonempty [of S p'] by (cases p') (auto simp: walk_to_def)
  ultimately show ?thesis
    using start_U by (auto simp: bfs_inv_def)
qed

lemma bfs_inv_seen: "bfs_inv V (p # Q) \<Longrightarrow> walk_to S s v p' \<Longrightarrow> length p' \<le> length p \<Longrightarrow> v \<in> V"
  unfolding bfs_inv_def list.sel by blast

lemma bfs_inv_queue: "bfs_inv V (p # Q) \<Longrightarrow> q \<in> set (p # Q) \<Longrightarrow>
    length p \<le> length q \<and> (walk_to S s (last q) p' \<longrightarrow> length q \<le> length p')"
  by (auto simp: bfs_inv_def)

lemma bfs_inv_queue_le: "bfs_inv V (p # Q) \<Longrightarrow> q \<in> set Q \<Longrightarrow> length q \<le> Suc (length p)"
  by (simp add: bfs_inv_def)

lemma bfs_inv_level:
  assumes "bfs_inv V (p # Q)" "set new = S (last p) - V" "Q' = Q @ map (\<lambda>v. p @ [v]) new" "Q' \<noteq> []"
    and "walk_to S s v p'" "length p' \<le> length (hd Q')"
  shows "v \<in> V \<union> set new"
proof (cases "length p' \<le> length p")
  case True
  then show ?thesis using bfs_inv_seen [OF assms(1,5)] by simp
next
  case False
  have hd: "length (hd Q') \<le> Suc (length p)"
    using bfs_inv_queue_le [OF assms(1)] assms(3,4) by (cases Q) (auto simp: hd_map)
  then have len: "length p' = Suc (length p)" "length (hd Q') = Suc (length p)"
    using False assms(6) by auto
  have "p \<noteq> []" using assms(1) by (auto simp: bfs_inv_def walk_to_def)
  moreover obtain r where "p' = r @ [v]"
    using assms(5) len by (cases p' rule: rev_cases) (auto simp: walk_to_def)
  ultimately have r: "p' = r @ [v]" "r \<noteq> []" using len(1) by auto
  then have wr: "walk_to S s (last r) r" "v \<in> S (last r)" "length r = length p"
    using assms(5) len walk_snoc [of r S v] by (auto simp: walk_to_def)
  then have "last r \<in> V" using bfs_inv_seen [OF assms(1)] by simp
  moreover have "last r \<notin> last ` set Q"
  proof
    assume "last r \<in> last ` set Q"
    then obtain q where q: "q \<in> set Q" "last r = last q" by blast
    then have "length q \<le> length r" using bfs_inv_queue [OF assms(1), of q r] wr(1) by simp
    moreover have "sorted (map length Q)" using assms(1) by (simp add: bfs_inv_def)
    moreover have "hd Q' = hd Q" "Q \<noteq> []" using q(1) assms(3) by (auto simp: hd_append)
    ultimately have "length (hd Q) \<le> length q" using q(1) by (cases Q) auto
    then show False using \<open>length q \<le> length r\<close> wr(3) len(2) \<open>hd Q' = hd Q\<close> by simp
  qed
  ultimately have "last r = last p \<or> S (last r) \<subseteq> V"
    using assms(1) by (simp add: bfs_inv_def) blast
  then show ?thesis
    using assms(2) wr(2) by auto
qed

lemma bfs_inv_parts:
  assumes "bfs_inv V (p # Q)"
  shows "s \<in> V" "V \<subseteq> U" "walk_to S s (last p) p" "last p \<in> V" "sorted (map length Q)"
    "last p \<notin> last ` set Q" "distinct (map last Q)"
    "\<And>q. q \<in> set Q \<Longrightarrow> walk_to S s (last q) q \<and> last q \<in> V"
    "\<And>q. q \<in> set Q \<Longrightarrow> length p \<le> length q \<and> length q \<le> Suc (length p)"
    "\<And>u. u \<in> V \<Longrightarrow> u \<noteq> last p \<Longrightarrow> u \<notin> last ` set Q \<Longrightarrow> S u \<subseteq> V"
  using assms by (simp_all add: bfs_inv_def)

lemma bfs_invI:
  assumes "s \<in> V" "V \<subseteq> U"
    and "\<And>p. p \<in> set Q \<Longrightarrow> walk_to S s (last p) p \<and> last p \<in> V \<and>
      (\<forall>p'. walk_to S s (last p) p' \<longrightarrow> length p \<le> length p')"
    and "sorted (map length Q)" "\<And>p. p \<in> set Q \<Longrightarrow> length p \<le> Suc (length (hd Q))"
    and "\<And>v p'. Q \<noteq> [] \<Longrightarrow> walk_to S s v p' \<Longrightarrow> length p' \<le> length (hd Q) \<Longrightarrow> v \<in> V"
    and "\<And>u. u \<in> V \<Longrightarrow> u \<notin> last ` set Q \<Longrightarrow> S u \<subseteq> V" "distinct (map last Q)"
  shows "bfs_inv V Q"
  unfolding bfs_inv_def by (intro conjI ballI impI allI) (use assms in \<open>simp_all only:, blast\<close>)

lemma bfs_inv_step:
  assumes inv: "bfs_inv V (p # Q)" and new: "set new = S (last p) - V" "distinct new"
  shows "bfs_inv (V \<union> set new) (Q @ map (\<lambda>v. p @ [v]) new)" (is "bfs_inv ?V ?Q")
proof -
  note parts = bfs_inv_parts [OF inv]
  have paths: "walk_to S s (last q) q \<and> last q \<in> ?V \<and> (\<forall>p'. walk_to S s (last q) p' \<longrightarrow> length q \<le> length p')"
    if q: "q \<in> set ?Q" for q
  proof -
    consider "q \<in> set Q" | v where "v \<in> set new" "q = p @ [v]" using q by auto
    then show ?thesis
    proof cases
      case 1
      then show ?thesis using parts(8) bfs_inv_queue [OF inv, of q] by auto
    next
      case 2
      then have "walk_to S s v (p @ [v])" "v \<notin> V" using new(1) walk_to_snoc [OF parts(3)] by auto
      moreover have "length p < length p'" if "walk_to S s v p'" for p'
        using bfs_inv_seen [OF inv that] \<open>v \<notin> V\<close> by linarith
      ultimately show ?thesis using 2 by (auto simp: Suc_le_eq)
    qed
  qed
  have range: "length p \<le> length q \<and> length q \<le> Suc (length p)" if "q \<in> set ?Q" for q
    using that parts(9) by auto
  show ?thesis
  proof (rule bfs_invI)
    show "s \<in> ?V" using parts(1) by simp
    show "?V \<subseteq> U" using parts(2,4) new(1) closed_U [of "last p"] by auto
    show "sorted (map length ?Q)"
      using parts(5,9) by (auto simp: sorted_append sorted_map)
    show "length q \<le> Suc (length (hd ?Q))" if "q \<in> set ?Q" for q
    proof -
      have "hd ?Q \<in> set ?Q" using that by (intro hd_in_set) auto
      then show ?thesis using range [of q] range [of "hd ?Q"] that by linarith
    qed
    show "S u \<subseteq> ?V" if "u \<in> ?V" "u \<notin> last ` set ?Q" for u
      using parts(10) [of u] new(1) that by (cases "u = last p") (auto simp: image_Un image_image)
    have "set new \<inter> last ` set Q = {}" using parts(8) new(1) by auto
    then show "distinct (map last ?Q)" using parts(7) new(2) by (auto simp: comp_def)
    show "v \<in> ?V" if "?Q \<noteq> []" "walk_to S s v p'" "length p' \<le> length (hd ?Q)" for v p'
      using bfs_inv_level [OF inv new(1) refl that] .
  qed (rule paths)
qed

text \<open>The head of the queue is no further from the start than any unprocessed node.\<close>

lemma bfs_inv_minimal:
  assumes "bfs_inv V (p # Q)" "walk_to S s v p'" "v \<in> V \<Longrightarrow> v \<in> last ` set (p # Q)"
  shows "length p \<le> length p'"
proof (rule ccontr)
  assume "\<not> length p \<le> length p'"
  then have less: "length p' < length p" by simp
  then have "v \<in> V" using bfs_inv_seen [OF assms(1,2)] by simp
  then obtain q where "q \<in> set (p # Q)" "v = last q" using assms(3) by blast
  then have "length q \<le> length p'" "length p \<le> length q" using bfs_inv_queue [OF assms(1)] assms(2) by auto
  then show False using less by simp
qed

lemma bfs_inv_empty: "bfs_inv V [] \<Longrightarrow> walk_to S s v p \<Longrightarrow> v \<in> V"
  by (erule walk_to_closed) (auto simp: bfs_inv_def)

lemma bfs_measure:
  assumes "bfs_inv V (p # Q)" "set new = S (last p) - V" "distinct new"
  shows "card (U - (V \<union> set new)) + length (Q @ map (\<lambda>v. p @ [v]) new) < card (U - V) + length (p # Q)"
proof -
  have "set new \<subseteq> U - V" using assms closed_U [of "last p"] by (auto simp: bfs_inv_def)
  moreover have "U - (V \<union> set new) = (U - V) - set new" by auto
  ultimately have "card (U - (V \<union> set new)) = card (U - V) - card (set new)" "card (set new) \<le> card (U - V)"
    using finite_U by (simp_all add: card_Diff_subset card_mono)
  then show ?thesis using assms(3) by (simp add: distinct_card)
qed

end

section \<open>Breadth-first search is correct\<close>

definition universe :: "graph \<Rightarrow> node_id \<Rightarrow> node_id set" where
  "universe g n = insert n (\<Union>(m, ns) \<in> set (edges g). set ns)"

lemma getNeighbors_universe: "set (getNeighbors g u) \<subseteq> universe g n"
proof (cases "map_get (edges g) u")
  case (Some ns)
  then have "set ns \<subseteq> universe g n" by (force simp: universe_def dest!: map_get_SomeD)
  then show ?thesis using Some by (simp add: getNeighbors_def)
qed (simp add: getNeighbors_def)

interpretation gs: finite_search "succs g excl" s "universe g s" for g excl s
proof unfold_locales
  show "finite (universe g s)" by (auto simp: universe_def)
  show "s \<in> universe g s" by (simp add: universe_def)
  show "succs g excl u \<subseteq> universe g s" for u
    using getNeighbors_universe by (auto simp: succs_def)
qed

lemma expand_new:
  "\<exists>new. expand path excl nbs (V, Q) = (V @ new, Q @ map (\<lambda>v. path @ [v]) new) \<and>
     set new = set nbs - set excl - set V \<and> distinct new"
proof (induction nbs arbitrary: V Q)
  case Nil
  then show ?case by simp
next
  case (Cons nb nbs)
  show ?case
  proof (cases "nb \<notin> set V \<and> nb \<notin> set excl")
    case True
    obtain new where "expand path excl nbs (V @ [nb], Q @ [path @ [nb]]) =
        ((V @ [nb]) @ new, (Q @ [path @ [nb]]) @ map (\<lambda>v. path @ [v]) new)"
        "set new = set nbs - set excl - set (V @ [nb])" "distinct new"
      using Cons.IH by blast
    then show ?thesis using True by (intro exI [of _ "nb # new"]) auto
  next
    case False
    obtain new where "expand path excl nbs (V, Q) = (V @ new, Q @ map (\<lambda>v. path @ [v]) new)"
        "set new = set nbs - set excl - set V" "distinct new"
      using Cons.IH by blast
    then show ?thesis using False by (intro exI [of _ new]) auto
  qed
qed

lemma bfs_loop_step:
  "bfs_loop g isGoal excl V [] = Some None"
  "bfs_loop g isGoal excl V (p # Q) =
     (case isGoal (last p) p of Some hit \<Rightarrow> Some (Some hit)
      | None \<Rightarrow> (case expand p excl (getNeighbors g (last p)) (V, Q) of (V', Q') \<Rightarrow> bfs_loop g isGoal excl V' Q'))"
  by (subst bfs_loop.simps, simp)+

lemma all_exits_loop_step:
  "all_exits_loop g s n excl V [] ps = Some ps"
  "n \<le> length ps \<Longrightarrow> all_exits_loop g s n excl V (p # Q) ps = Some ps"
  "length ps < n \<Longrightarrow> qs = (if exit_goal g s (last p)
        then ps @ [\<lparr>xp_path = p, xp_exitNode = last p, xp_hops = length p - 1\<rparr>] else ps) \<Longrightarrow>
   all_exits_loop g s n excl V (p # Q) ps =
     (if exit_goal g s (last p) \<and> n \<le> length qs then Some qs
      else (case expand p excl (getNeighbors g (last p)) (V, Q) of
              (V', Q') \<Rightarrow> all_exits_loop g s n excl V' Q' qs))"
  by (subst all_exits_loop.simps, simp add: Let_def)+

text \<open>
  The loop returns; a hit is at a goal, by a walk that is at most as long as every walk to a
  goal; no hit means that no goal can be reached.
\<close>

lemma bfs_loop_correct:
  assumes "gs.bfs_inv g excl s (set V) Q" "\<forall>u \<in> set V. u \<notin> last ` set Q \<longrightarrow> \<not> goal u"
    and "\<And>cur path. isGoal cur path = (if goal cur then Some (f cur path) else None)"
  shows "(\<exists>p. bfs_loop g isGoal excl V Q = Some (Some (f (last p) p)) \<and> goal (last p) \<and>
            walk_to (succs g excl) s (last p) p \<and>
            (\<forall>v p'. walk_to (succs g excl) s v p' \<and> goal v \<longrightarrow> length p \<le> length p'))
       \<or> (bfs_loop g isGoal excl V Q = Some None \<and> (\<forall>v p'. walk_to (succs g excl) s v p' \<longrightarrow> \<not> goal v))"
  using assms(1,2)
proof (induction "card (universe g s - set V) + length Q" arbitrary: V Q rule: less_induct)
  case less
  note inv = less.prems(1) and processed = less.prems(2)
  show ?case
  proof (cases Q)
    case Nil
    then show ?thesis
      using gs.bfs_inv_empty [of g excl s "set V"] inv processed by (auto simp: bfs_loop_step)
  next
    case (Cons p Q1)
    note inv = inv [unfolded Cons]
    show ?thesis
    proof (cases "goal (last p)")
      case True
      have "length p \<le> length p'" if "walk_to (succs g excl) s v p'" "goal v" for v p'
        using gs.bfs_inv_minimal [OF inv that(1)] processed that(2) Cons by blast
      moreover have "walk_to (succs g excl) s (last p) p"
        using inv by (simp add: gs.bfs_inv_def)
      moreover have "bfs_loop g isGoal excl V Q = Some (Some (f (last p) p))"
        using True Cons assms(3) by (simp add: bfs_loop_step)
      ultimately show ?thesis using True by blast
    next
      case False
      obtain new where new: "expand p excl (getNeighbors g (last p)) (V, Q1) = (V @ new, Q1 @ map (\<lambda>v. p @ [v]) new)"
          "set new = succs g excl (last p) - set V" "distinct new"
        using expand_new [of p excl "getNeighbors g (last p)" V Q1] by (auto simp: succs_def)
      have "bfs_loop g isGoal excl V Q = bfs_loop g isGoal excl (V @ new) (Q1 @ map (\<lambda>v. p @ [v]) new)"
        using False Cons assms(3) new(1) by (simp add: bfs_loop_step)
      moreover have "\<forall>u \<in> set (V @ new). u \<notin> last ` set (Q1 @ map (\<lambda>v. p @ [v]) new) \<longrightarrow> \<not> goal u"
        using processed False Cons by (auto simp: image_Un image_image)
      moreover have "gs.bfs_inv g excl s (set (V @ new)) (Q1 @ map (\<lambda>v. p @ [v]) new)"
        using gs.bfs_inv_step [OF inv new(2,3)] by simp
      moreover have "card (universe g s - set (V @ new)) + length (Q1 @ map (\<lambda>v. p @ [v]) new)
          < card (universe g s - set V) + length Q"
        using gs.bfs_measure [OF inv new(2,3)] Cons by simp
      ultimately show ?thesis using less.hyps by simp
    qed
  qed
qed

lemma bfs_correct:
  assumes "hasNode g s" "\<And>cur path. isGoal cur path = (if goal cur then Some (f cur path) else None)"
  shows "(\<exists>p. bfs g s isGoal excl = Some (Some (f (last p) p)) \<and> goal (last p) \<and>
            walk_to (succs g excl) s (last p) p \<and>
            (\<forall>v p'. walk_to (succs g excl) s v p' \<and> goal v \<longrightarrow> length p \<le> length p'))
       \<or> (bfs g s isGoal excl = Some None \<and> (\<forall>v p'. walk_to (succs g excl) s v p' \<longrightarrow> \<not> goal v))"
  using bfs_loop_correct [of g excl s "[s]" "[[s]]" goal isGoal f] gs.bfs_inv_start [of g excl s] assms
  by (simp add: bfs_def)

lemma all_exits_correct:
  assumes "gs.bfs_inv g excl s (set V) Q"
    and "\<forall>u \<in> set V. u \<notin> last ` set Q \<longrightarrow> exit_goal g s u \<longrightarrow> u \<in> xp_exitNode ` set ps"
    and "\<forall>x \<in> set ps. xp_exitNode x \<in> set V \<and> xp_exitNode x \<notin> last ` set Q" "distinct (map xp_exitNode ps)"
    and "\<forall>x \<in> set ps. exit_goal g s (xp_exitNode x) \<and> xp_hops x = length (xp_path x) - 1 \<and>
        walk_to (succs g excl) s (xp_exitNode x) (xp_path x) \<and>
        (\<forall>p'. walk_to (succs g excl) s (xp_exitNode x) p' \<longrightarrow> length (xp_path x) \<le> length p')"
    and "length ps \<le> n"
  shows "\<exists>qs. all_exits_loop g s n excl V Q ps = Some qs \<and> length qs \<le> n \<and> distinct (map xp_exitNode qs) \<and>
    (\<forall>x \<in> set qs. exit_goal g s (xp_exitNode x) \<and> xp_hops x = length (xp_path x) - 1 \<and>
        walk_to (succs g excl) s (xp_exitNode x) (xp_path x) \<and>
        (\<forall>p'. walk_to (succs g excl) s (xp_exitNode x) p' \<longrightarrow> length (xp_path x) \<le> length p')) \<and>
    (length qs < n \<longrightarrow> (\<forall>v p'. walk_to (succs g excl) s v p' \<and> exit_goal g s v \<longrightarrow> v \<in> xp_exitNode ` set qs))"
  using assms
proof (induction "card (universe g s - set V) + length Q" arbitrary: V Q ps rule: less_induct)
  case less
  note inv = less.prems(1)
  consider "Q = []" | "Q \<noteq> []" "n \<le> length ps" | "Q \<noteq> []" "length ps < n" by linarith
  then show ?case
  proof cases
    case 1
    then show ?thesis
      using less.prems gs.bfs_inv_empty [of g excl s "set V"] by (auto simp: all_exits_loop_step)
  next
    case 2
    then show ?thesis
      using less.prems by (cases Q) (auto simp: all_exits_loop_step)
  next
    case 3
    obtain p Q1 where Q: "Q = p # Q1" using 3 by (cases Q) auto
    note inv = inv [unfolded Q]
    define qs where "qs = (if exit_goal g s (last p)
        then ps @ [\<lparr>xp_path = p, xp_exitNode = last p, xp_hops = length p - 1\<rparr>] else ps)"
    have p: "walk_to (succs g excl) s (last p) p" "last p \<in> set V" "last p \<notin> last ` set Q1"
        "\<forall>p'. walk_to (succs g excl) s (last p) p' \<longrightarrow> length p \<le> length p'"
      using inv by (simp_all add: gs.bfs_inv_def)
    have qs: "distinct (map xp_exitNode qs)" "length qs \<le> n"
        "\<forall>x \<in> set qs. exit_goal g s (xp_exitNode x) \<and> xp_hops x = length (xp_path x) - 1 \<and>
        walk_to (succs g excl) s (xp_exitNode x) (xp_path x) \<and>
        (\<forall>p'. walk_to (succs g excl) s (xp_exitNode x) p' \<longrightarrow> length (xp_path x) \<le> length p')"
      using less.prems(3-5) p 3(2) by (auto simp: qs_def Q)
    obtain new where new: "expand p excl (getNeighbors g (last p)) (V, Q1) = (V @ new, Q1 @ map (\<lambda>v. p @ [v]) new)"
        "set new = succs g excl (last p) - set V" "distinct new"
      using expand_new [of p excl "getNeighbors g (last p)" V Q1] by (auto simp: succs_def)
    show ?thesis
    proof (cases "exit_goal g s (last p) \<and> n \<le> length qs")
      case True
      then have "all_exits_loop g s n excl V Q ps = Some qs"
        using all_exits_loop_step(3) [OF 3(2) qs_def] Q by simp
      then show ?thesis using qs True by auto
    next
      case False
      have loop: "all_exits_loop g s n excl V Q ps =
          all_exits_loop g s n excl (V @ new) (Q1 @ map (\<lambda>v. p @ [v]) new) qs"
        using all_exits_loop_step(3) [OF 3(2) qs_def, of excl V Q1] False Q new(1) by simp
      show ?thesis
        unfolding loop
      proof (rule less.hyps)
        show "card (universe g s - set (V @ new)) + length (Q1 @ map (\<lambda>v. p @ [v]) new)
            < card (universe g s - set V) + length Q"
          using gs.bfs_measure [OF inv new(2,3)] Q by simp
        show "gs.bfs_inv g excl s (set (V @ new)) (Q1 @ map (\<lambda>v. p @ [v]) new)"
          using gs.bfs_inv_step [OF inv new(2,3)] by simp
        show "\<forall>u\<in>set (V @ new). u \<notin> last ` set (Q1 @ map (\<lambda>v. p @ [v]) new) \<longrightarrow>
            exit_goal g s u \<longrightarrow> u \<in> xp_exitNode ` set qs"
          using less.prems(2) Q by (auto simp: image_Un image_image qs_def)
        show "\<forall>x\<in>set qs. xp_exitNode x \<in> set (V @ new) \<and> xp_exitNode x \<notin> last ` set (Q1 @ map (\<lambda>v. p @ [v]) new)"
          using less.prems(3) p(2,3) Q new(2) by (auto simp: image_Un image_image qs_def)
      qed (use qs in auto)
    qed
  qed
qed

section \<open>Dijkstra is correct\<close>

fun walk_cost :: "('n \<Rightarrow> 'n \<Rightarrow> int) \<Rightarrow> 'n list \<Rightarrow> int" where
  "walk_cost w (u # v # p) = w u v + walk_cost w (v # p)"
| "walk_cost w _ = 0"

lemma walk_cost_snoc: "p \<noteq> [] \<Longrightarrow> walk_cost w (p @ [v]) = walk_cost w p + w (last p) v"
  by (induction w p rule: walk_cost.induct) auto

locale weighted_search = finite_search S s U for S :: "'n \<Rightarrow> 'n set" and s U +
  fixes w :: "'n \<Rightarrow> 'n \<Rightarrow> int"
  assumes w_pos: "0 < w u v"
begin

text \<open>
  Between two rounds: \<open>D\<close> is the distance map, \<open>P\<close> the predecessor map, \<open>H\<close> the heap as a
  list of entries, \<open>F\<close> the finished nodes.
\<close>

definition chain :: "('n \<Rightarrow> 'n option) \<Rightarrow> 'n list \<Rightarrow> bool" where
  "chain P p \<longleftrightarrow> p \<noteq> [] \<and> P (hd p) = None \<and> (\<forall>i. Suc i < length p \<longrightarrow> P (p ! Suc i) = Some (p ! i))"

definition dij :: "('n \<Rightarrow> 'n set) \<Rightarrow> 'n set \<Rightarrow> ('n \<Rightarrow> int option) \<Rightarrow> ('n \<Rightarrow> 'n option) \<Rightarrow> (int \<times> 'n) list \<Rightarrow> bool" where
  "dij T F D P H \<longleftrightarrow> F \<subseteq> U \<and> F \<subseteq> dom D \<and> D s = Some 0 \<and> distinct H
     \<and> (\<forall>(c, v) \<in> set H. \<exists>d. D v = Some d \<and> d \<le> c \<and> v \<in> U \<and> (v \<in> F \<longrightarrow> d < c))
     \<and> (\<forall>v d. D v = Some d \<and> v \<notin> F \<longrightarrow> (d, v) \<in> set H)
     \<and> (\<forall>u d c v. u \<in> F \<and> D u = Some d \<and> (c, v) \<in> set H \<longrightarrow> d \<le> c)
     \<and> (\<forall>u d v. u \<in> F \<and> D u = Some d \<and> v \<in> T u \<longrightarrow> (\<exists>e. D v = Some e \<and> e \<le> d + w u v))
     \<and> (\<forall>v d. D v = Some d \<longrightarrow> (\<exists>p. walk_to S s v p \<and> walk_cost w p = d \<and> chain P p \<and> set (butlast p) \<subseteq> F))"

text \<open>\<open>T u\<close> is the part of the successors of a finished node that has been relaxed.\<close>

abbreviation dij_inv :: "'n set \<Rightarrow> ('n \<Rightarrow> int option) \<Rightarrow> ('n \<Rightarrow> 'n option) \<Rightarrow> (int \<times> 'n) list \<Rightarrow> bool" where
  "dij_inv \<equiv> dij S"

lemma dijI:
  assumes "F \<subseteq> U" "F \<subseteq> dom D" "D s = Some 0" "distinct H"
    and "\<And>c v. (c, v) \<in> set H \<Longrightarrow> \<exists>d. D v = Some d \<and> d \<le> c \<and> v \<in> U \<and> (v \<in> F \<longrightarrow> d < c)"
    and "\<And>v d. D v = Some d \<Longrightarrow> v \<notin> F \<Longrightarrow> (d, v) \<in> set H"
    and "\<And>u d c v. u \<in> F \<Longrightarrow> D u = Some d \<Longrightarrow> (c, v) \<in> set H \<Longrightarrow> d \<le> c"
    and "\<And>u d v. u \<in> F \<Longrightarrow> D u = Some d \<Longrightarrow> v \<in> T u \<Longrightarrow> \<exists>e. D v = Some e \<and> e \<le> d + w u v"
    and "\<And>v d. D v = Some d \<Longrightarrow> \<exists>p. walk_to S s v p \<and> walk_cost w p = d \<and> chain P p \<and> set (butlast p) \<subseteq> F"
  shows "dij T F D P H"
  using assms unfolding dij_def by (intro conjI allI impI ballI) (simp_all add: split_beta, blast)

lemma dijD:
  assumes "dij T F D P H"
  shows "F \<subseteq> U" "F \<subseteq> dom D" "D s = Some 0" "distinct H"
    and "\<And>c v. (c, v) \<in> set H \<Longrightarrow> \<exists>d. D v = Some d \<and> d \<le> c \<and> v \<in> U \<and> (v \<in> F \<longrightarrow> d < c)"
    and "\<And>v d. D v = Some d \<Longrightarrow> v \<notin> F \<Longrightarrow> (d, v) \<in> set H"
    and "\<And>u d c v. u \<in> F \<Longrightarrow> D u = Some d \<Longrightarrow> (c, v) \<in> set H \<Longrightarrow> d \<le> c"
    and "\<And>u d v. u \<in> F \<Longrightarrow> D u = Some d \<Longrightarrow> v \<in> T u \<Longrightarrow> \<exists>e. D v = Some e \<and> e \<le> d + w u v"
    and "\<And>v d. D v = Some d \<Longrightarrow> \<exists>p. walk_to S s v p \<and> walk_cost w p = d \<and> chain P p \<and> set (butlast p) \<subseteq> F"
  using assms unfolding dij_def by (simp_all add: split_beta) fastforce+

lemma chain_snoc:
  assumes "chain P p" "P v = Some (last p)"
  shows "chain P (p @ [v])"
  unfolding chain_def
proof (intro conjI allI impI)
  fix i
  assume "Suc i < length (p @ [v])"
  then consider "Suc i < length p" | "i = length p - 1" "Suc i = length p" using assms(1) by (fastforce simp: chain_def)
  then show "P ((p @ [v]) ! Suc i) = Some ((p @ [v]) ! i)"
    using assms by cases (auto simp: chain_def nth_append last_conv_nth)
qed (use assms in \<open>auto simp: chain_def\<close>)

lemma chain_update:
  assumes "chain P p" "x \<notin> set p"
  shows "chain (P(x := y)) p"
  using assms by (auto simp: chain_def dest: nth_mem hd_in_set)

lemma walk_set: "walk_to S s y p \<Longrightarrow> set (butlast p) \<subseteq> F \<Longrightarrow> set p \<subseteq> insert y F"
  using walk_nonempty [of S p] by (cases p rule: rev_cases) (auto simp: walk_to_def)

text \<open>
  Every walk is at least as long as the distance of its end, or as some entry of the heap.
\<close>

lemma dij_frontier:
  assumes inv: "dij_inv F D P H" and "walk_to S s v p"
  shows "(\<exists>d. D v = Some d \<and> d \<le> walk_cost w p) \<or> (\<exists>(c, x) \<in> set H. c \<le> walk_cost w p)"
  using assms(2)
proof (induction rule: walk_to_induct)
  case single
  then show ?case using inv by (simp add: dij_def)
next
  case (snoc u p v)
  have cost: "walk_cost w (p @ [v]) = walk_cost w p + w u v"
    using snoc(1) walk_nonempty [of S p] walk_cost_snoc [of p w v] by (auto simp: walk_to_def)
  consider d where "D u = Some d" "d \<le> walk_cost w p" "u \<in> F" | d where "D u = Some d" "d \<le> walk_cost w p" "u \<notin> F"
    | c x where "(c, x) \<in> set H" "c \<le> walk_cost w p" using snoc.IH by blast
  then show ?case
  proof cases
    case 1
    then obtain e where "D v = Some e" "e \<le> d + w u v" using inv snoc(2) unfolding dij_def by blast
    then show ?thesis using 1 cost by fastforce
  next
    case 2
    then have "(d, u) \<in> set H" using inv unfolding dij_def by blast
    then show ?thesis using 2 cost w_pos [of u v] by force
  next
    case 3
    then show ?thesis using cost w_pos [of u v] by force
  qed
qed

lemma dij_minimal:
  assumes inv: "dij_inv F D P H" and "(c, x) \<in> set H" "\<forall>(c', y) \<in> set H. c \<le> c'"
    and "walk_to S s v p" "v \<notin> F"
  shows "c \<le> walk_cost w p"
  using dij_frontier [OF inv assms(4)]
proof (elim disjE exE conjE)
  fix d
  assume d: "D v = Some d" "d \<le> walk_cost w p"
  then have "(d, v) \<in> set H" using inv assms(5) unfolding dij_def by blast
  then show ?thesis using assms(3) d(2) by force
qed (use assms(3) in force)

lemma dij_head:
  assumes inv: "dij_inv F D P H" and "(c, x) \<in> set H" "\<forall>(c', y) \<in> set H. c \<le> c'" "x \<notin> F"
  shows "D x = Some c \<and> (\<exists>p. walk_to S s x p \<and> walk_cost w p = c \<and> chain P p)"
proof -
  obtain d where d: "D x = Some d" "d \<le> c" using inv assms(2) unfolding dij_def by fastforce
  then have "(d, x) \<in> set H" using inv assms(4) unfolding dij_def by blast
  then have "c = d" using assms(3) d(2) by force
  then show ?thesis using inv d(1) unfolding dij_def by blast
qed

lemma dij_empty:
  assumes "dij_inv F D P []" "walk_to S s v p"
  shows "v \<in> F"
proof -
  obtain d where "D v = Some d" using dij_frontier [OF assms] by auto
  then show ?thesis using assms(1) unfolding dij_def by fastforce
qed

lemma dij_start: "dij_inv {} [s \<mapsto> 0] Map.empty [(0, s)]"
proof -
  have "walk_to S s s [s] \<and> walk_cost w [s] = 0 \<and> chain Map.empty [s] \<and> set (butlast [s]) \<subseteq> {}"
    by (simp add: chain_def)
  then show ?thesis
    using start_U unfolding dij_def by (auto intro!: exI [of _ "[s]"] split: if_splits)
qed

lemma walk_cost_nonneg: "0 \<le> walk_cost w p"
  using w_pos by (induction w p rule: walk_cost.induct) (auto intro: add_nonneg_nonneg less_imp_le)

lemma dij_pop_stale:
  assumes inv: "dij_inv F D P H0" and "set H0 = insert (c, x) (set H)" "distinct H" "D x = Some d" "d < c"
  shows "dij_inv F D P H"
proof (rule dijI)
  show "(e, v) \<in> set H" if "D v = Some e" "v \<notin> F" for v e
    using dijD(6) [OF inv that] assms that by auto
  show "e \<le> c'" if "u \<in> F" "D u = Some e" "(c', v) \<in> set H" for u e c' v
    using dijD(7) [OF inv that(1,2), of c' v] assms(2) that(3) by simp
qed (use dijD [OF inv] assms(2,3) in simp_all)

lemma dij_pop:
  assumes inv: "dij_inv F D P H0" and H0: "set H0 = insert (c, x) (set H)" "distinct H" "(c, x) \<notin> set H"
    and min: "\<forall>(c', y) \<in> set H0. c \<le> c'" and x: "x \<notin> F"
  shows "dij (S(x := {})) (insert x F) D P H"
proof (rule dijI)
  have c: "(c, x) \<in> set H0" using H0 by simp
  have Dx: "D x = Some c" using dij_head [OF inv c min x] by simp
  show "insert x F \<subseteq> U" "insert x F \<subseteq> dom D"
    using dijD(1,2) [OF inv] dijD(5) [OF inv c] by auto
  show "\<exists>d. D v = Some d \<and> d \<le> c' \<and> v \<in> U \<and> (v \<in> insert x F \<longrightarrow> d < c')" if h: "(c', v) \<in> set H" for c' v
  proof -
    have "c \<le> c'" using min H0 h by auto
    moreover have "v = x \<Longrightarrow> c' \<noteq> c" using h H0(3) by auto
    moreover have "(c', v) \<in> set H0" using h H0(1) by simp
    ultimately show ?thesis using dijD(5) [OF inv, of c' v] Dx by force
  qed
  show "(d, v) \<in> set H" if "D v = Some d" "v \<notin> insert x F" for v d
    using dijD(6) [OF inv that(1)] that(2) H0(1) by auto
  show "d \<le> c'" if "u \<in> insert x F" "D u = Some d" "(c', v) \<in> set H" for u d c' v
    using that Dx min H0(1) dijD(7) [OF inv, of u d c' v] by (cases "u = x") auto
  show "\<exists>e. D v = Some e \<and> e \<le> d + w u v" if "u \<in> insert x F" "D u = Some d" "v \<in> (S(x := {})) u" for u d v
    using that dijD(8) [OF inv] by (auto split: if_splits)
  show "\<exists>p. walk_to S s v p \<and> walk_cost w p = d \<and> chain P p \<and> set (butlast p) \<subseteq> insert x F"
    if "D v = Some d" for v d
    using dijD(9) [OF inv that] by blast
qed (use dijD(3) [OF inv] H0 in auto)

lemma dij_relax_path:
  assumes inv: "dij T F D P H" and x: "x \<in> F" "D x = Some c" and v: "v \<in> S x" "v \<notin> F"
    and y: "(D(v \<mapsto> c + w x v)) y = Some d"
  shows "\<exists>p. walk_to S s y p \<and> walk_cost w p = d \<and> chain (P(v \<mapsto> x)) p \<and> set (butlast p) \<subseteq> F"
proof (cases "y = v")
  case True
  obtain p where p: "walk_to S s x p" "walk_cost w p = c" "chain P p" "set (butlast p) \<subseteq> F"
    using dijD(9) [OF inv x(2)] by blast
  have F: "set p \<subseteq> F" using walk_set [OF p(1,4)] x(1) by auto
  have last: "p \<noteq> []" "last p = x" using p(1) walk_nonempty by (auto simp: walk_to_def)
  have "chain (P(v \<mapsto> x)) (p @ [v])"
    using chain_update [OF p(3), of v] F v(2) last(2) by (intro chain_snoc) auto
  moreover have "walk_cost w (p @ [v]) = d"
    using walk_cost_snoc [of p w v] p(2) last y True by simp
  ultimately show ?thesis
    using True walk_to_snoc [OF p(1) v(1)] F by (intro exI [of _ "p @ [v]"]) simp
next
  case False
  then obtain p where p: "walk_to S s y p" "walk_cost w p = d" "chain P p" "set (butlast p) \<subseteq> F"
    using dijD(9) [OF inv, of y d] y by auto
  have "v \<notin> set p" using walk_set [OF p(1,4)] False v(2) by auto
  then show ?thesis using p chain_update [OF p(3)] by blast
qed

lemma dij_relax:
  assumes inv: "dij T F D P H" and x: "x \<in> F" "D x = Some c" and done_le: "\<forall>u \<in> F. \<forall>d. D u = Some d \<longrightarrow> d \<le> c"
    and v: "v \<in> S x" and better: "case D v of Some d \<Rightarrow> c + w x v < d | None \<Rightarrow> True"
  shows "dij (T(x := insert v (T x))) F (D(v \<mapsto> c + w x v)) (P(v \<mapsto> x)) (H @ [(c + w x v, v)]) \<and> v \<notin> F"
proof -
  define n where "n = c + w x v"
  have n: "c < n" "0 \<le> c"
    using w_pos [of x v] dijD(9) [OF inv x(2)] walk_cost_nonneg by (auto simp: n_def)
  have old: "n < d" if "D v = Some d" for d using better that by (simp add: n_def)
  have vF: "v \<notin> F"
  proof
    assume "v \<in> F"
    then obtain d where "D v = Some d" using dijD(2) [OF inv] by blast
    then show False using old [of d] done_le \<open>v \<in> F\<close> n(1) by fastforce
  qed
  have "v \<noteq> s" using old [of 0] dijD(3) [OF inv] n by auto
  have vU: "v \<in> U" using v x(1) dijD(1) [OF inv] closed_U by auto
  have fresh: "(n, v) \<notin> set H"
  proof
    assume "(n, v) \<in> set H"
    then show False using dijD(5) [OF inv, of n v] old by force
  qed
  have "dij (T(x := insert v (T x))) F (D(v \<mapsto> n)) (P(v \<mapsto> x)) (H @ [(n, v)])"
  proof (rule dijI)
    show "\<exists>d. (D(v \<mapsto> n)) y = Some d \<and> d \<le> c' \<and> y \<in> U \<and> (y \<in> F \<longrightarrow> d < c')"
      if "(c', y) \<in> set (H @ [(n, v)])" for c' y
    proof (cases "(c', y) \<in> set H")
      case True
      then obtain d where "D y = Some d" "d \<le> c'" "y \<in> U" "y \<in> F \<longrightarrow> d < c'" using dijD(5) [OF inv] by blast
      then show ?thesis using old [of d] vF by (cases "y = v") auto
    qed (use that vU vF in auto)
    show "(d, y) \<in> set (H @ [(n, v)])" if "(D(v \<mapsto> n)) y = Some d" "y \<notin> F" for y d
      using that dijD(6) [OF inv, of y d] by (cases "y = v") auto
    show "d \<le> c'" if "u \<in> F" "(D(v \<mapsto> n)) u = Some d" "(c', y) \<in> set (H @ [(n, v)])" for u d c' y
    proof -
      have "D u = Some d" using that(1,2) vF by (auto split: if_splits)
      then show ?thesis using dijD(7) [OF inv that(1)] done_le that(1,3) n(1) by fastforce
    qed
    show "\<exists>e. (D(v \<mapsto> n)) y = Some e \<and> e \<le> d + w u y"
      if uy: "u \<in> F" "(D(v \<mapsto> n)) u = Some d" "y \<in> (T(x := insert v (T x))) u" for u d y
    proof (cases "u = x \<and> y = v")
      case True
      then show ?thesis using uy x(2) vF by (auto simp: n_def split: if_splits)
    next
      case False
      then have "D u = Some d" "y \<in> T u" using uy vF by (auto split: if_splits)
      then obtain e where "D y = Some e" "e \<le> d + w u y" using dijD(8) [OF inv uy(1)] by blast
      then show ?thesis using old [of e] by (cases "y = v") auto
    qed
    show "\<exists>p. walk_to S s y p \<and> walk_cost w p = d \<and> chain (P(v \<mapsto> x)) p \<and> set (butlast p) \<subseteq> F"
      if "(D(v \<mapsto> n)) y = Some d" for y d
      using dij_relax_path [OF inv x v vF] that by (simp add: n_def)
  qed (use dijD(1-4) [OF inv] fresh \<open>v \<noteq> s\<close> in auto)
  then show ?thesis using vF by (simp add: n_def)
qed

lemma dij_relax_keep:
  assumes inv: "dij T F D P H" and x: "D x = Some c" and d: "D v = Some d" "d \<le> c + w x v"
  shows "dij (T(x := insert v (T x))) F D P H"
proof (rule dijI)
  show "\<exists>f. D y = Some f \<and> f \<le> e + w u y"
    if "u \<in> F" "D u = Some e" "y \<in> (T(x := insert v (T x))) u" for u e y
    using that dijD(8) [OF inv that(1,2)] x d by (auto split: if_splits)
qed (use dijD [OF inv] in simp_all)

lemma chain_butlast:
  assumes "chain P (p @ [v])" "p \<noteq> []"
  shows "chain P p" "P v = Some (last p)"
proof -
  have link: "P ((p @ [v]) ! Suc i) = Some ((p @ [v]) ! i)" if "i < length p" for i
    using assms(1) that by (simp add: chain_def)
  show "P v = Some (last p)"
    using link [of "length p - 1"] assms(2) by (simp add: nth_append last_conv_nth)
  have "P (p ! Suc i) = Some (p ! i)" if "Suc i < length p" for i
    using link [of i] that by (simp add: nth_append)
  then show "chain P p" using assms by (auto simp: chain_def)
qed

end

lemma edge_weight_pos: "0 < edge_weight g u v"
  by (simp add: edge_weight_def DEFAULT_LATENCY_def split: option.splits)

interpretation gw: weighted_search "succs g excl" s "universe g s" "edge_weight g" for g excl s
  by unfold_locales (rule edge_weight_pos)

abbreviation dinv :: "graph \<Rightarrow> node_id list \<Rightarrow> node_id \<Rightarrow> (node_id \<Rightarrow> node_id set) \<Rightarrow> node_id set \<Rightarrow> search \<Rightarrow> bool" where
  "dinv g excl s T F st \<equiv> gw.dij g excl s T F (map_of (s_dist st)) (map_of (s_prev st)) (s_heap st)"

lemma trace_back_chain: "gw.chain (map_of prev) p \<Longrightarrow> trace_back prev (last p) acc = Some (p @ acc)"
proof (induction p arbitrary: acc rule: rev_induct)
  case Nil
  then show ?case by (simp add: gw.chain_def)
next
  case (snoc v p)
  show ?case
  proof (cases "p = []")
    case True
    then show ?thesis using snoc.prems by (subst trace_back.simps) (simp add: gw.chain_def)
  next
    case False
    then show ?thesis
      using gw.chain_butlast [OF snoc.prems] snoc.IH [of "v # acc"] by (subst trace_back.simps) simp
  qed
qed

lemma relax_step:
  assumes inv: "dinv g excl s T F st" and x: "x \<in> F" "map_of (s_dist st) x = Some c"
    and le: "\<forall>u \<in> F. \<forall>d. map_of (s_dist st) u = Some d \<longrightarrow> d \<le> c" and nb: "nb \<in> set (getNeighbors g x)"
  shows "dinv g excl s (T(x := T x \<union> ({nb} - set excl))) F (relax g excl c x nb st)
     \<and> (\<forall>u \<in> F. map_of (s_dist (relax g excl c x nb st)) u = map_of (s_dist st) u)"
proof -
  define better where "better = (case map_of (s_dist st) nb of Some d \<Rightarrow> c + edge_weight g x nb < d | None \<Rightarrow> True)"
  consider "nb \<in> set excl" | "nb \<notin> set excl" "better" | "nb \<notin> set excl" "\<not> better" by blast
  then show ?thesis
  proof cases
    case 1
    then show ?thesis using inv by (simp add: relax_def)
  next
    case 2
    then have "nb \<in> succs g excl x" using nb by (simp add: succs_def)
    from gw.dij_relax [OF inv x le this] 2 show ?thesis
      by (auto simp: relax_def Let_def update_conv' better_def [symmetric] insert_Diff_if)
  next
    case 3
    then obtain d where "map_of (s_dist st) nb = Some d" "d \<le> c + edge_weight g x nb"
      by (auto simp: better_def split: option.splits)
    from gw.dij_relax_keep [OF inv x(2) this] 3 show ?thesis
      by (auto simp: relax_def Let_def better_def [symmetric] insert_Diff_if)
  qed
qed

lemma relax_fold:
  "dinv g excl s T F st \<Longrightarrow> x \<in> F \<Longrightarrow> map_of (s_dist st) x = Some c \<Longrightarrow>
   \<forall>u \<in> F. \<forall>d. map_of (s_dist st) u = Some d \<longrightarrow> d \<le> c \<Longrightarrow> set nbs \<subseteq> set (getNeighbors g x) \<Longrightarrow>
   dinv g excl s (T(x := T x \<union> (set nbs - set excl))) F (fold (relax g excl c x) nbs st)"
proof (induction nbs arbitrary: T st)
  case Nil
  then show ?case by simp
next
  case (Cons nb nbs)
  define st1 where "st1 = relax g excl c x nb st"
  define T1 where "T1 = T(x := T x \<union> ({nb} - set excl))"
  have 1: "dinv g excl s T1 F st1" "\<And>u. u \<in> F \<Longrightarrow> map_of (s_dist st1) u = map_of (s_dist st) u"
    using relax_step [OF Cons.prems(1-4), of nb] Cons.prems(5) by (simp_all add: st1_def T1_def)
  have "dinv g excl s (T1(x := T1 x \<union> (set nbs - set excl))) F (fold (relax g excl c x) nbs st1)"
    using Cons.prems 1 by (intro Cons.IH) auto
  moreover have "T1(x := T1 x \<union> (set nbs - set excl)) = T(x := T x \<union> (set (nb # nbs) - set excl))"
    by (rule ext) (auto simp: T1_def)
  ultimately show ?case by (simp only: st1_def fold_simps(2) comp_apply)
qed

definition dijkstra_ok :: "graph \<Rightarrow> (node_id \<Rightarrow> bool) \<Rightarrow> node_id list \<Rightarrow> node_id \<Rightarrow>
    (node_id list \<times> node_id \<times> int) option option \<Rightarrow> bool" where
  "dijkstra_ok g goal excl s r \<longleftrightarrow>
     (\<exists>p v c. r = Some (Some (p, v, c)) \<and> goal v \<and> walk_to (succs g excl) s v p \<and> walk_cost (edge_weight g) p = c \<and>
        (\<forall>v' p'. walk_to (succs g excl) s v' p' \<and> goal v' \<longrightarrow> c \<le> walk_cost (edge_weight g) p'))
   \<or> (r = Some None \<and> (\<forall>v p. walk_to (succs g excl) s v p \<longrightarrow> \<not> goal v))"

lemma dijkstra_loop_step:
  "sort_key fst (s_heap st) = [] \<Longrightarrow> dijkstra_loop g goal excl st = Some None"
  "sort_key fst (s_heap st) = (c, x) # H \<Longrightarrow> goal x \<Longrightarrow>
   dijkstra_loop g goal excl st = (case trace_back (s_prev st) x [] of
       None \<Rightarrow> None | Some path \<Rightarrow> Some (Some (path, x, c)))"
  "sort_key fst (s_heap st) = (c, x) # H \<Longrightarrow> \<not> goal x \<Longrightarrow> map_of (s_dist st) x = Some d \<Longrightarrow>
   dijkstra_loop g goal excl st = (if d < c then dijkstra_loop g goal excl (st\<lparr>s_heap := H\<rparr>)
     else dijkstra_loop g goal excl (fold (relax g excl c x) (getNeighbors g x) (st\<lparr>s_heap := H\<rparr>)))"
  by (subst dijkstra_loop.simps, simp)+

lemma dijkstra_loop_correct:
  "dinv g excl s (succs g excl) F st \<Longrightarrow> \<forall>u \<in> F. \<not> goal u \<Longrightarrow>
   dijkstra_ok g goal excl s (dijkstra_loop g goal excl st)"
proof (induction "(F, st)" arbitrary: F st
    rule: wf_induct_rule [OF wf_measures [of "[\<lambda>(F, st). card (universe g s - F), \<lambda>(F, st). length (s_heap st)]"]])
  case (1 F st)
  note IH = "1.hyps" and inv = "1.prems"(1) and ng = "1.prems"(2)
  show ?case
  proof (cases "sort_key fst (s_heap st)")
    case Nil
    then have "s_heap st = []" by (metis length_0_conv length_sort)
    then show ?thesis
      using gw.dij_empty [of g excl s F "map_of (s_dist st)" "map_of (s_prev st)"] inv ng dijkstra_loop_step(1) [OF Nil]
      by (auto simp: dijkstra_ok_def)
  next
    case (Cons cx H)
    obtain c x where cx: "cx = (c, x)" by (cases cx)
    note head = Cons [unfolded cx]
    have heap: "set (s_heap st) = insert (c, x) (set H)" "length (s_heap st) = Suc (length H)"
      using head by (metis set_sort list.set(2), metis length_sort length_Cons)
    have dist: "distinct ((c, x) # H)" using gw.dijD(4) [OF inv] head by (metis distinct_sort)
    have "sorted (map fst ((c, x) # H))" by (metis head sorted_sort_key)
    then have min: "\<forall>(c', y) \<in> set (s_heap st). c \<le> c'" using heap(1) by auto
    have mem: "(c, x) \<in> set (s_heap st)" using heap(1) by simp
    obtain d where d: "map_of (s_dist st) x = Some d" "d \<le> c" "x \<in> F \<longrightarrow> d < c" "x \<in> universe g s"
      using gw.dijD(5) [OF inv mem] by blast
    show ?thesis
    proof (cases "goal x")
      case True
      then have "x \<notin> F" using ng by blast
      obtain p where p: "walk_to (succs g excl) s x p" "walk_cost (edge_weight g) p = c" "gw.chain (map_of (s_prev st)) p"
        using gw.dij_head [OF inv mem min \<open>x \<notin> F\<close>] by blast
      have "trace_back (s_prev st) x [] = Some p"
        using trace_back_chain [OF p(3), of "[]"] p(1) by (simp add: walk_to_def)
      moreover have "c \<le> walk_cost (edge_weight g) p'" if "walk_to (succs g excl) s v' p'" "goal v'" for v' p'
        using gw.dij_minimal [OF inv mem min that(1)] that(2) ng by blast
      ultimately show ?thesis
        using dijkstra_loop_step(2) [where goal = goal, OF head True] p(1,2) True by (auto simp: dijkstra_ok_def)
    next
      case ngx: False
      note step = dijkstra_loop_step(3) [where goal = goal, OF head ngx d(1)]
      show ?thesis
      proof (cases "d < c")
        case True
        have "dinv g excl s (succs g excl) F (st\<lparr>s_heap := H\<rparr>)"
          using gw.dij_pop_stale [OF inv heap(1) _ d(1) True] dist by simp
        then show ?thesis
          using IH [of F "st\<lparr>s_heap := H\<rparr>"] ng heap(2) True step by simp
      next
        case False
        then have xF: "x \<notin> F" and dc: "d = c" using d by auto
        define st1 where "st1 = fold (relax g excl c x) (getNeighbors g x) (st\<lparr>s_heap := H\<rparr>)"
        have pop: "dinv g excl s ((succs g excl)(x := {})) (insert x F) (st\<lparr>s_heap := H\<rparr>)"
          using gw.dij_pop [OF inv heap(1) _ _ min xF] dist by simp
        have le: "\<forall>u \<in> insert x F. \<forall>e. map_of (s_dist (st\<lparr>s_heap := H\<rparr>)) u = Some e \<longrightarrow> e \<le> c"
          using gw.dijD(7) [OF inv _ _ mem] d(1) dc by auto
        have "dinv g excl s (succs g excl) (insert x F) st1"
          using relax_fold [where nbs = "getNeighbors g x" and x = x, OF pop _ _ le] d(1) dc
          by (simp add: st1_def succs_def [symmetric] fun_upd_idem_iff)
        moreover have "card (universe g s - insert x F) < card (universe g s - F)"
          using d(4) xF gs.finite_U [of g s] by (intro psubset_card_mono) auto
        ultimately show ?thesis
          using IH [of "insert x F" st1] ng ngx False step by (simp add: st1_def)
      qed
    qed
  qed
qed

lemma dijkstra_correct:
  "dijkstra_ok g goal excl s (dijkstra_loop g goal excl (dijkstra_start s))"
  using gw.dij_start [of g excl s]
  by (intro dijkstra_loop_correct [of _ _ _ "{}"]) (simp_all add: dijkstra_start_def)

section \<open>Updates\<close>

definition sym_edges :: "graph \<Rightarrow> bool" where
  "sym_edges g \<longleftrightarrow> (\<forall>a b. hasEdge g a b = hasEdge g b a)"

lemma getNeighbors_ensure [simp]: "getNeighbors (ensure_edges n g) m = getNeighbors g m"
  by (simp add: ensure_edges_def getNeighbors_def split: option.splits)

lemma getNeighbors_add [simp]:
  "getNeighbors (add_neighbor n x g) m = (if m = n then set_add x (getNeighbors g n) else getNeighbors g m)"
  by (simp add: add_neighbor_def getNeighbors_def)

lemma getNeighbors_metrics [simp]: "getNeighbors (updateEdgeMetrics now a b mp g) m = getNeighbors g m"
  by (simp add: updateEdgeMetrics_def getNeighbors_def Let_def)

lemma hasEdge_addEdge:
  "hasEdge (addEdge now a b mp g) x y \<longleftrightarrow> hasEdge g x y \<or> (x = a \<and> y = b) \<or> (x = b \<and> y = a)"
  by (auto simp: hasEdge_def addEdge_def)

lemma getNeighbors_del:
  "getNeighbors (g\<lparr>edges := del_neighbor n x (edges g)\<rparr>) m =
     (if m = n then set_del x (getNeighbors g n) else getNeighbors g m)"
  by (auto simp: getNeighbors_def del_neighbor_def set_del_def split: option.splits)

lemma getNeighbors_cong: "edges g = edges h \<Longrightarrow> getNeighbors g = getNeighbors h"
  by (simp add: getNeighbors_def fun_eq_iff)

lemma hasEdge_removeEdge:
  "hasEdge (removeEdge a b g) x y \<longleftrightarrow> hasEdge g x y \<and> \<not> (x = a \<and> y = b) \<and> \<not> (x = b \<and> y = a)"
proof -
  define h where "h = g\<lparr>edges := del_neighbor a b (edges g)\<rparr>"
  have "getNeighbors (removeEdge a b g) = getNeighbors (h\<lparr>edges := del_neighbor b a (edges h)\<rparr>)"
    by (rule getNeighbors_cong) (simp add: removeEdge_def h_def)
  then show ?thesis
    unfolding hasEdge_def by (simp only: getNeighbors_del) (auto simp: h_def getNeighbors_del)
qed

lemma removeNode_fold:
  "set (getNeighbors (fold (\<lambda>neighbor g. g\<lparr>edges := del_neighbor neighbor n (edges g),
       metrics := map_del (edgeKey n neighbor) (metrics g)\<rparr>) ns g) m) =
   set (getNeighbors g m) - (if m \<in> set ns then {n} else {})"
proof (induction ns arbitrary: g)
  case Nil
  then show ?case by simp
next
  case (Cons k ns)
  define h where "h = g\<lparr>edges := del_neighbor k n (edges g), metrics := map_del (edgeKey n k) (metrics g)\<rparr>"
  have "getNeighbors h = getNeighbors (g\<lparr>edges := del_neighbor k n (edges g)\<rparr>)"
    by (rule getNeighbors_cong) (simp add: h_def)
  then have "set (getNeighbors h m) = set (getNeighbors g m) - (if m = k then {n} else {})"
    by (simp add: getNeighbors_del)
  then show ?case
    unfolding fold_simps(2) comp_apply h_def [symmetric] Cons.IH by auto
qed

lemma hasEdge_removeNode:
  assumes "sym_edges g" "hasNode g n"
  shows "hasEdge (removeNode n g) x y \<longleftrightarrow> hasEdge g x y \<and> x \<noteq> n \<and> y \<noteq> n"
proof -
  define h where "h = fold (\<lambda>neighbor g. g\<lparr>edges := del_neighbor neighbor n (edges g),
      metrics := map_del (edgeKey n neighbor) (metrics g)\<rparr>) (getNeighbors g n) g"
  have "removeNode n g = h\<lparr>nodes := map_del n (nodes h), edges := map_del n (edges h)\<rparr>"
    using assms(2) unfolding removeNode_def hasNode_def h_def Let_def by (simp only: if_False)
  then have "getNeighbors (removeNode n g) x = (if x = n then [] else getNeighbors h x)"
    by (simp add: getNeighbors_def)
  moreover have "set (getNeighbors h x) = set (getNeighbors g x) - (if x \<in> set (getNeighbors g n) then {n} else {})"
    unfolding h_def by (rule removeNode_fold)
  moreover have "n \<in> set (getNeighbors g x) \<longleftrightarrow> x \<in> set (getNeighbors g n)"
    using assms(1) by (simp add: sym_edges_def hasEdge_def)
  ultimately show ?thesis by (auto simp: hasEdge_def)
qed

lemma removeNode_absent: "\<not> hasNode g n \<Longrightarrow> removeNode n g = g"
  by (simp add: removeNode_def hasNode_def)

lemma edgeKey_commute: "edgeKey a b = edgeKey b a"
  by (auto simp: edgeKey_def)

lemma edgeKey_inj:
  assumes "58 \<notin> set a" "58 \<notin> set b" "58 \<notin> set c" "58 \<notin> set d"
  shows "edgeKey a b = edgeKey c d \<longleftrightarrow> (a = c \<and> b = d) \<or> (a = d \<and> b = c)"
  using assms by (auto simp: edgeKey_def append_sep_inj)

lemma json_edges_keys:
  "distinct (map (\<lambda>(a, b, m). edgeKey a b) (json_edges g es seen)) \<and>
   (\<lambda>(a, b, m). edgeKey a b) ` set (json_edges g es seen) = (\<lambda>(a, b). edgeKey a b) ` set es - set seen"
proof (induction g es seen rule: json_edges.induct)
  case (2 g a b es seen)
  then show ?case by (cases "edgeKey a b \<in> set seen") (auto simp: Let_def)
qed simp

section \<open>Properties\<close>

text \<open>(C13) Breadth-first routing: \<open>findShortestPath\<close> always returns. A path it returns leads from
  the first to the second node along edges of the graph, avoids the excluded nodes after the start, and no
  such walk has fewer hops; \<open>null\<close> means that the target is unknown or (for a known start) that no such walk exists.\<close>

theorem findShortestPath_correct:
  assumes "hasNode g a" "hasNode g b" "a \<noteq> b"
  shows "\<exists>r. findShortestPath g a b excl = Some r \<and>
    (case r of Some p \<Rightarrow> walk_to (succs g excl) a b p \<and> (\<forall>p'. walk_to (succs g excl) a b p' \<longrightarrow> length p \<le> length p')
     | None \<Rightarrow> \<forall>p'. \<not> walk_to (succs g excl) a b p')"
  using bfs_correct [OF assms(1), of "\<lambda>cur path. if cur = b then Some path else None" "\<lambda>cur. cur = b"
      "\<lambda>cur path. path" excl] assms(2,3)
  by (auto simp: findShortestPath_def)

definition diamond :: graph where
  "diamond = \<lparr>nodes = map (\<lambda>n. (n, \<lparr>ni_nodeId = n, ni_role = Some (if n = [4] then js ''exit'' else js ''relay''),
       ni_virtualIp = None, ni_publicKey = None, ni_addedAt = 0, ni_fromTopology = True\<rparr>)) [[1], [2], [3], [4]],
     edges = [([1], [[2], [3]]), ([2], [[1], [3]]), ([3], [[1], [2], [4]]), ([4], [[3]])],
     metrics = [(edgeKey [1] [2], \<lparr>em_latency = Some 5, em_isTurnRelay = False, em_updatedAt = 0\<rparr>),
                (edgeKey [2] [3], \<lparr>em_latency = Some 7, em_isTurnRelay = False, em_updatedAt = 0\<rparr>)]\<rparr>"

lemma diamond_node: "hasNode diamond n \<longleftrightarrow> n \<in> {[1], [2], [3], [4]}"
  by (simp add: diamond_def hasNode_def)

theorem findShortestPath_correct_witness:
  "\<exists>r. findShortestPath diamond [1] [4] [[2]] = Some r \<and>
    (case r of Some p \<Rightarrow> walk_to (succs diamond [[2]]) [1] [4] p \<and>
        (\<forall>p'. walk_to (succs diamond [[2]]) [1] [4] p' \<longrightarrow> length p \<le> length p')
     | None \<Rightarrow> \<forall>p'. \<not> walk_to (succs diamond [[2]]) [1] [4] p')"
  by (rule findShortestPath_correct) (simp_all add: diamond_node)

text \<open>(C10) Latency routing to the best exit: from a known node \<open>findPathToNearestExitWeighted\<close> always
  returns, either the exit of minimal total latency (missing or non-positive latencies count 100 ms) with
  a walk of exactly the reported latency that avoids the excluded nodes, or \<open>null\<close> when no exit can be reached.\<close>

theorem nearest_exit_optimal:
  assumes "hasNode g a"
  shows "\<exists>r. findPathToNearestExitWeighted g a excl = Some r \<and>
    (case r of
       Some (p, x, c) \<Rightarrow> exit_goal g a x \<and> walk_to (succs g excl) a x p \<and> walk_cost (edge_weight g) p = c \<and>
         (\<forall>x' p'. walk_to (succs g excl) a x' p' \<and> exit_goal g a x' \<longrightarrow> c \<le> walk_cost (edge_weight g) p')
     | None \<Rightarrow> \<forall>x p. walk_to (succs g excl) a x p \<longrightarrow> \<not> exit_goal g a x)"
  using dijkstra_correct [of g "exit_goal g a" excl a] assms
  by (auto simp: findPathToNearestExitWeighted_def dijkstra_ok_def)

theorem nearest_exit_optimal_witness:
  "\<exists>r. findPathToNearestExitWeighted diamond [1] [] = Some r \<and>
    (case r of
       Some (p, x, c) \<Rightarrow> exit_goal diamond [1] x \<and> walk_to (succs diamond []) [1] x p \<and>
         walk_cost (edge_weight diamond) p = c \<and>
         (\<forall>x' p'. walk_to (succs diamond []) [1] x' p' \<and> exit_goal diamond [1] x' \<longrightarrow> c \<le> walk_cost (edge_weight diamond) p')
     | None \<Rightarrow> \<forall>x p. walk_to (succs diamond []) [1] x p \<longrightarrow> \<not> exit_goal diamond [1] x)"
  by (rule nearest_exit_optimal) (simp add: diamond_node)

text \<open>Latency routing to a given node: \<open>findShortestPathWeighted\<close> always returns, a walk of minimal
  total latency that avoids the excluded nodes, or \<open>null\<close> when there is none.\<close>

theorem weighted_path_optimal:
  assumes "hasNode g b" "a \<noteq> b"
  shows "\<exists>r. findShortestPathWeighted g a b excl = Some r \<and>
    (case r of
       Some p \<Rightarrow> walk_to (succs g excl) a b p \<and>
         (\<forall>p'. walk_to (succs g excl) a b p' \<longrightarrow> walk_cost (edge_weight g) p \<le> walk_cost (edge_weight g) p')
     | None \<Rightarrow> \<forall>p. \<not> walk_to (succs g excl) a b p)"
  using dijkstra_correct [of g "\<lambda>cur. cur = b" excl a] assms
  by (auto simp: findShortestPathWeighted_def dijkstra_ok_def)

theorem weighted_path_optimal_witness:
  "\<exists>r. findShortestPathWeighted diamond [1] [3] [] = Some r \<and>
    (case r of
       Some p \<Rightarrow> walk_to (succs diamond []) [1] [3] p \<and>
         (\<forall>p'. walk_to (succs diamond []) [1] [3] p' \<longrightarrow>
            walk_cost (edge_weight diamond) p \<le> walk_cost (edge_weight diamond) p')
     | None \<Rightarrow> \<forall>p. \<not> walk_to (succs diamond []) [1] [3] p)"
  by (rule weighted_path_optimal) (simp_all add: diamond_node)

text \<open>Multipath candidates: \<open>findAllPathsToExits\<close> always returns at most \<open>maxPaths\<close> entries in
  order of hops, to pairwise different exits, each by a walk with the fewest possible hops; if fewer
  than \<open>maxPaths\<close> are returned, every reachable exit is among them.\<close>

theorem all_exit_paths_correct:
  assumes "hasNode g a"
  shows "\<exists>xs. findAllPathsToExits g a n excl = Some xs \<and> length xs \<le> n \<and> distinct (map xp_exitNode xs) \<and>
    sorted (map xp_hops xs) \<and>
    (\<forall>x \<in> set xs. exit_goal g a (xp_exitNode x) \<and> xp_hops x = length (xp_path x) - 1 \<and>
        walk_to (succs g excl) a (xp_exitNode x) (xp_path x) \<and>
        (\<forall>p'. walk_to (succs g excl) a (xp_exitNode x) p' \<longrightarrow> length (xp_path x) \<le> length p')) \<and>
    (length xs < n \<longrightarrow> (\<forall>v p'. walk_to (succs g excl) a v p' \<and> exit_goal g a v \<longrightarrow> v \<in> xp_exitNode ` set xs))"
proof -
  have "gs.bfs_inv g excl a (set [a]) [[a]]" using gs.bfs_inv_start by simp
  from all_exits_correct [OF this, of "[]" n]
  obtain qs where qs: "all_exits_loop g a n excl [a] [[a]] [] = Some qs" "length qs \<le> n" "distinct (map xp_exitNode qs)"
    "\<forall>x \<in> set qs. exit_goal g a (xp_exitNode x) \<and> xp_hops x = length (xp_path x) - 1 \<and>
        walk_to (succs g excl) a (xp_exitNode x) (xp_path x) \<and>
        (\<forall>p'. walk_to (succs g excl) a (xp_exitNode x) p' \<longrightarrow> length (xp_path x) \<le> length p')"
    "length qs < n \<longrightarrow> (\<forall>v p'. walk_to (succs g excl) a v p' \<and> exit_goal g a v \<longrightarrow> v \<in> xp_exitNode ` set qs)"
    by auto
  have "distinct (map xp_exitNode (sort_key xp_hops qs))"
    using qs(3) by (simp add: distinct_map inj_on_def)
  then show ?thesis
    using qs assms by (intro exI [of _ "sort_key xp_hops qs"]) (simp add: findAllPathsToExits_def)
qed

theorem all_exit_paths_correct_witness:
  "\<exists>xs. findAllPathsToExits diamond [1] 6 [] = Some xs \<and> length xs \<le> 6 \<and> sorted (map xp_hops xs)"
  using all_exit_paths_correct [of diamond "[1]" 6 "[]"] by (auto simp: diamond_node)

text \<open>Edge updates are exact and keep the neighbour sets symmetric: \<open>addEdge\<close> and \<open>removeEdge\<close>
  change just that edge in both directions, and \<open>removeNode\<close> leaves no edge at the removed node
  and every other edge in place.\<close>

theorem edge_updates_symmetric:
  assumes "sym_edges g"
  shows "(sym_edges (addEdge now a b mp g) \<and> sym_edges (removeEdge a b g) \<and> sym_edges (removeNode n g)) \<and>
    (\<forall>x y. hasEdge (addEdge now a b mp g) x y = (hasEdge g x y \<or> {x, y} = {a, b})) \<and>
    (\<forall>x y. hasEdge (removeEdge a b g) x y = (hasEdge g x y \<and> {x, y} \<noteq> {a, b})) \<and>
    (\<forall>x y. hasNode g n \<longrightarrow> hasEdge (removeNode n g) x y = (hasEdge g x y \<and> x \<noteq> n \<and> y \<noteq> n))"
proof -
  have "sym_edges (removeNode n g)"
    using assms hasEdge_removeNode [OF assms, of n] removeNode_absent [of g n]
    by (cases "hasNode g n") (auto simp: sym_edges_def)
  moreover have "sym_edges (addEdge now a b mp g)" "sym_edges (removeEdge a b g)"
    using assms by (auto simp: sym_edges_def hasEdge_addEdge hasEdge_removeEdge)
  ultimately show ?thesis
    using hasEdge_removeNode [OF assms] by (auto simp: hasEdge_removeEdge hasEdge_addEdge doubleton_eq_iff)
qed

theorem edge_updates_symmetric_witness:
  "sym_edges (addEdge 0 [1] [2] no_metrics new_NetworkGraph) \<and>
   hasEdge (addEdge 0 [1] [2] no_metrics new_NetworkGraph) [2] [1]"
proof -
  have "sym_edges new_NetworkGraph"
    by (simp add: sym_edges_def new_NetworkGraph_def hasEdge_def getNeighbors_def)
  from edge_updates_symmetric [OF this, of 0 "[1]" "[2]" no_metrics] show ?thesis
    by (auto simp: insert_commute)
qed

text \<open>A topology snapshot can destroy edges: when it lists a node that the graph knows only
  as the end of an edge (here the local node \<open>[1]\<close>, connected to \<open>[2]\<close> by \<open>addEdge\<close>), \<open>addNode\<close>
  replaces the neighbour set of that node by an empty one. The local edge is then gone in one
  direction, and routing from the local node finds no exit although the exit is a connected peer.\<close>

theorem topology_drops_local_edge:
  "let peer = addNode 0 [2] (no_info\<lparr>ip_role := Some (Some (js ''exit''))\<rparr>) new_NetworkGraph;
       g = addEdge 0 [1] [2] no_metrics peer;
       topology = [([1], \<lparr>ti_role = Some (js ''client''), ti_virtualIp = None, ti_connectedTo = []\<rparr>),
                   ([2], \<lparr>ti_role = Some (js ''exit''), ti_virtualIp = None, ti_connectedTo = []\<rparr>)];
       g' = updateFromTopology 1 topology g in
   hasEdge g [1] [2] \<and> hasEdge g [2] [1] \<and> \<not> hasEdge g' [1] [2] \<and> hasEdge g' [2] [1]
   \<and> findPathToNearestExitWeighted g' [1] [] = Some None"
  by code_simp

text \<open>Serialisation lists every undirected edge exactly once: the edge keys in the output of
  \<open>toJSON\<close> are pairwise different and are exactly the keys of the stored neighbour pairs.\<close>

theorem toJSON_edges_once:
  "distinct (map (\<lambda>(a, b, m). edgeKey a b) (snd (graph_toJSON g))) \<and>
   (\<lambda>(a, b, m). edgeKey a b) ` set (snd (graph_toJSON g)) = {edgeKey a b | a b ns. (a, ns) \<in> set (edges g) \<and> b \<in> set ns}"
  using json_edges_keys [of g "concat (map (\<lambda>(a, bs). map (Pair a) bs) (edges g))" "[]"]
  by (simp add: graph_toJSON_def) force

end
