(* ===== verification/Crypto_Onion.thy ===== *)
theory Crypto_Onion
  imports Packet_Wire
begin

text \<open>
  \<open>src/crypto\<close>: node identities, session key exchange, authenticated encryption and onion
  layers. AES-256-GCM, X25519, Ed25519 and HKDF come from outside the repository; they are
  arguments of the definitions, with their documented laws as the predicates \<open>aead_ok\<close> and
  \<open>dh_ok\<close>. \<open>randomBytes\<close> results are arguments. Base64 is modelled as Node documents it.
\<close>

section \<open>Base64\<close>

fun sextets :: "nat list \<Rightarrow> nat list" where
  "sextets (a # b # c # bs) = a div 4 # (a mod 4 * 16 + b div 16) # (b mod 16 * 4 + c div 64) # c mod 64 # sextets bs"
| "sextets [a, b] = [a div 4, a mod 4 * 16 + b div 16, b mod 16 * 4]"
| "sextets [a] = [a div 4, a mod 4 * 16]"
| "sextets [] = []"

fun from_sextets :: "nat list \<Rightarrow> nat list" where
  "from_sextets (p # q # r # t # ss) =
     (p * 4 + q div 16) # (q mod 16 * 16 + r div 4) # (r mod 4 * 64 + t) # from_sextets ss"
| "from_sextets [p, q, r] = [p * 4 + q div 16, q mod 16 * 16 + r div 4]"
| "from_sextets [p, q] = [p * 4 + q div 16]"
| "from_sextets _ = []"

definition b64_char :: "bool \<Rightarrow> nat \<Rightarrow> nat" where
  "b64_char url n =
     (if n < 26 then 65 + n else if n < 52 then 71 + n else if n < 62 then n - 4
      else if n = 62 then (if url then 45 else 43) else (if url then 95 else 47))"

definition b64_val :: "nat \<Rightarrow> nat option" where
  "b64_val c =
     (if 65 \<le> c \<and> c \<le> 90 then Some (c - 65) else if 97 \<le> c \<and> c \<le> 122 then Some (c - 71)
      else if 48 \<le> c \<and> c \<le> 57 then Some (c + 4)
      else if c = 43 \<or> c = 45 then Some 62 else if c = 47 \<or> c = 95 then Some 63 else None)"

definition to_base64url :: "buffer \<Rightarrow> jsstring" where
  "to_base64url bs = map (b64_char True) (sextets (map unat bs))"

definition to_base64 :: "buffer \<Rightarrow> jsstring" where
  "to_base64 bs = map (b64_char False) (sextets (map unat bs)) @ replicate ((3 - length bs mod 3) mod 3) 61"

text \<open>\<open>Buffer.from(s, 'base64')\<close> accepts both alphabets, stops at padding and skips other characters.\<close>

definition from_base64 :: "jsstring \<Rightarrow> buffer" where
  "from_base64 s = map of_nat (from_sextets (List.map_filter b64_val (takeWhile (\<lambda>c. c \<noteq> 61) s)))"

section \<open>Identity\<close>

definition identity_nodeId :: "buffer \<Rightarrow> jsstring" where
  "identity_nodeId publicKey = take 16 (to_base64url publicKey)"

definition exportPublicKey :: "buffer \<Rightarrow> jsstring" where
  "exportPublicKey publicKey = to_base64 publicKey"

text \<open>\<open>new Identity(privateKey)\<close>: a given key is base64, otherwise 32 random bytes are used.\<close>

record identity =
  i_privateKey :: buffer
  i_publicKey :: buffer

definition new_Identity :: "(buffer \<Rightarrow> buffer) \<Rightarrow> buffer \<Rightarrow> jsstring option \<Rightarrow> identity" where
  "new_Identity getPublicKey random privateKey =
     (let priv = (case privateKey of Some s \<Rightarrow> if s = [] then random else from_base64 s | None \<Rightarrow> random) in
      \<lparr>i_privateKey = priv, i_publicKey = getPublicKey priv\<rparr>)"

definition exportPrivateKey :: "identity \<Rightarrow> jsstring" where
  "exportPrivateKey i = to_base64 (i_privateKey i)"

text \<open>\<open>Identity.verify\<close>: the library may throw, which counts as a failed verification.\<close>

definition identity_verify :: "(buffer \<Rightarrow> buffer \<Rightarrow> buffer \<Rightarrow> bool option) \<Rightarrow> buffer \<Rightarrow> jsstring \<Rightarrow> jsstring \<Rightarrow> bool" where
  "identity_verify verify message signature publicKey =
     (case verify (from_base64 signature) message (from_base64 publicKey) of Some b \<Rightarrow> b | None \<Rightarrow> False)"

section \<open>Authenticated encryption\<close>

definition IV_LENGTH :: nat where "IV_LENGTH = 12"
definition AUTH_TAG_LENGTH :: nat where "AUTH_TAG_LENGTH = 16"

text \<open>\<open>seal key iv plaintext\<close> gives ciphertext and tag, \<open>unseal key iv tag ciphertext\<close> the plaintext if it verifies.\<close>

type_synonym seal = "buffer \<Rightarrow> buffer \<Rightarrow> buffer \<Rightarrow> buffer \<times> buffer"
type_synonym unseal = "buffer \<Rightarrow> buffer \<Rightarrow> buffer \<Rightarrow> buffer \<Rightarrow> buffer option"

definition aead_ok :: "seal \<Rightarrow> unseal \<Rightarrow> bool" where
  "aead_ok seal unseal \<longleftrightarrow>
     (\<forall>k iv p. length (snd (seal k iv p)) = 16 \<and> length (fst (seal k iv p)) = length p) \<and>
     (\<forall>k iv p c t. unseal k iv t c = Some p \<longleftrightarrow> seal k iv p = (c, t))"

definition encrypt :: "seal \<Rightarrow> buffer \<Rightarrow> buffer \<Rightarrow> buffer \<Rightarrow> buffer res" where
  "encrypt seal iv plaintext key =
     (if length key \<noteq> 32 then Inl RangeError
      else case seal key iv plaintext of (encrypted, authTag) \<Rightarrow> Inr (iv @ authTag @ encrypted))"

definition decrypt :: "unseal \<Rightarrow> buffer \<Rightarrow> buffer \<Rightarrow> buffer res" where
  "decrypt unseal ciphertext key =
     (if length ciphertext < IV_LENGTH + AUTH_TAG_LENGTH then Inl (Err ''Invalid ciphertext: too short'')
      else if length key \<noteq> 32 then Inl RangeError
      else case unseal key (subarray 0 IV_LENGTH ciphertext)
                 (subarray IV_LENGTH (IV_LENGTH + AUTH_TAG_LENGTH) ciphertext)
                 (drop (IV_LENGTH + AUTH_TAG_LENGTH) ciphertext) of
             Some p \<Rightarrow> Inr p
           | None \<Rightarrow> Inl (Err ''Unsupported state or unable to authenticate data''))"

section \<open>Onion layers\<close>

definition FLAG_IS_EXIT :: nat where "FLAG_IS_EXIT = 1"
definition FLAG_HAS_NEXT_HOP :: nat where "FLAG_HAS_NEXT_HOP = 2"
definition NODE_ID_SIZE :: nat where "NODE_ID_SIZE = 16"

definition encodeLayer :: "jsstring option \<Rightarrow> bool \<Rightarrow> buffer \<Rightarrow> buffer res" where
  "encodeLayer nextHop isExit payload =
     (let hop = (case nextHop of Some h \<Rightarrow> or_null h | None \<Rightarrow> None);
          flags = (if isExit then FLAG_IS_EXIT else 0) + (if hop \<noteq> None then FLAG_HAS_NEXT_HOP else 0);
          headerSize = 1 + (if hop \<noteq> None then NODE_ID_SIZE else 0);
          layer = Buffer_alloc (headerSize + length payload) in
      ebind (writeUInt8 layer (int flags) 0) (\<lambda>layer.
      case hop of
        None \<Rightarrow> Inr (buf_copy payload layer 1)
      | Some h \<Rightarrow> Inr (buf_copy payload
          (buf_copy (utf8_encode (take NODE_ID_SIZE (padEnd NODE_ID_SIZE 0 h))) layer 1) (1 + NODE_ID_SIZE))))"

record layer =
  l_nextHop :: "jsstring option"
  l_isExit :: bool
  l_payload :: buffer

definition decodeLayer :: "buffer \<Rightarrow> layer res" where
  "decodeLayer data =
     ebind (readUInt8 data 0) (\<lambda>flags.
     let isExit = odd (flags div FLAG_IS_EXIT);
         hasNextHop = odd (flags div FLAG_HAS_NEXT_HOP) in
     Inr (if hasNextHop
       then \<lparr>l_nextHop = Some (strip_nul (utf8_decode (subarray 1 (1 + NODE_ID_SIZE) data))),
             l_isExit = isExit, l_payload = drop (1 + NODE_ID_SIZE) data\<rparr>
       else \<lparr>l_nextHop = None, l_isExit = isExit, l_payload = drop 1 data\<rparr>))"

text \<open>
  \<open>OnionPacketBuilder.build\<close> over the reversed layers; \<open>nextHop\<close> is the node id of the layer
  wrapped before (none for the innermost, which is the exit layer), \<open>ivs\<close> the random IVs.
\<close>

fun build_layers :: "seal \<Rightarrow> buffer list \<Rightarrow> jsstring option \<Rightarrow> (jsstring \<times> buffer) list \<Rightarrow> buffer \<Rightarrow> buffer res" where
  "build_layers seal ivs nextHop [] wrapped = Inr wrapped"
| "build_layers seal ivs nextHop ((nodeId, sessionKey) # layers) wrapped =
     ebind (encodeLayer nextHop (nextHop = None) wrapped) (\<lambda>layer.
     ebind (encrypt seal (hd ivs) layer sessionKey) (\<lambda>wrapped.
     build_layers seal (tl ivs) (Some nodeId) layers wrapped))"

definition createOnionPacket :: "seal \<Rightarrow> buffer list \<Rightarrow> buffer \<Rightarrow> (jsstring \<times> buffer) list \<Rightarrow> buffer res" where
  "createOnionPacket seal ivs payload routeWithKeys = build_layers seal ivs None (rev routeWithKeys) payload"

definition peelOnionLayer :: "unseal \<Rightarrow> buffer \<Rightarrow> buffer \<Rightarrow> layer res" where
  "peelOnionLayer unseal encryptedData sessionKey = ebind (decrypt unseal encryptedData sessionKey) decodeLayer"

text \<open>\<open>OnionRouter.wrap\<close>: the keys are looked up while wrapping; a missing key throws.\<close>

fun wrap_route :: "seal \<Rightarrow> (jsstring \<Rightarrow> buffer option) \<Rightarrow> buffer list \<Rightarrow> jsstring option \<Rightarrow> jsstring list
    \<Rightarrow> buffer \<Rightarrow> buffer res" where
  "wrap_route seal keys ivs nextHop [] wrapped = Inr wrapped"
| "wrap_route seal keys ivs nextHop (nodeId # route) wrapped =
     (case keys nodeId of
        None \<Rightarrow> Inl (Err ''No session key for node'')
      | Some key \<Rightarrow>
          ebind (encodeLayer nextHop (nextHop = None) wrapped) (\<lambda>layer.
          ebind (encrypt seal (hd ivs) layer key) (\<lambda>wrapped.
          wrap_route seal keys (tl ivs) (Some nodeId) route wrapped)))"

definition onion_wrap :: "seal \<Rightarrow> (jsstring \<Rightarrow> buffer option) \<Rightarrow> buffer list \<Rightarrow> buffer \<Rightarrow> jsstring list \<Rightarrow> buffer res" where
  "onion_wrap seal keys ivs payload route =
     (if route = [] then Inr payload else wrap_route seal keys ivs None (rev route) payload)"

section \<open>Sessions\<close>

record session =
  s_privateKey :: buffer
  s_publicKey :: buffer
  s_sessionKey :: "buffer option"
  s_established :: bool

type_synonym sessions = "(jsstring, session) jsmap"

text \<open>X25519 and HKDF: public key of a private key, shared secret (\<open>None\<close> when the library throws), key derivation.\<close>

record key_exchange =
  dh_public :: "buffer \<Rightarrow> buffer"
  dh_shared :: "buffer \<Rightarrow> buffer \<Rightarrow> buffer option"
  dh_kdf :: "buffer \<Rightarrow> buffer"

definition dh_ok :: "key_exchange \<Rightarrow> bool" where
  "dh_ok kx \<longleftrightarrow> (\<forall>a b. length a = 32 \<and> length b = 32 \<longrightarrow>
      (\<exists>z. dh_shared kx a (dh_public kx b) = Some z \<and> dh_shared kx b (dh_public kx a) = Some z))
     \<and> (\<forall>z. length (dh_kdf kx z) = 32)"

definition createSession :: "key_exchange \<Rightarrow> buffer \<Rightarrow> jsstring \<Rightarrow> sessions \<Rightarrow> jsstring \<times> sessions" where
  "createSession kx random peerId ss =
     (let pub = dh_public kx random in
      (to_base64 pub, map_put peerId \<lparr>s_privateKey = random, s_publicKey = pub, s_sessionKey = None,
         s_established = False\<rparr> ss))"

definition completeSession :: "key_exchange \<Rightarrow> jsstring \<Rightarrow> jsstring \<Rightarrow> sessions \<Rightarrow> (buffer \<times> sessions) res" where
  "completeSession kx peerId peerPublicKey ss =
     (case map_get ss peerId of
        None \<Rightarrow> Inl (Err ''No session found for peer'')
      | Some session \<Rightarrow>
          (case dh_shared kx (s_privateKey session) (from_base64 peerPublicKey) of
             None \<Rightarrow> Inl (Err ''invalid public key'')
           | Some secret \<Rightarrow> let key = dh_kdf kx secret in
               Inr (key, map_put peerId (session\<lparr>s_sessionKey := Some key, s_established := True\<rparr>) ss)))"

definition getSessionKey :: "sessions \<Rightarrow> jsstring \<Rightarrow> buffer option" where
  "getSessionKey ss peerId =
     (case map_get ss peerId of Some s \<Rightarrow> if s_established s then s_sessionKey s else None | None \<Rightarrow> None)"

definition hasSession :: "sessions \<Rightarrow> jsstring \<Rightarrow> bool" where
  "hasSession ss peerId = (case map_get ss peerId of Some s \<Rightarrow> s_established s | None \<Rightarrow> False)"

definition removeSession :: "jsstring \<Rightarrow> sessions \<Rightarrow> sessions" where
  "removeSession peerId ss = map_del peerId ss"

definition clear_sessions :: "sessions \<Rightarrow> sessions" where
  "clear_sessions ss = []"

section \<open>Lemmas\<close>

lemma from_sextets_sextets: "\<forall>b \<in> set bs. b < 256 \<Longrightarrow> from_sextets (sextets bs) = bs"
proof (induction bs rule: sextets.induct)
  case (1 a b c bs)
  then have "a div 4 * 4 + (a mod 4 * 16 + b div 16) div 16 = a"
      "(a mod 4 * 16 + b div 16) mod 16 * 16 + (b mod 16 * 4 + c div 64) div 4 = b"
      "(b mod 16 * 4 + c div 64) mod 4 * 64 + c mod 64 = c"
    by auto
  then show ?case using 1 by simp
qed auto

lemma sextets_lt: "\<forall>b \<in> set bs. b < 256 \<Longrightarrow> x \<in> set (sextets bs) \<Longrightarrow> x < 64"
proof (induction bs rule: sextets.induct)
  case (1 a b c bs)
  have "a div 4 < 64" "a mod 4 * 16 + b div 16 < 64" "b mod 16 * 4 + c div 64 < 64"
    using 1(2) mod_less_divisor [of 4 a] mod_less_divisor [of 16 b] by (auto intro!: add_less_le_mono simp: less_Suc_eq_le)
  then show ?case using 1 by auto
next
  case (2 a b)
  have "a div 4 < 64" "a mod 4 * 16 + b div 16 < 64" "b mod 16 * 4 < 64"
    using 2(1) mod_less_divisor [of 4 a] mod_less_divisor [of 16 b] by auto
  then show ?case using 2 by auto
next
  case (3 a)
  have "a div 4 < 64" "a mod 4 * 16 < 64"
    using 3(1) mod_less_divisor [of 4 a] by auto
  then show ?case using 3 by auto
qed simp

lemma b64_val_char: "n < 64 \<Longrightarrow> b64_val (b64_char url n) = Some n"
  by (auto simp: b64_val_def b64_char_def)

lemma b64_char_range: "n < 64 \<Longrightarrow> b64_char url n < 128 \<and> b64_char url n \<noteq> 0 \<and> b64_char url n \<noteq> 61"
  by (auto simp: b64_char_def)

lemma length_sextets: "length (sextets bs) = (length bs * 4 + 2) div 3"
  by (induction bs rule: sextets.induct) auto

lemma map_filter_b64: "\<forall>x \<in> set xs. x < 64 \<Longrightarrow> List.map_filter b64_val (map (b64_char url) xs) = xs"
  by (induction xs) (simp_all add: map_filter_simps b64_val_char)

lemma base64_roundtrip [simp]: "from_base64 (to_base64 bs) = bs"
proof -
  have lt: "\<forall>x \<in> set (sextets (map unat bs)). x < 64"
    using sextets_lt [of "map unat bs"] by auto
  then have "takeWhile (\<lambda>c. c \<noteq> 61) (to_base64 bs) = map (b64_char False) (sextets (map unat bs))"
    unfolding to_base64_def using b64_char_range by (subst takeWhile_append2) (auto simp: takeWhile_replicate)
  moreover have "from_sextets (sextets (map unat bs)) = map unat bs"
    by (rule from_sextets_sextets) auto
  ultimately show ?thesis
    using lt by (simp add: from_base64_def map_filter_b64 comp_def)
qed

lemma identity_id_ok:
  assumes "12 \<le> length pub"
  shows "id_ok (identity_nodeId pub) \<and> length (identity_nodeId pub) = 16"
proof -
  have "\<forall>x \<in> set (sextets (map unat pub)). x < 64"
    using sextets_lt [of "map unat pub"] by auto
  then have "\<forall>c \<in> set (to_base64url pub). c < 128 \<and> c \<noteq> 0"
    using b64_char_range by (auto simp: to_base64url_def)
  moreover have "16 \<le> length (to_base64url pub)"
    using assms by (simp add: to_base64url_def length_sextets)
  ultimately show ?thesis
    by (auto simp: identity_nodeId_def id_ok_def ascii_def dest: in_set_takeD)
qed

subsection \<open>Layers\<close>

definition layer_bytes :: "jsstring option \<Rightarrow> buffer \<Rightarrow> buffer" where
  "layer_bytes nextHop payload =
     (case nextHop of None \<Rightarrow> [1] @ payload | Some h \<Rightarrow> [2] @ node_field h @ payload)"

lemma encodeLayer_bytes:
  assumes "\<forall>h \<in> set_option nextHop. h \<noteq> [] \<and> id_ok h"
  shows "encodeLayer nextHop (nextHop = None) payload = Inr (layer_bytes nextHop payload)"
proof (cases nextHop)
  case None
  have "write_bytes [1] 0 (Buffer_alloc (1 + length payload)) = Inr ([1] @ Buffer_alloc (length payload))"
    using write_bytes_alloc [of 0 "[]" "[1]" "1 + length payload"] by simp
  moreover have "buf_copy payload ([1] @ Buffer_alloc (length payload)) 1 = [1] @ payload"
    using buf_copy_alloc [of 1 "[1]" payload "length payload"] by (simp add: Buffer_alloc_def)
  ultimately show ?thesis
    using None by (simp add: encodeLayer_def layer_bytes_def Let_def FLAG_IS_EXIT_def writeUInt8_def u8_bytes_def)
next
  case (Some h)
  define n where "n = length payload"
  have h: "h \<noteq> []" "id_ok h" using assms Some by auto
  have "write_bytes [2] 0 (Buffer_alloc (17 + n)) = Inr ([2] @ Buffer_alloc (16 + n))"
    using write_bytes_alloc [of 0 "[]" "[2]" "17 + n"] by simp
  moreover have "buf_copy (node_field h) ([2] @ Buffer_alloc (16 + n)) 1 = ([2] @ node_field h) @ Buffer_alloc n"
    using buf_copy_alloc [of 1 "[2]" "node_field h" "16 + n"] h by simp
  moreover have "buf_copy payload (([2] @ node_field h) @ Buffer_alloc n) 17 = [2] @ node_field h @ payload"
    using buf_copy_alloc [of 17 "[2] @ node_field h" payload n] h by (simp add: Buffer_alloc_def n_def)
  moreover have "node_field h = utf8_encode (take 16 (padEnd 16 0 h))"
    by (simp add: node_field_def)
  ultimately show ?thesis
    using Some h(1) by (simp add: encodeLayer_def layer_bytes_def Let_def FLAG_IS_EXIT_def FLAG_HAS_NEXT_HOP_def
        NODE_ID_SIZE_def writeUInt8_def u8_bytes_def or_null_def n_def [symmetric])
qed

lemma decodeLayer_bytes:
  assumes "\<forall>h \<in> set_option nextHop. h \<noteq> [] \<and> id_ok h"
  shows "decodeLayer (layer_bytes nextHop payload) =
    Inr \<lparr>l_nextHop = nextHop, l_isExit = (nextHop = None), l_payload = payload\<rparr>"
proof (cases nextHop)
  case None
  then show ?thesis
    by (simp add: decodeLayer_def layer_bytes_def readUInt8_def FLAG_IS_EXIT_def FLAG_HAS_NEXT_HOP_def)
next
  case (Some h)
  then have h: "id_ok h" using assms by auto
  have "subarray 1 17 ([2] @ node_field h @ payload) = node_field h"
    using subarray_append [of 1 "[2]" 17 "node_field h" payload] h by simp
  moreover have "drop 17 ([2] @ node_field h @ payload) = payload" using h by simp
  ultimately show ?thesis
    using Some h by (simp add: decodeLayer_def layer_bytes_def readUInt8_def FLAG_IS_EXIT_def FLAG_HAS_NEXT_HOP_def
        NODE_ID_SIZE_def)
qed

lemma length_layer_bytes:
  "\<forall>h \<in> set_option nextHop. h \<noteq> [] \<and> id_ok h \<Longrightarrow>
   length (layer_bytes nextHop payload) = (case nextHop of None \<Rightarrow> 1 | Some _ \<Rightarrow> 17) + length payload"
  by (auto simp: layer_bytes_def split: option.splits)

lemma encrypt_decrypt:
  assumes "aead_ok seal unseal" "length iv = 12" "length key = 32"
  shows "\<exists>c. encrypt seal iv p key = Inr c \<and> decrypt unseal c key = Inr p \<and> length c = 28 + length p"
proof -
  obtain e t where et: "seal key iv p = (e, t)" by fastforce
  then have len: "length t = 16" "length e = length p" and open_: "unseal key iv t e = Some p"
    using assms(1) unfolding aead_ok_def by (metis snd_conv, metis fst_conv, blast)
  then have "subarray 0 12 (iv @ t @ e) = iv" "subarray 12 28 (iv @ t @ e) = t" "drop 28 (iv @ t @ e) = e"
    using subarray_append [of 0 "[]" 12 iv "t @ e"] subarray_append [of 12 iv 28 t e] assms(2) by simp_all
  then show ?thesis
    using assms et len open_ by (simp add: encrypt_def decrypt_def IV_LENGTH_def AUTH_TAG_LENGTH_def)
qed

lemma build_layers_append:
  "build_layers seal ivs nh (xs @ ys) w =
     ebind (build_layers seal ivs nh xs w) (\<lambda>w'.
       build_layers seal (drop (length xs) ivs) (if xs = [] then nh else Some (fst (last xs))) ys w')"
proof (induction xs arbitrary: ivs nh w)
  case Nil
  then show ?case by simp
next
  case (Cons x xs)
  obtain n k where x: "x = (n, k)" by (cases x)
  show ?case
    by (cases "encodeLayer nh (nh = None) w"; cases "encrypt seal (hd ivs) (projr (encodeLayer nh (nh = None) w)) k")
      (simp_all add: x Cons.IH drop_Suc)
qed

text \<open>Handing the packet from hop to hop: each hop peels its layer and must be told the next one.\<close>

fun travel :: "unseal \<Rightarrow> (jsstring \<times> buffer) list \<Rightarrow> buffer \<Rightarrow> buffer res" where
  "travel unseal [] data = Inr data"
| "travel unseal [(n, k)] data = ebind (peelOnionLayer unseal data k) (\<lambda>l.
     if l_isExit l \<and> l_nextHop l = None then Inr (l_payload l) else Inl (Err ''misrouted''))"
| "travel unseal ((n, k) # (n', k') # route) data = ebind (peelOnionLayer unseal data k) (\<lambda>l.
     if \<not> l_isExit l \<and> l_nextHop l = Some n' then travel unseal ((n', k') # route) (l_payload l)
     else Inl (Err ''misrouted''))"

definition route_ok :: "(jsstring \<times> buffer) list \<Rightarrow> bool" where
  "route_ok route \<longleftrightarrow> (\<forall>(n, k) \<in> set route. n \<noteq> [] \<and> id_ok n \<and> length k = 32)"

definition ivs_ok :: "buffer list \<Rightarrow> (jsstring \<times> buffer) list \<Rightarrow> bool" where
  "ivs_ok ivs route \<longleftrightarrow> length route \<le> length ivs \<and> (\<forall>iv \<in> set ivs. length iv = 12)"

lemma one_layer:
  assumes "aead_ok seal unseal" "\<forall>h \<in> set_option nh. h \<noteq> [] \<and> id_ok h" "length k = 32" "length (hd ivs) = 12"
  shows "\<exists>c. build_layers seal ivs nh [(n, k)] w = Inr c \<and>
    peelOnionLayer unseal c k = Inr \<lparr>l_nextHop = nh, l_isExit = (nh = None), l_payload = w\<rparr> \<and>
    length c = 28 + (case nh of None \<Rightarrow> 1 | Some _ \<Rightarrow> 17) + length w"
  using encrypt_decrypt [OF assms(1,4,3), of "layer_bytes nh w"] encodeLayer_bytes [OF assms(2), of w]
    decodeLayer_bytes [OF assms(2), of w] length_layer_bytes [OF assms(2), of w]
  by (auto simp: peelOnionLayer_def)

lemma onion_travel:
  assumes "aead_ok seal unseal"
  shows "route_ok route \<Longrightarrow> route \<noteq> [] \<Longrightarrow> ivs_ok ivs route \<Longrightarrow>
    \<exists>pkt. build_layers seal ivs None (rev route) payload = Inr pkt \<and> travel unseal route pkt = Inr payload \<and>
      length pkt + 16 = length payload + 45 * length route"
proof (induction route)
  case Nil
  then show ?case by simp
next
  case (Cons x r)
  obtain n k where x: "x = (n, k)" by (cases x)
  have k: "length k = 32" using Cons.prems(1) x by (simp add: route_ok_def)
  show ?case
  proof (cases r)
    case Nil
    have "length (hd ivs) = 12" using Cons.prems(3) by (cases ivs) (auto simp: ivs_ok_def)
    then show ?thesis
      using one_layer [OF assms _ k, of None ivs n payload] by (auto simp: x Nil)
  next
    case (Cons y r')
    obtain n' k' where y: "y = (n', k')" by (cases y)
    have ok: "route_ok r" "n' \<noteq> []" "id_ok n'" using Cons.prems(1) Cons y by (auto simp: route_ok_def)
    have iv: "ivs_ok ivs r" using Cons.prems(3) by (auto simp: ivs_ok_def)
    obtain w where w: "build_layers seal ivs None (rev r) payload = Inr w" "travel unseal r w = Inr payload"
        "length w + 16 = length payload + 45 * length r"
      using Cons.IH [OF ok(1) _ iv] Cons by auto
    have "hd (drop (length r) ivs) \<in> set ivs"
      using Cons.prems(3) by (simp add: ivs_ok_def hd_drop_conv_nth)
    then have "length (hd (drop (length r) ivs)) = 12" using Cons.prems(3) by (simp add: ivs_ok_def)
    from one_layer [OF assms _ k this, of "Some n'" n w] ok
    obtain c where c: "build_layers seal (drop (length r) ivs) (Some n') [(n, k)] w = Inr c"
        "peelOnionLayer unseal c k = Inr \<lparr>l_nextHop = Some n', l_isExit = False, l_payload = w\<rparr>"
        "length c = 45 + length w" by auto
    have "build_layers seal ivs None (rev (x # r)) payload = Inr c"
      using w(1) c(1) build_layers_append [of seal ivs None "rev r" "[(n, k)]" payload] Cons y x
      by (simp add: last_rev)
    then show ?thesis using c w Cons y x by auto
  qed
qed

lemma wrap_route_build:
  "\<forall>n \<in> set route. keys n \<noteq> None \<Longrightarrow>
   wrap_route seal keys ivs nh route w = build_layers seal ivs nh (map (\<lambda>n. (n, the (keys n))) route) w"
proof (induction route arbitrary: ivs nh w)
  case (Cons a route)
  have "wrap_route seal keys i h route = build_layers seal i h (map (\<lambda>n. (n, the (keys n))) route)" for i h
    using Cons by auto
  then show ?case using Cons.prems by auto
qed simp

lemma wrap_route_missing:
  "n \<in> set route \<Longrightarrow> keys n = None \<Longrightarrow> \<exists>e. wrap_route seal keys ivs nh route w = Inl e"
proof (induction route arbitrary: ivs nh w)
  case (Cons m route)
  show ?case
  proof (cases "keys m")
    case (Some k)
    then have "n \<in> set route" using Cons.prems by auto
    then show ?thesis
      using Cons.IH Cons.prems(2) Some
      by (cases "encodeLayer nh (nh = None) w"; cases "encrypt seal (hd ivs) (projr (encodeLayer nh (nh = None) w)) k")
        auto
  qed simp
qed simp

section \<open>Properties\<close>

text \<open>A cipher that satisfies the laws, for the closed instances below.\<close>

definition demo_seal :: seal where
  "demo_seal k iv p = (p, replicate 16 7)"

definition demo_unseal :: unseal where
  "demo_unseal k iv t c = (if t = replicate 16 7 then Some c else None)"

lemma demo_aead: "aead_ok demo_seal demo_unseal"
  by (auto simp: aead_ok_def demo_seal_def demo_unseal_def)

text \<open>(C2) Onion routing: for every nonempty route of valid node ids and 32-byte keys,
  \<open>createOnionPacket\<close> succeeds; each relay that peels the packet with its key learns exactly the next
  hop and is told that it is not the exit, the last node is told that it is the exit and obtains the
  payload; and the packet has 45 bytes of overhead per hop, less 16 at the exit.\<close>

theorem onion_roundtrip:
  assumes "aead_ok seal unseal" "route_ok route" "route \<noteq> []" "ivs_ok ivs route"
  shows "\<exists>pkt. createOnionPacket seal ivs payload route = Inr pkt \<and> travel unseal route pkt = Inr payload \<and>
    length pkt + 16 = length payload + 45 * length route"
  using onion_travel [OF assms] by (simp add: createOnionPacket_def)

theorem onion_roundtrip_witness:
  "\<exists>pkt. createOnionPacket demo_seal (replicate 2 (replicate 12 0)) [9, 9]
      [(js ''relay-1'', replicate 32 1), (js ''exit-1'', replicate 32 2)] = Inr pkt \<and>
    travel demo_unseal [(js ''relay-1'', replicate 32 1), (js ''exit-1'', replicate 32 2)] pkt = Inr [9, 9] \<and>
    length pkt = 76"
  using onion_roundtrip [OF demo_aead, of "[(js ''relay-1'', replicate 32 1), (js ''exit-1'', replicate 32 2)]"
      "replicate 2 (replicate 12 0)" "[9, 9]"]
  by (auto simp: route_ok_def ivs_ok_def js_def id_ok_def)



text \<open>Authenticated encryption: \<open>decrypt\<close> inverts \<open>encrypt\<close>, and it accepts nothing else: whatever
  it decrypts without throwing is the encryption of the result under the same key.\<close>

theorem decrypt_exactly_encrypted:
  assumes "aead_ok seal unseal" "length key = 32"
  shows "decrypt unseal c key = Inr p \<longleftrightarrow> (\<exists>iv. length iv = 12 \<and> encrypt seal iv p key = Inr c)"
proof
  assume d: "decrypt unseal c key = Inr p"
  then have len: "28 \<le> length c" by (auto simp: decrypt_def IV_LENGTH_def AUTH_TAG_LENGTH_def split: if_splits)
  then have "unseal key (subarray 0 12 c) (subarray 12 28 c) (drop 28 c) = Some p"
    using d assms(2) by (auto simp: decrypt_def IV_LENGTH_def AUTH_TAG_LENGTH_def split: option.splits)
  then have "seal key (subarray 0 12 c) p = (drop 28 c, subarray 12 28 c)"
    using assms(1) by (simp add: aead_ok_def)
  moreover have "subarray 0 12 c @ subarray 12 28 c @ drop 28 c = c"
    using append_take_drop_id [of 16 "drop 12 c"] append_take_drop_id [of 12 c]
    by (simp add: subarray_def drop_take)
  ultimately show "\<exists>iv. length iv = 12 \<and> encrypt seal iv p key = Inr c"
    using len assms(2) by (intro exI [of _ "subarray 0 12 c"]) (simp add: encrypt_def subarray_def)
next
  assume "\<exists>iv. length iv = 12 \<and> encrypt seal iv p key = Inr c"
  then obtain iv where iv: "length iv = 12" "encrypt seal iv p key = Inr c" by blast
  then show "decrypt unseal c key = Inr p" using encrypt_decrypt [OF assms(1) iv(1) assms(2), of p] by simp
qed

theorem decrypt_exactly_encrypted_witness:
  "decrypt demo_unseal (replicate 12 0 @ replicate 16 7 @ [1]) (replicate 32 0) = Inr [1]"
  using decrypt_exactly_encrypted [OF demo_aead, of "replicate 32 0" "replicate 12 0 @ replicate 16 7 @ [1]" "[1]"]
  by (auto simp: encrypt_def demo_seal_def intro: exI [of _ "replicate 12 0"])

text \<open>Session establishment: when two peers create sessions for each other and each completes
  its session with the exported public key of the other, both hold the same established 32-byte key,
  and what one encrypts with it the other decrypts.\<close>

theorem session_agreement:
  assumes "dh_ok kx" "aead_ok seal unseal" "length ra = 32" "length rb = 32" "length iv = 12"
    and "createSession kx ra b sa = (pa, sa1)" "createSession kx rb a sb = (pb, sb1)"
  shows "\<exists>key sa2 sb2. completeSession kx b pb sa1 = Inr (key, sa2) \<and> completeSession kx a pa sb1 = Inr (key, sb2) \<and>
    getSessionKey sa2 b = Some key \<and> getSessionKey sb2 a = Some key \<and> hasSession sa2 b \<and> hasSession sb2 a \<and>
    (\<exists>c. encrypt seal iv p key = Inr c \<and> decrypt unseal c key = Inr p)"
proof -
  obtain z where z: "dh_shared kx ra (dh_public kx rb) = Some z" "dh_shared kx rb (dh_public kx ra) = Some z"
    using assms(1,3,4) unfolding dh_ok_def by blast
  have "length (dh_kdf kx z) = 32" using assms(1) by (simp add: dh_ok_def)
  from encrypt_decrypt [OF assms(2,5) this, of p] show ?thesis
    using assms(6,7) z
    by (auto simp: createSession_def completeSession_def getSessionKey_def hasSession_def Let_def)
qed

definition demo_kx :: key_exchange where
  "demo_kx = \<lparr>dh_public = id, dh_shared = (\<lambda>a b. Some (map2 (+) a b)), dh_kdf = (\<lambda>z. take 32 (z @ replicate 32 0))\<rparr>"

lemma demo_dh: "dh_ok demo_kx"
proof -
  have "map2 (+) a b = map2 (+) b a" for a b :: buffer
    by (induction a b rule: list_induct2') (auto simp: add.commute)
  then show ?thesis by (auto simp: dh_ok_def demo_kx_def)
qed

lemma demo_session: "createSession demo_kx r p ss = (to_base64 r, snd (createSession demo_kx r p ss))"
  by (simp add: createSession_def demo_kx_def Let_def)

theorem session_agreement_witness:
  "\<exists>key sa2 sb2. completeSession demo_kx (js ''b'') (to_base64 (replicate 32 5))
        (snd (createSession demo_kx (replicate 32 3) (js ''b'') [])) = Inr (key, sa2) \<and>
     completeSession demo_kx (js ''a'') (to_base64 (replicate 32 3))
        (snd (createSession demo_kx (replicate 32 5) (js ''a'') [])) = Inr (key, sb2) \<and>
     getSessionKey sa2 (js ''b'') = Some key \<and> getSessionKey sb2 (js ''a'') = Some key"
  using session_agreement [OF demo_dh demo_aead _ _ _ demo_session demo_session, of "replicate 32 3" "replicate 32 5"
      "replicate 12 0" "js ''b''" "[]" "js ''a''" "[]" "[]"] by (simp del: replicate.simps) metis

text \<open>(C40) Node identities fit the wire format: the id of every identity whose public key has at least
  12 bytes is a 16-character ASCII string without NUL, and exporting a private key and importing it
  again gives the same identity.\<close>

theorem identity_wire_safe:
  assumes "12 \<le> length (i_publicKey i)" "i = new_Identity getPublicKey random pk" "i_privateKey i \<noteq> []"
  shows "id_ok (identity_nodeId (i_publicKey i)) \<and> length (identity_nodeId (i_publicKey i)) = 16 \<and>
    new_Identity getPublicKey random' (Some (exportPrivateKey i)) = i"
proof -
  have "to_base64 (i_privateKey i) \<noteq> []"
    using base64_roundtrip [of "i_privateKey i"] assms(3) by (auto simp: from_base64_def map_filter_simps)
  then show ?thesis
    using identity_id_ok [OF assms(1)] assms(2)
    by (cases i) (auto simp: new_Identity_def exportPrivateKey_def Let_def)
qed

theorem identity_wire_safe_witness:
  "id_ok (identity_nodeId (replicate 32 9)) \<and>
   new_Identity (\<lambda>_. replicate 32 9) [] (Some (to_base64 (replicate 32 1))) =
     \<lparr>i_privateKey = replicate 32 1, i_publicKey = replicate 32 9\<rparr>"
  using identity_wire_safe [of "new_Identity (\<lambda>_. replicate 32 9) (replicate 32 1) None" "\<lambda>_. replicate 32 9"
      "replicate 32 1" None "[]"]
  by (simp add: new_Identity_def exportPrivateKey_def)

end
