(* ===== verification/Mesh_Router.thy ===== *)
theory Mesh_Router
  imports Net_Graph Crypto_Onion
begin

text \<open>
  \<open>src/core/router.js\<close>: the \<open>MeshRouter\<close> with its cached active routes, the rebuild from
  the latency searches, route validation, multipath candidates, exit selection and the onion
  packets built over session keys. The searches of \<open>Net_Graph\<close> are proved to return for every
  input (\<open>search_returns\<close>), so their outer option is dropped by \<open>returned\<close>.
\<close>

definition returned :: "'a option option \<Rightarrow> 'a option" where
  "returned r = (case r of Some x \<Rightarrow> x | None \<Rightarrow> None)"

record active_route =
  ar_route :: "node_id list"
  ar_exitNode :: node_id
  ar_latency :: "int option"
  ar_updatedAt :: int
  ar_unavailable :: bool

record cached_route =
  cr_data :: "node_id list"
  cr_timestamp :: int

record router =
  localNodeId :: node_id
  r_graph :: graph
  routeCache :: "(jsstring, cached_route) jsmap"
  routeCacheTTL :: int
  exitNodePreference :: "(node_id, int) jsmap"
  r_sessions :: sessions
  activeRoutes :: "(jsstring, active_route) jsmap"
  r_timer :: bool

definition new_MeshRouter :: "node_id \<Rightarrow> int option \<Rightarrow> sessions \<Rightarrow> router" where
  "new_MeshRouter me ttl ss =
     \<lparr>localNodeId = me, r_graph = new_NetworkGraph, routeCache = [],
      routeCacheTTL = (case ttl of Some t \<Rightarrow> if t = 0 then 30000 else t | None \<Rightarrow> 30000),
      exitNodePreference = [], r_sessions = ss, activeRoutes = [], r_timer = False\<rparr>"

section \<open>Active routes\<close>

definition exit_key :: "jsstring \<Rightarrow> jsstring" where
  "exit_key x = js ''exit:'' @ x"

definition getTurnRelayIds :: "router \<Rightarrow> node_id list" where
  "getTurnRelayIds r =
     filter (\<lambda>n. role_of (r_graph r) n = Some (js ''relay'') \<and>
                 (case getEdgeMetrics (r_graph r) (localNodeId r) n of Some m \<Rightarrow> em_isTurnRelay m | None \<Rightarrow> False))
       (getNeighbors (r_graph r) (localNodeId r))"

definition rebuild_any :: "int \<Rightarrow> node_id list \<Rightarrow> router \<Rightarrow> router" where
  "rebuild_any now excluded r =
     (case returned (findPathToNearestExitWeighted (r_graph r) (localNodeId r) excluded) of
        Some (path, exitNode, latency) \<Rightarrow>
          if length path > 1 then
            r\<lparr>activeRoutes := map_put (exit_key (js ''any''))
                \<lparr>ar_route = tl path, ar_exitNode = exitNode, ar_latency = Some latency,
                 ar_updatedAt = now, ar_unavailable = False\<rparr> (activeRoutes r)\<rparr>
          else r\<lparr>activeRoutes := map_del (exit_key (js ''any'')) (activeRoutes r)\<rparr>
      | None \<Rightarrow> r\<lparr>activeRoutes := map_del (exit_key (js ''any'')) (activeRoutes r)\<rparr>)"

definition rebuild_exit :: "int \<Rightarrow> node_id list \<Rightarrow> node_id \<Rightarrow> router \<Rightarrow> router" where
  "rebuild_exit now excluded x r =
     (case returned (findShortestPathWeighted (r_graph r) (localNodeId r) x excluded) of
        Some path \<Rightarrow>
          if length path > 1 then
            r\<lparr>activeRoutes := map_put (exit_key x)
                \<lparr>ar_route = tl path, ar_exitNode = x, ar_latency = None,
                 ar_updatedAt = now, ar_unavailable = False\<rparr> (activeRoutes r)\<rparr>
          else r\<lparr>activeRoutes := map_del (exit_key x) (activeRoutes r)\<rparr>
      | None \<Rightarrow> r\<lparr>activeRoutes := map_del (exit_key x) (activeRoutes r)\<rparr>)"

definition rebuildActiveRoutes :: "int \<Rightarrow> router \<Rightarrow> router" where
  "rebuildActiveRoutes now r =
     (let excluded = getTurnRelayIds r in
      fold (\<lambda>n. rebuild_exit now excluded (ni_nodeId n)) (getExitNodes (r_graph r)) (rebuild_any now excluded r))"

definition start_router :: "int \<Rightarrow> router \<Rightarrow> router" where
  "start_router now r = rebuildActiveRoutes now (r\<lparr>r_timer := True\<rparr>)"

definition stop_router :: "router \<Rightarrow> router" where
  "stop_router r = r\<lparr>r_timer := False\<rparr>"

definition handlePeerDisconnectedRoutes :: "int \<Rightarrow> node_id \<Rightarrow> router \<Rightarrow> router" where
  "handlePeerDisconnectedRoutes now peerId r =
     (let affected = (\<exists>(key, info) \<in> set (activeRoutes r). peerId \<in> set (ar_route info));
          r = r\<lparr>activeRoutes := map (\<lambda>(key, info). (key,
                 if peerId \<in> set (ar_route info) then info\<lparr>ar_unavailable := True\<rparr> else info)) (activeRoutes r)\<rparr> in
      if affected then rebuildActiveRoutes now r else r)"

definition invalidateRouteCache :: "router \<Rightarrow> router" where
  "invalidateRouteCache r = r\<lparr>routeCache := []\<rparr>"

definition updateTopology :: "int \<Rightarrow> topology \<Rightarrow> router \<Rightarrow> router" where
  "updateTopology now topology r =
     rebuildActiveRoutes now (invalidateRouteCache (r\<lparr>r_graph := updateFromTopology now topology (r_graph r)\<rparr>))"

definition addLocalConnection :: "int \<Rightarrow> node_id \<Rightarrow> info_patch \<Rightarrow> router \<Rightarrow> router" where
  "addLocalConnection now peerId peerInfo r =
     rebuildActiveRoutes now (invalidateRouteCache (r\<lparr>r_graph :=
       addEdge now (localNodeId r) peerId no_metrics (addNode now peerId peerInfo (r_graph r))\<rparr>))"

definition removeLocalConnection :: "int \<Rightarrow> node_id \<Rightarrow> router \<Rightarrow> router" where
  "removeLocalConnection now peerId r =
     handlePeerDisconnectedRoutes now peerId (invalidateRouteCache
       (r\<lparr>r_graph := removeEdge (localNodeId r) peerId (r_graph r)\<rparr>))"

definition router_updateEdgeMetrics :: "int \<Rightarrow> node_id \<Rightarrow> metrics_patch \<Rightarrow> router \<Rightarrow> router" where
  "router_updateEdgeMetrics now peerId mp r =
     r\<lparr>r_graph := updateEdgeMetrics now (localNodeId r) peerId mp (r_graph r)\<rparr>"

section \<open>Route validation\<close>

datatype route_error = Empty_route | Invalid_node nat | Cycle_detected node_id | Loops_back nat

fun validate_from :: "node_id \<Rightarrow> nat \<Rightarrow> node_id list \<Rightarrow> node_id list \<Rightarrow> route_error option" where
  "validate_from me i seen [] = None"
| "validate_from me i seen (nodeId # route) =
     (if nodeId = [] then Some (Invalid_node i)
      else if nodeId \<in> set seen then Some (Cycle_detected nodeId)
      else if nodeId = me \<and> i \<noteq> 0 then Some (Loops_back i)
      else validate_from me (Suc i) (set_add nodeId seen) route)"

text \<open>\<open>None\<close> means \<open>{ valid: true }\<close>.\<close>

definition validateRoute :: "router \<Rightarrow> node_id list \<Rightarrow> route_error option" where
  "validateRoute r route = (if route = [] then Some Empty_route else validate_from (localNodeId r) 0 [] route)"

definition isRouteValid :: "router \<Rightarrow> node_id list \<Rightarrow> bool" where
  "isRouteValid r route \<longleftrightarrow> validateRoute r route = None"

definition validateAndFilterRoutes :: "router \<Rightarrow> active_route list \<Rightarrow> active_route list" where
  "validateAndFilterRoutes r routes = filter (\<lambda>ri. validateRoute r (ar_route ri) = None) routes"

section \<open>Finding routes\<close>

type_synonym found_route = "node_id list \<times> node_id"

definition store_route :: "jsstring \<Rightarrow> node_id list \<Rightarrow> node_id \<Rightarrow> int option \<Rightarrow> int \<Rightarrow> router \<Rightarrow> router" where
  "store_route key route exitNode latency now r =
     r\<lparr>activeRoutes := map_put key \<lparr>ar_route = route, ar_exitNode = exitNode, ar_latency = latency,
        ar_updatedAt = now, ar_unavailable = False\<rparr> (activeRoutes r)\<rparr>"

definition fallback_any :: "int \<Rightarrow> router \<Rightarrow> found_route option \<times> router" where
  "fallback_any now r =
     (case returned (findPathToNearestExitWeighted (r_graph r) (localNodeId r) []) of
        Some (path, exitNode, latency) \<Rightarrow>
          if length path > 1 \<and> isRouteValid r (tl path)
          then (Some (tl path, exitNode), store_route (exit_key (js ''any'')) (tl path) exitNode (Some latency) now r)
          else (None, r)
      | None \<Rightarrow> (None, r))"

definition findRouteToExit :: "int \<Rightarrow> node_id option \<Rightarrow> router \<Rightarrow> found_route option \<times> router" where
  "findRouteToExit now preferred r =
     (let pref = (case preferred of Some x \<Rightarrow> or_null x | None \<Rightarrow> None);
          key = exit_key (case pref of Some x \<Rightarrow> x | None \<Rightarrow> js ''any'');
          fallback = (case pref of
              None \<Rightarrow> fallback_any now r
            | Some x \<Rightarrow>
                (case returned (findShortestPathWeighted (r_graph r) (localNodeId r) x []) of
                   Some path \<Rightarrow>
                     if length path > 1 \<and> isRouteValid r (tl path)
                     then (Some (tl path, x), store_route key (tl path) x None now r)
                     else fallback_any now r
                 | None \<Rightarrow> fallback_any now r)) in
      case map_get (activeRoutes r) key of
        Some active \<Rightarrow>
          if \<not> ar_unavailable active \<and> isRouteValid r (ar_route active)
          then (Some (ar_route active, ar_exitNode active), r) else fallback
      | None \<Rightarrow> fallback)"

fun pick_paths :: "router \<Rightarrow> nat \<Rightarrow> exit_path list \<Rightarrow> node_id list \<Rightarrow> exit_path list \<Rightarrow> exit_path list" where
  "pick_paths r count [] used unique = unique"
| "pick_paths r count (pathInfo # rest) used unique =
     (if length (xp_path pathInfo) < 2 then pick_paths r count rest used unique
      else let route = tl (xp_path pathInfo) in
        if validateRoute r route \<noteq> None then pick_paths r count rest used unique
        else let firstHop = xp_path pathInfo ! 1 in
          if firstHop \<notin> set used \<or> length unique < count then
            let used = set_add firstHop used;
                unique = unique @ [\<lparr>xp_path = route, xp_exitNode = xp_exitNode pathInfo, xp_hops = xp_hops pathInfo\<rparr>] in
            if length unique \<ge> count then unique else pick_paths r count rest used unique
          else pick_paths r count rest used unique)"

definition findMultiplePaths :: "nat \<Rightarrow> router \<Rightarrow> exit_path list" where
  "findMultiplePaths count r =
     (case findAllPathsToExits (r_graph r) (localNodeId r) (count * 2) [] of
        Some allPaths \<Rightarrow> pick_paths r count allPaths [] [] | None \<Rightarrow> [])"

definition router_getNextHop :: "router \<Rightarrow> node_id \<Rightarrow> node_id option" where
  "router_getNextHop r dest =
     (if hasEdge (r_graph r) (localNodeId r) dest then Some dest
      else case returned (findShortestPath (r_graph r) (localNodeId r) dest []) of
             Some path \<Rightarrow> if length path > 1 then Some (path ! 1) else None
           | None \<Rightarrow> None)"

definition setExitNodePreference :: "node_id \<Rightarrow> int \<Rightarrow> router \<Rightarrow> router" where
  "setExitNodePreference x pref r = r\<lparr>exitNodePreference := map_put x pref (exitNodePreference r)\<rparr>"

definition exit_score :: "router \<Rightarrow> node_id \<Rightarrow> int option" where
  "exit_score r x =
     (case returned (findShortestPath (r_graph r) (localNodeId r) x []) of
        None \<Rightarrow> None
      | Some path \<Rightarrow> Some ((case map_get (exitNodePreference r) x of Some p \<Rightarrow> p | None \<Rightarrow> 0) - int (length path - 1)))"

fun best_exit :: "router \<Rightarrow> node_info list \<Rightarrow> (node_id \<times> int) option \<Rightarrow> node_id option" where
  "best_exit r [] best = map_option fst best"
| "best_exit r (x # xs) best =
     (case exit_score r (ni_nodeId x) of
        None \<Rightarrow> best_exit r xs best
      | Some score \<Rightarrow>
          if (case best of Some (_, bestScore) \<Rightarrow> score > bestScore | None \<Rightarrow> True)
          then best_exit r xs (Some (ni_nodeId x, score)) else best_exit r xs best)"

definition selectBestExitNode :: "router \<Rightarrow> node_id option" where
  "selectBestExitNode r = best_exit r (getExitNodes (r_graph r)) None"

definition getReachableExitNodes :: "router \<Rightarrow> (node_id \<times> jsstring option \<times> nat) list" where
  "getReachableExitNodes r =
     sort_key (\<lambda>(_, _, hops). hops) (List.map_filter (\<lambda>x.
       map_option (\<lambda>path. (ni_nodeId x, ni_virtualIp x, length path - 1))
         (returned (findShortestPath (r_graph r) (localNodeId r) (ni_nodeId x) [])))
       (getExitNodes (r_graph r)))"

section \<open>Route cache and statistics\<close>

definition getCachedRoute :: "int \<Rightarrow> jsstring \<Rightarrow> router \<Rightarrow> node_id list option \<times> router" where
  "getCachedRoute now key r =
     (case map_get (routeCache r) key of
        Some c \<Rightarrow> if now - cr_timestamp c < routeCacheTTL r then (Some (cr_data c), r)
                  else (None, r\<lparr>routeCache := map_del key (routeCache r)\<rparr>)
      | None \<Rightarrow> (None, r\<lparr>routeCache := map_del key (routeCache r)\<rparr>))"

definition cacheRoute :: "int \<Rightarrow> jsstring \<Rightarrow> node_id list \<Rightarrow> router \<Rightarrow> router" where
  "cacheRoute now key data r = r\<lparr>routeCache := map_put key \<lparr>cr_data = data, cr_timestamp = now\<rparr> (routeCache r)\<rparr>"

definition getConnectedPeers :: "router \<Rightarrow> node_id list" where
  "getConnectedPeers r = getNeighbors (r_graph r) (localNodeId r)"

definition getGraphStats :: "router \<Rightarrow> nat \<times> nat \<times> nat \<times> nat \<times> nat" where
  "getGraphStats r =
     (length (nodes (r_graph r)), length (getExitNodes (r_graph r)), length (getRelayNodes (r_graph r)),
      length (getClientNodes (r_graph r)), length (getConnectedPeers r))"

section \<open>Onion packets\<close>

fun route_keys :: "sessions \<Rightarrow> node_id list \<Rightarrow> ((node_id \<times> buffer) list) res" where
  "route_keys ss [] = Inr []"
| "route_keys ss (nodeId # route) =
     (case getSessionKey ss nodeId of
        None \<Rightarrow> Inl (Err ''No session key for node'')
      | Some key \<Rightarrow> ebind (route_keys ss route) (\<lambda>rs. Inr ((nodeId, key) # rs)))"

definition buildOnionPacket :: "seal \<Rightarrow> buffer list \<Rightarrow> buffer \<Rightarrow> node_id list \<Rightarrow> router \<Rightarrow> buffer res" where
  "buildOnionPacket seal ivs payload route r =
     ebind (route_keys (r_sessions r) route) (createOnionPacket seal ivs payload)"

definition processIncomingPacket :: "unseal \<Rightarrow> buffer \<Rightarrow> router \<Rightarrow> layer res" where
  "processIncomingPacket unseal encryptedPacket r =
     (case getSessionKey (r_sessions r) (localNodeId r) of
        None \<Rightarrow> Inl (Err ''No local session key available'')
      | Some key \<Rightarrow> peelOnionLayer unseal encryptedPacket key)"

section \<open>Searches return, and minimal walks have no cycles\<close>

lemma search_returns:
  "\<exists>r. findShortestPathWeighted g a b excl = Some r" "\<exists>r. findPathToNearestExitWeighted g a excl = Some r"
  "\<exists>r. findShortestPath g a b excl = Some r"
proof -
  show "\<exists>r. findShortestPathWeighted g a b excl = Some r" "\<exists>r. findPathToNearestExitWeighted g a excl = Some r"
    using dijkstra_correct [of g _ excl a]
    by (auto simp: findShortestPathWeighted_def findPathToNearestExitWeighted_def dijkstra_ok_def) blast+
  show "\<exists>r. findShortestPath g a b excl = Some r"
    using bfs_correct [of g a "\<lambda>cur path. if cur = b then Some path else None" "\<lambda>cur. cur = b" "\<lambda>_ p. p" excl]
    by (cases "hasNode g a") (auto simp: findShortestPath_def bfs_def)
qed

lemma walk_append: "walk S (xs @ u # ys) \<longleftrightarrow> walk S (xs @ [u]) \<and> walk S (u # ys)"
proof (induction xs)
  case (Cons x xs)
  then show ?case by (cases xs) auto
qed simp

lemma walk_cost_append: "walk_cost w (xs @ u # ys) = walk_cost w (xs @ [u]) + walk_cost w (u # ys)"
proof (induction xs)
  case (Cons x xs)
  then show ?case by (cases xs) auto
qed simp

lemma minimal_walk_distinct:
  assumes "walk_to S s v p" "\<And>x y. 0 < w x y" "\<And>p'. walk_to S s v p' \<Longrightarrow> walk_cost w p \<le> walk_cost w p'"
  shows "distinct p"
proof (rule ccontr)
  assume "\<not> distinct p"
  then obtain xs ys zs u where p: "p = xs @ [u] @ ys @ [u] @ zs"
    using not_distinct_decomp by blast
  have "walk S (xs @ [u])" "walk S (u # zs)"
    using assms(1) walk_append [of S xs u "ys @ u # zs"] walk_append [of S "u # ys" u zs]
    by (simp_all add: p walk_to_def)
  then have "walk_to S s v (xs @ u # zs)"
    using assms(1) walk_append [of S xs u zs] by (cases xs) (auto simp: p walk_to_def)
  then have "walk_cost w p \<le> walk_cost w (xs @ u # zs)" by (rule assms(3))
  moreover have "0 < walk_cost w (u # ys @ [u])"
  proof -
    have "0 \<le> walk_cost w q" for q
      using assms(2) by (induction w q rule: walk_cost.induct) (auto intro: add_nonneg_nonneg less_imp_le)
    then show ?thesis using assms(2) by (cases ys) (auto intro: add_pos_nonneg)
  qed
  ultimately show False
    using walk_cost_append [of w xs u "ys @ u # zs"] walk_cost_append [of w "u # ys" u zs]
      walk_cost_append [of w xs u zs] by (simp add: p)
qed

lemma validate_from_iff:
  "validate_from me i seen route = None \<longleftrightarrow>
     [] \<notin> set route \<and> set route \<inter> set seen = {} \<and> distinct route \<and>
     (if i = 0 then me \<notin> set (tl route) else me \<notin> set route)"
proof (induction route arbitrary: i seen)
  case (Cons n route)
  show ?case
    unfolding validate_from.simps by (simp add: Cons.IH) (cases route; auto)
qed simp

lemma isRouteValid_iff:
  "isRouteValid r route \<longleftrightarrow> route \<noteq> [] \<and> [] \<notin> set route \<and> distinct route \<and> localNodeId r \<notin> set (tl route)"
  by (auto simp: isRouteValid_def validateRoute_def validate_from_iff)

lemma walk_tail: "walk_to S s v p \<Longrightarrow> s \<noteq> v \<Longrightarrow> p = s # tl p \<and> 1 < length p \<and> tl p \<noteq> [] \<and> last (tl p) = v"
  by (cases p; cases "tl p") (auto simp: walk_to_def)

lemma walk_nodes: "walk S p \<Longrightarrow> (\<And>u. S u \<subseteq> A) \<Longrightarrow> set (tl p) \<subseteq> A"
  by (induction S p rule: walk.induct) auto

text \<open>The route of a minimal walk passes validation unless some id on the way is the empty string.\<close>

lemma minimal_route_valid:
  assumes "walk_to (succs g excl) (localNodeId r) v p" "localNodeId r \<noteq> v"
    and "\<forall>p'. walk_to (succs g excl) (localNodeId r) v p' \<longrightarrow> walk_cost (edge_weight g) p \<le> walk_cost (edge_weight g) p'"
    and "\<forall>u. [] \<notin> set (getNeighbors g u)"
  shows "isRouteValid r (tl p)"
proof -
  have d: "distinct p" using minimal_walk_distinct [OF assms(1), of "edge_weight g"] assms(3) edge_weight_pos by blast
  have "[] \<notin> set (tl p)"
    using walk_nodes [of "succs g excl" p "- {[]}"] assms(1,4) by (auto simp: walk_to_def succs_def)
  moreover have "localNodeId r \<notin> set (tl (tl p))" and "distinct (tl p)"
    using walk_tail [OF assms(1,2)] d by (metis distinct.simps(2) list.set_sel(2), metis distinct_tl)
  ultimately show ?thesis
    using walk_tail [OF assms(1,2)] by (simp add: isRouteValid_iff)
qed

section \<open>Well-formed routers\<close>

definition wf_nodes :: "graph \<Rightarrow> bool" where
  "wf_nodes g \<longleftrightarrow> wf_map (nodes g) \<and> (\<forall>n i. map_get (nodes g) n = Some i \<longrightarrow> ni_nodeId i = n)"

lemma nodes_updates [simp]:
  "nodes (addEdge now a b mp g) = nodes g" "nodes (removeEdge a b g) = nodes g"
  "nodes (updateEdgeMetrics now a b mp g) = nodes g"
  by (simp_all add: addEdge_def removeEdge_def updateEdgeMetrics_def add_neighbor_def ensure_edges_def Let_def)

lemma wf_nodes_cong: "nodes g = nodes h \<Longrightarrow> wf_nodes g = wf_nodes h"
  by (simp add: wf_nodes_def)

lemma wf_nodes_addNode: "wf_nodes g \<Longrightarrow> wf_nodes (addNode now n info g)"
  by (auto simp: wf_nodes_def addNode_def spread_info_def split: option.splits)

lemma nodes_remove_fold:
  "nodes (fold (\<lambda>neighbor g. g\<lparr>edges := del_neighbor neighbor n (edges g),
     metrics := map_del (edgeKey n neighbor) (metrics g)\<rparr>) ms g) = nodes g"
  by (induction ms arbitrary: g) auto

lemma nodes_removeNode: "nodes (removeNode n g) = map_del n (nodes g)"
  by (simp add: removeNode_def Let_def nodes_remove_fold delete_id map_of_eq_None_iff)

lemma wf_nodes_removeNode: "wf_nodes g \<Longrightarrow> wf_nodes (removeNode n g)"
  by (simp add: wf_nodes_def nodes_removeNode)

lemma wf_nodes_topology: "wf_nodes g \<Longrightarrow> wf_nodes (updateFromTopology now t g)"
proof -
  assume wf: "wf_nodes g"
  have edges: "wf_nodes h \<Longrightarrow> wf_nodes (fold (\<lambda>c g. if P c g then addEdge now n c no_metrics g else g) cs h)" for P n cs h
    by (induction cs arbitrary: h) (auto simp: wf_nodes_cong [OF nodes_updates(1)])
  have entry: "wf_nodes h \<Longrightarrow> wf_nodes (topo_entry now t e h)" for e h
    unfolding topo_entry_def by (cases e) (simp only: case_prod_conv, intro edges wf_nodes_addNode)
  have "wf_nodes h \<Longrightarrow> wf_nodes (fold (topo_entry now t) es h)" for es h
    by (induction es arbitrary: h) (auto intro: entry)
  moreover have "wf_nodes h \<Longrightarrow> wf_nodes (fold (\<lambda>(n, i) g. if ni_fromTopology i \<and> map_get t n = None
      then removeNode n g else g) ns h)" for ns h
    by (induction ns arbitrary: h) (auto simp: wf_nodes_removeNode)
  ultimately show ?thesis
    using wf unfolding updateFromTopology_def prune_def by blast
qed

lemma exit_ids:
  assumes "wf_nodes g"
  shows "x \<in> ni_nodeId ` set (getExitNodes g) \<longleftrightarrow> role_of g x = Some (js ''exit'')"
proof -
  have "x \<in> ni_nodeId ` set (getExitNodes g) \<longleftrightarrow>
      (\<exists>k i. (k, i) \<in> set (nodes g) \<and> ni_role i = Some (js ''exit'') \<and> ni_nodeId i = x)"
    by (force simp: getExitNodes_def getNodesByRole_def)
  also have "\<dots> \<longleftrightarrow> (\<exists>i. map_get (nodes g) x = Some i \<and> ni_role i = Some (js ''exit''))"
    using assms unfolding wf_nodes_def wf_map_get_iff [OF conjunct1, OF assms [unfolded wf_nodes_def]] by blast
  finally show ?thesis by (auto simp: role_of_def split: option.splits)
qed

section \<open>Rebuilding\<close>

lemma exit_key_inj [simp]: "exit_key x = exit_key y \<longleftrightarrow> x = y"
  by (simp add: exit_key_def)

lemma rebuild_frame:
  "r_graph (rebuild_exit now ex x r) = r_graph r \<and> localNodeId (rebuild_exit now ex x r) = localNodeId r"
  "r_graph (rebuild_any now ex r) = r_graph r \<and> localNodeId (rebuild_any now ex r) = localNodeId r"
  by (simp_all add: rebuild_exit_def rebuild_any_def split: option.splits)

definition exit_entry :: "int \<Rightarrow> node_id list \<Rightarrow> graph \<Rightarrow> node_id \<Rightarrow> node_id \<Rightarrow> active_route option" where
  "exit_entry now ex g me x =
     (case returned (findShortestPathWeighted g me x ex) of
        Some path \<Rightarrow> if length path > 1 then Some \<lparr>ar_route = tl path, ar_exitNode = x, ar_latency = None,
            ar_updatedAt = now, ar_unavailable = False\<rparr> else None
      | None \<Rightarrow> None)"

lemma rebuild_exit_get:
  "map_get (activeRoutes (rebuild_exit now ex x r)) k =
     (if k = exit_key x then exit_entry now ex (r_graph r) (localNodeId r) x else map_get (activeRoutes r) k)"
  by (simp add: rebuild_exit_def exit_entry_def split: option.splits)

lemma rebuild_exits_get:
  "map_get (activeRoutes (fold (\<lambda>n. rebuild_exit now ex (ni_nodeId n)) xs r)) (exit_key x) =
     (if x \<in> ni_nodeId ` set xs then exit_entry now ex (r_graph r) (localNodeId r) x
      else map_get (activeRoutes r) (exit_key x))"
  by (induction xs arbitrary: r) (auto simp: rebuild_exit_get rebuild_frame)

lemma exit_entry_optimal:
  assumes "hasNode g x" "x \<noteq> me"
  shows "case exit_entry now ex g me x of
      Some a \<Rightarrow> ar_exitNode a = x \<and> \<not> ar_unavailable a \<and> walk_to (succs g ex) me x (me # ar_route a) \<and>
        (\<forall>p. walk_to (succs g ex) me x p \<longrightarrow> walk_cost (edge_weight g) (me # ar_route a) \<le> walk_cost (edge_weight g) p)
    | None \<Rightarrow> \<forall>p. \<not> walk_to (succs g ex) me x p"
proof -
  have "dijkstra_ok g (\<lambda>cur. cur = x) ex me (dijkstra_loop g (\<lambda>cur. cur = x) ex (dijkstra_start me))"
    by (rule dijkstra_correct)
  then show ?thesis
    using assms walk_tail [of "succs g ex" me x]
    by (auto simp: dijkstra_ok_def exit_entry_def findShortestPathWeighted_def returned_def)
qed

text \<open>The entry under \<open>exit:any\<close>, which an exit node called \<open>any\<close> would overwrite.\<close>

definition any_entry :: "int \<Rightarrow> node_id list \<Rightarrow> graph \<Rightarrow> node_id \<Rightarrow> active_route option" where
  "any_entry now ex g me =
     (case returned (findPathToNearestExitWeighted g me ex) of
        Some (path, x, latency) \<Rightarrow> if length path > 1 then Some \<lparr>ar_route = tl path, ar_exitNode = x, ar_latency = Some latency,
            ar_updatedAt = now, ar_unavailable = False\<rparr> else None
      | None \<Rightarrow> None)"

lemma rebuild_any_get:
  "map_get (activeRoutes (rebuild_any now ex r)) (exit_key (js ''any'')) = any_entry now ex (r_graph r) (localNodeId r)"
  by (simp add: rebuild_any_def any_entry_def split: option.split)

lemma any_entry_optimal:
  assumes "hasNode g me"
  shows "case any_entry now ex g me of
      Some a \<Rightarrow> exit_goal g me (ar_exitNode a) \<and> walk_to (succs g ex) me (ar_exitNode a) (me # ar_route a) \<and>
        ar_latency a = Some (walk_cost (edge_weight g) (me # ar_route a)) \<and>
        (\<forall>x p. walk_to (succs g ex) me x p \<and> exit_goal g me x \<longrightarrow> walk_cost (edge_weight g) (me # ar_route a) \<le> walk_cost (edge_weight g) p)
    | None \<Rightarrow> \<forall>x p. walk_to (succs g ex) me x p \<longrightarrow> \<not> exit_goal g me x"
proof -
  have "dijkstra_ok g (exit_goal g me) ex me (dijkstra_loop g (exit_goal g me) ex (dijkstra_start me))"
    by (rule dijkstra_correct)
  then consider (found) p x c where "dijkstra_loop g (exit_goal g me) ex (dijkstra_start me) = Some (Some (p, x, c))" "exit_goal g me x"
      "walk_to (succs g ex) me x p" "walk_cost (edge_weight g) p = c"
      "\<forall>x p. walk_to (succs g ex) me x p \<and> exit_goal g me x \<longrightarrow> c \<le> walk_cost (edge_weight g) p"
    | (none) "dijkstra_loop g (exit_goal g me) ex (dijkstra_start me) = Some None" "\<forall>x p. walk_to (succs g ex) me x p \<longrightarrow> \<not> exit_goal g me x"
    unfolding dijkstra_ok_def by blast
  then show ?thesis
  proof cases
    case found
    have "x \<noteq> me" using found(2) by (simp add: exit_goal_def)
    then show ?thesis using found assms walk_tail [OF found(3)]
      by (simp add: any_entry_def findPathToNearestExitWeighted_def returned_def)
  qed (use assms in \<open>simp add: any_entry_def findPathToNearestExitWeighted_def returned_def\<close>)
qed

section \<open>Properties\<close>

text \<open>(C14) Rebuilding the active routes: afterwards the entry of every exit node of the graph is a walk
  of minimal latency from the local node that avoids the relays reached through TURN, marked available,
  and there is no entry exactly when no such walk exists. The entry for any exit is a walk of minimal
  latency to some exit, with that latency, unless an exit has the id \<open>any\<close> itself.\<close>

theorem rebuild_routes_optimal:
  assumes "wf_nodes (r_graph r)" "role_of (r_graph r) x = Some (js ''exit'')" "x \<noteq> localNodeId r"
  shows "(case map_get (activeRoutes (rebuildActiveRoutes now r)) (exit_key x) of
      Some a \<Rightarrow> ar_exitNode a = x \<and> \<not> ar_unavailable a \<and>
        walk_to (succs (r_graph r) (getTurnRelayIds r)) (localNodeId r) x (localNodeId r # ar_route a) \<and>
        (\<forall>p. walk_to (succs (r_graph r) (getTurnRelayIds r)) (localNodeId r) x p \<longrightarrow>
           walk_cost (edge_weight (r_graph r)) (localNodeId r # ar_route a) \<le> walk_cost (edge_weight (r_graph r)) p)
    | None \<Rightarrow> \<forall>p. \<not> walk_to (succs (r_graph r) (getTurnRelayIds r)) (localNodeId r) x p)
    \<and> (hasNode (r_graph r) (localNodeId r) \<and> role_of (r_graph r) (js ''any'') \<noteq> Some (js ''exit'') \<longrightarrow>
      (case map_get (activeRoutes (rebuildActiveRoutes now r)) (exit_key (js ''any'')) of
        Some a \<Rightarrow> exit_goal (r_graph r) (localNodeId r) (ar_exitNode a) \<and>
          walk_to (succs (r_graph r) (getTurnRelayIds r)) (localNodeId r) (ar_exitNode a) (localNodeId r # ar_route a) \<and>
          ar_latency a = Some (walk_cost (edge_weight (r_graph r)) (localNodeId r # ar_route a)) \<and>
          (\<forall>x p. walk_to (succs (r_graph r) (getTurnRelayIds r)) (localNodeId r) x p \<and> exit_goal (r_graph r) (localNodeId r) x \<longrightarrow>
             walk_cost (edge_weight (r_graph r)) (localNodeId r # ar_route a) \<le> walk_cost (edge_weight (r_graph r)) p)
      | None \<Rightarrow> \<forall>x p. walk_to (succs (r_graph r) (getTurnRelayIds r)) (localNodeId r) x p \<longrightarrow> \<not> exit_goal (r_graph r) (localNodeId r) x))"
proof -
  have "x \<in> ni_nodeId ` set (getExitNodes (r_graph r))" using exit_ids [OF assms(1)] assms(2) by simp
  then have get: "map_get (activeRoutes (rebuildActiveRoutes now r)) (exit_key x) =
      exit_entry now (getTurnRelayIds r) (r_graph r) (localNodeId r) x"
    by (simp add: rebuildActiveRoutes_def Let_def rebuild_exits_get rebuild_frame)
  have "hasNode (r_graph r) x" using assms(2) by (auto simp: role_of_def hasNode_def split: option.splits)
  note this_exit = exit_entry_optimal [OF this assms(3)]
  have "map_get (activeRoutes (rebuildActiveRoutes now r)) (exit_key (js ''any'')) = any_entry now (getTurnRelayIds r) (r_graph r) (localNodeId r)"
    if "role_of (r_graph r) (js ''any'') \<noteq> Some (js ''exit'')"
    using that exit_ids [OF assms(1), of "js ''any''"]
    by (simp add: rebuildActiveRoutes_def Let_def rebuild_exits_get rebuild_any_get)
  then show ?thesis unfolding get using this_exit any_entry_optimal by simp
qed

definition demo_router :: router where
  "demo_router = (new_MeshRouter [1] None [])\<lparr>r_graph := diamond\<rparr>"

lemma demo_wf: "wf_nodes (r_graph demo_router)"
  by (auto simp: wf_nodes_def demo_router_def diamond_def wf_map_def split: if_splits)

theorem rebuild_routes_optimal_witness:
  "case map_get (activeRoutes (rebuildActiveRoutes 5 demo_router)) (exit_key [4]) of
      Some a \<Rightarrow> ar_exitNode a = [4] \<and> \<not> ar_unavailable a
    | None \<Rightarrow> \<forall>p. \<not> walk_to (succs (r_graph demo_router) (getTurnRelayIds demo_router)) (localNodeId demo_router) [4] p"
proof -
  have "role_of (r_graph demo_router) [4] = Some (js ''exit'')" "[4] \<noteq> localNodeId demo_router"
    by (simp_all add: demo_router_def diamond_def role_of_def new_MeshRouter_def)
  from rebuild_routes_optimal [OF demo_wf this, of 5] show ?thesis by (auto split: option.splits)
qed



lemma pick_paths_take:
  "length unique < count \<Longrightarrow>
   pick_paths r count xs used unique = unique @ take (count - length unique)
     (map (\<lambda>x. \<lparr>xp_path = tl (xp_path x), xp_exitNode = xp_exitNode x, xp_hops = xp_hops x\<rparr>)
       (filter (\<lambda>x. 2 \<le> length (xp_path x) \<and> isRouteValid r (tl (xp_path x))) xs))"
proof (induction xs arbitrary: used unique)
  case (Cons x xs)
  have step: "count - length unique = Suc (count - Suc (length unique))" using Cons.prems by simp
  show ?case
  proof (cases "2 \<le> length (xp_path x) \<and> isRouteValid r (tl (xp_path x))")
    case True
    then show ?thesis
      using Cons by (cases "Suc (length unique) < count") (auto simp: Let_def isRouteValid_def step)
  next
    case False
    then show ?thesis using Cons by (auto simp: Let_def isRouteValid_def)
  qed
qed simp

text \<open>Multipath candidates: for a positive count \<open>findMultiplePaths\<close> is the first \<open>count\<close> valid
  paths of \<open>findAllPathsToExits\<close>, whatever their first hops are: the bookkeeping of used first hops
  has no effect, because the loop stops as soon as \<open>count\<close> paths are chosen.\<close>

theorem findMultiplePaths_take:
  assumes "0 < count"
  shows "\<exists>xs. findAllPathsToExits (r_graph r) (localNodeId r) (count * 2) [] = Some xs \<and>
    findMultiplePaths count r = take count
      (map (\<lambda>x. \<lparr>xp_path = tl (xp_path x), xp_exitNode = xp_exitNode x, xp_hops = xp_hops x\<rparr>)
        (filter (\<lambda>x. 2 \<le> length (xp_path x) \<and> isRouteValid r (tl (xp_path x))) xs))"
proof -
  obtain xs where "findAllPathsToExits (r_graph r) (localNodeId r) (count * 2) [] = Some xs"
    using all_exits_correct [of "r_graph r" "[]" "localNodeId r" "[localNodeId r]" "[[localNodeId r]]" "[]" "count * 2"]
      gs.bfs_inv_start [of "r_graph r" "[]" "localNodeId r"]
    by (cases "hasNode (r_graph r) (localNodeId r)") (auto simp: findAllPathsToExits_def)
  then show ?thesis
    using pick_paths_take [of "[]" count r xs "[]"] assms by (simp add: findMultiplePaths_def)
qed

theorem findMultiplePaths_take_witness:
  "\<exists>xs. findAllPathsToExits (r_graph demo_router) (localNodeId demo_router) 6 [] = Some xs \<and>
    length (findMultiplePaths 3 demo_router) \<le> length xs"
  using findMultiplePaths_take [of 3 demo_router] by (auto simp: min_le_iff_disj)

definition node_at :: "node_id \<Rightarrow> string \<Rightarrow> node_id \<times> node_info" where
  "node_at n role = (n, \<lparr>ni_nodeId = n, ni_role = Some (js role), ni_virtualIp = None, ni_publicKey = None,
     ni_addedAt = 0, ni_fromTopology = True\<rparr>)"

text \<open>Consequence: with two exits behind relay \<open>[2]\<close> and a third behind relay \<open>[3]\<close>, two paths are
  requested and both use first hop \<open>[2]\<close>, although a path over \<open>[3]\<close> of the same length exists.\<close>

theorem multipath_shares_first_hop:
  "let g = \<lparr>nodes = [node_at [1] ''client'', node_at [2] ''relay'', node_at [3] ''relay'',
                    node_at [4] ''exit'', node_at [5] ''exit'', node_at [6] ''exit''],
            edges = [([1], [[2], [3]]), ([2], [[1], [4], [5]]), ([3], [[1], [6]]),
                     ([4], [[2]]), ([5], [[2]]), ([6], [[3]])], metrics = []\<rparr>;
       r = (new_MeshRouter [1] None [])\<lparr>r_graph := g\<rparr> in
   map xp_path (findMultiplePaths 2 r) = [[[2], [4]], [[2], [5]]] \<and>
   map xp_path (findMultiplePaths 3 r) = [[[2], [4]], [[2], [5]], [[3], [6]]]"
  by code_simp

text \<open>Stale routes: after an exit disappears from the topology its own cache entry is not removed by
  the rebuild (which visits only exits that are still in the graph), and \<open>findRouteToExit\<close> with
  that exit as preference keeps returning the dead route.\<close>

theorem stale_exit_route:
  "let topo1 = [([1], \<lparr>ti_role = Some (js ''client''), ti_virtualIp = None, ti_connectedTo = [[2]]\<rparr>),
                ([2], \<lparr>ti_role = Some (js ''exit''), ti_virtualIp = None, ti_connectedTo = [[1]]\<rparr>)];
       topo2 = [([1], \<lparr>ti_role = Some (js ''client''), ti_virtualIp = None, ti_connectedTo = []\<rparr>)];
       r = updateTopology 2 topo2 (updateTopology 1 topo1 (new_MeshRouter [1] None [])) in
   \<not> hasNode (r_graph r) [2] \<and> \<not> hasEdge (r_graph r) [1] [2] \<and>
   fst (findRouteToExit 3 (Some [2]) r) = Some ([[2]], [2]) \<and> fst (findRouteToExit 3 None r) = None"
  by code_simp

lemma route_keys_ok:
  "\<forall>n \<in> set route. getSessionKey ss n \<noteq> None \<Longrightarrow>
   route_keys ss route = Inr (map (\<lambda>n. (n, the (getSessionKey ss n))) route)"
  by (induction route) auto

lemma route_keys_missing:
  "n \<in> set route \<Longrightarrow> getSessionKey ss n = None \<Longrightarrow> \<exists>e. route_keys ss route = Inl e"
  by (induction route) (auto split: option.splits)

text \<open>Onion packets of the router: if every node of a nonempty route has an established session with
  a 32-byte key and a valid id, \<open>buildOnionPacket\<close> succeeds and the packet reaches the last node of the
  route hop by hop with the payload intact; if some node has no established session it throws.\<close>

theorem router_onion_delivery:
  assumes "aead_ok seal unseal" "route \<noteq> []" "length route \<le> length ivs" "\<forall>iv \<in> set ivs. length iv = 12"
    and "\<forall>n \<in> set route. n \<noteq> [] \<and> id_ok n"
    and "\<forall>n k. getSessionKey (r_sessions r) n = Some k \<longrightarrow> length k = 32"
  shows "if \<forall>n \<in> set route. getSessionKey (r_sessions r) n \<noteq> None
    then \<exists>pkt. buildOnionPacket seal ivs payload route r = Inr pkt \<and>
      travel unseal (map (\<lambda>n. (n, the (getSessionKey (r_sessions r) n))) route) pkt = Inr payload
    else \<exists>e. buildOnionPacket seal ivs payload route r = Inl e"
proof (cases "\<forall>n \<in> set route. getSessionKey (r_sessions r) n \<noteq> None")
  case True
  define rk where "rk = map (\<lambda>n. (n, the (getSessionKey (r_sessions r) n))) route"
  have "route_ok rk" "rk \<noteq> []" "ivs_ok ivs rk"
    using True assms(2-6) by (auto simp: rk_def route_ok_def ivs_ok_def)
  from onion_travel [OF assms(1) this, of payload] show ?thesis
    using True route_keys_ok [OF True] by (auto simp: buildOnionPacket_def createOnionPacket_def rk_def)
next
  case False
  then obtain e where "route_keys (r_sessions r) route = Inl e"
    using route_keys_missing [of _ route "r_sessions r"] by blast
  then show ?thesis using False by (auto simp: buildOnionPacket_def)
qed

definition demo_sessions :: sessions where
  "demo_sessions = [(js ''r'', \<lparr>s_privateKey = [], s_publicKey = [], s_sessionKey = Some (replicate 32 1), s_established = True\<rparr>),
                    (js ''x'', \<lparr>s_privateKey = [], s_publicKey = [], s_sessionKey = Some (replicate 32 2), s_established = True\<rparr>)]"

theorem router_onion_delivery_witness:
  "\<exists>pkt. buildOnionPacket demo_seal (replicate 2 (replicate 12 0)) [7] [js ''r'', js ''x''] (new_MeshRouter [1] None demo_sessions)
     = Inr pkt \<and> travel demo_unseal [(js ''r'', replicate 32 1), (js ''x'', replicate 32 2)] pkt = Inr [7]"
proof -
  have keys: "getSessionKey demo_sessions (js ''r'') = Some (replicate 32 1)"
      "getSessionKey demo_sessions (js ''x'') = Some (replicate 32 2)"
    by (simp_all add: demo_sessions_def getSessionKey_def js_def)
  have "\<forall>n k. getSessionKey demo_sessions n = Some k \<longrightarrow> length k = 32"
    by (auto simp: demo_sessions_def getSessionKey_def split: if_splits)
  then show ?thesis
    using router_onion_delivery [OF demo_aead, of "[js ''r'', js ''x'']" "replicate 2 (replicate 12 0)"
        "new_MeshRouter [1] None demo_sessions" "[7]"] keys
    by (simp add: new_MeshRouter_def id_ok_def js_def)
qed

text \<open>The node table of the router stays well-formed (ids unique, each entry stored under its own id)
  under every operation that changes the graph, so the rebuild guarantee applies in every state.\<close>

theorem router_nodes_wf:
  "wf_nodes (r_graph (new_MeshRouter me ttl ss)) \<and>
   (wf_nodes (r_graph r) \<longrightarrow> wf_nodes (r_graph (updateTopology now t r)) \<and>
      wf_nodes (r_graph (addLocalConnection now p info r)) \<and> wf_nodes (r_graph (removeLocalConnection now p r)) \<and>
      wf_nodes (r_graph (router_updateEdgeMetrics now p mp r)))"
proof -
  have exits: "r_graph (fold (\<lambda>n. rebuild_exit now ex (ni_nodeId n)) xs q) = r_graph q" for ex q and xs :: "node_info list"
    by (induction xs arbitrary: q) (auto simp: rebuild_frame)
  then have rebuild: "r_graph (rebuildActiveRoutes now q) = r_graph q" for q
    by (simp add: rebuildActiveRoutes_def Let_def rebuild_frame)
  have "r_graph (handlePeerDisconnectedRoutes now p q) = r_graph q" for q
    by (simp add: handlePeerDisconnectedRoutes_def Let_def rebuild)
  then show ?thesis
    by (simp add: updateTopology_def addLocalConnection_def removeLocalConnection_def router_updateEdgeMetrics_def
        rebuild invalidateRouteCache_def wf_nodes_topology wf_nodes_cong [OF nodes_updates(1)]
        wf_nodes_cong [OF nodes_updates(2)] wf_nodes_cong [OF nodes_updates(3)] wf_nodes_addNode)
      (simp add: wf_nodes_def new_MeshRouter_def new_NetworkGraph_def)
qed

theorem router_nodes_wf_witness:
  "wf_nodes (r_graph (addLocalConnection 0 [2] no_info (new_MeshRouter [1] None [])))"
  using router_nodes_wf [of "[1]" None "[]" "new_MeshRouter [1] None []" 0 "[]" "[2]" no_info no_metrics] by simp

end
