(* ===== verification/Multipath.thy ===== *)
theory Multipath
  imports Mesh_Prelude Complex_Main
begin

text \<open>
  \<open>src/core/scheduler.js\<close>: the \<open>MultipathScheduler\<close> (round-robin, weighted and
  lowest-latency selection, duplication over several paths, weights from acknowledgements) and
  the \<open>ReorderBuffer\<close> of the receiver. Weights and averages are rationals (rounding of the
  floating-point arithmetic is not modelled); \<open>Math.random\<close> is an arbitrary function of the
  number of times it was called. Selecting from \<open>paths[i]\<close> outside the array gives \<open>undefined\<close>,
  which is \<open>None\<close> here.
\<close>

section \<open>MultipathScheduler\<close>

record sched_path =
  sp_route :: "jsstring list"
  sp_exitNode :: jsstring

record path_stats =
  ps_sent :: nat
  ps_acked :: nat
  ps_lost :: nat
  ps_latency :: "int list"

datatype strategy = Round_robin | Weighted | Lowest_latency | Other_strategy

record scheduler =
  sc_paths :: "sched_path list"
  pathWeights :: "(jsstring, rat) jsmap"
  currentPathIndex :: nat
  sequenceNumber :: nat
  sc_flowId :: jsstring
  sc_strategy :: strategy
  pathStats :: "(jsstring, path_stats) jsmap"
  sc_random :: "nat \<Rightarrow> rat"
  sc_polls :: nat

fun join :: "nat \<Rightarrow> jsstring list \<Rightarrow> jsstring" where
  "join c [] = []"
| "join c [x] = x"
| "join c (x # y # xs) = x @ c # join c (y # xs)"

definition getPathKey :: "sched_path \<Rightarrow> jsstring" where
  "getPathKey p = join 45 (sp_route p) @ 58 # sp_exitNode p"

definition new_stats :: path_stats where
  "new_stats = \<lparr>ps_sent = 0, ps_acked = 0, ps_lost = 0, ps_latency = []\<rparr>"

definition new_MultipathScheduler :: "jsstring \<Rightarrow> strategy \<Rightarrow> (nat \<Rightarrow> rat) \<Rightarrow> scheduler" where
  "new_MultipathScheduler flowId strat rnd =
     \<lparr>sc_paths = [], pathWeights = [], currentPathIndex = 0, sequenceNumber = 0, sc_flowId = flowId,
      sc_strategy = strat, pathStats = [], sc_random = rnd, sc_polls = 0\<rparr>"

definition setPaths :: "sched_path list \<Rightarrow> scheduler \<Rightarrow> scheduler" where
  "setPaths paths s =
     fold (\<lambda>p s. s\<lparr>pathWeights := map_put (getPathKey p) 1 (pathWeights s),
                   pathStats := map_put (getPathKey p) new_stats (pathStats s)\<rparr>)
       paths (s\<lparr>sc_paths := paths, pathWeights := [], pathStats := []\<rparr>)"

definition addPath :: "sched_path \<Rightarrow> scheduler \<Rightarrow> scheduler" where
  "addPath p s =
     (if map_get (pathWeights s) (getPathKey p) = None
      then s\<lparr>sc_paths := sc_paths s @ [p], pathWeights := map_put (getPathKey p) 1 (pathWeights s),
             pathStats := map_put (getPathKey p) new_stats (pathStats s)\<rparr>
      else s)"

fun remove_key :: "jsstring \<Rightarrow> sched_path list \<Rightarrow> sched_path list" where
  "remove_key k [] = []"
| "remove_key k (p # ps) = (if getPathKey p = k then ps else p # remove_key k ps)"

definition removePath :: "sched_path \<Rightarrow> scheduler \<Rightarrow> scheduler" where
  "removePath p s =
     (let key = getPathKey p in
      if key \<in> getPathKey ` set (sc_paths s) then
        let paths = remove_key key (sc_paths s) in
        s\<lparr>sc_paths := paths, pathWeights := map_del key (pathWeights s), pathStats := map_del key (pathStats s),
          currentPathIndex := (if currentPathIndex s \<ge> length paths then 0 else currentPathIndex s)\<rparr>
      else s)"

definition selectRoundRobin :: "scheduler \<Rightarrow> sched_path option \<times> scheduler" where
  "selectRoundRobin s =
     (if currentPathIndex s < length (sc_paths s) then Some (sc_paths s ! currentPathIndex s) else None,
      s\<lparr>currentPathIndex := (currentPathIndex s + 1) mod length (sc_paths s)\<rparr>)"

definition weight_of :: "scheduler \<Rightarrow> sched_path \<Rightarrow> rat" where
  "weight_of s p = (case map_get (pathWeights s) (getPathKey p) of Some w \<Rightarrow> if w = 0 then 1 else w | None \<Rightarrow> 1)"

fun weighted_scan :: "scheduler \<Rightarrow> rat \<Rightarrow> sched_path list \<Rightarrow> sched_path option" where
  "weighted_scan s random [] = None"
| "weighted_scan s random (p # ps) =
     (let random = random - weight_of s p in
      if random \<le> 0 then Some p else weighted_scan s random ps)"

definition selectWeighted :: "scheduler \<Rightarrow> sched_path option \<times> scheduler" where
  "selectWeighted s =
     (let totalWeight = sum_list (map snd (pathWeights s));
          random = sc_random s (sc_polls s) * totalWeight in
      (case weighted_scan s random (sc_paths s) of
         Some p \<Rightarrow> Some p | None \<Rightarrow> (case sc_paths s of p # _ \<Rightarrow> Some p | [] \<Rightarrow> None),
       s\<lparr>sc_polls := sc_polls s + 1\<rparr>))"

definition avg :: "int list \<Rightarrow> rat" where
  "avg xs = of_int (sum_list xs) / of_nat (length xs)"

fun latency_scan :: "scheduler \<Rightarrow> sched_path list \<Rightarrow> rat option \<Rightarrow> sched_path option \<Rightarrow> sched_path option" where
  "latency_scan s [] lowest best = best"
| "latency_scan s (p # ps) lowest best =
     (case map_get (pathStats s) (getPathKey p) of
        Some st \<Rightarrow>
          if ps_latency st \<noteq> [] \<and> (case lowest of Some l \<Rightarrow> avg (ps_latency st) < l | None \<Rightarrow> True)
          then latency_scan s ps (Some (avg (ps_latency st))) (Some p)
          else latency_scan s ps lowest best
      | None \<Rightarrow> latency_scan s ps lowest best)"

definition selectLowestLatency :: "scheduler \<Rightarrow> sched_path option \<times> scheduler" where
  "selectLowestLatency s =
     (latency_scan s (sc_paths s) None (case sc_paths s of p # _ \<Rightarrow> Some p | [] \<Rightarrow> None), s)"

definition selectPath :: "scheduler \<Rightarrow> sched_path option \<times> scheduler" where
  "selectPath s =
     (if sc_paths s = [] then (None, s)
      else case sc_strategy s of
             Round_robin \<Rightarrow> selectRoundRobin s
           | Weighted \<Rightarrow> selectWeighted s
           | Lowest_latency \<Rightarrow> selectLowestLatency s
           | Other_strategy \<Rightarrow> selectRoundRobin s)"

record sched_packet =
  sk_flowId :: jsstring
  sk_seq :: nat
  sk_pathIndex :: "nat option"
  sk_totalPaths :: "nat option"
  sk_path :: sched_path
  sk_payload :: buffer
  sk_timestamp :: int

definition count_sent :: "sched_path \<Rightarrow> scheduler \<Rightarrow> scheduler" where
  "count_sent p s =
     (case map_get (pathStats s) (getPathKey p) of
        Some st \<Rightarrow> s\<lparr>pathStats := map_put (getPathKey p) (st\<lparr>ps_sent := ps_sent st + 1\<rparr>) (pathStats s)\<rparr>
      | None \<Rightarrow> s)"

definition schedulePacket :: "int \<Rightarrow> buffer \<Rightarrow> scheduler \<Rightarrow> sched_packet option \<times> scheduler" where
  "schedulePacket now payload s =
     (case selectPath s of
        (None, s) \<Rightarrow> (None, s)
      | (Some path, s) \<Rightarrow>
          (Some \<lparr>sk_flowId = sc_flowId s, sk_seq = sequenceNumber s, sk_pathIndex = None, sk_totalPaths = None,
             sk_path = path, sk_payload = payload, sk_timestamp = now\<rparr>,
           count_sent path (s\<lparr>sequenceNumber := sequenceNumber s + 1\<rparr>)))"

text \<open>The \<open>do ... while\<close> of \<open>schedulePacketMultipath\<close>: at most \<open>attempts\<close> selections; reading the key of \<open>undefined\<close> throws.\<close>

fun pick_unused :: "nat \<Rightarrow> jsstring list \<Rightarrow> scheduler \<Rightarrow> (sched_path \<times> scheduler) res" where
  "pick_unused 0 used s = Inl TypeError"
| "pick_unused (Suc attempts) used s =
     (case selectPath s of
        (None, s) \<Rightarrow> Inl TypeError
      | (Some path, s) \<Rightarrow>
          if getPathKey path \<in> set used \<and> attempts > 0 then pick_unused attempts used s else Inr (path, s))"

fun multipath_loop :: "int \<Rightarrow> buffer \<Rightarrow> nat \<Rightarrow> nat \<Rightarrow> nat \<Rightarrow> nat \<Rightarrow> jsstring list \<Rightarrow> sched_packet list \<Rightarrow> scheduler
    \<Rightarrow> (sched_packet list \<times> scheduler) res" where
  "multipath_loop now payload seq totalN i 0 used packets s = Inr (packets, s)"
| "multipath_loop now payload seq totalN i (Suc n) used packets s =
     ebind (pick_unused (length (sc_paths s) * 2) used s) (\<lambda>(path, s).
     multipath_loop now payload seq totalN (i + 1) n (set_add (getPathKey path) used)
       (packets @ [\<lparr>sk_flowId = sc_flowId s, sk_seq = seq, sk_pathIndex = Some i, sk_totalPaths = Some totalN,
          sk_path = path, sk_payload = payload, sk_timestamp = now\<rparr>]) (count_sent path s))"

definition schedulePacketMultipath :: "int \<Rightarrow> buffer \<Rightarrow> nat \<Rightarrow> scheduler \<Rightarrow> (sched_packet list \<times> scheduler) res" where
  "schedulePacketMultipath now payload pathCount s =
     (if sc_paths s = [] then Inr ([], s)
      else let totalN = min pathCount (length (sc_paths s)) in
        multipath_loop now payload (sequenceNumber s) totalN 0 totalN [] []
          (s\<lparr>sequenceNumber := sequenceNumber s + 1\<rparr>))"

definition adjustWeight :: "jsstring \<Rightarrow> scheduler \<Rightarrow> scheduler" where
  "adjustWeight pathKey s =
     (case map_get (pathStats s) pathKey of
        None \<Rightarrow> s
      | Some st \<Rightarrow>
          let deliveryRate = (if ps_sent st > 0 then of_nat (ps_acked st) / of_nat (ps_sent st) else 1 :: rat);
              avgLatency = (if ps_latency st \<noteq> [] then avg (ps_latency st) else 100);
              weight = max (1 / 10) (deliveryRate * (1000 / (avgLatency + 100))) in
          s\<lparr>pathWeights := map_put pathKey weight (pathWeights s)\<rparr>)"

definition recordAck :: "jsstring \<Rightarrow> int \<Rightarrow> scheduler \<Rightarrow> scheduler" where
  "recordAck pathKey latency s =
     (case map_get (pathStats s) pathKey of
        None \<Rightarrow> s
      | Some st \<Rightarrow>
          let lat = ps_latency st @ [latency];
              lat = (if length lat > 100 then tl lat else lat) in
          adjustWeight pathKey (s\<lparr>pathStats := map_put pathKey
            (st\<lparr>ps_acked := ps_acked st + 1, ps_latency := lat\<rparr>) (pathStats s)\<rparr>))"

definition recordLoss :: "jsstring \<Rightarrow> scheduler \<Rightarrow> scheduler" where
  "recordLoss pathKey s =
     (case map_get (pathStats s) pathKey of
        None \<Rightarrow> s
      | Some st \<Rightarrow> adjustWeight pathKey (s\<lparr>pathStats := map_put pathKey
            (st\<lparr>ps_lost := ps_lost st + 1\<rparr>) (pathStats s)\<rparr>))"

definition getPathStats :: "scheduler \<Rightarrow> (sched_path \<times> rat option \<times> path_stats option) list" where
  "getPathStats s = map (\<lambda>p. (p, map_get (pathWeights s) (getPathKey p), map_get (pathStats s) (getPathKey p))) (sc_paths s)"

definition getActivePaths :: "scheduler \<Rightarrow> sched_path list" where
  "getActivePaths s =
     filter (\<lambda>p. case map_get (pathStats s) (getPathKey p) of
        None \<Rightarrow> True | Some st \<Rightarrow> ps_sent st = 0 \<or> of_nat (ps_acked st) / of_nat (ps_sent st) > (1 / 2 :: rat)) (sc_paths s)"

definition reset_scheduler :: "jsstring \<Rightarrow> scheduler \<Rightarrow> scheduler" where
  "reset_scheduler flowId s =
     s\<lparr>sequenceNumber := 0, currentPathIndex := 0, sc_flowId := flowId,
       pathStats := map (\<lambda>(k, _). (k, new_stats)) (pathStats s)\<rparr>"

section \<open>ReorderBuffer\<close>

record multi_packet =
  mk_flowId :: jsstring
  mk_seq :: nat
  mk_payload :: buffer
  mk_totalPaths :: "nat option"

record reorder_entry =
  re_packet :: multi_packet
  re_timestamp :: int

record reorder_buffer =
  rb_buffer :: "(nat, reorder_entry) jsmap"
  expectedSeq :: nat
  windowSize :: nat
  rb_timeout :: int
  seenMultipath :: "(jsstring, int) jsmap"
  rb_timer :: bool

definition new_ReorderBuffer :: "nat option \<Rightarrow> int option \<Rightarrow> reorder_buffer" where
  "new_ReorderBuffer window timeout =
     \<lparr>rb_buffer = [], expectedSeq = 0,
      windowSize = (case window of Some w \<Rightarrow> if w = 0 then 1000 else w | None \<Rightarrow> 1000),
      rb_timeout = (case timeout of Some t \<Rightarrow> if t = 0 then 5000 else t | None \<Rightarrow> 5000),
      seenMultipath = [], rb_timer = False\<rparr>"

definition rb_start :: "reorder_buffer \<Rightarrow> reorder_buffer" where
  "rb_start b = b\<lparr>rb_timer := True\<rparr>"

definition rb_stop :: "reorder_buffer \<Rightarrow> reorder_buffer" where
  "rb_stop b = b\<lparr>rb_timer := False\<rparr>"

definition multi_key :: "multi_packet \<Rightarrow> jsstring" where
  "multi_key p = mk_flowId p @ 58 # dec (mk_seq p)"

text \<open>\<open>addPacket\<close>: the packets emitted and the new state.\<close>

definition addPacket :: "int \<Rightarrow> multi_packet \<Rightarrow> reorder_buffer \<Rightarrow> multi_packet list \<times> reorder_buffer" where
  "addPacket now p b =
     (if (case mk_totalPaths p of Some n \<Rightarrow> n > 1 | None \<Rightarrow> False) then
        if map_get (seenMultipath b) (multi_key p) \<noteq> None then ([], b)
        else ([p], b\<lparr>seenMultipath := map_put (multi_key p) now (seenMultipath b)\<rparr>)
      else ([p], b))"

partial_function (option) flushConsecutive :: "reorder_buffer \<Rightarrow> multi_packet list \<Rightarrow> (multi_packet list \<times> reorder_buffer) option" where
  "flushConsecutive b out =
     (case map_get (rb_buffer b) (expectedSeq b) of
        None \<Rightarrow> Some (out, b)
      | Some entry \<Rightarrow> flushConsecutive (b\<lparr>rb_buffer := map_del (expectedSeq b) (rb_buffer b),
          expectedSeq := expectedSeq b + 1\<rparr>) (out @ [re_packet entry]))"

definition flushOld :: "reorder_buffer \<Rightarrow> reorder_buffer" where
  "flushOld b = b\<lparr>rb_buffer := filter (\<lambda>(seq, _). \<not> seq < expectedSeq b) (rb_buffer b)\<rparr>"

primrec cleanup_entries :: "int \<Rightarrow> nat list \<Rightarrow> multi_packet list \<Rightarrow> reorder_buffer \<Rightarrow> (multi_packet list \<times> reorder_buffer) option" where
  "cleanup_entries now [] out b = Some (out, b)"
| "cleanup_entries now (seq # seqs) out b =
     (case map_get (rb_buffer b) seq of
        None \<Rightarrow> cleanup_entries now seqs out b
      | Some entry \<Rightarrow>
          if now - re_timestamp entry > rb_timeout b then
            let b = b\<lparr>rb_buffer := map_del seq (rb_buffer b)\<rparr> in
            if seq = expectedSeq b then
              (case flushConsecutive (b\<lparr>expectedSeq := expectedSeq b + 1\<rparr>) out of
                 None \<Rightarrow> None | Some (out, b) \<Rightarrow> cleanup_entries now seqs out b)
            else cleanup_entries now seqs out b
          else cleanup_entries now seqs out b)"

definition rb_cleanup :: "int \<Rightarrow> reorder_buffer \<Rightarrow> (multi_packet list \<times> reorder_buffer) option" where
  "rb_cleanup now b =
     (case cleanup_entries now (map_keys (rb_buffer b)) [] b of
        None \<Rightarrow> None
      | Some (out, b) \<Rightarrow> Some (out, b\<lparr>seenMultipath :=
          jsd.sweep (\<lambda>t. now - t > rb_timeout b * 2) (seenMultipath b)\<rparr>))"

definition rb_reset :: "reorder_buffer \<Rightarrow> reorder_buffer" where
  "rb_reset b = b\<lparr>rb_buffer := [], expectedSeq := 0, seenMultipath := []\<rparr>"

section \<open>Selection\<close>

definition wf_sched :: "scheduler \<Rightarrow> bool" where
  "wf_sched s \<longleftrightarrow> currentPathIndex s < length (sc_paths s) \<or> (sc_paths s = [] \<and> currentPathIndex s = 0)"

lemma latency_scan_member:
  "best \<in> Some ` A \<Longrightarrow> set ps \<subseteq> A \<Longrightarrow> latency_scan s ps lowest best \<in> Some ` A"
  by (induction ps arbitrary: lowest best) (simp_all split: option.splits)

lemma weighted_scan_member: "weighted_scan s x ps = Some p \<Longrightarrow> p \<in> set ps"
  by (induction ps arbitrary: x) (auto simp: Let_def split: if_splits)

lemma selectPath_member:
  assumes "wf_sched s" "sc_paths s \<noteq> []"
  shows "\<exists>p s'. selectPath s = (Some p, s') \<and> p \<in> set (sc_paths s) \<and> wf_sched s'"
proof -
  have idx: "currentPathIndex s < length (sc_paths s)" using assms by (auto simp: wf_sched_def)
  then have rr: "\<exists>p s'. selectRoundRobin s = (Some p, s') \<and> p \<in> set (sc_paths s) \<and> wf_sched s'"
  proof -
    have "Suc (currentPathIndex s) mod length (sc_paths s) < length (sc_paths s)"
      using idx by (intro mod_less_divisor) linarith
    then show ?thesis using idx by (auto simp: selectRoundRobin_def wf_sched_def)
  qed
  define x where "x = sc_random s (sc_polls s) * sum_list (map snd (pathWeights s))"
  have "\<exists>p s'. selectWeighted s = (Some p, s') \<and> p \<in> set (sc_paths s) \<and> wf_sched s'"
  proof (cases "weighted_scan s x (sc_paths s)")
    case None
    then show ?thesis
      using assms by (cases "sc_paths s") (simp_all add: selectWeighted_def Let_def x_def [symmetric] wf_sched_def del: weighted_scan.simps)
  next
    case (Some p)
    then show ?thesis
      using assms(1) weighted_scan_member [OF Some]
      by (simp add: selectWeighted_def Let_def x_def [symmetric] wf_sched_def)
  qed
  moreover have "\<exists>p s'. selectLowestLatency s = (Some p, s') \<and> p \<in> set (sc_paths s) \<and> wf_sched s'"
    using assms latency_scan_member [of "Some (hd (sc_paths s))" "set (sc_paths s)" "sc_paths s" s None]
    by (cases "sc_paths s") (auto simp: selectLowestLatency_def)
  ultimately show ?thesis
    using rr assms(2) by (auto simp: selectPath_def split: strategy.splits)
qed

fun select_n :: "nat \<Rightarrow> scheduler \<Rightarrow> sched_path option list \<times> scheduler" where
  "select_n 0 s = ([], s)"
| "select_n (Suc k) s = (case selectPath s of (p, s1) \<Rightarrow> case select_n k s1 of (ps, s2) \<Rightarrow> (p # ps, s2))"

lemma selectPath_rr:
  assumes "sc_strategy s = Round_robin" "wf_sched s" "sc_paths s \<noteq> []"
  shows "selectPath s = (Some (sc_paths s ! currentPathIndex s),
    s\<lparr>currentPathIndex := (currentPathIndex s + 1) mod length (sc_paths s)\<rparr>)"
  using assms by (auto simp: selectPath_def selectRoundRobin_def wf_sched_def)

lemma select_n_rr:
  "sc_strategy s = Round_robin \<Longrightarrow> wf_sched s \<Longrightarrow> sc_paths s \<noteq> [] \<Longrightarrow>
   select_n k s = (map (\<lambda>j. Some (sc_paths s ! ((currentPathIndex s + j) mod length (sc_paths s)))) [0..<k],
     s\<lparr>currentPathIndex := (currentPathIndex s + k) mod length (sc_paths s)\<rparr>)"
proof (induction k arbitrary: s)
  case 0
  then show ?case by (auto simp: wf_sched_def)
next
  case (Suc k)
  define s1 where "s1 = s\<lparr>currentPathIndex := (currentPathIndex s + 1) mod length (sc_paths s)\<rparr>"
  have "wf_sched s1" using Suc.prems by (auto simp: wf_sched_def s1_def)
  then have "select_n k s1 = (map (\<lambda>j. Some (sc_paths s1 ! ((currentPathIndex s1 + j) mod length (sc_paths s1)))) [0..<k],
     s1\<lparr>currentPathIndex := (currentPathIndex s1 + k) mod length (sc_paths s1)\<rparr>)"
    using Suc.prems by (intro Suc.IH) (simp_all add: s1_def)
  moreover have "[0..<Suc k] = 0 # map Suc [0..<k]" by (simp add: upt_conv_Cons map_Suc_upt del: upt_Suc)
  moreover have "currentPathIndex s < length (sc_paths s)" using Suc.prems by (auto simp: wf_sched_def)
  ultimately show ?case
    using selectPath_rr [OF Suc.prems] by (simp add: s1_def mod_simps comp_def del: upt_Suc)
qed

lemma count_sent_frame [simp]:
  "sc_paths (count_sent p s) = sc_paths s" "currentPathIndex (count_sent p s) = currentPathIndex s"
  "sc_strategy (count_sent p s) = sc_strategy s" "sc_flowId (count_sent p s) = sc_flowId s"
  "sequenceNumber (count_sent p s) = sequenceNumber s"
  by (simp_all add: count_sent_def split: option.splits)

lemma rot_inj:
  fixes i t u n :: nat
  assumes "(i + t) mod n = (i + u) mod n" "t < n" "u < n"
  shows "t = u"
proof -
  have "t = u" if "t \<le> u" "(i + u) mod n = (i + t) mod n" "u < n" for t u :: nat
  proof -
    have "n dvd u - t" using that(1,2) by (simp add: mod_eq_dvd_iff_nat)
    then show ?thesis using that(1,3) by (auto dest: dvd_imp_le)
  qed
  from this [of t u] this [of u t] show ?thesis using assms by (cases "t \<le> u") auto
qed

text \<open>Duplicating over paths with round-robin never retries: each copy takes the next path.\<close>

lemma multipath_loop_rr:
  assumes "ps \<noteq> []" "distinct (map getPathKey ps)"
  shows "sc_paths s = ps \<Longrightarrow> sc_strategy s = Round_robin \<Longrightarrow> currentPathIndex s = (i + j) mod length ps \<Longrightarrow>
    j + m \<le> length ps \<Longrightarrow> set used = (\<lambda>t. getPathKey (ps ! ((i + t) mod length ps))) ` {..<j} \<Longrightarrow>
    \<exists>s' pkts'. multipath_loop now payload seq totalN j m used pkts s = Inr (pkts @ pkts', s') \<and>
      map sk_path pkts' = map (\<lambda>t. ps ! ((i + t) mod length ps)) [j..<j + m] \<and>
      (\<forall>p \<in> set pkts'. sk_seq p = seq \<and> sk_payload p = payload \<and> sk_flowId p = sc_flowId s \<and> sk_totalPaths p = Some totalN) \<and>
      map sk_pathIndex pkts' = map Some [j..<j + m] \<and>
      sc_paths s' = ps \<and> currentPathIndex s' = (i + j + m) mod length ps \<and> sequenceNumber s' = sequenceNumber s"
proof (induction m arbitrary: j used pkts s)
  case 0
  then show ?case by auto
next
  case (Suc m)
  let ?n = "length ps"
  let ?p = "ps ! ((i + j) mod ?n)"
  define s1 where "s1 = s\<lparr>currentPathIndex := (i + Suc j) mod ?n\<rparr>"
  define s2 where "s2 = count_sent ?p s1"
  define pkt where "pkt = \<lparr>sk_flowId = sc_flowId s, sk_seq = seq, sk_pathIndex = Some j, sk_totalPaths = Some totalN,
          sk_path = ?p, sk_payload = payload, sk_timestamp = now\<rparr>"
  have wf: "wf_sched s" using Suc.prems assms(1) by (auto simp: wf_sched_def)
  have fresh: "getPathKey ?p \<notin> set used"
  proof
    assume "getPathKey ?p \<in> set used"
    then obtain t where t: "t < j" "getPathKey ?p = getPathKey (ps ! ((i + t) mod ?n))" using Suc.prems(5) by auto
    then have "map getPathKey ps ! ((i + j) mod ?n) = map getPathKey ps ! ((i + t) mod ?n)"
      using assms(1) by simp
    then have "(i + j) mod ?n = (i + t) mod ?n"
      using assms(1) nth_eq_iff_index_eq [OF assms(2)] by simp
    then show False using rot_inj [of i j ?n t] t(1) Suc.prems(4) by simp
  qed
  have sel: "selectPath s = (Some ?p, s1)"
    using selectPath_rr [OF Suc.prems(2) wf] Suc.prems assms(1) by (simp add: s1_def mod_simps)
  have "multipath_loop now payload seq totalN j (Suc m) used pkts s =
      multipath_loop now payload seq totalN (Suc j) m (set_add (getPathKey ?p) used) (pkts @ [pkt]) s2"
    using sel fresh assms(1) Suc.prems(1) by (cases "?n") (auto simp: s2_def pkt_def s1_def)
  moreover have "\<exists>s' pkts'. multipath_loop now payload seq totalN (Suc j) m (set_add (getPathKey ?p) used) (pkts @ [pkt]) s2 =
        Inr ((pkts @ [pkt]) @ pkts', s') \<and>
      map sk_path pkts' = map (\<lambda>t. ps ! ((i + t) mod ?n)) [Suc j..<Suc j + m] \<and>
      (\<forall>p \<in> set pkts'. sk_seq p = seq \<and> sk_payload p = payload \<and> sk_flowId p = sc_flowId s2 \<and> sk_totalPaths p = Some totalN) \<and>
      map sk_pathIndex pkts' = map Some [Suc j..<Suc j + m] \<and>
      sc_paths s' = ps \<and> currentPathIndex s' = (i + Suc j + m) mod ?n \<and> sequenceNumber s' = sequenceNumber s2"
    by (rule Suc.IH) (use Suc.prems in \<open>auto simp: s2_def s1_def lessThan_Suc\<close>)
  ultimately obtain s' pkts' where r: "multipath_loop now payload seq totalN j (Suc m) used pkts s = Inr (pkts @ (pkt # pkts'), s')"
      "map sk_path pkts' = map (\<lambda>t. ps ! ((i + t) mod ?n)) [Suc j..<Suc j + m]"
      "\<forall>p \<in> set pkts'. sk_seq p = seq \<and> sk_payload p = payload \<and> sk_flowId p = sc_flowId s2 \<and> sk_totalPaths p = Some totalN"
      "map sk_pathIndex pkts' = map Some [Suc j..<Suc j + m]"
      "sc_paths s' = ps \<and> currentPathIndex s' = (i + Suc j + m) mod ?n \<and> sequenceNumber s' = sequenceNumber s2" by auto
  have "[j..<j + Suc m] = j # [Suc j..<Suc j + m]" by (simp add: upt_conv_Cons del: upt_Suc)
  then show ?case
    using r by (intro exI [of _ s'] exI [of _ "pkt # pkts'"]) (simp add: pkt_def s2_def s1_def del: upt_Suc)
qed

section \<open>Duplicate suppression\<close>

lemma multi_key_inj: "multi_key p = multi_key q \<longleftrightarrow> mk_flowId p = mk_flowId q \<and> mk_seq p = mk_seq q"
proof
  assume "multi_key p = multi_key q"
  then have "rev (multi_key p) = rev (multi_key q)" by simp
  then have "rev (dec (mk_seq p)) @ 58 # rev (mk_flowId p) = rev (dec (mk_seq q)) @ 58 # rev (mk_flowId q)"
    by (simp add: multi_key_def)
  then show "mk_flowId p = mk_flowId q \<and> mk_seq p = mk_seq q"
    by (subst (asm) append_sep_inj) auto
qed (simp add: multi_key_def)

fun receive_all :: "(int \<times> multi_packet) list \<Rightarrow> reorder_buffer \<Rightarrow> multi_packet list \<times> reorder_buffer" where
  "receive_all [] b = ([], b)"
| "receive_all ((now, p) # ps) b =
     (case addPacket now p b of (out, b1) \<Rightarrow> case receive_all ps b1 of (outs, b2) \<Rightarrow> (out @ outs, b2))"

definition is_multi :: "multi_packet \<Rightarrow> bool" where
  "is_multi p = (case mk_totalPaths p of Some n \<Rightarrow> n > 1 | None \<Rightarrow> False)"

definition pkt_id :: "multi_packet \<Rightarrow> jsstring \<times> nat" where
  "pkt_id p = (mk_flowId p, mk_seq p)"

lemma receive_all_dedupe:
  assumes "\<forall>(t, p) \<in> set ps. is_multi p" "receive_all ps b = (outs, b')"
  shows "distinct (map pkt_id outs) \<and> set outs \<subseteq> snd ` set ps \<and>
    (\<forall>p \<in> set outs. map_get (seenMultipath b) (multi_key p) = None) \<and>
    (\<forall>(t, p) \<in> set ps. map_get (seenMultipath b) (multi_key p) = None \<longrightarrow> pkt_id p \<in> pkt_id ` set outs)"
  using assms
proof (induction ps arbitrary: b outs b')
  case Nil
  then show ?case by simp
next
  case (Cons tp ps)
  obtain t p where tp: "tp = (t, p)" by (cases tp)
  have multi: "is_multi p" using Cons.prems tp by auto
  show ?case
  proof (cases "map_get (seenMultipath b) (multi_key p)")
    case (Some u)
    then have "receive_all ps b = (outs, b')"
      using Cons.prems(2) multi by (auto simp: tp addPacket_def is_multi_def split: prod.splits)
    from Cons.IH [OF _ this] Some Cons.prems(1) show ?thesis by (auto simp: tp)
  next
    case None
    define b1 where "b1 = b\<lparr>seenMultipath := map_put (multi_key p) t (seenMultipath b)\<rparr>"
    obtain os where os: "receive_all ps b1 = (os, b')" "outs = p # os"
      using Cons.prems(2) multi None by (auto simp: tp addPacket_def is_multi_def b1_def split: prod.splits)
    have IH: "distinct (map pkt_id os) \<and> set os \<subseteq> snd ` set ps \<and>
        (\<forall>p \<in> set os. map_get (seenMultipath b1) (multi_key p) = None) \<and>
        (\<forall>(t, p) \<in> set ps. map_get (seenMultipath b1) (multi_key p) = None \<longrightarrow> pkt_id p \<in> pkt_id ` set os)"
      using Cons.IH [OF _ os(1)] Cons.prems(1) by simp
    moreover have "pkt_id p \<notin> pkt_id ` set os"
    proof
      assume "pkt_id p \<in> pkt_id ` set os"
      then obtain q where "q \<in> set os" "multi_key p = multi_key q" by (auto simp: multi_key_inj pkt_id_def)
      then show False using IH by (auto simp: b1_def)
    qed
    moreover have "\<forall>q \<in> set outs. map_get (seenMultipath b) (multi_key q) = None"
      using IH None unfolding os(2) by (simp add: b1_def) metis
    moreover have "pkt_id q \<in> pkt_id ` set outs" if "(u, q) \<in> set ((t, p) # ps)" "map_get (seenMultipath b) (multi_key q) = None" for u q
    proof (cases "multi_key q = multi_key p")
      case True
      then show ?thesis by (simp add: os(2) multi_key_inj pkt_id_def)
    next
      case False
      then have "(u, q) \<in> set ps" "map_get (seenMultipath b1) (multi_key q) = None" using that by (auto simp: b1_def)
      then show ?thesis using IH by (auto simp: os(2))
    qed
    ultimately show ?thesis unfolding tp by (auto simp: os(2))
  qed
qed

section \<open>Properties\<close>

text \<open>Path selection never fails on a well-formed scheduler: with at least one path every strategy
  returns one of the configured paths and keeps the round-robin index in range, and adding or
  removing paths, acknowledgements and losses keep it in range too.\<close>

theorem scheduler_select_total:
  assumes "wf_sched s"
  shows "(sc_paths s \<noteq> [] \<longrightarrow> (\<exists>p s'. selectPath s = (Some p, s') \<and> p \<in> set (sc_paths s) \<and> wf_sched s')) \<and>
    wf_sched (addPath p s) \<and> wf_sched (removePath p s) \<and> wf_sched (recordAck k l s) \<and> wf_sched (recordLoss k s)"
proof -
  have "wf_sched (removePath p s)"
    using assms by (cases "remove_key (getPathKey p) (sc_paths s)") (auto simp: removePath_def Let_def wf_sched_def)
  moreover have "wf_sched (recordAck k l s)" "wf_sched (recordLoss k s)" "wf_sched (addPath p s)"
    using assms by (auto simp: recordAck_def recordLoss_def adjustWeight_def addPath_def wf_sched_def Let_def split: option.splits)
  ultimately show ?thesis using selectPath_member [OF assms] by blast
qed

theorem scheduler_select_total_witness:
  "\<exists>p s'. selectPath (addPath \<lparr>sp_route = [js ''a''], sp_exitNode = js ''x''\<rparr>
      (new_MultipathScheduler (js ''f'') Weighted (\<lambda>_. 1 / 2))) = (Some p, s') \<and> wf_sched s'"
proof -
  let ?p = "\<lparr>sp_route = [js ''a''], sp_exitNode = js ''x''\<rparr>" and ?s = "new_MultipathScheduler (js ''f'') Weighted (\<lambda>_. 1 / 2)"
  have "wf_sched ?s" by (simp add: wf_sched_def new_MultipathScheduler_def)
  from scheduler_select_total [OF this, of ?p] have "wf_sched (addPath ?p ?s)" by blast
  moreover have "sc_paths (addPath ?p ?s) \<noteq> []" by (simp add: addPath_def new_MultipathScheduler_def)
  ultimately show ?thesis using scheduler_select_total [of "addPath ?p ?s" ?p "[]" 0] by blast
qed

text \<open>Round-robin is fair: as many selections as there are paths return every path exactly once, in
  order from the current index, and bring the index back to where it was.\<close>

theorem round_robin_fair:
  assumes "sc_strategy s = Round_robin" "wf_sched s" "sc_paths s \<noteq> []"
  shows "select_n (length (sc_paths s)) s = (map Some (rotate (currentPathIndex s) (sc_paths s)), s)"
proof -
  let ?n = "length (sc_paths s)"
  have "map (\<lambda>j. sc_paths s ! ((currentPathIndex s + j) mod ?n)) [0..<?n] = rotate (currentPathIndex s) (sc_paths s)"
    by (rule nth_equalityI) (simp_all add: nth_rotate)
  then have "map (\<lambda>j. Some (sc_paths s ! ((currentPathIndex s + j) mod ?n))) [0..<?n] =
      map Some (rotate (currentPathIndex s) (sc_paths s))"
    by (metis (no_types, lifting) list.map_comp map_eq_conv comp_apply)
  moreover have "s\<lparr>currentPathIndex := (currentPathIndex s + ?n) mod ?n\<rparr> = s"
    using assms(2,3) by (auto simp: wf_sched_def)
  ultimately show ?thesis using select_n_rr [OF assms] by simp
qed

definition demo_paths :: "sched_path list" where
  "demo_paths = map (\<lambda>n. \<lparr>sp_route = [[n]], sp_exitNode = [n]\<rparr>) [97, 98, 99]"

definition demo_sched :: scheduler where
  "demo_sched = setPaths demo_paths (new_MultipathScheduler (js ''f'') Round_robin (\<lambda>_. 0))"

lemma demo_sched_fields: "sc_paths demo_sched = demo_paths" "sc_strategy demo_sched = Round_robin" "currentPathIndex demo_sched = 0"
  by (simp_all add: demo_sched_def setPaths_def demo_paths_def new_MultipathScheduler_def)

theorem round_robin_fair_witness:
  "select_n 3 demo_sched = (map Some demo_paths, demo_sched)"
proof -
  have "length demo_paths = 3" "demo_paths \<noteq> []" by (simp_all add: demo_paths_def)
  then show ?thesis using round_robin_fair [of demo_sched] by (auto simp: demo_sched_fields wf_sched_def simp del: select_n.simps)
qed

text \<open>Duplicating a packet over several paths (round-robin, paths with different keys): exactly
  \<open>min pathCount (number of paths)\<close> copies are produced, on pairwise different paths, all with the same flow
  id, sequence number and payload, numbered 0, 1, ..., and the sequence number advances by one.\<close>

theorem multipath_distinct_paths:
  assumes "sc_strategy s = Round_robin" "wf_sched s" "sc_paths s \<noteq> []" "distinct (map getPathKey (sc_paths s))"
  shows "\<exists>pkts s'. schedulePacketMultipath now payload pathCount s = Inr (pkts, s') \<and>
    length pkts = min pathCount (length (sc_paths s)) \<and> distinct (map sk_path pkts) \<and>
    set (map sk_path pkts) \<subseteq> set (sc_paths s) \<and> map sk_pathIndex pkts = map Some [0..<length pkts] \<and>
    (\<forall>p \<in> set pkts. sk_seq p = sequenceNumber s \<and> sk_payload p = payload \<and> sk_flowId p = sc_flowId s \<and>
       sk_totalPaths p = Some (length pkts)) \<and>
    sequenceNumber s' = sequenceNumber s + 1 \<and> wf_sched s'"
proof -
  let ?n = "length (sc_paths s)" and ?i = "currentPathIndex s"
  define m where "m = min pathCount ?n"
  have i: "?i < ?n" using assms(2,3) by (auto simp: wf_sched_def)
  obtain s' pkts where r: "multipath_loop now payload (sequenceNumber s) m 0 m [] [] (s\<lparr>sequenceNumber := sequenceNumber s + 1\<rparr>) =
        Inr (pkts, s')" "map sk_path pkts = map (\<lambda>t. sc_paths s ! ((?i + t) mod ?n)) [0..<m]"
      "\<forall>p \<in> set pkts. sk_seq p = sequenceNumber s \<and> sk_payload p = payload \<and> sk_flowId p = sc_flowId s \<and> sk_totalPaths p = Some m"
      "map sk_pathIndex pkts = map Some [0..<m]" "sc_paths s' = sc_paths s" "currentPathIndex s' = (?i + m) mod ?n"
      "sequenceNumber s' = sequenceNumber s + 1"
    using multipath_loop_rr [OF assms(3,4), of "s\<lparr>sequenceNumber := sequenceNumber s + 1\<rparr>" ?i 0 m "[]" now payload "sequenceNumber s" m "[]"]
      assms(1) i by (auto simp: m_def)
  have len: "length pkts = m" using arg_cong [OF r(2), of length] by simp
  have "inj_on (\<lambda>t. sc_paths s ! ((?i + t) mod ?n)) {0..<m}"
  proof (rule inj_onI)
    fix t u
    assume tu: "t \<in> {0..<m}" "u \<in> {0..<m}" "sc_paths s ! ((?i + t) mod ?n) = sc_paths s ! ((?i + u) mod ?n)"
    have "distinct (sc_paths s)" using assms(4) by (simp add: distinct_map)
    moreover have "(?i + t) mod ?n < ?n" "(?i + u) mod ?n < ?n" using i by (auto intro!: mod_less_divisor)
    ultimately have "(?i + t) mod ?n = (?i + u) mod ?n" using tu(3) nth_eq_iff_index_eq by blast
    then show "t = u" using rot_inj [of ?i t ?n u] tu(1,2) by (simp add: m_def)
  qed
  then have "distinct (map sk_path pkts)" unfolding r(2) by (simp add: distinct_map)
  moreover have "set (map sk_path pkts) \<subseteq> set (sc_paths s)"
    unfolding r(2) using i by (auto intro!: nth_mem mod_less_divisor)
  then have "sk_path ` set pkts \<subseteq> set (sc_paths s)" by (simp only: set_map)
  moreover have "wf_sched s'" unfolding wf_sched_def r(5,6) using i by (intro disjI1 mod_less_divisor) linarith
  ultimately show ?thesis
    using r assms(3) len by (simp add: schedulePacketMultipath_def Let_def m_def)
qed

theorem multipath_distinct_paths_witness:
  "\<exists>pkts s'. schedulePacketMultipath 0 [1] 2 demo_sched = Inr (pkts, s') \<and> length pkts = 2 \<and> distinct (map sk_path pkts)"
proof -
  have d: "length demo_paths = 3" "demo_paths \<noteq> []" "distinct (map getPathKey demo_paths)"
    by (simp_all add: demo_paths_def getPathKey_def)
  then show ?thesis
    using multipath_distinct_paths [of demo_sched 0 "[1]" 2] by (auto simp: demo_sched_fields wf_sched_def)
qed

text \<open>Replacing the paths does not reset the round-robin index: after two selections from three
  paths, a scheduler that is given a single new path returns \<open>undefined\<close> for the next packet, so
  \<open>schedulePacket\<close> drops it and \<open>schedulePacketMultipath\<close> throws, although a path is configured.\<close>

theorem setPaths_stale_index:
  "let s = setPaths [\<lparr>sp_route = [[100]], sp_exitNode = [100]\<rparr>] (snd (select_n 2 demo_sched)) in
   sc_paths s \<noteq> [] \<and> fst (selectPath s) = None \<and> fst (schedulePacket 0 [1] s) = None \<and>
   schedulePacketMultipath 0 [1] 2 s = Inl TypeError"
proof -
  have "wf_sched demo_sched" "sc_paths demo_sched \<noteq> []" "length demo_paths = 3"
    by (simp_all add: demo_sched_fields wf_sched_def demo_paths_def)
  then have "snd (select_n 2 demo_sched) = demo_sched\<lparr>currentPathIndex := 2\<rparr>"
    using select_n_rr [of demo_sched 2] by (simp add: demo_sched_fields del: select_n.simps)
  then show ?thesis
    by (simp add: Let_def setPaths_def selectPath_def selectRoundRobin_def schedulePacket_def schedulePacketMultipath_def
        demo_sched_fields numeral_2_eq_2)
qed

text \<open>Weights stay positive and bounded: adjusting the weight of a path gives a value of at least 0.1,
  and at most 10 when no more packets were acknowledged than sent and latencies are not negative.\<close>

theorem weight_bounds:
  assumes "map_get (pathStats s) k = Some st" "ps_acked st \<le> ps_sent st" "\<forall>l \<in> set (ps_latency st). 0 \<le> l"
  shows "\<exists>w. map_get (pathWeights (adjustWeight k s)) k = Some w \<and> 1 / 10 \<le> w \<and> w \<le> 10"
proof -
  define rate :: rat where "rate = (if ps_sent st > 0 then of_nat (ps_acked st) / of_nat (ps_sent st) else 1)"
  define lat :: rat where "lat = (if ps_latency st \<noteq> [] then avg (ps_latency st) else 100)"
  have "0 \<le> sum_list (ps_latency st)" using assms(3) by (simp add: sum_list_nonneg)
  then have lat: "0 \<le> lat" by (simp add: lat_def avg_def)
  have "rate \<le> 1" "0 \<le> rate" using assms(2) by (simp_all add: rate_def divide_le_eq)
  moreover have "1000 / (lat + 100) \<le> 10" "0 \<le> 1000 / (lat + 100)" using lat by (simp_all add: divide_le_eq)
  ultimately have "rate * (1000 / (lat + 100)) \<le> 1 * 10" by (intro mult_mono) auto
  then have "1 / 10 \<le> max (1 / 10) (rate * (1000 / (lat + 100)))" "max (1 / 10) (rate * (1000 / (lat + 100))) \<le> 10"
    by (simp_all only: max.cobounded1 max.bounded_iff) auto
  moreover have "map_get (pathWeights (adjustWeight k s)) k = Some (max (1 / 10) (rate * (1000 / (lat + 100))))"
    using assms(1) by (simp only: adjustWeight_def Let_def option.case rate_def [symmetric] lat_def [symmetric]) simp
  ultimately show ?thesis by blast
qed

theorem weight_bounds_witness:
  "\<exists>w. map_get (pathWeights (adjustWeight [97] (demo_sched\<lparr>pathStats := [([97],
      \<lparr>ps_sent = 4, ps_acked = 3, ps_lost = 0, ps_latency = [20, 40]\<rparr>)]\<rparr>))) [97] = Some w \<and> 1 / 10 \<le> w \<and> w \<le> 10"
  by (rule weight_bounds [where st = "\<lparr>ps_sent = 4, ps_acked = 3, ps_lost = 0, ps_latency = [20, 40]\<rparr>"]) simp_all

text \<open>Duplicate suppression: of the copies of multipath packets that arrive (in any order, with no
  cleanup in between) exactly one per flow id and sequence number is delivered, and nothing else is.\<close>

theorem multipath_dedupe:
  assumes "\<forall>(t, p) \<in> set ps. is_multi p"
  shows "distinct (map pkt_id (fst (receive_all ps (new_ReorderBuffer w tmo)))) \<and>
    pkt_id ` set (fst (receive_all ps (new_ReorderBuffer w tmo))) = (\<lambda>(t, p). pkt_id p) ` set ps"
proof -
  obtain outs b where r: "receive_all ps (new_ReorderBuffer w tmo) = (outs, b)" by fastforce
  have "seenMultipath (new_ReorderBuffer w tmo) = []" by (simp add: new_ReorderBuffer_def)
  then have "distinct (map pkt_id outs)" "set outs \<subseteq> snd ` set ps" "\<forall>(t, p) \<in> set ps. pkt_id p \<in> pkt_id ` set outs"
    using receive_all_dedupe [OF assms r] by auto
  then show ?thesis using r by (auto simp: image_iff split_beta) force+
qed

theorem multipath_dedupe_witness:
  "pkt_id ` set (fst (receive_all
      [(0, \<lparr>mk_flowId = js ''f'', mk_seq = 1, mk_payload = [1], mk_totalPaths = Some 2\<rparr>),
       (3, \<lparr>mk_flowId = js ''f'', mk_seq = 1, mk_payload = [1], mk_totalPaths = Some 2\<rparr>)] (new_ReorderBuffer None None)))
   = {(js ''f'', 1)}"
  using multipath_dedupe [of "[(0, \<lparr>mk_flowId = js ''f'', mk_seq = 1, mk_payload = [1], mk_totalPaths = Some 2\<rparr>),
       (3, \<lparr>mk_flowId = js ''f'', mk_seq = 1, mk_payload = [1], mk_totalPaths = Some 2\<rparr>)]" None None]
  by (simp add: is_multi_def pkt_id_def)

text \<open>The reorder buffer does not reorder: whatever arrives, \<open>addPacket\<close> never stores a packet, so the
  buffer stays empty and the expected sequence number stays 0, packets outside multipath are delivered
  in the order of arrival, and the cleanup only forgets old duplicates.\<close>

theorem reorder_buffer_passthrough:
  assumes "rb_buffer b = []" "expectedSeq b = 0"
  shows "rb_buffer (snd (receive_all ps b)) = [] \<and> expectedSeq (snd (receive_all ps b)) = 0 \<and>
    ((\<forall>(t, p) \<in> set ps. \<not> is_multi p) \<longrightarrow> fst (receive_all ps b) = map snd ps) \<and>
    (\<exists>b'. rb_cleanup now b = Some ([], b') \<and> rb_buffer b' = [] \<and> expectedSeq b' = 0 \<and>
       (\<forall>k t. map_get (seenMultipath b') k = Some t \<longleftrightarrow>
          map_get (seenMultipath b) k = Some t \<and> \<not> now - t > rb_timeout b * 2))"
proof -
  have "rb_buffer (snd (receive_all ps b)) = rb_buffer b \<and> expectedSeq (snd (receive_all ps b)) = expectedSeq b \<and>
      ((\<forall>(t, p) \<in> set ps. \<not> is_multi p) \<longrightarrow> fst (receive_all ps b) = map snd ps)" for b
    by (induction ps b rule: receive_all.induct)
      (auto simp: addPacket_def is_multi_def split: prod.splits)
  then show ?thesis
    using assms by (auto simp: rb_cleanup_def jsd.sweep_survivor)
qed

theorem reorder_buffer_passthrough_witness:
  "fst (receive_all [(0, \<lparr>mk_flowId = js ''f'', mk_seq = 2, mk_payload = [2], mk_totalPaths = None\<rparr>),
       (1, \<lparr>mk_flowId = js ''f'', mk_seq = 1, mk_payload = [1], mk_totalPaths = None\<rparr>)] (new_ReorderBuffer None None))
   = [\<lparr>mk_flowId = js ''f'', mk_seq = 2, mk_payload = [2], mk_totalPaths = None\<rparr>,
      \<lparr>mk_flowId = js ''f'', mk_seq = 1, mk_payload = [1], mk_totalPaths = None\<rparr>]"
  using reorder_buffer_passthrough [of "new_ReorderBuffer None None"
      "[(0, \<lparr>mk_flowId = js ''f'', mk_seq = 2, mk_payload = [2], mk_totalPaths = None\<rparr>),
       (1, \<lparr>mk_flowId = js ''f'', mk_seq = 1, mk_payload = [1], mk_totalPaths = None\<rparr>)]" 0]
  by (simp add: new_ReorderBuffer_def is_multi_def)

end
