(* ===== verification/Address_Tables.thy ===== *)
theory Address_Tables
  imports Mesh_Prelude
begin

text \<open>
  \<open>src/network/ip-manager.js\<close> (\<open>VirtualIPManager\<close>, \<open>RoutingTable\<close>) and
  \<open>src/exit/nat.js\<close> (\<open>NATTable\<close>). Addresses are strings as in the code; the tables are
  insertion-ordered maps, expiry sweeps are those of the locale \<open>dict\<close>.
\<close>

section \<open>VirtualIPManager\<close>

record ip_alloc =
  ia_nodeId :: jsstring
  ia_allocatedAt :: int

record ip_manager =
  networkBase :: jsstring
  nextIp :: nat
  maxIp :: nat
  allocations :: "(jsstring, ip_alloc) jsmap"
  nodeToIp :: "(jsstring, jsstring) jsmap"
  reservedIps :: "nat list"

definition new_VirtualIPManager :: "jsstring option \<Rightarrow> nat option \<Rightarrow> nat option \<Rightarrow> ip_manager" where
  "new_VirtualIPManager base startIp maxI =
     \<lparr>networkBase = (case base of Some b \<Rightarrow> if b = [] then js ''10.200.0'' else b | None \<Rightarrow> js ''10.200.0''),
      nextIp = (case startIp of Some n \<Rightarrow> if n = 0 then 2 else n | None \<Rightarrow> 2),
      maxIp = (case maxI of Some n \<Rightarrow> if n = 0 then 65534 else n | None \<Rightarrow> 65534),
      allocations = [], nodeToIp = [], reservedIps = [1, 255]\<rparr>"

text \<open>\<open>s.split('.')\<close>.\<close>

fun split_on :: "nat \<Rightarrow> jsstring \<Rightarrow> jsstring list" where
  "split_on c [] = [[]]"
| "split_on c (x # xs) =
     (if x = c then [] # split_on c xs
      else case split_on c xs of w # ws \<Rightarrow> (x # w) # ws | [] \<Rightarrow> [[x]])"

text \<open>\<open>arr[i]\<close> in a template literal: \<open>undefined\<close> outside the array.\<close>

definition part :: "jsstring list \<Rightarrow> nat \<Rightarrow> jsstring" where
  "part xs i = (if i < length xs then xs ! i else js ''undefined'')"

definition formatIp :: "jsstring \<Rightarrow> nat \<Rightarrow> jsstring" where
  "formatIp base n =
     (if n \<le> 255 then base @ 46 # dec n
      else let baseParts = split_on 46 base in
        part baseParts 0 @ 46 # part baseParts 1 @ 46 # dec (n div 256) @ 46 # dec (n mod 256))"

text \<open>The \<open>while\<close> loop of \<open>allocate\<close>: the address found and the advanced counter.\<close>

function find_free :: "ip_manager \<Rightarrow> jsstring option \<times> ip_manager" where
  "find_free m =
     (if nextIp m \<le> maxIp m then
        let candidateIp = formatIp (networkBase m) (nextIp m);
            m' = m\<lparr>nextIp := nextIp m + 1\<rparr> in
        if map_get (allocations m') candidateIp = None \<and> nextIp m' - 1 \<notin> set (reservedIps m')
        then (Some candidateIp, m') else find_free m'
      else (None, m))"
  by pat_completeness auto
termination by (relation "measure (\<lambda>m. Suc (maxIp m) - nextIp m)") auto

declare find_free.simps [simp del]

definition put_alloc :: "int \<Rightarrow> jsstring \<Rightarrow> jsstring \<Rightarrow> ip_manager \<Rightarrow> ip_manager" where
  "put_alloc now nodeId ip m =
     m\<lparr>allocations := map_put ip \<lparr>ia_nodeId = nodeId, ia_allocatedAt = now\<rparr> (allocations m),
       nodeToIp := map_put nodeId ip (nodeToIp m)\<rparr>"

definition allocate :: "int \<Rightarrow> jsstring \<Rightarrow> ip_manager \<Rightarrow> (jsstring res) \<times> ip_manager" where
  "allocate now nodeId m =
     (case map_get (nodeToIp m) nodeId of
        Some ip \<Rightarrow> (Inr ip, m)
      | None \<Rightarrow>
          (case find_free m of
             (Some ip, m') \<Rightarrow> (Inr ip, put_alloc now nodeId ip m')
           | (None, m') \<Rightarrow> (Inl (Err ''No available IP addresses''), m')))"

definition release :: "jsstring \<Rightarrow> ip_manager \<Rightarrow> bool \<times> ip_manager" where
  "release nodeId m =
     (case map_get (nodeToIp m) nodeId of
        None \<Rightarrow> (False, m)
      | Some ip \<Rightarrow> if ip = [] then (False, m)
          else (True, m\<lparr>allocations := map_del ip (allocations m), nodeToIp := map_del nodeId (nodeToIp m)\<rparr>))"

definition getIpForNode :: "ip_manager \<Rightarrow> jsstring \<Rightarrow> jsstring option" where
  "getIpForNode m nodeId = (case map_get (nodeToIp m) nodeId of Some ip \<Rightarrow> or_null ip | None \<Rightarrow> None)"

definition getNodeForIp :: "ip_manager \<Rightarrow> jsstring \<Rightarrow> jsstring option" where
  "getNodeForIp m ip = map_option ia_nodeId (map_get (allocations m) ip)"

definition setAllocation :: "int \<Rightarrow> jsstring \<Rightarrow> jsstring \<Rightarrow> ip_manager \<Rightarrow> ip_manager res" where
  "setAllocation now nodeId ip m =
     (if (case map_get (allocations m) ip of Some a \<Rightarrow> ia_nodeId a \<noteq> nodeId | None \<Rightarrow> False)
      then Inl (Err ''IP already allocated to another node'')
      else let m' = (case map_get (nodeToIp m) nodeId of
              Some existingIp \<Rightarrow> if existingIp \<noteq> [] \<and> existingIp \<noteq> ip
                then m\<lparr>allocations := map_del existingIp (allocations m)\<rparr> else m
            | None \<Rightarrow> m) in
        Inr (put_alloc now nodeId ip m'))"

text \<open>\<open>parseInt(ip.split('.')[3], 10)\<close>: the leading digits, or no number.\<close>

definition last_octet :: "jsstring \<Rightarrow> nat option" where
  "last_octet ip =
     (let ds = takeWhile (\<lambda>c. 48 \<le> c \<and> c \<le> 57) (part (split_on 46 ip) 3) in
      if ds = [] then None else Some (from_radix 10 ds))"

definition reserve :: "jsstring \<Rightarrow> ip_manager \<Rightarrow> ip_manager" where
  "reserve ip m = (case last_octet ip of Some n \<Rightarrow> m\<lparr>reservedIps := set_add n (reservedIps m)\<rparr> | None \<Rightarrow> m)"

definition isInNetwork :: "ip_manager \<Rightarrow> jsstring \<Rightarrow> bool" where
  "isInNetwork m ip =
     (let parts = split_on 46 ip; networkParts = split_on 46 (networkBase m) in
      length parts = 4 \<and> part parts 0 = part networkParts 0 \<and> part parts 1 = part networkParts 1)"

definition getAllocations :: "ip_manager \<Rightarrow> (jsstring \<times> ip_alloc) list" where
  "getAllocations m = allocations m"

definition getStats :: "ip_manager \<Rightarrow> nat \<times> jsstring" where
  "getStats m = (length (allocations m), formatIp (networkBase m) (nextIp m))"

definition clear_ips :: "ip_manager \<Rightarrow> ip_manager" where
  "clear_ips m = m\<lparr>allocations := [], nodeToIp := [], nextIp := 2\<rparr>"

section \<open>RoutingTable\<close>

record route_entry =
  rt_nodeId :: jsstring
  rt_nextHop :: jsstring
  rt_hops :: nat
  rt_direct :: bool
  rt_updatedAt :: int

record routing_table =
  rt_localNodeId :: jsstring
  rt_routes :: "(jsstring, route_entry) jsmap"
  directPeers :: "jsstring list"

definition new_RoutingTable :: "jsstring \<Rightarrow> routing_table" where
  "new_RoutingTable me = \<lparr>rt_localNodeId = me, rt_routes = [], directPeers = []\<rparr>"

definition addDirectPeer :: "int \<Rightarrow> jsstring \<Rightarrow> jsstring \<Rightarrow> routing_table \<Rightarrow> routing_table" where
  "addDirectPeer now nodeId virtualIp t =
     t\<lparr>directPeers := set_add nodeId (directPeers t),
       rt_routes := map_put virtualIp \<lparr>rt_nodeId = nodeId, rt_nextHop = nodeId, rt_hops = 1, rt_direct = True,
         rt_updatedAt = now\<rparr> (rt_routes t)\<rparr>"

definition removeDirectPeer :: "jsstring \<Rightarrow> routing_table \<Rightarrow> routing_table" where
  "removeDirectPeer nodeId t =
     t\<lparr>directPeers := set_del nodeId (directPeers t),
       rt_routes := jsd.sweep (\<lambda>r. rt_nextHop r = nodeId) (rt_routes t)\<rparr>"

definition addRoute :: "int \<Rightarrow> jsstring \<Rightarrow> jsstring \<Rightarrow> jsstring \<Rightarrow> nat \<Rightarrow> routing_table \<Rightarrow> routing_table" where
  "addRoute now virtualIp nodeId nextHop hops t =
     (if (case map_get (rt_routes t) virtualIp of None \<Rightarrow> True | Some r \<Rightarrow> rt_hops r > hops)
      then t\<lparr>rt_routes := map_put virtualIp \<lparr>rt_nodeId = nodeId, rt_nextHop = nextHop, rt_hops = hops,
             rt_direct = False, rt_updatedAt = now\<rparr> (rt_routes t)\<rparr>
      else t)"

definition getRoute :: "routing_table \<Rightarrow> jsstring \<Rightarrow> route_entry option" where
  "getRoute t ip = map_get (rt_routes t) ip"

definition rt_getNextHop :: "routing_table \<Rightarrow> jsstring \<Rightarrow> jsstring option" where
  "rt_getNextHop t ip = map_option rt_nextHop (map_get (rt_routes t) ip)"

definition hasRoute :: "routing_table \<Rightarrow> jsstring \<Rightarrow> bool" where
  "hasRoute t ip \<longleftrightarrow> map_get (rt_routes t) ip \<noteq> None"

definition clear_routes :: "routing_table \<Rightarrow> routing_table" where
  "clear_routes t = t\<lparr>rt_routes := [], directPeers := []\<rparr>"

section \<open>NATTable\<close>

record nat_entry =
  ne_key :: jsstring
  ne_srcNodeId :: jsstring
  ne_srcIp :: jsstring
  ne_srcPort :: nat
  ne_dstIp :: jsstring
  ne_dstPort :: nat
  ne_protocol :: jsstring
  ne_createdAt :: int
  ne_lastUsed :: int

record nat_table =
  nt_entries :: "(jsstring, nat_entry) jsmap"
  nt_timeout :: int
  nt_timer :: bool

definition new_NATTable :: "int option \<Rightarrow> nat_table" where
  "new_NATTable timeout =
     \<lparr>nt_entries = [], nt_timeout = (case timeout of Some t \<Rightarrow> if t = 0 then 300000 else t | None \<Rightarrow> 300000),
      nt_timer = False\<rparr>"

definition nat_start :: "nat_table \<Rightarrow> nat_table" where
  "nat_start t = t\<lparr>nt_timer := True\<rparr>"

definition nat_stop :: "nat_table \<Rightarrow> nat_table" where
  "nat_stop t = t\<lparr>nt_timer := False, nt_entries := []\<rparr>"

definition nat_key :: "jsstring \<Rightarrow> nat \<Rightarrow> jsstring \<Rightarrow> nat \<Rightarrow> jsstring \<Rightarrow> jsstring" where
  "nat_key srcIp srcPort dstIp dstPort protocol =
     srcIp @ 58 # dec srcPort @ 58 # dstIp @ 58 # dec dstPort @ 58 # protocol"

definition findMapping :: "int \<Rightarrow> jsstring \<Rightarrow> nat_table \<Rightarrow> nat_entry option \<times> nat_table" where
  "findMapping now key t =
     (case map_get (nt_entries t) key of
        Some e \<Rightarrow> (Some (e\<lparr>ne_lastUsed := now\<rparr>), t\<lparr>nt_entries := map_put key (e\<lparr>ne_lastUsed := now\<rparr>) (nt_entries t)\<rparr>)
      | None \<Rightarrow> (None, t))"

definition createMapping ::
    "int \<Rightarrow> jsstring \<Rightarrow> jsstring \<Rightarrow> nat \<Rightarrow> jsstring \<Rightarrow> nat \<Rightarrow> jsstring \<Rightarrow> nat_table \<Rightarrow> nat_entry \<times> nat_table" where
  "createMapping now srcNodeId srcIp srcPort dstIp dstPort protocol t =
     (let key = nat_key srcIp srcPort dstIp dstPort protocol in
      case map_get (nt_entries t) key of
        Some e \<Rightarrow> (e\<lparr>ne_lastUsed := now\<rparr>, t\<lparr>nt_entries := map_put key (e\<lparr>ne_lastUsed := now\<rparr>) (nt_entries t)\<rparr>)
      | None \<Rightarrow>
          let e = \<lparr>ne_key = key, ne_srcNodeId = srcNodeId, ne_srcIp = srcIp, ne_srcPort = srcPort, ne_dstIp = dstIp,
                   ne_dstPort = dstPort, ne_protocol = protocol, ne_createdAt = now, ne_lastUsed = now\<rparr> in
          (e, t\<lparr>nt_entries := map_put key e (nt_entries t)\<rparr>))"

definition findByResponse :: "int \<Rightarrow> jsstring \<Rightarrow> nat \<Rightarrow> jsstring \<Rightarrow> nat \<Rightarrow> jsstring \<Rightarrow> nat_table \<Rightarrow> nat_entry option \<times> nat_table" where
  "findByResponse now dstIp dstPort srcIp srcPort protocol t =
     findMapping now (nat_key dstIp dstPort srcIp srcPort protocol) t"

definition removeMapping :: "jsstring \<Rightarrow> nat_table \<Rightarrow> nat_table" where
  "removeMapping key t = (if map_get (nt_entries t) key \<noteq> None then t\<lparr>nt_entries := map_del key (nt_entries t)\<rparr> else t)"

definition nat_cleanup :: "int \<Rightarrow> nat_table \<Rightarrow> nat_table" where
  "nat_cleanup now t =
     fold removeMapping (map fst (filter (\<lambda>(key, e). now - ne_lastUsed e > nt_timeout t) (nt_entries t))) t"

definition nat_getStats :: "nat_table \<Rightarrow> nat" where
  "nat_getStats t = length (nt_entries t)"

section \<open>Address allocation\<close>

text \<open>The two maps of the manager are inverse to each other.\<close>

definition wf_ips :: "ip_manager \<Rightarrow> bool" where
  "wf_ips m \<longleftrightarrow> (\<forall>n ip. map_get (nodeToIp m) n = Some ip \<longleftrightarrow> getNodeForIp m ip = Some n)
     \<and> map_get (allocations m) [] = None"

lemma formatIp_nonempty [simp]: "formatIp base n \<noteq> []"
  by (simp add: formatIp_def Let_def)

definition free_index :: "ip_manager \<Rightarrow> nat \<Rightarrow> bool" where
  "free_index m n \<longleftrightarrow> n \<le> maxIp m \<and> n \<notin> set (reservedIps m) \<and> map_get (allocations m) (formatIp (networkBase m) n) = None"

lemma find_free_spec:
  "\<exists>k \<ge> nextIp m. snd (find_free m) = m\<lparr>nextIp := k\<rparr> \<and>
     (case fst (find_free m) of
        Some ip \<Rightarrow> nextIp m < k \<and> free_index m (k - 1) \<and> ip = formatIp (networkBase m) (k - 1) \<and>
          (\<forall>n. nextIp m \<le> n \<and> n < k - 1 \<longrightarrow> \<not> free_index m n)
      | None \<Rightarrow> \<forall>n \<ge> nextIp m. \<not> free_index m n)"
proof (induction m rule: find_free.induct)
  case (1 m)
  define m' where "m' = m\<lparr>nextIp := nextIp m + 1\<rparr>"
  have same: "free_index m' n = free_index m n" for n by (simp add: free_index_def m'_def)
  consider "maxIp m < nextIp m" | "free_index m (nextIp m)" | "nextIp m \<le> maxIp m" "\<not> free_index m (nextIp m)"
    by (meson not_le_imp_less)
  then show ?case
  proof cases
    case 1
    then show ?thesis
      by (intro exI [of _ "nextIp m"]) (auto simp: find_free.simps [of m] free_index_def)
  next
    case 2
    then have "find_free m = (Some (formatIp (networkBase m) (nextIp m)), m')"
      by (simp add: find_free.simps [of m] Let_def free_index_def m'_def)
    then show ?thesis using 2 by (intro exI [of _ "nextIp m + 1"]) (auto simp: m'_def)
  next
    case 3
    then have step: "find_free m = find_free m'"
      by (auto simp: find_free.simps [of m] Let_def free_index_def m'_def)
    obtain k where k: "nextIp m' \<le> k" "snd (find_free m') = m'\<lparr>nextIp := k\<rparr>"
        "case fst (find_free m') of
          Some ip \<Rightarrow> nextIp m' < k \<and> free_index m' (k - 1) \<and> ip = formatIp (networkBase m') (k - 1) \<and>
            (\<forall>n. nextIp m' \<le> n \<and> n < k - 1 \<longrightarrow> \<not> free_index m' n)
        | None \<Rightarrow> \<forall>n \<ge> nextIp m'. \<not> free_index m' n"
      using "1.IH" [OF 3(1) refl m'_def] 3 by (auto simp: free_index_def m'_def)
    have skip: "nextIp m \<le> n \<and> Q n \<longrightarrow> \<not> free_index m n" if "Suc (nextIp m) \<le> n \<and> Q n \<longrightarrow> \<not> free_index m n" for n Q
      using that 3(2) by (cases "n = nextIp m") auto
    have "nextIp m' = Suc (nextIp m)" "m'\<lparr>nextIp := k\<rparr> = m\<lparr>nextIp := k\<rparr>" "networkBase m' = networkBase m"
      by (simp_all add: m'_def)
    note k = k [unfolded this same]
    show ?thesis
    proof (intro exI [of _ k] conjI)
      show "nextIp m \<le> k" using k(1) by simp
      show "snd (find_free m) = m\<lparr>nextIp := k\<rparr>" using k(2) step by simp
      show "case fst (find_free m) of
          Some ip \<Rightarrow> nextIp m < k \<and> free_index m (k - 1) \<and> ip = formatIp (networkBase m) (k - 1) \<and>
            (\<forall>n. nextIp m \<le> n \<and> n < k - 1 \<longrightarrow> \<not> free_index m n)
        | None \<Rightarrow> \<forall>n \<ge> nextIp m. \<not> free_index m n"
        using k(3) skip [where Q = "\<lambda>n. n < k - 1"] skip [where Q = "\<lambda>n. True"] unfolding step
        by (cases "fst (find_free m')") simp_all
    qed
  qed
qed

definition inverse_maps :: "('a \<Rightarrow> 'b option) \<Rightarrow> ('b \<Rightarrow> 'a option) \<Rightarrow> bool" where
  "inverse_maps f g \<longleftrightarrow> (\<forall>a b. f a = Some b \<longleftrightarrow> g b = Some a)"

lemma inverse_maps_put:
  assumes "inverse_maps f g" "g b = None \<or> g b = Some a" "f a = None \<or> f a = Some b"
  shows "inverse_maps (f(a \<mapsto> b)) (g(b \<mapsto> a))"
  unfolding inverse_maps_def
proof (intro allI)
  fix x y
  have "f x = Some y \<longleftrightarrow> g y = Some x" "f a = Some y \<longleftrightarrow> g y = Some a" "f x = Some b \<longleftrightarrow> g b = Some x"
    using assms(1) by (simp_all add: inverse_maps_def)
  then show "(f(a \<mapsto> b)) x = Some y \<longleftrightarrow> (g(b \<mapsto> a)) y = Some x"
    using assms(2,3) by (cases "x = a"; cases "y = b") auto
qed

lemma inverse_maps_del:
  assumes "inverse_maps f g" "f a = Some b"
  shows "inverse_maps (f(a := None)) (g(b := None))"
  using assms unfolding inverse_maps_def by (metis fun_upd_other fun_upd_same option.distinct(1) option.inject)

lemma wf_ips_inverse: "wf_ips m \<longleftrightarrow> inverse_maps (map_get (nodeToIp m)) (getNodeForIp m) \<and> map_get (allocations m) [] = None"
  by (simp add: wf_ips_def inverse_maps_def)

lemma wf_ips_cong:
  "map_get (nodeToIp m) = map_get (nodeToIp m') \<Longrightarrow> getNodeForIp m = getNodeForIp m' \<Longrightarrow>
   map_get (allocations m) [] = map_get (allocations m') [] \<Longrightarrow> wf_ips m = wf_ips m'"
  unfolding wf_ips_inverse by (simp only:)

lemma put_alloc_maps:
  "map_get (nodeToIp (put_alloc now n ip m)) = (map_get (nodeToIp m))(n \<mapsto> ip)"
  "getNodeForIp (put_alloc now n ip m) = (getNodeForIp m)(ip \<mapsto> n)"
  by (auto simp: put_alloc_def getNodeForIp_def fun_eq_iff)

lemma put_alloc_wf:
  assumes "wf_ips m" "ip \<noteq> []" "getNodeForIp m ip = None \<or> getNodeForIp m ip = Some n"
    and "map_get (nodeToIp m) n = None \<or> map_get (nodeToIp m) n = Some ip"
  shows "wf_ips (put_alloc now n ip m)"
  using assms inverse_maps_put [of "map_get (nodeToIp m)" "getNodeForIp m" ip n]
  unfolding wf_ips_inverse put_alloc_maps by (simp add: put_alloc_def)

lemma del_alloc_wf:
  assumes "wf_ips m" "map_get (nodeToIp m) n = Some ip"
  shows "wf_ips (m\<lparr>allocations := map_del ip (allocations m), nodeToIp := map_del n (nodeToIp m)\<rparr>)"
proof -
  let ?m = "m\<lparr>allocations := map_del ip (allocations m), nodeToIp := map_del n (nodeToIp m)\<rparr>"
  have eqs: "map_get (nodeToIp ?m) = (map_get (nodeToIp m))(n := None)" "getNodeForIp ?m = (getNodeForIp m)(ip := None)"
    by (auto simp: getNodeForIp_def fun_eq_iff)
  have "inverse_maps ((map_get (nodeToIp m))(n := None)) ((getNodeForIp m)(ip := None))"
    using assms by (intro inverse_maps_del) (simp_all add: wf_ips_inverse)
  moreover have "map_get (allocations ?m) [] = None" using assms(1) by (simp add: wf_ips_def)
  ultimately show ?thesis unfolding wf_ips_inverse eqs by blast
qed

lemma release_wf: "wf_ips m \<Longrightarrow> wf_ips (snd (release n m))"
  by (simp add: release_def del_alloc_wf split: option.splits)

lemma setAllocation_wf:
  assumes "wf_ips m" "ip \<noteq> []" "setAllocation now n ip m = Inr m'"
  shows "wf_ips m'"
proof -
  have own: "getNodeForIp m ip = None \<or> getNodeForIp m ip = Some n"
    using assms(3) by (auto simp: setAllocation_def getNodeForIp_def split: option.splits if_splits)
  show ?thesis
  proof (cases "map_get (nodeToIp m) n")
    case None
    then show ?thesis
      using assms own put_alloc_wf [OF assms(1,2) own, of now]
      by (auto simp: setAllocation_def split: option.splits if_splits)
  next
    case (Some old)
    then have old: "old \<noteq> []" using assms(1) by (auto simp: wf_ips_def getNodeForIp_def)
    define d where "d = m\<lparr>allocations := map_del old (allocations m), nodeToIp := map_del n (nodeToIp m)\<rparr>"
    have "wf_ips (put_alloc now n ip d)" if "old \<noteq> ip"
      using del_alloc_wf [OF assms(1) Some] own that
      by (intro put_alloc_wf [OF _ assms(2)]) (auto simp: d_def getNodeForIp_def)
    moreover have "wf_ips (put_alloc now n ip m)" if "old = ip"
      using put_alloc_wf [OF assms(1,2) own] Some that by simp
    moreover have "wf_ips (put_alloc now n ip (m\<lparr>allocations := map_del old (allocations m)\<rparr>)) = wf_ips (put_alloc now n ip d)"
      by (rule wf_ips_cong) (auto simp: put_alloc_maps d_def fun_eq_iff getNodeForIp_def, simp add: put_alloc_def)
    ultimately show ?thesis
      using assms(3) Some old by (auto simp: setAllocation_def Let_def split: option.splits if_splits)
  qed
qed

section \<open>Properties\<close>

text \<open>Allocating addresses: on a well-formed manager \<open>allocate\<close> returns a node's existing address, or
  the first free one from the counter on (not reserved, not in use) and records it in both maps,
  leaving all other assignments alone; it throws exactly when no index up to \<open>maxIp\<close> is free. The two
  maps stay inverse to each other, so no address ever belongs to two nodes.\<close>

theorem allocate_correct:
  assumes "wf_ips m"
  shows "case allocate now n m of
      (Inr ip, m') \<Rightarrow> wf_ips m' \<and> getIpForNode m' n = Some ip \<and> getNodeForIp m' ip = Some n \<and>
        (\<forall>x. x \<noteq> n \<longrightarrow> getIpForNode m' x = getIpForNode m x) \<and>
        (map_get (nodeToIp m) n = None \<longrightarrow>
           (\<exists>k. nextIp m \<le> k \<and> nextIp m' = k + 1 \<and> free_index m k \<and> ip = formatIp (networkBase m) k))
    | (Inl e, m') \<Rightarrow> wf_ips m' \<and> map_get (nodeToIp m) n = None \<and> (\<forall>k \<ge> nextIp m. \<not> free_index m k)"
proof (cases "map_get (nodeToIp m) n")
  case (Some ip)
  then have "getNodeForIp m ip = Some n" "ip \<noteq> []" using assms by (auto simp: wf_ips_def getNodeForIp_def)
  then show ?thesis using Some assms by (simp add: allocate_def getIpForNode_def or_null_def)
next
  case None
  obtain k where k: "nextIp m \<le> k" "snd (find_free m) = m\<lparr>nextIp := k\<rparr>"
      "case fst (find_free m) of
         Some ip \<Rightarrow> nextIp m < k \<and> free_index m (k - 1) \<and> ip = formatIp (networkBase m) (k - 1) \<and>
           (\<forall>n. nextIp m \<le> n \<and> n < k - 1 \<longrightarrow> \<not> free_index m n)
       | None \<Rightarrow> \<forall>n \<ge> nextIp m. \<not> free_index m n"
    using find_free_spec [of m] by blast
  have wf: "wf_ips (m\<lparr>nextIp := k\<rparr>)" using assms by (simp add: wf_ips_def getNodeForIp_def)
  show ?thesis
  proof (cases "fst (find_free m)")
    case N: None
    then have "find_free m = (None, m\<lparr>nextIp := k\<rparr>)" using k(2) by (metis prod.collapse)
    then show ?thesis using None N k(3) wf by (simp add: allocate_def)
  next
    case (Some ip)
    then have ff: "find_free m = (Some ip, m\<lparr>nextIp := k\<rparr>)" using k(2) by (metis prod.collapse)
    have ip: "free_index m (k - 1)" "ip = formatIp (networkBase m) (k - 1)" "nextIp m < k" using k(3) Some by auto
    have "wf_ips (put_alloc now n ip (m\<lparr>nextIp := k\<rparr>))"
      using ip None by (intro put_alloc_wf [OF wf]) (auto simp: free_index_def getNodeForIp_def)
    moreover have "getNodeForIp (put_alloc now n ip (m\<lparr>nextIp := k\<rparr>)) ip = Some n"
      by (simp add: put_alloc_maps)
    moreover have "nextIp (put_alloc now n ip (m\<lparr>nextIp := k\<rparr>)) = k - 1 + 1" "nextIp m \<le> k - 1"
      using ip(3) by (auto simp: put_alloc_def)
    ultimately show ?thesis
      using None ff ip by (auto simp: allocate_def getIpForNode_def or_null_def put_alloc_maps)
  qed
qed

theorem allocate_correct_witness:
  "\<exists>m'. allocate 7 (js ''n'') (new_VirtualIPManager None None None) = (Inr (js ''10.200.0.2''), m') \<and> wf_ips m'"
proof -
  have wf: "wf_ips (new_VirtualIPManager None None None)"
    by (simp add: new_VirtualIPManager_def wf_ips_def getNodeForIp_def)
  have "fst (allocate 7 (js ''n'') (new_VirtualIPManager None None None)) = Inr (js ''10.200.0.2'')"
    by (simp add: allocate_def new_VirtualIPManager_def find_free.simps Let_def formatIp_def js_def dec_def
        to_radix_small digit_char_def)
  then show ?thesis
    using allocate_correct [OF wf, of "js ''n''" 7] by (cases "allocate 7 (js ''n'') (new_VirtualIPManager None None None)") auto
qed

text \<open>Releasing and pinning addresses keep the two maps inverse: \<open>release\<close> removes exactly the
  node's assignment, and a successful \<open>setAllocation\<close> moves the node to the given address; it throws
  exactly when the address belongs to another node.\<close>

theorem release_and_pin:
  assumes "wf_ips m" "ip \<noteq> []"
  shows "(wf_ips (snd (release n m)) \<and> getIpForNode (snd (release n m)) n = None \<and>
      (\<forall>x. x \<noteq> n \<longrightarrow> getIpForNode (snd (release n m)) x = getIpForNode m x)) \<and>
    (case setAllocation now n ip m of
       Inr m' \<Rightarrow> wf_ips m' \<and> getIpForNode m' n = Some ip \<and> getNodeForIp m' ip = Some n \<and>
         (\<forall>x. x \<noteq> n \<longrightarrow> getIpForNode m' x = getIpForNode m x)
     | Inl e \<Rightarrow> \<exists>x. x \<noteq> n \<and> getNodeForIp m ip = Some x)"
proof
  have "map_get (nodeToIp m) n \<noteq> Some []" using assms(1) by (auto simp: wf_ips_def getNodeForIp_def)
  then show "wf_ips (snd (release n m)) \<and> getIpForNode (snd (release n m)) n = None \<and>
      (\<forall>x. x \<noteq> n \<longrightarrow> getIpForNode (snd (release n m)) x = getIpForNode m x)"
    using release_wf [OF assms(1)] by (auto simp: release_def getIpForNode_def split: option.splits)
  show "case setAllocation now n ip m of
       Inr m' \<Rightarrow> wf_ips m' \<and> getIpForNode m' n = Some ip \<and> getNodeForIp m' ip = Some n \<and>
         (\<forall>x. x \<noteq> n \<longrightarrow> getIpForNode m' x = getIpForNode m x)
     | Inl e \<Rightarrow> \<exists>x. x \<noteq> n \<and> getNodeForIp m ip = Some x"
  proof (cases "setAllocation now n ip m")
    case (Inl e)
    then show ?thesis by (auto simp: setAllocation_def getNodeForIp_def Let_def split: option.splits if_splits)
  next
    case (Inr m')
    then obtain d where "m' = put_alloc now n ip d" "nodeToIp d = nodeToIp m"
      by (auto simp: setAllocation_def Let_def split: option.splits if_splits)
    then show ?thesis
      using setAllocation_wf [OF assms Inr] Inr assms(2) by (auto simp: put_alloc_maps getIpForNode_def or_null_def)
  qed
qed

theorem release_and_pin_witness:
  "\<exists>m'. setAllocation 0 (js ''a'') (js ''10.200.0.9'') (new_VirtualIPManager None None None) = Inr m' \<and>
     getIpForNode m' (js ''a'') = Some (js ''10.200.0.9'') \<and> getIpForNode (snd (release (js ''a'') m')) (js ''a'') = None"
proof -
  let ?m = "new_VirtualIPManager None None None"
  have wf: "wf_ips ?m" by (simp add: new_VirtualIPManager_def wf_ips_def getNodeForIp_def)
  obtain m' where m': "setAllocation 0 (js ''a'') (js ''10.200.0.9'') ?m = Inr m'"
    by (simp add: setAllocation_def new_VirtualIPManager_def)
  have ne: "js ''10.200.0.9'' \<noteq> []" by (simp add: js_def)
  have "wf_ips m'" "getIpForNode m' (js ''a'') = Some (js ''10.200.0.9'')"
    using release_and_pin [OF wf ne, of "js ''a''" 0] m' by simp_all
  then show ?thesis using release_and_pin [OF _ ne, of m' "js ''a''" 0] m' by blast
qed

lemma split_on_append: "c \<notin> set xs \<Longrightarrow> split_on c (xs @ c # ys) = xs # split_on c ys"
  by (induction xs) auto

lemma split_on_single: "c \<notin> set xs \<Longrightarrow> split_on c xs = [xs]"
  by (induction xs) auto

lemma formatIp_parts:
  assumes "46 \<notin> set a" "46 \<notin> set b" "base = a @ 46 # b @ 46 # dec 0"
  shows "formatIp base n = a @ 46 # b @ 46 # dec (n div 256) @ 46 # dec (n mod 256)"
proof -
  have "split_on 46 base = [a, b, dec 0]"
    using assms by (simp add: split_on_append split_on_single)
  then show ?thesis using assms(3) by (simp add: formatIp_def Let_def part_def)
qed

text \<open>In a network \<open>a.b.0\<close> the counter produces pairwise different addresses inside the network, so an
  address that was released is not handed out again before the counter is cleared.\<close>

theorem formatIp_distinct:
  assumes "46 \<notin> set a" "46 \<notin> set b" "networkBase m = a @ 46 # b @ 46 # dec 0"
  shows "(formatIp (networkBase m) i = formatIp (networkBase m) j \<longleftrightarrow> i = j) \<and> isInNetwork m (formatIp (networkBase m) i)"
proof -
  have "formatIp (networkBase m) i = formatIp (networkBase m) j \<longleftrightarrow> i div 256 = j div 256 \<and> i mod 256 = j mod 256"
    unfolding formatIp_parts [OF assms] by (simp add: append_sep_inj)
  moreover have "split_on 46 (networkBase m) = [a, b, dec 0]" "split_on 46 (formatIp (networkBase m) i) = [a, b, dec (i div 256), dec (i mod 256)]"
    using assms(1,2) unfolding formatIp_parts [OF assms] by (simp_all add: assms(3) split_on_append split_on_single)
  ultimately show ?thesis
    by (simp add: isInNetwork_def Let_def part_def) (metis div_mult_mod_eq)
qed

theorem formatIp_distinct_witness:
  "formatIp (networkBase (new_VirtualIPManager None None None)) 300 \<noteq> formatIp (networkBase (new_VirtualIPManager None None None)) 44"
  using formatIp_distinct [of "js ''10''" "js ''200''" "new_VirtualIPManager None None None" 300 44]
  by (simp add: new_VirtualIPManager_def js_def dec_def to_radix_small digit_char_def)

text \<open>Reserving an address beyond the first block has no effect on it: \<open>reserve\<close> keeps only the last
  octet, so after reserving \<open>10.200.3.7\<close> (index 775) that address is still handed out, while the
  unrelated \<open>10.200.0.7\<close> is blocked.\<close>

theorem reserve_last_octet_only:
  "let m = reserve (js ''10.200.3.7'') (new_VirtualIPManager None (Some 775) None) in
   fst (allocate 0 (js ''n'') m) = Inr (js ''10.200.3.7'') \<and> \<not> free_index m 7 \<and>
   formatIp (networkBase m) 7 = js ''10.200.0.7''"
proof -
  have octet: "last_octet (js ''10.200.3.7'') = Some 7"
    by (simp add: last_octet_def js_def part_def from_radix_def digit_val_def)
  have "formatIp (js ''10.200.0'') 775 = js ''10.200.3.7''" "formatIp (js ''10.200.0'') 7 = js ''10.200.0.7''"
    by (simp_all add: formatIp_def js_def part_def dec_def to_radix_small digit_char_def)
  then show ?thesis
    using octet by (simp add: Let_def reserve_def new_VirtualIPManager_def allocate_def find_free.simps set_add_def
        free_index_def)
qed

definition wf_routes :: "routing_table \<Rightarrow> bool" where
  "wf_routes t \<longleftrightarrow> (\<forall>ip r. getRoute t ip = Some r \<and> rt_direct r \<longrightarrow>
      rt_nextHop r = rt_nodeId r \<and> rt_nextHop r \<in> set (directPeers t) \<and> rt_hops r = 1)"

text \<open>The routing table: a direct peer is reached in one hop; \<open>addRoute\<close> only ever lowers the number of
  hops of an address; after \<open>removeDirectPeer\<close> no route goes through that peer and every other route is
  unchanged; and direct routes always point to a current direct peer.\<close>

theorem routing_table_correct:
  assumes "wf_routes t"
  shows "(wf_routes (addDirectPeer now n ip t) \<and> wf_routes (removeDirectPeer n t) \<and> wf_routes (addRoute now ip n h k t)) \<and>
    rt_getNextHop (addDirectPeer now n ip t) ip = Some n \<and>
    (\<forall>x. getRoute (removeDirectPeer n t) x =
       (case getRoute t x of Some r \<Rightarrow> if rt_nextHop r = n then None else Some r | None \<Rightarrow> None)) \<and>
    (\<exists>r. getRoute (addRoute now ip n h k t) ip = Some r \<and> rt_hops r \<le> k \<and>
       (\<forall>old. getRoute t ip = Some old \<longrightarrow> rt_hops r = min k (rt_hops old)))"
proof -
  have "wf_routes (removeDirectPeer n t)"
    using assms by (fastforce simp: wf_routes_def removeDirectPeer_def getRoute_def jsd.sweep_survivor)
  moreover have "wf_routes (addDirectPeer now n ip t)" "wf_routes (addRoute now ip n h k t)"
    using assms by (auto simp: wf_routes_def addDirectPeer_def addRoute_def getRoute_def split: if_splits)
  moreover have "\<exists>r. getRoute (addRoute now ip n h k t) ip = Some r \<and> rt_hops r \<le> k \<and>
       (\<forall>old. getRoute t ip = Some old \<longrightarrow> rt_hops r = min k (rt_hops old))"
    by (auto simp: addRoute_def getRoute_def split: option.splits)
  ultimately show ?thesis
    by (simp add: getRoute_def removeDirectPeer_def jsd.get_sweep addDirectPeer_def rt_getNextHop_def)
qed

theorem routing_table_correct_witness:
  "rt_getNextHop (addDirectPeer 0 (js ''p'') (js ''10.200.0.3'') (new_RoutingTable (js ''me''))) (js ''10.200.0.3'') = Some (js ''p'')"
  using routing_table_correct [of "new_RoutingTable (js ''me'')" 0 "js ''p''" "js ''10.200.0.3''" "js ''q''" 3]
  by (simp add: wf_routes_def new_RoutingTable_def getRoute_def)

lemma nat_key_inj:
  assumes "58 \<notin> set s" "58 \<notin> set d" "58 \<notin> set s'" "58 \<notin> set d'"
  shows "nat_key s sp d dp p = nat_key s' sp' d' dp' p' \<longleftrightarrow> s = s' \<and> sp = sp' \<and> d = d' \<and> dp = dp' \<and> p = p'"
  using assms by (simp add: nat_key_def append_sep_inj)

lemma removeMapping_get: "map_get (nt_entries (removeMapping key t)) k = (if k = key then None else map_get (nt_entries t) k)"
  by (auto simp: removeMapping_def)

lemma removeMapping_fold:
  "map_get (nt_entries (fold removeMapping ks t)) k = (if k \<in> set ks then None else map_get (nt_entries t) k)"
  by (induction ks arbitrary: t) (auto simp: removeMapping_get)

text \<open>Address translation: a response is matched to the mapping created for the same addresses, ports and
  protocol, with the node that sent the request, whatever other mappings exist; a mapping for a
  different connection never matches (addresses without a colon); and the periodic cleanup removes exactly the
  mappings that have not been used for longer than the timeout.\<close>

theorem nat_mapping_correct:
  assumes "58 \<notin> set s" "58 \<notin> set d" "58 \<notin> set s'" "58 \<notin> set d'" "wf_map (nt_entries t)"
    and "createMapping now n s sp d dp p t = (e, t')"
  shows "(\<exists>e'. fst (findByResponse later s sp d dp p t') = Some e' \<and> ne_srcNodeId e' = ne_srcNodeId e \<and> ne_lastUsed e' = later) \<and>
    (map_get (nt_entries t) (nat_key s sp d dp p) = None \<longrightarrow> ne_srcNodeId e = n) \<and>
    ((s, sp, d, dp, p) \<noteq> (s', sp', d', dp', p') \<longrightarrow>
       fst (findByResponse later s' sp' d' dp' p' t') = fst (findByResponse later s' sp' d' dp' p' t)) \<and>
    (\<forall>k e0. map_get (nt_entries (nat_cleanup later t)) k = Some e0 \<longleftrightarrow>
       map_get (nt_entries t) k = Some e0 \<and> \<not> later - ne_lastUsed e0 > nt_timeout t)"
proof -
  have "map_get (nt_entries (nat_cleanup later t)) k = Some e0 \<longleftrightarrow>
      map_get (nt_entries t) k = Some e0 \<and> \<not> later - ne_lastUsed e0 > nt_timeout t" for k e0
  proof -
    have "k \<in> set (map fst (filter (\<lambda>(key, e). later - ne_lastUsed e > nt_timeout t) (nt_entries t))) \<longleftrightarrow>
        (\<exists>e. map_get (nt_entries t) k = Some e \<and> later - ne_lastUsed e > nt_timeout t)"
      by (force simp: wf_map_get_iff [OF assms(5)])
    then show ?thesis unfolding nat_cleanup_def removeMapping_fold by auto
  qed
  then show ?thesis
    using assms(6) nat_key_inj [OF assms(1-4), of sp dp p sp' dp' p']
    by (auto simp: createMapping_def findByResponse_def findMapping_def Let_def split: option.splits)
qed

theorem nat_mapping_correct_witness:
  "\<exists>e e' t'. createMapping 5 (js ''n1'') (js ''10.200.0.2'') 40000 (js ''1.1.1.1'') 53 (js ''udp'') (new_NATTable None) = (e, t') \<and>
     fst (findByResponse 9 (js ''10.200.0.2'') 40000 (js ''1.1.1.1'') 53 (js ''udp'') t') = Some e' \<and> ne_srcNodeId e' = js ''n1''"
proof -
  obtain e t' where c: "createMapping 5 (js ''n1'') (js ''10.200.0.2'') 40000 (js ''1.1.1.1'') 53 (js ''udp'') (new_NATTable None) = (e, t')"
    by fastforce
  have "58 \<notin> set (js ''10.200.0.2'')" "58 \<notin> set (js ''1.1.1.1'')" by (simp_all add: js_def)
  then show ?thesis
    using nat_mapping_correct [OF _ _ _ _ _ c, of "js ''1.1.1.1''" "js ''1.1.1.1''" 9 0 0 "[]"] c
    by (auto simp: new_NATTable_def)
qed

end
