(* ===== verification/UserSpace_NAT.thy ===== *)
theory UserSpace_NAT
  imports IP_Packet
begin

text \<open>
  \<open>src/exit/userspace-nat.js\<close>: the TCP, UDP and ICMP termination of the exit node. Connection
  objects live in a store (\<open>conns\<close>, numbered by \<open>nextConn\<close>) because the socket callbacks keep a reference to their
  object after its key was reused; \<open>tcpConnections\<close> maps keys to objects. Each handler returns
  the new state and the list of its external actions (responses into the mesh, socket calls).
  TCP responses are kept as the arguments of \<open>buildTCPPacket\<close>; \<open>render\<close> builds the bytes. A
  parsed packet without TCP header fields (short TCP packet) has no flags and an undefined window.
  Metrics and logging are left out; the fraction 0.35 is computed exactly.
\<close>

section \<open>Connections\<close>

datatype tcp_state = CONNECTING | ESTABLISHED | FIN_WAIT | CLOSED

record conn =
  k_srcNodeId :: jsstring
  k_srcIp :: ipv4
  k_srcPort :: nat
  k_dstIp :: ipv4
  k_dstPort :: nat
  k_state :: tcp_state
  clientSeq :: int
  clientAck :: int
  serverSeq :: int
  k_socket :: bool
  pendingData :: "buffer list"
  lastActivity :: int
  pendingResponses :: nat
  synNegotiation :: syn_opts
  peerWindowScaleShift :: nat
  peerRecvWindow :: "nat option"
  lastPeerAck :: "nat option"
  serverSocketPaused :: bool
  serverReadBacklog :: buffer
  eofFromServer :: bool
  finSent :: bool
  clientFinSeq :: "int option"
  socketEndedToServer :: bool
  lingerCloseTimer :: bool

record segment =
  sg_src :: ipv4
  sg_dst :: ipv4
  sg_sport :: nat
  sg_dport :: nat
  sg_seq :: int
  sg_ack :: int
  sg_flags :: nat
  sg_data :: buffer
  sg_opts :: buffer

datatype action =
    Respond jsstring segment
  | Respond_udp jsstring ipv4 ipv4 nat nat buffer
  | Respond_raw jsstring buffer
  | Sock_connect nat nat ipv4
  | Sock_write nat buffer
  | Sock_end nat
  | Sock_destroy nat
  | Sock_pause nat
  | Sock_resume nat
  | Udp_send jsstring buffer nat ipv4
  | Udp_close jsstring
  | Icmp_req ipv4 nat nat buffer

definition render :: "nat \<Rightarrow> segment \<Rightarrow> buffer res" where
  "render rnd s = buildTCPPacket rnd (sg_src s) (sg_dst s) (int (sg_sport s)) (int (sg_dport s)) (sg_seq s) (sg_ack s)
     (sg_flags s) (sg_data s) (sg_opts s)"

definition reply_segment :: "conn \<Rightarrow> int \<Rightarrow> int \<Rightarrow> nat \<Rightarrow> buffer \<Rightarrow> buffer \<Rightarrow> segment" where
  "reply_segment c seq ack flags data opts =
     \<lparr>sg_src = k_dstIp c, sg_dst = k_srcIp c, sg_sport = k_dstPort c, sg_dport = k_srcPort c,
      sg_seq = seq, sg_ack = ack, sg_flags = flags, sg_data = data, sg_opts = opts\<rparr>"

definition respond :: "conn \<Rightarrow> nat \<Rightarrow> buffer \<Rightarrow> action" where
  "respond c flags data = Respond (k_srcNodeId c) (reply_segment c (serverSeq c) (clientAck c) flags data [])"

section \<open>Windows and back-pressure\<close>

definition recv_window :: "conn \<Rightarrow> nat" where
  "recv_window c = (case peerRecvWindow c of Some w \<Rightarrow> w | None \<Rightarrow> 65535)"

definition scaledPeerRecvWindow :: "conn \<Rightarrow> nat" where
  "scaledPeerRecvWindow c =
     (let raw = recv_window c; s = peerWindowScaleShift c in
      if raw = 0 then 0
      else if s = 0 \<or> s > 14 then raw
      else min (raw * 2 ^ s) 1073741824)"

definition maxPendingForConn :: "nat \<Rightarrow> conn \<Rightarrow> nat" where
  "maxPendingForConn tcpMaxPending c =
     (let w = scaledPeerRecvWindow c in
      if w = 0 then 0 else min tcpMaxPending (max 6 (w div 1360 + 6)))"

definition resumePendingTarget :: "nat \<Rightarrow> conn \<Rightarrow> nat" where
  "resumePendingTarget tcpMaxPending c =
     (let maxP = maxPendingForConn tcpMaxPending c in
      if maxP = 0 then 0 else max 4 (maxP * 35 div 100))"

definition live_state :: "conn \<Rightarrow> bool" where
  "live_state c \<longleftrightarrow> k_state c = ESTABLISHED \<or> k_state c = FIN_WAIT"

definition maybeSendServerFin :: "conn \<Rightarrow> conn \<times> action list" where
  "maybeSendServerFin c =
     (if \<not> eofFromServer c \<or> finSent c \<or> k_state c \<noteq> ESTABLISHED \<or> serverReadBacklog c \<noteq> [] \<or> pendingResponses c > 0
      then (c, [])
      else let c1 = c\<lparr>finSent := True, k_state := FIN_WAIT\<rparr> in
        (c1\<lparr>serverSeq := serverSeq c + 1\<rparr>, [respond c1 (FLAG_FIN + FLAG_ACK) []]))"

text \<open>The sending loop over the backlog: the connection, what is left of the backlog, the segments sent.\<close>

function flush_loop :: "nat \<Rightarrow> conn \<Rightarrow> buffer \<Rightarrow> action list \<Rightarrow> conn \<times> buffer \<times> action list" where
  "flush_loop maxP c backlog out =
     (if backlog \<noteq> [] \<and> maxP > 0 \<and> pendingResponses c < maxP then
        let chunkSize = min 1360 (length backlog);
            atEnd = (chunkSize \<ge> length backlog);
            pkt = respond c (if atEnd then FLAG_PSH + FLAG_ACK else FLAG_ACK) (take chunkSize backlog) in
        flush_loop maxP (c\<lparr>serverSeq := serverSeq c + int chunkSize, pendingResponses := pendingResponses c + 1\<rparr>)
          (drop chunkSize backlog) (out @ [pkt])
      else (c, backlog, out))"
  by pat_completeness auto
termination by (relation "measure (\<lambda>(maxP, c, backlog, out). length backlog)") auto

declare flush_loop.simps [simp del]

definition flushServerReadBacklog :: "nat \<Rightarrow> conn \<Rightarrow> conn \<times> action list" where
  "flushServerReadBacklog tcpMaxPending c =
     (if \<not> live_state c then (c, [])
      else if serverReadBacklog c = [] then maybeSendServerFin c
      else case flush_loop (maxPendingForConn tcpMaxPending c) c (serverReadBacklog c) [] of
        (c, rest, out) \<Rightarrow>
          case maybeSendServerFin (c\<lparr>serverReadBacklog := rest\<rparr>) of (c, fin) \<Rightarrow> (c, out @ fin))"

definition syncServerSocketPause :: "nat \<Rightarrow> nat \<Rightarrow> conn \<Rightarrow> conn \<times> action list" where
  "syncServerSocketPause tcpMaxPending i c =
     (if \<not> k_socket c \<or> \<not> live_state c then (c, [])
      else let win = recv_window c;
               maxP = maxPendingForConn tcpMaxPending c;
               overInFlight = (maxP > 0 \<and> pendingResponses c \<ge> maxP);
               zeroWin = (win = 0);
               backlogStuck = (serverReadBacklog c \<noteq> [] \<and> (overInFlight \<or> zeroWin \<or> maxP = 0));
               needPause = (zeroWin \<or> overInFlight \<or> backlogStuck);
               canResume = (serverSocketPaused c \<and> win > 0 \<and> maxP > 0
                 \<and> pendingResponses c < resumePendingTarget tcpMaxPending c \<and> pendingResponses c < maxP \<and> \<not> backlogStuck) in
        if needPause \<and> \<not> serverSocketPaused c then (c\<lparr>serverSocketPaused := True\<rparr>, [Sock_pause i])
        else if canResume then (c\<lparr>serverSocketPaused := False\<rparr>, [Sock_resume i])
        else (c, []))"

definition flush_and_sync :: "nat \<Rightarrow> nat \<Rightarrow> conn \<Rightarrow> conn \<times> action list" where
  "flush_and_sync tcpMaxPending i c =
     (case flushServerReadBacklog tcpMaxPending c of (c, out1) \<Rightarrow>
      case syncServerSocketPause tcpMaxPending i c of (c, out2) \<Rightarrow> (c, out1 @ out2))"

text \<open>\<open>(ack - prev) >>> 0\<close> and \<open>Math.ceil(delta / mss)\<close>.\<close>

definition ack_delta :: "nat \<Rightarrow> nat \<Rightarrow> nat" where
  "ack_delta ack prev = nat ((int ack - int prev) mod 4294967296)"

definition take_ack :: "nat \<Rightarrow> conn \<Rightarrow> conn" where
  "take_ack ack c =
     (case lastPeerAck c of
        None \<Rightarrow> c\<lparr>lastPeerAck := Some ack\<rparr>
      | Some prev \<Rightarrow>
          let delta = ack_delta ack prev in
          if 0 < delta \<and> delta < 2147483648 then
            c\<lparr>lastPeerAck := Some ack,
              pendingResponses := pendingResponses c - min (pendingResponses c) (max 1 ((delta + 1359) div 1360))\<rparr>
          else c)"

definition updatePeerWindowAndAck :: "nat \<Rightarrow> nat \<Rightarrow> conn \<Rightarrow> tcp_info option \<Rightarrow> conn \<times> action list" where
  "updatePeerWindowAndAck tcpMaxPending i c t =
     (if \<not> live_state c then (c, [])
      else let c = c\<lparr>peerRecvWindow := map_option tcpWindow t\<rparr> in
        case t of
          Some ti \<Rightarrow> if tcpFlagsACK ti then flush_and_sync tcpMaxPending i (take_ack (tcpAck ti) c)
                     else flush_and_sync tcpMaxPending i c
        | None \<Rightarrow> flush_and_sync tcpMaxPending i c)"

section \<open>The state of the exit\<close>

record udp_info =
  u_id :: nat
  u_srcNodeId :: jsstring
  u_srcIp :: ipv4
  u_srcPort :: nat
  u_dstIp :: ipv4
  u_dstPort :: nat
  u_lastActivity :: int

record unat =
  conns :: "(nat, conn) jsmap"
  tcpConnections :: "(jsstring, nat) jsmap"
  nextConn :: nat
  connectingCount :: int
  maxConnections :: int
  tcpMaxPending :: nat
  connectionTimeout :: int
  localVirtualIp :: "ipv4 option"
  udpSockets :: "(jsstring, udp_info) jsmap"
  icmpHelper :: bool
  icmpPending :: "(jsstring, ipv4 \<times> jsstring) jsmap"

definition new_UserSpaceNAT :: "nat option \<Rightarrow> int option \<Rightarrow> int option \<Rightarrow> unat" where
  "new_UserSpaceNAT maxPending timeout maxConn =
     \<lparr>conns = [], tcpConnections = [], nextConn = 0, connectingCount = 0,
      maxConnections = (case maxConn of Some n \<Rightarrow> if n = 0 then 50 else n | None \<Rightarrow> 50),
      tcpMaxPending = (case maxPending of Some n \<Rightarrow> n | None \<Rightarrow> 200),
      connectionTimeout = (case timeout of Some n \<Rightarrow> if n = 0 then 300000 else n | None \<Rightarrow> 300000),
      localVirtualIp = None, udpSockets = [], icmpHelper = False, icmpPending = []\<rparr>"

definition setLocalVirtualIp :: "ipv4 \<Rightarrow> unat \<Rightarrow> unat" where
  "setLocalVirtualIp ip st = st\<lparr>localVirtualIp := Some ip\<rparr>"

definition conn_key :: "ipv4 \<Rightarrow> nat \<Rightarrow> ipv4 \<Rightarrow> nat \<Rightarrow> jsstring" where
  "conn_key s sp d dp = ip_str s @ 58 # dec sp @ 58 # ip_str d @ 58 # dec dp"

definition key_of :: "conn \<Rightarrow> jsstring" where
  "key_of c = conn_key (k_srcIp c) (k_srcPort c) (k_dstIp c) (k_dstPort c)"

definition put_conn :: "nat \<Rightarrow> conn \<Rightarrow> unat \<Rightarrow> unat" where
  "put_conn i c st = st\<lparr>conns := map_put i c (conns st)\<rparr>"

text \<open>Run an operation on the object of a connection.\<close>

definition with_conn :: "nat \<Rightarrow> (conn \<Rightarrow> conn \<times> action list) \<Rightarrow> unat \<Rightarrow> unat \<times> action list" where
  "with_conn i f st =
     (case map_get (conns st) i of
        None \<Rightarrow> (st, [])
      | Some c \<Rightarrow> (case f c of (c, out) \<Rightarrow> (put_conn i c st, out)))"

definition closeTCPConnection :: "nat \<Rightarrow> unat \<Rightarrow> unat \<times> action list" where
  "closeTCPConnection i st =
     (case map_get (conns st) i of
        None \<Rightarrow> (st, [])
      | Some c \<Rightarrow>
          if k_state c = CLOSED then (st, [])
          else ((put_conn i (c\<lparr>lingerCloseTimer := False, k_state := CLOSED, k_socket := False\<rparr>) st)
                 \<lparr>tcpConnections := map_del (key_of c) (tcpConnections st)\<rparr>,
                if k_socket c then [Sock_destroy i] else []))"

definition scheduleTcpLingerClose :: "nat \<Rightarrow> unat \<Rightarrow> unat" where
  "scheduleTcpLingerClose i st =
     (case map_get (conns st) i of
        None \<Rightarrow> st
      | Some c \<Rightarrow> if lingerCloseTimer c \<or> k_state c = CLOSED then st else put_conn i (c\<lparr>lingerCloseTimer := True\<rparr>) st)"

definition linger_or_close :: "nat \<Rightarrow> unat \<Rightarrow> unat \<times> action list" where
  "linger_or_close i st =
     (case map_get (conns st) i of
        None \<Rightarrow> (st, [])
      | Some c \<Rightarrow> if finSent c then (scheduleTcpLingerClose i st, []) else closeTCPConnection i st)"

section \<open>TCP packets from the client\<close>

text \<open>\<open>serverSeq0\<close> is the random initial sequence number.\<close>

definition handle_syn :: "int \<Rightarrow> int \<Rightarrow> parsed_ip \<Rightarrow> tcp_info \<Rightarrow> jsstring \<Rightarrow> buffer \<Rightarrow> unat \<Rightarrow> unat \<times> action list" where
  "handle_syn now serverSeq0 p t srcNodeId ipPacket st =
     (if connectingCount st \<ge> maxConnections st then (st, [])
      else let key = conn_key (srcIp p) (srcPort p) (dstIp p) (dstPort p);
               actualDstIp = (if localVirtualIp st = Some (dstIp p) then (127, 0, 0, 1) else dstIp p);
               syn = parseTcpSynOptions ipPacket;
               i = nextConn st;
               c = \<lparr>k_srcNodeId = srcNodeId, k_srcIp = srcIp p, k_srcPort = srcPort p, k_dstIp = dstIp p,
                    k_dstPort = dstPort p, k_state = CONNECTING, clientSeq = int (tcpSeq t), clientAck = 0,
                    serverSeq = serverSeq0, k_socket = True, pendingData = [], lastActivity = now,
                    pendingResponses = 0, synNegotiation = syn,
                    peerWindowScaleShift = (case so_wscale syn of Some w \<Rightarrow> if w \<le> 14 then w else 0 | None \<Rightarrow> 0),
                    peerRecvWindow = Some (tcpWindow t), lastPeerAck = None, serverSocketPaused = False,
                    serverReadBacklog = [], eofFromServer = False, finSent = False, clientFinSeq = None,
                    socketEndedToServer = False, lingerCloseTimer = False\<rparr> in
        (st\<lparr>connectingCount := connectingCount st + 1, conns := map_put i c (conns st),
            tcpConnections := map_put key i (tcpConnections st), nextConn := i + 1\<rparr>,
         [Sock_connect i (dstPort p) actualDstIp]))"

definition handle_fin :: "nat \<Rightarrow> int \<Rightarrow> conn \<Rightarrow> conn \<times> action list" where
  "handle_fin i seq c =
     (if clientFinSeq c = Some seq then (c, [respond c FLAG_ACK []])
      else let c = c\<lparr>clientFinSeq := Some seq, clientAck := seq + 1\<rparr> in
        (c\<lparr>socketEndedToServer := (k_socket c \<or> socketEndedToServer c)\<rparr>,
         respond c FLAG_ACK [] # (if k_socket c \<and> \<not> socketEndedToServer c then [Sock_end i] else [])))"

definition handle_data :: "nat \<Rightarrow> int \<Rightarrow> buffer \<Rightarrow> conn \<Rightarrow> conn \<times> action list" where
  "handle_data i seq data c =
     (let c = c\<lparr>clientAck := seq + int (length data)\<rparr>;
          c' = (if k_state c = CONNECTING then c\<lparr>pendingData := pendingData c @ [data]\<rparr> else c) in
      (c', (if k_state c = ESTABLISHED \<and> k_socket c then [Sock_write i data] else []) @ [respond c FLAG_ACK []]))"

text \<open>The part of \<open>_handleTCP\<close> for a known connection and a packet that is neither RST nor SYN.\<close>

definition handle_segment :: "int \<Rightarrow> nat \<Rightarrow> nat \<Rightarrow> parsed_ip \<Rightarrow> conn \<Rightarrow> conn \<times> action list" where
  "handle_segment now maxPend i p c0 =
     (let seq = (case tcp p of Some t \<Rightarrow> int (tcpSeq t) | None \<Rightarrow> -1);
          flag = (\<lambda>f. case tcp p of Some t \<Rightarrow> f t | None \<Rightarrow> False) in
      case updatePeerWindowAndAck maxPend i (c0\<lparr>lastActivity := now\<rparr>) (tcp p) of
        (c, out1) \<Rightarrow>
          if flag tcpFlagsACK \<and> \<not> flag tcpFlagsSYN \<and> \<not> flag tcpFlagsFIN \<and> ip_data p = [] then (c, out1)
          else if flag tcpFlagsFIN then (case handle_fin i seq c of (c, out2) \<Rightarrow> (c, out1 @ out2))
          else case (if ip_data p \<noteq> [] then handle_data i seq (ip_data p) c else (c, [])) of
            (c, out2) \<Rightarrow> (case syncServerSocketPause maxPend i c of (c, out3) \<Rightarrow> (c, out1 @ out2 @ out3)))"

definition handleTCP :: "int \<Rightarrow> int \<Rightarrow> parsed_ip \<Rightarrow> jsstring \<Rightarrow> buffer \<Rightarrow> unat \<Rightarrow> unat \<times> action list" where
  "handleTCP now serverSeq0 p srcNodeId ipPacket st =
     (let key = conn_key (srcIp p) (srcPort p) (dstIp p) (dstPort p);
          flag = (\<lambda>f. case tcp p of Some t \<Rightarrow> f t | None \<Rightarrow> False);
          seq = (case tcp p of Some t \<Rightarrow> int (tcpSeq t) | None \<Rightarrow> -1);
          entry = map_get (tcpConnections st) key in
      if flag tcpFlagsRST then
        (case entry of Some i \<Rightarrow> closeTCPConnection i st | None \<Rightarrow> (st, []))
      else if flag tcpFlagsSYN \<and> \<not> flag tcpFlagsACK then
        (if (case entry of
               Some i \<Rightarrow> (case map_get (conns st) i of Some c \<Rightarrow> k_state c \<noteq> CLOSED | None \<Rightarrow> False)
             | None \<Rightarrow> False)
         then (st, []) else handle_syn now serverSeq0 p (the (tcp p)) srcNodeId ipPacket st)
      else case entry of
        None \<Rightarrow> (st, [Respond srcNodeId \<lparr>sg_src = dstIp p, sg_dst = srcIp p, sg_sport = dstPort p, sg_dport = srcPort p,
                    sg_seq = 0, sg_ack = seq + 1, sg_flags = FLAG_RST + FLAG_ACK, sg_data = [], sg_opts = []\<rparr>])
      | Some i \<Rightarrow> with_conn i (handle_segment now (tcpMaxPending st) i p) st)"

section \<open>Socket events\<close>

definition on_connect :: "int \<Rightarrow> nat \<Rightarrow> nat \<Rightarrow> unat \<Rightarrow> unat \<times> action list" where
  "on_connect now nowSec i st =
     (let st = st\<lparr>connectingCount := connectingCount st - 1\<rparr> in
      with_conn i (\<lambda>c.
        if k_state c = CLOSED then (c, [Sock_destroy i])
        else let c1 = c\<lparr>k_state := ESTABLISHED, lastActivity := now, peerRecvWindow := Some 65535\<rparr> in
          (c1\<lparr>serverSeq := serverSeq c + 1, clientAck := clientSeq c + 1, pendingData := []\<rparr>,
           Respond (k_srcNodeId c) (reply_segment c (serverSeq c) (clientSeq c + 1) (FLAG_SYN + FLAG_ACK) []
             (buildSynAckOptions nowSec (synNegotiation c)))
           # map (Sock_write i) (pendingData c))) st)"

definition on_data :: "int \<Rightarrow> nat \<Rightarrow> buffer \<Rightarrow> unat \<Rightarrow> unat \<times> action list" where
  "on_data now i data st =
     with_conn i (\<lambda>c. if k_state c = CLOSED then (c, [])
       else flush_and_sync (tcpMaxPending st) i
              (c\<lparr>lastActivity := now, serverReadBacklog := serverReadBacklog c @ data\<rparr>)) st"

definition on_end :: "nat \<Rightarrow> unat \<Rightarrow> unat \<times> action list" where
  "on_end i st =
     with_conn i (\<lambda>c. if k_state c = CLOSED then (c, [])
       else case flushServerReadBacklog (tcpMaxPending st) (c\<lparr>eofFromServer := True\<rparr>) of (c, out1) \<Rightarrow>
            case maybeSendServerFin c of (c, out2) \<Rightarrow>
            case syncServerSocketPause (tcpMaxPending st) i c of (c, out3) \<Rightarrow> (c, out1 @ out2 @ out3)) st"

definition on_error :: "nat \<Rightarrow> unat \<Rightarrow> unat \<times> action list" where
  "on_error i st =
     (case map_get (conns st) i of
        None \<Rightarrow> (st, [])
      | Some c \<Rightarrow>
          if k_state c = CLOSED then (st, [])
          else let st = (if k_state c = CONNECTING then st\<lparr>connectingCount := connectingCount st - 1\<rparr> else st);
                   out = (if finSent c then [] else [respond c FLAG_RST []]) in
            (case linger_or_close i st of (st, out2) \<Rightarrow> (st, out @ out2)))"

definition on_timeout :: "nat \<Rightarrow> unat \<Rightarrow> unat \<times> action list" where
  "on_timeout i st =
     (case map_get (conns st) i of
        None \<Rightarrow> (st, [])
      | Some c \<Rightarrow>
          let st = (if k_state c = CONNECTING then st\<lparr>connectingCount := connectingCount st - 1\<rparr> else st) in
          (case linger_or_close i st of (st, out) \<Rightarrow> (st, Sock_destroy i # out)))"

definition on_close :: "nat \<Rightarrow> unat \<Rightarrow> unat \<times> action list" where
  "on_close i st =
     (case map_get (conns st) i of
        None \<Rightarrow> (st, [])
      | Some c \<Rightarrow> if k_state c = CLOSED then (st, []) else linger_or_close i st)"

text \<open>The linger timer: the object is closed only if its key still refers to it.\<close>

definition on_linger :: "nat \<Rightarrow> unat \<Rightarrow> unat \<times> action list" where
  "on_linger i st =
     (case map_get (conns st) i of
        None \<Rightarrow> (st, [])
      | Some c \<Rightarrow>
          if \<not> lingerCloseTimer c then (st, [])
          else let st = put_conn i (c\<lparr>lingerCloseTimer := False\<rparr>) st in
            if map_get (tcpConnections st) (key_of c) = Some i then closeTCPConnection i st else (st, []))"

section \<open>UDP\<close>

definition handleUDP :: "int \<Rightarrow> parsed_ip \<Rightarrow> jsstring \<Rightarrow> unat \<Rightarrow> unat \<times> action list" where
  "handleUDP now p srcNodeId st =
     (let key = conn_key (srcIp p) (srcPort p) (dstIp p) (dstPort p);
          known = map_get (udpSockets st) key;
          info = (case known of
              Some u \<Rightarrow> u\<lparr>u_lastActivity := now\<rparr>
            | None \<Rightarrow> \<lparr>u_id = nextConn st, u_srcNodeId = srcNodeId, u_srcIp = srcIp p, u_srcPort = srcPort p,
                       u_dstIp = dstIp p, u_dstPort = dstPort p, u_lastActivity = now\<rparr>) in
      (st\<lparr>udpSockets := map_put key info (udpSockets st),
          nextConn := (case known of Some _ \<Rightarrow> nextConn st | None \<Rightarrow> nextConn st + 1)\<rparr>,
       if ip_data p \<noteq> [] then [Udp_send key (ip_data p) (dstPort p) (dstIp p)] else []))"

text \<open>A datagram for the socket of \<open>u\<close>; the table may hold a younger object under the same key.\<close>

definition on_udp_message :: "int \<Rightarrow> jsstring \<Rightarrow> udp_info \<Rightarrow> buffer \<Rightarrow> unat \<Rightarrow> unat \<times> action list" where
  "on_udp_message now key u msg st =
     (st\<lparr>udpSockets := (case map_get (udpSockets st) key of
          Some v \<Rightarrow> if u_id v = u_id u then map_put key (v\<lparr>u_lastActivity := now\<rparr>) (udpSockets st) else udpSockets st
        | None \<Rightarrow> udpSockets st)\<rparr>,
      [Respond_udp (u_srcNodeId u) (u_dstIp u) (u_srcIp u) (u_dstPort u) (u_srcPort u) msg])"

definition on_udp_error :: "jsstring \<Rightarrow> unat \<Rightarrow> unat" where
  "on_udp_error key st = st\<lparr>udpSockets := map_del key (udpSockets st)\<rparr>"

section \<open>Cleanup and shutdown\<close>

fun close_all :: "nat list \<Rightarrow> unat \<Rightarrow> unat \<times> action list" where
  "close_all [] st = (st, [])"
| "close_all (i # is) st =
     (case closeTCPConnection i st of (st, out1) \<Rightarrow> case close_all is st of (st, out2) \<Rightarrow> (st, out1 @ out2))"

definition nat_cleanup_conns :: "int \<Rightarrow> unat \<Rightarrow> unat \<times> action list" where
  "nat_cleanup_conns now st =
     (let expired = filter (\<lambda>i. case map_get (conns st) i of
              Some c \<Rightarrow> now - lastActivity c > connectionTimeout st | None \<Rightarrow> False) (map snd (tcpConnections st));
          old = map fst (filter (\<lambda>(key, u). now - u_lastActivity u > connectionTimeout st) (udpSockets st)) in
      case close_all expired st of (st', out) \<Rightarrow>
        (st'\<lparr>udpSockets := jsd.sweep (\<lambda>u. now - u_lastActivity u > connectionTimeout st) (udpSockets st)\<rparr>,
         out @ map Udp_close old))"

definition stop_nat :: "unat \<Rightarrow> unat \<times> action list" where
  "stop_nat st =
     (case close_all (map snd (tcpConnections st)) (st\<lparr>icmpHelper := False, icmpPending := []\<rparr>) of
        (st', out) \<Rightarrow> (st'\<lparr>tcpConnections := [], udpSockets := []\<rparr>, out @ map (\<lambda>(key, _). Udp_close key) (udpSockets st)))"

definition nat_stats :: "unat \<Rightarrow> nat \<times> nat" where
  "nat_stats st = (length (tcpConnections st), length (udpSockets st))"

section \<open>ICMP\<close>

text \<open>An echo reply: ICMP header with identifier and sequence, payload, both checksums filled in.\<close>

definition icmp_reply_body :: "buffer \<Rightarrow> buffer \<Rightarrow> buffer" where
  "icmp_reply_body idseq payload =
     (let raw = [0, 0] @ u16_bytes 0 @ idseq @ payload in
      [0, 0] @ u16_bytes (calculateIPChecksum raw) @ idseq @ payload)"

definition icmp_ip_header :: "nat \<Rightarrow> nat \<Rightarrow> nat \<Rightarrow> nat \<Rightarrow> ipv4 \<Rightarrow> ipv4 \<Rightarrow> buffer" where
  "icmp_ip_header totalLen ident ttl csum src dst =
     [69, 0] @ u16_bytes totalLen @ u16_bytes ident @ u16_bytes 0 @ [of_nat ttl, 1] @ u16_bytes csum
     @ ip_bytes src @ ip_bytes dst"

definition icmp_wrap :: "nat \<Rightarrow> nat \<Rightarrow> ipv4 \<Rightarrow> ipv4 \<Rightarrow> buffer \<Rightarrow> buffer res" where
  "icmp_wrap ident ttl src dst body =
     (let totalLen = 20 + length body in
      if totalLen \<ge> 65536 \<or> ttl \<ge> 256 then Inl RangeError
      else Inr (icmp_ip_header totalLen ident ttl (calculateIPChecksum (icmp_ip_header totalLen ident ttl 0 src dst)) src dst
                @ body))"

definition buildICMPEchoReply :: "parsed_ip \<Rightarrow> icmp_info \<Rightarrow> buffer res" where
  "buildICMPEchoReply p ic =
     (let idseq = (if length (icmpData ic) \<ge> 4 then take 4 (icmpData ic) else [0, 0, 0, 0]);
          payload = (if length (icmpData ic) > 4 then drop 4 (icmpData ic) else []) in
      icmp_wrap (ipId p) 64 (dstIp p) (srcIp p) (icmp_reply_body idseq payload))"

definition buildICMPReplyFromExternal :: "nat \<Rightarrow> ipv4 \<Rightarrow> ipv4 \<Rightarrow> nat \<Rightarrow> nat \<Rightarrow> nat \<Rightarrow> buffer \<Rightarrow> buffer res" where
  "buildICMPReplyFromExternal rnd extSrcIp clientIp ident seq ttl payload =
     (if ident \<ge> 65536 \<or> seq \<ge> 65536 then Inl RangeError
      else icmp_wrap rnd ttl extSrcIp clientIp (icmp_reply_body (u16_bytes ident @ u16_bytes seq) payload))"

definition icmp_key :: "nat \<Rightarrow> nat \<Rightarrow> jsstring" where
  "icmp_key ident seq = dec ident @ 58 # dec seq"

definition handleICMP :: "parsed_ip \<Rightarrow> jsstring \<Rightarrow> unat \<Rightarrow> (unat \<times> action list) res" where
  "handleICMP p srcNodeId st =
     (case icmp p of
        None \<Rightarrow> Inr (st, [])
      | Some ic \<Rightarrow>
          if icmpType ic \<noteq> 8 then Inr (st, [])
          else if localVirtualIp st = Some (dstIp p) then
            ebind (buildICMPEchoReply p ic) (\<lambda>reply. Inr (st, [Respond_raw srcNodeId reply]))
          else if icmpHelper st \<and> length (icmpData ic) \<ge> 4 then
            let ident = u16_at (icmpData ic) 0; seq = u16_at (icmpData ic) 2 in
            Inr (st\<lparr>icmpPending := map_put (icmp_key ident seq) (srcIp p, srcNodeId) (icmpPending st)\<rparr>,
                 [Icmp_req (dstIp p) ident seq (drop 4 (icmpData ic))])
          else Inr (st, []))"

text \<open>A \<open>REP\<close> and a \<open>TIMEOUT\<close> line of the helper, already split into its fields.\<close>

definition on_icmp_reply :: "nat \<Rightarrow> ipv4 \<Rightarrow> nat \<Rightarrow> nat \<Rightarrow> nat \<Rightarrow> buffer \<Rightarrow> unat \<Rightarrow> (unat \<times> action list) res" where
  "on_icmp_reply rnd extSrcIp ident seq ttl payload st =
     (case map_get (icmpPending st) (icmp_key ident seq) of
        None \<Rightarrow> Inr (st, [])
      | Some (clientIp, srcNodeId) \<Rightarrow>
          ebind (buildICMPReplyFromExternal rnd extSrcIp clientIp ident seq ttl payload) (\<lambda>reply.
          Inr (st\<lparr>icmpPending := map_del (icmp_key ident seq) (icmpPending st)\<rparr>, [Respond_raw srcNodeId reply])))"

definition on_icmp_timeout :: "nat \<Rightarrow> nat \<Rightarrow> unat \<Rightarrow> unat" where
  "on_icmp_timeout ident seq st = st\<lparr>icmpPending := map_del (icmp_key ident seq) (icmpPending st)\<rparr>"

definition processPacket :: "int \<Rightarrow> int \<Rightarrow> buffer \<Rightarrow> jsstring \<Rightarrow> unat \<Rightarrow> (unat \<times> action list) res" where
  "processPacket now serverSeq0 ipPacket srcNodeId st =
     ebind (parseIPPacket ipPacket) (\<lambda>parsed.
     case parsed of
       Valid p \<Rightarrow>
         if protocol p = PROTO_TCP then Inr (handleTCP now serverSeq0 p srcNodeId ipPacket st)
         else if protocol p = PROTO_UDP then Inr (handleUDP now p srcNodeId st)
         else if protocol p = PROTO_ICMP then handleICMP p srcNodeId st
         else Inr (st, [])
     | _ \<Rightarrow> Inr (st, []))"

section \<open>Streams of one connection\<close>

text \<open>
  The segments among the actions, the bytes they carry to the client, the bytes written to the
  server; a segment list is \<open>in_sequence\<close> from \<open>a\<close> to \<open>b\<close> when its sequence numbers are
  contiguous, SYN and FIN each counting for one.
\<close>

definition responses :: "action list \<Rightarrow> segment list" where
  "responses out = concat (map (\<lambda>a. case a of Respond _ s \<Rightarrow> [s] | _ \<Rightarrow> []) out)"

definition downstream :: "action list \<Rightarrow> buffer" where
  "downstream out = concat (map sg_data (responses out))"

definition upstream :: "action list \<Rightarrow> buffer" where
  "upstream out = concat (map (\<lambda>a. case a of Sock_write _ d \<Rightarrow> d | _ \<Rightarrow> []) out)"

definition seg_len :: "segment \<Rightarrow> int" where
  "seg_len s = int (length (sg_data s)) + of_bool (odd (sg_flags s div 2)) + of_bool (odd (sg_flags s))"

primrec in_sequence :: "int \<Rightarrow> segment list \<Rightarrow> int \<Rightarrow> bool" where
  "in_sequence a [] b \<longleftrightarrow> a = b"
| "in_sequence a (s # ss) b \<longleftrightarrow> sg_seq s = a \<and> in_sequence (a + seg_len s) ss b"

definition fin_count :: "action list \<Rightarrow> nat" where
  "fin_count out = length (filter (\<lambda>s. odd (sg_flags s)) (responses out))"

lemma responses_simps [simp]:
  "responses [] = []" "responses (xs @ ys) = responses xs @ responses ys"
  "responses (Respond n s # out) = s # responses out"
  "responses (Sock_write i d # out) = responses out" "responses (Sock_end i # out) = responses out"
  "responses (Sock_destroy i # out) = responses out" "responses (Sock_pause i # out) = responses out"
  "responses (Sock_resume i # out) = responses out" "responses (map (Sock_write i) ds) = []"
  "responses (Sock_connect i p a # out) = responses out"
  by (simp_all add: responses_def concat_eq_Nil_conv)

lemma downstream_simps [simp]:
  "downstream [] = []" "downstream (xs @ ys) = downstream xs @ downstream ys"
  "downstream (Respond n s # out) = sg_data s @ downstream out"
  "downstream (Sock_write i d # out) = downstream out" "downstream (Sock_end i # out) = downstream out"
  "downstream (Sock_destroy i # out) = downstream out" "downstream (Sock_pause i # out) = downstream out"
  "downstream (Sock_resume i # out) = downstream out" "downstream (map (Sock_write i) ds) = []"
  by (simp_all add: downstream_def)

lemma upstream_simps [simp]:
  "upstream [] = []" "upstream (xs @ ys) = upstream xs @ upstream ys"
  "upstream (Respond n s # out) = upstream out" "upstream (Sock_write i d # out) = d @ upstream out"
  "upstream (Sock_end i # out) = upstream out" "upstream (Sock_destroy i # out) = upstream out"
  "upstream (Sock_pause i # out) = upstream out" "upstream (Sock_resume i # out) = upstream out"
  "upstream (map (Sock_write i) ds) = concat ds"
  by (simp_all add: upstream_def comp_def)

lemma fin_count_simps [simp]:
  "fin_count [] = 0" "fin_count (xs @ ys) = fin_count xs + fin_count ys"
  "fin_count (Respond n s # out) = of_bool (odd (sg_flags s)) + fin_count out"
  "fin_count (Sock_write i d # out) = fin_count out" "fin_count (Sock_end i # out) = fin_count out"
  "fin_count (Sock_destroy i # out) = fin_count out" "fin_count (Sock_pause i # out) = fin_count out"
  "fin_count (Sock_resume i # out) = fin_count out" "fin_count (map (Sock_write i) ds) = 0"
  by (simp_all add: fin_count_def)

lemma in_sequence_append:
  "in_sequence a (xs @ ys) b \<longleftrightarrow> (\<exists>m. in_sequence a xs m \<and> in_sequence m ys b)"
  by (induction xs arbitrary: a) auto

lemma respond_simps [simp]:
  "sg_seq (reply_segment c s a f d opts) = s" "sg_data (reply_segment c s a f d opts) = d"
  "sg_flags (reply_segment c s a f d opts) = f"
  by (simp_all add: reply_segment_def)

text \<open>The order of the states: a connection never returns to an earlier one.\<close>

fun rank :: "tcp_state \<Rightarrow> nat" where
  "rank CONNECTING = 0" | "rank ESTABLISHED = 1" | "rank FIN_WAIT = 2" | "rank CLOSED = 3"

lemma rank_le [simp]: "rank s \<le> 3"
  by (cases s) auto

text \<open>
  What a step of a connection does to its two streams: \<open>down\<close> are the bytes the server handed
  over in the step, \<open>up\<close> the client bytes accepted in it.
\<close>

definition relays :: "conn \<Rightarrow> buffer \<Rightarrow> buffer \<Rightarrow> action list \<Rightarrow> conn \<Rightarrow> bool" where
  "relays c down up out c' \<longleftrightarrow>
     in_sequence (serverSeq c) (responses out) (serverSeq c')
     \<and> serverReadBacklog c @ down = downstream out @ serverReadBacklog c'
     \<and> concat (pendingData c) @ up = upstream out @ concat (pendingData c')
     \<and> fin_count out + of_bool (finSent c) = of_bool (finSent c')
     \<and> key_of c' = key_of c \<and> rank (k_state c) \<le> rank (k_state c')"

definition delivers :: "conn \<Rightarrow> buffer \<Rightarrow> buffer \<Rightarrow> action list \<Rightarrow> conn \<Rightarrow> bool" where
  "delivers c down up out c' \<longleftrightarrow> relays c down up out c' \<and> k_socket c' = k_socket c"

lemmas delivers_defs = delivers_def relays_def

definition conn_ok :: "nat \<Rightarrow> conn \<Rightarrow> bool" where
  "conn_ok mp c \<longleftrightarrow>
     (k_socket c \<longleftrightarrow> k_state c \<noteq> CLOSED)
     \<and> (k_state c = ESTABLISHED \<or> k_state c = FIN_WAIT \<longrightarrow> pendingData c = [])
     \<and> (k_state c = FIN_WAIT \<longrightarrow> finSent c)
     \<and> (finSent c \<longrightarrow> k_state c = FIN_WAIT \<or> k_state c = CLOSED)
     \<and> pendingResponses c \<le> mp"

text \<open>A step that keeps the invariant and moves the streams forward.\<close>

definition advances :: "nat \<Rightarrow> conn \<Rightarrow> buffer \<Rightarrow> buffer \<Rightarrow> action list \<Rightarrow> conn \<Rightarrow> bool" where
  "advances mp c down up out c' \<longleftrightarrow> (conn_ok mp c \<longrightarrow> conn_ok mp c' \<and> delivers c down up out c')"

lemma relays_refl [simp]: "relays c [] [] [] c"
  by (simp add: relays_def)

lemma relays_trans:
  assumes "relays c d1 u1 o1 c1" "relays c1 d2 u2 o2 c2"
  shows "relays c (d1 @ d2) (u1 @ u2) (o1 @ o2) c2"
proof -
  have d: "serverReadBacklog c @ d1 @ d2 = downstream (o1 @ o2) @ serverReadBacklog c2"
    using assms by (simp add: relays_def) (metis append.assoc)
  have u: "concat (pendingData c) @ u1 @ u2 = upstream (o1 @ o2) @ concat (pendingData c2)"
    using assms by (simp add: relays_def) (metis append.assoc)
  show ?thesis
    unfolding relays_def using assms d u
    by (auto simp: relays_def in_sequence_append)
qed

lemma delivers_refl [simp]: "delivers c [] [] [] c"
  by (simp add: delivers_def)

lemma delivers_trans:
  "delivers c d1 u1 o1 c1 \<Longrightarrow> delivers c1 d2 u2 o2 c2 \<Longrightarrow> delivers c (d1 @ d2) (u1 @ u2) (o1 @ o2) c2"
  by (auto simp: delivers_def intro: relays_trans)

lemma advances_refl [simp]: "advances mp c [] [] [] c"
  by (simp add: advances_def)

lemma advances_trans:
  "advances mp c d1 u1 o1 c1 \<Longrightarrow> advances mp c1 d2 u2 o2 c2 \<Longrightarrow> advances mp c (d1 @ d2) (u1 @ u2) (o1 @ o2) c2"
  by (auto simp: advances_def intro: delivers_trans)

lemmas advances_silent = advances_trans [where ?d2.0 = "[]" and ?u2.0 = "[]", simplified]
lemmas advances_then = advances_trans [where ?d1.0 = "[]" and ?u1.0 = "[]" and ?o1.0 = "[]", simplified]

lemma maybeSendServerFin_advances:
  "maybeSendServerFin c = (c', out) \<Longrightarrow> advances mp c [] [] out c'"
  by (auto simp: maybeSendServerFin_def advances_def conn_ok_def delivers_defs respond_def seg_len_def tcp_flag_values
      key_of_def Let_def split: if_splits)

lemma flush_loop_spec:
  assumes "flush_loop maxP c backlog out = (c', rest, out')"
  shows "\<exists>new s. out' = out @ new \<and> c' = c\<lparr>serverSeq := s, pendingResponses := pendingResponses c + length new\<rparr>
    \<and> in_sequence (serverSeq c) (responses new) s \<and> backlog = downstream new @ rest
    \<and> upstream new = [] \<and> fin_count new = 0 \<and> length (responses new) = length new
    \<and> (\<forall>s \<in> set (responses new). sg_data s \<noteq> [] \<and> length (sg_data s) \<le> 1360)
    \<and> pendingResponses c' \<le> max (pendingResponses c) maxP
    \<and> (rest = [] \<or> maxP \<le> pendingResponses c')"
  using assms
proof (induction maxP c backlog out arbitrary: c' rest out' rule: flush_loop.induct)
  case (1 maxP c backlog out)
  show ?case
  proof (cases "backlog \<noteq> [] \<and> maxP > 0 \<and> pendingResponses c < maxP")
    case False
    then have "flush_loop maxP c backlog out = (c, backlog, out)"
      by (subst flush_loop.simps, subst if_not_P) auto
    with 1(2) False show ?thesis by (intro exI [of _ "[]"] exI [of _ "serverSeq c"]) auto
  next
    case True
    define n where "n = min 1360 (length backlog)"
    define fl where "fl = (if n \<ge> length backlog then FLAG_PSH + FLAG_ACK else FLAG_ACK)"
    define pkt where "pkt = respond c fl (take n backlog)"
    define c1 where "c1 = c\<lparr>serverSeq := serverSeq c + int n, pendingResponses := pendingResponses c + 1\<rparr>"
    have step: "flush_loop maxP c1 (drop n backlog) (out @ [pkt]) = (c', rest, out')"
      using 1(2) True by (subst (asm) flush_loop.simps) (simp add: Let_def n_def fl_def pkt_def c1_def)
    obtain new s where new: "out' = (out @ [pkt]) @ new"
      "c' = c1\<lparr>serverSeq := s, pendingResponses := pendingResponses c1 + length new\<rparr>"
      "in_sequence (serverSeq c1) (responses new) s" "drop n backlog = downstream new @ rest"
      "upstream new = []" "fin_count new = 0" "length (responses new) = length new"
      "\<forall>s \<in> set (responses new). sg_data s \<noteq> [] \<and> length (sg_data s) \<le> 1360"
      "pendingResponses c' \<le> max (pendingResponses c1) maxP"
      "rest = [] \<or> maxP \<le> pendingResponses c'"
      using 1(1) [OF True refl refl refl] step unfolding n_def fl_def pkt_def c1_def by blast
    have even: "even fl" "even (fl div 2)" by (simp_all add: fl_def tcp_flag_values)
    have len: "length (take n backlog) = n" "n \<le> 1360" by (simp_all add: n_def)
    have c': "c' = c\<lparr>serverSeq := s, pendingResponses := pendingResponses c + length (pkt # new)\<rparr>"
      by (simp add: new(2) c1_def)
    have "backlog = downstream (pkt # new) @ rest"
      using new(4) append_take_drop_id [of n backlog] by (simp add: pkt_def respond_def)
    moreover have "in_sequence (serverSeq c) (responses (pkt # new)) s"
      using new(3) even len by (simp add: pkt_def respond_def seg_len_def c1_def)
    moreover have "\<forall>s \<in> set (responses (pkt # new)). sg_data s \<noteq> [] \<and> length (sg_data s) \<le> 1360"
      using new(8) True len by (auto simp: pkt_def respond_def n_def)
    moreover have "pendingResponses c' \<le> max (pendingResponses c) maxP"
      using new(9) True by (simp add: c1_def)
    ultimately show ?thesis
      using new(1,5-7,10) c' even by (intro exI [of _ "pkt # new"] exI [of _ s]) (simp add: pkt_def respond_def)
  qed
qed

lemma maxPendingForConn_le: "maxPendingForConn mp c \<le> mp"
  by (simp add: maxPendingForConn_def Let_def)

lemma flush_advances:
  assumes "flushServerReadBacklog mp c = (c', out)"
  shows "advances mp c [] [] out c'"
proof (cases "live_state c \<and> serverReadBacklog c \<noteq> []")
  case False
  with assms show ?thesis
    by (auto simp: flushServerReadBacklog_def maybeSendServerFin_advances split: if_splits)
next
  case True
  obtain c1 rest new where fl: "flush_loop (maxPendingForConn mp c) c (serverReadBacklog c) [] = (c1, rest, new)"
    by (metis prod_cases3)
  obtain fin where fin: "maybeSendServerFin (c1\<lparr>serverReadBacklog := rest\<rparr>) = (c', fin)" "out = new @ fin"
    using assms True fl by (auto simp: flushServerReadBacklog_def split: prod.splits)
  have "advances mp c [] [] new (c1\<lparr>serverReadBacklog := rest\<rparr>)"
    using flush_loop_spec [OF fl] maxPendingForConn_le [of mp c]
    by (elim exE conjE) (auto simp: advances_def conn_ok_def delivers_defs key_of_def le_max_iff_disj)
  from advances_silent [OF this maybeSendServerFin_advances [OF fin(1)]] show ?thesis
    by (simp add: fin(2))
qed

lemma if_memI: "x \<in> S \<Longrightarrow> y \<in> S \<Longrightarrow> (if b then x else y) \<in> S"
  by simp

lemma sync_mem:
  "syncServerSocketPause mp i c
     \<in> {(c, []), (c\<lparr>serverSocketPaused := True\<rparr>, [Sock_pause i]), (c\<lparr>serverSocketPaused := False\<rparr>, [Sock_resume i])}"
  unfolding syncServerSocketPause_def Let_def by (intro if_memI) simp_all

lemma sync_advances:
  assumes "syncServerSocketPause mp i c = (c', out)"
  shows "advances mp c [] [] out c'"
proof -
  consider "c' = c" "out = []" | "c' = c\<lparr>serverSocketPaused := True\<rparr>" "out = [Sock_pause i]"
    | "c' = c\<lparr>serverSocketPaused := False\<rparr>" "out = [Sock_resume i]"
    using sync_mem [of mp i c] unfolding assms insert_iff empty_iff prod.inject by blast
  then show ?thesis
    by cases (simp_all add: advances_def conn_ok_def delivers_defs key_of_def)
qed

lemma flush_and_sync_advances: "flush_and_sync mp i c = (c', out) \<Longrightarrow> advances mp c [] [] out c'"
  by (auto simp: flush_and_sync_def split: prod.splits
      intro!: advances_silent [OF flush_advances sync_advances])

lemma take_ack_advances: "advances mp c [] [] [] (take_ack ack c)"
  by (auto simp: take_ack_def advances_def conn_ok_def delivers_defs key_of_def Let_def split: option.splits)

lemma window_advances: "advances mp c [] [] [] (c\<lparr>peerRecvWindow := w\<rparr>)"
  and activity_advances: "advances mp c [] [] [] (c\<lparr>lastActivity := now\<rparr>)"
  and eof_advances: "advances mp c [] [] [] (c\<lparr>eofFromServer := True\<rparr>)"
  and linger_advances: "advances mp c [] [] [] (c\<lparr>lingerCloseTimer := b\<rparr>)"
  by (auto simp: advances_def conn_ok_def delivers_defs key_of_def)

lemma close_relays:
  "relays c [] [] (if k_socket c then [Sock_destroy i] else []) (c\<lparr>lingerCloseTimer := b, k_state := CLOSED, k_socket := False\<rparr>)"
  "conn_ok mp c \<Longrightarrow> conn_ok mp (c\<lparr>lingerCloseTimer := b, k_state := CLOSED, k_socket := False\<rparr>)"
  by (auto simp: relays_def conn_ok_def key_of_def)

lemma update_advances:
  assumes "updatePeerWindowAndAck mp i c t = (c', out)"
  shows "advances mp c [] [] out c'"
proof (cases "live_state c")
  case True
  obtain c1 where c1: "flush_and_sync mp i c1 = (c', out)"
    "c1 = c\<lparr>peerRecvWindow := map_option tcpWindow t\<rparr> \<or> (\<exists>a. c1 = take_ack a (c\<lparr>peerRecvWindow := map_option tcpWindow t\<rparr>))"
    using assms True by (auto simp: updatePeerWindowAndAck_def Let_def split: option.splits if_splits)
  have "advances mp c [] [] [] c1"
    using c1(2) advances_then [OF window_advances take_ack_advances] window_advances by blast
  from advances_then [OF this flush_and_sync_advances [OF c1(1)]] show ?thesis .
qed (use assms in \<open>simp add: updatePeerWindowAndAck_def\<close>)

lemma handle_fin_advances:
  assumes "handle_fin i seq c = (c', out)"
  shows "advances mp c [] [] out c'"
proof -
  have "advances mp c [] [] (snd (handle_fin i seq c)) (fst (handle_fin i seq c))"
    by (simp add: handle_fin_def Let_def advances_def conn_ok_def delivers_defs respond_def seg_len_def
        tcp_flag_values key_of_def)
  then show ?thesis by (simp add: assms)
qed

definition open_state :: "conn \<Rightarrow> bool" where
  "open_state c \<longleftrightarrow> k_state c = CONNECTING \<or> k_state c = ESTABLISHED"

lemma handle_data_advances:
  "handle_data i seq data c = (c', out) \<Longrightarrow> advances mp c [] (if open_state c then data else []) out c'"
  by (auto simp: handle_data_def open_state_def advances_def conn_ok_def delivers_defs respond_def seg_len_def tcp_flag_values
      key_of_def Let_def split: if_splits)

text \<open>
  The client bytes a segment adds to the stream towards the server: its payload, unless it
  carries a FIN or finds the connection (after its acknowledgement was processed) no longer open.
\<close>

definition accepted_data :: "int \<Rightarrow> nat \<Rightarrow> nat \<Rightarrow> parsed_ip \<Rightarrow> conn \<Rightarrow> buffer" where
  "accepted_data now mp i p c =
     (if (case tcp p of Some t \<Rightarrow> tcpFlagsFIN t | None \<Rightarrow> False)
       \<or> \<not> open_state (fst (updatePeerWindowAndAck mp i (c\<lparr>lastActivity := now\<rparr>) (tcp p)))
      then [] else ip_data p)"

lemma handle_segment_advances:
  assumes "handle_segment now mp i p c = (c', out)"
  shows "advances mp c [] (accepted_data now mp i p c) out c'"
proof -
  obtain c1 o1 where up: "updatePeerWindowAndAck mp i (c\<lparr>lastActivity := now\<rparr>) (tcp p) = (c1, o1)"
    by fastforce
  have first: "advances mp c [] [] o1 c1"
    by (rule advances_then [OF activity_advances update_advances [OF up]])
  define fin where "fin \<longleftrightarrow> (case tcp p of Some t \<Rightarrow> tcpFlagsFIN t | None \<Rightarrow> False)"
  define seq where "seq = (case tcp p of Some t \<Rightarrow> int (tcpSeq t) | None \<Rightarrow> -1)"
  have acc: "accepted_data now mp i p c = (if fin \<or> \<not> open_state c1 then [] else ip_data p)"
    by (simp add: accepted_data_def up fin_def)
  consider (pure) "\<not> fin" "ip_data p = []" "c' = c1" "out = o1"
    | (fin) o2 where "fin" "handle_fin i seq c1 = (c', o2)" "out = o1 @ o2"
    | (rest) c2 o2 o3 where "\<not> fin" "(if ip_data p \<noteq> [] then handle_data i seq (ip_data p) c1 else (c1, [])) = (c2, o2)"
        "syncServerSocketPause mp i c2 = (c', o3)" "out = o1 @ o2 @ o3"
    using assms up by (auto simp: handle_segment_def Let_def fin_def seq_def split: if_splits prod.splits)
  then show ?thesis
  proof cases
    case pure
    then show ?thesis using first by (simp add: acc)
  next
    case fin
    then show ?thesis using advances_silent [OF first handle_fin_advances] by (simp add: acc)
  next
    case rest
    have "advances mp c1 [] (accepted_data now mp i p c) o2 c2"
      using rest(1,2) handle_data_advances [of i seq "ip_data p" c1] by (auto simp: acc split: if_splits)
    from advances_silent [OF this sync_advances [OF rest(3)]] show ?thesis
      using advances_trans [OF first] rest(4) by fastforce
  qed
qed

end
