(* ===== verification/NAT_Streams.thy ===== *)
theory NAT_Streams
  imports UserSpace_NAT
begin

text \<open>
  The user-space NAT as an event system. An event is a packet from the mesh, a callback of a
  server socket, a timer, or a datagram; \<open>nat_next\<close> runs the handler of \<open>UserSpace_NAT\<close>. A socket
  reports \<open>connect\<close> only while its connection is \<open>CONNECTING\<close> (a destroyed socket emits no
  \<open>connect\<close>): this is the guard \<open>nat_enabled\<close>. The theory shows the invariant of the reachable
  states and, for every connection and every interleaving, that the two byte streams are relayed
  without loss, duplication or reordering.
\<close>

section \<open>Events\<close>

datatype nat_event =
    Mesh_packet int int buffer jsstring
  | Connected int nat nat
  | Server_data int nat buffer
  | Server_end nat
  | Server_error nat
  | Server_timeout nat
  | Server_close nat
  | Linger nat
  | Udp_message int jsstring udp_info buffer
  | Udp_error jsstring
  | Icmp_reply nat ipv4 nat nat nat buffer
  | Icmp_timeout nat nat
  | Cleanup int
  | Stop

fun nat_next :: "nat_event \<Rightarrow> unat \<Rightarrow> (unat \<times> action list) res" where
  "nat_next (Mesh_packet now seq0 pkt node) st = processPacket now seq0 pkt node st"
| "nat_next (Connected now sec i) st = Inr (on_connect now sec i st)"
| "nat_next (Server_data now i d) st = Inr (on_data now i d st)"
| "nat_next (Server_end i) st = Inr (on_end i st)"
| "nat_next (Server_error i) st = Inr (on_error i st)"
| "nat_next (Server_timeout i) st = Inr (on_timeout i st)"
| "nat_next (Server_close i) st = Inr (on_close i st)"
| "nat_next (Linger i) st = Inr (on_linger i st)"
| "nat_next (Udp_message now key u msg) st = Inr (on_udp_message now key u msg st)"
| "nat_next (Udp_error key) st = Inr (on_udp_error key st, [])"
| "nat_next (Icmp_reply rnd src ident seq ttl payload) st = on_icmp_reply rnd src ident seq ttl payload st"
| "nat_next (Icmp_timeout ident seq) st = Inr (on_icmp_timeout ident seq st, [])"
| "nat_next (Cleanup now) st = Inr (nat_cleanup_conns now st)"
| "nat_next Stop st = Inr (stop_nat st)"

definition conn_state :: "unat \<Rightarrow> nat \<Rightarrow> tcp_state option" where
  "conn_state st i = map_option k_state (map_get (conns st) i)"

definition nat_enabled :: "nat_event \<Rightarrow> unat \<Rightarrow> bool" where
  "nat_enabled ev st = (case ev of Connected now sec i \<Rightarrow> conn_state st i = Some CONNECTING | _ \<Rightarrow> True)"

text \<open>The connection object an event is about.\<close>

fun socket_of :: "nat_event \<Rightarrow> nat option" where
  "socket_of (Connected now sec i) = Some i"
| "socket_of (Server_data now i d) = Some i"
| "socket_of (Server_end i) = Some i"
| "socket_of (Server_error i) = Some i"
| "socket_of (Server_timeout i) = Some i"
| "socket_of (Server_close i) = Some i"
| "socket_of (Linger i) = Some i"
| "socket_of ev = None"

definition tcp_packet :: "nat_event \<Rightarrow> (int \<times> parsed_ip) option" where
  "tcp_packet ev = (case ev of
      Mesh_packet now seq0 pkt node \<Rightarrow>
        (case parseIPPacket pkt of
           Inr (Valid p) \<Rightarrow> if protocol p = PROTO_TCP then Some (now, p) else None
         | _ \<Rightarrow> None)
    | _ \<Rightarrow> None)"

definition packet_key :: "parsed_ip \<Rightarrow> jsstring" where
  "packet_key p = conn_key (srcIp p) (srcPort p) (dstIp p) (dstPort p)"

definition target :: "nat_event \<Rightarrow> unat \<Rightarrow> nat option" where
  "target ev st = (case tcp_packet ev of Some (now, p) \<Rightarrow> map_get (tcpConnections st) (packet_key p) | None \<Rightarrow> socket_of ev)"

text \<open>
  What an event adds to the streams of connection \<open>i\<close>: the bytes the server sent, the payload
  bytes accepted from the client, and the actions taken for this connection.
\<close>

definition server_bytes :: "nat \<Rightarrow> nat_event \<Rightarrow> unat \<Rightarrow> buffer" where
  "server_bytes i ev st = (case ev of
      Server_data now j d \<Rightarrow> if j = i \<and> conn_state st i \<noteq> Some CLOSED then d else []
    | _ \<Rightarrow> [])"

definition has_tcp_flag :: "(tcp_info \<Rightarrow> bool) \<Rightarrow> parsed_ip \<Rightarrow> bool" where
  "has_tcp_flag f p = (case tcp p of Some t \<Rightarrow> f t | None \<Rightarrow> False)"

definition client_bytes :: "nat \<Rightarrow> nat_event \<Rightarrow> unat \<Rightarrow> buffer" where
  "client_bytes i ev st = (case tcp_packet ev of
      Some (now, p) \<Rightarrow>
        if target ev st \<noteq> Some i \<or> has_tcp_flag tcpFlagsRST p \<or> (has_tcp_flag tcpFlagsSYN p \<and> \<not> has_tcp_flag tcpFlagsACK p)
        then []
        else (case map_get (conns st) i of Some c \<Rightarrow> accepted_data now (tcpMaxPending st) i p c | None \<Rightarrow> [])
    | None \<Rightarrow> [])"

definition conn_actions :: "nat \<Rightarrow> nat_event \<Rightarrow> unat \<Rightarrow> action list \<Rightarrow> action list" where
  "conn_actions i ev st out = (if target ev st = Some i then out else [])"

section \<open>The invariant\<close>

text \<open>
  The open connections are exactly the entries of the table, each under its own key; object
  numbers are fresh; every connection satisfies \<open>conn_ok\<close>; and the counter of connection attempts
  is between the number of connections being set up and the limit.
\<close>

definition connecting :: "unat \<Rightarrow> nat set" where
  "connecting st = {i. conn_state st i = Some CONNECTING}"

definition nat_inv :: "unat \<Rightarrow> bool" where
  "nat_inv st \<longleftrightarrow>
     (\<forall>i. nextConn st \<le> i \<longrightarrow> map_get (conns st) i = None)
     \<and> (\<forall>i c. map_get (conns st) i = Some c \<longrightarrow> conn_ok (tcpMaxPending st) c)
     \<and> (\<forall>key i. map_get (tcpConnections st) key = Some i \<longleftrightarrow>
          (\<exists>c. map_get (conns st) i = Some c \<and> k_state c \<noteq> CLOSED \<and> key_of c = key))
     \<and> int (card (connecting st)) \<le> connectingCount st \<and> connectingCount st \<le> max 0 (maxConnections st)"

lemma nat_invI:
  assumes "\<And>i. nextConn st \<le> i \<Longrightarrow> map_get (conns st) i = None"
    and "\<And>i c. map_get (conns st) i = Some c \<Longrightarrow> conn_ok (tcpMaxPending st) c"
    and "\<And>key i. map_get (tcpConnections st) key = Some i \<longleftrightarrow>
          (\<exists>c. map_get (conns st) i = Some c \<and> k_state c \<noteq> CLOSED \<and> key_of c = key)"
    and "int (card (connecting st)) \<le> connectingCount st" "connectingCount st \<le> max 0 (maxConnections st)"
  shows "nat_inv st"
  using assms unfolding nat_inv_def by blast

lemma nat_invD:
  assumes "nat_inv st"
  shows inv_fresh: "nextConn st \<le> i \<Longrightarrow> map_get (conns st) i = None"
    and inv_ok: "map_get (conns st) i = Some c \<Longrightarrow> conn_ok (tcpMaxPending st) c"
    and inv_table: "map_get (tcpConnections st) key = Some i \<longleftrightarrow>
          (\<exists>c. map_get (conns st) i = Some c \<and> k_state c \<noteq> CLOSED \<and> key_of c = key)"
    and inv_count: "int (card (connecting st)) \<le> connectingCount st" "connectingCount st \<le> max 0 (maxConnections st)"
  using assms unfolding nat_inv_def by blast+

lemma finite_connecting [simp]: "finite (connecting st)"
  by (rule finite_subset [OF _ finite_dom_map_of [of "conns st"]]) (auto simp: connecting_def conn_state_def)

text \<open>A step that leaves the connections alone.\<close>

definition core_eq :: "unat \<Rightarrow> unat \<Rightarrow> bool" where
  "core_eq st st' \<longleftrightarrow> map_get (conns st') = map_get (conns st)
     \<and> map_get (tcpConnections st') = map_get (tcpConnections st) \<and> nextConn st \<le> nextConn st'
     \<and> connectingCount st' = connectingCount st \<and> maxConnections st' = maxConnections st
     \<and> tcpMaxPending st' = tcpMaxPending st"

lemma inv_core_eq: "nat_inv st \<Longrightarrow> core_eq st st' \<Longrightarrow> nat_inv st'"
proof -
  assume inv: "nat_inv st" and eq: "core_eq st st'"
  have "connecting st' = connecting st" using eq by (simp add: connecting_def conn_state_def core_eq_def)
  with eq show "nat_inv st'"
    using nat_invD [OF inv] by (intro nat_invI) (simp_all add: core_eq_def)
qed

text \<open>
  A step of connection \<open>i\<close> from \<open>c\<close> to \<open>c'\<close>: a connection that closes leaves the table, and the
  counter of attempts may go down when it leaves \<open>CONNECTING\<close>.
\<close>

definition moved :: "nat \<Rightarrow> conn \<Rightarrow> conn \<Rightarrow> unat \<Rightarrow> unat \<Rightarrow> bool" where
  "moved i c c' st st' \<longleftrightarrow>
     map_get (conns st') = (map_get (conns st))(i \<mapsto> c')
     \<and> map_get (tcpConnections st') = (if k_state c' = CLOSED \<and> k_state c \<noteq> CLOSED
          then (map_get (tcpConnections st))(key_of c := None) else map_get (tcpConnections st))
     \<and> nextConn st' = nextConn st \<and> maxConnections st' = maxConnections st \<and> tcpMaxPending st' = tcpMaxPending st"

definition conn_step :: "nat \<Rightarrow> conn \<Rightarrow> buffer \<Rightarrow> buffer \<Rightarrow> action list \<Rightarrow> unat \<Rightarrow> unat \<Rightarrow> bool" where
  "conn_step i c d u out st st' \<longleftrightarrow> (\<exists>c'.
     moved i c c' st st' \<and> conn_ok (tcpMaxPending st) c' \<and> relays c d u out c'
     \<and> (connectingCount st' = connectingCount st
        \<or> connectingCount st' = connectingCount st - 1 \<and> k_state c = CONNECTING \<and> k_state c' \<noteq> CONNECTING))"

lemma rank_0 [simp]: "rank s = 0 \<longleftrightarrow> s = CONNECTING"
  and rank_3 [simp]: "3 \<le> rank s \<longleftrightarrow> s = CLOSED"
  by (cases s; simp)+

lemma connecting_moved:
  assumes "map_get (conns st) i = Some c" "map_get (conns st') = (map_get (conns st))(i \<mapsto> c')"
    "rank (k_state c) \<le> rank (k_state c')"
  shows "connecting st' = (if k_state c' = CONNECTING then connecting st else connecting st - {i})"
  using assms by (auto simp: connecting_def conn_state_def)

lemma table_moved:
  assumes inv: "nat_inv st" and c: "map_get (conns st) i = Some c" and mv: "moved i c c' st st'" and rel: "relays c d u out c'"
  shows "map_get (tcpConnections st') key = Some j \<longleftrightarrow>
          (\<exists>cc. map_get (conns st') j = Some cc \<and> k_state cc \<noteq> CLOSED \<and> key_of cc = key)"
proof (cases "k_state c = CLOSED")
  case True
  then have "k_state c' = CLOSED" using rel by (simp add: relays_def)
  then show ?thesis using True mv c inv_table [OF inv, of key j] by (auto simp: moved_def)
next
  case False
  then have mine: "map_get (tcpConnections st) (key_of c) = Some i" using c inv_table [OF inv] by blast
  have "key_of c' = key_of c" using rel by (simp add: relays_def)
  then show ?thesis
    using False mine c mv inv_table [OF inv, of key j] inv_table [OF inv, of key i]
    by (cases "j = i"; cases "k_state c' = CLOSED"; cases "key = key_of c") (auto simp: moved_def)
qed

lemma inv_conn_step:
  assumes inv: "nat_inv st" and c: "map_get (conns st) i = Some c" and step: "conn_step i c d u out st st'"
  shows "nat_inv st'"
proof -
  obtain c' where mv: "moved i c c' st st'" and ok: "conn_ok (tcpMaxPending st) c'" and rel: "relays c d u out c'"
    and cnt: "connectingCount st' = connectingCount st
        \<or> connectingCount st' = connectingCount st - 1 \<and> k_state c = CONNECTING \<and> k_state c' \<noteq> CONNECTING"
    using step by (auto simp: conn_step_def)
  have conns: "map_get (conns st') = (map_get (conns st))(i \<mapsto> c')"
    and eqs: "nextConn st' = nextConn st" "maxConnections st' = maxConnections st" "tcpMaxPending st' = tcpMaxPending st"
    using mv unfolding moved_def by blast+
  have con: "connecting st' = (if k_state c' = CONNECTING then connecting st else connecting st - {i})"
    using connecting_moved [OF c conns] rel by (simp add: relays_def)
  then have le: "card (connecting st') \<le> card (connecting st)" by (simp add: card_mono)
  have less: "card (connecting st') < card (connecting st)" if "k_state c = CONNECTING" "k_state c' \<noteq> CONNECTING"
  proof -
    have "i \<in> connecting st" using that c by (simp add: connecting_def conn_state_def)
    then show ?thesis using that card_Diff1_less [OF finite_connecting] by (simp add: con)
  qed
  show ?thesis
  proof (rule nat_invI)
    show "map_get (conns st') j = None" if "nextConn st' \<le> j" for j
      using that inv_fresh [OF inv] c by (auto simp: conns eqs)
    show "conn_ok (tcpMaxPending st') cc" if "map_get (conns st') j = Some cc" for j cc
      using that ok inv_ok [OF inv] by (auto simp: conns eqs split: if_splits)
    show "int (card (connecting st')) \<le> connectingCount st'"
      using cnt le less inv_count(1) [OF inv] by linarith
    show "connectingCount st' \<le> max 0 (maxConnections st')"
      using cnt inv_count(2) [OF inv] by (auto simp: eqs)
  qed (rule table_moved [OF inv c mv rel])
qed

section \<open>Every handler is a step of its connection\<close>

lemma with_conn_step:
  assumes c: "map_get (conns st) i = Some c" and f: "f c = (c', out)" and ok: "conn_ok (tcpMaxPending st) c"
    and adv: "advances (tcpMaxPending st) c d u out c'" and run: "with_conn i f st = (st', out')"
  shows "out' = out \<and> conn_step i c d u out st st'"
proof -
  have st': "st' = put_conn i c' st" "out' = out" using run c f by (simp_all add: with_conn_def)
  have c': "conn_ok (tcpMaxPending st) c'" "relays c d u out c'" "k_socket c' = k_socket c"
    using adv ok by (simp_all add: advances_def delivers_def)
  then have "k_state c' = CLOSED \<longleftrightarrow> k_state c = CLOSED"
    using ok unfolding conn_ok_def by metis
  then have "moved i c c' st st'" by (auto simp: moved_def st' put_conn_def)
  then show ?thesis using c' by (auto simp: conn_step_def st' put_conn_def)
qed

lemma close_step:
  assumes "map_get (conns st) i = Some c" "conn_ok mp c" "closeTCPConnection i st = (st', out)"
  shows "\<exists>c'. moved i c c' st st' \<and> conn_ok mp c' \<and> relays c [] [] out c' \<and> k_state c' = CLOSED
    \<and> connectingCount st' = connectingCount st"
proof (cases "k_state c = CLOSED")
  case True
  then have "st' = st" "out = []" using assms by (simp_all add: closeTCPConnection_def)
  then show ?thesis using assms True by (intro exI [of _ c]) (auto simp: moved_def)
next
  case False
  define c' where "c' = c\<lparr>lingerCloseTimer := False, k_state := CLOSED, k_socket := False\<rparr>"
  have "st' = (put_conn i c' st)\<lparr>tcpConnections := map_del (key_of c) (tcpConnections st)\<rparr>"
    "out = (if k_socket c then [Sock_destroy i] else [])"
    using assms False by (simp_all add: closeTCPConnection_def c'_def)
  then show ?thesis
    using False close_relays(1) [of c i False] close_relays(2) [OF assms(2), of False]
    by (intro exI [of _ c']) (auto simp: moved_def put_conn_def c'_def)
qed

lemma linger_or_close_step:
  assumes c: "map_get (conns st) i = Some c" and ok: "conn_ok mp c" and run: "linger_or_close i st = (st', out)"
  shows "\<exists>c'. moved i c c' st st' \<and> conn_ok mp c' \<and> relays c [] [] out c' \<and> (k_state c = CONNECTING \<longrightarrow> k_state c' = CLOSED)
    \<and> connectingCount st' = connectingCount st"
proof (cases "finSent c")
  case False
  then have "closeTCPConnection i st = (st', out)" using run c by (simp add: linger_or_close_def)
  from close_step [OF c ok this] show ?thesis by blast
next
  case True
  note open_fin = True
  have nc: "k_state c \<noteq> CONNECTING" using True ok by (auto simp: conn_ok_def)
  show ?thesis
  proof (cases "lingerCloseTimer c \<or> k_state c = CLOSED")
    case True
    then have "st' = st" "out = []"
      using open_fin run c by (auto simp: linger_or_close_def scheduleTcpLingerClose_def)
    then show ?thesis using c ok nc by (intro exI [of _ c]) (auto simp: moved_def)
  next
    case False
    define c' where "c' = c\<lparr>lingerCloseTimer := True\<rparr>"
    have st': "st' = put_conn i c' st" "out = []"
      using open_fin False run c by (auto simp: linger_or_close_def scheduleTcpLingerClose_def c'_def)
    have "moved i c c' st st'" by (simp add: moved_def st' c'_def put_conn_def fun_eq_iff)
    moreover have "conn_ok mp c'" "relays c [] [] out c'"
      using ok by (simp_all add: c'_def conn_ok_def relays_def key_of_def st')
    ultimately show ?thesis using nc by (intro exI [of _ c']) (simp add: st' put_conn_def)
  qed
qed

lemma relays_quiet:
  "responses out = [] \<Longrightarrow> upstream out = [] \<Longrightarrow> relays c d u out c' \<longleftrightarrow> relays c d u [] c'"
  by (simp add: relays_def downstream_def fin_count_def)

lemma moved_pre:
  assumes "moved i c1 c' (put_conn i c1 st) st'" "k_state c1 = k_state c" "key_of c1 = key_of c"
  shows "moved i c c' st st'"
  using assms unfolding moved_def by (simp add: put_conn_def fun_eq_iff)

text \<open>The effect of an event on all connections.\<close>

definition effect :: "nat_event \<Rightarrow> unat \<Rightarrow> unat \<Rightarrow> action list \<Rightarrow> bool" where
  "effect ev st st' out \<longleftrightarrow> nat_inv st' \<and> tcpMaxPending st' = tcpMaxPending st \<and>
     (\<forall>i c. map_get (conns st) i = Some c \<longrightarrow> (\<exists>c'. map_get (conns st') i = Some c'
        \<and> relays c (server_bytes i ev st) (client_bytes i ev st) (conn_actions i ev st out) c'))"

lemma other_bytes:
  assumes "target ev st \<noteq> Some i"
  shows "server_bytes i ev st = []" "client_bytes i ev st = []" "conn_actions i ev st out = []"
  using assms
  by (auto simp: server_bytes_def client_bytes_def conn_actions_def target_def tcp_packet_def
      split: nat_event.splits option.splits)

lemma effect_core:
  assumes "nat_inv st" "core_eq st st'" "\<And>i. target ev st = Some i \<Longrightarrow> map_get (conns st) i = None"
  shows "effect ev st st' out"
  unfolding effect_def
proof (intro conjI allI impI)
  fix i c assume c: "map_get (conns st) i = Some c"
  with assms(3) have "target ev st \<noteq> Some i" by fastforce
  then show "\<exists>c'. map_get (conns st') i = Some c'
      \<and> relays c (server_bytes i ev st) (client_bytes i ev st) (conn_actions i ev st out) c'"
    using c assms(2) by (intro exI [of _ c]) (simp add: core_eq_def other_bytes)
qed (use assms inv_core_eq in \<open>auto simp: core_eq_def\<close>)

lemma effect_conn:
  assumes "nat_inv st" "target ev st = Some i" "map_get (conns st) i = Some c"
    "conn_step i c (server_bytes i ev st) (client_bytes i ev st) out st st'"
  shows "effect ev st st' out"
  unfolding effect_def
proof (intro conjI allI impI)
  show "nat_inv st'" by (rule inv_conn_step [OF assms(1,3,4)])
  obtain c' where c': "moved i c c' st st'" "relays c (server_bytes i ev st) (client_bytes i ev st) out c'"
    using assms(4) by (auto simp: conn_step_def)
  show "tcpMaxPending st' = tcpMaxPending st" using c'(1) unfolding moved_def by blast
  have conns: "map_get (conns st') = (map_get (conns st))(i \<mapsto> c')" using c'(1) unfolding moved_def by blast
  fix j cc assume j: "map_get (conns st) j = Some cc"
  show "\<exists>c'. map_get (conns st') j = Some c'
      \<and> relays cc (server_bytes j ev st) (client_bytes j ev st) (conn_actions j ev st out) c'"
  proof (cases "j = i")
    case True
    then show ?thesis using c' conns j assms(2,3) by (intro exI [of _ c']) (simp add: conn_actions_def)
  next
    case False
    then show ?thesis using conns j assms(2) other_bytes [of ev st j] by (intro exI [of _ cc]) simp
  qed
qed

lemma effect_new:
  assumes inv: "nat_inv st" and tgt: "target ev st = None" and free: "map_get (tcpConnections st) (key_of c) = None"
    and c: "conn_ok (tcpMaxPending st) c" "k_state c = CONNECTING" and room: "connectingCount st < maxConnections st"
    and st': "st' = st\<lparr>connectingCount := connectingCount st + 1, conns := map_put (nextConn st) c (conns st),
      tcpConnections := map_put (key_of c) (nextConn st) (tcpConnections st), nextConn := nextConn st + 1\<rparr>"
  shows "effect ev st st' out"
proof -
  note fresh = inv_fresh [OF inv, of "nextConn st", simplified]
  have "nat_inv st'"
  proof (rule nat_invI)
    have "connecting st' = insert (nextConn st) (connecting st)" "nextConn st \<notin> connecting st"
      using c(2) fresh by (auto simp: connecting_def conn_state_def st')
    then show "int (card (connecting st')) \<le> connectingCount st'"
      using inv_count [OF inv] by (simp add: st')
    show "connectingCount st' \<le> max 0 (maxConnections st')" using room by (simp add: st')
    show "map_get (conns st') i = None" if "nextConn st' \<le> i" for i
      using that inv_fresh [OF inv] by (simp add: st')
    show "conn_ok (tcpMaxPending st') cc" if "map_get (conns st') i = Some cc" for i cc
      using that c inv_ok [OF inv] by (auto simp: st' split: if_splits)
    show "map_get (tcpConnections st') key = Some i \<longleftrightarrow>
        (\<exists>cc. map_get (conns st') i = Some cc \<and> k_state cc \<noteq> CLOSED \<and> key_of cc = key)" for key i
      using c(2) free fresh inv_table [OF inv, of key i] inv_table [OF inv, of "key_of c" i]
      by (cases "i = nextConn st"; cases "key = key_of c") (auto simp: st')
  qed
  then show ?thesis
    using fresh other_bytes [of ev st] tgt by (auto simp: effect_def st')
qed

text \<open>Closing several connections.\<close>

definition tracks :: "unat \<Rightarrow> unat \<Rightarrow> bool" where
  "tracks st st' \<longleftrightarrow> tcpMaxPending st' = tcpMaxPending st \<and>
     (\<forall>i c. map_get (conns st) i = Some c \<longrightarrow> (\<exists>c'. map_get (conns st') i = Some c' \<and> relays c [] [] [] c'))"

lemma tracks_refl: "tracks st st"
  by (simp add: tracks_def)

lemma tracks_get:
  "tracks st st' \<Longrightarrow> map_get (conns st) i = Some c \<Longrightarrow> map_get (conns st') i = Some c' \<Longrightarrow> relays c [] [] [] c'"
  unfolding tracks_def by fastforce

lemma tracks_trans: "tracks st st1 \<Longrightarrow> tracks st1 st2 \<Longrightarrow> tracks st st2"
  unfolding tracks_def using relays_trans [where ?d1.0 = "[]" and ?u1.0 = "[]" and ?o1.0 = "[]" and ?d2.0 = "[]"
      and ?u2.0 = "[]" and ?o2.0 = "[]"] by fastforce

lemma close_quiet: "closeTCPConnection i st = (st', out) \<Longrightarrow> responses out = [] \<and> upstream out = []"
  by (auto simp: closeTCPConnection_def split: option.splits if_splits)

lemma close_one:
  assumes inv: "nat_inv st" and run: "closeTCPConnection i st = (st', out)"
  shows "nat_inv st' \<and> tracks st st' \<and> (\<forall>c. map_get (conns st') i = Some c \<longrightarrow> k_state c = CLOSED)"
proof (cases "map_get (conns st) i")
  case None
  then have "st' = st" using run by (simp add: closeTCPConnection_def)
  then show ?thesis using inv None by (simp add: tracks_refl)
next
  case (Some c)
  obtain c' where c': "moved i c c' st st'" "conn_ok (tcpMaxPending st) c'" "relays c [] [] out c'" "k_state c' = CLOSED"
    "connectingCount st' = connectingCount st"
    using close_step [OF Some inv_ok [OF inv Some] run] by blast
  have "conn_step i c [] [] out st st'" using c' unfolding conn_step_def by blast
  then have inv': "nat_inv st'" by (rule inv_conn_step [OF inv Some])
  have conns: "map_get (conns st') = (map_get (conns st))(i \<mapsto> c')" "tcpMaxPending st' = tcpMaxPending st"
    using c'(1) unfolding moved_def by blast+
  have "relays c [] [] [] c'" using c'(3) close_quiet [OF run] relays_quiet by blast
  then have "tracks st st'" using Some by (simp add: tracks_def conns)
  with inv' show ?thesis using c'(4) by (simp add: conns)
qed

lemma close_all_tracks:
  "nat_inv st \<Longrightarrow> close_all is st = (st', out) \<Longrightarrow>
    nat_inv st' \<and> tracks st st' \<and> (\<forall>i \<in> set is. \<forall>c. map_get (conns st) i \<noteq> None \<longrightarrow> map_get (conns st') i = Some c \<longrightarrow> k_state c = CLOSED)"
proof (induction "is" arbitrary: st st' out)
  case (Cons i "is")
  obtain st1 o1 o2 where run: "closeTCPConnection i st = (st1, o1)" "close_all is st1 = (st', o2)"
    using Cons.prems(2) by (auto split: prod.splits)
  note one = close_one [OF Cons.prems(1) run(1)]
  note rest = Cons.IH [OF conjunct1 [OF one] run(2)]
  have "k_state c = CLOSED" if hyps: "j \<in> set (i # is)" "map_get (conns st) j \<noteq> None" "map_get (conns st') j = Some c" for j c
  proof -
    obtain c0 where "map_get (conns st) j = Some c0" using hyps(2) by blast
    then obtain c1 where c1: "map_get (conns st1) j = Some c1" using one unfolding tracks_def by blast
    have "relays c1 [] [] [] c" using tracks_get [OF _ c1 hyps(3)] rest by blast
    then show ?thesis
      using one rest c1 hyps by (cases "j = i") (auto simp: relays_def)
  qed
  then show ?case using one rest tracks_trans by blast
qed (simp add: tracks_refl)

lemma close_all_dom: "close_all is st = (st', out) \<Longrightarrow> map_get (conns st) i = None \<Longrightarrow> map_get (conns st') i = None"
proof (induction "is" arbitrary: st st' out)
  case (Cons j "is")
  obtain st1 o1 o2 where run: "closeTCPConnection j st = (st1, o1)" "close_all is st1 = (st', o2)"
    using Cons.prems(1) by (auto split: prod.splits)
  have "map_get (conns st1) i = None"
    using run(1) Cons.prems(2) by (auto simp: closeTCPConnection_def put_conn_def split: option.splits if_splits)
  then show ?case by (rule Cons.IH [OF run(2)])
qed simp

lemma effect_tracks:
  assumes "nat_inv st'" "tracks st st'" "target ev st = None"
  shows "effect ev st st' out"
  using assms other_bytes [of ev st] by (simp add: effect_def tracks_def)

lemma tracks_core: "tracks st st1 \<Longrightarrow> core_eq st1 st2 \<Longrightarrow> tracks st st2"
  by (simp add: tracks_def core_eq_def)

lemma cleanup_effect:
  assumes inv: "nat_inv st" and run: "nat_cleanup_conns now st = (st', out)"
  shows "effect (Cleanup now) st st' out"
proof -
  obtain "is" st1 o1 where close: "close_all is st = (st1, o1)" and st': "core_eq st1 st'"
    using run by (auto simp: nat_cleanup_conns_def core_eq_def Let_def split: prod.splits)
  note tr = close_all_tracks [OF inv close]
  show ?thesis
    using tr inv_core_eq [OF _ st'] tracks_core [OF _ st']
    by (intro effect_tracks) (auto simp: target_def tcp_packet_def)
qed

lemma stop_effect:
  assumes inv: "nat_inv st" and run: "stop_nat st = (st', out)"
  shows "effect Stop st st' out"
proof -
  define st0 where "st0 = st\<lparr>icmpHelper := False, icmpPending := []\<rparr>"
  have core0: "core_eq st st0" by (simp add: st0_def core_eq_def)
  obtain st1 o1 where close: "close_all (map snd (tcpConnections st)) st0 = (st1, o1)"
    and st': "st' = st1\<lparr>tcpConnections := [], udpSockets := []\<rparr>"
    using run by (auto simp: stop_nat_def st0_def split: prod.splits)
  note tr = close_all_tracks [OF inv_core_eq [OF inv core0] close]
  have none: "map_get (tcpConnections st1) key = None" for key
  proof (rule ccontr)
    assume "map_get (tcpConnections st1) key \<noteq> None"
    then obtain i where "map_get (tcpConnections st1) key = Some i" by blast
    then obtain c where c: "map_get (conns st1) i = Some c" "k_state c \<noteq> CLOSED" using tr inv_table by blast
    show False
    proof (cases "map_get (conns st) i")
      case None
      then show ?thesis using close_all_dom [OF close] c(1) by (simp add: st0_def)
    next
      case (Some c0)
      have "relays c0 [] [] [] c" using tracks_get [of st0 st1 i c0 c] tr Some c(1) by (simp add: st0_def)
      then have "k_state c0 \<noteq> CLOSED" using c(2) by (auto simp: relays_def)
      then have "map_get (tcpConnections st) (key_of c0) = Some i" using Some inv_table [OF inv] by blast
      then have "i \<in> set (map snd (tcpConnections st))" by (force dest: map_get_SomeD)
      then show ?thesis using tr c Some by (auto simp: st0_def)
    qed
  qed
  have core1: "core_eq st1 st'" using none by (simp add: core_eq_def st' fun_eq_iff)
  have "tracks st st'"
    using tracks_core [OF tracks_refl core0] tr core1 tracks_trans tracks_core by blast
  then show ?thesis
    using tr inv_core_eq [OF _ core1] by (intro effect_tracks) (auto simp: target_def tcp_packet_def)
qed

section \<open>Every event keeps the invariant and relays the streams\<close>

lemma effect_same: "nat_inv st \<Longrightarrow> target ev st = Some i \<Longrightarrow> map_get (conns st) i = None \<Longrightarrow> effect ev st st out"
  by (rule effect_core) (auto simp: core_eq_def)

lemma effect_with_conn:
  assumes inv: "nat_inv st" and tgt: "target ev st = Some i"
    and adv: "\<And>c c' o'. map_get (conns st) i = Some c \<Longrightarrow> f c = (c', o') \<Longrightarrow>
      advances (tcpMaxPending st) c (server_bytes i ev st) (client_bytes i ev st) o' c'"
    and run: "with_conn i f st = (st', out)"
  shows "effect ev st st' out"
proof (cases "map_get (conns st) i")
  case None
  then show ?thesis using run effect_same [OF inv tgt] by (simp add: with_conn_def)
next
  case (Some c)
  obtain c' o' where f: "f c = (c', o')" by fastforce
  from with_conn_step [OF Some f inv_ok [OF inv Some] adv [OF Some f] run]
  show ?thesis by (auto intro: effect_conn [OF inv tgt Some])
qed

lemma socket_target [simp]:
  "target (Connected now sec i) st = Some i" "target (Server_data now i d) st = Some i" "target (Server_end i) st = Some i"
  "target (Server_error i) st = Some i" "target (Server_timeout i) st = Some i" "target (Server_close i) st = Some i"
  "target (Linger i) st = Some i" "target (Udp_message now key w msg) st = None" "target (Udp_error key) st = None"
  "target (Icmp_reply rnd src ident seq ttl payload) st = None" "target (Icmp_timeout ident seq) st = None"
  by (simp_all add: target_def tcp_packet_def)

lemma socket_bytes [simp]:
  "client_bytes i (Connected now sec j) st = []" "client_bytes i (Server_data now j d) st = []"
  "client_bytes i (Server_end j) st = []" "client_bytes i (Server_error j) st = []" "client_bytes i (Server_timeout j) st = []"
  "client_bytes i (Server_close j) st = []" "client_bytes i (Linger j) st = []"
  "server_bytes i (Connected now sec j) st = []" "server_bytes i (Server_end j) st = []"
  "server_bytes i (Server_error j) st = []" "server_bytes i (Server_timeout j) st = []"
  "server_bytes i (Server_close j) st = []" "server_bytes i (Linger j) st = []"
  "server_bytes i (Mesh_packet now seq0 pkt node) st = []"
  by (simp_all add: client_bytes_def server_bytes_def tcp_packet_def)

lemma data_effect:
  assumes inv: "nat_inv st" and run: "on_data now i d st = (st', out)"
  shows "effect (Server_data now i d) st st' out"
proof (rule effect_with_conn [OF inv _ _ run [unfolded on_data_def]])
  fix c c' o' assume c: "map_get (conns st) i = Some c"
    and f: "(if k_state c = CLOSED then (c, []) else flush_and_sync (tcpMaxPending st) i
      (c\<lparr>lastActivity := now, serverReadBacklog := serverReadBacklog c @ d\<rparr>)) = (c', o')"
  show "advances (tcpMaxPending st) c (server_bytes i (Server_data now i d) st) (client_bytes i (Server_data now i d) st) o' c'"
  proof (cases "k_state c = CLOSED")
    case True
    then show ?thesis using c f by (simp add: server_bytes_def conn_state_def)
  next
    case False
    have "advances (tcpMaxPending st) c d [] [] (c\<lparr>lastActivity := now, serverReadBacklog := serverReadBacklog c @ d\<rparr>)"
      by (simp add: advances_def conn_ok_def delivers_defs key_of_def)
    from advances_silent [OF this flush_and_sync_advances] show ?thesis
      using False c f by (simp add: server_bytes_def conn_state_def)
  qed
qed simp

lemma end_effect:
  assumes inv: "nat_inv st" and run: "on_end i st = (st', out)"
  shows "effect (Server_end i) st st' out"
proof (rule effect_with_conn [OF inv _ _ run [unfolded on_end_def]])
  fix c c' o' assume f: "(if k_state c = CLOSED then (c, [])
       else case flushServerReadBacklog (tcpMaxPending st) (c\<lparr>eofFromServer := True\<rparr>) of (c, out1) \<Rightarrow>
            case maybeSendServerFin c of (c, out2) \<Rightarrow>
            case syncServerSocketPause (tcpMaxPending st) i c of (c, out3) \<Rightarrow> (c, out1 @ out2 @ out3)) = (c', o')"
  have "advances (tcpMaxPending st) c [] [] o' c'"
  proof (cases "k_state c = CLOSED")
    case True
    with f show ?thesis by simp
  next
    case False
    then obtain c1 o1 c2 o2 o3 where fl: "flushServerReadBacklog (tcpMaxPending st) (c\<lparr>eofFromServer := True\<rparr>) = (c1, o1)"
      "maybeSendServerFin c1 = (c2, o2)" "syncServerSocketPause (tcpMaxPending st) i c2 = (c', o3)" "o' = o1 @ o2 @ o3"
      using f by (auto split: prod.splits)
    from advances_silent [OF advances_then [OF eof_advances flush_advances [OF fl(1)]]
        advances_silent [OF maybeSendServerFin_advances [OF fl(2)] sync_advances [OF fl(3)]]]
    show ?thesis by (simp add: fl(4))
  qed
  then show "advances (tcpMaxPending st) c (server_bytes i (Server_end i) st) (client_bytes i (Server_end i) st) o' c'"
    by simp
qed simp

lemma connect_effect:
  assumes inv: "nat_inv st" and en: "conn_state st i = Some CONNECTING" and run: "on_connect now sec i st = (st', out)"
  shows "effect (Connected now sec i) st st' out"
proof -
  obtain c where c: "map_get (conns st) i = Some c" "k_state c = CONNECTING"
    using en by (auto simp: conn_state_def)
  define c' where "c' = c\<lparr>k_state := ESTABLISHED, lastActivity := now, peerRecvWindow := Some 65535,
    serverSeq := serverSeq c + 1, clientAck := clientSeq c + 1, pendingData := []\<rparr>"
  have st': "st' = put_conn i c' (st\<lparr>connectingCount := connectingCount st - 1\<rparr>)"
    and out: "out = Respond (k_srcNodeId c) (reply_segment c (serverSeq c) (clientSeq c + 1) (FLAG_SYN + FLAG_ACK) []
        (buildSynAckOptions sec (synNegotiation c))) # map (Sock_write i) (pendingData c)"
    using run c by (simp_all add: on_connect_def with_conn_def Let_def c'_def)
  have "moved i c c' st st'"
    using c by (simp add: moved_def st' c'_def put_conn_def fun_eq_iff)
  moreover have "conn_ok (tcpMaxPending st) c'" "relays c [] [] out c'"
    using inv_ok [OF inv c(1)] c(2)
    by (auto simp: conn_ok_def relays_def c'_def out seg_len_def tcp_flag_values key_of_def)
  ultimately have "conn_step i c [] [] out st st'"
    using c(2) unfolding conn_step_def by (intro exI [of _ c']) (simp add: st' put_conn_def c'_def)
  then show ?thesis by (intro effect_conn [OF inv _ c(1)]) simp_all
qed

text \<open>The error and timeout callbacks lower the counter for a connection being set up, then close it.\<close>

lemma counted_close_step:
  assumes inv: "nat_inv st" and c: "map_get (conns st) i = Some c"
    and st0: "st0 = (if k_state c = CONNECTING then st\<lparr>connectingCount := connectingCount st - 1\<rparr> else st)"
    and run: "linger_or_close i st0 = (st', out)"
  shows "conn_step i c [] [] out st st'"
proof -
  have c0: "map_get (conns st0) i = Some c" and eq: "conns st0 = conns st" "tcpConnections st0 = tcpConnections st"
    "nextConn st0 = nextConn st" "maxConnections st0 = maxConnections st" "tcpMaxPending st0 = tcpMaxPending st"
    using c by (simp_all add: st0)
  obtain c' where c': "moved i c c' st0 st'" "conn_ok (tcpMaxPending st) c'" "relays c [] [] out c'"
    "k_state c = CONNECTING \<longrightarrow> k_state c' = CLOSED" "connectingCount st' = connectingCount st0"
    using linger_or_close_step [OF c0 inv_ok [OF inv c] run] by blast
  have "moved i c c' st st'" using c'(1) unfolding moved_def eq .
  then show ?thesis using c' unfolding conn_step_def by (intro exI [of _ c']) (auto simp: st0)
qed

lemma conn_step_pre:
  assumes "conn_step i c [] [] out st st'" "in_sequence (serverSeq c) (responses o') (serverSeq c)"
    "downstream o' = []" "upstream o' = []" "fin_count o' = 0"
  shows "conn_step i c [] [] (o' @ out) st st'"
proof -
  have "relays c [] [] o' c" using assms by (simp add: relays_def)
  from relays_trans [OF this] show ?thesis using assms(1) unfolding conn_step_def by fastforce
qed

lemma error_effect:
  assumes inv: "nat_inv st" and run: "on_error i st = (st', out)"
  shows "effect (Server_error i) st st' out"
proof (cases "map_get (conns st) i")
  case None
  then show ?thesis using run effect_same [OF inv, of _ i] by (simp add: on_error_def)
next
  case (Some c)
  show ?thesis
  proof (cases "k_state c = CLOSED")
    case True
    have "conn_step i c [] [] [] st st"
      using Some inv_ok [OF inv Some] unfolding conn_step_def by (intro exI [of _ c]) (auto simp: moved_def)
    then show ?thesis using run Some True by (intro effect_conn [OF inv _ Some]) (simp_all add: on_error_def)
  next
    case False
    define o1 where "o1 = (if finSent c then [] else [respond c FLAG_RST []])"
    obtain o2 where lc: "linger_or_close i (if k_state c = CONNECTING then st\<lparr>connectingCount := connectingCount st - 1\<rparr> else st)
        = (st', o2)" "out = o1 @ o2"
      using run Some False by (auto simp: on_error_def Let_def o1_def split: prod.splits)
    have "conn_step i c [] [] (o1 @ o2) st st'"
      by (rule conn_step_pre [OF counted_close_step [OF inv Some refl lc(1)]])
        (simp_all add: o1_def respond_def seg_len_def tcp_flag_values)
    then show ?thesis by (intro effect_conn [OF inv _ Some]) (simp_all add: lc(2))
  qed
qed

lemma timeout_effect:
  assumes inv: "nat_inv st" and run: "on_timeout i st = (st', out)"
  shows "effect (Server_timeout i) st st' out"
proof (cases "map_get (conns st) i")
  case None
  then show ?thesis using run effect_same [OF inv, of _ i] by (simp add: on_timeout_def)
next
  case (Some c)
  obtain o2 where lc: "linger_or_close i (if k_state c = CONNECTING then st\<lparr>connectingCount := connectingCount st - 1\<rparr> else st)
      = (st', o2)" "out = [Sock_destroy i] @ o2"
    using run Some by (auto simp: on_timeout_def Let_def split: prod.splits)
  have "conn_step i c [] [] ([Sock_destroy i] @ o2) st st'"
    by (rule conn_step_pre [OF counted_close_step [OF inv Some refl lc(1)]]) simp_all
  then show ?thesis by (intro effect_conn [OF inv _ Some]) (simp_all add: lc(2))
qed

lemma conn_step_refl: "nat_inv st \<Longrightarrow> map_get (conns st) i = Some c \<Longrightarrow> conn_step i c [] [] [] st st"
  unfolding conn_step_def by (rule exI [of _ c]) (auto simp: moved_def dest: inv_ok)

lemma close_effect:
  assumes inv: "nat_inv st" and run: "on_close i st = (st', out)"
  shows "effect (Server_close i) st st' out"
proof (cases "map_get (conns st) i")
  case None
  then show ?thesis using run effect_same [OF inv, of _ i] by (simp add: on_close_def)
next
  case (Some c)
  have "conn_step i c [] [] out st st'"
  proof (cases "k_state c = CLOSED")
    case True
    then show ?thesis using run Some conn_step_refl [OF inv Some] by (simp add: on_close_def)
  next
    case False
    then have "linger_or_close i st = (st', out)" using run Some by (simp add: on_close_def)
    from linger_or_close_step [OF Some inv_ok [OF inv Some] this] show ?thesis
      unfolding conn_step_def by blast
  qed
  then show ?thesis by (intro effect_conn [OF inv _ Some]) simp_all
qed

lemma linger_effect:
  assumes inv: "nat_inv st" and run: "on_linger i st = (st', out)"
  shows "effect (Linger i) st st' out"
proof (cases "map_get (conns st) i")
  case None
  then show ?thesis using run effect_same [OF inv, of _ i] by (simp add: on_linger_def)
next
  case (Some c)
  define c1 where "c1 = c\<lparr>lingerCloseTimer := False\<rparr>"
  have c1: "relays c [] [] [] c1" "conn_ok (tcpMaxPending st) c1" "k_state c1 = k_state c" "key_of c1 = key_of c"
    using inv_ok [OF inv Some] by (simp_all add: c1_def relays_def conn_ok_def key_of_def)
  have on: "on_linger i st = (if \<not> lingerCloseTimer c then (st, [])
      else if map_get (tcpConnections (put_conn i c1 st)) (key_of c) = Some i then closeTCPConnection i (put_conn i c1 st)
      else (put_conn i c1 st, []))"
    unfolding on_linger_def Some Let_def option.case c1_def ..
  have cleared: "conn_step i c [] [] [] st (put_conn i c1 st)"
    using c1 unfolding conn_step_def by (intro exI [of _ c1]) (simp add: moved_def put_conn_def fun_eq_iff)
  have closed: "conn_step i c [] [] out st st'" if "closeTCPConnection i (put_conn i c1 st) = (st', out)"
  proof -
    have "map_get (conns (put_conn i c1 st)) i = Some c1" by (simp add: put_conn_def)
    from close_step [OF this c1(2) that] obtain c' where c': "moved i c1 c' (put_conn i c1 st) st'"
      "conn_ok (tcpMaxPending st) c'" "relays c1 [] [] out c'" "connectingCount st' = connectingCount st"
      by (simp add: put_conn_def) blast
    have "moved i c c' st st'" by (rule moved_pre [OF c'(1) c1(3,4)])
    moreover have "relays c [] [] out c'" using relays_trans [OF c1(1) c'(3)] by simp
    ultimately show ?thesis using c'(2,4) unfolding conn_step_def by blast
  qed
  have "conn_step i c [] [] out st st'"
  proof (cases "lingerCloseTimer c")
    case False
    then show ?thesis using run conn_step_refl [OF inv Some] unfolding on by simp
  next
    case True
    then show ?thesis
      using run cleared closed unfolding on
      by (cases "map_get (tcpConnections (put_conn i c1 st)) (key_of c) = Some i") simp_all
  qed
  then show ?thesis by (intro effect_conn [OF inv _ Some]) simp_all
qed

lemma syn_effect:
  assumes inv: "nat_inv st" and tgt: "target ev st = None" and free: "map_get (tcpConnections st) (packet_key p) = None"
    and run: "handle_syn now seq0 p t node pkt st = (st', out)"
  shows "effect ev st st' out"
proof (cases "connectingCount st \<ge> maxConnections st")
  case True
  then show ?thesis
    using run effect_core [OF inv, of st ev] tgt by (simp add: handle_syn_def core_eq_def)
next
  case False
  obtain c where c: "st' = st\<lparr>connectingCount := connectingCount st + 1, conns := map_put (nextConn st) c (conns st),
      tcpConnections := map_put (packet_key p) (nextConn st) (tcpConnections st), nextConn := nextConn st + 1\<rparr>"
    "conn_ok (tcpMaxPending st) c" "k_state c = CONNECTING" "key_of c = packet_key p"
    using run False by (auto simp: handle_syn_def Let_def conn_ok_def key_of_def packet_key_def)
  show ?thesis
    by (rule effect_new [OF inv tgt _ c(2,3)]) (use c free False in simp_all)
qed

lemma handleTCP_eq:
  "handleTCP now seq0 p node raw st =
     (let entry = map_get (tcpConnections st) (packet_key p) in
      if has_tcp_flag tcpFlagsRST p then (case entry of Some i \<Rightarrow> closeTCPConnection i st | None \<Rightarrow> (st, []))
      else if has_tcp_flag tcpFlagsSYN p \<and> \<not> has_tcp_flag tcpFlagsACK p then
        (if (case entry of
               Some i \<Rightarrow> (case map_get (conns st) i of Some c \<Rightarrow> k_state c \<noteq> CLOSED | None \<Rightarrow> False)
             | None \<Rightarrow> False)
         then (st, []) else handle_syn now seq0 p (the (tcp p)) node raw st)
      else case entry of
        None \<Rightarrow> (st, [Respond node \<lparr>sg_src = dstIp p, sg_dst = srcIp p, sg_sport = dstPort p, sg_dport = srcPort p,
                    sg_seq = 0, sg_ack = (case tcp p of Some t \<Rightarrow> int (tcpSeq t) | None \<Rightarrow> -1) + 1,
                    sg_flags = FLAG_RST + FLAG_ACK, sg_data = [], sg_opts = []\<rparr>])
      | Some i \<Rightarrow> with_conn i (handle_segment now (tcpMaxPending st) i p) st)"
  unfolding handleTCP_def Let_def has_tcp_flag_def packet_key_def ..

lemma tcp_effect:
  assumes inv: "nat_inv st" and pkt: "tcp_packet ev = Some (now, p)" and run: "handleTCP now seq0 p node raw st = (st', out)"
    and sb: "\<And>i. server_bytes i ev st = []"
  shows "effect ev st st' out"
proof -
  have tgt: "target ev st = map_get (tcpConnections st) (packet_key p)" by (simp add: target_def pkt)
  define rst where "rst = has_tcp_flag tcpFlagsRST p"
  define syn where "syn \<longleftrightarrow> has_tcp_flag tcpFlagsSYN p \<and> \<not> has_tcp_flag tcpFlagsACK p"
  have cb: "client_bytes i ev st = (if rst \<or> syn then [] else case map_get (conns st) i of
      Some c \<Rightarrow> accepted_data now (tcpMaxPending st) i p c | None \<Rightarrow> [])" if "target ev st = Some i" for i
    using that by (simp add: client_bytes_def pkt rst_def syn_def)
  have same: "effect ev st st []" if "rst \<or> syn"
  proof (cases "target ev st")
    case None
    then show ?thesis using effect_core [OF inv, of st ev] by (simp add: core_eq_def)
  next
    case (Some i)
    then obtain c where c: "map_get (conns st) i = Some c" using inv_table [OF inv] tgt by metis
    show ?thesis using effect_conn [OF inv Some c] conn_step_refl [OF inv c] that sb cb [OF Some] by simp
  qed
  show ?thesis
  proof (cases "target ev st")
    case None
    then have entry: "map_get (tcpConnections st) (packet_key p) = None" by (simp add: tgt)
    show ?thesis
    proof (cases "syn \<and> \<not> rst")
      case True
      then have "handle_syn now seq0 p (the (tcp p)) node raw st = (st', out)"
        using run entry by (simp add: handleTCP_eq Let_def rst_def syn_def)
      from syn_effect [OF inv None entry this] show ?thesis .
    next
      case False
      then have "st' = st" using run entry by (auto simp: handleTCP_eq Let_def rst_def syn_def split: if_splits)
      then show ?thesis using effect_core [OF inv, of st ev] None by (simp add: core_eq_def)
    qed
  next
    case (Some i)
    then have entry: "map_get (tcpConnections st) (packet_key p) = Some i" by (simp add: tgt)
    then obtain c where c: "map_get (conns st) i = Some c" "k_state c \<noteq> CLOSED" using inv_table [OF inv] by blast
    consider (rst) "rst" | (syn) "\<not> rst" "syn" | (seg) "\<not> rst" "\<not> syn" by blast
    then show ?thesis
    proof cases
      case rst
      then have cl: "closeTCPConnection i st = (st', out)"
        using run entry by (simp add: handleTCP_eq Let_def rst_def syn_def)
      have "conn_step i c [] [] out st st'"
        using close_step [OF c(1) inv_ok [OF inv c(1)] cl] unfolding conn_step_def by blast
      then show ?thesis using effect_conn [OF inv Some c(1)] rst sb cb [OF Some] by simp
    next
      case syn
      then have "st' = st" "out = []"
        using run entry c by (simp_all add: handleTCP_eq Let_def rst_def syn_def)
      then show ?thesis using same syn by simp
    next
      case seg
      have nosyn: "(has_tcp_flag tcpFlagsSYN p \<and> \<not> has_tcp_flag tcpFlagsACK p) = False" using seg by (simp add: syn_def)
      have wc: "with_conn i (handle_segment now (tcpMaxPending st) i p) st = (st', out)"
        using run entry seg(1) unfolding handleTCP_eq Let_def nosyn if_False by (simp add: rst_def)
      show ?thesis
        by (rule effect_with_conn [OF inv Some _ wc]) (simp add: sb cb [OF Some] seg handle_segment_advances)
    qed
  qed
qed

lemma icmp_core: "handleICMP p node st = Inr (st', out) \<Longrightarrow> core_eq st st'"
  by (auto simp: handleICMP_def ebind_Inr_iff core_eq_def Let_def split: if_splits option.splits)

lemma udp_core: "handleUDP now p node st = (st', out) \<Longrightarrow> core_eq st st'"
  by (auto simp: handleUDP_def core_eq_def Let_def split: option.splits)

lemma packet_effect:
  assumes inv: "nat_inv st" and run: "processPacket now seq0 pkt node st = Inr (st', out)"
  shows "effect (Mesh_packet now seq0 pkt node) st st' out"
proof (cases "tcp_packet (Mesh_packet now seq0 pkt node)")
  case None
  obtain parsed where parsed: "parseIPPacket pkt = Inr parsed" using run by (auto simp: processPacket_def ebind_Inr_iff)
  have refl: "core_eq st st" by (simp add: core_eq_def)
  have "core_eq st st'"
  proof (cases parsed)
    case (Valid p)
    then have "protocol p \<noteq> PROTO_TCP" using None parsed by (auto simp: tcp_packet_def split: if_splits)
    then consider "handleUDP now p node st = (st', out)" | "handleICMP p node st = Inr (st', out)" | "st' = st"
      using run parsed Valid unfolding processPacket_def by (simp split: if_splits)
    then show ?thesis using udp_core icmp_core refl by cases blast+
  qed (use run parsed refl in \<open>simp_all add: processPacket_def\<close>)
  then show ?thesis using None by (intro effect_core [OF inv]) (simp_all add: target_def)
next
  case (Some np)
  then obtain p where p: "np = (now, p)" "parseIPPacket pkt = Inr (Valid p)" "protocol p = PROTO_TCP"
    by (auto simp: tcp_packet_def split: sum.splits ip_parse.splits if_splits)
  have "handleTCP now seq0 p node pkt st = (st', out)"
    using run p by (simp add: processPacket_def)
  from tcp_effect [OF inv _ this] show ?thesis using Some p(1) by simp
qed

lemma nat_step_effect:
  assumes "nat_inv st" "nat_enabled ev st" "nat_next ev st = Inr (st', out)"
  shows "effect ev st st' out"
proof (cases ev)
  case (Mesh_packet now seq0 pkt node)
  then show ?thesis using assms packet_effect by simp
next
  case (Connected now sec i)
  then show ?thesis using assms connect_effect by (simp add: nat_enabled_def)
next
  case (Icmp_reply rnd src ident seq ttl payload)
  have "core_eq st st'"
    using assms(3) by (auto simp: Icmp_reply on_icmp_reply_def ebind_Inr_iff core_eq_def split: option.splits)
  then show ?thesis by (intro effect_core [OF assms(1)]) (simp_all add: Icmp_reply)
next
  case (Udp_message now key u msg)
  have "core_eq st st'" using assms(3) by (auto simp: Udp_message on_udp_message_def core_eq_def)
  then show ?thesis by (intro effect_core [OF assms(1)]) (simp_all add: Udp_message)
next
  case (Udp_error key)
  have "core_eq st st'" using assms(3) by (auto simp: Udp_error on_udp_error_def core_eq_def)
  then show ?thesis by (intro effect_core [OF assms(1)]) (simp_all add: Udp_error)
next
  case (Icmp_timeout ident seq)
  have "core_eq st st'" using assms(3) by (auto simp: Icmp_timeout on_icmp_timeout_def core_eq_def)
  then show ?thesis by (intro effect_core [OF assms(1)]) (simp_all add: Icmp_timeout)
qed (use assms data_effect end_effect error_effect timeout_effect close_effect linger_effect cleanup_effect stop_effect in simp_all)

section \<open>Reachable states and traces\<close>

inductive nat_reach :: "unat \<Rightarrow> bool" where
  start: "nat_reach (new_UserSpaceNAT mp timeout maxc)"
| config: "nat_reach st \<Longrightarrow> nat_reach (setLocalVirtualIp ip st)"
| helper: "nat_reach st \<Longrightarrow> nat_reach (st\<lparr>icmpHelper := b\<rparr>)"
| step: "nat_reach st \<Longrightarrow> nat_enabled ev st \<Longrightarrow> nat_next ev st = Inr (st', out) \<Longrightarrow> nat_reach st'"

lemma nat_reach_inv: "nat_reach st \<Longrightarrow> nat_inv st"
proof (induction rule: nat_reach.induct)
  case (start mp timeout maxc)
  show ?case by (rule nat_invI) (simp_all add: new_UserSpaceNAT_def connecting_def conn_state_def)
next
  case (config st ip)
  from config.IH show ?case by (rule inv_core_eq) (simp add: core_eq_def setLocalVirtualIp_def)
next
  case (helper st b)
  from helper.IH show ?case by (rule inv_core_eq) (simp add: core_eq_def)
next
  case (step st ev st' out)
  from nat_step_effect [OF step.IH step.hyps(2,3)] show ?case by (simp add: effect_def)
qed

text \<open>
  \<open>conn_trace i st d u out st'\<close>: a run from \<open>st\<close> to \<open>st'\<close> in which the server of connection \<open>i\<close>
  sent the bytes \<open>d\<close>, the client bytes \<open>u\<close> were accepted for it and \<open>out\<close> are its actions.
\<close>

inductive conn_trace :: "nat \<Rightarrow> unat \<Rightarrow> buffer \<Rightarrow> buffer \<Rightarrow> action list \<Rightarrow> unat \<Rightarrow> bool" for i st where
  start: "conn_trace i st [] [] [] st"
| step: "conn_trace i st d u out st1 \<Longrightarrow> nat_enabled ev st1 \<Longrightarrow> nat_next ev st1 = Inr (st2, out2) \<Longrightarrow>
    conn_trace i st (d @ server_bytes i ev st1) (u @ client_bytes i ev st1) (out @ conn_actions i ev st1 out2) st2"

lemma conn_trace_relays:
  assumes "conn_trace i st d u out st'" "nat_inv st" "map_get (conns st) i = Some c"
  shows "nat_inv st' \<and> (\<exists>c'. map_get (conns st') i = Some c' \<and> relays c d u out c')"
  using assms
proof (induction rule: conn_trace.induct)
  case start
  then show ?case by simp
next
  case (step d u out st1 ev st2 out2)
  then obtain c1 where inv: "nat_inv st1" and c1: "map_get (conns st1) i = Some c1" "relays c d u out c1" by auto
  have eff: "effect ev st1 st2 out2" by (rule nat_step_effect [OF inv step.hyps(2,3)])
  then obtain c2 where "map_get (conns st2) i = Some c2"
    "relays c1 (server_bytes i ev st1) (client_bytes i ev st1) (conn_actions i ev st1 out2) c2"
    using c1(1) unfolding effect_def by blast
  with c1(2) eff show ?case unfolding effect_def by (blast intro: relays_trans)
qed

text \<open>A SYN from 10.200.0.2:1000 to 1.2.3.4:80, and the state it leads to.\<close>

definition demo_segment :: "nat \<Rightarrow> buffer \<Rightarrow> buffer" where
  "demo_segment flags payload =
     [69, 0, 0, 40, 0, 1, 0, 0, 64, 6, 0, 0, 10, 200, 0, 2, 1, 2, 3, 4,
      3, 232, 0, 80, 0, 0, 0, 9, 0, 0, 0, 0, 80, of_nat flags, 255, 255, 0, 0, 0, 0] @ payload"

definition run_event :: "nat_event \<Rightarrow> unat \<Rightarrow> unat" where
  "run_event ev st = (case nat_next ev st of Inr (st', out) \<Rightarrow> st' | Inl e \<Rightarrow> st)"

definition demo_nat :: unat where
  "demo_nat = run_event (Mesh_packet 0 7 (demo_segment 2 []) [97]) (new_UserSpaceNAT None None None)"

definition demo_parsed :: "nat \<Rightarrow> buffer \<Rightarrow> parsed_ip" where
  "demo_parsed flags payload =
     \<lparr>headerLength = 20, totalLength = 40, ipId = 1, protocol = 6, srcIp = (10, 200, 0, 2), dstIp = (1, 2, 3, 4),
      srcPort = 1000, dstPort = 80, ip_data = payload,
      tcp = Some \<lparr>tcpSeq = 9, tcpAck = 0, tcpDataOffset = 20, tcpFlags = flags, tcpWindow = 65535\<rparr>,
      udpLength = None, icmp = None\<rparr>"

lemma demo_parse: "flags < 256 \<Longrightarrow> parseIPPacket (demo_segment flags payload) = Inr (Valid (demo_parsed flags payload))"
  by (simp add: demo_segment_def parseIPPacket_def parse_transport_def Let_def readUInt16BE_def readUInt32BE_def
     u16_at_def u32_at_def ip_at_def tail_from_def protocols demo_parsed_def subarray_def)

lemma demo_syn_options: "parseTcpSynOptions (demo_segment 2 []) = no_opts"
  by (simp add: demo_segment_def parseTcpSynOptions_def Let_def protocols tcp_options.simps)

definition demo_conn :: conn where
  "demo_conn = \<lparr>k_srcNodeId = [97], k_srcIp = (10, 200, 0, 2), k_srcPort = 1000, k_dstIp = (1, 2, 3, 4), k_dstPort = 80,
     k_state = CONNECTING, clientSeq = 9, clientAck = 0, serverSeq = 7, k_socket = True, pendingData = [], lastActivity = 0,
     pendingResponses = 0, synNegotiation = no_opts, peerWindowScaleShift = 0, peerRecvWindow = Some 65535,
     lastPeerAck = None, serverSocketPaused = False, serverReadBacklog = [], eofFromServer = False, finSent = False,
     clientFinSeq = None, socketEndedToServer = False, lingerCloseTimer = False\<rparr>"

lemmas demo_flags = tcpFlagsSYN_def tcpFlagsACK_def tcpFlagsFIN_def tcpFlagsRST_def has_flag_def tcp_flag_values

lemma demo_nat_eq: "demo_nat = (new_UserSpaceNAT None None None)\<lparr>connectingCount := 1, conns := [(0, demo_conn)],
    tcpConnections := [(packet_key (demo_parsed 2 []), 0)], nextConn := 1\<rparr>"
  by (simp add: demo_nat_def run_event_def processPacket_def demo_parse demo_parsed_def protocols handleTCP_def
     demo_flags Let_def handle_syn_def new_UserSpaceNAT_def demo_syn_options demo_conn_def packet_key_def no_opts_def)

lemma run_event_reach: "nat_reach st \<Longrightarrow> nat_enabled ev st \<Longrightarrow> nat_reach (run_event ev st)"
  by (auto simp: run_event_def split: sum.splits intro: nat_reach.step)

lemma demo_nat_reach: "nat_reach demo_nat"
  unfolding demo_nat_def by (rule run_event_reach [OF nat_reach.start]) (simp add: nat_enabled_def)

text \<open>
  A run of the demonstration connection: the client sends two bytes while the connection is being
  set up, the server answers, sends three bytes and closes.
\<close>

definition demo_events :: "nat_event list" where
  "demo_events = [Mesh_packet 1 0 (demo_segment 16 [65, 66]) [97], Connected 2 0 0, Server_data 3 0 [1, 2, 3], Server_end 0]"

fun run_trace :: "nat \<Rightarrow> nat_event list \<Rightarrow> unat \<Rightarrow> (unat \<times> buffer \<times> buffer \<times> action list) option" where
  "run_trace i [] st = Some (st, [], [], [])"
| "run_trace i (ev # evs) st =
     (if \<not> nat_enabled ev st then None
      else case nat_next ev st of
        Inl e \<Rightarrow> None
      | Inr (st1, out1) \<Rightarrow>
          (case run_trace i evs st1 of
             None \<Rightarrow> None
           | Some (st2, d, u, out) \<Rightarrow>
               Some (st2, server_bytes i ev st @ d, client_bytes i ev st @ u, conn_actions i ev st out1 @ out)))"

lemmas demo_eval = demo_events_def demo_nat_eq processPacket_def demo_parse nat_enabled_def demo_parsed_def
  protocols handleTCP_def demo_flags Let_def packet_key_def with_conn_def handle_segment_def
  updatePeerWindowAndAck_def live_state_def demo_conn_def handle_data_def syncServerSocketPause_def
  put_conn_def conn_state_def on_connect_def on_data_def flush_and_sync_def flushServerReadBacklog_def
  flush_loop.simps maxPendingForConn_def scaledPeerRecvWindow_def recv_window_def maybeSendServerFin_def
  new_UserSpaceNAT_def server_bytes_def client_bytes_def tcp_packet_def target_def has_tcp_flag_def
  accepted_data_def open_state_def conn_actions_def on_end_def

lemma run_trace_from:
  "run_trace i evs st1 = Some (st2, d2, u2, o2) \<Longrightarrow> conn_trace i st d u out st1 \<Longrightarrow>
    conn_trace i st (d @ d2) (u @ u2) (out @ o2) st2"
proof (induction evs arbitrary: st1 d u out d2 u2 o2)
  case (Cons ev evs)
  then obtain st3 o3 d4 u4 o4 where r: "nat_enabled ev st1" "nat_next ev st1 = Inr (st3, o3)"
    "run_trace i evs st3 = Some (st2, d4, u4, o4)" "d2 = server_bytes i ev st1 @ d4" "u2 = client_bytes i ev st1 @ u4"
    "o2 = conn_actions i ev st1 o3 @ o4"
    by (auto split: if_splits sum.splits option.splits)
  from Cons.IH [OF r(3) conn_trace.step [OF Cons.prems(2) r(1,2)]] show ?case by (simp add: r)
qed simp

lemmas run_trace_conn_trace = run_trace_from [OF _ conn_trace.start, simplified]

section \<open>Properties\<close>

text \<open>
  (C9) Invariant of the exit's connection table: in every reachable state the table holds exactly the
  connections that are not closed, each under its own key (so a key never refers to a dead or a
  foreign connection and two open connections never share a key); a connection has a socket exactly
  while it is not closed and never more than \<open>tcpMaxPending\<close> segments in flight; and the number of
  connections being set up never exceeds the counter of attempts, which never exceeds the limit.
\<close>

theorem nat_table_invariant:
  assumes "nat_reach st"
  shows "(\<forall>key i. map_get (tcpConnections st) key = Some i \<longleftrightarrow>
            (\<exists>c. map_get (conns st) i = Some c \<and> k_state c \<noteq> CLOSED \<and> key_of c = key))
    \<and> (\<forall>i c. map_get (conns st) i = Some c \<longrightarrow>
          (k_socket c \<longleftrightarrow> k_state c \<noteq> CLOSED) \<and> (k_state c = FIN_WAIT \<longrightarrow> finSent c) \<and> pendingResponses c \<le> tcpMaxPending st)
    \<and> int (card {i. \<exists>c. map_get (conns st) i = Some c \<and> k_state c = CONNECTING}) \<le> connectingCount st
    \<and> connectingCount st \<le> max 0 (maxConnections st)"
proof -
  have inv: "nat_inv st" by (rule nat_reach_inv [OF assms])
  have "connecting st = {i. \<exists>c. map_get (conns st) i = Some c \<and> k_state c = CONNECTING}"
    by (auto simp: connecting_def conn_state_def)
  then show ?thesis
    using inv_table [OF inv] inv_ok [OF inv] inv_count [OF inv] by (auto simp: conn_ok_def)
qed

theorem nat_table_invariant_witness:
  "nat_reach demo_nat \<and> connectingCount demo_nat \<le> max 0 (maxConnections demo_nat)"
  using nat_table_invariant [OF demo_nat_reach] demo_nat_reach by blast

text \<open>
  (C8) Server to client: for every connection of a reachable state and every further run, whatever
  the interleaving of packets, socket callbacks, timers and other connections, the bytes sent to the
  client followed by the backlog are exactly the old backlog followed by the bytes the server sent:
  nothing is lost, duplicated or reordered. The sequence numbers of all segments of the connection
  are contiguous, at most one FIN is sent over its lifetime, and its state never moves backwards.
\<close>

theorem server_stream_relayed:
  assumes "nat_reach st" "map_get (conns st) i = Some c" "conn_trace i st d u out st'"
  shows "\<exists>c'. map_get (conns st') i = Some c'
    \<and> downstream out @ serverReadBacklog c' = serverReadBacklog c @ d
    \<and> in_sequence (serverSeq c) (responses out) (serverSeq c')
    \<and> fin_count out + of_bool (finSent c) \<le> 1
    \<and> rank (k_state c) \<le> rank (k_state c')"
proof -
  obtain c' where c': "map_get (conns st') i = Some c'" "relays c d u out c'"
    using conn_trace_relays [OF assms(3) nat_reach_inv [OF assms(1)] assms(2)] by blast
  then show ?thesis by (intro exI [of _ c']) (simp add: relays_def)
qed

theorem server_stream_relayed_witness:
  "\<exists>st' d u out c c'. run_trace 0 demo_events demo_nat = Some (st', d, u, out) \<and> map_get (conns demo_nat) 0 = Some c
     \<and> map_get (conns st') 0 = Some c' \<and> downstream out @ serverReadBacklog c' = serverReadBacklog c @ d \<and> d = [1, 2, 3]"
proof -
  have some: "map_option (\<lambda>(st', d, u, out). d) (run_trace 0 demo_events demo_nat) = Some [1, 2, 3]"
    by (simp add: demo_eval)
  then obtain st' d u out where run: "run_trace 0 demo_events demo_nat = Some (st', d, u, out)" and d: "d = [1, 2, 3]"
    by auto
  obtain c where c: "map_get (conns demo_nat) 0 = Some c" by (simp add: demo_nat_eq)
  from server_stream_relayed [OF demo_nat_reach c run_trace_conn_trace [OF run]] run c d show ?thesis by blast
qed



lemma maybeSendServerFin_post:
  "maybeSendServerFin c = (c', out) \<Longrightarrow> live_state c \<Longrightarrow>
    live_state c' \<and> k_socket c' = k_socket c \<and> peerRecvWindow c' = peerRecvWindow c
    \<and> peerWindowScaleShift c' = peerWindowScaleShift c \<and> serverSocketPaused c' = serverSocketPaused c
    \<and> serverReadBacklog c' = serverReadBacklog c \<and> pendingResponses c' = pendingResponses c
    \<and> (\<forall>s \<in> set (responses out). sg_data s = [])"
  by (auto simp: maybeSendServerFin_def live_state_def respond_def Let_def split: if_splits)

lemma flush_post:
  assumes run: "flushServerReadBacklog mp c = (c', out)" and live: "live_state c"
  shows "live_state c' \<and> k_socket c' = k_socket c \<and> peerRecvWindow c' = peerRecvWindow c
    \<and> peerWindowScaleShift c' = peerWindowScaleShift c \<and> serverSocketPaused c' = serverSocketPaused c
    \<and> (serverReadBacklog c' = [] \<or> maxPendingForConn mp c \<le> pendingResponses c')
    \<and> pendingResponses c' \<le> max (pendingResponses c) (maxPendingForConn mp c)
    \<and> (\<forall>s \<in> set (responses out). length (sg_data s) \<le> 1360)"
proof (cases "serverReadBacklog c = []")
  case True
  then show ?thesis
    using run live maybeSendServerFin_post [of c c' out] by (auto simp: flushServerReadBacklog_def)
next
  case False
  obtain c1 rest new where fl: "flush_loop (maxPendingForConn mp c) c (serverReadBacklog c) [] = (c1, rest, new)"
    by (metis prod_cases3)
  obtain fin where fin: "maybeSendServerFin (c1\<lparr>serverReadBacklog := rest\<rparr>) = (c', fin)" "out = new @ fin"
    using run False live fl by (auto simp: flushServerReadBacklog_def split: prod.splits)
  obtain s where c1: "c1 = c\<lparr>serverSeq := s, pendingResponses := pendingResponses c + length new\<rparr>"
    and segs: "\<forall>s \<in> set (responses new). length (sg_data s) \<le> 1360"
    and pend: "pendingResponses c1 \<le> max (pendingResponses c) (maxPendingForConn mp c)"
      "rest = [] \<or> maxPendingForConn mp c \<le> pendingResponses c1"
    using flush_loop_spec [OF fl] unfolding append_Nil by blast
  have live1: "live_state (c1\<lparr>serverReadBacklog := rest\<rparr>)" using live by (simp add: c1 live_state_def)
  note mp = maybeSendServerFin_post [OF fin(1) live1]
  have "\<forall>s \<in> set (responses out). length (sg_data s) \<le> 1360" using mp segs by (auto simp: fin(2))
  with mp pend show ?thesis by (simp add: c1)
qed

lemma sync_paused:
  assumes "syncServerSocketPause mp i c = (c', out)" "k_socket c" "live_state c"
    and "maxPendingForConn mp c \<le> pendingResponses c" "serverReadBacklog c \<noteq> []"
  shows "serverSocketPaused c'"
proof (cases "serverSocketPaused c")
  case True
  then have "syncServerSocketPause mp i c = (c, [])"
    using assms(2-) by (simp add: syncServerSocketPause_def Let_def)
  then show ?thesis using assms(1) True by simp
next
  case False
  then have "syncServerSocketPause mp i c = (c\<lparr>serverSocketPaused := True\<rparr>, [Sock_pause i])"
    using assms(2-) by (cases "maxPendingForConn mp c") (simp_all add: syncServerSocketPause_def Let_def)
  then show ?thesis using assms(1) by auto
qed

lemma window_limit: "recv_window c > 0 \<Longrightarrow> 0 < mp \<Longrightarrow> 0 < maxPendingForConn mp c"
  by (simp add: maxPendingForConn_def scaledPeerRecvWindow_def Let_def)

lemma sync_resumed:
  assumes "syncServerSocketPause mp i c = (c', out)" "k_socket c" "live_state c"
    and "pendingResponses c = 0" "recv_window c > 0" "0 < mp"
  shows "\<not> serverSocketPaused c'"
proof -
  have m: "0 < maxPendingForConn mp c" by (rule window_limit [OF assms(5,6)])
  then have r: "0 < resumePendingTarget mp c" by (simp add: resumePendingTarget_def Let_def)
  have "syncServerSocketPause mp i c =
      (if serverSocketPaused c then (c\<lparr>serverSocketPaused := False\<rparr>, [Sock_resume i]) else (c, []))"
    using assms(2-5) m r by (simp add: syncServerSocketPause_def Let_def)
  then show ?thesis using assms(1) by (cases "serverSocketPaused c") auto
qed

lemma maxPending_cong:
  "peerRecvWindow c' = peerRecvWindow c \<Longrightarrow> peerWindowScaleShift c' = peerWindowScaleShift c \<Longrightarrow>
    maxPendingForConn mp c' = maxPendingForConn mp c \<and> recv_window c' = recv_window c"
  by (simp add: maxPendingForConn_def scaledPeerRecvWindow_def recv_window_def)



section \<open>Where the counter and the streams go wrong\<close>

text \<open>
  A connection attempt that the client resets is closed without lowering the counter of attempts:
  its socket is destroyed and never reports \<open>connect\<close>. With a limit of one, a single SYN followed by
  a RST makes the exit drop every later SYN although its table is empty.
\<close>

lemma connecting_count_leak:
  "let st1 = run_event (Mesh_packet 0 7 (demo_segment 2 []) [97]) (new_UserSpaceNAT None None (Some 1));
       st2 = run_event (Mesh_packet 1 7 (demo_segment 4 []) [97]) st1 in
   tcpConnections st2 = [] \<and> connectingCount st2 = 1 \<and>
   nat_next (Mesh_packet 2 7 (demo_segment 2 []) [97]) st2 = Inr (st2, [])"
  by (simp add: run_event_def processPacket_def demo_parse demo_parsed_def protocols handleTCP_def demo_flags Let_def
      handle_syn_def new_UserSpaceNAT_def demo_syn_options no_opts_def closeTCPConnection_def put_conn_def key_of_def)

text \<open>
  A retransmitted segment is written to the server again: the sequence number of the payload is not
  compared with what was already accepted.
\<close>

lemma retransmission_written_twice:
  "map_option (\<lambda>(st', d, u, out). u)
     (run_trace 0 [Mesh_packet 1 0 (demo_segment 16 [65, 66]) [97], Mesh_packet 2 0 (demo_segment 16 [65, 66]) [97]] demo_nat)
   = Some [65, 66, 65, 66]"
  by (simp add: demo_eval)

text \<open>
  The payload of a segment that carries a FIN is dropped, and the acknowledgement is for one past the
  first sequence number of the segment.
\<close>

lemma fin_payload_lost:
  "case processPacket 1 0 (demo_segment 17 [65, 66]) [97] (demo_nat\<lparr>conns := [(0, demo_conn\<lparr>k_state := ESTABLISHED\<rparr>)]\<rparr>) of
     Inr (st', out) \<Rightarrow> upstream out = [] \<and> Sock_end 0 \<in> set out | Inl _ \<Rightarrow> False"
  by (simp add: demo_eval handle_fin_def take_ack_def resumePendingTarget_def respond_def)

end
