(* ===== verification/NAT_Icmp.thy ===== *)
theory NAT_Icmp
  imports UserSpace_NAT
begin

text \<open>
  Echo requests at the exit node: the reply packets of \<open>_buildICMPEchoReply\<close> and
  \<open>_buildICMPReplyFromExternal\<close> verify and parse back, and replies of the ICMP helper reach the
  client that asked, as long as no other client uses the same identifier and sequence number.
\<close>

section \<open>Checksums of the reply\<close>

lemma checksum_fold_small: "0 \<le> s \<Longrightarrow> s < 65536 \<Longrightarrow> checksum_fold s = s"
  by (subst checksum_fold.simps) (simp add: shr16_def to_int32_id)

lemma checksum_verifies_any:
  assumes "word_sum bs < 2147418112" "word_sum bs' = word_sum bs + int c" "c = calculateIPChecksum bs"
  shows "calculateIPChecksum bs' = 0"
proof (cases "word_sum bs = 0")
  case True
  then have "c = 65535" using assms(3) by (simp add: calculateIPChecksum_def checksum_fold_small and16_def to_int32_id)
  then show ?thesis
    using True assms(2) by (simp add: calculateIPChecksum_def checksum_fold_small and16_def to_int32_id)
next
  case False
  then show ?thesis using checksum_verifies [OF _ assms] word_sum_nonneg [of bs] by simp
qed

lemma icmp_body_verifies:
  assumes "length idseq = 4" "length payload < 65508"
  shows "calculateIPChecksum (icmp_reply_body idseq payload) = 0"
proof -
  define rest where "rest = idseq @ payload"
  have sum: "word_sum ([0, 0] @ u16_bytes k @ rest) = int k + word_sum rest" if "k < 65536" for k
    using that word_sum_append [of "[0, 0]" "u16_bytes k @ rest"] word_sum_append [of "u16_bytes k" rest]
    by (simp add: word_sum_u16)
  have half: "(length rest + 1) div 2 \<le> 32756" using assms by (simp add: rest_def)
  have "word_sum ([0, 0] @ u16_bytes 0 @ rest) < 2147418112"
    using word_sum_le [of rest] half sum [of 0] by linarith
  moreover have "word_sum ([0, 0] @ u16_bytes (calculateIPChecksum ([0, 0] @ u16_bytes 0 @ rest)) @ rest) =
      word_sum ([0, 0] @ u16_bytes 0 @ rest) + int (calculateIPChecksum ([0, 0] @ u16_bytes 0 @ rest))"
    using sum [of 0] sum [OF calculateIPChecksum_lt [of "[0, 0] @ u16_bytes 0 @ rest"]] by linarith
  ultimately show ?thesis
    unfolding icmp_reply_body_def Let_def rest_def [symmetric] by (rule checksum_verifies_any [OF _ _ refl])
qed

lemma length_icmp_ip_header [simp]: "length (icmp_ip_header t i ttl c s d) = 20"
  by (simp add: icmp_ip_header_def)

lemma icmp_header_verifies:
  assumes "t < 65536" "i < 65536"
  shows "calculateIPChecksum (icmp_ip_header t i ttl (calculateIPChecksum (icmp_ip_header t i ttl 0 s d)) s d) = 0"
proof -
  define pre where "pre = [69, 0] @ u16_bytes t @ u16_bytes i @ u16_bytes 0 @ [of_nat ttl, 1 :: byte]"
  define post where "post = ip_bytes s @ ip_bytes d"
  have eq: "word_sum (icmp_ip_header t i ttl k s d) = word_sum pre + (int k + word_sum post)" if "k < 65536" for k
    using that word_sum_append [of pre "u16_bytes k @ post"] word_sum_append [of "u16_bytes k" post]
    by (simp add: icmp_ip_header_def pre_def post_def word_sum_u16)
  have "word_sum (icmp_ip_header t i ttl 0 s d) < 2147418112"
    using word_sum_le [of "icmp_ip_header t i ttl 0 s d"] by simp
  moreover have "word_sum (icmp_ip_header t i ttl (calculateIPChecksum (icmp_ip_header t i ttl 0 s d)) s d) =
      word_sum (icmp_ip_header t i ttl 0 s d) + int (calculateIPChecksum (icmp_ip_header t i ttl 0 s d))"
    using eq [of 0] eq [OF calculateIPChecksum_lt] by simp
  ultimately show ?thesis by (rule checksum_verifies_any [OF _ _ refl])
qed

section \<open>Parsing the reply\<close>

lemma parse_icmp_reply:
  assumes "t < 65536" "i < 65536" "length idseq = 4"
  shows "parseIPPacket (icmp_ip_header t i ttl c src dst @ icmp_reply_body idseq payload) =
    Inr (Valid \<lparr>headerLength = 20, totalLength = t, ipId = i, protocol = PROTO_ICMP, srcIp = src, dstIp = dst,
       srcPort = 0, dstPort = 0, ip_data = payload, tcp = None, udpLength = None,
       icmp = Some \<lparr>icmpType = 0, icmpCode = 0, icmpData = idseq @ payload\<rparr>\<rparr>)"
proof -
  define body where "body = icmp_reply_body idseq payload"
  define b where "b = icmp_ip_header t i ttl c src dst @ body"
  obtain cs where body: "body = [0, 0] @ u16_bytes cs @ idseq @ payload"
    by (simp add: body_def icmp_reply_body_def Let_def)
  obtain s0 s1 s2 s3 d0 d1 d2 d3 where ips: "src = (s0, s1, s2, s3)" "dst = (d0, d1, d2, d3)"
    by (metis prod_cases4)
  have at: "b ! 0 = 69" "b ! 9 = 1" "ip_at b 12 = src" "ip_at b 16 = dst" "b ! 20 = 0" "b ! 21 = 0"
    by (simp_all add: b_def icmp_ip_header_def u16_bytes_def ips ip_at_def body)
  have rd: "u16_at b 2 = t" "u16_at b 4 = i"
    using assms u16_at_append [of 2 "[69, 0]" t] u16_at_append [of 4 "[69, 0] @ u16_bytes t" i]
    by (simp_all add: b_def icmp_ip_header_def)
  have len: "length b = 28 + length payload" using assms(3) by (simp add: b_def body)
  have data: "drop 24 b = idseq @ payload" "drop 28 b = payload"
    using assms(3) by (simp_all add: b_def body)
  show ?thesis
    unfolding body_def [symmetric] b_def [symmetric] using len data
    by (simp add: parseIPPacket_def parse_transport_def readUInt16BE_def at rd protocols subarray_def Let_def)
qed

text \<open>The reply packet around a body: its header fields and both checksums.\<close>

definition good_reply :: "buffer \<Rightarrow> ipv4 \<Rightarrow> ipv4 \<Rightarrow> buffer \<Rightarrow> buffer \<Rightarrow> bool" where
  "good_reply pkt src dst idseq payload \<longleftrightarrow>
     calculateIPChecksum (take 20 pkt) = 0 \<and> calculateIPChecksum (drop 20 pkt) = 0
     \<and> (\<exists>q. parseIPPacket pkt = Inr (Valid q) \<and> protocol q = PROTO_ICMP \<and> srcIp q = src \<and> dstIp q = dst
          \<and> totalLength q = length pkt \<and> icmp q = Some \<lparr>icmpType = 0, icmpCode = 0, icmpData = idseq @ payload\<rparr>)"

lemma icmp_wrap_good:
  assumes "length idseq = 4" "length payload < 65508" "i < 65536" "ttl < 256"
  shows "\<exists>pkt. icmp_wrap i ttl src dst (icmp_reply_body idseq payload) = Inr pkt \<and> good_reply pkt src dst idseq payload"
proof -
  define body where "body = icmp_reply_body idseq payload"
  have len: "length body = 8 + length payload" using assms(1) by (simp add: body_def icmp_reply_body_def Let_def)
  define t where "t = 28 + length payload"
  define h where "h = icmp_ip_header t i ttl (calculateIPChecksum (icmp_ip_header t i ttl 0 src dst)) src dst"
  have t: "t < 65536" using assms(2) by (simp add: t_def)
  have "icmp_wrap i ttl src dst body = Inr (h @ body)"
    using assms t by (simp add: icmp_wrap_def Let_def len t_def h_def)
  moreover have "good_reply (h @ body) src dst idseq payload"
    using icmp_header_verifies [OF t assms(3), of ttl src dst] icmp_body_verifies [OF assms(1,2)]
      parse_icmp_reply [OF t assms(3,1), of ttl _ src dst payload]
    by (simp add: good_reply_def h_def body_def [symmetric] len t_def)
  ultimately show ?thesis by (auto simp: body_def)
qed

section \<open>Properties\<close>

text \<open>
  (C36) Ping to the exit's own address: for every echo request that was parsed with at least
  identifier and sequence number, the exit answers the requesting node with a packet that goes back
  to the sender from the pinged address, is an echo reply with the same identifier, sequence number
  and payload, and whose IP and ICMP checksums both verify; the state does not change.
\<close>

theorem echo_reply_correct:
  assumes "icmp p = Some ic" "icmpType ic = 8" "localVirtualIp st = Some (dstIp p)"
    and "4 \<le> length (icmpData ic)" "length (icmpData ic) < 65512" "ipId p < 65536"
  shows "\<exists>pkt. handleICMP p node st = Inr (st, [Respond_raw node pkt])
    \<and> good_reply pkt (dstIp p) (srcIp p) (take 4 (icmpData ic)) (drop 4 (icmpData ic))"
proof -
  obtain pkt where "icmp_wrap (ipId p) 64 (dstIp p) (srcIp p) (icmp_reply_body (take 4 (icmpData ic)) (drop 4 (icmpData ic)))
      = Inr pkt" "good_reply pkt (dstIp p) (srcIp p) (take 4 (icmpData ic)) (drop 4 (icmpData ic))"
    using icmp_wrap_good [of "take 4 (icmpData ic)" "drop 4 (icmpData ic)" "ipId p" 64] assms by fastforce
  then show ?thesis
    using assms by (cases "length (icmpData ic) = 4") (auto simp: handleICMP_def buildICMPEchoReply_def Let_def)
qed

definition demo_ping :: "buffer \<Rightarrow> parsed_ip" where
  "demo_ping payload = \<lparr>headerLength = 20, totalLength = 28, ipId = 7, protocol = 1, srcIp = (10, 200, 0, 2),
     dstIp = (10, 200, 0, 1), srcPort = 0, dstPort = 0, ip_data = payload, tcp = None, udpLength = None,
     icmp = Some \<lparr>icmpType = 8, icmpCode = 0, icmpData = [0, 1, 0, 2] @ payload\<rparr>\<rparr>"

theorem echo_reply_correct_witness:
  "\<exists>pkt. handleICMP (demo_ping [5]) [97] (setLocalVirtualIp (10, 200, 0, 1) (new_UserSpaceNAT None None None))
      = Inr (setLocalVirtualIp (10, 200, 0, 1) (new_UserSpaceNAT None None None), [Respond_raw [97] pkt])
    \<and> good_reply pkt (10, 200, 0, 1) (10, 200, 0, 2) [0, 1, 0, 2] [5]"
  using echo_reply_correct [of "demo_ping [5]" "\<lparr>icmpType = 8, icmpCode = 0, icmpData = [0, 1, 0, 2, 5]\<rparr>"
      "setLocalVirtualIp (10, 200, 0, 1) (new_UserSpaceNAT None None None)" "[97]"]
  by (simp add: demo_ping_def setLocalVirtualIp_def)

text \<open>
  Ping to an external address: a forwarded request is recorded under identifier and sequence
  number, and when the helper reports the reply before another request with the same pair arrives,
  the node that asked gets an echo reply addressed to its client, from the address that replied,
  with the reported payload and valid checksums, and the record is removed; a second report for the pair is ignored.
\<close>

theorem external_ping_relayed:
  assumes req: "icmp p = Some ic" "icmpType ic = 8" "localVirtualIp st \<noteq> Some (dstIp p)" "icmpHelper st"
    "icmpData ic = u16_bytes ident @ u16_bytes seq @ payload" "ident < 65536" "seq < 65536"
    and run: "handleICMP p node st = Inr (st1, out1)"
    and rep: "ttl < 256" "rnd < 65536" "length reply < 65508"
  shows "out1 = [Icmp_req (dstIp p) ident seq payload]
    \<and> (\<exists>st2 pkt. on_icmp_reply rnd ext ident seq ttl reply st1 = Inr (st2, [Respond_raw node pkt])
        \<and> good_reply pkt ext (srcIp p) (u16_bytes ident @ u16_bytes seq) reply
        \<and> on_icmp_reply rnd ext ident seq ttl reply st2 = Inr (st2, []))"
proof -
  have rd: "u16_at (icmpData ic) 0 = ident" "u16_at (icmpData ic) 2 = seq"
    using req u16_at_append [of 0 "[]" ident] u16_at_append [of 2 "u16_bytes ident" seq] by simp_all
  have st1: "st1 = st\<lparr>icmpPending := map_put (icmp_key ident seq) (srcIp p, node) (icmpPending st)\<rparr>"
    and out: "out1 = [Icmp_req (dstIp p) ident seq payload]"
    using run req rd by (simp_all add: handleICMP_def Let_def)
  obtain pkt where pkt: "icmp_wrap rnd ttl ext (srcIp p) (icmp_reply_body (u16_bytes ident @ u16_bytes seq) reply) = Inr pkt"
    "good_reply pkt ext (srcIp p) (u16_bytes ident @ u16_bytes seq) reply"
    using icmp_wrap_good [of "u16_bytes ident @ u16_bytes seq" reply rnd ttl ext "srcIp p"] rep by auto
  show ?thesis
    using out pkt req by (auto simp: st1 on_icmp_reply_def buildICMPReplyFromExternal_def)
qed

theorem external_ping_relayed_witness:
  "\<exists>st1 st2 pkt. handleICMP (demo_ping [5]) [97] ((new_UserSpaceNAT None None None)\<lparr>icmpHelper := True\<rparr>) =
       Inr (st1, [Icmp_req (10, 200, 0, 1) 1 2 [5]])
     \<and> on_icmp_reply 3 (10, 200, 0, 1) 1 2 60 [5] st1 = Inr (st2, [Respond_raw [97] pkt])
     \<and> good_reply pkt (10, 200, 0, 1) (10, 200, 0, 2) (u16_bytes 1 @ u16_bytes 2) [5]"
proof -
  define st where "st = (new_UserSpaceNAT None None None)\<lparr>icmpHelper := True\<rparr>"
  have ic: "icmp (demo_ping [5]) = Some \<lparr>icmpType = 8, icmpCode = 0, icmpData = u16_bytes 1 @ u16_bytes 2 @ [5]\<rparr>"
    by (simp add: demo_ping_def u16_bytes_def)
  obtain st1 out1 where run: "handleICMP (demo_ping [5]) [97] st = Inr (st1, out1)"
    by (simp add: handleICMP_def ic st_def new_UserSpaceNAT_def demo_ping_def Let_def)
  from external_ping_relayed [OF ic _ _ _ _ _ _ run, of 1 2 "[5]" 60 3 "[5]" "(10, 200, 0, 1)"] run
  show ?thesis by (fastforce simp: st_def new_UserSpaceNAT_def demo_ping_def)
qed

text \<open>
  The pending table is keyed by identifier and sequence number only: when two clients ping with the
  same pair, the second request replaces the first and the reply to the first goes to the second.
\<close>

lemma icmp_pending_collision:
  "(case handleICMP (demo_ping [5]) [97] ((new_UserSpaceNAT None None None)\<lparr>icmpHelper := True\<rparr>) of
      Inr (st1, _) \<Rightarrow> (case handleICMP ((demo_ping [5])\<lparr>srcIp := (10, 200, 0, 9)\<rparr>) [98] st1 of
        Inr (st2, _) \<Rightarrow> map snd (icmpPending st2) = [((10, 200, 0, 9), [98])] | _ \<Rightarrow> False) | _ \<Rightarrow> False)"
  by (simp add: demo_ping_def handleICMP_def new_UserSpaceNAT_def Let_def u16_at_def)

end
