(* ===== verification/Signalling.thy ===== *)
theory Signalling
  imports Mesh_Prelude
begin

text \<open>
  The signalling service: \<open>server/signalling-server.js\<close> (registration, virtual addresses, relayed
  signals, peer and topology broadcasts) and its client \<open>src/control/signalling.js\<close>. Messages are
  the objects behind \<open>JSON.stringify\<close> and \<open>JSON.parse\<close>; a text that does not parse is the message
  \<open>Malformed\<close>. WebSockets are numbered; the server state keeps for each its remote address, whether
  it is open, and the \<open>nodeId\<close> variable of its connection handler. \<open>lookup\<close> stands for
  \<open>geoip.lookup\<close>. Inherited properties of the \<open>pinnedIps\<close> object and logging are left out.
\<close>

section \<open>Messages\<close>

record reg_msg =
  r_nodeId :: "jsstring option"
  r_publicKey :: "jsstring option"
  r_name :: "jsstring option"
  r_role :: "jsstring option"
  r_nat :: bool
  r_relay :: bool
  r_token :: "jsstring option"

datatype client_msg =
    Register reg_msg
  | Signal_to jsstring jsstring
  | Get_peers
  | Get_exit_nodes
  | Topology_update "jsstring list"
  | Ping
  | Unknown
  | Malformed

record peer =
  p_nodeId :: jsstring
  p_name :: "jsstring option"
  p_publicKey :: jsstring
  p_role :: "jsstring option"
  p_virtualIp :: jsstring
  p_externalIp :: "jsstring option"
  p_geo :: "jsstring option"

record topo_node =
  tn_name :: "jsstring option"
  tn_role :: jsstring
  tn_virtualIp :: jsstring
  tn_externalIp :: "jsstring option"
  tn_geo :: "jsstring option"
  tn_connectedTo :: "jsstring list"

datatype server_msg =
    Registered jsstring jsstring
  | Server_error string
  | Signal_from jsstring jsstring
  | Signal_error jsstring
  | Peers "peer list"
  | Exit_nodes "peer list"
  | Peer_join peer
  | Peer_leave jsstring
  | Topology "(jsstring \<times> topo_node) list"
  | Pong int

datatype server_action = Send nat server_msg | Terminate nat | Close_socket nat

section \<open>The server\<close>

record sock =
  remoteAddress :: jsstring
  isOpen :: bool
  sockNode :: "jsstring option"

record snode =
  s_ws :: nat
  s_nodeId :: jsstring
  s_name :: "jsstring option"
  s_publicKey :: jsstring
  s_role :: jsstring
  s_virtualIp :: jsstring
  s_externalIp :: "jsstring option"
  s_geo :: "jsstring option"
  connectedPeers :: "jsstring list"
  registeredAt :: int

record sserver =
  nodes_of :: "(jsstring, snode) jsmap"
  virtualIpCounter :: nat
  pinnedIps :: "(jsstring, jsstring) jsmap"
  registrationToken :: "jsstring option"
  socks :: "(nat, sock) jsmap"

text \<open>\<open>x || null\<close> on an optional string.\<close>

definition truthy :: "jsstring option \<Rightarrow> jsstring option" where
  "truthy s = (case s of Some t \<Rightarrow> or_null t | None \<Rightarrow> None)"

definition new_SignallingServer :: "(jsstring, jsstring) jsmap \<Rightarrow> jsstring option \<Rightarrow> jsstring option \<Rightarrow> sserver" where
  "new_SignallingServer pinned optToken envToken =
     \<lparr>nodes_of = [], virtualIpCounter = 2, pinnedIps = pinned,
      registrationToken = (case truthy optToken of Some t \<Rightarrow> Some t | None \<Rightarrow> truthy envToken), socks = []\<rparr>"

definition wsSend :: "sserver \<Rightarrow> nat \<Rightarrow> server_msg \<Rightarrow> server_action list" where
  "wsSend st ws m = (case map_get (socks st) ws of Some s \<Rightarrow> if isOpen s then [Send ws m] else [] | None \<Rightarrow> [])"

definition shut :: "nat \<Rightarrow> sserver \<Rightarrow> sserver" where
  "shut ws st = (case map_get (socks st) ws of
      Some s \<Rightarrow> st\<lparr>socks := map_put ws (s\<lparr>isOpen := False\<rparr>) (socks st)\<rparr> | None \<Rightarrow> st)"

definition setNodeId :: "nat \<Rightarrow> jsstring \<Rightarrow> sserver \<Rightarrow> sserver" where
  "setNodeId ws nodeId st = (case map_get (socks st) ws of
      Some s \<Rightarrow> st\<lparr>socks := map_put ws (s\<lparr>sockNode := Some nodeId\<rparr>) (socks st)\<rparr> | None \<Rightarrow> st)"

definition peer_info :: "jsstring \<Rightarrow> snode \<Rightarrow> peer" where
  "peer_info nodeId info =
     \<lparr>p_nodeId = nodeId, p_name = truthy (s_name info), p_publicKey = s_publicKey info, p_role = Some (s_role info),
      p_virtualIp = s_virtualIp info, p_externalIp = truthy (s_externalIp info), p_geo = s_geo info\<rparr>"

definition sendRegistered :: "sserver \<Rightarrow> nat \<Rightarrow> jsstring \<Rightarrow> jsstring \<Rightarrow> server_action list" where
  "sendRegistered st ws nodeId virtualIp = wsSend st ws (Registered nodeId virtualIp)"

definition broadcastPeerJoin :: "sserver \<Rightarrow> jsstring \<Rightarrow> snode \<Rightarrow> server_action list" where
  "broadcastPeerJoin st nodeId info =
     concat (map (\<lambda>(id, i). if id \<noteq> nodeId then wsSend st (s_ws i) (Peer_join (peer_info nodeId info)) else []) (nodes_of st))"

definition broadcastPeerLeave :: "sserver \<Rightarrow> jsstring \<Rightarrow> server_action list" where
  "broadcastPeerLeave st nodeId =
     concat (map (\<lambda>(id, i). if id = nodeId then [] else wsSend st (s_ws i) (Peer_leave nodeId)) (nodes_of st))"

definition topology_of :: "sserver \<Rightarrow> (jsstring \<times> topo_node) list" where
  "topology_of st = map (\<lambda>(id, i). (id,
     \<lparr>tn_name = truthy (s_name i), tn_role = s_role i, tn_virtualIp = s_virtualIp i,
      tn_externalIp = truthy (s_externalIp i), tn_geo = s_geo i, tn_connectedTo = connectedPeers i\<rparr>)) (nodes_of st)"

definition broadcastTopology :: "sserver \<Rightarrow> server_action list" where
  "broadcastTopology st = concat (map (\<lambda>(id, i). wsSend st (s_ws i) (Topology (topology_of st))) (nodes_of st))"

definition resolved_role :: "reg_msg \<Rightarrow> jsstring" where
  "resolved_role m =
     (if r_nat m then js ''exit'' else if r_relay m then js ''relay''
      else case truthy (r_role m) of Some r \<Rightarrow> r | None \<Rightarrow> js ''client'')"

definition counter_ip :: "nat \<Rightarrow> jsstring" where
  "counter_ip n = js ''10.200.0'' @ 46 # dec n"

definition assign_ip :: "jsstring \<Rightarrow> sserver \<Rightarrow> jsstring \<times> nat" where
  "assign_ip nodeId st =
     (let fresh = (counter_ip (virtualIpCounter st), virtualIpCounter st + 1) in
      case truthy (map_get (pinnedIps st) nodeId) of
        None \<Rightarrow> fresh
      | Some pinned \<Rightarrow>
          if \<exists>n \<in> set (map snd (nodes_of st)). s_virtualIp n = pinned \<and> s_nodeId n \<noteq> nodeId then fresh
          else (pinned, virtualIpCounter st))"

text \<open>A node that is already known: the new socket takes over, its address stays.\<close>

definition re_register :: "nat \<Rightarrow> jsstring \<Rightarrow> jsstring \<Rightarrow> reg_msg \<Rightarrow> snode \<Rightarrow> sserver \<Rightarrow> sserver \<times> server_action list" where
  "re_register ws nodeId publicKey m existing st =
     (let old_open = (case map_get (socks st) (s_ws existing) of Some s \<Rightarrow> isOpen s | None \<Rightarrow> False);
          replace = (s_ws existing \<noteq> ws \<and> old_open);
          st = (if replace then shut (s_ws existing) st else st);
          node = existing\<lparr>s_ws := ws, s_publicKey := publicKey, s_role := resolved_role m,
                   s_name := (case truthy (r_name m) of Some n \<Rightarrow> Some n | None \<Rightarrow> s_name existing)\<rparr>;
          st = setNodeId ws nodeId (st\<lparr>nodes_of := map_put nodeId node (nodes_of st)\<rparr>) in
      (st, (if replace then [Terminate (s_ws existing)] else [])
        @ sendRegistered st ws nodeId (s_virtualIp existing) @ broadcastPeerJoin st nodeId node))"

definition register_new :: "(jsstring \<Rightarrow> jsstring option) \<Rightarrow> int \<Rightarrow> nat \<Rightarrow> jsstring \<Rightarrow> jsstring \<Rightarrow> reg_msg \<Rightarrow> sserver
    \<Rightarrow> sserver \<times> server_action list" where
  "register_new lookup now ws nodeId publicKey m st =
     (case assign_ip nodeId st of (virtualIp, counter) \<Rightarrow>
      let externalIp = (case map_get (socks st) ws of Some s \<Rightarrow> or_null (remoteAddress s) | None \<Rightarrow> None);
          node = \<lparr>s_ws = ws, s_nodeId = nodeId, s_name = truthy (r_name m), s_publicKey = publicKey,
                  s_role = resolved_role m, s_virtualIp = virtualIp, s_externalIp = externalIp,
                  s_geo = (case externalIp of Some a \<Rightarrow> lookup a | None \<Rightarrow> None), connectedPeers = [], registeredAt = now\<rparr>;
          st = setNodeId ws nodeId (st\<lparr>virtualIpCounter := counter, nodes_of := map_put nodeId node (nodes_of st)\<rparr>) in
      (st, sendRegistered st ws nodeId virtualIp @ broadcastPeerJoin st nodeId node))"

definition handleRegister :: "(jsstring \<Rightarrow> jsstring option) \<Rightarrow> int \<Rightarrow> nat \<Rightarrow> reg_msg \<Rightarrow> sserver
    \<Rightarrow> sserver \<times> server_action list" where
  "handleRegister lookup now ws m st =
     (case (truthy (r_nodeId m), truthy (r_publicKey m)) of
        (Some nodeId, Some publicKey) \<Rightarrow>
          if registrationToken st \<noteq> None \<and> r_token m \<noteq> registrationToken st
          then (shut ws st, wsSend st ws (Server_error ''Unauthorized'') @ [Close_socket ws])
          else (case map_get (nodes_of st) nodeId of
                  Some existing \<Rightarrow> re_register ws nodeId publicKey m existing st
                | None \<Rightarrow> register_new lookup now ws nodeId publicKey m st)
      | _ \<Rightarrow> (st, wsSend st ws (Server_error ''Missing nodeId or publicKey'')))"

definition handleSignal :: "jsstring option \<Rightarrow> jsstring \<Rightarrow> jsstring \<Rightarrow> sserver \<Rightarrow> server_action list" where
  "handleSignal fromNodeId target sig st =
     (case truthy fromNodeId of
        None \<Rightarrow> []
      | Some f \<Rightarrow>
          (case map_get (nodes_of st) target of
             None \<Rightarrow> (case map_get (nodes_of st) f of Some n \<Rightarrow> wsSend st (s_ws n) (Signal_error target) | None \<Rightarrow> [])
           | Some t \<Rightarrow> wsSend st (s_ws t) (Signal_from f sig)))"

definition handleGetPeers :: "nat \<Rightarrow> jsstring option \<Rightarrow> sserver \<Rightarrow> server_action list" where
  "handleGetPeers ws exclude st =
     wsSend st ws (Peers (map (\<lambda>(id, i). peer_info id i) (filter (\<lambda>(id, i). Some id \<noteq> exclude) (nodes_of st))))"

definition handleGetExitNodes :: "nat \<Rightarrow> sserver \<Rightarrow> server_action list" where
  "handleGetExitNodes ws st =
     wsSend st ws (Exit_nodes (map (\<lambda>(id, i). (peer_info id i)\<lparr>p_role := None\<rparr>)
       (filter (\<lambda>(id, i). s_role i = js ''exit'') (nodes_of st))))"

definition handleTopologyUpdate :: "jsstring option \<Rightarrow> jsstring list \<Rightarrow> sserver \<Rightarrow> sserver \<times> server_action list" where
  "handleTopologyUpdate fromNodeId connectedTo st =
     (case fromNodeId of
        None \<Rightarrow> (st, [])
      | Some f \<Rightarrow>
          (case map_get (nodes_of st) f of
             None \<Rightarrow> (st, [])
           | Some n \<Rightarrow>
               let st = st\<lparr>nodes_of := map_put f (n\<lparr>connectedPeers := fold set_add connectedTo []\<rparr>) (nodes_of st)\<rparr> in
               (st, broadcastTopology st)))"

definition sock_node :: "sserver \<Rightarrow> nat \<Rightarrow> jsstring option" where
  "sock_node st ws = (case map_get (socks st) ws of Some s \<Rightarrow> sockNode s | None \<Rightarrow> None)"

fun handleMessage :: "(jsstring \<Rightarrow> jsstring option) \<Rightarrow> int \<Rightarrow> nat \<Rightarrow> client_msg \<Rightarrow> sserver \<Rightarrow> sserver \<times> server_action list" where
  "handleMessage lookup now ws (Register m) st = handleRegister lookup now ws m st"
| "handleMessage lookup now ws (Signal_to target sig) st = (st, handleSignal (sock_node st ws) target sig st)"
| "handleMessage lookup now ws Get_peers st = (st, handleGetPeers ws (sock_node st ws) st)"
| "handleMessage lookup now ws Get_exit_nodes st = (st, handleGetExitNodes ws st)"
| "handleMessage lookup now ws (Topology_update c) st = handleTopologyUpdate (sock_node st ws) c st"
| "handleMessage lookup now ws Ping st = (st, wsSend st ws (Pong now))"
| "handleMessage lookup now ws Unknown st = (st, wsSend st ws (Server_error ''Unknown message type''))"
| "handleMessage lookup now ws Malformed st = (st, wsSend st ws (Server_error ''Invalid message format''))"

text \<open>The socket closes: the first node it is the current socket of is removed.\<close>

definition handleWsClose :: "nat \<Rightarrow> sserver \<Rightarrow> sserver \<times> server_action list" where
  "handleWsClose ws st =
     (case find (\<lambda>(id, i). s_ws i = ws) (nodes_of st) of
        None \<Rightarrow> (st, [])
      | Some (nodeId, info) \<Rightarrow>
          let st = st\<lparr>nodes_of := map_del nodeId (nodes_of st)\<rparr> in (st, broadcastPeerLeave st nodeId))"

definition strip_mapped :: "jsstring \<Rightarrow> jsstring" where
  "strip_mapped addr = (if take 7 addr = js ''::ffff:'' then drop 7 addr else addr)"

definition handleConnection :: "nat \<Rightarrow> jsstring \<Rightarrow> sserver \<Rightarrow> sserver" where
  "handleConnection ws addr st = st\<lparr>socks := map_put ws \<lparr>remoteAddress = strip_mapped addr, isOpen = True, sockNode = None\<rparr> (socks st)\<rparr>"

definition getNodeCount :: "sserver \<Rightarrow> nat" where
  "getNodeCount st = length (nodes_of st)"

definition getExitNodeCount :: "sserver \<Rightarrow> nat" where
  "getExitNodeCount st = length (filter (\<lambda>(id, i). s_role i = js ''exit'') (nodes_of st))"

text \<open>\<open>stop\<close> closes the sockets of the registered nodes.\<close>

definition stop_server :: "sserver \<Rightarrow> sserver \<times> server_action list" where
  "stop_server st = (fold (\<lambda>(id, i). shut (s_ws i)) (nodes_of st) st, map (\<lambda>(id, i). Close_socket (s_ws i)) (nodes_of st))"

section \<open>The client\<close>

record sclient =
  c_nodeId :: jsstring
  c_publicKey :: jsstring
  c_name :: "jsstring option"
  c_role :: jsstring
  c_natEnabled :: bool
  c_relayEnabled :: bool
  c_token :: "jsstring option"
  c_open :: bool
  c_connected :: bool
  c_registered :: bool
  c_virtualIp :: "jsstring option"
  c_peers :: "(jsstring, peer) jsmap"
  c_exitNodes :: "(jsstring, peer) jsmap"
  c_reconnectTimer :: bool
  c_pingInterval :: bool
  c_stopConnecting :: bool

datatype client_event =
    Ev_registered jsstring
  | Ev_peers_updated "peer list"
  | Ev_exit_nodes_updated "peer list"
  | Ev_peer_join peer
  | Ev_peer_leave jsstring
  | Ev_signal jsstring jsstring
  | Ev_signal_error jsstring
  | Ev_topology "(jsstring \<times> topo_node) list"
  | Ev_pong int
  | Ev_server_error string
  | Ev_disconnected

definition new_SignallingClient :: "jsstring \<Rightarrow> jsstring \<Rightarrow> jsstring option \<Rightarrow> bool \<Rightarrow> bool \<Rightarrow> jsstring option \<Rightarrow> sclient" where
  "new_SignallingClient nodeId publicKey name natOn relay token =
     \<lparr>c_nodeId = nodeId, c_publicKey = publicKey, c_name = truthy name, c_role = js ''client'', c_natEnabled = natOn,
      c_relayEnabled = relay, c_token = truthy token, c_open = False, c_connected = False, c_registered = False,
      c_virtualIp = None, c_peers = [], c_exitNodes = [], c_reconnectTimer = False, c_pingInterval = False,
      c_stopConnecting = False\<rparr>"

definition client_send :: "sclient \<Rightarrow> client_msg \<Rightarrow> client_msg list" where
  "client_send c m = (if c_open c then [m] else [])"

definition client_register :: "sclient \<Rightarrow> client_msg list" where
  "client_register c = client_send c (Register
     \<lparr>r_nodeId = Some (c_nodeId c), r_publicKey = Some (c_publicKey c), r_name = c_name c, r_role = Some (c_role c),
      r_nat = c_natEnabled c, r_relay = c_relayEnabled c, r_token = c_token c\<rparr>)"

definition sendSignal :: "jsstring \<Rightarrow> jsstring \<Rightarrow> sclient \<Rightarrow> client_msg list" where
  "sendSignal toNodeId sig c = client_send c (Signal_to toNodeId sig)"

definition client_updateTopology :: "jsstring list \<Rightarrow> sclient \<Rightarrow> client_msg list" where
  "client_updateTopology connected c = client_send c (Topology_update connected)"

definition client_ping :: "sclient \<Rightarrow> client_msg list" where
  "client_ping c = (if c_pingInterval c then client_send c Ping else [])"

definition getPeer :: "jsstring \<Rightarrow> sclient \<Rightarrow> peer option" where
  "getPeer nodeId c = map_get (c_peers c) nodeId"

definition getAllPeers :: "sclient \<Rightarrow> peer list" where
  "getAllPeers c = map snd (c_peers c)"

definition client_getExitNodes :: "sclient \<Rightarrow> peer list" where
  "client_getExitNodes c = map snd (c_exitNodes c)"

text \<open>The \<open>open\<close> callback of a connection attempt.\<close>

definition client_open :: "sclient \<Rightarrow> sclient \<times> client_msg list" where
  "client_open c = (let c = c\<lparr>c_connected := True, c_open := True, c_pingInterval := True\<rparr> in (c, client_register c))"

definition handlePeersList :: "peer list \<Rightarrow> sclient \<Rightarrow> sclient" where
  "handlePeersList peers c =
     fold (\<lambda>p c. c\<lparr>c_peers := map_put (p_nodeId p) p (c_peers c),
       c_exitNodes := (if p_role p = Some (js ''exit'') then map_put (p_nodeId p) p (c_exitNodes c) else c_exitNodes c)\<rparr>) peers c"

definition handleExitNodesList :: "peer list \<Rightarrow> sclient \<Rightarrow> sclient" where
  "handleExitNodesList exits c = c\<lparr>c_exitNodes := fold (\<lambda>p. map_put (p_nodeId p) p) exits (c_exitNodes c)\<rparr>"

definition handlePeerJoin :: "peer \<Rightarrow> sclient \<Rightarrow> sclient" where
  "handlePeerJoin p c = c\<lparr>c_peers := map_put (p_nodeId p) p (c_peers c),
     c_exitNodes := (if p_role p = Some (js ''exit'') then map_put (p_nodeId p) p (c_exitNodes c) else c_exitNodes c)\<rparr>"

definition handlePeerLeave :: "jsstring \<Rightarrow> sclient \<Rightarrow> sclient" where
  "handlePeerLeave nodeId c = c\<lparr>c_peers := map_del nodeId (c_peers c), c_exitNodes := map_del nodeId (c_exitNodes c)\<rparr>"

fun client_handle :: "server_msg \<Rightarrow> sclient \<Rightarrow> sclient \<times> client_event list \<times> client_msg list" where
  "client_handle (Registered nodeId ip) c =
     (let c = c\<lparr>c_registered := True, c_virtualIp := Some ip\<rparr> in
      (c, [Ev_registered ip], client_send c Get_peers @ client_send c Get_exit_nodes))"
| "client_handle (Peers ps) c = (let c = handlePeersList ps c in (c, [Ev_peers_updated (map snd (c_peers c))], []))"
| "client_handle (Exit_nodes ps) c = (let c = handleExitNodesList ps c in (c, [Ev_exit_nodes_updated (map snd (c_exitNodes c))], []))"
| "client_handle (Peer_join p) c = (handlePeerJoin p c, [Ev_peer_join p], [])"
| "client_handle (Peer_leave n) c = (handlePeerLeave n c, [Ev_peer_leave n], [])"
| "client_handle (Signal_from f s) c = (c, [Ev_signal f s], [])"
| "client_handle (Signal_error t) c = (c, [Ev_signal_error t], [])"
| "client_handle (Topology t) c = (c, [Ev_topology t], [])"
| "client_handle (Pong t) c = (c, [Ev_pong t], [])"
| "client_handle (Server_error e) c = (c, [Ev_server_error e], [])"

definition client_scheduleReconnect :: "sclient \<Rightarrow> sclient" where
  "client_scheduleReconnect c = (if c_stopConnecting c \<or> c_reconnectTimer c then c else c\<lparr>c_reconnectTimer := True\<rparr>)"

definition client_handleDisconnect :: "bool \<Rightarrow> sclient \<Rightarrow> sclient \<times> client_event list" where
  "client_handleDisconnect wasOpen c =
     (let c = c\<lparr>c_open := False, c_connected := False, c_registered := False, c_pingInterval := False\<rparr> in
      (if wasOpen \<and> \<not> c_stopConnecting c then client_scheduleReconnect c else c,
       if wasOpen then [Ev_disconnected] else []))"

definition client_disconnect :: "sclient \<Rightarrow> sclient \<times> client_event list" where
  "client_disconnect c =
     (c\<lparr>c_stopConnecting := True, c_reconnectTimer := False, c_pingInterval := False, c_open := False,
        c_connected := False, c_registered := False\<rparr>,
      if c_connected c then [Ev_disconnected] else [])"

text \<open>The delays between the attempts of \<open>connect\<close>: doubled up to a minute.\<close>

fun retry_delay :: "nat \<Rightarrow> nat" where
  "retry_delay 0 = 1000"
| "retry_delay (Suc n) = min (retry_delay n * 2) 60000"

section \<open>Runs\<close>

text \<open>
  The server under arbitrary clients, and the conditions our own client keeps: a socket registers
  only one id, and asks for the peers only after it registered. The log records what was sent to each
  socket.
\<close>

datatype srv_event = Open nat jsstring | Msg int nat client_msg | Closed nat

fun srv_next :: "(jsstring \<Rightarrow> jsstring option) \<Rightarrow> srv_event \<Rightarrow> sserver \<Rightarrow> sserver \<times> server_action list" where
  "srv_next lookup (Open ws addr) st = (handleConnection ws addr st, [])"
| "srv_next lookup (Msg now ws m) st = handleMessage lookup now ws m st"
| "srv_next lookup (Closed ws) st = handleWsClose ws (shut ws st)"

fun srv_event_ok :: "srv_event \<Rightarrow> sserver \<Rightarrow> bool" where
  "srv_event_ok (Open ws addr) st \<longleftrightarrow> map_get (socks st) ws = None"
| "srv_event_ok (Msg now ws m) st \<longleftrightarrow> map_get (socks st) ws \<noteq> None"
| "srv_event_ok (Closed ws) st \<longleftrightarrow> map_get (socks st) ws \<noteq> None"

fun client_like :: "srv_event \<Rightarrow> sserver \<Rightarrow> bool" where
  "client_like (Msg now ws (Register m)) st \<longleftrightarrow> sock_node st ws = None \<or> sock_node st ws = truthy (r_nodeId m)"
| "client_like (Msg now ws Get_peers) st \<longleftrightarrow> sock_node st ws \<noteq> None"
| "client_like ev st \<longleftrightarrow> True"

definition sent_msgs :: "nat \<Rightarrow> server_action list \<Rightarrow> server_msg list" where
  "sent_msgs w acts = concat (map (\<lambda>a. case a of Send v m \<Rightarrow> if v = w then [m] else [] | _ \<Rightarrow> []) acts)"

inductive srv_reach :: "(jsstring \<Rightarrow> jsstring option) \<Rightarrow> sserver \<Rightarrow> bool" for lookup where
  start: "srv_reach lookup (new_SignallingServer pins tok env)"
| step: "srv_reach lookup st \<Longrightarrow> srv_event_ok ev st \<Longrightarrow> srv_next lookup ev st = (st', acts) \<Longrightarrow> srv_reach lookup st'"

inductive srv_log :: "(jsstring \<Rightarrow> jsstring option) \<Rightarrow> sserver \<Rightarrow> (nat \<Rightarrow> server_msg list) \<Rightarrow> bool" for lookup where
  start: "srv_log lookup (new_SignallingServer pins tok env) (\<lambda>w. [])"
| step: "srv_log lookup st log \<Longrightarrow> srv_event_ok ev st \<Longrightarrow> client_like ev st \<Longrightarrow> srv_next lookup ev st = (st', acts) \<Longrightarrow>
    srv_log lookup st' (\<lambda>w. log w @ sent_msgs w acts)"

text \<open>The client after a sequence of messages.\<close>

definition client_after :: "server_msg list \<Rightarrow> sclient \<Rightarrow> sclient" where
  "client_after ms c = fold (\<lambda>m c. fst (client_handle m c)) ms c"

text \<open>Running a list of events; used for concrete runs.\<close>

fun srv_run :: "(jsstring \<Rightarrow> jsstring option) \<Rightarrow> srv_event list \<Rightarrow> sserver \<times> (nat \<Rightarrow> server_msg list)
    \<Rightarrow> (sserver \<times> (nat \<Rightarrow> server_msg list)) option" where
  "srv_run lookup [] s = Some s"
| "srv_run lookup (ev # evs) (st, log) =
     (if srv_event_ok ev st \<and> client_like ev st
      then (case srv_next lookup ev st of (st', acts) \<Rightarrow> srv_run lookup evs (st', \<lambda>w. log w @ sent_msgs w acts))
      else None)"

lemma srv_run_log: "srv_log lookup st log \<Longrightarrow> srv_run lookup evs (st, log) = Some (st', log') \<Longrightarrow> srv_log lookup st' log'"
proof (induction evs arbitrary: st log)
  case (Cons ev evs)
  then have ok: "srv_event_ok ev st" "client_like ev st" by (simp_all split: if_splits)
  obtain s acts where nx: "srv_next lookup ev st = (s, acts)" by (cases "srv_next lookup ev st")
  have "srv_log lookup s (\<lambda>w. log w @ sent_msgs w acts)" by (rule srv_log.step [OF Cons.prems(1) ok nx])
  from Cons.IH [OF this] show ?case using Cons.prems(2) ok nx by simp
qed simp

lemma srv_log_reach: "srv_log lookup st log \<Longrightarrow> srv_reach lookup st"
proof (induction rule: srv_log.induct)
  case (start pins tok env)
  show ?case by (rule srv_reach.start)
next
  case (step st log ev st' acts)
  show ?case by (rule srv_reach.step [OF step.IH step.hyps(2,4)])
qed

definition demo_reg :: "string \<Rightarrow> string \<Rightarrow> client_msg" where
  "demo_reg n role = Register \<lparr>r_nodeId = Some (js n), r_publicKey = Some (js ''k''), r_name = None, r_role = Some (js role),
     r_nat = False, r_relay = False, r_token = None\<rparr>"

definition demo_events :: "srv_event list" where
  "demo_events = [Open 1 (js ''1.1.1.1''), Msg 0 1 (demo_reg ''A'' ''client''), Msg 1 1 Get_peers, Open 2 (js ''2.2.2.2''),
     Msg 2 2 (demo_reg ''B'' ''exit'')]"

lemmas srv_eval = demo_events_def strip_mapped_def demo_reg_def handleConnection_def handleRegister_def register_new_def re_register_def
  assign_ip_def resolved_role_def setNodeId_def shut_def sendRegistered_def broadcastPeerJoin_def broadcastPeerLeave_def
  wsSend_def sock_node_def handleGetPeers_def handleWsClose_def truthy_def or_null_def new_SignallingServer_def Let_def
  sent_msgs_def js_def peer_info_def counter_ip_def

section \<open>Lemmas about the operations\<close>

lemma sent_msgs_simps [simp]:
  "sent_msgs w [] = []" "sent_msgs w (xs @ ys) = sent_msgs w xs @ sent_msgs w ys"
  "sent_msgs w (Send v m # xs) = (if v = w then m # sent_msgs w xs else sent_msgs w xs)"
  "sent_msgs w (Terminate v # xs) = sent_msgs w xs" "sent_msgs w (Close_socket v # xs) = sent_msgs w xs"
  by (simp_all add: sent_msgs_def)

definition is_open :: "sserver \<Rightarrow> nat \<Rightarrow> bool" where
  "is_open st w = (case map_get (socks st) w of Some s \<Rightarrow> isOpen s | None \<Rightarrow> False)"

lemma sent_wsSend [simp]: "sent_msgs w (wsSend st v m) = (if v = w \<and> is_open st w then [m] else [])"
  by (simp add: wsSend_def is_open_def split: option.split)

lemma shut_simps [simp]:
  "nodes_of (shut ws st) = nodes_of st" "virtualIpCounter (shut ws st) = virtualIpCounter st"
  "pinnedIps (shut ws st) = pinnedIps st" "sock_node (shut ws st) v = sock_node st v"
  "is_open (shut ws st) v = (v \<noteq> ws \<and> is_open st v)"
  by (auto simp: shut_def sock_node_def is_open_def split: option.splits)

lemma setNodeId_simps [simp]:
  "nodes_of (setNodeId ws n st) = nodes_of st" "virtualIpCounter (setNodeId ws n st) = virtualIpCounter st"
  "pinnedIps (setNodeId ws n st) = pinnedIps st" "is_open (setNodeId ws n st) v = is_open st v"
  "map_get (socks st) ws \<noteq> None \<Longrightarrow> sock_node (setNodeId ws n st) v = (if v = ws then Some n else sock_node st v)"
  by (auto simp: setNodeId_def sock_node_def is_open_def split: option.splits)

lemma is_open_upd [simp]:
  "is_open (st\<lparr>nodes_of := x\<rparr>) w = is_open st w" "is_open (st\<lparr>virtualIpCounter := k\<rparr>) w = is_open st w"
  "sock_node (st\<lparr>nodes_of := x\<rparr>) w = sock_node st w" "sock_node (st\<lparr>virtualIpCounter := k\<rparr>) w = sock_node st w"
  by (simp_all add: is_open_def sock_node_def)

lemma shut_socks [simp]: "map_get (socks (shut ws st)) v = None \<longleftrightarrow> map_get (socks st) v = None"
  by (auto simp: shut_def split: option.splits)

text \<open>
  What a broadcast over the nodes other than \<open>n\<close> sends to socket \<open>w\<close>, when every socket is current for at
  most one node.
\<close>

lemma broadcast_list:
  "distinct (map (\<lambda>x. s_ws (snd x)) ns) \<Longrightarrow>
    sent_msgs w (concat (map (\<lambda>(id, i). if id \<noteq> n then wsSend st (s_ws i) m else []) ns)) =
    (if is_open st w \<and> (\<exists>x \<in> set ns. fst x \<noteq> n \<and> s_ws (snd x) = w) then [m] else [])"
proof (induction ns)
  case (Cons x ns)
  then have rest: "s_ws (snd x) \<notin> (\<lambda>x. s_ws (snd x)) ` set ns" "distinct (map (\<lambda>x. s_ws (snd x)) ns)" by simp_all
  then have no: "s_ws (snd x) = w \<Longrightarrow> \<not> (\<exists>y \<in> set ns. fst y \<noteq> n \<and> s_ws (snd y) = w)" by (metis image_eqI)
  show ?case
    using Cons.IH [OF rest(2)] no by (cases "s_ws (snd x) = w") (simp_all add: case_prod_unfold)
qed simp

lemma broadcast_sent:
  assumes wf: "wf_map ns"
    and inj: "\<forall>a b i j. map_get ns a = Some i \<longrightarrow> map_get ns b = Some j \<longrightarrow> s_ws i = s_ws j \<longrightarrow> a = b"
  shows "sent_msgs w (concat (map (\<lambda>(id, i). if id \<noteq> n then wsSend st (s_ws i) m else []) ns)) =
    (if is_open st w \<and> (\<exists>id i. id \<noteq> n \<and> map_get ns id = Some i \<and> s_ws i = w) then [m] else [])"
proof -
  have "inj_on (\<lambda>x. s_ws (snd x)) (set ns)"
  proof (rule inj_onI)
    fix x y assume xy: "x \<in> set ns" "y \<in> set ns" "s_ws (snd x) = s_ws (snd y)"
    then have "map_get ns (fst x) = Some (snd x)" "map_get ns (fst y) = Some (snd y)"
      using wf by (simp_all add: wf_map_get_iff)
    then have "fst x = fst y" "snd x = snd y" using inj xy(3) by (metis, metis option.inject)
    then show "x = y" by (rule prod_eqI)
  qed
  then have "distinct (map (\<lambda>x. s_ws (snd x)) ns)"
    using wf by (simp add: distinct_map wf_map_def)
  moreover have "(\<exists>x \<in> set ns. fst x \<noteq> n \<and> s_ws (snd x) = w) \<longleftrightarrow> (\<exists>id i. id \<noteq> n \<and> map_get ns id = Some i \<and> s_ws i = w)"
    unfolding wf_map_get_iff [OF wf] by (metis fst_conv snd_conv surjective_pairing)
  ultimately show ?thesis by (simp only: broadcast_list)
qed

section \<open>Addresses\<close>

text \<open>
  Addresses come from the pins or from the counter; the invariant needs that the counter has not
  run into a pinned address.
\<close>

definition pins_apart :: "sserver \<Rightarrow> bool" where
  "pins_apart st \<longleftrightarrow> (\<forall>ip \<in> set (map snd (pinnedIps st)). \<forall>k < virtualIpCounter st. ip \<noteq> counter_ip k)"

definition ips_inv :: "sserver \<Rightarrow> bool" where
  "ips_inv st \<longleftrightarrow>
     (\<forall>a i. map_get (nodes_of st) a = Some i \<longrightarrow> s_nodeId i = a \<and>
        (s_virtualIp i \<in> set (map snd (pinnedIps st)) \<or> (\<exists>k < virtualIpCounter st. s_virtualIp i = counter_ip k)))
     \<and> (\<forall>a b i j. map_get (nodes_of st) a = Some i \<longrightarrow> map_get (nodes_of st) b = Some j \<longrightarrow> s_virtualIp i = s_virtualIp j \<longrightarrow> a = b)
     \<and> wf_map (nodes_of st)"

lemma counter_ip_inj [simp]: "counter_ip m = counter_ip n \<longleftrightarrow> m = n"
  by (simp add: counter_ip_def)

lemma ips_invD:
  assumes "ips_inv st" "map_get (nodes_of st) a = Some i"
  shows "s_nodeId i = a" "s_virtualIp i \<in> set (map snd (pinnedIps st)) \<or> (\<exists>k < virtualIpCounter st. s_virtualIp i = counter_ip k)"
    "map_get (nodes_of st) b = Some j \<Longrightarrow> s_virtualIp i = s_virtualIp j \<Longrightarrow> a = b"
  using assms unfolding ips_inv_def by blast+

text \<open>Changing a node without its id and address.\<close>

lemma ips_inv_update:
  assumes "ips_inv st" "map_get (nodes_of st) a = Some i" "s_virtualIp i' = s_virtualIp i" "s_nodeId i' = s_nodeId i"
    "nodes_of st' = map_put a i' (nodes_of st)" "pinnedIps st' = pinnedIps st" "virtualIpCounter st' = virtualIpCounter st"
  shows "ips_inv st'"
  unfolding ips_inv_def
proof (intro conjI allI impI)
  have get: "map_get (nodes_of st') b = (if b = a then Some i' else map_get (nodes_of st) b)" for b
    by (simp add: assms(5))
  fix b j assume b: "map_get (nodes_of st') b = Some j"
  obtain j0 where j0: "map_get (nodes_of st) b = Some j0" "s_virtualIp j = s_virtualIp j0" "s_nodeId j = s_nodeId j0"
    using b assms(2-4) unfolding get by (cases "b = a") auto
  show "s_nodeId j = b" using ips_invD(1) [OF assms(1) j0(1)] j0(3) by simp
  show "s_virtualIp j \<in> set (map snd (pinnedIps st')) \<or> (\<exists>k < virtualIpCounter st'. s_virtualIp j = counter_ip k)"
    using ips_invD(2) [OF assms(1) j0(1)] j0(2) assms(6,7) by simp
  fix d k assume d: "map_get (nodes_of st') d = Some k" and eq: "s_virtualIp j = s_virtualIp k"
  obtain k0 where k0: "map_get (nodes_of st) d = Some k0" "s_virtualIp k = s_virtualIp k0"
    using d assms(2,3) unfolding get by (cases "d = a") auto
  show "b = d" using ips_invD(3) [OF assms(1) j0(1) k0(1)] eq j0(2) k0(2) by simp
qed (use assms in \<open>simp add: ips_inv_def\<close>)

lemma ips_inv_cong:
  "nodes_of st' = nodes_of st \<Longrightarrow> pinnedIps st' = pinnedIps st \<Longrightarrow> virtualIpCounter st' = virtualIpCounter st \<Longrightarrow>
    ips_inv st' = ips_inv st"
  by (simp add: ips_inv_def)

lemma ips_inv_sub:
  assumes "ips_inv st" "\<And>a i. map_get (nodes_of st') a = Some i \<Longrightarrow> map_get (nodes_of st) a = Some i" "wf_map (nodes_of st')"
    "pinnedIps st' = pinnedIps st" "virtualIpCounter st' = virtualIpCounter st"
  shows "ips_inv st'"
  unfolding ips_inv_def assms(4,5)
proof (intro conjI allI impI)
  fix a i assume a: "map_get (nodes_of st') a = Some i"
  note a' = assms(2) [OF a]
  show "s_nodeId i = a" by (rule ips_invD(1) [OF assms(1) a'])
  show "s_virtualIp i \<in> set (map snd (pinnedIps st)) \<or> (\<exists>k < virtualIpCounter st. s_virtualIp i = counter_ip k)"
    by (rule ips_invD(2) [OF assms(1) a'])
  fix b j assume "map_get (nodes_of st') b = Some j" "s_virtualIp i = s_virtualIp j"
  then show "a = b" using ips_invD(3) [OF assms(1) a'] assms(2) by blast
qed (rule assms(3))

lemma assign_ip_fresh:
  assumes inv: "ips_inv st" and pins: "\<forall>ip \<in> set (map snd (pinnedIps st)). \<forall>j < k. ip \<noteq> counter_ip j" and new: "map_get (nodes_of st) n = None"
    and ip: "assign_ip n st = (ip, k)"
  shows "(ip \<in> set (map snd (pinnedIps st)) \<or> (\<exists>j < k. ip = counter_ip j)) \<and> virtualIpCounter st \<le> k
    \<and> (\<forall>a i. map_get (nodes_of st) a = Some i \<longrightarrow> s_virtualIp i \<noteq> ip)"
proof -
  consider (fresh) "ip = counter_ip (virtualIpCounter st)" "k = virtualIpCounter st + 1"
    | (pin) "truthy (map_get (pinnedIps st) n) = Some ip" "k = virtualIpCounter st"
      "\<not> (\<exists>m \<in> set (map snd (nodes_of st)). s_virtualIp m = ip \<and> s_nodeId m \<noteq> n)"
  proof (cases "truthy (map_get (pinnedIps st) n)")
    case None
    then show thesis using ip by (intro fresh) (simp_all add: assign_ip_def)
  next
    case (Some pinned)
    show thesis
    proof (cases "\<exists>m \<in> set (map snd (nodes_of st)). s_virtualIp m = pinned \<and> s_nodeId m \<noteq> n")
      case True
      then show thesis using ip Some unfolding assign_ip_def Let_def by (intro fresh) simp_all
    next
      case False
      then have "assign_ip n st = (pinned, virtualIpCounter st)"
        unfolding assign_ip_def Let_def Some option.case by (subst if_not_P [OF False]) (rule refl)
      then have "ip = pinned" "k = virtualIpCounter st" using ip by simp_all
      with Some False show thesis by (intro pin) simp_all
    qed
  qed
  then show ?thesis
  proof cases
    case fresh
    have "s_virtualIp i \<noteq> ip" if "map_get (nodes_of st) a = Some i" for a i
      using ips_invD(2) [OF inv that] pins fresh counter_ip_inj by (metis less_add_one less_irrefl)
    with fresh show ?thesis by auto
  next
    case pin
    then have "map_get (pinnedIps st) n = Some ip" by (auto simp: truthy_def or_null_def split: option.splits if_splits)
    then have "ip \<in> set (map snd (pinnedIps st))" by (force dest: map_get_SomeD)
    moreover have "s_virtualIp i \<noteq> ip" if "map_get (nodes_of st) a = Some i" for a i
    proof -
      have "i \<in> set (map snd (nodes_of st))" using that by (force dest: map_get_SomeD)
      moreover have "s_nodeId i \<noteq> n" using ips_invD(1) [OF inv that] that new by auto
      ultimately show ?thesis using pin(3) by blast
    qed
    ultimately show ?thesis using pin(2) by auto
  qed
qed

lemma re_register_nodes:
  assumes "re_register ws n pk m ex st = (st', acts)"
  shows "\<exists>node. nodes_of st' = map_put n node (nodes_of st) \<and> s_virtualIp node = s_virtualIp ex \<and> s_nodeId node = s_nodeId ex
    \<and> s_ws node = ws \<and> pinnedIps st' = pinnedIps st \<and> virtualIpCounter st' = virtualIpCounter st"
  using assms by (auto simp: re_register_def Let_def)

lemma register_new_nodes:
  assumes "register_new lookup now ws n pk m st = (st', acts)"
  shows "\<exists>node. nodes_of st' = map_put n node (nodes_of st) \<and> assign_ip n st = (s_virtualIp node, virtualIpCounter st')
    \<and> s_nodeId node = n \<and> s_ws node = ws \<and> pinnedIps st' = pinnedIps st"
  using assms by (auto simp: register_new_def Let_def split: prod.splits)

lemma handleRegister_cases:
  assumes "handleRegister lookup now ws m st = (st', acts)"
  obtains (refused) "st' = st \<or> st' = shut ws st"
  | (known) n pk ex where "truthy (r_nodeId m) = Some n" "map_get (nodes_of st) n = Some ex" "re_register ws n pk m ex st = (st', acts)"
  | (fresh) n pk where "truthy (r_nodeId m) = Some n" "map_get (nodes_of st) n = None" "register_new lookup now ws n pk m st = (st', acts)"
  using assms by (auto simp: handleRegister_def split: option.splits if_splits)

lemma register_ips:
  assumes inv: "ips_inv st" and pins: "pins_apart st'" and run: "handleRegister lookup now ws m st = (st', acts)"
  shows "ips_inv st' \<and> pinnedIps st' = pinnedIps st
    \<and> (\<forall>a i i'. map_get (nodes_of st) a = Some i \<longrightarrow> map_get (nodes_of st') a = Some i' \<longrightarrow> s_virtualIp i' = s_virtualIp i)"
  using run
proof (cases rule: handleRegister_cases)
  case refused
  then have eq: "nodes_of st' = nodes_of st" "pinnedIps st' = pinnedIps st" "virtualIpCounter st' = virtualIpCounter st" by auto
  then show ?thesis using inv ips_inv_cong [OF eq] by simp
next
  case (known n pk ex)
  from re_register_nodes [OF known(3)] obtain node where node: "nodes_of st' = map_put n node (nodes_of st)"
    "s_virtualIp node = s_virtualIp ex" "s_nodeId node = s_nodeId ex" "pinnedIps st' = pinnedIps st"
    "virtualIpCounter st' = virtualIpCounter st" by blast
  have "s_virtualIp i' = s_virtualIp i" if "map_get (nodes_of st) a = Some i" "map_get (nodes_of st') a = Some i'" for a i i'
    using that known(2) node(2) unfolding node(1) by (cases "a = n") simp_all
  then show ?thesis using ips_inv_update [OF inv known(2) node(2,3,1,4,5)] node(4) by blast
next
  case (fresh n pk)
  from register_new_nodes [OF fresh(3)] obtain node where node: "nodes_of st' = map_put n node (nodes_of st)"
    "assign_ip n st = (s_virtualIp node, virtualIpCounter st')" "s_nodeId node = n" "pinnedIps st' = pinnedIps st" by blast
  note ip = assign_ip_fresh [OF inv pins [unfolded pins_apart_def node(4)] fresh(2) node(2)]
  have get: "map_get (nodes_of st') a = (if a = n then Some node else map_get (nodes_of st) a)" for a
    by (simp add: node(1))
  have "ips_inv st'"
    unfolding ips_inv_def
  proof (intro conjI allI impI)
    fix a i assume a: "map_get (nodes_of st') a = Some i"
    show "s_nodeId i = a"
      using a node(3) ips_invD(1) [OF inv, of a i] unfolding get by (cases "a = n") simp_all
    show "s_virtualIp i \<in> set (map snd (pinnedIps st')) \<or> (\<exists>k < virtualIpCounter st'. s_virtualIp i = counter_ip k)"
    proof (cases "a = n")
      case True
      then show ?thesis using a ip node(4) unfolding get by simp
    next
      case False
      then show ?thesis
        using a ip node(4) ips_invD(2) [OF inv, of a i] order.strict_trans2 unfolding get by fastforce
    qed
    fix b j assume b: "map_get (nodes_of st') b = Some j" and eq: "s_virtualIp i = s_virtualIp j"
    show "a = b"
    proof (cases "a = n"; cases "b = n")
      assume "a = n" "b \<noteq> n"
      then show ?thesis using a b eq ip unfolding get by force
    next
      assume "a \<noteq> n" "b = n"
      then show ?thesis using a b eq ip unfolding get by force
    next
      assume "a \<noteq> n" "b \<noteq> n"
      then show ?thesis using a b eq ips_invD(3) [OF inv, of a i b j] unfolding get by simp
    qed simp
  qed (use inv node in \<open>simp add: ips_inv_def\<close>)
  moreover have "s_virtualIp i' = s_virtualIp i" if "map_get (nodes_of st) a = Some i" "map_get (nodes_of st') a = Some i'" for a i i'
    using that fresh(2) unfolding get by (cases "a = n") simp_all
  ultimately show ?thesis using node(4) by blast
qed

lemma topology_nodes:
  assumes "handleTopologyUpdate f c st = (st', acts)"
  obtains (same) "st' = st" | (upd) n i where "map_get (nodes_of st) n = Some i"
    "st' = st\<lparr>nodes_of := map_put n (i\<lparr>connectedPeers := fold set_add c []\<rparr>) (nodes_of st)\<rparr>" "acts = broadcastTopology st'"
proof (cases f)
  case None
  then show thesis using assms same by (simp add: handleTopologyUpdate_def)
next
  case (Some n)
  show thesis
  proof (cases "map_get (nodes_of st) n")
    case None
    then show thesis using assms same Some by (simp add: handleTopologyUpdate_def)
  next
    case (Some i)
    define S where "S = st\<lparr>nodes_of := map_put n (i\<lparr>connectedPeers := fold set_add c []\<rparr>) (nodes_of st)\<rparr>"
    have "handleTopologyUpdate f c st = (S, broadcastTopology S)"
      using Some \<open>f = Some n\<close> by (simp add: handleTopologyUpdate_def Let_def S_def)
    then have "st' = S" "acts = broadcastTopology S" using assms by simp_all
    then show thesis by (intro upd [OF Some]) (simp_all add: S_def)
  qed
qed

lemma close_nodes:
  assumes "handleWsClose ws st = (st', acts)"
  obtains (same) "st' = st" "acts = []" "\<And>id i. (id, i) \<in> set (nodes_of st) \<Longrightarrow> s_ws i \<noteq> ws"
  | (del) n i where "(n, i) \<in> set (nodes_of st)" "s_ws i = ws" "st' = st\<lparr>nodes_of := map_del n (nodes_of st)\<rparr>"
      "acts = broadcastPeerLeave st' n"
proof (cases "find (\<lambda>(id, i). s_ws i = ws) (nodes_of st)")
  case None
  then have "\<And>id i. (id, i) \<in> set (nodes_of st) \<Longrightarrow> s_ws i \<noteq> ws" by (metis (mono_tags, lifting) case_prodI find_None_iff)
  then show thesis using assms None same by (simp add: handleWsClose_def)
next
  case (Some x)
  obtain n i where x: "x = (n, i)" by (cases x)
  have mem: "(n, i) \<in> set (nodes_of st)" "s_ws i = ws"
    using Some unfolding x find_Some_iff by (metis nth_mem, metis case_prod_conv)
  define S where "S = st\<lparr>nodes_of := map_del n (nodes_of st)\<rparr>"
  have "handleWsClose ws st = (S, broadcastPeerLeave S n)"
    using Some by (simp add: handleWsClose_def Let_def x S_def)
  then have "st' = S" "acts = broadcastPeerLeave S n" using assms by simp_all
  then show thesis by (intro del [OF mem]) (simp_all add: S_def)
qed

lemma assign_ip_counter: "assign_ip n st = (ip, k) \<Longrightarrow> virtualIpCounter st \<le> k"
  by (auto simp: assign_ip_def Let_def split: option.splits if_splits)

lemma srv_next_pins:
  assumes run: "srv_next lookup ev st = (st', acts)"
  shows "pinnedIps st' = pinnedIps st \<and> virtualIpCounter st \<le> virtualIpCounter st'"
proof (cases ev)
  case (Open ws addr)
  then show ?thesis using run by (auto simp: handleConnection_def)
next
  case (Closed ws)
  then have "handleWsClose ws (shut ws st) = (st', acts)" using run by simp
  then show ?thesis by (cases rule: close_nodes) simp_all
next
  case (Msg now ws m)
  show ?thesis
  proof (cases m)
    case (Register r)
    then have "handleRegister lookup now ws r st = (st', acts)" using run Msg by simp
    then show ?thesis
    proof (cases rule: handleRegister_cases)
      case refused
      then show ?thesis by (elim disjE) simp_all
    next
      case (known n pk ex)
      then show ?thesis using re_register_nodes by (metis order_refl)
    next
      case (fresh n pk)
      then show ?thesis using register_new_nodes assign_ip_counter by blast
    qed
  next
    case (Topology_update c)
    then have "handleTopologyUpdate (sock_node st ws) c st = (st', acts)" using run Msg by simp
    then show ?thesis by (cases rule: topology_nodes) simp_all
  qed (use run Msg in simp_all)
qed

lemma srv_next_ips:
  assumes inv: "ips_inv st" and pins: "pins_apart st'" and run: "srv_next lookup ev st = (st', acts)"
  shows "ips_inv st' \<and> pinnedIps st' = pinnedIps st
    \<and> (\<forall>a i i'. map_get (nodes_of st) a = Some i \<longrightarrow> map_get (nodes_of st') a = Some i' \<longrightarrow> s_virtualIp i' = s_virtualIp i)"
proof -
  have keep: ?thesis if "nodes_of st' = nodes_of st" "pinnedIps st' = pinnedIps st" "virtualIpCounter st' = virtualIpCounter st"
    using inv that ips_inv_cong [OF that] by simp
  show ?thesis
  proof (cases ev)
    case (Open ws addr)
    then have "st' = handleConnection ws addr st" using run by simp
    then show ?thesis by (intro keep) (simp_all add: handleConnection_def)
  next
    case (Closed ws)
    then have "handleWsClose ws (shut ws st) = (st', acts)" using run by simp
    then show ?thesis
    proof (cases rule: close_nodes)
      case same
      then show ?thesis by (intro keep) simp_all
    next
      case (del n i)
      have get: "map_get (nodes_of st') a = (if a = n then None else map_get (nodes_of st) a)" for a
        by (simp add: del(3))
      have "map_get (nodes_of st') a = Some i \<Longrightarrow> map_get (nodes_of st) a = Some i" for a i
        unfolding get by (cases "a = n") simp_all
      moreover have "wf_map (nodes_of st')" using inv by (simp add: ips_inv_def del(3))
      moreover have "pinnedIps st' = pinnedIps st" "virtualIpCounter st' = virtualIpCounter st" by (simp_all add: del(3))
      ultimately show ?thesis using ips_inv_sub [OF inv] by (metis option.inject)
    qed
  next
    case (Msg now ws m)
    show ?thesis
    proof (cases m)
      case (Register r)
      then show ?thesis using run Msg register_ips [OF inv pins] by simp
    next
      case (Topology_update c)
      then have "handleTopologyUpdate (sock_node st ws) c st = (st', acts)" using run Msg by simp
      then show ?thesis
      proof (cases rule: topology_nodes)
        case same
        then show ?thesis using inv by simp
      next
        case (upd n i)
        have "ips_inv st'" by (rule ips_inv_update [OF inv upd(1)]) (simp_all add: upd(2))
        moreover have "s_virtualIp j' = s_virtualIp j"
          if "map_get (nodes_of st) a = Some j" "map_get (nodes_of st') a = Some j'" for a j j'
          using that upd(1) by (cases "a = n") (simp add: upd(2), metis snode.select_convs(6) snode.surjective snode.update_convs(9), simp add: upd(2))
        ultimately show ?thesis by (simp add: upd(2))
      qed
    qed (use run Msg keep in simp_all)
  qed
qed

lemma srv_reach_ips: "srv_reach lookup st \<Longrightarrow> pins_apart st \<Longrightarrow> ips_inv st"
proof (induction rule: srv_reach.induct)
  case (start pins tok env)
  show ?case by (simp add: ips_inv_def new_SignallingServer_def)
next
  case (step st ev st' acts)
  have "pins_apart st" using srv_next_pins [OF step.hyps(3)] step.prems unfolding pins_apart_def by (metis order.strict_trans2)
  from srv_next_ips [OF step.IH [OF this] step.prems step.hyps(3)] show ?case by blast
qed

section \<open>The peer list of a client\<close>

text \<open>What a message does to the client's peer map.\<close>

fun pv :: "server_msg \<Rightarrow> (jsstring, peer) jsmap \<Rightarrow> (jsstring, peer) jsmap" where
  "pv (Peers ps) m = fold (\<lambda>p. map_put (p_nodeId p) p) ps m"
| "pv (Peer_join p) m = map_put (p_nodeId p) p m"
| "pv (Peer_leave n) m = map_del n m"
| "pv _ m = m"

lemma handlePeersList_peers: "c_peers (handlePeersList ps c) = fold (\<lambda>p. map_put (p_nodeId p) p) ps (c_peers c)"
  unfolding handlePeersList_def by (induction ps arbitrary: c) simp_all

lemma client_handle_peers: "c_peers (fst (client_handle m c)) = pv m (c_peers c)"
  by (cases m) (simp_all add: Let_def handlePeersList_peers handleExitNodesList_def handlePeerJoin_def handlePeerLeave_def)

lemma client_after_peers: "c_peers (client_after ms c) = fold pv ms (c_peers c)"
  unfolding client_after_def by (induction ms arbitrary: c) (simp_all add: client_handle_peers)

definition view :: "server_msg list \<Rightarrow> jsstring \<Rightarrow> peer option" where
  "view ms = map_get (fold pv ms [])"

lemma view_Nil [simp]: "view [] = (\<lambda>m. None)"
  by (simp add: view_def fun_eq_iff)

lemma view_snoc:
  "view (ms @ [Peer_join p]) = (view ms)(p_nodeId p \<mapsto> p)"
  "view (ms @ [Peer_leave n]) = (view ms)(n := None)"
  by (simp_all add: view_def fun_eq_iff)

definition quiet :: "server_msg \<Rightarrow> bool" where
  "quiet m \<longleftrightarrow> (\<forall>t. pv m t = t) \<and> (\<forall>ps. m \<noteq> Peers ps)"

lemma quiet_simps [simp]:
  "quiet (Registered a b)" "quiet (Server_error e)" "quiet (Signal_from f t)" "quiet (Signal_error t)"
  "quiet (Exit_nodes ps)" "quiet (Topology x)" "quiet (Pong now)"
  by (simp_all add: quiet_def)

lemma view_quiet: "list_all quiet qs \<Longrightarrow> view (ms @ qs) = view ms"
proof (induction qs arbitrary: ms)
  case (Cons q qs)
  then have "view (ms @ q # qs) = view (ms @ [q])" using Cons.IH [of "ms @ [q]"] by simp
  with Cons.prems show ?case by (simp add: view_def quiet_def)
qed simp

lemma fold_put_peers:
  "map_get (fold (\<lambda>p. map_put (p_nodeId p) p) ps t) m =
     (case map_get (rev (map (\<lambda>p. (p_nodeId p, p)) ps)) m of Some p \<Rightarrow> Some p | None \<Rightarrow> map_get t m)"
  by (induction ps arbitrary: t) (simp_all add: map_add_def split: option.split)

text \<open>The list the server sends: every node but one, with its current information.\<close>

lemma peers_list_get:
  assumes "wf_map ns"
  shows "map_get (rev (map (\<lambda>p. (p_nodeId p, p)) (map (\<lambda>(id, i). peer_info id i) (filter (\<lambda>(id, i). Some id \<noteq> ex) ns)))) m =
    (if Some m = ex then None else map_option (peer_info m) (map_get ns m))"
proof -
  define xs where "xs = map (\<lambda>(id, i). (id, peer_info id i)) (filter (\<lambda>(id, i). Some id \<noteq> ex) ns)"
  have xs: "map (\<lambda>p. (p_nodeId p, p)) (map (\<lambda>(id, i). peer_info id i) (filter (\<lambda>(id, i). Some id \<noteq> ex) ns)) = xs"
    by (simp add: xs_def peer_info_def case_prod_unfold)
  have "map fst xs = map fst (filter (\<lambda>(id, i). Some id \<noteq> ex) ns)" by (simp add: xs_def case_prod_unfold)
  moreover have "distinct (map fst (filter P ns))" for P
    using assms by (simp add: wf_map_def distinct_map_filter)
  ultimately have dist: "distinct (map fst xs)" by simp
  have "map_get (rev xs) m = map_get xs m"
    using dist by (metis distinct_map map_of_inject_set distinct_rev rev_map set_rev)
  moreover have "map_get xs m = (if Some m = ex then None else map_option (peer_info m) (map_get ns m))"
    unfolding xs_def using assms
  proof (induction ns)
    case (Cons x ns)
    then show ?case by (cases x; cases "Some m = ex"; cases "m = fst x") (simp_all add: wf_map_def)
  qed simp
  ultimately show ?thesis unfolding xs by simp
qed

lemma view_peers:
  assumes "wf_map ns"
  shows "view (ms @ [Peers (map (\<lambda>(id, i). peer_info id i) (filter (\<lambda>(id, i). Some id \<noteq> ex) ns))]) m =
    (case (if Some m = ex then None else map_option (peer_info m) (map_get ns m)) of Some p \<Rightarrow> Some p | None \<Rightarrow> view ms m)"
proof -
  have app: "view (ms @ [Peers qs]) m = map_get (fold (\<lambda>p. map_put (p_nodeId p) p) qs (fold pv ms [])) m" for qs
    by (simp add: view_def)
  show ?thesis unfolding app fold_put_peers peers_list_get [OF assms] by (simp only: view_def)
qed

text \<open>
  The invariant: an open registered socket is the current socket of its node; its client knows only
  nodes that are registered now, with their current information, and all of them once it received
  the peer list.
\<close>

definition got_peers :: "server_msg list \<Rightarrow> bool" where
  "got_peers ms \<longleftrightarrow> (\<exists>ps. Peers ps \<in> set ms)"

definition vok :: "'k option \<Rightarrow> ('k \<Rightarrow> 'v option) \<Rightarrow> ('k \<Rightarrow> 'v option) \<Rightarrow> bool \<Rightarrow> bool" where
  "vok own R V g =
     (case own of
        None \<Rightarrow> \<not> g \<and> V = (\<lambda>m. None)
      | Some k \<Rightarrow> (\<forall>m. V m = None \<or> m \<noteq> k \<and> V m = R m) \<and> (g \<longrightarrow> (\<forall>m. m \<noteq> k \<longrightarrow> V m = R m)))"

lemma vok_None: "vok None R V g \<longleftrightarrow> \<not> g \<and> V = (\<lambda>m. None)"
  by (simp add: vok_def)

lemma vok_empty: "vok own R (\<lambda>m. None) False"
  by (cases own) (simp_all add: vok_def)

lemma vok_Some:
  "vok (Some k) R V g \<longleftrightarrow> (\<forall>m. V m = None \<or> m \<noteq> k \<and> V m = R m) \<and> (g \<longrightarrow> (\<forall>m. m \<noteq> k \<longrightarrow> V m = R m))"
  by (simp add: vok_def)

lemma vok_upd:
  assumes ok: "vok (Some k) R V g" and n: "n \<noteq> k"
  shows "vok (Some k) (R(n := x)) (V(n := x)) g"
  unfolding vok_Some
proof (intro conjI allI impI)
  fix m
  show "(V(n := x)) m = None \<or> m \<noteq> k \<and> (V(n := x)) m = (R(n := x)) m"
    using ok n unfolding vok_Some by (cases "m = n") simp_all
  assume "g" "m \<noteq> k"
  then show "(V(n := x)) m = (R(n := x)) m" using ok unfolding vok_Some by (cases "m = n") simp_all
qed

lemma vok_own:
  assumes ok: "vok (Some k) R V g"
  shows "vok (Some k) (R(k := x)) V g"
  unfolding vok_Some
proof (intro conjI allI impI)
  fix m
  show "V m = None \<or> m \<noteq> k \<and> V m = (R(k := x)) m" using ok unfolding vok_Some by (metis fun_upd_other)
  assume "g" "m \<noteq> k"
  then show "V m = (R(k := x)) m" using ok unfolding vok_Some by simp
qed

lemma vok_peers:
  assumes ok: "vok (Some k) R V g" and V': "\<And>m. V' m = (case (if m = k then None else R m) of Some p \<Rightarrow> Some p | None \<Rightarrow> V m)"
  shows "vok (Some k) R V' True"
proof -
  have k: "V k = None" using ok unfolding vok_Some by blast
  have other: "V' m = R m" if "m \<noteq> k" for m
    using ok that unfolding vok_Some V' by (cases "R m") (simp, metis, simp)
  show ?thesis unfolding vok_Some using other k by (metis V' option.simps(4))
qed

definition roster :: "sserver \<Rightarrow> jsstring \<Rightarrow> peer option" where
  "roster st m = map_option (peer_info m) (map_get (nodes_of st) m)"

definition view_ok :: "sserver \<Rightarrow> nat \<Rightarrow> server_msg list \<Rightarrow> bool" where
  "view_ok st w ms \<longleftrightarrow> vok (sock_node st w) (roster st) (view ms) (got_peers ms)"

lemma roster_put: "nodes_of st' = map_put n node (nodes_of st) \<Longrightarrow> roster st' = (roster st)(n := Some (peer_info n node))"
  by (simp add: roster_def fun_eq_iff)

lemma roster_del: "nodes_of st' = map_del n (nodes_of st) \<Longrightarrow> roster st' = (roster st)(n := None)"
  by (simp add: roster_def fun_eq_iff)

definition sock_inv :: "sserver \<Rightarrow> bool" where
  "sock_inv st \<longleftrightarrow> wf_map (nodes_of st)
     \<and> (\<forall>a i. map_get (nodes_of st) a = Some i \<longrightarrow> sock_node st (s_ws i) = Some a)
     \<and> (\<forall>w n. is_open st w \<longrightarrow> sock_node st w = Some n \<longrightarrow> (\<exists>i. map_get (nodes_of st) n = Some i \<and> s_ws i = w))"

definition log_inv :: "sserver \<Rightarrow> (nat \<Rightarrow> server_msg list) \<Rightarrow> bool" where
  "log_inv st log \<longleftrightarrow> sock_inv st \<and> (\<forall>w. map_get (socks st) w = None \<longrightarrow> log w = []) \<and> (\<forall>w. is_open st w \<longrightarrow> view_ok st w (log w))"

lemma sock_invD:
  assumes "sock_inv st"
  shows sock_inv_wf: "wf_map (nodes_of st)"
    and sock_inv_node: "map_get (nodes_of st) a = Some i \<Longrightarrow> sock_node st (s_ws i) = Some a"
    and sock_inv_cur: "is_open st w \<Longrightarrow> sock_node st w = Some n \<Longrightarrow> \<exists>i. map_get (nodes_of st) n = Some i \<and> s_ws i = w"
    and sock_inv_inj: "\<forall>a b i j. map_get (nodes_of st) a = Some i \<longrightarrow> map_get (nodes_of st) b = Some j \<longrightarrow> s_ws i = s_ws j \<longrightarrow> a = b"
proof -
  show "wf_map (nodes_of st)" "map_get (nodes_of st) a = Some i \<Longrightarrow> sock_node st (s_ws i) = Some a"
    "is_open st w \<Longrightarrow> sock_node st w = Some n \<Longrightarrow> \<exists>i. map_get (nodes_of st) n = Some i \<and> s_ws i = w"
    using assms unfolding sock_inv_def by blast+
  show "\<forall>a b i j. map_get (nodes_of st) a = Some i \<longrightarrow> map_get (nodes_of st) b = Some j \<longrightarrow> s_ws i = s_ws j \<longrightarrow> a = b"
    using assms unfolding sock_inv_def by (metis option.inject)
qed

lemma got_peers_append [simp]: "got_peers (xs @ ys) \<longleftrightarrow> got_peers xs \<or> got_peers ys"
  by (auto simp: got_peers_def)

lemma got_peers_quiet: "list_all quiet qs \<Longrightarrow> \<not> got_peers qs"
  by (auto simp: got_peers_def list_all_iff quiet_def)

lemma view_ok_quiet:
  assumes "view_ok st w ms" "list_all quiet qs" "sock_node st' w = sock_node st w" "roster st' = roster st"
  shows "view_ok st' w (ms @ qs)"
  using assms(1) unfolding view_ok_def view_quiet [OF assms(2)] assms(3,4)
  by (simp add: got_peers_quiet [OF assms(2)])

text \<open>A step that changes no peer information and sends nothing about peers.\<close>

lemma log_inv_quiet:
  assumes inv: "log_inv st log"
    and nodes: "\<And>a. map_option (\<lambda>i. (s_ws i, peer_info a i)) (map_get (nodes_of st') a) = map_option (\<lambda>i. (s_ws i, peer_info a i)) (map_get (nodes_of st) a)"
    and wf: "wf_map (nodes_of st')"
    and sn: "\<And>w. sock_node st' w = sock_node st w" and op: "\<And>w. is_open st' w \<Longrightarrow> is_open st w"
    and known: "\<And>w. map_get (socks st') w = None \<Longrightarrow> map_get (socks st) w = None \<and> sent_msgs w acts = []"
    and q: "\<And>w. list_all quiet (sent_msgs w acts)"
  shows "log_inv st' (\<lambda>w. log w @ sent_msgs w acts)"
proof -
  have si: "sock_inv st" using inv by (simp add: log_inv_def)
  have get: "map_get (nodes_of st') a = Some i' \<Longrightarrow> \<exists>i. map_get (nodes_of st) a = Some i \<and> s_ws i = s_ws i'" for a i'
    using nodes [of a] by (cases "map_get (nodes_of st) a") simp_all
  have get': "map_get (nodes_of st) a = Some i \<Longrightarrow> \<exists>i'. map_get (nodes_of st') a = Some i' \<and> s_ws i' = s_ws i" for a i
    using nodes [of a] by (cases "map_get (nodes_of st') a") simp_all
  have pi: "roster st' = roster st"
  proof
    fix m show "roster st' m = roster st m"
      using arg_cong [OF nodes [of m], of "map_option snd"] by (simp add: roster_def option.map_comp comp_def)
  qed
  have "sock_inv st'"
    unfolding sock_inv_def sn
  proof (intro conjI allI impI)
    show "sock_node st (s_ws i) = Some a" if "map_get (nodes_of st') a = Some i" for a i
      using get [OF that] sock_inv_node [OF si] by metis
    show "\<exists>i. map_get (nodes_of st') n = Some i \<and> s_ws i = w" if "is_open st' w" "sock_node st w = Some n" for w n
      using sock_inv_cur [OF si op [OF that(1)] that(2)] get' by metis
  qed (rule wf)
  moreover have "view_ok st' w (log w @ sent_msgs w acts)" if "is_open st' w" for w
    using inv op [OF that] by (intro view_ok_quiet [OF _ q sn pi]) (simp add: log_inv_def)
  moreover have "log w @ sent_msgs w acts = []" if "map_get (socks st') w = None" for w
    using known [OF that] inv by (simp add: log_inv_def)
  ultimately show ?thesis unfolding log_inv_def by blast
qed

text \<open>Registration of \<open>n\<close> on socket \<open>ws\<close>: the effect that both branches have.\<close>

definition registers :: "nat \<Rightarrow> jsstring \<Rightarrow> snode \<Rightarrow> sserver \<Rightarrow> sserver \<Rightarrow> server_action list \<Rightarrow> bool" where
  "registers ws n node st st' acts \<longleftrightarrow>
     nodes_of st' = map_put n node (nodes_of st) \<and> s_ws node = ws
     \<and> (\<forall>v. sock_node st' v = (if v = ws then Some n else sock_node st v))
     \<and> (\<forall>v. is_open st' v \<longleftrightarrow> is_open st v \<and> (v = ws \<or> (\<forall>ex. map_get (nodes_of st) n = Some ex \<longrightarrow> s_ws ex \<noteq> v)))
     \<and> (\<forall>v. map_get (socks st') v = None \<longleftrightarrow> map_get (socks st) v = None)
     \<and> (\<forall>v. \<exists>qs. list_all quiet qs \<and> sent_msgs v acts = qs @ sent_msgs v (broadcastPeerJoin st' n node)
           \<and> (\<not> is_open st' v \<longrightarrow> qs = []))"

lemma re_register_registers:
  assumes run: "re_register ws n pk m ex st = (st', acts)" and ex: "map_get (nodes_of st) n = Some ex"
    and known: "map_get (socks st) ws \<noteq> None"
  shows "\<exists>node. registers ws n node st st' acts"
proof -
  define old where "old = (s_ws ex \<noteq> ws \<and> is_open st (s_ws ex))"
  define st1 where "st1 = (if old then shut (s_ws ex) st else st)"
  define node where "node = ex\<lparr>s_ws := ws, s_publicKey := pk, s_role := resolved_role m,
     s_name := (case truthy (r_name m) of Some n \<Rightarrow> Some n | None \<Rightarrow> s_name ex)\<rparr>"
  have st1: "nodes_of st1 = nodes_of st" "\<And>v. sock_node st1 v = sock_node st v" "map_get (socks st1) ws \<noteq> None"
    "\<And>v. map_get (socks st1) v = None \<longleftrightarrow> map_get (socks st) v = None"
    "\<And>v. is_open st1 v \<longleftrightarrow> is_open st v \<and> \<not> (old \<and> v = s_ws ex)"
    using known by (simp_all add: st1_def conj_commute del: not_None_eq)
  define S where "S = setNodeId ws n (st1\<lparr>nodes_of := map_put n node (nodes_of st1)\<rparr>)"
  have eq: "(st', acts) = (S, (if old then [Terminate (s_ws ex)] else []) @ sendRegistered S ws n (s_virtualIp ex) @ broadcastPeerJoin S n node)"
    unfolding run [symmetric] re_register_def Let_def is_open_def [symmetric] old_def [symmetric] st1_def [symmetric] node_def [symmetric] S_def by (rule refl)
  have st': "st' = setNodeId ws n (st1\<lparr>nodes_of := map_put n node (nodes_of st1)\<rparr>)"
    and acts: "acts = (if old then [Terminate (s_ws ex)] else []) @ sendRegistered st' ws n (s_virtualIp ex) @ broadcastPeerJoin st' n node"
    using eq by (simp_all add: S_def)
  have keep: "map_get (socks (setNodeId ws n S)) v = None \<longleftrightarrow> map_get (socks S) v = None" for S v
    by (simp add: setNodeId_def split: option.split)
  have "registers ws n node st st' acts"
    unfolding registers_def
  proof (intro conjI allI)
    show "nodes_of st' = map_put n node (nodes_of st)" "s_ws node = ws" by (simp_all add: st' st1 node_def)
    show "sock_node st' v = (if v = ws then Some n else sock_node st v)" for v using st1 by (simp add: st')
    show "is_open st' v \<longleftrightarrow> is_open st v \<and> (v = ws \<or> (\<forall>e. map_get (nodes_of st) n = Some e \<longrightarrow> s_ws e \<noteq> v))" for v
      using ex by (cases "v = ws"; cases "v = s_ws ex") (simp_all add: st' st1(5) old_def)
    show "map_get (socks st') v = None \<longleftrightarrow> map_get (socks st) v = None" for v by (simp add: st' keep st1)
    show "\<exists>qs. list_all quiet qs \<and> sent_msgs v acts = qs @ sent_msgs v (broadcastPeerJoin st' n node)
        \<and> (\<not> is_open st' v \<longrightarrow> qs = [])" for v
      by (intro exI [of _ "sent_msgs v (sendRegistered st' ws n (s_virtualIp ex))"]) (simp add: acts sendRegistered_def)
  qed
  then show ?thesis by blast
qed

lemma register_new_registers:
  assumes run: "register_new lookup now ws n pk m st = (st', acts)" and new: "map_get (nodes_of st) n = None"
    and known: "map_get (socks st) ws \<noteq> None"
  shows "\<exists>node. registers ws n node st st' acts"
proof -
  obtain ip k where ip: "assign_ip n st = (ip, k)" by (cases "assign_ip n st")
  define ext where "ext = (case map_get (socks st) ws of Some s \<Rightarrow> or_null (remoteAddress s) | None \<Rightarrow> None)"
  define node where "node = \<lparr>s_ws = ws, s_nodeId = n, s_name = truthy (r_name m), s_publicKey = pk,
      s_role = resolved_role m, s_virtualIp = ip, s_externalIp = ext,
      s_geo = (case ext of Some a \<Rightarrow> lookup a | None \<Rightarrow> None), connectedPeers = [], registeredAt = now\<rparr>"
  define S where "S = setNodeId ws n (st\<lparr>virtualIpCounter := k, nodes_of := map_put n node (nodes_of st)\<rparr>)"
  have eq: "(st', acts) = (S, sendRegistered S ws n ip @ broadcastPeerJoin S n node)"
    unfolding run [symmetric] register_new_def Let_def ip prod.case ext_def [symmetric] node_def [symmetric] S_def by (rule refl)
  have st': "st' = setNodeId ws n (st\<lparr>virtualIpCounter := k, nodes_of := map_put n node (nodes_of st)\<rparr>)"
    and acts: "acts = sendRegistered st' ws n ip @ broadcastPeerJoin st' n node"
    using eq by (simp_all add: S_def)
  have keep: "map_get (socks (setNodeId ws n S)) v = None \<longleftrightarrow> map_get (socks S) v = None" for S v
    by (simp add: setNodeId_def split: option.split)
  have "registers ws n node st st' acts"
    unfolding registers_def
  proof (intro conjI allI)
    show "nodes_of st' = map_put n node (nodes_of st)" "s_ws node = ws" by (simp_all add: st' node_def)
    show "sock_node st' v = (if v = ws then Some n else sock_node st v)" for v using known by (simp add: st')
    show "is_open st' v \<longleftrightarrow> is_open st v \<and> (v = ws \<or> (\<forall>e. map_get (nodes_of st) n = Some e \<longrightarrow> s_ws e \<noteq> v))" for v
      using new by (simp add: st')
    show "map_get (socks st') v = None \<longleftrightarrow> map_get (socks st) v = None" for v by (simp add: st' keep)
    show "\<exists>qs. list_all quiet qs \<and> sent_msgs v acts = qs @ sent_msgs v (broadcastPeerJoin st' n node)
        \<and> (\<not> is_open st' v \<longrightarrow> qs = [])" for v
      by (intro exI [of _ "sent_msgs v (sendRegistered st' ws n ip)"]) (simp add: acts sendRegistered_def)
  qed
  then show ?thesis by blast
qed

lemma registers_sock_inv:
  assumes si: "sock_inv st" and reg: "registers ws n node st st' acts" and own: "sock_node st ws = None \<or> sock_node st ws = Some n"
  shows "sock_inv st'"
  unfolding sock_inv_def
proof (intro conjI allI impI)
  have get: "map_get (nodes_of st') a = (if a = n then Some node else map_get (nodes_of st) a)" for a
    using reg by (simp add: registers_def)
  have ws: "s_ws node = ws" and sn: "\<And>v. sock_node st' v = (if v = ws then Some n else sock_node st v)"
    and op: "\<And>v. is_open st' v \<longleftrightarrow> is_open st v \<and> (v = ws \<or> (\<forall>ex. map_get (nodes_of st) n = Some ex \<longrightarrow> s_ws ex \<noteq> v))"
    using reg unfolding registers_def by blast+
  show "wf_map (nodes_of st')" using sock_inv_wf [OF si] reg by (simp add: registers_def)
  show "sock_node st' (s_ws i) = Some a" if a: "map_get (nodes_of st') a = Some i" for a i
  proof (cases "a = n")
    case True
    then show ?thesis using a ws unfolding get sn by simp
  next
    case False
    then have "sock_node st (s_ws i) = Some a" using a sock_inv_node [OF si] unfolding get by simp
    moreover from this have "s_ws i \<noteq> ws" using own False by (metis option.distinct(1) option.inject)
    ultimately show ?thesis unfolding sn by simp
  qed
  show "\<exists>i. map_get (nodes_of st') k = Some i \<and> s_ws i = w" if w: "is_open st' w" "sock_node st' w = Some k" for w k
  proof (cases "w = ws")
    case True
    then show ?thesis using w(2) ws unfolding get sn by simp
  next
    case False
    then obtain i where i: "map_get (nodes_of st) k = Some i" "s_ws i = w"
      using w sock_inv_cur [OF si] unfolding op sn by (metis (full_types))
    then have "k \<noteq> n" using w(1) False unfolding op by metis
    with i show ?thesis unfolding get by simp
  qed
qed

lemma join_sent:
  assumes si: "sock_inv st'" and n: "map_get (nodes_of st') n = Some node" and w: "is_open st' w"
  shows "sent_msgs w (broadcastPeerJoin st' n node) =
    (if sock_node st' w = None \<or> sock_node st' w = Some n then [] else [Peer_join (peer_info n node)])"
proof -
  have "(\<exists>id i. id \<noteq> n \<and> map_get (nodes_of st') id = Some i \<and> s_ws i = w) \<longleftrightarrow>
      \<not> (sock_node st' w = None \<or> sock_node st' w = Some n)"
    using sock_inv_node [OF si] sock_inv_cur [OF si w] by (metis option.distinct(1) option.exhaust option.inject)
  then show ?thesis
    unfolding broadcastPeerJoin_def broadcast_sent [OF sock_inv_wf [OF si] sock_inv_inj [OF si]] using w by simp
qed

lemma registers_log_inv:
  assumes inv: "log_inv st log" and reg: "registers ws n node st st' acts" and own: "sock_node st ws = None \<or> sock_node st ws = Some n"
    and known: "map_get (socks st) ws \<noteq> None"
  shows "log_inv st' (\<lambda>w. log w @ sent_msgs w acts)"
proof -
  have si: "sock_inv st" using inv by (simp add: log_inv_def)
  note si' = registers_sock_inv [OF si reg own]
  have get: "map_get (nodes_of st') a = (if a = n then Some node else map_get (nodes_of st) a)" for a
    using reg by (simp add: registers_def)
  have sn: "sock_node st' v = (if v = ws then Some n else sock_node st v)"
    and op: "is_open st' v \<longleftrightarrow> is_open st v \<and> (v = ws \<or> (\<forall>ex. map_get (nodes_of st) n = Some ex \<longrightarrow> s_ws ex \<noteq> v))"
    and sk: "map_get (socks st') v = None \<longleftrightarrow> map_get (socks st) v = None"
    and out: "\<exists>qs. list_all quiet qs \<and> sent_msgs v acts = qs @ sent_msgs v (broadcastPeerJoin st' n node) \<and> (\<not> is_open st' v \<longrightarrow> qs = [])" for v
    using reg unfolding registers_def by blast+
  have node: "map_get (nodes_of st') n = Some node" by (simp add: get)
  have R: "roster st' = (roster st)(n := Some (peer_info n node))" by (rule roster_put) (use reg in \<open>simp add: registers_def\<close>)
  have "view_ok st' w (log w @ sent_msgs w acts)" if w: "is_open st' w" for w
  proof -
    obtain qs where qs: "list_all quiet qs" "sent_msgs w acts = qs @ sent_msgs w (broadcastPeerJoin st' n node)" using out by blast
    have ok: "vok (sock_node st w) (roster st) (view (log w)) (got_peers (log w))"
      using inv w unfolding log_inv_def op view_ok_def by blast
    note quiet = view_quiet [OF qs(1)] got_peers_quiet [OF qs(1)]
    show ?thesis
    proof (cases "sock_node st w")
      case None
      have "sock_node st' w = None \<or> sock_node st' w = Some n" unfolding sn using None by simp
      then have "sent_msgs w acts = qs" using qs(2) join_sent [OF si' node w] by simp
      then show ?thesis
        using ok [unfolded None vok_None] vok_empty unfolding view_ok_def by (simp add: quiet)
    next
      case (Some k)
      have cur: "\<exists>i. map_get (nodes_of st) k = Some i \<and> s_ws i = w" using sock_inv_cur [OF si _ Some] w unfolding op by blast
      show ?thesis
      proof (cases "k = n")
        case True
        then have "w = ws" using cur w unfolding op by metis
        then have own': "sock_node st' w = Some n" using sn by simp
        then have "sent_msgs w acts = qs" using qs(2) join_sent [OF si' node w] by simp
        then show ?thesis
          using vok_own [OF ok [unfolded Some True]] unfolding view_ok_def own' R by (simp add: quiet)
      next
        case False
        then have "w \<noteq> ws" using Some own by (metis option.distinct(1) option.inject)
        then have sn': "sock_node st' w = Some k" using Some unfolding sn by simp
        then have msgs: "log w @ sent_msgs w acts = (log w @ qs) @ [Peer_join (peer_info n node)]"
          using qs(2) join_sent [OF si' node w] False by simp
        have v: "view (log w @ sent_msgs w acts) = (view (log w))(n := Some (peer_info n node))"
          unfolding msgs view_snoc quiet by (simp add: peer_info_def)
        have g: "got_peers (log w @ sent_msgs w acts) = got_peers (log w)"
          unfolding msgs using quiet by (simp add: got_peers_def)
        show ?thesis
          unfolding view_ok_def v g sn' R by (rule vok_upd [OF ok [unfolded Some]]) (use False in simp)
      qed
    qed
  qed
  moreover have "log w @ sent_msgs w acts = []" if "map_get (socks st') w = None" for w
  proof -
    have none: "map_get (socks st) w = None" using that sk by simp
    then have "\<not> is_open st' w" using that by (simp add: is_open_def)
    moreover from this have "sent_msgs w (broadcastPeerJoin st' n node) = []"
      unfolding broadcastPeerJoin_def broadcast_sent [OF sock_inv_wf [OF si'] sock_inv_inj [OF si']] by simp
    ultimately show ?thesis using out [of w] none inv unfolding log_inv_def by simp
  qed
  ultimately show ?thesis using si' unfolding log_inv_def by blast
qed

lemma log_inv_parts:
  assumes "log_inv st log"
  shows log_inv_sock: "sock_inv st" and log_inv_unknown: "map_get (socks st) w = None \<Longrightarrow> log w = []"
    and log_inv_view: "is_open st w \<Longrightarrow> view_ok st w (log w)"
  using assms unfolding log_inv_def by blast+

text \<open>A step that leaves the state alone and sends nothing about peers.\<close>

lemma log_inv_same:
  assumes inv: "log_inv st log" and q: "\<And>w. list_all quiet (sent_msgs w acts)"
    and open_only: "\<And>w. \<not> is_open st w \<Longrightarrow> sent_msgs w acts = []"
  shows "log_inv st (\<lambda>w. log w @ sent_msgs w acts)"
proof (rule log_inv_quiet [OF inv _ _ _ _ _ q])
  show "map_get (socks st) w = None \<and> sent_msgs w acts = []" if "map_get (socks st) w = None" for w
    using that open_only [of w] by (simp add: is_open_def)
qed (use sock_inv_wf [OF log_inv_sock [OF inv]] in simp_all)

lemma log_inv_shut:
  assumes inv: "log_inv st log" and q: "\<And>w. list_all quiet (sent_msgs w acts)"
    and open_only: "\<And>w. \<not> is_open st w \<Longrightarrow> sent_msgs w acts = []"
  shows "log_inv (shut ws st) (\<lambda>w. log w @ sent_msgs w acts)"
proof (rule log_inv_quiet [OF inv _ _ _ _ _ q])
  show "map_get (socks st) w = None \<and> sent_msgs w acts = []" if "map_get (socks (shut ws st)) w = None" for w
    using that open_only [of w] by (simp add: is_open_def)
qed (use sock_inv_wf [OF log_inv_sock [OF inv]] in simp_all)

lemma broadcastTopology_sent:
  "list_all quiet (sent_msgs w (broadcastTopology st))" "\<not> is_open st w \<Longrightarrow> sent_msgs w (broadcastTopology st) = []"
proof -
  have "list_all quiet (sent_msgs w (concat (map (\<lambda>(id, i). wsSend st (s_ws i) (Topology t)) ns)))
      \<and> (\<not> is_open st w \<longrightarrow> sent_msgs w (concat (map (\<lambda>(id, i). wsSend st (s_ws i) (Topology t)) ns)) = [])" for ns t
    by (induction ns) (simp_all add: case_prod_unfold)
  then show "list_all quiet (sent_msgs w (broadcastTopology st))" "\<not> is_open st w \<Longrightarrow> sent_msgs w (broadcastTopology st) = []"
    unfolding broadcastTopology_def by blast+
qed

lemma topology_log_inv:
  assumes inv: "log_inv st log" and run: "handleTopologyUpdate f c st = (st', acts)"
  shows "log_inv st' (\<lambda>w. log w @ sent_msgs w acts)"
proof (cases f)
  case None
  then have "st' = st" "acts = []" using run by (simp_all add: handleTopologyUpdate_def)
  then show ?thesis using inv by simp
next
  case (Some n)
  show ?thesis
  proof (cases "map_get (nodes_of st) n")
    case None
    then have "st' = st" "acts = []" using run Some by (simp_all add: handleTopologyUpdate_def)
    then show ?thesis using inv by simp
  next
    case i: (Some i)
    define S where "S = st\<lparr>nodes_of := map_put n (i\<lparr>connectedPeers := fold set_add c []\<rparr>) (nodes_of st)\<rparr>"
    have "handleTopologyUpdate f c st = (S, broadcastTopology S)"
      using Some i by (simp add: handleTopologyUpdate_def Let_def S_def)
    then have eq: "st' = S" "acts = broadcastTopology S" using run by simp_all
    have s: "socks S = socks st" and g: "\<And>a. map_get (nodes_of S) a = (if a = n then Some (i\<lparr>connectedPeers := fold set_add c []\<rparr>) else map_get (nodes_of st) a)"
      by (simp_all add: S_def)
    have o: "is_open S w = is_open st w" "sock_node S w = sock_node st w" for w by (simp_all add: S_def)
    show ?thesis unfolding eq
    proof (rule log_inv_quiet [OF inv])
      show "wf_map (nodes_of S)" using sock_inv_wf [OF log_inv_sock [OF inv]] by (simp add: S_def)
      show "map_get (socks st) w = None \<and> sent_msgs w (broadcastTopology S) = []" if "map_get (socks S) w = None" for w
        using that s broadcastTopology_sent(2) [where st=S and w=w] by (simp add: is_open_def)
      show "map_option (\<lambda>i. (s_ws i, peer_info a i)) (map_get (nodes_of S) a) = map_option (\<lambda>i. (s_ws i, peer_info a i)) (map_get (nodes_of st) a)" for a
        unfolding g using i by (cases "a = n") (simp_all add: peer_info_def)
    qed (use o broadcastTopology_sent(1) in simp_all)
  qed
qed

lemma leave_log_inv:
  assumes inv: "log_inv st log" and n: "map_get (nodes_of st) n = Some i" "\<not> is_open st (s_ws i)"
    and st': "st' = st\<lparr>nodes_of := map_del n (nodes_of st)\<rparr>"
  shows "log_inv st' (\<lambda>w. log w @ sent_msgs w (broadcastPeerLeave st' n))"
proof -
  note si = log_inv_sock [OF inv]
  have get: "map_get (nodes_of st') a = (if a = n then None else map_get (nodes_of st) a)" for a by (simp add: st')
  have keep: "is_open st' w = is_open st w" "sock_node st' w = sock_node st w" "socks st' = socks st" for w by (simp_all add: st')
  have other: "k \<noteq> n" if "is_open st w" "sock_node st w = Some k" for w k
    using sock_inv_cur [OF si that] n that(1) by (metis option.inject)
  have si': "sock_inv st'"
    unfolding sock_inv_def keep
  proof (intro conjI allI impI)
    show "wf_map (nodes_of st')" using sock_inv_wf [OF si] by (simp add: st')
    show "sock_node st (s_ws j) = Some a" if "map_get (nodes_of st') a = Some j" for a j
      using that sock_inv_node [OF si] unfolding get by (metis option.distinct(1))
    show "\<exists>j. map_get (nodes_of st') k = Some j \<and> s_ws j = w" if "is_open st w" "sock_node st w = Some k" for w k
      using sock_inv_cur [OF si that] other [OF that] unfolding get by simp
  qed
  have sent: "sent_msgs w (broadcastPeerLeave st' n) = (if is_open st w \<and> sock_node st w \<noteq> None then [Peer_leave n] else [])" for w
  proof -
    have b: "broadcastPeerLeave st' n = concat (map (\<lambda>(id, i). if id \<noteq> n then wsSend st' (s_ws i) (Peer_leave n) else []) (nodes_of st'))"
      unfolding broadcastPeerLeave_def by (intro arg_cong [where f=concat] map_cong) (simp_all add: case_prod_unfold)
    have "(\<exists>id i. id \<noteq> n \<and> map_get (nodes_of st') id = Some i \<and> s_ws i = w) \<longleftrightarrow> sock_node st w \<noteq> None" if w: "is_open st w"
      using sock_inv_node [OF si', unfolded keep] sock_inv_cur [OF si', unfolded keep, OF w] other [OF w]
      by (metis option.distinct(1) option.exhaust)
    then show ?thesis
      unfolding b broadcast_sent [OF sock_inv_wf [OF si'] sock_inv_inj [OF si']] keep by (cases "is_open st w") simp_all
  qed
  have "view_ok st' w (log w @ sent_msgs w (broadcastPeerLeave st' n))" if w: "is_open st' w" for w
  proof -
    have w': "is_open st w" using w keep by simp
    note ok = log_inv_view [OF inv w', unfolded view_ok_def]
    have R: "roster st' = (roster st)(n := None)" by (rule roster_del) (simp add: st')
    show ?thesis
    proof (cases "sock_node st w")
      case None
      then show ?thesis using ok unfolding view_ok_def keep sent by (simp add: vok_None)
    next
      case (Some k)
      have g: "got_peers (log w @ [Peer_leave n]) = got_peers (log w)" by (simp add: got_peers_def)
      have "vok (Some k) ((roster st)(n := None)) ((view (log w))(n := None)) (got_peers (log w))"
        by (rule vok_upd [OF ok [unfolded Some]]) (use other [OF w' Some] in simp)
      then show ?thesis unfolding view_ok_def keep sent R Some using w' by (simp add: view_snoc g del: got_peers_append)
    qed
  qed
  moreover have "log w @ sent_msgs w (broadcastPeerLeave st' n) = []" if "map_get (socks st') w = None" for w
    using that log_inv_unknown [OF inv] unfolding keep sent by (simp add: is_open_def)
  ultimately show ?thesis using si' unfolding log_inv_def by blast
qed

lemma close_log_inv:
  assumes inv: "log_inv st log" and run: "handleWsClose ws (shut ws st) = (st', acts)"
  shows "log_inv st' (\<lambda>w. log w @ sent_msgs w acts)"
proof -
  have inv1: "log_inv (shut ws st) log" using log_inv_shut [OF inv, of "[]" ws] by simp
  show ?thesis using run
  proof (cases rule: close_nodes)
    case same
    then show ?thesis using inv1 by simp
  next
    case (del n i)
    have "map_get (nodes_of (shut ws st)) n = Some i"
      using del(1) sock_inv_wf [OF log_inv_sock [OF inv1]] by (simp add: wf_map_get_iff)
    moreover have "\<not> is_open (shut ws st) (s_ws i)" using del(2) by simp
    ultimately show ?thesis unfolding del(4) by (rule leave_log_inv [OF inv1 _ _ del(3)])
  qed
qed

lemma open_log_inv:
  assumes inv: "log_inv st log" and new: "map_get (socks st) ws = None"
  shows "log_inv (handleConnection ws addr st) log"
proof -
  let ?S = "handleConnection ws addr st"
  note si = log_inv_sock [OF inv]
  have nodes: "nodes_of ?S = nodes_of st" and R: "roster ?S = roster st" by (simp_all add: handleConnection_def roster_def fun_eq_iff)
  have ow: "is_open ?S w = (w = ws \<or> is_open st w)" for w by (simp add: handleConnection_def is_open_def)
  have none: "sock_node st ws = None" using new by (simp add: sock_node_def)
  have sw: "sock_node ?S w = sock_node st w" for w
    using none by (simp add: handleConnection_def sock_node_def)
  have "sock_inv ?S"
    unfolding sock_inv_def nodes sw
  proof (intro conjI allI impI)
    show "wf_map (nodes_of st)" by (rule sock_inv_wf [OF si])
    show "sock_node st (s_ws j) = Some a" if "map_get (nodes_of st) a = Some j" for a j by (rule sock_inv_node [OF si that])
    show "\<exists>j. map_get (nodes_of st) k = Some j \<and> s_ws j = w" if "is_open ?S w" "sock_node st w = Some k" for w k
      using that none sock_inv_cur [OF si _ that(2)] unfolding ow by (metis option.distinct(1))
  qed
  moreover have "view_ok ?S w (log w)" if "is_open ?S w" for w
  proof (cases "w = ws")
    case True
    then show ?thesis
      using log_inv_unknown [OF inv new] none vok_empty unfolding view_ok_def sw by (simp add: got_peers_def)
  next
    case False
    then show ?thesis using log_inv_view [OF inv] that unfolding view_ok_def sw R ow by simp
  qed
  moreover have "log w = []" if "map_get (socks ?S) w = None" for w
    using that log_inv_unknown [OF inv] by (simp add: handleConnection_def split: if_splits)
  ultimately show ?thesis unfolding log_inv_def by blast
qed

lemma peers_log_inv:
  assumes inv: "log_inv st log" and own: "sock_node st ws = Some k"
  shows "log_inv st (\<lambda>w. log w @ sent_msgs w (handleGetPeers ws (sock_node st ws) st))"
proof -
  note si = log_inv_sock [OF inv]
  have "view_ok st w (log w @ sent_msgs w (handleGetPeers ws (sock_node st ws) st))" if w: "is_open st w" for w
  proof (cases "w = ws")
    case True
    define ps where "ps = map (\<lambda>(id, i). peer_info id i) (filter (\<lambda>(id, i). Some id \<noteq> Some k) (nodes_of st))"
    have sent: "sent_msgs w (handleGetPeers ws (sock_node st ws) st) = [Peers ps]"
      using w True own unfolding handleGetPeers_def ps_def by simp
    have "vok (Some k) (roster st) (view (log w @ [Peers ps])) True"
    proof (rule vok_peers)
      show "vok (Some k) (roster st) (view (log w)) (got_peers (log w))"
        using log_inv_view [OF inv w] own True unfolding view_ok_def by simp
      show "view (log w @ [Peers ps]) m = (case (if m = k then None else roster st m) of Some p \<Rightarrow> Some p | None \<Rightarrow> view (log w) m)" for m
        unfolding ps_def view_peers [OF sock_inv_wf [OF si]] roster_def by (simp only: option.inject)
    qed
    moreover have "got_peers (log w @ [Peers ps])" unfolding got_peers_def by (rule exI [of _ ps]) simp
    ultimately show ?thesis using own True unfolding view_ok_def sent by (simp del: got_peers_append)
  next
    case False
    then show ?thesis using log_inv_view [OF inv w] by (simp add: handleGetPeers_def)
  qed
  moreover have "log w @ sent_msgs w (handleGetPeers ws (sock_node st ws) st) = []" if "map_get (socks st) w = None" for w
    using that log_inv_unknown [OF inv] by (simp add: handleGetPeers_def is_open_def)
  ultimately show ?thesis using si unfolding log_inv_def by blast
qed

lemma handleSignal_sent:
  "list_all quiet (sent_msgs w (handleSignal f t s st))" "\<not> is_open st w \<Longrightarrow> sent_msgs w (handleSignal f t s st) = []"
  by (simp_all add: handleSignal_def split: option.split)

lemma register_log_inv:
  assumes inv: "log_inv st log" and run: "handleRegister lookup now ws m st = (st', acts)"
    and known: "map_get (socks st) ws \<noteq> None" and own: "sock_node st ws = None \<or> sock_node st ws = truthy (r_nodeId m)"
  shows "log_inv st' (\<lambda>w. log w @ sent_msgs w acts)"
proof -
  have refuse: "log_inv st (\<lambda>w. log w @ sent_msgs w (wsSend st ws (Server_error e)))"
    "log_inv (shut ws st) (\<lambda>w. log w @ sent_msgs w (wsSend st ws (Server_error e) @ [Close_socket ws]))" for e
    by (rule log_inv_same [OF inv] log_inv_shut [OF inv]; simp)+
  have missing: ?thesis if "handleRegister lookup now ws m st = (st, wsSend st ws (Server_error e))" for e
    using run refuse(1) [of e] unfolding that prod.inject by (elim conjE) hypsubst
  show ?thesis
  proof (cases "truthy (r_nodeId m)"; cases "truthy (r_publicKey m)")
    fix n pk assume id: "truthy (r_nodeId m) = Some n" "truthy (r_publicKey m) = Some pk"
    note own' = own [unfolded id(1)]
    show ?thesis
    proof (cases "registrationToken st \<noteq> None \<and> r_token m \<noteq> registrationToken st")
      case True
      then have "st' = shut ws st" "acts = wsSend st ws (Server_error ''Unauthorized'') @ [Close_socket ws]"
        using run id by (simp_all add: handleRegister_def)
      then show ?thesis using refuse(2) by simp
    next
      case False
      show ?thesis
      proof (cases "map_get (nodes_of st) n")
        case None
        then have "register_new lookup now ws n pk m st = (st', acts)"
          using run unfolding handleRegister_def id prod.case option.case if_not_P [OF False] by simp
        from register_new_registers [OF this None known] show ?thesis using registers_log_inv [OF inv _ own' known] by blast
      next
        case (Some ex)
        then have "re_register ws n pk m ex st = (st', acts)"
          using run unfolding handleRegister_def id prod.case option.case if_not_P [OF False] by simp
        from re_register_registers [OF this Some known] show ?thesis using registers_log_inv [OF inv _ own' known] by blast
      qed
    qed
  qed (rule missing, simp add: handleRegister_def)+
qed

lemma srv_log_inv: "srv_log lookup st log \<Longrightarrow> log_inv st log"
proof (induction rule: srv_log.induct)
  case (start pins tok env)
  show ?case by (simp add: log_inv_def sock_inv_def new_SignallingServer_def is_open_def)
next
  case (step st log ev st' acts)
  show ?case
  proof (cases ev)
    case (Open ws addr)
    then show ?thesis using step open_log_inv [OF step.IH] by (auto simp del: not_None_eq)
  next
    case (Closed ws)
    then show ?thesis using close_log_inv [OF step.IH] step.hyps(4) by simp
  next
    case (Msg now ws m)
    show ?thesis
    proof (cases m)
      case (Register r)
      show ?thesis by (rule register_log_inv [OF step.IH]) (use step.hyps Msg Register in simp_all)
    next
      case (Signal_to t s)
      have "(st', acts) = (st, handleSignal (sock_node st ws) t s st)"
        using step.hyps(4) [symmetric] unfolding Msg Signal_to srv_next.simps handleMessage.simps .
      then have "st' = st" "acts = handleSignal (sock_node st ws) t s st" unfolding prod.inject by blast+
      then show ?thesis using log_inv_same [OF step.IH] handleSignal_sent by blast
    next
      case Get_peers
      then obtain k where "sock_node st ws = Some k" using step.hyps(3) Msg by auto
      moreover have "(st', acts) = (st, handleGetPeers ws (sock_node st ws) st)"
        using step.hyps(4) [symmetric] unfolding Msg Get_peers srv_next.simps handleMessage.simps .
      ultimately show ?thesis using peers_log_inv [OF step.IH] unfolding prod.inject by blast
    next
      case (Topology_update c)
      then show ?thesis using topology_log_inv [OF step.IH] step.hyps(4) Msg by simp
    next
      case Get_exit_nodes
      have "(st', acts) = (st, handleGetExitNodes ws st)"
        using step.hyps(4) [symmetric] unfolding Msg Get_exit_nodes srv_next.simps handleMessage.simps .
      then have "st' = st" "acts = handleGetExitNodes ws st" unfolding prod.inject by blast+
      then show ?thesis using log_inv_same [OF step.IH, of acts] by (simp add: handleGetExitNodes_def)
    next
      case Ping
      then show ?thesis using log_inv_same [OF step.IH, of acts] step.hyps(4) Msg by auto
    next
      case Unknown
      then show ?thesis using log_inv_same [OF step.IH, of acts] step.hyps(4) Msg by auto
    next
      case Malformed
      then show ?thesis using log_inv_same [OF step.IH, of acts] step.hyps(4) Msg by auto
    qed
  qed
qed

section \<open>Properties\<close>

lemma demo_pinned:
  "\<exists>st log st' acts. srv_run (\<lambda>a. None) demo_events (new_SignallingServer [(js ''B'', js ''10.200.9.9'')] None None, \<lambda>w. []) = Some (st, log)
     \<and> srv_next (\<lambda>a. None) (Closed 2) st = (st', acts) \<and> pins_apart st'
     \<and> map_option s_virtualIp (map_get (nodes_of st) (js ''A'')) = Some (counter_ip 2)
     \<and> map_get (nodes_of st') (js ''A'') \<noteq> None
     \<and> map_option s_virtualIp (map_get (nodes_of st) (js ''B'')) = Some (js ''10.200.9.9'')"
  by (simp add: srv_eval pins_apart_def)

text \<open>
  (C12) Signalling server: in every state the server can reach under arbitrary clients, as long as the counter has
  not reached a pinned address, two registered nodes never share a virtual address, and no event changes the
  address of a node that stays registered: a re-registration on a new socket keeps it.
\<close>

theorem virtual_ips_unique:
  assumes "srv_reach lookup st" "srv_next lookup ev st = (st', acts)" "pins_apart st'"
  shows "(\<forall>a b i j. map_get (nodes_of st) a = Some i \<longrightarrow> map_get (nodes_of st) b = Some j \<longrightarrow>
            s_virtualIp i = s_virtualIp j \<longrightarrow> a = b)
    \<and> (\<forall>a i i'. map_get (nodes_of st) a = Some i \<longrightarrow> map_get (nodes_of st') a = Some i' \<longrightarrow> s_virtualIp i' = s_virtualIp i)"
proof -
  have "pins_apart st" using srv_next_pins [OF assms(2)] assms(3) unfolding pins_apart_def by (metis order.strict_trans2)
  then have inv: "ips_inv st" by (rule srv_reach_ips [OF assms(1)])
  show ?thesis using srv_next_ips [OF inv assms(3,2)] ips_invD(3) [OF inv] by blast
qed

theorem virtual_ips_unique_witness:
  "\<exists>st log st' acts i. srv_run (\<lambda>a. None) demo_events (new_SignallingServer [(js ''B'', js ''10.200.9.9'')] None None, \<lambda>w. []) = Some (st, log)
     \<and> srv_next (\<lambda>a. None) (Closed 2) st = (st', acts) \<and> pins_apart st' \<and> map_get (nodes_of st') (js ''A'') = Some i
     \<and> s_virtualIp i = counter_ip 2 \<and> map_option s_virtualIp (map_get (nodes_of st) (js ''B'')) = Some (js ''10.200.9.9'')"
proof -
  let ?s0 = "new_SignallingServer [(js ''B'', js ''10.200.9.9'')] None None"
  obtain st log st' acts where run: "srv_run (\<lambda>a. None) demo_events (?s0, \<lambda>w. []) = Some (st, log)"
    and nx: "srv_next (\<lambda>a. None) (Closed 2) st = (st', acts)" and pins: "pins_apart st'"
    and A: "map_option s_virtualIp (map_get (nodes_of st) (js ''A'')) = Some (counter_ip 2)" "map_get (nodes_of st') (js ''A'') \<noteq> None"
    and B: "map_option s_virtualIp (map_get (nodes_of st) (js ''B'')) = Some (js ''10.200.9.9'')"
    by (rule exE [OF demo_pinned]) (elim exE conjE, rule that)
  have reach: "srv_reach (\<lambda>a. None) st" by (rule srv_log_reach [OF srv_run_log [OF srv_log.start run]])
  from A obtain i0 i where i: "map_get (nodes_of st) (js ''A'') = Some i0" "s_virtualIp i0 = counter_ip 2" "map_get (nodes_of st') (js ''A'') = Some i"
    by (cases "map_get (nodes_of st) (js ''A'')"; cases "map_get (nodes_of st') (js ''A'')") simp_all
  have "s_virtualIp i = s_virtualIp i0" using virtual_ips_unique [OF reach nx pins] i(1,3) by blast
  then have "s_virtualIp i = counter_ip 2" using i(2) by (rule trans)
  then show ?thesis using run nx pins i(3) B by blast
qed

text \<open>
  (C11) Signalling server and client together: when the sockets register one id each and ask for the peers after they
  registered, as \<open>SignallingClient\<close> does, then at every moment a freshly started client that processed
  everything the server sent on its open socket, the peer list included, holds in its peer map exactly the nodes
  registered on the server now, itself excepted, each with its current name, key, role and address.
\<close>

theorem peer_views_converge:
  assumes "srv_log lookup st log" "is_open st w" "sock_node st w = Some n" "got_peers (log w)" "c_peers c = []"
  shows "getPeer m (client_after (log w) c) =
    (if m = n then None else map_option (peer_info m) (map_get (nodes_of st) m))"
proof -
  have ok: "vok (Some n) (roster st) (view (log w)) True"
    using log_inv_view [OF srv_log_inv [OF assms(1)] assms(2)] assms(3,4) by (simp add: view_ok_def)
  have "view (log w) m = (if m = n then None else roster st m)"
    using ok unfolding vok_Some by (cases "m = n") (metis, metis)
  then show ?thesis unfolding getPeer_def client_after_peers assms(5) view_def roster_def .
qed

theorem peer_views_converge_witness:
  "\<exists>st log. srv_run (\<lambda>a. None) demo_events (new_SignallingServer [] None None, \<lambda>w. []) = Some (st, log)
     \<and> (let c = client_after (log 1) (new_SignallingClient (js ''A'') (js ''k'') None False False None) in
         map_option p_virtualIp (getPeer (js ''B'') c) = Some (counter_ip 3) \<and> getPeer (js ''A'') c = None)"
proof -
  obtain st log where run: "srv_run (\<lambda>a. None) demo_events (new_SignallingServer [] None None, \<lambda>w. []) = Some (st, log)"
    and w: "is_open st 1" "sock_node st 1 = Some (js ''A'')" "got_peers (log 1)"
    and B: "map_option s_virtualIp (map_get (nodes_of st) (js ''B'')) = Some (counter_ip 3)"
    by (simp add: srv_eval is_open_def got_peers_def)
  have "c_peers (new_SignallingClient (js ''A'') (js ''k'') None False False None) = []" by (simp add: new_SignallingClient_def)
  note known = peer_views_converge [OF srv_run_log [OF srv_log.start run] w this]
  obtain i where i: "map_get (nodes_of st) (js ''B'') = Some i" "s_virtualIp i = counter_ip 3" using B by blast
  have "js ''B'' \<noteq> js ''A''" by (simp add: js_def)
  then show ?thesis using run i unfolding Let_def
    by (intro exI [of _ st] exI [of _ log]) (simp add: known [simplified] peer_info_def)
qed

section \<open>Where the service departs from its intent\<close>

definition srv_states :: "srv_event list \<Rightarrow> (jsstring, jsstring) jsmap \<Rightarrow> sserver" where
  "srv_states evs pins = fold (\<lambda>ev st. fst (srv_next (\<lambda>a. None) ev st)) evs (new_SignallingServer pins None None)"

text \<open>The counter hands out an address that is pinned and in use.\<close>

lemma pinned_address_given_twice:
  "map (\<lambda>(a, i). (a, s_virtualIp i)) (nodes_of (srv_states
      [Open 1 (js ''x''), Open 2 (js ''y''), Msg 0 1 (demo_reg ''B'' ''exit''), Msg 1 2 (demo_reg ''A'' ''client'')]
      [(js ''B'', js ''10.200.0.2'')])) =
    [(js ''B'', js ''10.200.0.2''), (js ''A'', js ''10.200.0.2'')]"
  by (simp add: srv_states_def srv_eval dec_def to_radix_small digit_char_def)

text \<open>The counter is not bounded: the 255th address is not an IPv4 address.\<close>

lemma counter_ip_out_of_range: "counter_ip 256 = js ''10.200.0.256''"
  by (simp add: counter_ip_def js_def dec_def to_radix_step to_radix_small digit_char_def)

text \<open>A socket that registered two ids leaves one behind when it closes: the socket is gone, the node stays.\<close>

lemma ghost_node_after_close:
  "map (\<lambda>(a, i). (a, s_ws i)) (nodes_of (srv_states
      [Open 1 (js ''x''), Msg 0 1 (demo_reg ''A'' ''client''), Msg 1 1 (demo_reg ''B'' ''client''), Closed 1] [])) = [(js ''B'', 1)]"
  by (simp add: srv_states_def srv_eval)

text \<open>A peer list does not remove peers that left while the client was disconnected.\<close>

lemma stale_peer_after_reconnect:
  "map_get (c_peers (handlePeersList [] (fst (client_handleDisconnect True c)))) m = map_get (c_peers c) m"
  by (simp add: handlePeersList_def client_handleDisconnect_def Let_def client_scheduleReconnect_def)

text \<open>A peer that joins again without the exit role stays in the client's exit nodes.\<close>

lemma stale_exit_after_role_change:
  "p_role p \<noteq> Some (js ''exit'') \<Longrightarrow> c_exitNodes (handlePeerJoin p c) = c_exitNodes c"
  by (simp add: handlePeerJoin_def)

end
