(* ===== verification/Worker_Pipeline.thy ===== *)
theory Worker_Pipeline
  imports Crypto_Onion "HOL-Library.Multiset"
begin

text \<open>
  \<open>src/workers\<close>: the pipeline that hands encryption and decryption to worker threads, with the
  synchronous fallback, and the two workers. A worker has its own copy of \<open>packet.js\<close> and so its own
  flow id generator. Callbacks are values of a type \<open>'cb\<close>; calling one is an action. Copying array
  buffers between threads is the identity. Whether \<open>postMessage\<close> throws is an argument of the
  submission.
\<close>

section \<open>The jobs\<close>

record tx_args =
  ta_payload :: buffer
  ta_keys :: "(jsstring \<times> buffer) list"
  ta_meta :: packet_options
  ta_direct :: bool

record tx_result =
  tr_serialized :: buffer
  tr_nextHop :: "jsstring option"
  tr_payloadLen :: nat

record rx_args =
  ra_data :: buffer
  ra_key :: buffer
  ra_peer :: jsstring
  ra_type :: int

record rx_data =
  rd_peer :: jsstring
  rd_type :: int
  rd_payload :: buffer
  rd_isExit :: bool
  rd_nextHop :: "jsstring option"
  rd_meta :: packet_options

datatype rx_result = Passthrough buffer jsstring | Rx_packet rx_data

definition first_hop :: "packet_options \<Rightarrow> jsstring option" where
  "first_hop opt = (case o_route opt of Some (h # _) \<Rightarrow> Some h | _ \<Rightarrow> None)"

definition encrypt_payload :: "seal \<Rightarrow> buffer list \<Rightarrow> tx_args \<Rightarrow> buffer res" where
  "encrypt_payload seal ivs a =
     (case ta_keys a of
        [(_, key)] \<Rightarrow> if ta_direct a then encrypt seal (hd ivs) (ta_payload a) key
                       else createOnionPacket seal ivs (ta_payload a) (ta_keys a)
      | _ \<Rightarrow> createOnionPacket seal ivs (ta_payload a) (ta_keys a))"

text \<open>\<open>tx-worker.js\<close> and \<open>_fallbackTx\<close>.\<close>

definition tx_worker :: "seal \<Rightarrow> buffer list \<Rightarrow> int \<Rightarrow> flow_gen \<Rightarrow> tx_args \<Rightarrow> tx_result res \<times> flow_gen" where
  "tx_worker seal ivs now g a =
     (case encrypt_payload seal ivs a of
        Inl e \<Rightarrow> (Inl e, g)
      | Inr encrypted \<Rightarrow>
          (case new_Packet now g ((ta_meta a)\<lparr>o_payload := Some encrypted\<rparr>) of (pkt, g) \<Rightarrow>
           (case serialize pkt of
              Inl e \<Rightarrow> Inl e
            | Inr serialized \<Rightarrow>
                Inr \<lparr>tr_serialized = serialized, tr_nextHop = first_hop (ta_meta a), tr_payloadLen = length (ta_payload a)\<rparr>, g)))"

definition rx_meta :: "packet \<Rightarrow> packet_options" where
  "rx_meta p = no_options\<lparr>o_flowId := Some (p_flowId p), o_seq := Some (p_seq p), o_hop := Some (p_hop p),
     o_ttl := Some (p_ttl p), o_srcNode := p_srcNode p, o_dstNode := p_dstNode p, o_route := Some (p_route p)\<rparr>"

text \<open>\<open>rx-worker.js\<close> and \<open>_fallbackRx\<close>.\<close>

definition rx_worker :: "unseal \<Rightarrow> (jsstring \<Rightarrow> jsstring list option) \<Rightarrow> int \<Rightarrow> flow_gen \<Rightarrow> rx_args \<Rightarrow> rx_result res \<times> flow_gen" where
  "rx_worker unseal parse_json now g a =
     (if ra_type a = PT_DATA then
        (case deserialize parse_json now g (ra_data a) of
           Inl e \<Rightarrow> (Inl e, g)
         | Inr (packet, g) \<Rightarrow>
             (ebind (peelOnionLayer unseal (p_payload packet) (ra_key a)) (\<lambda>l.
                Inr (Rx_packet \<lparr>rd_peer = ra_peer a, rd_type = PT_DATA, rd_payload = l_payload l, rd_isExit = l_isExit l,
                  rd_nextHop = l_nextHop l, rd_meta = rx_meta packet\<rparr>)), g))
      else if ra_type a = PT_DATA_DIRECT then
        (case deserialize parse_json now g (ra_data a) of
           Inl e \<Rightarrow> (Inl e, g)
         | Inr (packet, g) \<Rightarrow>
             (ebind (decrypt unseal (p_payload packet) (ra_key a)) (\<lambda>payload.
                Inr (Rx_packet \<lparr>rd_peer = ra_peer a, rd_type = PT_DATA_DIRECT, rd_payload = payload, rd_isExit = False,
                  rd_nextHop = None, rd_meta = rx_meta packet\<rparr>)), g))
      else (Inr (Passthrough (ra_data a) (ra_peer a)), g))"

text \<open>
  The fallback parses the packet before it looks at the type, so data that is only passed through must
  still parse.
\<close>

definition fallbackRx :: "unseal \<Rightarrow> (jsstring \<Rightarrow> jsstring list option) \<Rightarrow> int \<Rightarrow> flow_gen \<Rightarrow> rx_args \<Rightarrow> rx_result res \<times> flow_gen" where
  "fallbackRx unseal parse_json now g a =
     (case deserialize parse_json now g (ra_data a) of
        Inl e \<Rightarrow> (Inl e, g)
      | Inr (packet, g) \<Rightarrow>
          (if ra_type a = PT_DATA then
             ebind (peelOnionLayer unseal (p_payload packet) (ra_key a)) (\<lambda>l.
               Inr (Rx_packet \<lparr>rd_peer = ra_peer a, rd_type = ra_type a, rd_payload = l_payload l, rd_isExit = l_isExit l,
                 rd_nextHop = l_nextHop l, rd_meta = rx_meta packet\<rparr>))
           else if ra_type a = PT_DATA_DIRECT then
             ebind (decrypt unseal (p_payload packet) (ra_key a)) (\<lambda>payload.
               Inr (Rx_packet \<lparr>rd_peer = ra_peer a, rd_type = ra_type a, rd_payload = payload, rd_isExit = False,
                 rd_nextHop = None, rd_meta = rx_meta packet\<rparr>))
           else Inr (Passthrough (ra_data a) (ra_peer a)), g))"

definition fallbackTx :: "seal \<Rightarrow> buffer list \<Rightarrow> int \<Rightarrow> flow_gen \<Rightarrow> tx_args \<Rightarrow> tx_result res \<times> flow_gen" where
  "fallbackTx seal ivs now g a =
     (let encrypted = (if ta_direct a \<and> length (ta_keys a) = 1
            then encrypt seal (hd ivs) (ta_payload a) (snd (hd (ta_keys a)))
            else createOnionPacket seal ivs (ta_payload a) (ta_keys a)) in
      case encrypted of
        Inl e \<Rightarrow> (Inl e, g)
      | Inr encrypted \<Rightarrow>
          (case new_Packet now g ((ta_meta a)\<lparr>o_payload := Some encrypted\<rparr>) of (pkt, g) \<Rightarrow>
           (case serialize pkt of
              Inl e \<Rightarrow> Inl e
            | Inr serialized \<Rightarrow>
                Inr \<lparr>tr_serialized = serialized, tr_nextHop = first_hop (ta_meta a), tr_payloadLen = length (ta_payload a)\<rparr>, g)))"

section \<open>The pipeline\<close>

definition MAX_PENDING :: nat where "MAX_PENDING = 2000"

record 'cb pipeline =
  pl_jobId :: nat
  txPending :: "(nat, 'cb) jsmap"
  rxPending :: "(nat, 'cb) jsmap"
  txDropped :: nat
  rxDropped :: nat
  txWorkers :: nat
  rxWorkers :: nat
  txRR :: nat
  rxRR :: nat
  pl_alive :: bool

datatype 'cb pl_action =
    Post_tx nat nat tx_args
  | Post_rx nat nat rx_args
  | Call_tx 'cb "tx_result res"
  | Call_rx 'cb "rx_result res"

definition new_WorkerPipeline :: "bool \<Rightarrow> nat \<Rightarrow> nat \<Rightarrow> 'cb pipeline" where
  "new_WorkerPipeline enabled txPool rxPool =
     \<lparr>pl_jobId = 0, txPending = [], rxPending = [], txDropped = 0, rxDropped = 0,
      txWorkers = (if enabled then (if txPool = 0 then 1 else txPool) else 0),
      rxWorkers = (if enabled then (if rxPool = 0 then 1 else rxPool) else 0), txRR = 0, rxRR = 0, pl_alive = enabled\<rparr>"

definition submitTx :: "seal \<Rightarrow> buffer list \<Rightarrow> int \<Rightarrow> bool \<Rightarrow> tx_args \<Rightarrow> 'cb \<Rightarrow> 'cb pipeline \<Rightarrow> flow_gen
    \<Rightarrow> 'cb pipeline \<times> flow_gen \<times> 'cb pl_action list" where
  "submitTx seal ivs now posts a cb pl g =
     (if \<not> pl_alive pl \<or> txWorkers pl = 0 then
        case fallbackTx seal ivs now g a of (r, g) \<Rightarrow> (pl, g, [Call_tx cb r])
      else if length (txPending pl) \<ge> MAX_PENDING then
        case fallbackTx seal ivs now g a of (r, g) \<Rightarrow> (pl\<lparr>txDropped := txDropped pl + 1\<rparr>, g, [Call_tx cb r])
      else
        let jobId = pl_jobId pl; worker = txRR pl mod txWorkers pl;
            pl = pl\<lparr>pl_jobId := jobId + 1, txRR := txRR pl + 1\<rparr> in
        if posts then (pl\<lparr>txPending := map_put jobId cb (txPending pl)\<rparr>, g, [Post_tx worker jobId a])
        else case fallbackTx seal ivs now g a of (r, g) \<Rightarrow> (pl\<lparr>txPending := map_del jobId (txPending pl)\<rparr>, g, [Call_tx cb r]))"

definition submitRx :: "unseal \<Rightarrow> (jsstring \<Rightarrow> jsstring list option) \<Rightarrow> int \<Rightarrow> bool \<Rightarrow> rx_args \<Rightarrow> 'cb \<Rightarrow> 'cb pipeline \<Rightarrow> flow_gen
    \<Rightarrow> 'cb pipeline \<times> flow_gen \<times> 'cb pl_action list" where
  "submitRx unseal parse_json now posts a cb pl g =
     (if \<not> pl_alive pl \<or> rxWorkers pl = 0 then
        case fallbackRx unseal parse_json now g a of (r, g) \<Rightarrow> (pl, g, [Call_rx cb r])
      else if length (rxPending pl) \<ge> MAX_PENDING then
        case fallbackRx unseal parse_json now g a of (r, g) \<Rightarrow> (pl\<lparr>rxDropped := rxDropped pl + 1\<rparr>, g, [Call_rx cb r])
      else
        let jobId = pl_jobId pl; worker = rxRR pl mod rxWorkers pl;
            pl = pl\<lparr>pl_jobId := jobId + 1, rxRR := rxRR pl + 1\<rparr> in
        if posts then (pl\<lparr>rxPending := map_put jobId cb (rxPending pl)\<rparr>, g, [Post_rx worker jobId a])
        else case fallbackRx unseal parse_json now g a of (r, g) \<Rightarrow> (pl\<lparr>rxPending := map_del jobId (rxPending pl)\<rparr>, g, [Call_rx cb r]))"

definition onTxResult :: "nat \<Rightarrow> tx_result res \<Rightarrow> 'cb pipeline \<Rightarrow> 'cb pipeline \<times> 'cb pl_action list" where
  "onTxResult jobId r pl =
     (case map_get (txPending pl) jobId of
        None \<Rightarrow> (pl, [])
      | Some cb \<Rightarrow> (pl\<lparr>txPending := map_del jobId (txPending pl)\<rparr>, [Call_tx cb r]))"

definition onRxResult :: "nat \<Rightarrow> rx_result res \<Rightarrow> 'cb pipeline \<Rightarrow> 'cb pipeline \<times> 'cb pl_action list" where
  "onRxResult jobId r pl =
     (case map_get (rxPending pl) jobId of
        None \<Rightarrow> (pl, [])
      | Some cb \<Rightarrow> (pl\<lparr>rxPending := map_del jobId (rxPending pl)\<rparr>, [Call_rx cb r]))"

text \<open>The \<open>exit\<close> events of the workers: a crash fails every pending job of that direction.\<close>

definition onTxExit :: "int \<Rightarrow> 'cb pipeline \<Rightarrow> 'cb pipeline \<times> 'cb pl_action list" where
  "onTxExit code pl =
     (if code \<noteq> 0 \<and> pl_alive pl
      then (pl\<lparr>txPending := []\<rparr>, map (\<lambda>(_, cb). Call_tx cb (Inl (Err ''TX worker crashed''))) (txPending pl))
      else (pl, []))"

definition onRxExit :: "int \<Rightarrow> 'cb pipeline \<Rightarrow> 'cb pipeline \<times> 'cb pl_action list" where
  "onRxExit code pl =
     (if code \<noteq> 0 \<and> pl_alive pl
      then (pl\<lparr>rxPending := []\<rparr>, map (\<lambda>(_, cb). Call_rx cb (Inl (Err ''RX worker crashed''))) (rxPending pl))
      else (pl, []))"

definition terminate_pipeline :: "'cb pipeline \<Rightarrow> 'cb pipeline \<times> 'cb pl_action list" where
  "terminate_pipeline pl =
     (pl\<lparr>pl_alive := False, txPending := [], rxPending := [], txWorkers := 0, rxWorkers := 0\<rparr>,
      map (\<lambda>(_, cb). Call_tx cb (Inl (Err ''Pipeline terminated''))) (txPending pl)
      @ map (\<lambda>(_, cb). Call_rx cb (Inl (Err ''Pipeline terminated''))) (rxPending pl))"

definition pipeline_stats :: "'cb pipeline \<Rightarrow> nat \<times> nat \<times> nat \<times> nat" where
  "pipeline_stats pl = (length (txPending pl), length (rxPending pl), txDropped pl, rxDropped pl)"

section \<open>Pools of jobs\<close>

text \<open>
  What the pipeline relies on: a result of the synchronous fallback is one that a worker could have given.
  The accounting of pending callbacks, jobs in the workers' inboxes and calls is the same for both directions.
\<close>

definition pool_inv :: "('a \<Rightarrow> 'x \<Rightarrow> bool) \<Rightarrow> nat \<Rightarrow> (nat, 'cb) jsmap \<Rightarrow> (nat \<Rightarrow> (nat \<times> 'a) list)
    \<Rightarrow> ('a \<times> 'cb) list \<Rightarrow> ('cb \<times> 'x res) list \<Rightarrow> bool" where
  "pool_inv ok n pending inbox sub calls \<longleftrightarrow>
     wf_map pending \<and> (\<forall>j cb. map_get pending j = Some cb \<longrightarrow> j < n) \<and> (\<forall>w. \<forall>(j, a) \<in> set (inbox w). j < n)
     \<and> mset (map fst calls) + mset (map snd pending) = mset (map snd sub)
     \<and> (\<forall>w. \<forall>(j, a) \<in> set (inbox w). \<forall>cb. map_get pending j = Some cb \<longrightarrow> (a, cb) \<in> set sub)
     \<and> (\<forall>(cb, r) \<in> set calls. \<forall>x. r = Inr x \<longrightarrow> (\<exists>a. (a, cb) \<in> set sub \<and> ok a x))"

lemma pool_invD:
  assumes "pool_inv ok n pending inbox sub calls"
  shows "wf_map pending" "\<And>j cb. map_get pending j = Some cb \<Longrightarrow> j < n" "\<And>w j a. (j, a) \<in> set (inbox w) \<Longrightarrow> j < n"
    "mset (map fst calls) + mset (map snd pending) = mset (map snd sub)"
    "\<And>w j a cb. (j, a) \<in> set (inbox w) \<Longrightarrow> map_get pending j = Some cb \<Longrightarrow> (a, cb) \<in> set sub"
    "\<And>cb x. (cb, Inr x) \<in> set calls \<Longrightarrow> \<exists>a. (a, cb) \<in> set sub \<and> ok a x"
  using assms unfolding pool_inv_def by blast+

lemma pool_invI:
  assumes "wf_map pending" "\<And>j cb. map_get pending j = Some cb \<Longrightarrow> j < n" "\<And>w j a. (j, a) \<in> set (inbox w) \<Longrightarrow> j < n"
    "mset (map fst calls) + mset (map snd pending) = mset (map snd sub)"
    "\<And>w j a cb. (j, a) \<in> set (inbox w) \<Longrightarrow> map_get pending j = Some cb \<Longrightarrow> (a, cb) \<in> set sub"
    "\<And>cb x. (cb, Inr x) \<in> set calls \<Longrightarrow> \<exists>a. (a, cb) \<in> set sub \<and> ok a x"
  shows "pool_inv ok n pending inbox sub calls"
  using assms unfolding pool_inv_def by blast

lemma mset_map_put_new: "map_get m k = None \<Longrightarrow> image_mset snd (mset (map_put k v m)) = add_mset v (image_mset snd (mset m))"
  by (induction m) (simp_all split: if_splits)

lemma mset_map_del: "wf_map m \<Longrightarrow> map_get m k = Some v \<Longrightarrow> image_mset snd (mset m) = add_mset v (image_mset snd (mset (map_del k m)))"
proof (induction m)
  case (Cons x m)
  have wf: "wf_map m" using Cons.prems(1) by (simp add: wf_map_def)
  show ?case
  proof (cases "fst x = k")
    case True
    then have "k \<notin> fst ` set m" using Cons.prems(1) by (cases x) (simp add: wf_map_def)
    then have "map_del k m = m" by (simp add: AList.delete_id map_of_eq_None_iff)
    then show ?thesis using True Cons.prems(2) by (cases x) simp
  next
    case False
    then show ?thesis using Cons.IH [OF wf] Cons.prems(2) by (cases x) (simp add: add_mset_commute)
  qed
qed simp

locale job_pool =
  fixes worker fallback :: "'env \<Rightarrow> 'a \<Rightarrow> 'x res"
  assumes agree: "fallback e a = Inr x \<Longrightarrow> \<exists>e'. worker e' a = Inr x"
begin

definition possible :: "'a \<Rightarrow> 'x \<Rightarrow> bool" where
  "possible a x \<longleftrightarrow> (\<exists>e. worker e a = Inr x)"

lemma pool_start: "pool_inv possible 0 [] (\<lambda>w. []) [] []"
  by (simp add: pool_inv_def wf_map_def)

lemma pool_later: "pool_inv possible n pending inbox sub calls \<Longrightarrow> n \<le> m \<Longrightarrow> pool_inv possible m pending inbox sub calls"
  by (rule pool_invI) (auto dest: pool_invD intro: order.strict_trans2)

text \<open>A job is posted to a worker.\<close>

lemma pool_post:
  assumes inv: "pool_inv possible n pending inbox sub calls"
  shows "pool_inv possible (Suc n) (map_put n cb pending) (inbox(w := inbox w @ [(n, a)])) (sub @ [(a, cb)]) calls"
proof -
  note I = pool_invD [OF inv]
  have new: "map_get pending n = None" using I(2) [of n] by (cases "map_get pending n") auto
  have jobs: "j < n \<and> (j, b) \<in> set (inbox v) \<or> j = n \<and> b = a" if "(j, b) \<in> set ((inbox(w := inbox w @ [(n, a)])) v)" for v j b
    using that I(3) by (cases "v = w") auto
  show ?thesis
  proof (rule pool_invI)
    show "wf_map (map_put n cb pending)" using I(1) by simp
    show "j < Suc n" if "map_get (map_put n cb pending) j = Some cb'" for j cb'
      using that I(2) [of j cb'] by (cases "j = n") auto
    show "j < Suc n" if "(j, b) \<in> set ((inbox(w := inbox w @ [(n, a)])) v)" for v j b using jobs [OF that] by auto
    show "mset (map fst calls) + mset (map snd (map_put n cb pending)) = mset (map snd (sub @ [(a, cb)]))"
      using I(4) new by (simp add: mset_map_put_new)
    show "(b, cb') \<in> set (sub @ [(a, cb)])"
      if "(j, b) \<in> set ((inbox(w := inbox w @ [(n, a)])) v)" "map_get (map_put n cb pending) j = Some cb'" for v j b cb'
      using jobs [OF that(1)] that(2) I(5) [of j b v cb'] by auto
    show "\<exists>b. (b, cb') \<in> set (sub @ [(a, cb)]) \<and> possible b x" if "(cb', Inr x) \<in> set calls" for cb' x
      using I(6) [OF that] by auto
  qed
qed

text \<open>A job is done synchronously.\<close>

lemma pool_sync:
  assumes inv: "pool_inv possible n pending inbox sub calls"
  shows "pool_inv possible n pending inbox (sub @ [(a, cb)]) (calls @ [(cb, fallback e a)])"
proof -
  note I = pool_invD [OF inv]
  have "possible a x" if "fallback e a = Inr x" for x using agree [OF that] by (simp add: possible_def)
  then have new: "\<exists>b. (b, cb') \<in> set (sub @ [(a, cb)]) \<and> possible b x" if "(cb', Inr x) \<in> set (calls @ [(cb, fallback e a)])" for cb' x
    using that I(6) [of cb' x] by auto
  show ?thesis by (rule pool_invI) (use I(1-5) new in auto)
qed

text \<open>A worker takes the first job of its inbox and reports.\<close>

lemma pool_report:
  assumes inv: "pool_inv possible n pending inbox sub calls" and job: "inbox w = (j, a) # rest"
  shows "pool_inv possible n (map_del j pending) (inbox(w := rest)) sub
    (calls @ (case map_get pending j of Some cb \<Rightarrow> [(cb, worker e a)] | None \<Rightarrow> []))"
proof -
  note I = pool_invD [OF inv]
  have jobs: "(k, b) \<in> set (inbox v)" if "(k, b) \<in> set ((inbox(w := rest)) v)" for v k b
    using that job by (cases "v = w") auto
  have sub: "(a, cb) \<in> set sub" if "map_get pending j = Some cb" for cb by (rule I(5) [of j a w]) (use job that in auto)
  have del: "map_del j pending = pending" if "map_get pending j = None"
    using that by (simp add: AList.delete_id map_of_eq_None_iff)
  show ?thesis
  proof (rule pool_invI)
    show "wf_map (map_del j pending)" using I(1) by simp
    show "k < n" if "map_get (map_del j pending) k = Some cb" for k cb using that I(2) by (cases "k = j") auto
    show "k < n" if "(k, b) \<in> set ((inbox(w := rest)) v)" for v k b using I(3) [OF jobs [OF that]] .
    show "mset (map fst (calls @ (case map_get pending j of Some cb \<Rightarrow> [(cb, worker e a)] | None \<Rightarrow> []))) + mset (map snd (map_del j pending)) = mset (map snd sub)"
      using I(4) mset_map_del [OF I(1), of j] del by (cases "map_get pending j") (auto simp: add_mset_commute)
    show "(b, cb) \<in> set sub" if "(k, b) \<in> set ((inbox(w := rest)) v)" "map_get (map_del j pending) k = Some cb" for v k b cb
      using I(5) [OF jobs [OF that(1)]] that(2) by (cases "k = j") auto
    show "\<exists>b. (b, cb) \<in> set sub \<and> possible b x"
      if "(cb, Inr x) \<in> set (calls @ (case map_get pending j of Some cb \<Rightarrow> [(cb, worker e a)] | None \<Rightarrow> []))" for cb x
    proof (cases "(cb, Inr x) \<in> set calls")
      case True
      then show ?thesis by (rule I(6))
    next
      case False
      then have "map_get pending j = Some cb" "worker e a = Inr x" using that by (auto split: option.splits)
      then show ?thesis using sub by (auto simp: possible_def)
    qed
  qed
qed

text \<open>Everything pending is failed; any inboxes may be lost.\<close>

lemma pool_flush:
  assumes inv: "pool_inv possible n pending inbox sub calls" and less: "\<And>v. set (inbox' v) \<subseteq> set (inbox v)"
  shows "pool_inv possible n [] inbox' sub (calls @ map (\<lambda>(j, cb). (cb, Inl err)) pending)"
proof -
  note I = pool_invD [OF inv]
  have "map fst (map (\<lambda>(j, cb). (cb, Inl err :: 'x res)) pending) = map snd pending" by (simp add: case_prod_unfold)
  moreover have "\<exists>a. (a, cb) \<in> set sub \<and> possible a x" if "(cb, Inr x) \<in> set (calls @ map (\<lambda>(j, cb). (cb, Inl err)) pending)" for cb x
    using that I(6) [of cb x] by auto
  moreover have "j < n" if "(j, a) \<in> set (inbox' v)" for v j a using that less I(3) by blast
  ultimately show ?thesis by (intro pool_invI) (use I(4) in \<open>simp_all add: wf_map_def comp_def case_prod_unfold\<close>)
qed

lemma pool_lose:
  assumes "pool_inv possible n pending inbox sub calls" "\<And>v. set (inbox' v) \<subseteq> set (inbox v)"
  shows "pool_inv possible n pending inbox' sub calls"
  using assms unfolding pool_inv_def by (meson subsetD)

end

text \<open>The two directions are pools.\<close>

type_synonym tx_env = "buffer list \<times> int \<times> flow_gen"
type_synonym rx_env = "int \<times> flow_gen"

lemma tx_worker_fallback: "tx_worker seal ivs now g a = fallbackTx seal ivs now g a"
proof -
  have eq: "encrypt_payload seal ivs a = (if ta_direct a \<and> length (ta_keys a) = 1
      then encrypt seal (hd ivs) (ta_payload a) (snd (hd (ta_keys a)))
      else createOnionPacket seal ivs (ta_payload a) (ta_keys a))"
    by (simp add: encrypt_payload_def split: list.split)
  show ?thesis unfolding tx_worker_def fallbackTx_def Let_def eq by (rule refl)
qed

interpretation tx_pool: job_pool "\<lambda>(ivs, now, g) a. fst (tx_worker seal ivs now g a)" "\<lambda>(ivs, now, g) a. fst (fallbackTx seal ivs now g a)"
  for seal
  by unfold_locales (auto simp: tx_worker_fallback)

lemma rx_fallback_worker:
  "fst (fallbackRx unseal parse_json now g a) = Inr x \<Longrightarrow> fst (rx_worker unseal parse_json now g a) = Inr x"
  by (auto simp: fallbackRx_def rx_worker_def split: sum.splits prod.splits if_splits)

interpretation rx_pool: job_pool "\<lambda>(now, g) a. fst (rx_worker unseal parse_json now g a)" "\<lambda>(now, g) a. fst (fallbackRx unseal parse_json now g a)"
  for unseal parse_json
  by unfold_locales (use rx_fallback_worker in fastforce)

section \<open>The pipeline with its workers\<close>

text \<open>
  Each worker serves its inbox in order. The state also records what was submitted and what was called;
  \<open>Tx_exit\<close> and \<open>Rx_exit\<close> lose the inbox of the worker, and a replacement starts with a fresh module.
\<close>

record 'cb pl_sys =
  sy_pl :: "'cb pipeline"
  sy_gen :: flow_gen
  tx_in :: "nat \<Rightarrow> (nat \<times> tx_args) list"
  rx_in :: "nat \<Rightarrow> (nat \<times> rx_args) list"
  tx_gen :: "nat \<Rightarrow> flow_gen"
  rx_gen :: "nat \<Rightarrow> flow_gen"
  tx_sub :: "(tx_args \<times> 'cb) list"
  rx_sub :: "(rx_args \<times> 'cb) list"
  tx_calls :: "('cb \<times> tx_result res) list"
  rx_calls :: "('cb \<times> rx_result res) list"

datatype 'cb pl_event =
    Submit_tx "buffer list" int bool tx_args 'cb
  | Submit_rx int bool rx_args 'cb
  | Tx_run "buffer list" int nat
  | Rx_run int nat
  | Tx_exit nat nat int
  | Rx_exit nat nat int
  | Terminate_pl

definition new_sys :: "bool \<Rightarrow> nat \<Rightarrow> nat \<Rightarrow> flow_gen \<Rightarrow> 'cb pl_sys" where
  "new_sys enabled txPool rxPool g =
     \<lparr>sy_pl = new_WorkerPipeline enabled txPool rxPool, sy_gen = g, tx_in = \<lambda>w. [], rx_in = \<lambda>w. [], tx_gen = \<lambda>w. g, rx_gen = \<lambda>w. g,
      tx_sub = [], rx_sub = [], tx_calls = [], rx_calls = []\<rparr>"

fun perform :: "'cb pl_action \<Rightarrow> 'cb pl_sys \<Rightarrow> 'cb pl_sys" where
  "perform (Post_tx w j a) s = s\<lparr>tx_in := (tx_in s)(w := tx_in s w @ [(j, a)])\<rparr>"
| "perform (Post_rx w j a) s = s\<lparr>rx_in := (rx_in s)(w := rx_in s w @ [(j, a)])\<rparr>"
| "perform (Call_tx cb r) s = s\<lparr>tx_calls := tx_calls s @ [(cb, r)]\<rparr>"
| "perform (Call_rx cb r) s = s\<lparr>rx_calls := rx_calls s @ [(cb, r)]\<rparr>"

fun pl_step :: "seal \<Rightarrow> unseal \<Rightarrow> (jsstring \<Rightarrow> jsstring list option) \<Rightarrow> 'cb pl_event \<Rightarrow> 'cb pl_sys \<Rightarrow> 'cb pl_sys" where
  "pl_step seal unseal pj (Submit_tx ivs now posts a cb) s =
     (case submitTx seal ivs now posts a cb (sy_pl s) (sy_gen s) of (pl, g, acts) \<Rightarrow>
      fold perform acts (s\<lparr>sy_pl := pl, sy_gen := g, tx_sub := tx_sub s @ [(a, cb)]\<rparr>))"
| "pl_step seal unseal pj (Submit_rx now posts a cb) s =
     (case submitRx unseal pj now posts a cb (sy_pl s) (sy_gen s) of (pl, g, acts) \<Rightarrow>
      fold perform acts (s\<lparr>sy_pl := pl, sy_gen := g, rx_sub := rx_sub s @ [(a, cb)]\<rparr>))"
| "pl_step seal unseal pj (Tx_run ivs now w) s =
     (case tx_in s w of
        [] \<Rightarrow> s
      | (j, a) # rest \<Rightarrow>
          (case tx_worker seal ivs now (tx_gen s w) a of (r, g) \<Rightarrow>
           case onTxResult j r (sy_pl s) of (pl, acts) \<Rightarrow>
           fold perform acts (s\<lparr>sy_pl := pl, tx_in := (tx_in s)(w := rest), tx_gen := (tx_gen s)(w := g)\<rparr>)))"
| "pl_step seal unseal pj (Rx_run now w) s =
     (case rx_in s w of
        [] \<Rightarrow> s
      | (j, a) # rest \<Rightarrow>
          (case rx_worker unseal pj now (rx_gen s w) a of (r, g) \<Rightarrow>
           case onRxResult j r (sy_pl s) of (pl, acts) \<Rightarrow>
           fold perform acts (s\<lparr>sy_pl := pl, rx_in := (rx_in s)(w := rest), rx_gen := (rx_gen s)(w := g)\<rparr>)))"
| "pl_step seal unseal pj (Tx_exit now w code) s =
     (case onTxExit code (sy_pl s) of (pl, acts) \<Rightarrow>
      fold perform acts (s\<lparr>sy_pl := pl, tx_in := (tx_in s)(w := []), tx_gen := (tx_gen s)(w := init_flow_gen now)\<rparr>))"
| "pl_step seal unseal pj (Rx_exit now w code) s =
     (case onRxExit code (sy_pl s) of (pl, acts) \<Rightarrow>
      fold perform acts (s\<lparr>sy_pl := pl, rx_in := (rx_in s)(w := []), rx_gen := (rx_gen s)(w := init_flow_gen now)\<rparr>))"
| "pl_step seal unseal pj Terminate_pl s =
     (case terminate_pipeline (sy_pl s) of (pl, acts) \<Rightarrow>
      fold perform acts (s\<lparr>sy_pl := pl, tx_in := \<lambda>w. [], rx_in := \<lambda>w. []\<rparr>))"

definition pl_run :: "seal \<Rightarrow> unseal \<Rightarrow> (jsstring \<Rightarrow> jsstring list option) \<Rightarrow> 'cb pl_event list \<Rightarrow> 'cb pl_sys \<Rightarrow> 'cb pl_sys" where
  "pl_run seal unseal pj evs s = fold (pl_step seal unseal pj) evs s"

definition tx_possible :: "seal \<Rightarrow> tx_args \<Rightarrow> tx_result \<Rightarrow> bool" where
  "tx_possible seal a x \<longleftrightarrow> (\<exists>ivs now g. fst (tx_worker seal ivs now g a) = Inr x)"

definition rx_possible :: "unseal \<Rightarrow> (jsstring \<Rightarrow> jsstring list option) \<Rightarrow> rx_args \<Rightarrow> rx_result \<Rightarrow> bool" where
  "rx_possible unseal pj a x \<longleftrightarrow> (\<exists>now g. fst (rx_worker unseal pj now g a) = Inr x)"

lemma possible_eq: "tx_pool.possible seal = tx_possible seal" "rx_pool.possible unseal pj = rx_possible unseal pj"
  by (simp_all add: fun_eq_iff tx_pool.possible_def rx_pool.possible_def tx_possible_def rx_possible_def)

definition tx_inv :: "seal \<Rightarrow> 'cb pl_sys \<Rightarrow> bool" where
  "tx_inv seal s \<longleftrightarrow> pool_inv (tx_possible seal) (pl_jobId (sy_pl s)) (txPending (sy_pl s)) (tx_in s) (tx_sub s) (tx_calls s)
     \<and> length (txPending (sy_pl s)) \<le> MAX_PENDING \<and> (\<not> pl_alive (sy_pl s) \<longrightarrow> txPending (sy_pl s) = [])"

definition rx_inv :: "unseal \<Rightarrow> (jsstring \<Rightarrow> jsstring list option) \<Rightarrow> 'cb pl_sys \<Rightarrow> bool" where
  "rx_inv unseal pj s \<longleftrightarrow> pool_inv (rx_possible unseal pj) (pl_jobId (sy_pl s)) (rxPending (sy_pl s)) (rx_in s) (rx_sub s) (rx_calls s)
     \<and> length (rxPending (sy_pl s)) \<le> MAX_PENDING \<and> (\<not> pl_alive (sy_pl s) \<longrightarrow> rxPending (sy_pl s) = [])"

lemmas tx_pool_rules = tx_pool.pool_later [unfolded possible_eq] tx_pool.pool_post [unfolded possible_eq]
  tx_pool.pool_sync [unfolded possible_eq] tx_pool.pool_report [unfolded possible_eq] tx_pool.pool_flush [unfolded possible_eq]
  tx_pool.pool_lose [unfolded possible_eq]

lemmas rx_pool_rules = rx_pool.pool_later [unfolded possible_eq] rx_pool.pool_post [unfolded possible_eq]
  rx_pool.pool_sync [unfolded possible_eq] rx_pool.pool_report [unfolded possible_eq] rx_pool.pool_flush [unfolded possible_eq]
  rx_pool.pool_lose [unfolded possible_eq]

text \<open>Steps of one direction leave the other alone, except for the job counter.\<close>

lemma fold_perform_tx:
  "fold perform (map (\<lambda>(j, cb). Call_tx cb r) ps) s = s\<lparr>tx_calls := tx_calls s @ map (\<lambda>(j, cb). (cb, r)) ps\<rparr>"
  by (induction ps arbitrary: s) (simp_all add: case_prod_unfold)

lemma fold_perform_rx:
  "fold perform (map (\<lambda>(j, cb). Call_rx cb r) ps) s = s\<lparr>rx_calls := rx_calls s @ map (\<lambda>(j, cb). (cb, r)) ps\<rparr>"
  by (induction ps arbitrary: s) (simp_all add: case_prod_unfold)

lemma submit_tx_inv:
  assumes inv: "tx_inv seal s" and g: "fallbackTx seal ivs now (sy_gen s) a = (r, g)"
  shows "tx_inv seal (pl_step seal unseal pj (Submit_tx ivs now posts a cb) s)"
proof -
  let ?pl = "sy_pl s"
  note I = inv [unfolded tx_inv_def]
  have r: "r = fst (fallbackTx seal ivs now (sy_gen s) a)" using g by simp
  have sync: "pool_inv (tx_possible seal) (pl_jobId ?pl) (txPending ?pl) (tx_in s) (tx_sub s @ [(a, cb)]) (tx_calls s @ [(cb, r)])"
    using tx_pool_rules(3) [OF conjunct1 [OF I], of a cb "(ivs, now, sy_gen s)"] by (simp add: r)
  have later: "pool_inv (tx_possible seal) (Suc (pl_jobId ?pl)) (txPending ?pl) (tx_in s) (tx_sub s @ [(a, cb)]) (tx_calls s @ [(cb, r)])"
    by (rule tx_pool_rules(1) [OF sync]) simp
  have new: "map_get (txPending ?pl) (pl_jobId ?pl) = None"
    using pool_invD(2) [OF conjunct1 [OF I]] by (cases "map_get (txPending ?pl) (pl_jobId ?pl)") auto
  then have del: "map_del (pl_jobId ?pl) (txPending ?pl) = txPending ?pl" by (simp add: AList.delete_id map_of_eq_None_iff)
  consider (off) "\<not> pl_alive ?pl \<or> txWorkers ?pl = 0" | (full) "pl_alive ?pl" "txWorkers ?pl \<noteq> 0" "length (txPending ?pl) \<ge> MAX_PENDING"
    | (throws) "pl_alive ?pl" "txWorkers ?pl \<noteq> 0" "length (txPending ?pl) < MAX_PENDING" "\<not> posts"
    | (post) "pl_alive ?pl" "txWorkers ?pl \<noteq> 0" "length (txPending ?pl) < MAX_PENDING" "posts"
    by linarith
  then show ?thesis
  proof cases
    case off
    then show ?thesis using sync I g by (simp add: submitTx_def tx_inv_def)
  next
    case full
    then show ?thesis using sync I g by (simp add: submitTx_def tx_inv_def)
  next
    case throws
    then show ?thesis using later I g del by (simp add: submitTx_def tx_inv_def Let_def)
  next
    case post
    then show ?thesis using tx_pool_rules(2) [OF conjunct1 [OF I], of cb "txRR ?pl mod txWorkers ?pl" a] new
      by (simp add: submitTx_def tx_inv_def Let_def length_map_put)
  qed
qed

lemma submit_rx_inv:
  assumes inv: "rx_inv unseal pj s" and g: "fallbackRx unseal pj now (sy_gen s) a = (r, g)"
  shows "rx_inv unseal pj (pl_step seal unseal pj (Submit_rx now posts a cb) s)"
proof -
  let ?pl = "sy_pl s"
  note I = inv [unfolded rx_inv_def]
  have r: "r = fst (fallbackRx unseal pj now (sy_gen s) a)" using g by simp
  have sync: "pool_inv (rx_possible unseal pj) (pl_jobId ?pl) (rxPending ?pl) (rx_in s) (rx_sub s @ [(a, cb)]) (rx_calls s @ [(cb, r)])"
    using rx_pool_rules(3) [OF conjunct1 [OF I], of a cb "(now, sy_gen s)"] by (simp add: r)
  have later: "pool_inv (rx_possible unseal pj) (Suc (pl_jobId ?pl)) (rxPending ?pl) (rx_in s) (rx_sub s @ [(a, cb)]) (rx_calls s @ [(cb, r)])"
    by (rule rx_pool_rules(1) [OF sync]) simp
  have new: "map_get (rxPending ?pl) (pl_jobId ?pl) = None"
    using pool_invD(2) [OF conjunct1 [OF I]] by (cases "map_get (rxPending ?pl) (pl_jobId ?pl)") auto
  then have del: "map_del (pl_jobId ?pl) (rxPending ?pl) = rxPending ?pl" by (simp add: AList.delete_id map_of_eq_None_iff)
  consider (off) "\<not> pl_alive ?pl \<or> rxWorkers ?pl = 0" | (full) "pl_alive ?pl" "rxWorkers ?pl \<noteq> 0" "length (rxPending ?pl) \<ge> MAX_PENDING"
    | (throws) "pl_alive ?pl" "rxWorkers ?pl \<noteq> 0" "length (rxPending ?pl) < MAX_PENDING" "\<not> posts"
    | (post) "pl_alive ?pl" "rxWorkers ?pl \<noteq> 0" "length (rxPending ?pl) < MAX_PENDING" "posts"
    by linarith
  then show ?thesis
  proof cases
    case off
    then show ?thesis using sync I g by (simp add: submitRx_def rx_inv_def)
  next
    case full
    then show ?thesis using sync I g by (simp add: submitRx_def rx_inv_def)
  next
    case throws
    then show ?thesis using later I g del by (simp add: submitRx_def rx_inv_def Let_def)
  next
    case post
    then show ?thesis using rx_pool_rules(2) [OF conjunct1 [OF I], of cb "rxRR ?pl mod rxWorkers ?pl" a] new
      by (simp add: submitRx_def rx_inv_def Let_def length_map_put)
  qed
qed

lemma tx_inv_frame:
  assumes "tx_inv seal s" "txPending (sy_pl s') = txPending (sy_pl s)" "tx_in s' = tx_in s" "tx_sub s' = tx_sub s" "tx_calls s' = tx_calls s"
    "pl_alive (sy_pl s') = pl_alive (sy_pl s)" "pl_jobId (sy_pl s) \<le> pl_jobId (sy_pl s')"
  shows "tx_inv seal s'"
  using assms tx_pool_rules(1) [OF conjunct1 [OF assms(1) [unfolded tx_inv_def]] assms(7)] by (simp add: tx_inv_def)

lemma rx_inv_frame:
  assumes "rx_inv unseal pj s" "rxPending (sy_pl s') = rxPending (sy_pl s)" "rx_in s' = rx_in s" "rx_sub s' = rx_sub s" "rx_calls s' = rx_calls s"
    "pl_alive (sy_pl s') = pl_alive (sy_pl s)" "pl_jobId (sy_pl s) \<le> pl_jobId (sy_pl s')"
  shows "rx_inv unseal pj s'"
  using assms rx_pool_rules(1) [OF conjunct1 [OF assms(1) [unfolded rx_inv_def]] assms(7)] by (simp add: rx_inv_def)

lemma submitTx_frame:
  "submitTx seal ivs now posts a cb pl g = (pl', g', acts) \<Longrightarrow>
    rxPending pl' = rxPending pl \<and> pl_alive pl' = pl_alive pl \<and> pl_jobId pl \<le> pl_jobId pl'
    \<and> (\<exists>w j r. acts = [Post_tx w j a] \<or> acts = [Call_tx cb r])"
  by (auto simp: submitTx_def Let_def split: if_splits prod.splits)

lemma submitRx_frame:
  "submitRx unseal pj now posts a cb pl g = (pl', g', acts) \<Longrightarrow>
    txPending pl' = txPending pl \<and> pl_alive pl' = pl_alive pl \<and> pl_jobId pl \<le> pl_jobId pl'
    \<and> (\<exists>w j r. acts = [Post_rx w j a] \<or> acts = [Call_rx cb r])"
  by (auto simp: submitRx_def Let_def split: if_splits prod.splits)

lemma submit_tx_rx: "rx_inv unseal pj s \<Longrightarrow> rx_inv unseal pj (pl_step seal unseal pj (Submit_tx ivs now posts a cb) s)"
proof -
  assume inv: "rx_inv unseal pj s"
  obtain pl g acts where sub: "submitTx seal ivs now posts a cb (sy_pl s) (sy_gen s) = (pl, g, acts)" by (metis prod_cases3)
  note F = submitTx_frame [OF sub]
  then obtain w j r where acts: "acts = [Post_tx w j a] \<or> acts = [Call_tx cb r]" by blast
  show ?thesis by (rule rx_inv_frame [OF inv]) (use F acts in \<open>auto simp: sub\<close>)
qed

lemma submit_rx_tx: "tx_inv seal s \<Longrightarrow> tx_inv seal (pl_step seal unseal pj (Submit_rx now posts a cb) s)"
proof -
  assume inv: "tx_inv seal s"
  obtain pl g acts where sub: "submitRx unseal pj now posts a cb (sy_pl s) (sy_gen s) = (pl, g, acts)" by (metis prod_cases3)
  note F = submitRx_frame [OF sub]
  then obtain w j r where acts: "acts = [Post_rx w j a] \<or> acts = [Call_rx cb r]" by blast
  show ?thesis by (rule tx_inv_frame [OF inv]) (use F acts in \<open>auto simp: sub\<close>)
qed

lemma tx_run_inv:
  assumes inv: "tx_inv seal s"
  shows "tx_inv seal (pl_step seal unseal pj (Tx_run ivs now w) s)"
proof (cases "tx_in s w")
  case (Cons ja rest)
  obtain j a where ja: "ja = (j, a)" by (cases ja)
  obtain r g where r: "tx_worker seal ivs now (tx_gen s w) a = (r, g)" by (cases "tx_worker seal ivs now (tx_gen s w) a")
  note I = inv [unfolded tx_inv_def]
  have job: "tx_in s w = (j, a) # rest" using Cons ja by simp
  have le: "length (map_del j (txPending (sy_pl s))) \<le> MAX_PENDING"
    using I length_delete_le [of j "txPending (sy_pl s)"] by linarith
  have report: "pool_inv (tx_possible seal) (pl_jobId (sy_pl s)) (map_del j (txPending (sy_pl s))) ((tx_in s)(w := rest)) (tx_sub s)
      (tx_calls s @ (case map_get (txPending (sy_pl s)) j of Some cb \<Rightarrow> [(cb, r)] | None \<Rightarrow> []))"
    using tx_pool_rules(4) [OF conjunct1 [OF I] job, of "(ivs, now, tx_gen s w)"] unfolding prod.case r fst_conv .
  show ?thesis
  proof (cases "map_get (txPending (sy_pl s)) j")
    case None
    then have "map_del j (txPending (sy_pl s)) = txPending (sy_pl s)" by (simp add: AList.delete_id map_of_eq_None_iff)
    then show ?thesis using report I None by (simp add: job r onTxResult_def tx_inv_def)
  next
    case (Some cb)
    then show ?thesis using report I le by (auto simp: job r onTxResult_def tx_inv_def)
  qed
qed (use inv in simp)

lemma rx_run_inv:
  assumes inv: "rx_inv unseal pj s"
  shows "rx_inv unseal pj (pl_step seal unseal pj (Rx_run now w) s)"
proof (cases "rx_in s w")
  case (Cons ja rest)
  obtain j a where ja: "ja = (j, a)" by (cases ja)
  obtain r g where r: "rx_worker unseal pj now (rx_gen s w) a = (r, g)" by (cases "rx_worker unseal pj now (rx_gen s w) a")
  note I = inv [unfolded rx_inv_def]
  have job: "rx_in s w = (j, a) # rest" using Cons ja by simp
  have le: "length (map_del j (rxPending (sy_pl s))) \<le> MAX_PENDING"
    using I length_delete_le [of j "rxPending (sy_pl s)"] by linarith
  have report: "pool_inv (rx_possible unseal pj) (pl_jobId (sy_pl s)) (map_del j (rxPending (sy_pl s))) ((rx_in s)(w := rest)) (rx_sub s)
      (rx_calls s @ (case map_get (rxPending (sy_pl s)) j of Some cb \<Rightarrow> [(cb, r)] | None \<Rightarrow> []))"
    using rx_pool_rules(4) [OF conjunct1 [OF I] job, of "(now, rx_gen s w)"] unfolding prod.case r fst_conv .
  show ?thesis
  proof (cases "map_get (rxPending (sy_pl s)) j")
    case None
    then have "map_del j (rxPending (sy_pl s)) = rxPending (sy_pl s)" by (simp add: AList.delete_id map_of_eq_None_iff)
    then show ?thesis using report I None by (simp add: job r onRxResult_def rx_inv_def)
  next
    case (Some cb)
    then show ?thesis using report I le by (auto simp: job r onRxResult_def rx_inv_def)
  qed
qed (use inv in simp)

lemma tx_run_rx: "rx_inv unseal pj s \<Longrightarrow> rx_inv unseal pj (pl_step seal unseal pj (Tx_run ivs now w) s)"
  by (erule rx_inv_frame) (auto simp: onTxResult_def split: list.splits prod.splits option.splits)

lemma rx_run_tx: "tx_inv seal s \<Longrightarrow> tx_inv seal (pl_step seal unseal pj (Rx_run now w) s)"
  by (erule tx_inv_frame) (auto simp: onRxResult_def split: list.splits prod.splits option.splits)

lemma tx_exit_inv:
  assumes inv: "tx_inv seal s"
  shows "tx_inv seal (pl_step seal unseal pj (Tx_exit now w code) s)"
proof -
  note I = inv [unfolded tx_inv_def]
  have less: "set (((tx_in s)(w := [])) v) \<subseteq> set (tx_in s v)" for v by simp
  note lost = tx_pool_rules(6) [where inbox' = "(tx_in s)(w := [])", OF conjunct1 [OF I] less]
    tx_pool_rules(5) [where inbox' = "(tx_in s)(w := [])", OF conjunct1 [OF I] less]
  show ?thesis
    by (cases "code \<noteq> 0 \<and> pl_alive (sy_pl s)")
      (use lost I in \<open>auto simp: tx_inv_def onTxExit_def fold_perform_tx simp del: fun_upd_apply\<close>)
qed

lemma rx_exit_inv:
  assumes inv: "rx_inv unseal pj s"
  shows "rx_inv unseal pj (pl_step seal unseal pj (Rx_exit now w code) s)"
proof -
  note I = inv [unfolded rx_inv_def]
  have less: "set (((rx_in s)(w := [])) v) \<subseteq> set (rx_in s v)" for v by simp
  note lost = rx_pool_rules(6) [where inbox' = "(rx_in s)(w := [])", OF conjunct1 [OF I] less]
    rx_pool_rules(5) [where inbox' = "(rx_in s)(w := [])", OF conjunct1 [OF I] less]
  show ?thesis
    by (cases "code \<noteq> 0 \<and> pl_alive (sy_pl s)")
      (use lost I in \<open>auto simp: rx_inv_def onRxExit_def fold_perform_rx simp del: fun_upd_apply\<close>)
qed

lemma tx_exit_rx: "rx_inv unseal pj s \<Longrightarrow> rx_inv unseal pj (pl_step seal unseal pj (Tx_exit now w code) s)"
  by (erule rx_inv_frame) (auto simp: onTxExit_def fold_perform_tx)

lemma rx_exit_tx: "tx_inv seal s \<Longrightarrow> tx_inv seal (pl_step seal unseal pj (Rx_exit now w code) s)"
  by (erule tx_inv_frame) (auto simp: onRxExit_def fold_perform_rx)

lemma terminate_inv:
  assumes "tx_inv seal s" "rx_inv unseal pj s"
  shows "tx_inv seal (pl_step seal unseal pj Terminate_pl s) \<and> rx_inv unseal pj (pl_step seal unseal pj Terminate_pl s)"
proof -
  note T = assms(1) [unfolded tx_inv_def] and R = assms(2) [unfolded rx_inv_def]
  have "pool_inv (tx_possible seal) (pl_jobId (sy_pl s)) [] (\<lambda>w. []) (tx_sub s) (tx_calls s @ map (\<lambda>(j, cb). (cb, Inl (Err ''Pipeline terminated''))) (txPending (sy_pl s)))"
    by (rule tx_pool_rules(5) [OF conjunct1 [OF T]]) simp
  moreover have "pool_inv (rx_possible unseal pj) (pl_jobId (sy_pl s)) [] (\<lambda>w. []) (rx_sub s) (rx_calls s @ map (\<lambda>(j, cb). (cb, Inl (Err ''Pipeline terminated''))) (rxPending (sy_pl s)))"
    by (rule rx_pool_rules(5) [OF conjunct1 [OF R]]) simp
  ultimately show ?thesis
    by (simp add: tx_inv_def rx_inv_def terminate_pipeline_def fold_perform_tx fold_perform_rx)
qed

lemma pl_step_inv:
  assumes "tx_inv seal s" "rx_inv unseal pj s"
  shows "tx_inv seal (pl_step seal unseal pj ev s) \<and> rx_inv unseal pj (pl_step seal unseal pj ev s)"
proof (cases ev)
  case (Submit_tx ivs now posts a cb)
  then show ?thesis using submit_tx_inv [OF assms(1)] submit_tx_rx [OF assms(2)] by (metis surj_pair)
next
  case (Submit_rx now posts a cb)
  then show ?thesis using submit_rx_inv [OF assms(2)] submit_rx_tx [OF assms(1)] by (metis surj_pair)
next
  case (Tx_run ivs now w)
  then show ?thesis using tx_run_inv [OF assms(1)] tx_run_rx [OF assms(2)] by blast
next
  case (Rx_run now w)
  then show ?thesis using rx_run_inv [OF assms(2)] rx_run_tx [OF assms(1)] by blast
next
  case (Tx_exit now w code)
  then show ?thesis using tx_exit_inv [OF assms(1)] tx_exit_rx [OF assms(2)] by blast
next
  case (Rx_exit now w code)
  then show ?thesis using rx_exit_inv [OF assms(2)] rx_exit_tx [OF assms(1)] by blast
next
  case Terminate_pl
  then show ?thesis using terminate_inv [OF assms] by simp
qed

lemma pl_run_inv:
  "tx_inv seal s \<Longrightarrow> rx_inv unseal pj s \<Longrightarrow> tx_inv seal (pl_run seal unseal pj evs s) \<and> rx_inv unseal pj (pl_run seal unseal pj evs s)"
  unfolding pl_run_def
proof (induction evs arbitrary: s)
  case (Cons ev evs)
  then show ?case using pl_step_inv [OF Cons.prems] by simp
qed simp

lemma new_sys_inv: "tx_inv seal (new_sys enabled tx rx g) \<and> rx_inv unseal pj (new_sys enabled tx rx g)"
  by (simp add: tx_inv_def rx_inv_def new_sys_def new_WorkerPipeline_def
      tx_pool.pool_start [unfolded possible_eq] rx_pool.pool_start [unfolded possible_eq])

section \<open>Order\<close>

text \<open>Runs in which the outgoing direction neither overflows nor fails.\<close>

fun orderly :: "'cb pl_event \<Rightarrow> 'cb pl_sys \<Rightarrow> bool" where
  "orderly (Submit_tx ivs now posts a cb) s \<longleftrightarrow> posts \<and> length (txPending (sy_pl s)) < MAX_PENDING"
| "orderly (Tx_exit now w code) s \<longleftrightarrow> False"
| "orderly Terminate_pl s \<longleftrightarrow> False"
| "orderly ev s \<longleftrightarrow> True"

fun orderly_run :: "seal \<Rightarrow> unseal \<Rightarrow> (jsstring \<Rightarrow> jsstring list option) \<Rightarrow> 'cb pl_event list \<Rightarrow> 'cb pl_sys \<Rightarrow> bool" where
  "orderly_run seal unseal pj [] s \<longleftrightarrow> True"
| "orderly_run seal unseal pj (ev # evs) s \<longleftrightarrow> orderly ev s \<and> orderly_run seal unseal pj evs (pl_step seal unseal pj ev s)"

definition fifo_inv :: "'cb pl_sys \<Rightarrow> bool" where
  "fifo_inv s \<longleftrightarrow> txWorkers (sy_pl s) = 1 \<and> pl_alive (sy_pl s)
     \<and> map fst (tx_in s 0) = map fst (txPending (sy_pl s))
     \<and> (\<forall>w. w \<noteq> 0 \<longrightarrow> tx_in s w = [])
     \<and> map snd (tx_sub s) = map fst (tx_calls s) @ map snd (txPending (sy_pl s))"

lemma map_put_new: "map_get m k = None \<Longrightarrow> map_put k v m = m @ [(k, v)]"
  by (induction m) (simp_all split: if_splits)

lemma fifo_frame:
  assumes "fifo_inv s" "txPending (sy_pl s') = txPending (sy_pl s)" "tx_in s' = tx_in s" "tx_sub s' = tx_sub s" "tx_calls s' = tx_calls s"
    "pl_alive (sy_pl s') = pl_alive (sy_pl s)" "txWorkers (sy_pl s') = txWorkers (sy_pl s)"
  shows "fifo_inv s'"
  using assms by (simp add: fifo_inv_def)

lemma fifo_step:
  assumes inv: "tx_inv seal s" and f: "fifo_inv s" and ev: "orderly ev s"
  shows "fifo_inv (pl_step seal unseal pj ev s)"
proof (cases ev)
  case (Submit_tx ivs now posts a cb)
  have new: "map_get (txPending (sy_pl s)) (pl_jobId (sy_pl s)) = None"
    using pool_invD(2) [OF conjunct1 [OF inv [unfolded tx_inv_def]]] by (cases "map_get (txPending (sy_pl s)) (pl_jobId (sy_pl s))") auto
  show ?thesis using f ev Submit_tx by (simp add: submitTx_def Let_def fifo_inv_def map_put_new [OF new])
next
  case (Tx_run ivs now w)
  show ?thesis
  proof (cases "tx_in s w")
    case Nil
    then show ?thesis using f Tx_run by simp
  next
    case (Cons ja rest)
    obtain j a where ja: "ja = (j, a)" by (cases ja)
    obtain r g where r: "tx_worker seal ivs now (tx_gen s w) a = (r, g)" by (cases "tx_worker seal ivs now (tx_gen s w) a")
    have w: "w = 0" using f Cons by (cases "w = 0") (auto simp: fifo_inv_def)
    have inb: "tx_in s 0 = (j, a) # rest" using Cons ja w by simp
    then obtain cb ps where p: "txPending (sy_pl s) = (j, cb) # ps" using f by (cases "txPending (sy_pl s)") (auto simp: fifo_inv_def)
    have "j \<notin> fst ` set ps" using pool_invD(1) [OF conjunct1 [OF inv [unfolded tx_inv_def]]] p by (simp add: wf_map_def)
    then have "map_del j (txPending (sy_pl s)) = ps" using p by (simp add: AList.delete_id)
    moreover have "map fst rest = map fst ps" using f inb p by (simp add: fifo_inv_def)
    ultimately show ?thesis using f Tx_run inb r p w by (simp add: onTxResult_def fifo_inv_def)
  qed
next
  case (Submit_rx now posts a cb)
  obtain pl g acts where sub: "submitRx unseal pj now posts a cb (sy_pl s) (sy_gen s) = (pl, g, acts)" by (metis prod_cases3)
  have "txWorkers pl = txWorkers (sy_pl s)" using sub by (auto simp: submitRx_def Let_def split: if_splits prod.splits)
  then show ?thesis using submitRx_frame [OF sub] Submit_rx by (intro fifo_frame [OF f]) (auto simp: sub)
next
  case (Rx_run now w)
  then show ?thesis by (intro fifo_frame [OF f]) (auto simp: onRxResult_def split: list.splits prod.splits option.splits)
next
  case (Rx_exit now w code)
  then show ?thesis by (intro fifo_frame [OF f]) (auto simp: onRxExit_def fold_perform_rx)
qed (use ev in simp_all)

lemma fifo_run:
  "tx_inv seal s \<Longrightarrow> rx_inv unseal pj s \<Longrightarrow> fifo_inv s \<Longrightarrow> orderly_run seal unseal pj evs s \<Longrightarrow> fifo_inv (pl_run seal unseal pj evs s)"
  unfolding pl_run_def
proof (induction evs arbitrary: s)
  case (Cons ev evs)
  then show ?case using pl_step_inv [OF Cons.prems(1,2)] fifo_step [OF Cons.prems(1,3)] by simp
qed simp

section \<open>Properties\<close>


definition demo_tx :: tx_args where
  "demo_tx = \<lparr>ta_payload = [1, 2], ta_keys = [(js ''b'', replicate 32 0)],
     ta_meta = no_options\<lparr>o_srcNode := Some (js ''a''), o_dstNode := Some (js ''b''), o_route := Some [js ''b'']\<rparr>, ta_direct = False\<rparr>"

definition demo_run :: "nat pl_sys" where
  "demo_run = pl_run demo_seal demo_unseal (\<lambda>x. None)
     [Submit_tx [replicate 12 0] 0 True demo_tx 7, Submit_tx [replicate 12 0] 0 True demo_tx 8, Terminate_pl]
     (new_sys True 1 1 (init_flow_gen 0))"


text \<open>
  Worker pipeline, order: with one outgoing worker, as long as nothing fails and fewer than \<open>MAX_PENDING\<close>
  jobs are pending, the callbacks are called in the order of submission; the pending ones are the rest.
\<close>

theorem pipeline_fifo:
  assumes "orderly_run seal unseal pj evs (new_sys True 1 rxPool g)" "s = pl_run seal unseal pj evs (new_sys True 1 rxPool g)"
  shows "map snd (tx_sub s) = map fst (tx_calls s) @ map snd (txPending (sy_pl s))"
proof -
  have "fifo_inv (new_sys True 1 rxPool g)" by (simp add: fifo_inv_def new_sys_def new_WorkerPipeline_def)
  then have "fifo_inv s" using fifo_run new_sys_inv assms by blast
  then show ?thesis by (simp add: fifo_inv_def)
qed

theorem pipeline_fifo_witness:
  "let s = pl_run demo_seal demo_unseal (\<lambda>x. None) [Submit_tx [] 0 True demo_tx (7::nat), Submit_tx [] 0 True demo_tx 8]
       (new_sys True 1 1 (init_flow_gen 0)) in
   [7, 8] = map fst (tx_calls s) @ map snd (txPending (sy_pl s)) \<and> length (txPending (sy_pl s)) = 2"
proof -
  let ?evs = "[Submit_tx [] 0 True demo_tx (7::nat), Submit_tx [] 0 True demo_tx 8]"
  define s where "s = pl_run demo_seal demo_unseal (\<lambda>x. None) ?evs (new_sys True 1 1 (init_flow_gen 0))"
  note eval = pl_run_def new_sys_def new_WorkerPipeline_def submitTx_def Let_def MAX_PENDING_def
  have o: "orderly_run demo_seal demo_unseal (\<lambda>x. None) ?evs (new_sys True 1 1 (init_flow_gen 0))" by (simp add: eval)
  have "map snd (tx_sub s) = [7, 8]" "length (txPending (sy_pl s)) = 2" by (simp_all add: s_def eval)
  then show ?thesis using pipeline_fifo [OF o s_def] unfolding s_def [symmetric] Let_def by simp
qed

text \<open>
  A job submitted while \<open>MAX_PENDING\<close> others wait is done at once: its packet is sent before theirs, although
  the caller asked for strict ordering.
\<close>

lemma overflow_overtakes:
  assumes "length (txPending pl) \<ge> MAX_PENDING" "pl_alive pl" "txWorkers pl \<noteq> 0"
  shows "\<exists>r. snd (snd (submitTx seal ivs now posts a cb pl g)) = [Call_tx cb r]
    \<and> txPending (fst (submitTx seal ivs now posts a cb pl g)) = txPending pl"
  using assms by (simp add: submitTx_def split: prod.split)

end
