(* ===== verification/Transport_Manager.thy ===== *)
theory Transport_Manager
  imports Mesh_Prelude
begin

text \<open>
  \<open>src/transport/manager.js\<close>: which transports reach which peer, and the choice of a transport for each
  packet. The transports themselves (WebRTC, QUIC, WebSocket) are outside the model: whether one accepts
  a packet is the argument \<open>accepts\<close> of a send. Handing a packet to a transport, closing one and the
  emitted events are actions.
\<close>

datatype ttype = Webrtc | Quic | Websocket | Other_transport

record tmgr =
  tm_transports :: "ttype list"
  peerTransports :: "(jsstring, ttype list) jsmap"
  preferredOrder :: "ttype list"

datatype tm_action =
    Deliver ttype jsstring buffer
  | Close_peer ttype jsstring
  | Close_all ttype
  | Emit_connected jsstring ttype
  | Emit_disconnected jsstring

definition TRANSPORT_PRIORITY :: "ttype list" where
  "TRANSPORT_PRIORITY = [Webrtc, Quic, Websocket]"

text \<open>\<open>_initTransports\<close>: every transport that the configuration does not set to \<open>false\<close>.\<close>

definition new_TransportManager :: "bool \<Rightarrow> bool \<Rightarrow> bool \<Rightarrow> ttype list option \<Rightarrow> tmgr" where
  "new_TransportManager webrtc quic websocket preferred =
     \<lparr>tm_transports = (if webrtc then [Webrtc] else []) @ (if quic then [Quic] else []) @ (if websocket then [Websocket] else []),
      peerTransports = [], preferredOrder = (case preferred of Some p \<Rightarrow> p | None \<Rightarrow> TRANSPORT_PRIORITY)\<rparr>"

definition on_peer_connected :: "ttype \<Rightarrow> jsstring \<Rightarrow> tmgr \<Rightarrow> tmgr \<times> tm_action list" where
  "on_peer_connected t peerId tm =
     (let old = (case map_get (peerTransports tm) peerId of Some ts \<Rightarrow> ts | None \<Rightarrow> []) in
      (tm\<lparr>peerTransports := map_put peerId (set_add t old) (peerTransports tm)\<rparr>, [Emit_connected peerId t]))"

definition on_peer_disconnected :: "ttype \<Rightarrow> jsstring \<Rightarrow> tmgr \<Rightarrow> tmgr \<times> tm_action list" where
  "on_peer_disconnected t peerId tm =
     (case map_get (peerTransports tm) peerId of
        Some ts \<Rightarrow>
          let ts = set_del t ts in
          if ts = [] then (tm\<lparr>peerTransports := map_del peerId (peerTransports tm)\<rparr>, [Emit_disconnected peerId])
          else (tm\<lparr>peerTransports := map_put peerId ts (peerTransports tm)\<rparr>, [])
      | None \<Rightarrow> (tm, [Emit_disconnected peerId]))"

text \<open>The loop of \<open>send\<close>: every transport that reaches the peer is tried in order until one accepts.\<close>

fun try_send :: "(ttype \<Rightarrow> bool) \<Rightarrow> ttype list \<Rightarrow> ttype list \<Rightarrow> ttype list \<Rightarrow> jsstring \<Rightarrow> buffer \<Rightarrow> bool \<times> tm_action list" where
  "try_send accepts avail ts [] peerId data = (False, [])"
| "try_send accepts avail ts (t # order) peerId data =
     (if t \<in> set ts \<and> t \<in> set avail \<and> accepts t then (True, [Deliver t peerId data])
      else try_send accepts avail ts order peerId data)"

definition send_order :: "ttype option \<Rightarrow> tmgr \<Rightarrow> ttype list" where
  "send_order preferred tm =
     (case preferred of Some p \<Rightarrow> p # filter (\<lambda>t. t \<noteq> p) (preferredOrder tm) | None \<Rightarrow> preferredOrder tm)"

definition tm_send :: "(ttype \<Rightarrow> bool) \<Rightarrow> ttype option \<Rightarrow> jsstring \<Rightarrow> buffer \<Rightarrow> tmgr \<Rightarrow> bool \<times> tm_action list" where
  "tm_send accepts preferred peerId data tm =
     (case map_get (peerTransports tm) peerId of
        None \<Rightarrow> (False, [])
      | Some ts \<Rightarrow> if ts = [] then (False, []) else try_send accepts (tm_transports tm) ts (send_order preferred tm) peerId data)"

definition tm_isConnected :: "tmgr \<Rightarrow> jsstring \<Rightarrow> bool" where
  "tm_isConnected tm peerId = (case map_get (peerTransports tm) peerId of Some ts \<Rightarrow> ts \<noteq> [] | None \<Rightarrow> False)"

definition tm_getConnectedPeers :: "tmgr \<Rightarrow> jsstring list" where
  "tm_getConnectedPeers tm = map_keys (peerTransports tm)"

definition getAvailableTransports :: "jsstring \<Rightarrow> tmgr \<Rightarrow> ttype list" where
  "getAvailableTransports peerId tm = (case map_get (peerTransports tm) peerId of Some ts \<Rightarrow> ts | None \<Rightarrow> [])"

text \<open>\<open>broadcast\<close>: what each transport answers may depend on the peer.\<close>

definition tm_broadcast :: "(jsstring \<Rightarrow> ttype \<Rightarrow> bool) \<Rightarrow> buffer \<Rightarrow> jsstring list \<Rightarrow> tmgr \<Rightarrow> (jsstring \<times> bool) list \<times> tm_action list" where
  "tm_broadcast accepts data exclude tm =
     (let peers = filter (\<lambda>p. p \<notin> set exclude) (tm_getConnectedPeers tm) in
      (map (\<lambda>p. (p, fst (tm_send (accepts p) None p data tm))) peers,
       concat (map (\<lambda>p. snd (tm_send (accepts p) None p data tm)) peers)))"

definition tm_close :: "jsstring \<Rightarrow> tmgr \<Rightarrow> tmgr \<times> tm_action list" where
  "tm_close peerId tm =
     (tm\<lparr>peerTransports := map_del peerId (peerTransports tm)\<rparr>, map (\<lambda>t. Close_peer t peerId) (tm_transports tm))"

definition tm_closeAll :: "tmgr \<Rightarrow> tmgr \<times> tm_action list" where
  "tm_closeAll tm = (tm\<lparr>peerTransports := []\<rparr>, map Close_all (tm_transports tm))"

text \<open>\<open>connectToPeer\<close>: the transport to use, given whether the WebSocket connection succeeds; \<open>None\<close> if it throws.\<close>

datatype transport_mode = Mode_websocket | Mode_auto | Mode_other

definition connectToPeer :: "transport_mode \<Rightarrow> bool \<Rightarrow> bool \<Rightarrow> tmgr \<Rightarrow> ttype option" where
  "connectToPeer mode hasUrl connects tm =
     (let ok = (Websocket \<in> set (tm_transports tm) \<and> connects) in
      if mode = Mode_websocket \<and> hasUrl then (if ok then Some Websocket else None)
      else if mode = Mode_auto \<and> hasUrl \<and> ok then Some Websocket
      else Some Webrtc)"

section \<open>Events\<close>

datatype tm_event = Up ttype jsstring | Down ttype jsstring | Drop_peer jsstring | Drop_all

fun tm_step :: "tm_event \<Rightarrow> tmgr \<Rightarrow> tmgr \<times> tm_action list" where
  "tm_step (Up t p) tm = on_peer_connected t p tm"
| "tm_step (Down t p) tm = on_peer_disconnected t p tm"
| "tm_step (Drop_peer p) tm = tm_close p tm"
| "tm_step Drop_all tm = tm_closeAll tm"

text \<open>The abstract state: the transports that are up, as a set of pairs.\<close>

definition links :: "tmgr \<Rightarrow> (jsstring \<times> ttype) set" where
  "links tm = {(p, t). \<exists>ts. map_get (peerTransports tm) p = Some ts \<and> t \<in> set ts}"

fun links_step :: "tm_event \<Rightarrow> (jsstring \<times> ttype) set \<Rightarrow> (jsstring \<times> ttype) set" where
  "links_step (Up t p) L = insert (p, t) L"
| "links_step (Down t p) L = L - {(p, t)}"
| "links_step (Drop_peer p) L = {(q, t) \<in> L. q \<noteq> p}"
| "links_step Drop_all L = {}"

definition tm_inv :: "tmgr \<Rightarrow> bool" where
  "tm_inv tm \<longleftrightarrow> (\<forall>p ts. map_get (peerTransports tm) p = Some ts \<longrightarrow> ts \<noteq> [])"

lemma tm_step_inv: "tm_inv tm \<Longrightarrow> tm_inv (fst (tm_step ev tm))"
  by (cases ev)
    (auto simp: tm_inv_def on_peer_connected_def on_peer_disconnected_def tm_close_def tm_closeAll_def set_add_def Let_def
      split: option.splits if_splits)

lemma links_get: "map_get (peerTransports tm) p = Some ts \<Longrightarrow> (p, t) \<in> links tm \<longleftrightarrow> t \<in> set ts"
    "map_get (peerTransports tm) p = None \<Longrightarrow> (p, t) \<notin> links tm"
  by (auto simp: links_def)

lemma links_put: "links (tm\<lparr>peerTransports := map_put p ts (peerTransports tm)\<rparr>) = {(q, t) \<in> links tm. q \<noteq> p} \<union> {p} \<times> set ts"
  by (auto simp: links_def split: if_splits)

lemma links_del: "links (tm\<lparr>peerTransports := map_del p (peerTransports tm)\<rparr>) = {(q, t) \<in> links tm. q \<noteq> p}"
  by (auto simp: links_def split: if_splits)

lemma links_step_refines: "links (fst (tm_step ev tm)) = links_step ev (links tm)"
proof (cases ev)
  case (Up t p)
  show ?thesis
  proof (cases "map_get (peerTransports tm) p")
    case None
    then show ?thesis using Up by (auto simp: on_peer_connected_def links_put links_get)
  next
    case (Some ts)
    then show ?thesis using Up by (auto simp: on_peer_connected_def links_put links_get)
  qed
next
  case (Down t p)
  show ?thesis
  proof (cases "map_get (peerTransports tm) p")
    case None
    then show ?thesis using Down by (auto simp: on_peer_disconnected_def links_get)
  next
    case (Some ts)
    have others: "set_del t ts = [] \<longleftrightarrow> (\<forall>x \<in> set ts. x = t)" by (simp add: set_del_def filter_empty_conv)
    show ?thesis using Some Down others links_get(1) [OF Some]
      by (auto simp: on_peer_disconnected_def Let_def links_put links_del)
  qed
next
  case (Drop_peer p)
  then show ?thesis by (auto simp: tm_close_def links_del)
next
  case Drop_all
  then show ?thesis by (auto simp: tm_closeAll_def links_def)
qed

lemma isConnected_links: "tm_isConnected tm p \<longleftrightarrow> (\<exists>t. (p, t) \<in> links tm)"
proof (cases "map_get (peerTransports tm) p")
  case (Some ts)
  then show ?thesis by (cases ts) (auto simp: tm_isConnected_def links_get)
qed (simp add: tm_isConnected_def links_get)

lemma try_send_eq:
  "try_send accepts avail ts order p d =
     (case find (\<lambda>t. t \<in> set ts \<and> t \<in> set avail \<and> accepts t) order of
        Some t \<Rightarrow> (True, [Deliver t p d]) | None \<Rightarrow> (False, []))"
  by (induction order) auto

text \<open>What a client of the manager relies on.\<close>

lemma tm_send_spec:
  "tm_send accepts pref p d tm =
     (case find (\<lambda>t. (p, t) \<in> links tm \<and> t \<in> set (tm_transports tm) \<and> accepts t) (send_order pref tm) of
        Some t \<Rightarrow> (True, [Deliver t p d]) | None \<Rightarrow> (False, []))"
proof (cases "map_get (peerTransports tm) p")
  case None
  then have "find (\<lambda>t. (p, t) \<in> links tm \<and> t \<in> set (tm_transports tm) \<and> accepts t) (send_order pref tm) = None"
    by (simp add: find_None_iff links_get)
  then show ?thesis using None by (simp add: tm_send_def)
next
  case (Some ts)
  then have "(\<lambda>t. (p, t) \<in> links tm \<and> t \<in> set (tm_transports tm) \<and> accepts t) = (\<lambda>t. t \<in> set ts \<and> t \<in> set (tm_transports tm) \<and> accepts t)"
    by (simp add: links_get)
  moreover have "find (\<lambda>t. t \<in> set [] \<and> t \<in> set (tm_transports tm) \<and> accepts t) order = None" for order
    by (simp add: find_None_iff)
  ultimately show ?thesis using Some by (auto simp: tm_send_def try_send_eq)
qed

definition tm_reports :: "tm_event list \<Rightarrow> tmgr \<Rightarrow> tmgr" where
  "tm_reports evs tm = fold (\<lambda>ev tm. fst (tm_step ev tm)) evs tm"

lemma tm_reports_simps [simp]: "tm_reports [] tm = tm" "tm_reports (ev # evs) tm = tm_reports evs (fst (tm_step ev tm))"
  by (simp_all add: tm_reports_def)

lemma tm_reports_inv: "tm_inv tm \<Longrightarrow> tm_inv (tm_reports evs tm)"
  by (induction evs arbitrary: tm) (simp_all add: tm_step_inv)

lemma tm_reports_links: "links (tm_reports evs tm) = fold links_step evs (links tm)"
  by (induction evs arbitrary: tm) (simp_all add: links_step_refines)

section \<open>Properties\<close>

text \<open>
  (C18) Transport manager: it implements the set of links that are up. After any sequence of transport events and
  closes the peers reported as connected are exactly those with a link; a packet goes, exactly once, to the
  first transport in the order of preference that is up for the peer and accepts it, \<open>send\<close> is true exactly
  if there is one, and a disconnect is announced only when no link is left.
\<close>

theorem transport_manager_refines:
  "let tm = tm_reports evs (new_TransportManager webrtc quic websocket order); up = fold links_step evs {} in
     (tm_isConnected tm p \<longleftrightarrow> (\<exists>t. (p, t) \<in> up))
     \<and> tm_send accepts pref p d tm =
         (case find (\<lambda>t. (p, t) \<in> up \<and> t \<in> set (tm_transports tm) \<and> accepts t) (send_order pref tm) of
            Some t \<Rightarrow> (True, [Deliver t p d]) | None \<Rightarrow> (False, []))
     \<and> (Emit_disconnected p \<in> set (snd (tm_step (Down t p) tm)) \<longleftrightarrow> {t'. (p, t') \<in> up} \<subseteq> {t})"
proof -
  define tm where "tm = tm_reports evs (new_TransportManager webrtc quic websocket order)"
  define up where "up = fold links_step evs {}"
  have "links (new_TransportManager webrtc quic websocket order) = {}" by (simp add: links_def new_TransportManager_def)
  then have up: "links tm = up" by (simp add: tm_def up_def tm_reports_links)
  have "Emit_disconnected p \<in> set (snd (on_peer_disconnected t p tm)) \<longleftrightarrow> {t'. (p, t') \<in> up} \<subseteq> {t}"
    unfolding up [symmetric]
    by (cases "map_get (peerTransports tm) p")
      (auto simp: on_peer_disconnected_def Let_def links_get set_del_def filter_empty_conv)
  then show ?thesis
    using isConnected_links [of tm p] tm_send_spec [of accepts pref p d tm] unfolding up tm_def [symmetric] up_def [symmetric] Let_def by simp
qed

end
