(* ===== verification/Mesh_Node.thy ===== *)
theory Mesh_Node
  imports Mesh_Router Multipath IP_Packet Worker_Pipeline Transport_Manager Framing
begin

text \<open>
  The data path of \<open>src/core/node.js\<close>: packets from the TUN device to an exit, messages from the
  transports, forwarding with loop prevention, the exit side, the retry queues, keepalive and the
  reactions to peers that come and go. Jobs for the worker pipeline are actions with a callback; the
  callbacks are operations of their own. The configuration of the operating system (TUN set-up, NAT rules,
  timers) and the debug counters of \<open>metrics\<close> are left out. \<open>parseIPPacket\<close> never throws, so an error of it needs no branch of its own. A latency that is not a number is stored as 0,
  which the searches treat alike.
\<close>

section \<open>State\<close>

record loop_stats =
  ttlDropped :: nat
  duplicateDropped :: nat
  loopDropped :: nat
  splitHorizonDropped :: nat
  totalProcessed :: nat
  totalForwarded :: nat

record traffic_stats =
  bytesSent :: nat
  bytesReceived :: nat
  packetsSent :: nat
  packetsReceived :: nat

text \<open>The \<open>flush\<close> callbacks that are queued with a packet.\<close>

datatype flush = No_flush | Count_forwarded | Count_sent nat

record nat_mapping =
  nm_srcNodeId :: "jsstring option"
  nm_createdAt :: int

record tcp_conn =
  tc_seqNum :: nat
  tc_ackNum :: nat
  tc_lastUsed :: int

type_synonym five_tuple = "ipv4 \<times> nat \<times> ipv4 \<times> nat \<times> nat"

record mnode =
  m_nodeId :: jsstring
  m_isExit :: bool
  m_isRelay :: bool
  m_isClient :: bool
  m_role :: jsstring
  m_directMode :: bool
  m_running :: bool
  m_virtualIp :: "ipv4 option"
  strictTransportOrdering :: bool
  sendRetryMaxPackets :: nat
  sendRetryQueues :: "(jsstring, (buffer \<times> flush) list) jsmap"
  processedPackets :: "(jsstring, int) jsmap"
  packetCacheTTL :: int
  loopStats :: loop_stats
  trafficStats :: traffic_stats
  natMappings :: "(five_tuple, nat_mapping) jsmap"
  natMappingTimeout :: int
  m_tcpConnections :: "(jsstring, tcp_conn) jsmap"
  tcpConnectionTimeout :: int
  m_tm :: tmgr
  m_router :: router
  m_sessions :: sessions
  m_scheduler :: scheduler
  m_reorder :: reorder_buffer
  m_gen :: flow_gen
  m_userSpaceNAT :: bool
  m_tun :: bool
  m_tunRunning :: bool
  m_wsPeers :: "jsstring list option"

datatype node_cb =
    Cb_client
  | Cb_exit jsstring bool
  | Cb_rx

datatype node_action =
    Tm tm_action
  | Ws_send jsstring buffer
  | Tun_inject buffer
  | Nat_handle buffer "jsstring option"
  | Job_tx tx_args node_cb
  | Job_rx rx_args node_cb
  | Packet_received buffer

text \<open>The roles of a node, from the flags of its configuration.\<close>

record node_config =
  nc_natEnabled :: bool
  nc_relay :: bool
  nc_enableTun :: "bool option"
  nc_role :: "jsstring option"
  nc_preferredOrder :: "ttype list option"
  nc_routeTTL :: "int option"
  nc_strategy :: strategy
  nc_reorderWindow :: "nat option"
  nc_reorderTimeout :: "int option"
  nc_packetCacheTTL :: "int option"
  nc_tcpTimeout :: "int option"
  nc_natTimeout :: "int option"
  nc_strictOrdering :: "bool option"
  nc_maxPacketsPerPeer :: "nat option"
  nc_natMode :: "jsstring option"
  nc_directMode :: bool
  nc_dataServerPort :: bool

definition cfg_hasTun :: "node_config \<Rightarrow> bool" where
  "cfg_hasTun c = (if nc_enableTun c = Some True then True
     else nc_role c = Some (js ''client'') \<or> nc_role c = Some (js ''client-relay''))"

definition cfg_isExit :: "node_config \<Rightarrow> bool" where
  "cfg_isExit c \<longleftrightarrow> nc_natEnabled c \<or> nc_role c = Some (js ''exit'')"

definition cfg_isRelay :: "node_config \<Rightarrow> bool" where
  "cfg_isRelay c \<longleftrightarrow> nc_relay c \<or> nc_role c = Some (js ''relay'') \<or> nc_role c = Some (js ''client-relay'')"

definition cfg_isClient :: "node_config \<Rightarrow> bool" where
  "cfg_isClient c \<longleftrightarrow> cfg_hasTun c \<and> \<not> cfg_isExit c"

definition cfg_role :: "node_config \<Rightarrow> jsstring" where
  "cfg_role c =
     (if cfg_isExit c then js ''exit'' else if cfg_isRelay c \<and> \<not> cfg_isClient c then js ''relay''
      else case nc_role c of Some (x # xs) \<Rightarrow> x # xs | _ \<Rightarrow> js ''client'')"

definition cfg_natMode :: "node_config \<Rightarrow> jsstring" where
  "cfg_natMode c = (case nc_natMode c of Some (x # xs) \<Rightarrow> x # xs | _ \<Rightarrow> js ''system'')"

text \<open>
  The constructor. The node asks discovery for session keys, so \<open>m_sessions\<close> is the session manager of
  discovery; the router gets the node's own, which nothing ever fills. The flow id of the scheduler, its random
  numbers and the flow generator of the packets are arguments.
\<close>

definition or_default :: "int \<Rightarrow> int option \<Rightarrow> int" where
  "or_default d x = (case x of Some v \<Rightarrow> if v = 0 then d else v | None \<Rightarrow> d)"

definition new_MeshNode :: "node_config \<Rightarrow> jsstring \<Rightarrow> jsstring \<Rightarrow> (nat \<Rightarrow> rat) \<Rightarrow> flow_gen \<Rightarrow> mnode" where
  "new_MeshNode c nodeId flowId rnd g =
     \<lparr>m_nodeId = nodeId, m_isExit = cfg_isExit c, m_isRelay = cfg_isRelay c, m_isClient = cfg_isClient c, m_role = cfg_role c,
      m_directMode = nc_directMode c, m_running = False, m_virtualIp = None,
      strictTransportOrdering = (nc_strictOrdering c \<noteq> Some False),
      sendRetryMaxPackets = (case nc_maxPacketsPerPeer c of Some n \<Rightarrow> n | None \<Rightarrow> 4000), sendRetryQueues = [],
      processedPackets = [], packetCacheTTL = or_default 60000 (nc_packetCacheTTL c),
      loopStats = \<lparr>ttlDropped = 0, duplicateDropped = 0, loopDropped = 0, splitHorizonDropped = 0, totalProcessed = 0, totalForwarded = 0\<rparr>,
      trafficStats = \<lparr>bytesSent = 0, bytesReceived = 0, packetsSent = 0, packetsReceived = 0\<rparr>,
      natMappings = [], natMappingTimeout = or_default 300000 (nc_natTimeout c),
      m_tcpConnections = [], tcpConnectionTimeout = or_default 300000 (nc_tcpTimeout c),
      m_tm = new_TransportManager True True True (nc_preferredOrder c),
      m_router = new_MeshRouter nodeId (nc_routeTTL c) [], m_sessions = [],
      m_scheduler = new_MultipathScheduler flowId (nc_strategy c) rnd,
      m_reorder = new_ReorderBuffer (nc_reorderWindow c) (nc_reorderTimeout c), m_gen = g,
      m_userSpaceNAT = (cfg_isExit c \<and> cfg_natMode c = js ''userspace''), m_tun = False, m_tunRunning = False,
      m_wsPeers = (if cfg_isExit c \<and> nc_dataServerPort c then Some [] else None)\<rparr>"

text \<open>
  \<open>registered\<close>: the virtual address and the TUN device of a client or of an exit with system NAT. A second
  registration is ignored when there is a TUN device; \<open>tunOk\<close> says whether its set-up succeeds.
\<close>

definition node_registered :: "node_config \<Rightarrow> ipv4 \<Rightarrow> bool \<Rightarrow> mnode \<Rightarrow> mnode" where
  "node_registered c ip tunOk m =
     (if m_tun m then
        (if m_virtualIp m = None then m\<lparr>m_virtualIp := Some ip, m_tunRunning := tunOk\<rparr> else m)
      else
        let m = m\<lparr>m_virtualIp := Some ip\<rparr> in
        if m_isExit m \<and> cfg_natMode c = js ''userspace'' then m
        else if (m_isClient m \<or> m_isExit m \<and> cfg_natMode c = js ''system'') \<and> nc_enableTun c \<noteq> Some False
        then m\<lparr>m_tun := True, m_tunRunning := tunOk\<rparr> else m)"

definition ws_peer_connected :: "int \<Rightarrow> jsstring \<Rightarrow> info_patch \<Rightarrow> mnode \<Rightarrow> mnode" where
  "ws_peer_connected now peerId info m = m\<lparr>m_router := addLocalConnection now peerId info (m_router m)\<rparr>"

definition ws_peer_disconnected :: "int \<Rightarrow> jsstring \<Rightarrow> mnode \<Rightarrow> mnode" where
  "ws_peer_disconnected now peerId m = m\<lparr>m_router := removeLocalConnection now peerId (m_router m)\<rparr>"

section \<open>Duplicates and caches\<close>

definition packet_key :: "packet \<Rightarrow> jsstring" where
  "packet_key p = p_flowId p @ 58 # int_str (p_seq p)"

definition isPacketDuplicate :: "int \<Rightarrow> packet \<Rightarrow> mnode \<Rightarrow> bool \<times> mnode" where
  "isPacketDuplicate now p m =
     (if map_get (processedPackets m) (packet_key p) \<noteq> None then (True, m)
      else (False, m\<lparr>processedPackets := map_put (packet_key p) now (processedPackets m)\<rparr>))"

definition cleanupTcpConnections :: "int \<Rightarrow> mnode \<Rightarrow> mnode" where
  "cleanupTcpConnections now m =
     m\<lparr>m_tcpConnections := filter (\<lambda>(_, c). \<not> now - tc_lastUsed c > tcpConnectionTimeout m) (m_tcpConnections m),
       natMappings := filter (\<lambda>(_, x). \<not> now - nm_createdAt x > natMappingTimeout m) (natMappings m)\<rparr>"

definition cacheCleanup :: "int \<Rightarrow> mnode \<Rightarrow> mnode" where
  "cacheCleanup now m = cleanupTcpConnections now
     (m\<lparr>processedPackets := filter (\<lambda>(_, ts). \<not> now - ts > packetCacheTTL m) (processedPackets m)\<rparr>)"

definition count_drop :: "(loop_stats \<Rightarrow> loop_stats) \<Rightarrow> mnode \<Rightarrow> mnode" where
  "count_drop f m = m\<lparr>loopStats := f (loopStats m)\<rparr>"

section \<open>Sending\<close>

fun run_flush :: "flush \<Rightarrow> mnode \<Rightarrow> mnode" where
  "run_flush No_flush m = m"
| "run_flush Count_forwarded m = m\<lparr>loopStats := (loopStats m)\<lparr>totalForwarded := totalForwarded (loopStats m) + 1\<rparr>\<rparr>"
| "run_flush (Count_sent n) m = m\<lparr>trafficStats := (trafficStats m)\<lparr>bytesSent := bytesSent (trafficStats m) + n,
     packetsSent := packetsSent (trafficStats m) + 1\<rparr>\<rparr>"

text \<open>
  The loop of \<open>_drainSendRetryQueue\<close>; \<open>oracle\<close> says for each send in turn which transports accept it (none,
  when the list is used up). The remaining queue, the state and the deliveries are returned.
\<close>

fun drain_loop :: "jsstring \<Rightarrow> (ttype \<Rightarrow> bool) list \<Rightarrow> (buffer \<times> flush) list \<Rightarrow> mnode \<Rightarrow> (buffer \<times> flush) list \<times> mnode \<times> node_action list" where
  "drain_loop peerId orc [] m = ([], m, [])"
| "drain_loop peerId orc ((serialized, f) # q) m =
     (if \<not> tm_isConnected (m_tm m) peerId then ((serialized, f) # q, m, [])
      else case tm_send (case orc of [] \<Rightarrow> \<lambda>t. False | acc # _ \<Rightarrow> acc) None peerId serialized (m_tm m) of
        (True, acts) \<Rightarrow>
          (case drain_loop peerId (tl orc) q (run_flush f m) of (rest, m, acts') \<Rightarrow> (rest, m, map Tm acts @ acts'))
      | (False, acts) \<Rightarrow> ((serialized, f) # q, m, map Tm acts))"

definition drainSendRetryQueue :: "jsstring \<Rightarrow> (ttype \<Rightarrow> bool) list \<Rightarrow> mnode \<Rightarrow> mnode \<times> node_action list" where
  "drainSendRetryQueue peerId orc m =
     (case map_get (sendRetryQueues m) peerId of
        None \<Rightarrow> (m, [])
      | Some [] \<Rightarrow> (m, [])
      | Some q \<Rightarrow>
          (case drain_loop peerId orc q m of (rest, m, acts) \<Rightarrow>
           (m\<lparr>sendRetryQueues := (if rest = [] then map_del peerId (sendRetryQueues m) else map_put peerId rest (sendRetryQueues m))\<rparr>, acts)))"

definition clearSendRetryQueue :: "jsstring \<Rightarrow> mnode \<Rightarrow> mnode" where
  "clearSendRetryQueue peerId m = m\<lparr>sendRetryQueues := map_del peerId (sendRetryQueues m)\<rparr>"

definition transportSendWithRetry :: "(ttype \<Rightarrow> bool) \<Rightarrow> jsstring \<Rightarrow> buffer \<Rightarrow> flush \<Rightarrow> mnode \<Rightarrow> bool \<times> mnode \<times> node_action list" where
  "transportSendWithRetry acc peerId serialized f m =
     (if \<not> tm_isConnected (m_tm m) peerId then (False, m, [])
      else
        let q = (case map_get (sendRetryQueues m) peerId of Some q \<Rightarrow> q | None \<Rightarrow> []);
            enqueue = m\<lparr>sendRetryQueues := map_put peerId (q @ [(serialized, f)]) (sendRetryQueues m)\<rparr> in
        if strictTransportOrdering m \<and> q \<noteq> [] then
          (if length q \<ge> sendRetryMaxPackets m then (False, m, []) else (True, enqueue, []))
        else
          case tm_send acc None peerId serialized (m_tm m) of
            (True, acts) \<Rightarrow> (True, run_flush f m, map Tm acts)
          | (False, acts) \<Rightarrow>
              if strictTransportOrdering m then (True, m\<lparr>sendRetryQueues := map_put peerId [(serialized, f)] (sendRetryQueues m)\<rparr>, map Tm acts)
              else if length q \<ge> sendRetryMaxPackets m
                then (False, m\<lparr>sendRetryQueues := map_put peerId q (sendRetryQueues m)\<rparr>, map Tm acts)
                else (True, enqueue, map Tm acts))"

definition rawSend :: "(ttype \<Rightarrow> bool) \<Rightarrow> bool \<Rightarrow> jsstring \<Rightarrow> buffer \<Rightarrow> mnode \<Rightarrow> bool \<times> mnode \<times> node_action list" where
  "rawSend acc wsOk peerId data m =
     (if (case m_wsPeers m of Some ps \<Rightarrow> peerId \<in> set ps | None \<Rightarrow> False)
      then (wsOk, m, if wsOk then [Ws_send peerId data] else [])
      else if tm_isConnected (m_tm m) peerId then transportSendWithRetry acc peerId data No_flush m
      else (False, m, []))"

section \<open>From the TUN device into the mesh\<close>

definition mesh_ip :: "ipv4 \<Rightarrow> bool" where
  "mesh_ip ip \<longleftrightarrow> (case ip of (a, b, _, _) \<Rightarrow> a = 10 \<and> b = 200)"

fun session_keys :: "sessions \<Rightarrow> jsstring list \<Rightarrow> (jsstring \<times> buffer) list option" where
  "session_keys ss [] = Some []"
| "session_keys ss (nodeId # route) =
     (case getSessionKey ss nodeId of
        None \<Rightarrow> None
      | Some key \<Rightarrow> map_option (\<lambda>rs. (nodeId, key) # rs) (session_keys ss route))"

definition sendThroughMesh :: "buffer \<Rightarrow> jsstring list \<Rightarrow> jsstring \<Rightarrow> mnode \<Rightarrow> node_action list" where
  "sendThroughMesh payload route exitNode m =
     (case session_keys (m_sessions m) route of
        None \<Rightarrow> []
      | Some routeWithKeys \<Rightarrow>
          [Job_tx \<lparr>ta_payload = payload, ta_keys = routeWithKeys,
             ta_meta = no_options\<lparr>o_type := Some (if m_directMode m then PT_DATA_DIRECT else PT_DATA),
                o_srcNode := Some (m_nodeId m), o_dstNode := Some exitNode, o_route := Some route\<rparr>,
             ta_direct = m_directMode m\<rparr> Cb_client])"

definition handleOutboundPacket :: "int \<Rightarrow> buffer \<Rightarrow> mnode \<Rightarrow> mnode \<times> node_action list" where
  "handleOutboundPacket now ipPacket m =
     (if \<not> m_running m then (m, [])
      else case parseIPPacket ipPacket of
        Inr (Valid parsed) \<Rightarrow>
          if \<not> mesh_ip (srcIp parsed) then (m, [])
          else if Some (srcIp parsed) = m_virtualIp m \<and> Some (dstIp parsed) = m_virtualIp m then (m, [])
          else (case findRouteToExit now None (m_router m) of (found, r) \<Rightarrow>
                let m = m\<lparr>m_router := r\<rparr> in
                case found of
                  None \<Rightarrow> (m, [])
                | Some (route, exitNode) \<Rightarrow> (m, sendThroughMesh ipPacket route exitNode m))
      | _ \<Rightarrow> (m, []))"

text \<open>The callback of the job: an error is only counted.\<close>

definition on_tx_client :: "(ttype \<Rightarrow> bool) \<Rightarrow> tx_result res \<Rightarrow> mnode \<Rightarrow> mnode \<times> node_action list" where
  "on_tx_client acc r m =
     (case r of
        Inl e \<Rightarrow> (m, [])
      | Inr x \<Rightarrow> (case tr_nextHop x of
            None \<Rightarrow> (m, [])
          | Some hop \<Rightarrow> snd (transportSendWithRetry acc hop (tr_serialized x) (Count_sent (tr_payloadLen x)) m)))"

section \<open>Messages from the transports\<close>

text \<open>The third component of a result is the error the handler throws, if any; the changes made before it stay.\<close>

type_synonym node_out = "mnode \<times> node_action list \<times> js_error option"

definition forwardPacket :: "int \<Rightarrow> (ttype \<Rightarrow> bool) \<Rightarrow> packet \<Rightarrow> jsstring \<Rightarrow> buffer \<Rightarrow> jsstring option \<Rightarrow> mnode \<Rightarrow> node_out" where
  "forwardPacket now acc orig nextHop newPayload from m =
     (if Some nextHop = from then
        (count_drop (\<lambda>s. s\<lparr>splitHorizonDropped := splitHorizonDropped s + 1\<rparr>) m, [], None)
      else if Some nextHop = p_srcNode orig then
        (count_drop (\<lambda>s. s\<lparr>loopDropped := loopDropped s + 1\<rparr>) m, [], None)
      else
        (case clone now (m_gen m) orig of (pkt, g) \<Rightarrow>
         let pkt = incrementHop (pkt\<lparr>p_payload := newPayload\<rparr>); m = m\<lparr>m_gen := g\<rparr> in
         case serialize pkt of
           Inl e \<Rightarrow> (m, [], Some e)
         | Inr serialized \<Rightarrow>
             (case transportSendWithRetry acc nextHop serialized Count_forwarded m of (ok, m, acts) \<Rightarrow> (m, acts, None))))"

text \<open>\<open>_processReorderedPacket\<close> for what the reorder buffer hands out.\<close>

definition processReorderedPacket :: "buffer \<Rightarrow> mnode \<Rightarrow> mnode \<times> node_action list" where
  "processReorderedPacket payload m =
     (m\<lparr>trafficStats := (trafficStats m)\<lparr>bytesReceived := bytesReceived (trafficStats m) + length payload,
          packetsReceived := packetsReceived (trafficStats m) + 1\<rparr>\<rparr>,
      (if m_tun m \<and> m_tunRunning m then [Tun_inject payload] else []) @ [Packet_received payload])"

fun process_reordered :: "multi_packet list \<Rightarrow> mnode \<Rightarrow> mnode \<times> node_action list" where
  "process_reordered [] m = (m, [])"
| "process_reordered (p # ps) m =
     (case processReorderedPacket (mk_payload p) m of (m, acts) \<Rightarrow>
      case process_reordered ps m of (m, acts') \<Rightarrow> (m, acts @ acts'))"

definition reorder_add :: "int \<Rightarrow> multi_packet \<Rightarrow> mnode \<Rightarrow> mnode \<times> node_action list" where
  "reorder_add now p m =
     (case addPacket now p (m_reorder m) of (out, b) \<Rightarrow> process_reordered out (m\<lparr>m_reorder := b\<rparr>))"

definition tuple_of :: "parsed_ip \<Rightarrow> five_tuple" where
  "tuple_of p = (srcIp p, srcPort p, dstIp p, dstPort p, protocol p)"

definition reply_tuple :: "parsed_ip \<Rightarrow> five_tuple" where
  "reply_tuple p = (dstIp p, dstPort p, srcIp p, srcPort p, protocol p)"

definition processExitPacket :: "int \<Rightarrow> jsstring option \<Rightarrow> buffer \<Rightarrow> mnode \<Rightarrow> mnode \<times> node_action list" where
  "processExitPacket now srcNode payload m =
     (if m_userSpaceNAT m then (m, [Nat_handle payload srcNode])
      else if \<not> m_tun m then (m, [])
      else case parseIPPacket payload of
        Inr (Valid parsed) \<Rightarrow>
          (m\<lparr>natMappings := map_put (tuple_of parsed) \<lparr>nm_srcNodeId = srcNode, nm_createdAt = now\<rparr> (natMappings m)\<rparr>,
           [Tun_inject payload])
      | _ \<Rightarrow> (m, []))"

text \<open>The checks that a data packet passes before it is used; \<open>None\<close> if it is dropped.\<close>

definition loop_checks :: "int \<Rightarrow> packet \<Rightarrow> mnode \<Rightarrow> packet option \<times> mnode" where
  "loop_checks now pkt m =
     (let ttl_drop = count_drop (\<lambda>s. s\<lparr>ttlDropped := ttlDropped s + 1\<rparr>) in
      if isTTLExpired pkt then (None, ttl_drop m)
      else case isPacketDuplicate now pkt m of (dup, m) \<Rightarrow>
        if dup then (None, count_drop (\<lambda>s. s\<lparr>duplicateDropped := duplicateDropped s + 1\<rparr>) m)
        else if hasVisited pkt (m_nodeId m) then (None, count_drop (\<lambda>s. s\<lparr>loopDropped := loopDropped s + 1\<rparr>) m)
        else case decrementTTL (addVisitedNode pkt (m_nodeId m)) of (pkt, alive) \<Rightarrow>
          if alive then (Some pkt, m) else (None, ttl_drop m))"

definition count_processed :: "mnode \<Rightarrow> mnode" where
  "count_processed = count_drop (\<lambda>s. s\<lparr>totalProcessed := totalProcessed s + 1\<rparr>)"

definition no_error :: "mnode \<times> node_action list \<Rightarrow> node_out" where
  "no_error r = (fst r, snd r, None)"

definition handleRxWorkerResult :: "int \<Rightarrow> (ttype \<Rightarrow> bool) \<Rightarrow> rx_data \<Rightarrow> mnode \<Rightarrow> node_out" where
  "handleRxWorkerResult now acc rd m =
     (if rd_type rd = PT_DATA then
        (case new_Packet now (m_gen m) (rd_meta rd) of (pkt, g) \<Rightarrow>
         case loop_checks now pkt (count_processed (m\<lparr>m_gen := g\<rparr>)) of
           (None, m) \<Rightarrow> (m, [], None)
         | (Some pkt, m) \<Rightarrow>
             if rd_isExit rd then
               (if m_isExit m then no_error (processExitPacket now (p_srcNode pkt) (rd_payload rd) m)
                else if m_isClient m \<and> o_dstNode (rd_meta rd) = Some (m_nodeId m) then
                  no_error (reorder_add now \<lparr>mk_flowId = p_flowId pkt, mk_seq = nat (p_seq pkt), mk_payload = rd_payload rd, mk_totalPaths = Some 1\<rparr> m)
                else (m, [], None))
             else (case rd_nextHop rd of
                 Some (x # xs) \<Rightarrow> forwardPacket now acc pkt (x # xs) (rd_payload rd) (Some (rd_peer rd)) m
               | _ \<Rightarrow> (m, [], None)))
      else if rd_type rd = PT_DATA_DIRECT then
        (case new_Packet now (m_gen m) (rd_meta rd) of (pkt, g) \<Rightarrow>
         let m' = count_processed m in
         if m_isExit m then no_error (processExitPacket now (p_srcNode pkt) (rd_payload rd) (m'\<lparr>m_gen := g\<rparr>))
         else if m_isClient m then
           no_error (reorder_add now \<lparr>mk_flowId = p_flowId pkt, mk_seq = nat (p_seq pkt), mk_payload = rd_payload rd, mk_totalPaths = None\<rparr> m')
         else (m', [], None))
      else (m, [], None))"

definition on_rx :: "int \<Rightarrow> (ttype \<Rightarrow> bool) \<Rightarrow> rx_result res \<Rightarrow> mnode \<Rightarrow> node_out" where
  "on_rx now acc r m =
     (case r of Inr (Rx_packet rd) \<Rightarrow> handleRxWorkerResult now acc rd m | _ \<Rightarrow> (m, [], None))"

text \<open>The synchronous variant of the same work, kept in the class but not called any more.\<close>

definition handleDataPacket :: "unseal \<Rightarrow> int \<Rightarrow> (ttype \<Rightarrow> bool) \<Rightarrow> jsstring \<Rightarrow> packet \<Rightarrow> mnode \<Rightarrow> mnode \<times> node_action list" where
  "handleDataPacket unseal now acc peerId packet m =
     (case loop_checks now packet (count_processed m) of
        (None, m) \<Rightarrow> (m, [])
      | (Some pkt, m) \<Rightarrow>
          (case getSessionKey (m_sessions m) peerId of
             None \<Rightarrow> (m, [])
           | Some key \<Rightarrow>
               (case peelOnionLayer unseal (p_payload pkt) key of
                  Inl e \<Rightarrow> (m, [])
                | Inr l \<Rightarrow>
                    if l_isExit l then
                      (if m_isExit m then processExitPacket now (p_srcNode pkt) (l_payload l) m
                       else if m_isClient m \<and> p_dstNode pkt = Some (m_nodeId m) then
                         reorder_add now \<lparr>mk_flowId = p_flowId pkt, mk_seq = nat (p_seq pkt), mk_payload = l_payload l, mk_totalPaths = Some 1\<rparr> m
                       else (m, []))
                    else (case l_nextHop l of
                        Some (x # xs) \<Rightarrow> (case forwardPacket now acc pkt (x # xs) (l_payload l) (Some peerId) m of (m, acts, e) \<Rightarrow> (m, acts))
                      | _ \<Rightarrow> (m, [])))))"

definition handleDirectDataPacket :: "unseal \<Rightarrow> int \<Rightarrow> (ttype \<Rightarrow> bool) \<Rightarrow> jsstring \<Rightarrow> packet \<Rightarrow> mnode \<Rightarrow> node_out" where
  "handleDirectDataPacket unseal now acc peerId packet m =
     (let m = count_processed m in
      if p_dstNode packet \<noteq> Some (m_nodeId m) then
        (case serialize packet of
           Inl e \<Rightarrow> (m, [], Some e)
         | Inr serialized \<Rightarrow>
             (case p_dstNode packet of
                None \<Rightarrow> (m, [], None)
              | Some dst \<Rightarrow> (case transportSendWithRetry acc dst serialized No_flush m of (ok, m, acts) \<Rightarrow> (m, acts, None))))
      else
        (case p_srcNode packet of
           None \<Rightarrow> (m, [], None)
         | Some src \<Rightarrow>
             (case getSessionKey (m_sessions m) src of
                None \<Rightarrow> (m, [], None)
              | Some key \<Rightarrow>
                  (case decrypt unseal (p_payload packet) key of
                     Inl e \<Rightarrow> (m, [], None)
                   | Inr payload \<Rightarrow>
                       if m_isExit m then no_error (processExitPacket now (p_srcNode packet) payload m)
                       else if m_isClient m then
                         no_error (reorder_add now \<lparr>mk_flowId = p_flowId packet, mk_seq = nat (p_seq packet), mk_payload = payload, mk_totalPaths = None\<rparr> m)
                       else (m, [], None)))))"

section \<open>Keepalive and acknowledgements\<close>

definition handlePing :: "int \<Rightarrow> (ttype \<Rightarrow> bool) \<Rightarrow> bool \<Rightarrow> jsstring \<Rightarrow> packet \<Rightarrow> mnode \<Rightarrow> node_out" where
  "handlePing now acc wsOk peerId packet m =
     (case new_Packet now (m_gen m) (no_options\<lparr>o_type := Some PT_PONG, o_srcNode := Some (m_nodeId m),
         o_dstNode := Some peerId, o_payload := Some (utf8_encode (int_str (p_timestamp packet)))\<rparr>) of (pong, g) \<Rightarrow>
      let m = m\<lparr>m_gen := g\<rparr> in
      case serialize pong of
        Inl e \<Rightarrow> (m, [], Some e)
      | Inr serialized \<Rightarrow> (case rawSend acc wsOk peerId serialized m of (ok, m, acts) \<Rightarrow> (m, acts, None)))"

text \<open>\<open>parseInt(s, 10)\<close>: white space, a sign, the leading digits; \<open>None\<close> is \<open>NaN\<close>.\<close>

definition parseInt :: "jsstring \<Rightarrow> int option" where
  "parseInt s =
     (let s = dropWhile (\<lambda>c. c = 32 \<or> 9 \<le> c \<and> c \<le> 13) s;
          neg = (take 1 s = [45]);
          s = (if take 1 s = [45] \<or> take 1 s = [43] then tl s else s);
          ds = takeWhile (\<lambda>c. 48 \<le> c \<and> c \<le> 57) s in
      if ds = [] then None else Some (if neg then - int (from_radix 10 ds) else int (from_radix 10 ds)))"

definition handlePong :: "int \<Rightarrow> jsstring \<Rightarrow> packet \<Rightarrow> mnode \<Rightarrow> mnode" where
  "handlePong now peerId packet m =
     (let latency = (case parseInt (utf8_decode (p_payload packet)) of Some t \<Rightarrow> now - t | None \<Rightarrow> 0) in
      m\<lparr>m_router := router_updateEdgeMetrics now peerId (no_metrics\<lparr>mp_latency := Some latency\<rparr>) (m_router m)\<rparr>)"

definition handleAck :: "int \<Rightarrow> jsstring \<Rightarrow> packet \<Rightarrow> mnode \<Rightarrow> mnode" where
  "handleAck now peerId packet m = m\<lparr>m_scheduler := recordAck peerId (now - p_timestamp packet) (m_scheduler m)\<rparr>"

definition sendPing :: "int \<Rightarrow> (ttype \<Rightarrow> bool) \<Rightarrow> jsstring \<Rightarrow> mnode \<Rightarrow> node_out" where
  "sendPing now acc peerId m =
     (case new_Packet now (m_gen m) (no_options\<lparr>o_type := Some PT_PING, o_srcNode := Some (m_nodeId m), o_dstNode := Some peerId\<rparr>) of (ping, g) \<Rightarrow>
      let m = m\<lparr>m_gen := g\<rparr> in
      case serialize ping of
        Inl e \<Rightarrow> (m, [], Some e)
      | Inr serialized \<Rightarrow> (case transportSendWithRetry acc peerId serialized No_flush m of (ok, m, acts) \<Rightarrow> (m, acts, None)))"

section \<open>One message\<close>

definition processIncomingMessage :: "unseal \<Rightarrow> (jsstring \<Rightarrow> jsstring list option) \<Rightarrow> int \<Rightarrow> (ttype \<Rightarrow> bool) \<Rightarrow> bool \<Rightarrow> jsstring \<Rightarrow> buffer
    \<Rightarrow> mnode \<Rightarrow> node_out" where
  "processIncomingMessage unseal parse_json now acc wsOk peerId data m =
     (if length data < 2 then (m, [], None)
      else if int (unat (data ! 1)) = PT_DATA then
        (case getSessionKey (m_sessions m) peerId of
           None \<Rightarrow> (m, [], None)
         | Some key \<Rightarrow> (m, [Job_rx \<lparr>ra_data = data, ra_key = key, ra_peer = peerId, ra_type = PT_DATA\<rparr> Cb_rx], None))
      else if int (unat (data ! 1)) = PT_DATA_DIRECT then
        (if length data \<ge> 58 \<and> read_id data 42 \<noteq> m_nodeId m then
           (case deserialize parse_json now (m_gen m) data of
              Inl e \<Rightarrow> (m, [], None)
            | Inr (packet, g) \<Rightarrow> handleDirectDataPacket unseal now acc peerId packet (m\<lparr>m_gen := g\<rparr>))
         else
           (case (if length data \<ge> 42 then or_null (read_id data 26) else None) of
              None \<Rightarrow> (m, [], None)
            | Some src \<Rightarrow>
                (case getSessionKey (m_sessions m) src of
                   None \<Rightarrow> (m, [], None)
                 | Some key \<Rightarrow> (m, [Job_rx \<lparr>ra_data = data, ra_key = key, ra_peer = peerId, ra_type = PT_DATA_DIRECT\<rparr> Cb_rx], None))))
      else
        (case deserialize parse_json now (m_gen m) data of
           Inl e \<Rightarrow> (m, [], None)
         | Inr (packet, g) \<Rightarrow>
             let m = m\<lparr>m_gen := g\<rparr> in
             if p_type packet = PT_PING then
               (case handlePing now acc wsOk peerId packet m of (m, acts, e) \<Rightarrow> (m, acts, None))
             else if p_type packet = PT_PONG then (handlePong now peerId packet m, [], None)
             else if p_type packet = PT_ACK then (handleAck now peerId packet m, [], None)
             else (m, [], None)))"

section \<open>The way back\<close>

definition buildExitTxArgs :: "jsstring \<Rightarrow> buffer \<Rightarrow> jsstring list \<Rightarrow> mnode \<Rightarrow> tx_args option" where
  "buildExitTxArgs target ipPacket route m =
     (let useDirect = (length route = 1) in
      case session_keys (m_sessions m) (if useDirect then [target] else route) of
        None \<Rightarrow> None
      | Some routeWithKeys \<Rightarrow>
          Some \<lparr>ta_payload = ipPacket, ta_keys = routeWithKeys,
             ta_meta = no_options\<lparr>o_type := Some (if useDirect then PT_DATA_DIRECT else PT_DATA),
                o_srcNode := Some (m_nodeId m), o_dstNode := Some target, o_route := Some route\<rparr>,
             ta_direct = useDirect\<rparr>)"

definition sendExitResponse :: "jsstring \<Rightarrow> buffer \<Rightarrow> mnode \<Rightarrow> node_action list" where
  "sendExitResponse target ipPacket m =
     (let wsConnected = (case m_wsPeers m of Some ps \<Rightarrow> target \<in> set ps | None \<Rightarrow> False);
          path = returned (findShortestPath (r_graph (m_router m)) (m_nodeId m) target []) in
      case (case path of Some p \<Rightarrow> if length p < 2 then None else Some (tl p, False) | None \<Rightarrow> None) of
        Some (route, ws) \<Rightarrow> (case buildExitTxArgs target ipPacket route m of Some a \<Rightarrow> [Job_tx a (Cb_exit target ws)] | None \<Rightarrow> [])
      | None \<Rightarrow>
          if wsConnected then (case buildExitTxArgs target ipPacket [target] m of Some a \<Rightarrow> [Job_tx a (Cb_exit target True)] | None \<Rightarrow> [])
          else [])"

definition on_tx_exit :: "(ttype \<Rightarrow> bool) \<Rightarrow> bool \<Rightarrow> jsstring \<Rightarrow> bool \<Rightarrow> tx_result res \<Rightarrow> mnode \<Rightarrow> mnode \<times> node_action list" where
  "on_tx_exit acc wsOk target useWs r m =
     (case r of
        Inl e \<Rightarrow> (m, [])
      | Inr x \<Rightarrow>
          if useWs then (if wsOk then (run_flush (Count_sent (tr_payloadLen x)) m, [Ws_send target (tr_serialized x)]) else (m, []))
          else (case tr_nextHop x of
              None \<Rightarrow> (m, [])
            | Some hop \<Rightarrow> snd (transportSendWithRetry acc hop (tr_serialized x) (Count_sent (tr_payloadLen x)) m)))"

definition handleExitTunPacket :: "buffer \<Rightarrow> mnode \<Rightarrow> node_action list" where
  "handleExitTunPacket packet m =
     (case parseIPPacket packet of
        Inr (Valid parsed) \<Rightarrow>
          if mesh_ip (dstIp parsed) then
            (case map_get (natMappings m) (reply_tuple parsed) of
               Some x \<Rightarrow> (case nm_srcNodeId x of Some n \<Rightarrow> sendExitResponse n packet m | None \<Rightarrow> [])
             | None \<Rightarrow> [])
          else []
      | _ \<Rightarrow> [])"

section \<open>Peers and topology\<close>

definition updateMultipathRoutes :: "mnode \<Rightarrow> mnode" where
  "updateMultipathRoutes m =
     (let paths = findMultiplePaths 3 (m_router m) in
      if paths \<noteq> [] then m\<lparr>m_scheduler := setPaths (map (\<lambda>p. \<lparr>sp_route = xp_path p, sp_exitNode = xp_exitNode p\<rparr>) paths) (m_scheduler m)\<rparr>
      else m)"

text \<open>\<open>peer-connected\<close>: \<open>info\<close> is what discovery knows of the peer, \<open>isTurn\<close> what the WebRTC transport reports.\<close>

definition node_peer_connected :: "int \<Rightarrow> jsstring \<Rightarrow> ttype \<Rightarrow> info_patch option \<Rightarrow> bool \<Rightarrow> mnode \<Rightarrow> mnode" where
  "node_peer_connected now peerId t info isTurn m =
     (let m = (case info of Some i \<Rightarrow> m\<lparr>m_router := addLocalConnection now peerId i (m_router m)\<rparr> | None \<Rightarrow> m);
          m = (if t = Webrtc then m\<lparr>m_router := router_updateEdgeMetrics now peerId (no_metrics\<lparr>mp_isTurnRelay := Some isTurn\<rparr>) (m_router m)\<rparr> else m) in
      updateMultipathRoutes m)"

definition node_peer_disconnected :: "int \<Rightarrow> jsstring \<Rightarrow> mnode \<Rightarrow> mnode" where
  "node_peer_disconnected now peerId m =
     updateMultipathRoutes (clearSendRetryQueue peerId (m\<lparr>m_router := removeLocalConnection now peerId (m_router m)\<rparr>))"

definition node_topology :: "int \<Rightarrow> topology \<Rightarrow> mnode \<Rightarrow> mnode" where
  "node_topology now t m = updateMultipathRoutes (m\<lparr>m_router := updateTopology now t (m_router m)\<rparr>)"

definition resetLoopStats :: "mnode \<Rightarrow> mnode" where
  "resetLoopStats m = m\<lparr>loopStats := \<lparr>ttlDropped = 0, duplicateDropped = 0, loopDropped = 0, splitHorizonDropped = 0,
     totalProcessed = 0, totalForwarded = 0\<rparr>\<rparr>"

definition start_node :: "int \<Rightarrow> mnode \<Rightarrow> mnode" where
  "start_node now m = m\<lparr>m_router := start_router now (m_router m), m_reorder := rb_start (m_reorder m), m_running := True\<rparr>"

text \<open>The callback of \<open>_startTrafficStats\<close>, when some time has passed: the counters start again.\<close>

definition traffic_tick :: "mnode \<Rightarrow> mnode" where
  "traffic_tick m = m\<lparr>trafficStats := \<lparr>bytesSent = 0, bytesReceived = 0, packetsSent = 0, packetsReceived = 0\<rparr>\<rparr>"

text \<open>\<open>stop\<close>, with the \<open>stop\<close> of discovery, which closes the transports and forgets the sessions.\<close>

definition stop_node :: "mnode \<Rightarrow> mnode \<times> node_action list" where
  "stop_node m =
     (case tm_closeAll (m_tm m) of (tm, acts) \<Rightarrow>
      (m\<lparr>m_running := False, m_router := stop_router (m_router m), m_reorder := rb_stop (m_reorder m), m_tm := tm, m_sessions := [],
         sendRetryQueues := [], processedPackets := [], m_tcpConnections := []\<rparr>, map Tm acts))"

section \<open>The TCP bookkeeping of the exit\<close>

definition tcp_key :: "jsstring \<Rightarrow> ipv4 \<Rightarrow> nat \<Rightarrow> ipv4 \<Rightarrow> nat \<Rightarrow> jsstring" where
  "tcp_key srcNodeId si sp di dp = srcNodeId @ 58 # ip_str si @ 58 # dec sp @ 58 # ip_str di @ 58 # dec dp"

definition getOrCreateTcpConnection :: "int \<Rightarrow> nat \<Rightarrow> jsstring \<Rightarrow> mnode \<Rightarrow> tcp_conn \<times> mnode" where
  "getOrCreateTcpConnection now rnd key m =
     (let c = (case map_get (m_tcpConnections m) key of Some c \<Rightarrow> c | None \<Rightarrow> \<lparr>tc_seqNum = rnd, tc_ackNum = 0, tc_lastUsed = now\<rparr>);
          c = c\<lparr>tc_lastUsed := now\<rparr> in
      (c, m\<lparr>m_tcpConnections := map_put key c (m_tcpConnections m)\<rparr>))"

definition updateTcpSeqNum :: "int \<Rightarrow> nat \<Rightarrow> jsstring \<Rightarrow> nat \<Rightarrow> mnode \<Rightarrow> mnode" where
  "updateTcpSeqNum now rnd key dataLength m =
     (case getOrCreateTcpConnection now rnd key m of (c, m) \<Rightarrow>
      m\<lparr>m_tcpConnections := map_put key (c\<lparr>tc_seqNum := (tc_seqNum c + dataLength) mod 4294967296\<rparr>) (m_tcpConnections m)\<rparr>)"

definition updateTcpAckNum :: "int \<Rightarrow> nat \<Rightarrow> jsstring \<Rightarrow> nat \<Rightarrow> nat \<Rightarrow> mnode \<Rightarrow> mnode" where
  "updateTcpAckNum now rnd key seqNum dataLength m =
     (case getOrCreateTcpConnection now rnd key m of (c, m) \<Rightarrow>
      m\<lparr>m_tcpConnections := map_put key (c\<lparr>tc_ackNum := (seqNum + dataLength) mod 4294967296\<rparr>) (m_tcpConnections m)\<rparr>)"

end
