(* ===== verification/Send_Retry.thy ===== *)
theory Send_Retry
  imports Mesh_Node
begin

text \<open>
  The retry queues of \<open>src/core/node.js\<close> (\<open>_transportSendWithRetry\<close>, \<open>_drainSendRetryQueue\<close>) as a channel: with
  strict transport ordering what a peer has been sent, followed by what is queued for it, is what was
  accepted for it, in that order. The laws are those of the locale \<open>aggregator\<close> of the batchers.
\<close>

section \<open>The retry queues\<close>

definition delivered :: "node_action list \<Rightarrow> (jsstring \<times> buffer) list" where
  "delivered acts = concat (map (\<lambda>a. case a of Tm (Deliver t p d) \<Rightarrow> [(p, d)] | _ \<Rightarrow> []) acts)"

lemma delivered_simps [simp]:
  "delivered [] = []" "delivered (xs @ ys) = delivered xs @ delivered ys" "delivered (Tm (Deliver t p d) # xs) = (p, d) # delivered xs"
  by (simp_all add: delivered_def)

definition queue_of :: "jsstring \<Rightarrow> mnode \<Rightarrow> (buffer \<times> flush) list" where
  "queue_of p m = (case map_get (sendRetryQueues m) p of Some q \<Rightarrow> q | None \<Rightarrow> [])"

lemma tm_send_cases:
  obtains (sent) t where "tm_send acc pref p d tm = (True, [Deliver t p d])" | (refused) "tm_send acc pref p d tm = (False, [])"
  unfolding tm_send_spec
  by (cases "find (\<lambda>t. (p, t) \<in> links tm \<and> t \<in> set (tm_transports tm) \<and> acc t) (send_order pref tm)") auto

lemma run_flush_frame [simp]:
  "m_tm (run_flush f m) = m_tm m" "sendRetryQueues (run_flush f m) = sendRetryQueues m"
  "strictTransportOrdering (run_flush f m) = strictTransportOrdering m" "sendRetryMaxPackets (run_flush f m) = sendRetryMaxPackets m"
  "m_sessions (run_flush f m) = m_sessions m" "m_nodeId (run_flush f m) = m_nodeId m"
  by (cases f; simp)+

lemma drain_loop_frame:
  "drain_loop p orc q m = (rest, m', acts) \<Longrightarrow>
    (\<exists>sent. q = sent @ rest \<and> delivered acts = map (\<lambda>(d, f). (p, d)) sent)
    \<and> m_tm m' = m_tm m \<and> sendRetryQueues m' = sendRetryQueues m \<and> strictTransportOrdering m' = strictTransportOrdering m
    \<and> sendRetryMaxPackets m' = sendRetryMaxPackets m"
proof (induction p orc q m arbitrary: rest m' acts rule: drain_loop.induct)
  case (2 p orc d f q m)
  let ?acc = "case orc of [] \<Rightarrow> \<lambda>t. False | acc # _ \<Rightarrow> acc"
  show ?case
  proof (cases "tm_isConnected (m_tm m) p")
    case False
    then show ?thesis using 2(2) by auto
  next
    case True
    show ?thesis
    proof (cases rule: tm_send_cases [of ?acc None p d "m_tm m"])
      case (sent t)
      obtain rest1 m1 acts1 where d: "drain_loop p (tl orc) q (run_flush f m) = (rest1, m1, acts1)" by (metis prod_cases3)
      have IH: "(\<exists>ss. q = ss @ rest1 \<and> delivered acts1 = map (\<lambda>(d, f). (p, d)) ss)
          \<and> m_tm m1 = m_tm (run_flush f m) \<and> sendRetryQueues m1 = sendRetryQueues (run_flush f m)
          \<and> strictTransportOrdering m1 = strictTransportOrdering (run_flush f m)
          \<and> sendRetryMaxPackets m1 = sendRetryMaxPackets (run_flush f m)"
        by (rule 2(1) [OF _ sent [symmetric]]) (use True d in simp_all)
      have "rest = rest1" "m' = m1" "acts = Tm (Deliver t p d) # acts1" using 2(2) True sent d by auto
      moreover from IH True obtain ss where "q = ss @ rest1" "delivered acts1 = map (\<lambda>(d, f). (p, d)) ss" by auto
      ultimately show ?thesis using IH True by (auto intro!: exI [of _ "(d, f) # ss"])
    next
      case refused
      then show ?thesis using 2(2) True by auto
    qed
  qed
qed auto

datatype retry_event = Retry_send jsstring buffer flush "ttype \<Rightarrow> bool" | Retry_drain jsstring "(ttype \<Rightarrow> bool) list" | Link tm_event

type_synonym retry_state = "mnode \<times> (jsstring \<times> buffer) list"

fun retry_step :: "retry_event \<Rightarrow> retry_state \<Rightarrow> retry_state res" where
  "retry_step (Retry_send p d f acc) (m, out) =
     (case transportSendWithRetry acc p d f m of (ok, m, acts) \<Rightarrow> Inr (m, out @ delivered acts))"
| "retry_step (Retry_drain p orc) (m, out) = (case drainSendRetryQueue p orc m of (m, acts) \<Rightarrow> Inr (m, out @ delivered acts))"
| "retry_step (Link ev) (m, out) = Inr (m\<lparr>m_tm := fst (tm_step ev (m_tm m))\<rparr>, out)"

text \<open>A packet is taken when \<open>_transportSendWithRetry\<close> returns \<open>true\<close>.\<close>

fun retry_acc :: "jsstring \<Rightarrow> retry_event \<Rightarrow> retry_state \<Rightarrow> buffer list" where
  "retry_acc p (Retry_send q d f acc) (m, out) = (if q = p \<and> fst (transportSendWithRetry acc q d f m) then [d] else [])"
| "retry_acc p _ s = []"

definition retry_inv :: "retry_state \<Rightarrow> bool" where
  "retry_inv s \<longleftrightarrow> strictTransportOrdering (fst s) \<and> (\<forall>p. length (queue_of p (fst s)) \<le> max 1 (sendRetryMaxPackets (fst s)))"

lemma queue_put [simp]: "queue_of p (m\<lparr>sendRetryQueues := map_put q x (sendRetryQueues m)\<rparr>) = (if p = q then x else queue_of p m)"
  by (simp add: queue_of_def)

lemma queue_del [simp]: "queue_of p (m\<lparr>sendRetryQueues := map_del q (sendRetryQueues m)\<rparr>) = (if p = q then [] else queue_of p m)"
  by (simp add: queue_of_def)

lemma queue_cong: "sendRetryQueues m' = sendRetryQueues m \<Longrightarrow> queue_of p m' = queue_of p m"
  by (simp add: queue_of_def)

lemma send_channel:
  assumes inv: "retry_inv (m, out)" and run: "transportSendWithRetry acc q d f m = (ok, m', acts)"
  shows "retry_inv (m', out') \<and> sent_to p (out @ delivered acts) @ map fst (queue_of p m') =
    sent_to p out @ map fst (queue_of p m) @ (if q = p \<and> ok then [d] else [])"
proof -
  have strict: "strictTransportOrdering m" and len: "\<And>p. length (queue_of p m) \<le> max 1 (sendRetryMaxPackets m)"
    using inv by (simp_all add: retry_inv_def)
  have Q: "(case map_get (sendRetryQueues m) q of Some q \<Rightarrow> q | None \<Rightarrow> []) = queue_of q m" by (simp add: queue_of_def)
  note send = transportSendWithRetry_def [of acc q d f m, unfolded Q Let_def]
  show ?thesis
  proof (cases "tm_isConnected (m_tm m) q")
    case False
    then show ?thesis using run inv by (auto simp: send retry_inv_def)
  next
    case conn: True
    show ?thesis
    proof (cases "queue_of q m = []")
      case False
      show ?thesis
      proof (cases "length (queue_of q m) \<ge> sendRetryMaxPackets m")
        case True
        then show ?thesis using run conn False strict inv by (auto simp: send retry_inv_def)
      next
        case False
        then have "ok" "m' = m\<lparr>sendRetryQueues := map_put q (queue_of q m @ [(d, f)]) (sendRetryQueues m)\<rparr>" "acts = []"
          using run conn \<open>queue_of q m \<noteq> []\<close> strict by (auto simp: send)
        then show ?thesis using strict len False by (auto simp: retry_inv_def le_max_iff_disj)
      qed
    next
      case empty: True
      show ?thesis
      proof (cases rule: tm_send_cases [of acc None q d "m_tm m"])
        case (sent t)
        then have "ok" "m' = run_flush f m" "acts = [Tm (Deliver t q d)]" using run conn empty strict by (auto simp: send)
        moreover have "queue_of p (run_flush f m) = queue_of p m" for p by (rule queue_cong) simp
        ultimately show ?thesis using inv empty by (auto simp: retry_inv_def)
      next
        case refused
        then have "ok" "m' = m\<lparr>sendRetryQueues := map_put q [(d, f)] (sendRetryQueues m)\<rparr>" "acts = []"
          using run conn empty strict by (auto simp: send)
        then show ?thesis using strict len empty by (auto simp: retry_inv_def)
      qed
    qed
  qed
qed

lemma drain_channel:
  assumes inv: "retry_inv (m, out)" and run: "drainSendRetryQueue q orc m = (m', acts)"
  shows "retry_inv (m', out') \<and> sent_to p (out @ delivered acts) @ map fst (queue_of p m') = sent_to p out @ map fst (queue_of p m)"
proof (cases "queue_of q m")
  case Nil
  then have "m' = m" "acts = []"
    using run by (auto simp: drainSendRetryQueue_def queue_of_def split: option.splits list.splits)
  then show ?thesis using inv by (simp add: retry_inv_def)
next
  case (Cons x xs)
  then have get: "map_get (sendRetryQueues m) q = Some (queue_of q m)" by (simp add: queue_of_def split: option.splits)
  obtain rest m1 acts1 where d: "drain_loop q orc (queue_of q m) m = (rest, m1, acts1)" by (metis prod_cases3)
  note F = drain_loop_frame [OF d]
  from F obtain sent where sent: "queue_of q m = sent @ rest" "delivered acts1 = map (\<lambda>(d, f). (q, d)) sent" by blast
  have m': "m' = m1\<lparr>sendRetryQueues := (if rest = [] then map_del q (sendRetryQueues m1) else map_put q rest (sendRetryQueues m1))\<rparr>" "acts = acts1"
    using run get Cons d by (auto simp: drainSendRetryQueue_def split: list.splits)
  have qs: "sendRetryQueues m1 = sendRetryQueues m" using F by blast
  have qp: "queue_of p m' = (if p = q then rest else queue_of p m)" for p
    by (simp add: m' qs queue_of_def)
  have to: "sent_to p (map (\<lambda>(d, f). (q, d)) ys) = (if p = q then map fst ys else [])" for p and ys :: "(buffer \<times> flush) list"
    by (induction ys) (auto simp: sent_to_def)
  have "strictTransportOrdering m'" "sendRetryMaxPackets m' = sendRetryMaxPackets m" using F inv by (simp_all add: m' retry_inv_def)
  moreover have "length rest \<le> max 1 (sendRetryMaxPackets m)"
    using order.trans [of "length rest" "length (queue_of q m)"] inv [unfolded retry_inv_def] sent(1) by (metis fst_conv le_add2 length_append)
  ultimately show ?thesis
    using inv sent by (auto simp: retry_inv_def qp to m'(2))
qed

interpretation retry_channel: aggregator retry_step "retry_acc p" "\<lambda>d. [d]" "\<lambda>s. sent_to p (snd s)"
  "\<lambda>s. map fst (queue_of p (fst s))" retry_inv "\<lambda>e. True" for p
proof unfold_locales
  fix s e
  assume inv: "retry_inv s"
  obtain m out where s: "s = (m, out)" by (cases s)
  have one: "concat (map (\<lambda>d. [d]) xs) = xs" for xs :: "buffer list" by (induction xs) simp_all
  show "\<exists>s'. retry_step e s = Inr s' \<and> retry_inv s' \<and>
      concat (map (\<lambda>d. [d]) (sent_to p (snd s'))) @ map fst (queue_of p (fst s')) =
      concat (map (\<lambda>d. [d]) (sent_to p (snd s))) @ map fst (queue_of p (fst s)) @ retry_acc p e s"
  proof (cases e)
    case (Retry_send q d f acc)
    obtain ok m' acts where run: "transportSendWithRetry acc q d f m = (ok, m', acts)" by (metis prod_cases3)
    then show ?thesis using send_channel [OF inv [unfolded s] run, where p=p] Retry_send unfolding one by (simp add: s)
  next
    case (Retry_drain q orc)
    obtain m' acts where run: "drainSendRetryQueue q orc m = (m', acts)" by (cases "drainSendRetryQueue q orc m")
    then show ?thesis using drain_channel [OF inv [unfolded s] run, where p=p] Retry_drain unfolding one by (simp add: s)
  next
    case (Link ev)
    moreover have "queue_of q (m\<lparr>m_tm := x\<rparr>) = queue_of q m" for q x by (rule queue_cong) simp
    ultimately show ?thesis using inv unfolding one by (simp add: s retry_inv_def)
  qed
qed


definition demo_config :: node_config where
  "demo_config = \<lparr>nc_natEnabled = False, nc_relay = False, nc_enableTun = None, nc_role = Some (js ''client''), nc_preferredOrder = None,
     nc_routeTTL = None, nc_strategy = Round_robin, nc_reorderWindow = None, nc_reorderTimeout = None, nc_packetCacheTTL = None,
     nc_tcpTimeout = None, nc_natTimeout = None, nc_strictOrdering = None, nc_maxPacketsPerPeer = Some 2, nc_natMode = None,
     nc_directMode = False, nc_dataServerPort = False\<rparr>"

definition demo_node :: mnode where
  "demo_node = (new_MeshNode demo_config (js ''a'') (js ''f'') (\<lambda>_. 0) (init_flow_gen 0))
     \<lparr>m_tm := fst (on_peer_connected Webrtc (js ''b'') (new_TransportManager True True True None))\<rparr>"


end
