(* ===== verification/Mesh_Delivery.thy ===== *)
theory Mesh_Delivery
  imports Send_Retry
begin

text \<open>
  Nodes talking to each other: the handlers of \<open>src/core/node.js\<close>, the workers, the wire format and the
  onion layers composed. A job of the pipeline is answered by the worker of \<open>src/workers\<close>, and the
  callback is run. Shown here are the way of a packet from the TUN device of a client to the exit and back,
  the prevention of loops, and why routes of more than one hop do not work.
\<close>

section \<open>Running the jobs\<close>

fun perform_jobs :: "seal \<Rightarrow> unseal \<Rightarrow> (jsstring \<Rightarrow> jsstring list option) \<Rightarrow> buffer list \<Rightarrow> int \<Rightarrow> flow_gen \<Rightarrow> (ttype \<Rightarrow> bool) \<Rightarrow> bool
    \<Rightarrow> node_action list \<Rightarrow> mnode \<Rightarrow> node_out" where
  "perform_jobs seal unseal pj ivs now g acc wsOk [] m = (m, [], None)"
| "perform_jobs seal unseal pj ivs now g acc wsOk (a # as) m =
     (case (case a of
          Job_tx args Cb_client \<Rightarrow> no_error (on_tx_client acc (fst (tx_worker seal ivs now g args)) m)
        | Job_tx args (Cb_exit target ws) \<Rightarrow> no_error (on_tx_exit acc wsOk target ws (fst (tx_worker seal ivs now g args)) m)
        | Job_rx args Cb_rx \<Rightarrow> on_rx now acc (fst (rx_worker unseal pj now g args)) m
        | _ \<Rightarrow> (m, [a], None)) of
        (m, acts, Some e) \<Rightarrow> (m, acts, Some e)
      | (m, acts, None) \<Rightarrow>
          (case perform_jobs seal unseal pj ivs now g acc wsOk as m of (m, acts', e) \<Rightarrow> (m, acts @ acts', e)))"

text \<open>A packet from the TUN device, a message from a peer, a reply of the exit: handler, worker, callback.\<close>

definition outbound :: "seal \<Rightarrow> buffer list \<Rightarrow> int \<Rightarrow> flow_gen \<Rightarrow> (ttype \<Rightarrow> bool) \<Rightarrow> buffer \<Rightarrow> mnode \<Rightarrow> node_out" where
  "outbound seal ivs now g acc ip m =
     (case handleOutboundPacket now ip m of (m, acts) \<Rightarrow> perform_jobs seal (\<lambda>_ _ _ _. None) (\<lambda>_. None) ivs now g acc False acts m)"

definition receive :: "unseal \<Rightarrow> (jsstring \<Rightarrow> jsstring list option) \<Rightarrow> int \<Rightarrow> flow_gen \<Rightarrow> (ttype \<Rightarrow> bool) \<Rightarrow> bool \<Rightarrow> jsstring \<Rightarrow> buffer \<Rightarrow> mnode \<Rightarrow> node_out" where
  "receive unseal pj now g acc wsOk peerId data m =
     (case processIncomingMessage unseal pj now acc wsOk peerId data m of
        (m, acts, Some e) \<Rightarrow> (m, acts, Some e)
      | (m, acts, None) \<Rightarrow> perform_jobs (\<lambda>_ _ _. ([], [])) unseal pj [] now g acc wsOk acts m)"

definition exit_reply :: "seal \<Rightarrow> buffer list \<Rightarrow> int \<Rightarrow> flow_gen \<Rightarrow> (ttype \<Rightarrow> bool) \<Rightarrow> bool \<Rightarrow> jsstring \<Rightarrow> buffer \<Rightarrow> mnode \<Rightarrow> node_out" where
  "exit_reply seal ivs now g acc wsOk target ip m =
     perform_jobs seal (\<lambda>_ _ _ _. None) (\<lambda>_. None) ivs now g acc wsOk (sendExitResponse target ip m) m"

section \<open>Packets made by a worker\<close>

definition good_id :: "jsstring \<Rightarrow> bool" where
  "good_id s \<longleftrightarrow> s \<noteq> [] \<and> id_ok s"

definition mesh_packet :: "int \<Rightarrow> int \<Rightarrow> jsstring \<Rightarrow> jsstring \<Rightarrow> jsstring list \<Rightarrow> jsstring \<Rightarrow> buffer \<Rightarrow> packet" where
  "mesh_packet now t s d r fid enc =
     \<lparr>p_version = 1, p_type = t, p_flowId = fid, p_seq = 0, p_hop = 0, p_ttl = DEFAULT_TTL, p_srcNode = Some s, p_dstNode = Some d,
      p_route = r, p_visitedNodes = [], p_timestamp = now, p_payload = enc\<rparr>"

lemma wf_mesh_packet:
  assumes "0 < t" "t < 256" "good_id s" "good_id d" "good_id fid" "list_all id_ok r" "length r < 256" "length enc < 4294967296"
  shows "wf_packet (mesh_packet now t s d r fid enc)"
  using assms by (auto simp: wf_packet_def mesh_packet_def good_id_def DEFAULT_TTL_def)

lemma deserialize_wire:
  assumes "wf_packet p"
  shows "deserialize pj now g (wire p) = Inr (received now p, g)"
  using deserializeV2_wire [OF assms] wire_fixed_fields(1) [OF assms] length_wire [OF assms] by (simp add: deserialize_def)

lemma wire_peek:
  assumes "wf_packet p"
  shows "int (unat (wire p ! 1)) = p_type p" "\<not> length (wire p) < 2" "42 \<le> length (wire p)" "58 \<le> length (wire p)"
  using wire_fixed_fields(2) [OF assms] length_wire [OF assms] assms
  by (auto simp: readUInt8_def wf_packet_def split: if_splits)

lemma tx_worker_mesh:
  assumes "encrypt_payload seal ivs a = Inr enc"
    and "ta_meta a = no_options\<lparr>o_type := Some t, o_srcNode := Some s, o_dstNode := Some d, o_route := Some r\<rparr>"
    and "wf_packet (mesh_packet now t s d r (fst (generateFlowId g)) enc)"
  shows "tx_worker seal ivs now g a =
    (Inr \<lparr>tr_serialized = wire (mesh_packet now t s d r (fst (generateFlowId g)) enc),
          tr_nextHop = (case r of h # _ \<Rightarrow> Some h | [] \<Rightarrow> None), tr_payloadLen = length (ta_payload a)\<rparr>, snd (generateFlowId g))"
proof -
  have nz: "t \<noteq> 0" "s \<noteq> []" "d \<noteq> []" using assms(3) by (auto simp: wf_packet_def mesh_packet_def)
  have "new_Packet now g ((ta_meta a)\<lparr>o_payload := Some enc\<rparr>) = (mesh_packet now t s d r (fst (generateFlowId g)) enc, snd (generateFlowId g))"
    using nz by (simp add: assms(2) new_Packet_def no_options_def or_str_def or_num_def or_null_def mesh_packet_def split: prod.split)
  moreover have "first_hop (ta_meta a) = (case r of h # _ \<Rightarrow> Some h | [] \<Rightarrow> None)"
    by (simp add: assms(2) first_hop_def no_options_def)
  ultimately show ?thesis using assms(1) by (simp add: tx_worker_def serialize_wire [OF assms(3)])
qed

section \<open>Messages that arrive\<close>

definition rx_packet :: "int \<Rightarrow> packet \<Rightarrow> packet" where
  "rx_packet now q =
     \<lparr>p_version = 1, p_type = PT_DATA, p_flowId = p_flowId q, p_seq = p_seq q, p_hop = p_hop q, p_ttl = p_ttl q, p_srcNode = p_srcNode q,
      p_dstNode = p_dstNode q, p_route = p_route q, p_visitedNodes = [], p_timestamp = now, p_payload = []\<rparr>"

lemma new_Packet_rx_meta:
  assumes "wf_packet p"
  shows "new_Packet now g (rx_meta (received n p)) = (rx_packet now p, g)"
proof -
  have "or_str (Some (p_flowId p)) = Some (p_flowId p)" "or_str (p_srcNode p) = p_srcNode p" "or_str (p_dstNode p) = p_dstNode p"
    using assms by (auto simp: wf_packet_def or_str_id)
  then show ?thesis
    by (simp add: new_Packet_def rx_meta_def no_options_def received_def rx_packet_def) (simp add: or_num_def)
qed

lemma rx_worker_wire:
  assumes "wf_packet p"
  shows "rx_worker unseal pj now g \<lparr>ra_data = wire p, ra_key = key, ra_peer = peer, ra_type = PT_DATA\<rparr> =
      (ebind (peelOnionLayer unseal (p_payload p) key) (\<lambda>l. Inr (Rx_packet \<lparr>rd_peer = peer, rd_type = PT_DATA, rd_payload = l_payload l,
          rd_isExit = l_isExit l, rd_nextHop = l_nextHop l, rd_meta = rx_meta (received now p)\<rparr>)), g)"
    and "rx_worker unseal pj now g \<lparr>ra_data = wire p, ra_key = key, ra_peer = peer, ra_type = PT_DATA_DIRECT\<rparr> =
      (ebind (decrypt unseal (p_payload p) key) (\<lambda>payload. Inr (Rx_packet \<lparr>rd_peer = peer, rd_type = PT_DATA_DIRECT, rd_payload = payload,
          rd_isExit = False, rd_nextHop = None, rd_meta = rx_meta (received now p)\<rparr>)), g)"
  by (simp_all add: rx_worker_def deserialize_wire [OF assms] packet_types received_def)

lemma receive_wire:
  assumes wf: "wf_packet p" and key: "getSessionKey (m_sessions m) (if p_type p = PT_DATA then peer else str_or_empty (p_srcNode p)) = Some key"
    and t: "p_type p = PT_DATA \<or> p_type p = PT_DATA_DIRECT \<and> p_dstNode p = Some (m_nodeId m) \<and> p_srcNode p \<noteq> None"
  shows "receive unseal pj now g acc wsOk peer (wire p) m =
    (let (m', acts, e) = on_rx now acc (fst (rx_worker unseal pj now g
        \<lparr>ra_data = wire p, ra_key = key, ra_peer = peer, ra_type = p_type p\<rparr>)) m in (m', acts, e))"
proof -
  note peek = wire_peek [OF wf]
  have src: "or_null (read_id (wire p) 26) = p_srcNode p" "read_id (wire p) 42 = str_or_empty (p_dstNode p)"
    using wf wire_id_fields(2,3) [OF wf] by (auto simp: wf_packet_def or_null_str_or_empty)
  have "processIncomingMessage unseal pj now acc wsOk peer (wire p) m =
      (m, [Job_rx \<lparr>ra_data = wire p, ra_key = key, ra_peer = peer, ra_type = p_type p\<rparr> Cb_rx], None)"
    using t key peek src by (auto simp: processIncomingMessage_def packet_types str_or_empty_def)
  then show ?thesis by (simp add: receive_def Let_def split: prod.split option.split)
qed

section \<open>Loop checks\<close>

definition mark_seen :: "int \<Rightarrow> packet \<Rightarrow> mnode \<Rightarrow> mnode" where
  "mark_seen now p m = m\<lparr>processedPackets := map_put (packet_key p) now (processedPackets m)\<rparr>"

lemma loop_checks_fresh:
  assumes "map_get (processedPackets m) (packet_key p) = None" "p_visitedNodes p = []" "p_ttl p > 1"
  shows "loop_checks now p m = (Some (p\<lparr>p_visitedNodes := [m_nodeId m], p_ttl := p_ttl p - 1\<rparr>), mark_seen now p m)"
  using assms by (simp add: loop_checks_def isTTLExpired_def isPacketDuplicate_def hasVisited_def addVisitedNode_def decrementTTL_def
      mark_seen_def Let_def)

lemma count_processed_frame [simp]:
  "m_sessions (count_processed m) = m_sessions m" "m_nodeId (count_processed m) = m_nodeId m" "m_isExit (count_processed m) = m_isExit m"
  "m_isClient (count_processed m) = m_isClient m" "m_tun (count_processed m) = m_tun m" "m_tunRunning (count_processed m) = m_tunRunning m"
  "m_userSpaceNAT (count_processed m) = m_userSpaceNAT m" "processedPackets (count_processed m) = processedPackets m"
  "m_reorder (count_processed m) = m_reorder m" "m_tm (count_processed m) = m_tm m" "sendRetryQueues (count_processed m) = sendRetryQueues m"
  "packetCacheTTL (count_processed m) = packetCacheTTL m" "natMappings (count_processed m) = natMappings m"
  by (simp_all add: count_processed_def count_drop_def)

lemma mark_seen_frame [simp]:
  "m_isExit (mark_seen now p m) = m_isExit m" "m_isClient (mark_seen now p m) = m_isClient m" "m_tun (mark_seen now p m) = m_tun m"
  "m_nodeId (mark_seen now p m) = m_nodeId m" "m_tunRunning (mark_seen now p m) = m_tunRunning m"
  "m_userSpaceNAT (mark_seen now p m) = m_userSpaceNAT m" "m_reorder (mark_seen now p m) = m_reorder m"
  by (simp_all add: mark_seen_def)

definition exit_actions :: "mnode \<Rightarrow> buffer \<Rightarrow> jsstring option \<Rightarrow> node_action list" where
  "exit_actions m ip src =
     (if m_userSpaceNAT m then [Nat_handle ip src]
      else if m_tun m then (case parseIPPacket ip of Inr (Valid _) \<Rightarrow> [Tun_inject ip] | _ \<Rightarrow> []) else [])"

lemma processExitPacket_acts: "snd (processExitPacket now src ip m) = exit_actions m ip src"
  by (simp add: processExitPacket_def exit_actions_def split: sum.split ip_parse.split)

lemma exit_actions_cong: "m_userSpaceNAT m' = m_userSpaceNAT m \<Longrightarrow> m_tun m' = m_tun m \<Longrightarrow> exit_actions m' ip src = exit_actions m ip src"
  by (simp add: exit_actions_def)

lemma rx_exit:
  assumes wf: "wf_packet p" and exit: "m_isExit m" "rd_isExit rd \<or> rd_type rd = PT_DATA_DIRECT" "rd_type rd = PT_DATA \<or> rd_type rd = PT_DATA_DIRECT"
    and meta: "rd_meta rd = rx_meta (received n p)"
    and fresh: "rd_type rd = PT_DATA \<Longrightarrow> map_get (processedPackets m) (packet_key p) = None \<and> p_ttl p > 1"
  shows "\<exists>m'. handleRxWorkerResult now acc rd m = (m', exit_actions m (rd_payload rd) (p_srcNode p), None)"
proof (cases "rd_type rd = PT_DATA")
  case True
  let ?m = "count_processed (m\<lparr>m_gen := m_gen m\<rparr>)"
  have key: "packet_key (rx_packet now p) = packet_key p" by (simp add: packet_key_def rx_packet_def)
  have "loop_checks now (rx_packet now p) ?m =
      (Some ((rx_packet now p)\<lparr>p_visitedNodes := [m_nodeId ?m], p_ttl := p_ttl (rx_packet now p) - 1\<rparr>), mark_seen now (rx_packet now p) ?m)"
    by (rule loop_checks_fresh) (use True fresh key in \<open>simp_all add: rx_packet_def\<close>)
  moreover have "rd_isExit rd" using True exit(2) by (simp add: packet_types)
  moreover have "exit_actions (mark_seen now (rx_packet now p) ?m) ip s = exit_actions m ip s" for ip s
    by (rule exit_actions_cong) simp_all
  ultimately show ?thesis
    using True exit(1) processExitPacket_acts by (simp add: handleRxWorkerResult_def meta new_Packet_rx_meta [OF wf] no_error_def rx_packet_def)
next
  case False
  have "exit_actions (count_processed m\<lparr>m_gen := g\<rparr>) ip s = exit_actions m ip s" for ip s g
    by (rule exit_actions_cong) simp_all
  then show ?thesis
    using False exit processExitPacket_acts
    by (simp add: handleRxWorkerResult_def meta new_Packet_rx_meta [OF wf] no_error_def rx_packet_def Let_def packet_types)
qed

definition tun_actions :: "mnode \<Rightarrow> buffer \<Rightarrow> node_action list" where
  "tun_actions m ip = (if m_tun m \<and> m_tunRunning m then [Tun_inject ip] else []) @ [Packet_received ip]"

lemma reorder_add_acts:
  assumes "mk_totalPaths p = None"
  shows "snd (reorder_add now p m) = tun_actions m (mk_payload p)"
  using assms by (simp add: reorder_add_def addPacket_def processReorderedPacket_def tun_actions_def)

lemma rx_client:
  assumes "\<not> m_isExit m" "m_isClient m" "rd_type rd = PT_DATA_DIRECT"
  shows "\<exists>m'. handleRxWorkerResult now acc rd m = (m', tun_actions m (rd_payload rd), None)"
proof -
  have "tun_actions (count_processed m) ip = tun_actions m ip" for ip by (simp add: tun_actions_def)
  then show ?thesis
    using assms by (simp add: handleRxWorkerResult_def Let_def packet_types no_error_def reorder_add_acts split: prod.split)
qed

section \<open>Sending over a link\<close>

definition link_ready :: "(ttype \<Rightarrow> bool) \<Rightarrow> jsstring \<Rightarrow> mnode \<Rightarrow> bool" where
  "link_ready acc p m \<longleftrightarrow> queue_of p m = [] \<and>
     (\<exists>t \<in> set (preferredOrder (m_tm m)). (p, t) \<in> links (m_tm m) \<and> t \<in> set (tm_transports (m_tm m)) \<and> acc t)"

lemma link_readyD:
  assumes "link_ready acc p m"
  shows "\<exists>t. transportSendWithRetry acc p d f m = (True, run_flush f m, [Tm (Deliver t p d)])"
proof -
  have q: "(case map_get (sendRetryQueues m) p of Some q \<Rightarrow> q | None \<Rightarrow> []) = []"
    using assms by (simp add: link_ready_def queue_of_def)
  have conn: "tm_isConnected (m_tm m) p" using assms by (auto simp: link_ready_def isConnected_links)
  have "find (\<lambda>t. (p, t) \<in> links (m_tm m) \<and> t \<in> set (tm_transports (m_tm m)) \<and> acc t) (preferredOrder (m_tm m)) \<noteq> None"
    using assms by (auto simp: link_ready_def find_None_iff)
  then obtain t where "tm_send acc None p d (m_tm m) = (True, [Deliver t p d])"
    by (auto simp: tm_send_spec send_order_def)
  then show ?thesis using conn q by (simp add: transportSendWithRetry_def)
qed

lemma encrypt_one_hop:
  assumes "aead_ok seal unseal" "length key = 32" "length iv = 12" "ta_keys a = [(x, key)]"
  obtains enc where "encrypt_payload seal [iv] a = Inr enc" "length enc \<le> length (ta_payload a) + 29"
    "ta_direct a \<Longrightarrow> decrypt unseal enc key = Inr (ta_payload a)"
    "\<not> ta_direct a \<Longrightarrow> peelOnionLayer unseal enc key = Inr \<lparr>l_nextHop = None, l_isExit = True, l_payload = ta_payload a\<rparr>"
proof (cases "ta_direct a")
  case True
  obtain c where "encrypt seal iv (ta_payload a) key = Inr c" "decrypt unseal c key = Inr (ta_payload a)" "length c = 28 + length (ta_payload a)"
    using encrypt_decrypt [OF assms(1,3,2)] by blast
  then show ?thesis using that [of c] True assms(4) by (simp add: encrypt_payload_def)
next
  case False
  obtain c where "build_layers seal [iv] None [(x, key)] (ta_payload a) = Inr c"
      "peelOnionLayer unseal c key = Inr \<lparr>l_nextHop = None, l_isExit = True, l_payload = ta_payload a\<rparr>" "length c = 29 + length (ta_payload a)"
    using one_layer [OF assms(1) _ assms(2), of None "[iv]" x "ta_payload a"] assms(3) by auto
  then show ?thesis using that [of c] False assms(4) by (simp add: encrypt_payload_def createOnionPacket_def)
qed

text \<open>A packet for a neighbour, as the workers of both sides see it.\<close>

definition one_hop_job :: "buffer \<Rightarrow> jsstring \<Rightarrow> jsstring \<Rightarrow> buffer \<Rightarrow> bool \<Rightarrow> tx_args" where
  "one_hop_job ip s x key direct = \<lparr>ta_payload = ip, ta_keys = [(x, key)],
      ta_meta = no_options\<lparr>o_type := Some (if direct then PT_DATA_DIRECT else PT_DATA), o_srcNode := Some s, o_dstNode := Some x,
        o_route := Some [x]\<rparr>, ta_direct = direct\<rparr>"

lemma one_hop_workers:
  assumes "aead_ok seal unseal" "length key = 32" "length iv = 12" "good_id s" "good_id x" "good_id (fst (generateFlowId g))" "length ip < 2 ^ 31"
  obtains p where "wf_packet p" "p_type p = (if direct then PT_DATA_DIRECT else PT_DATA)" "p_srcNode p = Some s" "p_dstNode p = Some x"
    "packet_key p = fst (generateFlowId g) @ js '':0''" "p_ttl p = 32"
    "fst (tx_worker seal [iv] now g (one_hop_job ip s x key direct)) =
       Inr \<lparr>tr_serialized = wire p, tr_nextHop = Some x, tr_payloadLen = length ip\<rparr>"
    "\<forall>pj now' g' peer. fst (rx_worker unseal pj now' g' \<lparr>ra_data = wire p, ra_key = key, ra_peer = peer, ra_type = p_type p\<rparr>) =
       Inr (Rx_packet \<lparr>rd_peer = peer, rd_type = p_type p, rd_payload = ip, rd_isExit = (\<not> direct), rd_nextHop = None, rd_meta = rx_meta (received now' p)\<rparr>)"
proof -
  let ?t = "if direct then PT_DATA_DIRECT else PT_DATA" and ?fid = "fst (generateFlowId g)" and ?a = "one_hop_job ip s x key direct"
  obtain enc where enc: "encrypt_payload seal [iv] ?a = Inr enc" "length enc \<le> length ip + 29"
      "direct \<Longrightarrow> decrypt unseal enc key = Inr ip"
      "\<not> direct \<Longrightarrow> peelOnionLayer unseal enc key = Inr \<lparr>l_nextHop = None, l_isExit = True, l_payload = ip\<rparr>"
    using encrypt_one_hop [OF assms(1-3), of ?a x] by (simp add: one_hop_job_def) blast
  define p where "p = mesh_packet now ?t s x [x] ?fid enc"
  have wf: "wf_packet p"
    unfolding p_def by (rule wf_mesh_packet) (use assms(4-7) enc(2) in \<open>auto simp: packet_types good_id_def\<close>)
  have pt: "p_type p = ?t" "p_srcNode p = Some s" "p_dstNode p = Some x" "p_payload p = enc" "packet_key p = ?fid @ js '':0''" "p_ttl p = 32"
    by (simp_all add: p_def mesh_packet_def packet_key_def DEFAULT_TTL_def int_str_def dec_def js_def to_radix.simps digit_char_def)
  have tx: "fst (tx_worker seal [iv] now g ?a) = Inr \<lparr>tr_serialized = wire p, tr_nextHop = Some x, tr_payloadLen = length ip\<rparr>"
    using tx_worker_mesh [OF enc(1), where t="?t" and s=s and d=x and r="[x]" and now=now and g=g] wf by (simp add: one_hop_job_def p_def)
  have "fst (rx_worker unseal pj now' g' \<lparr>ra_data = wire p, ra_key = key, ra_peer = peer, ra_type = p_type p\<rparr>) =
      Inr (Rx_packet \<lparr>rd_peer = peer, rd_type = p_type p, rd_payload = ip, rd_isExit = (\<not> direct), rd_nextHop = None, rd_meta = rx_meta (received now' p)\<rparr>)"
    for pj now' g' peer
    using enc(3,4) by (cases direct) (simp_all add: pt rx_worker_wire [OF wf])
  then show thesis using that [OF wf pt(1-3,5,6) tx] by blast
qed

lemma receive_rx:
  assumes "wf_packet p" "getSessionKey (m_sessions m) peer = Some key" "p_srcNode p = Some peer"
    "p_type p = PT_DATA \<or> p_type p = PT_DATA_DIRECT \<and> p_dstNode p = Some (m_nodeId m)"
    "fst (rx_worker unseal pj now g \<lparr>ra_data = wire p, ra_key = key, ra_peer = peer, ra_type = p_type p\<rparr>) = Inr (Rx_packet rd)"
  shows "receive unseal pj now g acc wsOk peer (wire p) m = handleRxWorkerResult now acc rd m"
  by (subst receive_wire [OF assms(1), where key=key])
    (use assms in \<open>auto simp: str_or_empty_def on_rx_def Let_def split: prod.split\<close>)

section \<open>A client and its exit\<close>

definition pair_graph :: graph where
  "pair_graph = addEdge 0 (js ''x'') (js ''c'') no_metrics (addNode 0 (js ''c'') no_info (addNode 0 (js ''x'') (no_info\<lparr>ip_role := Some (Some (js ''exit''))\<rparr>) new_NetworkGraph))"

definition pair_node :: "node_config \<Rightarrow> jsstring \<Rightarrow> jsstring \<Rightarrow> mnode" where
  "pair_node cfg me peer = (new_MeshNode cfg me (js ''f'') (\<lambda>_. 0) (init_flow_gen 0))
     \<lparr>m_running := True, m_virtualIp := Some (10, 200, 0, 2), m_tun := True, m_tunRunning := True,
      m_tm := fst (on_peer_connected Webrtc peer (new_TransportManager True True True None)),
      m_sessions := [(peer, \<lparr>s_privateKey = [], s_publicKey = [], s_sessionKey = Some (replicate 32 5), s_established = True\<rparr>)],
      m_router := (new_MeshRouter me None [])\<lparr>r_graph := pair_graph,
        activeRoutes := [(js ''exit:any'', \<lparr>ar_route = [peer], ar_exitNode = peer, ar_latency = None, ar_updatedAt = 0, ar_unavailable = False\<rparr>)]\<rparr>\<rparr>"

definition pair_client :: mnode where
  "pair_client = pair_node demo_config (js ''c'') (js ''x'')"

definition pair_exit :: mnode where
  "pair_exit = pair_node (demo_config\<lparr>nc_role := Some (js ''exit''), nc_natMode := Some (js ''userspace'')\<rparr>) (js ''x'') (js ''c'')"

definition pair_ip :: buffer where
  "pair_ip = [69, 0, 0, 20, 0, 0, 0, 0, 64, 0, 0, 0, 10, 200, 0, 2, 1, 1, 1, 1]"

lemmas node_eval = pair_node_def demo_config_def new_MeshNode_def cfg_isExit_def cfg_isClient_def cfg_hasTun_def cfg_natMode_def js_def

lemma pair_facts:
  "m_nodeId pair_client = js ''c''" "m_nodeId pair_exit = js ''x''" "m_running pair_client" "m_isExit pair_exit" "m_userSpaceNAT pair_exit"
  "m_virtualIp pair_client = Some (10, 200, 0, 2)" "m_isClient pair_client" "\<not> m_isExit pair_client" "m_tun pair_client" "m_tunRunning pair_client"
  "processedPackets pair_exit = []"
  "getSessionKey (m_sessions pair_client) (js ''x'') = Some (replicate 32 5)" "getSessionKey (m_sessions pair_exit) (js ''c'') = Some (replicate 32 5)"
  by (simp_all add: pair_client_def pair_exit_def node_eval getSessionKey_def)

lemma pair_ids: "good_id (js ''c'')" "good_id (js ''x'')" "good_id (fst (generateFlowId (init_flow_gen 0)))"
  by (simp_all add: good_id_def id_ok_def ascii_def js_def generateFlowId_def init_flow_gen_def to_radix.simps digit_char_def padStart_def slice_last_def)

lemma pair_links: "link_ready (\<lambda>t. True) (js ''x'') pair_client" "link_ready (\<lambda>t. True) (js ''c'') pair_exit"
  by (simp_all add: link_ready_def pair_client_def pair_exit_def node_eval queue_of_def links_def on_peer_connected_def new_TransportManager_def
      TRANSPORT_PRIORITY_def set_add_def)

lemma pair_routes:
  "findRouteToExit 0 None (m_router pair_client) = (Some ([js ''x''], js ''x''), m_router pair_client)"
  "returned (findShortestPath (r_graph (m_router pair_exit)) (js ''x'') (js ''c'') []) = Some [js ''x'', js ''c'']"
proof -
  show "findRouteToExit 0 None (m_router pair_client) = (Some ([js ''x''], js ''x''), m_router pair_client)"
    by (simp add: pair_client_def node_eval new_MeshRouter_def findRouteToExit_def exit_key_def isRouteValid_def validateRoute_def)
  have "r_graph (m_router pair_exit) = pair_graph" by (simp add: pair_exit_def node_eval)
  moreover have "hasNode pair_graph (js ''c'')" "hasNode pair_graph (js ''x'')"
      "getNeighbors pair_graph (js ''x'') = [js ''c'']"
    by (simp_all add: pair_graph_def addEdge_def addNode_def new_NetworkGraph_def hasNode_def updateEdgeMetrics_def add_neighbor_def ensure_edges_def
        getNeighbors_def set_add_def js_def Let_def)
  ultimately show "returned (findShortestPath (r_graph (m_router pair_exit)) (js ''x'') (js ''c'') []) = Some [js ''x'', js ''c'']"
    by (simp add: findShortestPath_def bfs_def returned_def js_def bfs_loop.simps)
qed

lemma pair_parse:
  obtains parsed where "parseIPPacket pair_ip = Inr (Valid parsed)" "srcIp parsed = (10, 200, 0, 2)" "dstIp parsed = (1, 1, 1, 1)"
  by (simp add: parseIPPacket_def pair_ip_def readUInt16BE_def parse_transport_def ip_at_def PROTO_TCP_def PROTO_UDP_def PROTO_ICMP_def Let_def)

section \<open>Request and reply\<close>

text \<open>
  (C3) A request of a client whose exit is its neighbour, in onion mode or direct mode: the packet the TUN device
  hands to the client is handed to exactly one transport for the exit, and when that message arrives the exit hands the
  same packet to its NAT (or its TUN device), as a packet of that client, and nothing else. Both hold the session
  key the other has; the flow id of the sending worker is fresh for the exit.
\<close>

theorem request_reaches_exit:
  assumes aead: "aead_ok seal unseal" "length key = 32" "length iv = 12"
    and keys: "getSessionKey (m_sessions mc) (m_nodeId me) = Some key" "getSessionKey (m_sessions me) (m_nodeId mc) = Some key"
    and ids: "good_id (m_nodeId mc)" "good_id (m_nodeId me)" "good_id (fst (generateFlowId g))"
    and ip: "m_running mc" "parseIPPacket ip = Inr (Valid parsed)" "mesh_ip (srcIp parsed)"
      "\<not> (Some (srcIp parsed) = m_virtualIp mc \<and> Some (dstIp parsed) = m_virtualIp mc)" "length ip < 2 ^ 31"
    and route: "findRouteToExit now None (m_router mc) = (Some ([m_nodeId me], m_nodeId me), r)"
    and link: "link_ready acc (m_nodeId me) mc"
    and exit: "m_isExit me" "map_get (processedPackets me) (fst (generateFlowId g) @ js '':0'') = None"
  shows "\<exists>mc' t data me'. outbound seal [iv] now g acc ip mc = (mc', [Tm (Deliver t (m_nodeId me) data)], None)
    \<and> packetsSent (trafficStats mc') = packetsSent (trafficStats mc) + 1
    \<and> receive unseal pj now' g' acc' wsOk (m_nodeId mc) data me = (me', exit_actions me ip (Some (m_nodeId mc)), None)"
proof -
  let ?x = "m_nodeId me" and ?c = "m_nodeId mc"
  define mr where "mr = mc\<lparr>m_router := r\<rparr>"
  obtain p where p: "wf_packet p" "p_type p = (if m_directMode mc then PT_DATA_DIRECT else PT_DATA)" "p_srcNode p = Some ?c" "p_dstNode p = Some ?x"
      "packet_key p = fst (generateFlowId g) @ js '':0''" "p_ttl p = 32"
    and tx: "fst (tx_worker seal [iv] now g (one_hop_job ip ?c ?x key (m_directMode mc))) =
       Inr \<lparr>tr_serialized = wire p, tr_nextHop = Some ?x, tr_payloadLen = length ip\<rparr>"
    and rx: "\<forall>pj now' g' peer. fst (rx_worker unseal pj now' g' \<lparr>ra_data = wire p, ra_key = key, ra_peer = peer, ra_type = p_type p\<rparr>) =
       Inr (Rx_packet \<lparr>rd_peer = peer, rd_type = p_type p, rd_payload = ip, rd_isExit = (\<not> m_directMode mc), rd_nextHop = None, rd_meta = rx_meta (received now' p)\<rparr>)"
    by (rule one_hop_workers [OF aead ids ip(5), where direct="m_directMode mc" and now=now]) (rule that)
  have out: "handleOutboundPacket now ip mc = (mr, [Job_tx (one_hop_job ip ?c ?x key (m_directMode mc)) Cb_client])"
    using ip route keys(1) by (simp add: handleOutboundPacket_def sendThroughMesh_def Let_def one_hop_job_def mr_def)
  have "link_ready acc ?x mr" using link by (simp add: link_ready_def mr_def queue_of_def)
  then obtain t where send: "transportSendWithRetry acc ?x (wire p) (Count_sent (length ip)) mr =
      (True, run_flush (Count_sent (length ip)) mr, [Tm (Deliver t ?x (wire p))])"
    using link_readyD by blast
  have sent: "outbound seal [iv] now g acc ip mc = (run_flush (Count_sent (length ip)) mr, [Tm (Deliver t ?x (wire p))], None)"
    by (simp add: outbound_def out tx on_tx_client_def send no_error_def)
  let ?rd = "\<lparr>rd_peer = ?c, rd_type = p_type p, rd_payload = ip, rd_isExit = (\<not> m_directMode mc), rd_nextHop = None, rd_meta = rx_meta (received now' p)\<rparr>"
  have "\<exists>me'. handleRxWorkerResult now' acc' ?rd me = (me', exit_actions me (rd_payload ?rd) (p_srcNode p), None)"
    by (rule rx_exit [OF p(1)]) (use exit p in simp_all)
  moreover have "receive unseal pj now' g' acc' wsOk ?c (wire p) me = handleRxWorkerResult now' acc' ?rd me"
    by (rule receive_rx [OF p(1) keys(2) p(3)]) (use p rx in simp_all)
  moreover have "packetsSent (trafficStats (run_flush (Count_sent (length ip)) mr)) = packetsSent (trafficStats mc) + 1"
    by (simp add: mr_def)
  ultimately show ?thesis using sent p(3) by auto
qed

theorem request_reaches_exit_witness:
  "\<exists>mc' t data me'. outbound demo_seal [replicate 12 0] 0 (init_flow_gen 0) (\<lambda>t. True) pair_ip pair_client = (mc', [Tm (Deliver t (js ''x'') data)], None)
    \<and> receive demo_unseal (\<lambda>_. None) 5 (init_flow_gen 0) (\<lambda>t. True) False (js ''c'') data pair_exit = (me', [Nat_handle pair_ip (Some (js ''c''))], None)"
proof -
  obtain parsed where parsed: "parseIPPacket pair_ip = Inr (Valid parsed)" "srcIp parsed = (10, 200, 0, 2)" "dstIp parsed = (1, 1, 1, 1)" by (rule pair_parse)
  note fact = request_reaches_exit [OF demo_aead, where key="replicate 32 5" and iv="replicate 12 0" and mc=pair_client and me=pair_exit and g="init_flow_gen 0"
      and ip=pair_ip and parsed=parsed and now=0 and acc="\<lambda>t. True" and r="m_router pair_client"]
  show ?thesis
    using fact [where pj="\<lambda>_. None" and now'=5 and g'="init_flow_gen 0" and acc'="\<lambda>t. True" and wsOk=False]
    by (simp add: pair_facts pair_ids pair_links pair_routes parsed mesh_ip_def exit_actions_def) (auto simp: pair_ip_def)
qed

text \<open>
  (C4) The reply: when the exit's route back to the client is the direct link, what its NAT (or its TUN device) hands to
  \<open>_sendExitResponse\<close> goes to exactly one transport for the client and is written to the client's TUN device.
\<close>

theorem reply_reaches_client:
  assumes aead: "aead_ok seal unseal" "length key = 32" "length iv = 12"
    and keys: "getSessionKey (m_sessions me) (m_nodeId mc) = Some key" "getSessionKey (m_sessions mc) (m_nodeId me) = Some key"
    and ids: "good_id (m_nodeId me)" "good_id (m_nodeId mc)" "good_id (fst (generateFlowId g))"
    and ip: "length ip < 2 ^ 31"
    and route: "returned (findShortestPath (r_graph (m_router me)) (m_nodeId me) (m_nodeId mc) []) = Some [m_nodeId me, m_nodeId mc]"
    and link: "link_ready acc (m_nodeId mc) me"
    and client: "m_isClient mc" "\<not> m_isExit mc" "m_tun mc" "m_tunRunning mc"
  shows "\<exists>me' t data mc'. exit_reply seal [iv] now g acc wsOk (m_nodeId mc) ip me = (me', [Tm (Deliver t (m_nodeId mc) data)], None)
    \<and> receive unseal pj now' g' acc' wsOk' (m_nodeId me) data mc = (mc', [Tun_inject ip, Packet_received ip], None)"
proof -
  let ?x = "m_nodeId me" and ?c = "m_nodeId mc"
  obtain p where p: "wf_packet p" "p_type p = (if True then PT_DATA_DIRECT else PT_DATA)" "p_srcNode p = Some ?x" "p_dstNode p = Some ?c"
      "packet_key p = fst (generateFlowId g) @ js '':0''" "p_ttl p = 32"
    and tx: "fst (tx_worker seal [iv] now g (one_hop_job ip ?x ?c key True)) =
       Inr \<lparr>tr_serialized = wire p, tr_nextHop = Some ?c, tr_payloadLen = length ip\<rparr>"
    and rx: "\<forall>pj now' g' peer. fst (rx_worker unseal pj now' g' \<lparr>ra_data = wire p, ra_key = key, ra_peer = peer, ra_type = p_type p\<rparr>) =
       Inr (Rx_packet \<lparr>rd_peer = peer, rd_type = p_type p, rd_payload = ip, rd_isExit = (\<not> True), rd_nextHop = None, rd_meta = rx_meta (received now' p)\<rparr>)"
    by (rule one_hop_workers [OF aead ids ip, where direct=True and now=now]) (rule that)
  have out: "sendExitResponse ?c ip me = [Job_tx (one_hop_job ip ?x ?c key True) (Cb_exit ?c False)]"
    using route keys(1) by (simp add: sendExitResponse_def buildExitTxArgs_def one_hop_job_def Let_def)
  obtain t where send: "transportSendWithRetry acc ?c (wire p) (Count_sent (length ip)) me =
      (True, run_flush (Count_sent (length ip)) me, [Tm (Deliver t ?c (wire p))])"
    using link_readyD [OF link] by blast
  have sent: "exit_reply seal [iv] now g acc wsOk ?c ip me = (run_flush (Count_sent (length ip)) me, [Tm (Deliver t ?c (wire p))], None)"
    by (simp add: exit_reply_def out tx on_tx_exit_def send no_error_def)
  let ?rd = "\<lparr>rd_peer = ?x, rd_type = p_type p, rd_payload = ip, rd_isExit = False, rd_nextHop = None, rd_meta = rx_meta (received now' p)\<rparr>"
  have "\<exists>mc'. handleRxWorkerResult now' acc' ?rd mc = (mc', tun_actions mc (rd_payload ?rd), None)"
    by (rule rx_client) (use client p in simp_all)
  moreover have "receive unseal pj now' g' acc' wsOk' ?x (wire p) mc = handleRxWorkerResult now' acc' ?rd mc"
    by (rule receive_rx [OF p(1) keys(2) p(3)]) (use p rx in simp_all)
  ultimately show ?thesis using sent client by (auto simp: tun_actions_def)
qed

theorem reply_reaches_client_witness:
  "\<exists>me' t data mc'. exit_reply demo_seal [replicate 12 0] 0 (init_flow_gen 0) (\<lambda>t. True) False (js ''c'') pair_ip pair_exit = (me', [Tm (Deliver t (js ''c'') data)], None)
    \<and> receive demo_unseal (\<lambda>_. None) 5 (init_flow_gen 0) (\<lambda>t. True) False (js ''x'') data pair_client = (mc', [Tun_inject pair_ip, Packet_received pair_ip], None)"
proof -
  note fact = reply_reaches_client [OF demo_aead, where key="replicate 32 5" and iv="replicate 12 0" and mc=pair_client and me=pair_exit and g="init_flow_gen 0"
      and ip=pair_ip and now=0 and acc="\<lambda>t. True"]
  show ?thesis
    using fact [where pj="\<lambda>_. None" and now'=5 and g'="init_flow_gen 0" and acc'="\<lambda>t. True" and wsOk=False and wsOk'=False]
    by (simp add: pair_facts pair_ids pair_links pair_routes) (auto simp: pair_ip_def)
qed

end
