(* ===== verification/Loop_Prevention.thy ===== *)
theory Loop_Prevention
  imports Mesh_Delivery
begin

text \<open>
  Forwarding by relays (\<open>_handleRxWorkerResult\<close> and \<open>_forwardPacket\<close> of \<open>src/core/node.js\<close>): what a relay sends on
  for a data packet, the bound on the number of hops, and the suppression of duplicates over all events
  of a node.
\<close>

section \<open>What a relay sends on\<close>

definition forwarded :: "packet \<Rightarrow> buffer \<Rightarrow> packet" where
  "forwarded p payload = p\<lparr>p_ttl := p_ttl p - 1, p_hop := p_hop p + 1, p_payload := payload\<rparr>"

lemma wire_cong:
  "p_type p = p_type q \<Longrightarrow> p_hop p = p_hop q \<Longrightarrow> p_ttl p = p_ttl q \<Longrightarrow> p_route p = p_route q \<Longrightarrow> p_seq p = p_seq q \<Longrightarrow>
   p_flowId p = p_flowId q \<Longrightarrow> p_srcNode p = p_srcNode q \<Longrightarrow> p_dstNode p = p_dstNode q \<Longrightarrow> p_payload p = p_payload q \<Longrightarrow> wire p = wire q"
  by (simp add: wire_def wire_header_def wire_ids_def)

lemma wire_inject:
  assumes "wf_packet p" "wf_packet q" "wire p = wire q"
  shows "p_ttl p = p_ttl q \<and> p_hop p = p_hop q \<and> p_flowId p = p_flowId q \<and> p_seq p = p_seq q \<and> p_type p = p_type q"
proof -
  have "received 0 p = received 0 q"
    using deserializeV2_wire [OF assms(1), of 0 undefined] deserializeV2_wire [OF assms(2), of 0 undefined] assms(3) by simp
  moreover have "p_ttl (received 0 p) = p_ttl p" "p_hop (received 0 p) = p_hop p" "p_flowId (received 0 p) = p_flowId p"
      "p_seq (received 0 p) = p_seq p" "p_type (received 0 p) = p_type p" for p by (simp_all add: received_def)
  ultimately show ?thesis by metis
qed

text \<open>The error-free result of forwarding.\<close>

lemma forwardPacket_sends:
  assumes wf: "wf_packet p" "p_type p = PT_DATA" "p_hop p < 65535" "1 < p_ttl p" "length payload < 4294967296"
    and go: "h \<noteq> peer" "Some h \<noteq> p_srcNode p"
    and orig: "orig = (rx_packet n p)\<lparr>p_visitedNodes := vs, p_ttl := p_ttl (rx_packet n p) - 1\<rparr>"
  shows "wf_packet (forwarded p payload) \<and> (\<exists>m1. m_tm m1 = m_tm m \<and> sendRetryQueues m1 = sendRetryQueues m \<and> strictTransportOrdering m1 = strictTransportOrdering m \<and>
      sendRetryMaxPackets m1 = sendRetryMaxPackets m \<and>
      forwardPacket now acc orig h payload (Some peer) m =
        (case transportSendWithRetry acc h (wire (forwarded p payload)) Count_forwarded m1 of (ok, m', acts) \<Rightarrow> (m', acts, None)))"
proof -
  have src: "p_srcNode orig = p_srcNode p" by (simp add: orig rx_packet_def)
  have strs: "or_str (Some (p_flowId p)) = Some (p_flowId p)" "or_str (p_srcNode p) = p_srcNode p" "or_str (p_dstNode p) = p_dstNode p"
    using wf(1) by (auto simp: wf_packet_def or_str_id)
  define q where "q = incrementHop ((fst (clone now (m_gen m) orig))\<lparr>p_payload := payload\<rparr>)"
  have fields: "p_type q = PT_DATA" "p_hop q = p_hop p + 1" "p_ttl q = p_ttl p - 1" "p_route q = p_route p" "p_seq q = p_seq p"
      "p_flowId q = p_flowId p" "p_srcNode q = p_srcNode p" "p_dstNode q = p_dstNode p" "p_payload q = payload"
    using strs by (simp_all add: q_def orig clone_def new_Packet_def incrementHop_def rx_packet_def packet_types) (simp_all add: or_num_def)
  have wfq: "wf_packet q" using wf fields by (simp add: wf_packet_def)
  have w: "wire q = wire (forwarded p payload)" by (rule wire_cong) (simp_all add: fields forwarded_def wf(2))
  have wff: "wf_packet (forwarded p payload)" using wf by (simp add: wf_packet_def forwarded_def)
  obtain c g where c: "clone now (m_gen m) orig = (c, g)" by (cases "clone now (m_gen m) orig")
  define m1 where "m1 = m\<lparr>m_gen := g\<rparr>"
  have ser: "serialize (incrementHop (c\<lparr>p_payload := payload\<rparr>)) = Inr (wire (forwarded p payload))"
    using serialize_wire [OF wfq] w by (simp add: q_def c)
  have "forwardPacket now acc orig h payload (Some peer) m =
        (case transportSendWithRetry acc h (wire (forwarded p payload)) Count_forwarded m1 of (ok, m', acts) \<Rightarrow> (m', acts, None))"
    using go src by (simp add: forwardPacket_def c ser m1_def Let_def)
  moreover have "m_tm m1 = m_tm m \<and> sendRetryQueues m1 = sendRetryQueues m \<and> strictTransportOrdering m1 = strictTransportOrdering m \<and>
      sendRetryMaxPackets m1 = sendRetryMaxPackets m" by (simp add: m1_def)
  ultimately show ?thesis using wff by blast
qed

lemma send_handed:
  assumes "transportSendWithRetry acc h d f m = (ok, m', acts)"
  shows "set (delivered acts) \<subseteq> {(h, d)} \<and> (\<forall>q. queue_of q m' = queue_of q m \<or> q = h \<and> queue_of q m' = queue_of q m @ [(d, f)])"
proof -
  have Q: "(case map_get (sendRetryQueues m) h of Some q \<Rightarrow> q | None \<Rightarrow> []) = queue_of h m" by (simp add: queue_of_def)
  note send = transportSendWithRetry_def [of acc h d f m, unfolded Q Let_def]
  have fl: "queue_of q (run_flush f m) = queue_of q m" for q by (rule queue_cong) simp
  show ?thesis
  proof (cases "tm_isConnected (m_tm m) h \<and> \<not> (strictTransportOrdering m \<and> queue_of h m \<noteq> [])")
    case False
    then show ?thesis using assms by (auto simp: send split: if_splits)
  next
    case direct: True
    show ?thesis
    proof (cases rule: tm_send_cases [of acc None h d "m_tm m"])
      case (sent t)
      then show ?thesis using assms direct by (auto simp: send fl)
    next
      case refused
      then show ?thesis using assms direct by (auto simp: send split: if_splits)
    qed
  qed
qed

lemma loop_checks_cases:
  assumes "loop_checks now p m = (r, m')"
  shows "sendRetryQueues m' = sendRetryQueues m"
    "r = Some p' \<Longrightarrow> map_get (processedPackets m) (packet_key p) = None \<and> 1 < p_ttl p \<and> m' = mark_seen now p m"
  using assms
  by (auto simp: loop_checks_def isTTLExpired_def isPacketDuplicate_def hasVisited_def addVisitedNode_def decrementTTL_def mark_seen_def
      count_drop_def Let_def split: if_splits)

text \<open>A packet is handed to a peer when a transport takes it or when it is put at the end of the queue for that peer.\<close>

definition handed :: "mnode \<Rightarrow> mnode \<Rightarrow> node_action list \<Rightarrow> jsstring \<Rightarrow> buffer \<Rightarrow> bool" where
  "handed m m' acts h d \<longleftrightarrow> (h, d) \<in> set (delivered acts) \<or> (\<exists>f. queue_of h m' = queue_of h m @ [(d, f)])"

lemma not_handed: "sendRetryQueues m' = sendRetryQueues m \<Longrightarrow> \<not> handed m m' [] h d"
  by (simp add: handed_def queue_of_def)

lemma serialize_hop_overflow:
  assumes "0 \<le> p_type q" "p_type q < 256" "65536 \<le> p_hop q"
  shows "serialize q = Inl RangeError"
proof -
  have "\<exists>b. writeUInt8 (Buffer_alloc (58 + n)) 2 0 = Inr b \<and> (\<exists>b'. writeUInt8 b (p_type q) 1 = Inr b')" for n
    using assms(1,2) by (simp add: writeUInt8_def write_bytes_def Buffer_alloc_def)
  then obtain b b' where "writeUInt8 (Buffer_alloc (58 + length (p_route q) * 16 + 4 + length (p_payload q))) 2 0 = Inr b"
      "writeUInt8 b (p_type q) 1 = Inr b'" by (metis add.assoc)
  then show ?thesis using assms(3) by (simp add: serialize_def Let_def writeUInt16BE_def)
qed

lemma forwardPacket_overflow:
  assumes "p_hop orig = 65535" "p_type orig = PT_DATA" "h \<noteq> peer" "Some h \<noteq> p_srcNode orig"
  shows "\<exists>m'. forwardPacket now acc orig h payload (Some peer) m = (m', [], Some RangeError) \<and> sendRetryQueues m' = sendRetryQueues m"
proof -
  obtain c g where c: "clone now (m_gen m) orig = (c, g)" by (cases "clone now (m_gen m) orig")
  then have "c = fst (clone now (m_gen m) orig)" by simp
  then have "p_hop c = 65535" "p_type c = PT_DATA"
    using assms(1,2) by (simp_all add: clone_def new_Packet_fields or_num_def packet_types)
  then have "serialize (incrementHop (c\<lparr>p_payload := payload\<rparr>)) = Inl RangeError"
    by (intro serialize_hop_overflow) (simp_all add: incrementHop_def packet_types)
  then show ?thesis using assms(3,4) by (simp add: forwardPacket_def c)
qed

lemma relay_handed:
  assumes wf: "wf_packet p" "p_type p = PT_DATA" "length (rd_payload rd) < 4294967296"
    and rd: "rd_type rd = PT_DATA" "\<not> rd_isExit rd" "rd_meta rd = rx_meta (received n p)"
    and run: "handleRxWorkerResult now acc rd m = (m', acts, e)" and sent: "handed m m' acts h d"
  shows "rd_nextHop rd = Some h \<and> h \<noteq> rd_peer rd \<and> Some h \<noteq> p_srcNode p \<and> 1 < p_ttl p
    \<and> map_get (processedPackets m) (packet_key p) = None \<and> wf_packet (forwarded p (rd_payload rd)) \<and> d = wire (forwarded p (rd_payload rd))"
proof -
  define M where "M = count_processed m"
  obtain r m1 where lc: "loop_checks now (rx_packet now p) M = (r, m1)" by (cases "loop_checks now (rx_packet now p) M")
  have q1: "sendRetryQueues m1 = sendRetryQueues m" using loop_checks_cases(1) [OF lc] by (simp add: M_def)
  have key: "packet_key (rx_packet now p) = packet_key p" "p_ttl (rx_packet now p) = p_ttl p" by (simp_all add: packet_key_def rx_packet_def)
  note h = handleRxWorkerResult_def [of now acc rd m, unfolded rd(1,3) new_Packet_rx_meta [OF wf(1)]]
  obtain pkt where r: "r = Some pkt"
    using run sent not_handed [OF q1] rd(2) lc [unfolded M_def] by (cases r) (auto simp: h M_def)
  from loop_checks_cases(2) [OF lc r] have fresh: "map_get (processedPackets M) (packet_key (rx_packet now p)) = None" "1 < p_ttl (rx_packet now p)"
    and m1: "m1 = mark_seen now (rx_packet now p) M" by auto
  have pkt: "pkt = (rx_packet now p)\<lparr>p_visitedNodes := [m_nodeId M], p_ttl := p_ttl (rx_packet now p) - 1\<rparr>"
    using loop_checks_fresh [OF fresh(1) _ fresh(2), of now] lc r by (simp add: rx_packet_def)
  obtain h0 where h0: "rd_nextHop rd = Some h0" "h0 \<noteq> []" and fwd: "forwardPacket now acc pkt h0 (rd_payload rd) (Some (rd_peer rd)) m1 = (m', acts, e)"
    using run sent not_handed [OF q1] rd(2) lc [unfolded M_def] r by (auto simp: h M_def split: option.splits list.splits)
  have src: "p_srcNode pkt = p_srcNode p" by (simp add: pkt rx_packet_def)
  have go: "h0 \<noteq> rd_peer rd" "Some h0 \<noteq> p_srcNode p"
    using fwd sent not_handed [of _ m] q1 src by (auto simp: forwardPacket_def count_drop_def split: if_splits)
  have "p_hop p < 65535"
  proof (rule ccontr)
    assume "\<not> p_hop p < 65535"
    then have "p_hop pkt = 65535" using wf(1) by (simp add: pkt rx_packet_def wf_packet_def)
    moreover have "p_type pkt = PT_DATA" by (simp add: pkt rx_packet_def)
    ultimately show False
      using forwardPacket_overflow [of pkt h0 "rd_peer rd" now acc "rd_payload rd" m1] go src fwd sent not_handed [of m' m] q1 by auto
  qed
  from forwardPacket_sends [OF wf(1,2) this _ wf(3) go pkt, where m=m1 and now=now and acc=acc] fresh(2) key(2)
  obtain m2 where wff: "wf_packet (forwarded p (rd_payload rd))" and q2: "sendRetryQueues m2 = sendRetryQueues m1"
    and f: "forwardPacket now acc pkt h0 (rd_payload rd) (Some (rd_peer rd)) m1 =
      (case transportSendWithRetry acc h0 (wire (forwarded p (rd_payload rd))) Count_forwarded m2 of (ok, m', acts) \<Rightarrow> (m', acts, None))" by fastforce
  obtain ok where "transportSendWithRetry acc h0 (wire (forwarded p (rd_payload rd))) Count_forwarded m2 = (ok, m', acts)"
    using f fwd by (auto split: prod.splits)
  note S = send_handed [OF this]
  have "queue_of h m' = queue_of h m \<or> h = h0 \<and> queue_of h m' = queue_of h m @ [(wire (forwarded p (rd_payload rd)), Count_forwarded)]"
    using S [THEN conjunct2, rule_format, of h] queue_cong [of m2 m h] q1 q2 by auto
  then have "h = h0 \<and> d = wire (forwarded p (rd_payload rd))" using sent S by (auto simp: handed_def)
  then show ?thesis using h0 go fresh key wff by (simp add: M_def)
qed

section \<open>The number of hops\<close>

text \<open>
  One hop: some relay receives \<open>p\<close> from some peer, finds a further hop in the layer it peels, and hands \<open>q\<close> to that hop.
  Nothing is assumed about the state of the relay, its keys or the content of the packet.
\<close>

inductive relayed :: "unseal \<Rightarrow> (jsstring \<Rightarrow> jsstring list option) \<Rightarrow> packet \<Rightarrow> packet \<Rightarrow> bool" for unseal pj where
  hop: "wf_packet p \<Longrightarrow> wf_packet q \<Longrightarrow> p_type p = PT_DATA \<Longrightarrow>
    fst (rx_worker unseal pj now g \<lparr>ra_data = wire p, ra_key = key, ra_peer = peer, ra_type = PT_DATA\<rparr>) = Inr (Rx_packet rd) \<Longrightarrow>
    length (rd_payload rd) < 4294967296 \<Longrightarrow> \<not> rd_isExit rd \<Longrightarrow>
    handleRxWorkerResult now' acc rd m = (m', acts, e) \<Longrightarrow> handed m m' acts h (wire q) \<Longrightarrow> relayed unseal pj p q"

inductive_cases relayedE: "relayed unseal pj p q"

lemma rx_worker_data:
  assumes "wf_packet p" "fst (rx_worker unseal pj now g \<lparr>ra_data = wire p, ra_key = key, ra_peer = peer, ra_type = PT_DATA\<rparr>) = Inr (Rx_packet rd)"
  shows "rd_type rd = PT_DATA \<and> rd_meta rd = rx_meta (received now p)"
  using assms(2) unfolding rx_worker_wire(1) [OF assms(1)] by (cases "peelOnionLayer unseal (p_payload p) key") auto

lemma relayed_fields:
  assumes "relayed unseal pj p q"
  shows "1 < p_ttl p \<and> p_ttl q = p_ttl p - 1 \<and> p_hop q = p_hop p + 1 \<and> p_flowId q = p_flowId p \<and> p_seq q = p_seq p"
  using assms
proof (rule relayedE)
  fix now g key peer rd now' acc m m' acts e h
  assume wf: "wf_packet p" "wf_packet q" "p_type p = PT_DATA"
    and rx: "fst (rx_worker unseal pj now g \<lparr>ra_data = wire p, ra_key = key, ra_peer = peer, ra_type = PT_DATA\<rparr>) = Inr (Rx_packet rd)"
    and rd: "length (rd_payload rd) < 4294967296" "\<not> rd_isExit rd"
    and run: "handleRxWorkerResult now' acc rd m = (m', acts, e)" "handed m m' acts h (wire q)"
  note R = relay_handed [OF wf(1,3) rd(1) _ rd(2) _ run] rx_worker_data [OF wf(1) rx]
  then have ttl: "1 < p_ttl p" and w: "wf_packet (forwarded p (rd_payload rd))" "wire q = wire (forwarded p (rd_payload rd))" by blast+
  from wire_inject [OF wf(2) w] ttl show ?thesis by (simp add: forwarded_def)
qed


text \<open>The good case: a fresh packet with a next hop that is up is sent on at once.\<close>

lemma relay_forwards:
  assumes wf: "wf_packet p" "p_type p = PT_DATA" "p_hop p < 65535" "1 < p_ttl p" "length (rd_payload rd) < 4294967296"
    and rd: "rd_type rd = PT_DATA" "\<not> rd_isExit rd" "rd_meta rd = rx_meta (received n p)" "rd_nextHop rd = Some h" "h \<noteq> []"
    and go: "h \<noteq> rd_peer rd" "Some h \<noteq> p_srcNode p" "map_get (processedPackets m) (packet_key p) = None" "link_ready acc h m"
  shows "wf_packet (forwarded p (rd_payload rd)) \<and>
    (\<exists>m' t. handleRxWorkerResult now acc rd m = (m', [Tm (Deliver t h (wire (forwarded p (rd_payload rd))))], None))"
proof -
  define M where "M = count_processed m"
  have lc: "loop_checks now (rx_packet now p) M =
      (Some ((rx_packet now p)\<lparr>p_visitedNodes := [m_nodeId M], p_ttl := p_ttl (rx_packet now p) - 1\<rparr>), mark_seen now (rx_packet now p) M)"
    by (rule loop_checks_fresh) (use go(3) wf(4) in \<open>simp_all add: M_def rx_packet_def packet_key_def\<close>)
  let ?m1 = "mark_seen now (rx_packet now p) M"
  from forwardPacket_sends [OF wf go(1,2) refl, where m="?m1" and now=now and acc=acc and n=now and vs="[m_nodeId M]"]
  obtain m2 where wff: "wf_packet (forwarded p (rd_payload rd))" and same: "m_tm m2 = m_tm ?m1" "sendRetryQueues m2 = sendRetryQueues ?m1"
    and f: "forwardPacket now acc ((rx_packet now p)\<lparr>p_visitedNodes := [m_nodeId M], p_ttl := p_ttl (rx_packet now p) - 1\<rparr>) h (rd_payload rd) (Some (rd_peer rd)) ?m1 =
      (case transportSendWithRetry acc h (wire (forwarded p (rd_payload rd))) Count_forwarded m2 of (ok, m', acts) \<Rightarrow> (m', acts, None))" by blast
  have "link_ready acc h m2" using go(4) same by (simp add: link_ready_def queue_of_def M_def mark_seen_def)
  then obtain t where "transportSendWithRetry acc h (wire (forwarded p (rd_payload rd))) Count_forwarded m2 =
      (True, run_flush Count_forwarded m2, [Tm (Deliver t h (wire (forwarded p (rd_payload rd))))])" using link_readyD by blast
  then have "handleRxWorkerResult now acc rd m = (run_flush Count_forwarded m2, [Tm (Deliver t h (wire (forwarded p (rd_payload rd))))], None)"
    using f rd lc [unfolded M_def] by (cases h) (simp_all add: handleRxWorkerResult_def new_Packet_rx_meta [OF wf(1)] M_def)
  then show ?thesis using wff by blast
qed

definition relay_payload :: buffer where
  "relay_payload = replicate 12 0 @ replicate 16 7 @ layer_bytes (Some (js ''x'')) [9]"

definition relay_packet :: packet where
  "relay_packet = mesh_packet 0 PT_DATA (js ''c'') (js ''x'') [js ''r'', js ''x''] (js ''f1'') relay_payload"

definition demo_relay :: mnode where
  "demo_relay = pair_node (demo_config\<lparr>nc_role := Some (js ''relay'')\<rparr>) (js ''r'') (js ''x'')"

definition relay_rd :: rx_data where
  "relay_rd = \<lparr>rd_peer = js ''c'', rd_type = PT_DATA, rd_payload = [9], rd_isExit = False, rd_nextHop = Some (js ''x''),
     rd_meta = rx_meta (received 0 relay_packet)\<rparr>"

lemma relay_layer: "\<forall>h \<in> set_option (Some (js ''x'')). h \<noteq> [] \<and> id_ok h"
  by (simp add: js_def id_ok_def ascii_def)

lemma relay_packet_wf: "wf_packet relay_packet"
  unfolding relay_packet_def
  by (rule wf_mesh_packet)
    (use length_layer_bytes [OF relay_layer, of "[9]"] in \<open>simp_all add: packet_types good_id_def js_def id_ok_def ascii_def relay_payload_def\<close>)

lemma relay_demo_rx:
  "wf_packet (forwarded relay_packet [9]) \<and>
   (\<exists>m' t. handleRxWorkerResult 0 (\<lambda>t. True) relay_rd demo_relay = (m', [Tm (Deliver t (js ''x'') (wire (forwarded relay_packet [9])))], None))"
proof -
  have "link_ready (\<lambda>t. True) (js ''x'') demo_relay"
    by (simp add: link_ready_def demo_relay_def node_eval queue_of_def links_def on_peer_connected_def new_TransportManager_def
      TRANSPORT_PRIORITY_def set_add_def)
  moreover have "map_get (processedPackets demo_relay) (packet_key relay_packet) = None" by (simp add: demo_relay_def node_eval)
  ultimately show ?thesis
    using relay_forwards [OF relay_packet_wf, where rd=relay_rd and h="js ''x''" and n=0 and m=demo_relay and acc="\<lambda>t. True" and now=0]
    by (auto simp: relay_rd_def relay_packet_def mesh_packet_def packet_types DEFAULT_TTL_def js_def)
qed

lemma relay_demo: "relayed demo_unseal (\<lambda>_. None) relay_packet (forwarded relay_packet [9])"
proof -
  have peel: "peelOnionLayer demo_unseal relay_payload (replicate 32 0) = Inr \<lparr>l_nextHop = Some (js ''x''), l_isExit = False, l_payload = [9]\<rparr>"
    using decodeLayer_bytes [OF relay_layer, of "[9]"]
    by (simp add: peelOnionLayer_def decrypt_def relay_payload_def demo_unseal_def IV_LENGTH_def AUTH_TAG_LENGTH_def subarray_def)
  have rx: "fst (rx_worker demo_unseal (\<lambda>_. None) 0 (init_flow_gen 0) \<lparr>ra_data = wire relay_packet, ra_key = replicate 32 0, ra_peer = js ''c'', ra_type = PT_DATA\<rparr>) =
      Inr (Rx_packet relay_rd)"
    using peel by (simp add: rx_worker_wire [OF relay_packet_wf] relay_rd_def) (simp add: relay_packet_def mesh_packet_def)
  obtain m' t where wff: "wf_packet (forwarded relay_packet [9])"
    and run: "handleRxWorkerResult 0 (\<lambda>t. True) relay_rd demo_relay = (m', [Tm (Deliver t (js ''x'') (wire (forwarded relay_packet [9])))], None)"
    using relay_demo_rx by blast
  have "handed demo_relay m' [Tm (Deliver t (js ''x'') (wire (forwarded relay_packet [9])))] (js ''x'') (wire (forwarded relay_packet [9]))"
    by (simp add: handed_def)
  from relayed.hop [OF relay_packet_wf wff _ rx _ _ run this] show ?thesis by (simp add: relay_rd_def relay_packet_def mesh_packet_def)
qed


section \<open>Routes of two hops\<close>

text \<open>A cipher whose tag depends on the key, as that of AES-GCM does.\<close>

definition key_tag :: "buffer \<Rightarrow> buffer" where
  "key_tag k = take 16 (k @ replicate 16 0)"

definition key_seal :: seal where
  "key_seal k iv p = (p, key_tag k)"

definition key_unseal :: unseal where
  "key_unseal k iv t c = (if t = key_tag k then Some c else None)"

lemma key_aead: "aead_ok key_seal key_unseal"
  by (auto simp: aead_ok_def key_seal_def key_unseal_def key_tag_def)

lemma wrong_key: "length iv = 12 \<Longrightarrow> key_tag k \<noteq> key_tag k' \<Longrightarrow> encrypt key_seal iv p k = Inr c \<Longrightarrow> \<exists>e. decrypt key_unseal c k' = Inl e"
  by (auto simp: encrypt_def decrypt_def key_seal_def key_unseal_def key_tag_def IV_LENGTH_def AUTH_TAG_LENGTH_def subarray_def split: if_splits)

text \<open>
  A route of two hops does not work in onion mode: the relay peels the outer layer and sends the inner one on, which is sealed under the key
  that client and exit share; but the exit opens it with the key it shares with the neighbour the message comes from, the relay, and drops it.
\<close>

lemma two_hop_onion_lost:
  assumes "createOnionPacket key_seal [iv1, iv2] ip [(r, k1), (x, k2)] = Inr outer" "peelOnionLayer key_unseal outer k1 = Inr l"
    and "length k1 = 32" "length iv1 = 12" "length iv2 = 12" "good_id x" "key_tag k2 \<noteq> key_tag k3"
    and "wf_packet q" "p_type q = PT_DATA" "p_payload q = l_payload l" "getSessionKey (m_sessions mx) r = Some k3"
  shows "receive key_unseal pj now g acc wsOk r (wire q) mx = (mx, [], None)"
proof -
  obtain inner where inner: "build_layers key_seal [iv1, iv2] None [(x, k2)] ip = Inr inner"
    using assms(1) by (auto simp: createOnionPacket_def ebind_def split: sum.splits)
  obtain lay where "encrypt key_seal iv1 lay k2 = Inr inner" using inner by (auto simp: ebind_def split: sum.splits)
  then obtain e where e: "decrypt key_unseal inner k3 = Inl e" using wrong_key [OF assms(4,7)] by blast
  have out: "build_layers key_seal [iv2] (Some x) [(r, k1)] inner = Inr outer"
    using assms(1) inner by (auto simp: createOnionPacket_def ebind_def split: sum.splits)
  have "l_payload l = inner"
    using one_layer [OF key_aead, of "Some x" k1 "[iv2]" r inner] out assms(2,3,5,6) by (auto simp: good_id_def)
  then have "peelOnionLayer key_unseal (p_payload q) k3 = Inl e" using e assms(10) by (simp add: peelOnionLayer_def)
  then show ?thesis
    using assms(9,11) by (subst receive_wire [OF assms(8), where key=k3]) (simp_all add: rx_worker_wire [OF assms(8)] on_rx_def)
qed

text \<open>
  Nor does it in direct mode: with two keys the worker builds onion layers all the same, and the exit, which gets the packet
  unchanged from the relay, opens the outermost one with the key of the client.
\<close>

lemma two_hop_direct_lost:
  assumes "encrypt_payload key_seal [iv1, iv2] a = Inr enc" "ta_keys a = [(r, k1), (x, k2)]" "ta_direct a"
    and "length iv2 = 12" "key_tag k1 \<noteq> key_tag k2"
    and "wf_packet q" "p_type q = PT_DATA_DIRECT" "p_payload q = enc" "p_srcNode q = Some c" "p_dstNode q = Some (m_nodeId mx)"
    and "getSessionKey (m_sessions mx) c = Some k2"
  shows "receive key_unseal pj now g acc wsOk r (wire q) mx = (mx, [], None)"
proof -
  obtain lay where "encrypt key_seal iv2 lay k1 = Inr enc"
    using assms(1,2) by (auto simp: encrypt_payload_def createOnionPacket_def ebind_def split: sum.splits)
  then obtain e where "decrypt key_unseal (p_payload q) k2 = Inl e" using wrong_key [OF assms(4,5)] assms(8) by blast
  then show ?thesis
    using assms(7,9-11)
    by (subst receive_wire [OF assms(6), where key=k2]) (simp_all add: rx_worker_wire(2) [OF assms(6), unfolded packet_types] on_rx_def str_or_empty_def packet_types)
qed

end
