(* ===== verification/Node_Events.thy ===== *)
theory Node_Events
  imports Loop_Prevention
begin

text \<open>
  All events of a running node as one step function: packets from the TUN device, messages, answers of the workers, timers,
  changes of links and topology, in any order. Shown is what holds over every such sequence: a packet that was used once is not
  used again while it is remembered, and the reply of the exit goes to the node that sent the request.
\<close>

section \<open>Events\<close>

datatype node_event =
    Ev_tun int buffer
  | Ev_message int "ttype \<Rightarrow> bool" bool jsstring buffer
  | Ev_tx_client "ttype \<Rightarrow> bool" "tx_result res"
  | Ev_tx_exit "ttype \<Rightarrow> bool" bool jsstring bool "tx_result res"
  | Ev_rx int "ttype \<Rightarrow> bool" "rx_result res"
  | Ev_exit_tun buffer
  | Ev_buffer_low jsstring "(ttype \<Rightarrow> bool) list"
  | Ev_cleanup int
  | Ev_ping int "ttype \<Rightarrow> bool" jsstring
  | Ev_link tm_event
  | Ev_connected int jsstring ttype "info_patch option" bool
  | Ev_disconnected int jsstring
  | Ev_topology int topology
  | Ev_ws_up int jsstring info_patch
  | Ev_ws_down int jsstring
  | Ev_traffic_tick
  | Ev_reset_stats

fun node_step :: "unseal \<Rightarrow> (jsstring \<Rightarrow> jsstring list option) \<Rightarrow> node_event \<Rightarrow> mnode \<Rightarrow> node_out" where
  "node_step unseal pj (Ev_tun now ip) m = no_error (handleOutboundPacket now ip m)"
| "node_step unseal pj (Ev_message now acc wsOk peer data) m = processIncomingMessage unseal pj now acc wsOk peer data m"
| "node_step unseal pj (Ev_tx_client acc r) m = no_error (on_tx_client acc r m)"
| "node_step unseal pj (Ev_tx_exit acc wsOk target ws r) m = no_error (on_tx_exit acc wsOk target ws r m)"
| "node_step unseal pj (Ev_rx now acc r) m = on_rx now acc r m"
| "node_step unseal pj (Ev_exit_tun ip) m = (m, handleExitTunPacket ip m, None)"
| "node_step unseal pj (Ev_buffer_low peer orc) m = no_error (drainSendRetryQueue peer orc m)"
| "node_step unseal pj (Ev_cleanup now) m = (cacheCleanup now m, [], None)"
| "node_step unseal pj (Ev_ping now acc peer) m = sendPing now acc peer m"
| "node_step unseal pj (Ev_link ev) m = (m\<lparr>m_tm := fst (tm_step ev (m_tm m))\<rparr>, map Tm (snd (tm_step ev (m_tm m))), None)"
| "node_step unseal pj (Ev_connected now peer t info isTurn) m = (node_peer_connected now peer t info isTurn m, [], None)"
| "node_step unseal pj (Ev_disconnected now peer) m = (node_peer_disconnected now peer m, [], None)"
| "node_step unseal pj (Ev_topology now t) m = (node_topology now t m, [], None)"
| "node_step unseal pj (Ev_ws_up now peer info) m = (ws_peer_connected now peer info m, [], None)"
| "node_step unseal pj (Ev_ws_down now peer) m = (ws_peer_disconnected now peer m, [], None)"
| "node_step unseal pj Ev_traffic_tick m = (traffic_tick m, [], None)"
| "node_step unseal pj Ev_reset_stats m = (resetLoopStats m, [], None)"

definition node_run :: "unseal \<Rightarrow> (jsstring \<Rightarrow> jsstring list option) \<Rightarrow> node_event list \<Rightarrow> mnode \<Rightarrow> mnode" where
  "node_run unseal pj evs m = fold (\<lambda>ev m. fst (node_step unseal pj ev m)) evs m"

section \<open>What the events leave alone\<close>

text \<open>The two tables this theory is about, with the settings that belong to them.\<close>

definition tables :: "mnode \<Rightarrow> (jsstring, int) jsmap \<times> int \<times> (five_tuple, nat_mapping) jsmap \<times> int" where
  "tables m = (processedPackets m, packetCacheTTL m, natMappings m, natMappingTimeout m)"

lemma tables_flush [simp]: "tables (run_flush f m) = tables m"
  by (cases f) (simp_all add: tables_def)

lemma tables_send: "tables (fst (snd (transportSendWithRetry acc p d f m))) = tables m"
proof (cases rule: tm_send_cases [of acc None p d "m_tm m"])
  case (sent t)
  then show ?thesis by (simp add: transportSendWithRetry_def Let_def) (simp add: tables_def)
next
  case refused
  then show ?thesis by (simp add: transportSendWithRetry_def Let_def) (simp add: tables_def)
qed

lemma tables_drain_loop: "tables (fst (snd (drain_loop p orc q m))) = tables m"
proof (induction p orc q m rule: drain_loop.induct)
  case (2 p orc d f q m)
  then show ?case
    by (cases rule: tm_send_cases [of "case orc of [] \<Rightarrow> \<lambda>t. False | acc # _ \<Rightarrow> acc" None p d "m_tm m"])
      (simp_all add: case_prod_beta)
qed simp

lemma tables_upd [simp]:
  "tables (m\<lparr>m_router := a\<rparr>) = tables m" "tables (m\<lparr>m_gen := b\<rparr>) = tables m" "tables (m\<lparr>m_tm := c\<rparr>) = tables m"
  "tables (m\<lparr>m_scheduler := d\<rparr>) = tables m" "tables (m\<lparr>m_reorder := e\<rparr>) = tables m" "tables (m\<lparr>loopStats := f\<rparr>) = tables m"
  "tables (m\<lparr>trafficStats := h\<rparr>) = tables m" "tables (m\<lparr>sendRetryQueues := i\<rparr>) = tables m"
  by (simp_all add: tables_def)

lemma tables_drain: "tables (fst (drainSendRetryQueue p orc m)) = tables m"
  using tables_drain_loop [of p orc] by (simp add: drainSendRetryQueue_def case_prod_beta split: option.split list.split)

lemma tables_count [simp]: "tables (count_processed m) = tables m" "tables (count_drop f m) = tables m"
  by (simp_all add: count_processed_def count_drop_def)

lemma tables_raw: "tables (fst (snd (rawSend acc ws p d m))) = tables m"
  by (simp add: rawSend_def tables_send)

lemma tables_forward: "tables (fst (forwardPacket now acc orig h payload from m)) = tables m"
  by (simp add: forwardPacket_def case_prod_beta tables_send Let_def split: sum.split)

lemma tables_reordered: "tables (fst (process_reordered ps m)) = tables m"
  by (induction ps arbitrary: m) (simp_all add: case_prod_beta processReorderedPacket_def)

lemma tables_reorder: "tables (fst (reorder_add now p m)) = tables m"
  by (simp add: reorder_add_def case_prod_beta tables_reordered)

lemma tables_outbound: "tables (fst (handleOutboundPacket now ip m)) = tables m"
  by (simp add: handleOutboundPacket_def case_prod_beta Let_def split: sum.split ip_parse.split option.split)

lemma tables_ping: "tables (fst (sendPing now acc peer m)) = tables m" "tables (fst (handlePing now acc ws peer p m)) = tables m"
  by (simp_all add: sendPing_def handlePing_def case_prod_beta tables_send tables_raw Let_def split: sum.split)

lemma tables_pong: "tables (handlePong now peer p m) = tables m" "tables (handleAck now peer p m) = tables m"
  by (simp_all add: handlePong_def handleAck_def Let_def)

lemma tables_direct: "p_dstNode p \<noteq> Some (m_nodeId m) \<Longrightarrow> tables (fst (handleDirectDataPacket unseal now acc peer p m)) = tables m"
  by (simp add: handleDirectDataPacket_def case_prod_beta tables_send Let_def split: sum.split option.split)

lemma tables_tx: "tables (fst (on_tx_client acc r m)) = tables m" "tables (fst (on_tx_exit acc ws t u r m)) = tables m"
  by (simp_all add: on_tx_client_def on_tx_exit_def tables_send split: sum.split option.split)

lemma tables_multipath [simp]: "tables (updateMultipathRoutes m) = tables m"
  by (simp add: updateMultipathRoutes_def Let_def)

lemma tables_peers: "tables (node_peer_connected now p t i b m) = tables m" "tables (node_peer_disconnected now p m) = tables m"
    "tables (node_topology now topo m) = tables m" "tables (ws_peer_connected now p i' m) = tables m" "tables (ws_peer_disconnected now p m) = tables m"
    "tables (traffic_tick m) = tables m" "tables (resetLoopStats m) = tables m"
  by (simp_all add: node_peer_connected_def node_peer_disconnected_def node_topology_def ws_peer_connected_def ws_peer_disconnected_def
      traffic_tick_def resetLoopStats_def clearSendRetryQueue_def Let_def split: option.split)

lemma ebind_Inr: "ebind x f = Inr y \<longleftrightarrow> (\<exists>a. x = Inr a \<and> f a = Inr y)"
  by (cases x) simp_all

lemma new_Packet_dst: "new_Packet now g opt = (p, g') \<Longrightarrow> p_dstNode p = or_str (o_dstNode opt)"
  using new_Packet_fields(7) [of now g opt] by simp

lemma deserialize_dst: "deserialize pj now g data = Inr (p, g') \<Longrightarrow> p_dstNode p = or_str (or_null (read_id data 42))"
  unfolding deserialize_def deserializeV2_def deserializeV1_def Let_def
  by (auto simp: ebind_Inr new_Packet_dst dest!: new_Packet_dst split: if_splits)

lemma tables_message: "tables (fst (processIncomingMessage unseal pj now acc ws peer data m)) = tables m"
proof -
  have direct: "tables (fst (handleDirectDataPacket unseal now acc peer p (m\<lparr>m_gen := g\<rparr>))) = tables m"
    if "deserialize pj now (m_gen m) data = Inr (p, g)" "read_id data 42 \<noteq> m_nodeId m" for p g
    using tables_direct [of p "m\<lparr>m_gen := g\<rparr>" unseal now acc peer] deserialize_dst [OF that(1)] that(2)
    by (simp add: or_str_def or_null_def split: if_splits)
  show ?thesis
    by (simp add: processIncomingMessage_def direct tables_ping tables_pong case_prod_beta Let_def split: sum.split option.split prod.split)
qed

section \<open>Answers of the RX worker\<close>

definition rx_key :: "rx_data \<Rightarrow> jsstring" where
  "rx_key rd = (case o_flowId (rd_meta rd) of Some f \<Rightarrow> f | None \<Rightarrow> []) @ 58 # int_str (Packet_Wire.or_num (o_seq (rd_meta rd)) 0)"

definition rx_src :: "rx_data \<Rightarrow> jsstring option" where
  "rx_src rd = or_str (o_srcNode (rd_meta rd))"

lemma new_Packet_key:
  assumes "new_Packet now g (rd_meta rd) = (p, g')" "o_flowId (rd_meta rd) = Some f" "f \<noteq> []"
  shows "packet_key p = rx_key rd"
proof -
  have "p_flowId (fst (new_Packet now g (rd_meta rd))) = f" using assms(2,3) by (simp add: new_Packet_def or_str_def or_null_def)
  then have "p_flowId p = f" using assms(1) by simp
  moreover have "p_seq p = Packet_Wire.or_num (o_seq (rd_meta rd)) 0" using new_Packet_fields(3) [of now g "rd_meta rd"] assms(1) by simp
  ultimately show ?thesis using assms(2) by (simp add: packet_key_def rx_key_def)
qed

lemma loop_checks_tables:
  assumes "loop_checks now p m = (r, m')"
  shows "processedPackets m' = processedPackets m \<or> map_get (processedPackets m) (packet_key p) = None \<and> processedPackets m' = map_put (packet_key p) now (processedPackets m)"
    "packetCacheTTL m' = packetCacheTTL m" "natMappings m' = natMappings m" "natMappingTimeout m' = natMappingTimeout m"
    "r \<noteq> None \<Longrightarrow> processedPackets m' = map_put (packet_key p) now (processedPackets m)"
    "map_get (processedPackets m) (packet_key p) \<noteq> None \<Longrightarrow> r = None"
  using assms
  by (auto simp: loop_checks_def isTTLExpired_def isPacketDuplicate_def hasVisited_def addVisitedNode_def decrementTTL_def mark_seen_def
      count_drop_def Let_def split: if_splits)

lemma loop_checks_src:
  assumes "loop_checks now p m = (Some q, m')" shows "p_srcNode q = p_srcNode p"
  using assms by (auto simp: loop_checks_def addVisitedNode_def decrementTTL_def Let_def split: if_splits prod.splits)

lemma tablesD:
  assumes "tables m' = tables m"
  shows "processedPackets m' = processedPackets m" "packetCacheTTL m' = packetCacheTTL m" "natMappings m' = natMappings m" "natMappingTimeout m' = natMappingTimeout m"
  using assms by (simp_all add: tables_def)

text \<open>What the answer for a data packet does: nothing more after a failed loop check, otherwise the packet is used.\<close>

lemma rx_data_cases:
  assumes "rd_type rd = PT_DATA" and new: "new_Packet now (m_gen m) (rd_meta rd) = (p, g)"
  obtains m1 where "loop_checks now p (count_processed (m\<lparr>m_gen := g\<rparr>)) = (None, m1)" "handleRxWorkerResult now acc rd m = (m1, [], None)"
  | q m1 where "loop_checks now p (count_processed (m\<lparr>m_gen := g\<rparr>)) = (Some q, m1)"
      "tables (fst (handleRxWorkerResult now acc rd m)) = tables m1
       \<or> fst (handleRxWorkerResult now acc rd m) = fst (processExitPacket now (p_srcNode p) (rd_payload rd) m1)"
proof -
  obtain r m1 where lc: "loop_checks now p (count_processed (m\<lparr>m_gen := g\<rparr>)) = (r, m1)" by (cases "loop_checks now p (count_processed (m\<lparr>m_gen := g\<rparr>))")
  show thesis
  proof (cases r)
    case None
    then show thesis using that(1) lc assms by (simp add: handleRxWorkerResult_def)
  next
    case (Some q)
    have "p_srcNode q = p_srcNode p" using loop_checks_src lc Some by simp
    then have "tables (fst (handleRxWorkerResult now acc rd m)) = tables m1
       \<or> fst (handleRxWorkerResult now acc rd m) = fst (processExitPacket now (p_srcNode p) (rd_payload rd) m1)"
      using assms lc Some by (simp add: handleRxWorkerResult_def no_error_def tables_forward tables_reorder split: option.split list.split)
    then show thesis using that(2) lc Some by blast
  qed
qed

lemma exit_packet_tables:
  "processedPackets (fst (processExitPacket now src ip m)) = processedPackets m" "packetCacheTTL (fst (processExitPacket now src ip m)) = packetCacheTTL m"
  "natMappingTimeout (fst (processExitPacket now src ip m)) = natMappingTimeout m"
  "natMappings (fst (processExitPacket now src ip m)) = natMappings m \<or>
    (\<exists>q. parseIPPacket ip = Inr (Valid q) \<and> natMappings (fst (processExitPacket now src ip m)) = map_put (tuple_of q) \<lparr>nm_srcNodeId = src, nm_createdAt = now\<rparr> (natMappings m))"
  by (simp_all add: processExitPacket_def split: sum.split ip_parse.split)

lemma rx_direct_tables:
  assumes "rd_type rd \<noteq> PT_DATA"
  shows "tables (fst (handleRxWorkerResult now acc rd m)) = tables m
    \<or> (\<exists>M. tables M = tables m \<and> fst (handleRxWorkerResult now acc rd m) = fst (processExitPacket now (rx_src rd) (rd_payload rd) M))"
proof -
  obtain p g where new: "new_Packet now (m_gen m) (rd_meta rd) = (p, g)" by (cases "new_Packet now (m_gen m) (rd_meta rd)")
  then have src: "p_srcNode p = rx_src rd" using new_Packet_fields(6) [of now "m_gen m" "rd_meta rd"] by (simp add: rx_src_def)
  show ?thesis
  proof (cases "rd_type rd = PT_DATA_DIRECT \<and> m_isExit m")
    case True
    then show ?thesis
      using assms new src by (intro disjI2 exI [of _ "(count_processed m)\<lparr>m_gen := g\<rparr>"]) (simp add: handleRxWorkerResult_def no_error_def Let_def packet_types)
  next
    case False
    then show ?thesis using assms new by (simp add: handleRxWorkerResult_def no_error_def Let_def tables_reorder)
  qed
qed

lemma rx_tables:
  "\<exists>M. (tables (fst (on_rx now acc r m)) = tables M \<or> (\<exists>rd. r = Inr (Rx_packet rd) \<and> fst (on_rx now acc r m) = fst (processExitPacket now (rx_src rd) (rd_payload rd) M)))
     \<and> packetCacheTTL M = packetCacheTTL m \<and> natMappings M = natMappings m \<and> natMappingTimeout M = natMappingTimeout m
     \<and> (processedPackets M = processedPackets m \<or> (\<exists>k. map_get (processedPackets m) k = None \<and> processedPackets M = map_put k now (processedPackets m)))"
proof (cases "\<exists>rd. r = Inr (Rx_packet rd)")
  case False
  then show ?thesis by (intro exI [of _ m]) (auto simp: on_rx_def split: sum.splits rx_result.splits)
next
  case True
  then obtain rd where r: "r = Inr (Rx_packet rd)" by blast
  show ?thesis
  proof (cases "rd_type rd = PT_DATA")
    case False
    then consider "tables (fst (handleRxWorkerResult now acc rd m)) = tables m"
      | M where "tables M = tables m" "fst (handleRxWorkerResult now acc rd m) = fst (processExitPacket now (rx_src rd) (rd_payload rd) M)"
      using rx_direct_tables by blast
    then show ?thesis
    proof cases
      case 1
      then show ?thesis by (intro exI [of _ m]) (simp add: r on_rx_def)
    next
      case (2 M)
      then show ?thesis using tablesD [OF 2(1)] by (intro exI [of _ M]) (simp add: r on_rx_def)
    qed
  next
    case True
    obtain p g where new: "new_Packet now (m_gen m) (rd_meta rd) = (p, g)" by (cases "new_Packet now (m_gen m) (rd_meta rd)")
    then have src: "p_srcNode p = rx_src rd" using new_Packet_fields(6) [of now "m_gen m" "rd_meta rd"] by (simp add: rx_src_def)
    note start = tablesD [OF trans [OF tables_count(1) tables_upd(2)], of g m]
    from rx_data_cases [OF True new, of acc] show ?thesis
    proof cases
      case (1 m1)
      from loop_checks_tables(1-4) [OF 1(1)] 1(2) show ?thesis
        by (intro exI [of _ m1]) (auto simp: r on_rx_def start)
    next
      case (2 q m1)
      from loop_checks_tables(1-4) [OF 2(1)] 2(2) show ?thesis
        by (intro exI [of _ m1]) (auto simp: r on_rx_def start src)
    qed
  qed
qed

section \<open>Each packet once\<close>

definition remembered :: "jsstring \<Rightarrow> int \<Rightarrow> mnode \<Rightarrow> bool" where
  "remembered k t m \<longleftrightarrow> map_get (processedPackets m) k = Some t"

text \<open>No clean-up of the run is later than \<open>limit\<close>.\<close>

definition cleanups_by :: "int \<Rightarrow> node_event list \<Rightarrow> bool" where
  "cleanups_by limit evs \<longleftrightarrow> list_all (\<lambda>ev. case ev of Ev_cleanup now \<Rightarrow> now \<le> limit | _ \<Rightarrow> True) evs"

lemma filter_get: "map_get m k = Some v \<Longrightarrow> P (k, v) \<Longrightarrow> map_get (filter P m) k = Some v"
  by (induction m) (auto split: if_splits)

lemma cleanup_tables:
  "packetCacheTTL (cacheCleanup now m) = packetCacheTTL m" "natMappingTimeout (cacheCleanup now m) = natMappingTimeout m"
  "processedPackets (cacheCleanup now m) = filter (\<lambda>(_, ts). \<not> now - ts > packetCacheTTL m) (processedPackets m)"
  "natMappings (cacheCleanup now m) = filter (\<lambda>(_, x). \<not> now - nm_createdAt x > natMappingTimeout m) (natMappings m)"
  by (simp_all add: cacheCleanup_def cleanupTcpConnections_def)

lemma step_tables:
  assumes "\<forall>now. ev \<noteq> Ev_cleanup now" "\<forall>now acc r. ev \<noteq> Ev_rx now acc r"
  shows "tables (fst (node_step unseal pj ev m)) = tables m"
  using assms by (cases ev) (simp_all add: no_error_def tables_outbound tables_message tables_tx tables_drain tables_ping tables_peers)

lemma remembered_step:
  assumes rem: "remembered k t m" and cl: "cleanups_by (t + packetCacheTTL m) [ev]"
  shows "remembered k t (fst (node_step unseal pj ev m)) \<and> packetCacheTTL (fst (node_step unseal pj ev m)) = packetCacheTTL m"
proof -
  consider now where "ev = Ev_cleanup now" | now acc r where "ev = Ev_rx now acc r" | "\<forall>now. ev \<noteq> Ev_cleanup now" "\<forall>now acc r. ev \<noteq> Ev_rx now acc r" by blast
  then show ?thesis
  proof cases
    case (1 now)
    then show ?thesis using rem cl by (auto simp: remembered_def cleanup_tables cleanups_by_def intro!: filter_get)
  next
    case (2 now acc r)
    obtain M where M: "tables (fst (on_rx now acc r m)) = tables M \<or> (\<exists>rd. r = Inr (Rx_packet rd) \<and> fst (on_rx now acc r m) = fst (processExitPacket now (rx_src rd) (rd_payload rd) M))"
      "packetCacheTTL M = packetCacheTTL m"
      "processedPackets M = processedPackets m \<or> (\<exists>k. map_get (processedPackets m) k = None \<and> processedPackets M = map_put k now (processedPackets m))"
      using rx_tables [of now acc r m] by (elim exE conjE) (rule that)
    have "remembered k t M" using M(3) rem by (auto simp: remembered_def)
    moreover have "processedPackets (fst (on_rx now acc r m)) = processedPackets M" "packetCacheTTL (fst (on_rx now acc r m)) = packetCacheTTL M"
      using M(1) tablesD [of "fst (on_rx now acc r m)" M] exit_packet_tables(1,2) by auto
    ultimately show ?thesis using 2 M(2) by (simp add: remembered_def)
  next
    case 3
    then show ?thesis using tablesD [OF step_tables [OF 3]] rem by (simp add: remembered_def)
  qed
qed

lemma remembered_run:
  "remembered k t m \<Longrightarrow> cleanups_by (t + packetCacheTTL m) evs \<Longrightarrow> remembered k t (node_run unseal pj evs m)"
proof (induction evs arbitrary: m)
  case (Cons ev evs)
  have "cleanups_by (t + packetCacheTTL m) [ev]" "cleanups_by (t + packetCacheTTL m) evs" using Cons.prems(2) by (simp_all add: cleanups_by_def)
  then show ?case using Cons.IH [of "fst (node_step unseal pj ev m)"] remembered_step [OF Cons.prems(1), of ev unseal pj] by (simp add: node_run_def)
qed (simp add: node_run_def)

text \<open>
  (C6) A data packet is used once: when the answer for it led to any action (it was forwarded, handed to the exit's NAT or to the TUN device),
  then after any sequence of events of the node a further packet with the same flow id and sequence number leads to none, as long as
  the clean-ups in between are within the lifetime of the cache.
\<close>

theorem each_packet_once:
  assumes "rd_type rd1 = PT_DATA" "rd_type rd2 = PT_DATA" "rx_key rd1 = rx_key rd2"
    and "o_flowId (rd_meta rd1) = Some f1" "f1 \<noteq> []" "o_flowId (rd_meta rd2) = Some f2" "f2 \<noteq> []"
    and first: "on_rx now1 acc1 (Inr (Rx_packet rd1)) m = (m1, acts1, e1)" "acts1 \<noteq> []"
    and "cleanups_by (now1 + packetCacheTTL m) evs"
  shows "\<exists>m'. on_rx now2 acc2 (Inr (Rx_packet rd2)) (node_run unseal pj evs m1) = (m', [], None)"
proof -
  obtain p g where new: "new_Packet now1 (m_gen m) (rd_meta rd1) = (p, g)" by (cases "new_Packet now1 (m_gen m) (rd_meta rd1)")
  have run: "handleRxWorkerResult now1 acc1 rd1 m = (m1, acts1, e1)" using first(1) by (simp add: on_rx_def)
  have "remembered (rx_key rd1) now1 m1 \<and> packetCacheTTL m1 = packetCacheTTL m"
    using rx_data_cases [OF assms(1) new, of acc1]
  proof cases
    case (1 m2)
    then show ?thesis using run first(2) by simp
  next
    case (2 q m2)
    have "processedPackets m1 = processedPackets m2 \<and> packetCacheTTL m1 = packetCacheTTL m2"
      using 2(2) run tablesD [of m1 m2] exit_packet_tables(1,2) by auto
    then show ?thesis
      using loop_checks_tables(2,5) [OF 2(1)] new_Packet_key [OF new assms(4,5)] tablesD(2) [OF trans [OF tables_count(1) tables_upd(2)], of g m]
      by (simp add: remembered_def)
  qed
  then have rem: "remembered (rx_key rd2) now1 (node_run unseal pj evs m1)" using remembered_run assms(3,10) by metis
  let ?m = "node_run unseal pj evs m1"
  obtain p2 g2 where new2: "new_Packet now2 (m_gen ?m) (rd_meta rd2) = (p2, g2)" by (cases "new_Packet now2 (m_gen ?m) (rd_meta rd2)")
  have known: "map_get (processedPackets (count_processed (?m\<lparr>m_gen := g2\<rparr>))) (packet_key p2) \<noteq> None"
    using rem new_Packet_key [OF new2 assms(6,7)] by (simp add: remembered_def)
  from rx_data_cases [OF assms(2) new2, of acc2] show ?thesis
  proof cases
    case (2 q m2)
    then show ?thesis using loop_checks_tables(6) [OF 2(1) known] by simp
  qed (auto simp: on_rx_def)
qed

text \<open>A relay that gets the same packet a second time, one minute and a clean-up later.\<close>

theorem each_packet_once_witness:
  "\<exists>m1 acts m'. on_rx 0 (\<lambda>t. True) (Inr (Rx_packet relay_rd)) demo_relay = (m1, acts, None) \<and> acts \<noteq> []
    \<and> on_rx 60000 (\<lambda>t. True) (Inr (Rx_packet relay_rd)) (node_run demo_unseal (\<lambda>_. None) [Ev_cleanup 60000, Ev_disconnected 60000 (js ''c'')] m1) = (m', [], None)"
proof -
  obtain m1 t where first: "on_rx 0 (\<lambda>t. True) (Inr (Rx_packet relay_rd)) demo_relay = (m1, [Tm (Deliver t (js ''x'') (wire (forwarded relay_packet [9])))], None)"
    using relay_demo_rx by (auto simp: on_rx_def)
  have ttl: "packetCacheTTL demo_relay = 60000" by (simp add: demo_relay_def node_eval or_default_def)
  have rd: "rd_type relay_rd = PT_DATA" "o_flowId (rd_meta relay_rd) = Some (js ''f1'')" "js ''f1'' \<noteq> []"
    by (simp_all add: relay_rd_def rx_meta_def no_options_def received_def relay_packet_def mesh_packet_def js_def)
  have "cleanups_by (0 + packetCacheTTL demo_relay) [Ev_cleanup 60000, Ev_disconnected 60000 (js ''c'')]" by (simp add: ttl cleanups_by_def)
  from each_packet_once [OF rd(1) rd(1) refl rd(2,3) rd(2,3) first _ this, where ?now2.0=60000 and ?acc2.0="\<lambda>t. True" and unseal=demo_unseal and pj="\<lambda>_. None"]
  show ?thesis using first by auto
qed

section \<open>Replies of the exit\<close>

text \<open>The requests of the run with the five-tuple \<open>tup\<close> are not older than \<open>t\<close> and come from node \<open>c\<close>.\<close>

definition requests_from :: "jsstring \<Rightarrow> five_tuple \<Rightarrow> int \<Rightarrow> node_event list \<Rightarrow> bool" where
  "requests_from c tup t evs \<longleftrightarrow>
     list_all (\<lambda>ev. case ev of
         Ev_rx now acc (Inr (Rx_packet rd)) \<Rightarrow>
           (case parseIPPacket (rd_payload rd) of Inr (Valid q) \<Rightarrow> tuple_of q = tup \<longrightarrow> rx_src rd = Some c \<and> t \<le> now | _ \<Rightarrow> True)
       | _ \<Rightarrow> True) evs"

definition mapped :: "jsstring \<Rightarrow> five_tuple \<Rightarrow> int \<Rightarrow> mnode \<Rightarrow> bool" where
  "mapped c tup t m \<longleftrightarrow> (\<exists>x. map_get (natMappings m) tup = Some x \<and> nm_srcNodeId x = Some c \<and> t \<le> nm_createdAt x)"

lemma mapped_put: "mapped c tup t m \<Longrightarrow> natMappings m' = map_put tup' \<lparr>nm_srcNodeId = src, nm_createdAt = now\<rparr> (natMappings m) \<Longrightarrow>
    tup' = tup \<longrightarrow> src = Some c \<and> t \<le> now \<Longrightarrow> mapped c tup t m'"
  by (auto simp: mapped_def)

lemma mapped_step:
  assumes map: "mapped c tup t m" and cl: "cleanups_by (t + natMappingTimeout m) [ev]" and req: "requests_from c tup t [ev]"
  shows "mapped c tup t (fst (node_step unseal pj ev m)) \<and> natMappingTimeout (fst (node_step unseal pj ev m)) = natMappingTimeout m"
proof -
  consider now where "ev = Ev_cleanup now" | now acc r where "ev = Ev_rx now acc r" | "\<forall>now. ev \<noteq> Ev_cleanup now" "\<forall>now acc r. ev \<noteq> Ev_rx now acc r" by blast
  then show ?thesis
  proof cases
    case (1 now)
    obtain x where x: "map_get (natMappings m) tup = Some x" "nm_srcNodeId x = Some c" "t \<le> nm_createdAt x" using map unfolding mapped_def by blast
    have "now \<le> t + natMappingTimeout m" using cl 1 by (simp add: cleanups_by_def)
    then have "map_get (natMappings (cacheCleanup now m)) tup = Some x" unfolding cleanup_tables using x by (intro filter_get) simp_all
    then show ?thesis using x 1 by (simp add: mapped_def cleanup_tables)
  next
    case (2 now acc r)
    obtain M where M: "tables (fst (on_rx now acc r m)) = tables M \<or> (\<exists>rd. r = Inr (Rx_packet rd) \<and> fst (on_rx now acc r m) = fst (processExitPacket now (rx_src rd) (rd_payload rd) M))"
      "natMappings M = natMappings m" "natMappingTimeout M = natMappingTimeout m"
      using rx_tables [of now acc r m] by (elim exE conjE) (rule that)
    have mM: "mapped c tup t M" using M(2) map by (simp add: mapped_def)
    from M(1) have "mapped c tup t (fst (on_rx now acc r m)) \<and> natMappingTimeout (fst (on_rx now acc r m)) = natMappingTimeout M"
    proof (elim disjE exE conjE)
      assume same: "tables (fst (on_rx now acc r m)) = tables M"
      then show ?thesis using mM by (simp add: mapped_def tablesD(3,4) [OF same])
    next
      fix rd assume rd: "r = Inr (Rx_packet rd)" and m': "fst (on_rx now acc r m) = fst (processExitPacket now (rx_src rd) (rd_payload rd) M)"
      have "mapped c tup t (fst (processExitPacket now (rx_src rd) (rd_payload rd) M))"
        using exit_packet_tables(4) [of now "rx_src rd" "rd_payload rd" M]
      proof (elim disjE exE conjE)
        fix q assume q: "parseIPPacket (rd_payload rd) = Inr (Valid q)"
          and put: "natMappings (fst (processExitPacket now (rx_src rd) (rd_payload rd) M)) = map_put (tuple_of q) \<lparr>nm_srcNodeId = rx_src rd, nm_createdAt = now\<rparr> (natMappings M)"
        have "tuple_of q = tup \<longrightarrow> rx_src rd = Some c \<and> t \<le> now" using req by (simp add: requests_from_def 2 rd q)
        then show ?thesis by (rule mapped_put [OF mM put])
      qed (use mM in \<open>simp add: mapped_def\<close>)
      then show ?thesis using m' exit_packet_tables(3) by simp
    qed
    then show ?thesis using 2 M(3) by simp
  next
    case 3
    then show ?thesis using tablesD(3,4) [OF step_tables [OF 3]] map by (simp add: mapped_def)
  qed
qed

lemma mapped_run:
  "mapped c tup t m \<Longrightarrow> cleanups_by (t + natMappingTimeout m) evs \<Longrightarrow> requests_from c tup t evs \<Longrightarrow> mapped c tup t (node_run unseal pj evs m)"
proof (induction evs arbitrary: m)
  case (Cons ev evs)
  have "cleanups_by (t + natMappingTimeout m) [ev]" "cleanups_by (t + natMappingTimeout m) evs"
      "requests_from c tup t [ev]" "requests_from c tup t evs" using Cons.prems(2,3) by (simp_all add: cleanups_by_def requests_from_def)
  then show ?case using Cons.IH [of "fst (node_step unseal pj ev m)"] mapped_step [OF Cons.prems(1), of ev unseal pj] by (simp add: node_run_def)
qed (simp add: node_run_def)


definition nat_exit :: mnode where
  "nat_exit = pair_node (demo_config\<lparr>nc_role := Some (js ''exit'')\<rparr>) (js ''x'') (js ''c'')"

definition pair_reply :: buffer where
  "pair_reply = [69, 0, 0, 20, 0, 0, 0, 0, 64, 0, 0, 0, 1, 1, 1, 1, 10, 200, 0, 2]"


end
