(* ===== verification/Discovery.thy ===== *)
theory Discovery
  imports Crypto_Onion Transport_Manager
begin

text \<open>
  \<open>src/control/discovery.js\<close>: connections to the peers that the signalling server lists, the exchange of session keys that goes with
  them, and the delayed handling of peers that leave. An asynchronous handler is split at its \<open>await\<close>s: each part is an operation
  that returns what it waits for, and the answer (did the WebSocket connect, the offer of the WebRTC transport) is an argument of the next.
  The peers known to the signalling client and the state of the transport manager are arguments; messages are
  actions. Logging is left out.
\<close>

section \<open>State\<close>

record pending_conn =
  pe_initiator :: bool
  pe_timestamp :: int

record disc =
  d_nodeId :: jsstring
  d_sessions :: sessions
  pendingConnections :: "(jsstring, pending_conn) jsmap"
  establishedPeers :: "jsstring list"
  d_transportMode :: jsstring
  d_dataServer :: "jsstring option"
  peerLeaveTimers :: "(jsstring, nat) jsmap"
  leaveIntentGen :: "(jsstring, nat) jsmap"
  meshReconnectTimers :: "jsstring list"
  expectedRemoteIceHsGen :: "(jsstring, int) jsmap"

datatype signal =
    Offer jsstring "jsstring option" "int option"
  | Answer jsstring "jsstring option" "int option"
  | Ice_candidate jsstring "int option"
  | Session_key "jsstring option"
  | Session_key_ack "jsstring option"
  | Other_signal

datatype disc_action =
    Send_signal jsstring signal
  | Update_topology "jsstring list"
  | Close_transport jsstring
  | Add_ice jsstring jsstring
  | Set_quic_key jsstring buffer
  | Emit_peer_connected jsstring ttype
  | Emit_peer_disconnected jsstring
  | Emit_peer_leave jsstring

text \<open>What a handler waits for.\<close>

datatype waiting =
    Done
  | Wait_websocket jsstring jsstring jsstring
  | Wait_offer jsstring jsstring
  | Wait_answer_for jsstring jsstring jsstring
  | Wait_set_answer jsstring "jsstring option" jsstring

definition new_PeerDiscovery :: "jsstring \<Rightarrow> jsstring option \<Rightarrow> jsstring option \<Rightarrow> disc" where
  "new_PeerDiscovery nodeId mode dataServer =
     \<lparr>d_nodeId = nodeId, d_sessions = [], pendingConnections = [], establishedPeers = [],
      d_transportMode = (case mode of Some (c # cs) \<Rightarrow> c # cs | _ \<Rightarrow> js ''webrtc''),
      d_dataServer = (case dataServer of Some (c # cs) \<Rightarrow> Some (c # cs) | _ \<Rightarrow> None),
      peerLeaveTimers = [], leaveIntentGen = [], meshReconnectTimers = [], expectedRemoteIceHsGen = []\<rparr>"

definition stalePendingMeshMs :: int where "stalePendingMeshMs = 20000"

section \<open>Timers\<close>

definition clearMeshReconnectTimer :: "jsstring \<Rightarrow> disc \<Rightarrow> disc" where
  "clearMeshReconnectTimer peerId d = d\<lparr>meshReconnectTimers := set_del peerId (meshReconnectTimers d)\<rparr>"

definition gen_of :: "jsstring \<Rightarrow> disc \<Rightarrow> nat" where
  "gen_of n d = (case map_get (leaveIntentGen d) n of Some g \<Rightarrow> g | None \<Rightarrow> 0)"

definition clearPendingPeerLeave :: "jsstring \<Rightarrow> disc \<Rightarrow> disc" where
  "clearPendingPeerLeave nodeId d =
     d\<lparr>peerLeaveTimers := map_del nodeId (peerLeaveTimers d), leaveIntentGen := map_put nodeId (gen_of nodeId d + 1) (leaveIntentGen d)\<rparr>"

definition disc_handlePeerLeave :: "jsstring \<Rightarrow> disc \<Rightarrow> disc" where
  "disc_handlePeerLeave nodeId d =
     (let d = clearPendingPeerLeave nodeId (clearMeshReconnectTimer nodeId d); gen = gen_of nodeId d + 1 in
      d\<lparr>leaveIntentGen := map_put nodeId gen (leaveIntentGen d), peerLeaveTimers := map_put nodeId gen (peerLeaveTimers d)\<rparr>)"

definition applyPeerLeave :: "(jsstring \<Rightarrow> bool) \<Rightarrow> tmgr \<Rightarrow> jsstring \<Rightarrow> disc \<Rightarrow> disc \<times> disc_action list" where
  "applyPeerLeave known tm nodeId d =
     (if known nodeId then (d, [])
      else if tm_isConnected tm nodeId then (d, [])
      else (d\<lparr>pendingConnections := map_del nodeId (pendingConnections d), establishedPeers := set_del nodeId (establishedPeers d),
              d_sessions := removeSession nodeId (d_sessions d), leaveIntentGen := map_del nodeId (leaveIntentGen d)\<rparr>,
            [Close_transport nodeId, Emit_peer_leave nodeId]))"

text \<open>The leave timer of a node fires; \<open>gen\<close> is the generation its callback remembers.\<close>

definition leave_timer :: "(jsstring \<Rightarrow> bool) \<Rightarrow> tmgr \<Rightarrow> jsstring \<Rightarrow> disc \<Rightarrow> disc \<times> disc_action list" where
  "leave_timer known tm nodeId d =
     (case map_get (peerLeaveTimers d) nodeId of
        None \<Rightarrow> (d, [])
      | Some gen \<Rightarrow>
          let d = d\<lparr>peerLeaveTimers := map_del nodeId (peerLeaveTimers d)\<rparr> in
          if map_get (leaveIntentGen d) nodeId \<noteq> Some gen then (d, []) else applyPeerLeave known tm nodeId d)"

section \<open>Connecting\<close>

definition or_string :: "jsstring option \<Rightarrow> jsstring option \<Rightarrow> jsstring option" where
  "or_string a b = (case a of Some (c # cs) \<Rightarrow> Some (c # cs) | _ \<Rightarrow> b)"

definition ws_url :: "jsstring option \<Rightarrow> disc \<Rightarrow> jsstring option" where
  "ws_url peerServer d =
     (if d_transportMode d = js ''websocket'' \<or> d_transportMode d = js ''auto'' then
        (case or_string peerServer (d_dataServer d) of Some (c # cs) \<Rightarrow> Some (c # cs) | _ \<Rightarrow> None)
      else None)"

definition initiateConnection :: "key_exchange \<Rightarrow> buffer \<Rightarrow> int \<Rightarrow> jsstring \<Rightarrow> jsstring option \<Rightarrow> disc \<Rightarrow> disc \<times> waiting" where
  "initiateConnection kx random now peerId peerServer d =
     (if map_get (pendingConnections d) peerId \<noteq> None \<or> peerId \<in> set (establishedPeers d) then (d, Done)
      else if ws_url peerServer d = None \<and> d_nodeId d > peerId then (d, Done)
      else
        case createSession kx random peerId (d_sessions d) of (pub, ss) \<Rightarrow>
        (d\<lparr>pendingConnections := map_put peerId \<lparr>pe_initiator = True, pe_timestamp = now\<rparr> (pendingConnections d), d_sessions := ss\<rparr>,
         case ws_url peerServer d of Some url \<Rightarrow> Wait_websocket peerId url pub | None \<Rightarrow> Wait_offer peerId pub))"

definition websocket_result :: "bool \<Rightarrow> jsstring \<Rightarrow> jsstring \<Rightarrow> disc \<Rightarrow> disc \<times> disc_action list \<times> waiting" where
  "websocket_result ok peerId pub d =
     (if ok then (d, [Send_signal peerId (Session_key (Some pub))], Done)
      else if d_transportMode d = js ''websocket'' then (d\<lparr>pendingConnections := map_del peerId (pendingConnections d)\<rparr>, [], Done)
      else (d, [], Wait_offer peerId pub))"

definition hs_field :: "int \<Rightarrow> int option" where
  "hs_field gen = (if gen > 0 then Some gen else None)"

definition offer_result :: "(jsstring \<times> int) option \<Rightarrow> jsstring \<Rightarrow> jsstring \<Rightarrow> disc \<Rightarrow> disc \<times> disc_action list" where
  "offer_result r peerId pub d =
     (case r of
        Some (offer, hs) \<Rightarrow> (d, [Send_signal peerId (Offer offer (Some pub) (hs_field hs))])
      | None \<Rightarrow> (d\<lparr>pendingConnections := map_del peerId (pendingConnections d)\<rparr>, []))"

definition supersedePending :: "int \<Rightarrow> jsstring \<Rightarrow> disc \<Rightarrow> disc \<times> disc_action list" where
  "supersedePending now nodeId d =
     (if nodeId \<in> set (establishedPeers d) then (d, [])
      else case map_get (pendingConnections d) nodeId of
        None \<Rightarrow> (d, [])
      | Some p \<Rightarrow>
          if now - pe_timestamp p < stalePendingMeshMs then (d, [])
          else (d\<lparr>pendingConnections := map_del nodeId (pendingConnections d), establishedPeers := set_del nodeId (establishedPeers d),
                  d_sessions := removeSession nodeId (d_sessions d)\<rparr>, [Close_transport nodeId]))"

definition maybeReconnectMeshPeer :: "key_exchange \<Rightarrow> buffer \<Rightarrow> int \<Rightarrow> (jsstring \<Rightarrow> bool) \<Rightarrow> jsstring \<Rightarrow> jsstring option \<Rightarrow> disc \<Rightarrow> disc \<times> waiting" where
  "maybeReconnectMeshPeer kx random now known peerId peerServer d =
     (if \<not> known peerId then (d, Done)
      else if peerId \<in> set (establishedPeers d) \<or> map_get (pendingConnections d) peerId \<noteq> None then (d, Done)
      else initiateConnection kx random now peerId peerServer d)"

text \<open>One round of the loop of \<open>_handlePeersUpdate\<close>.\<close>

definition peers_update_one :: "key_exchange \<Rightarrow> buffer \<Rightarrow> int \<Rightarrow> jsstring \<Rightarrow> jsstring option \<Rightarrow> disc \<Rightarrow> disc \<times> waiting" where
  "peers_update_one kx random now peerId peerServer d =
     (let d = clearPendingPeerLeave peerId d in
      if peerId \<notin> set (establishedPeers d) \<and> map_get (pendingConnections d) peerId = None
      then initiateConnection kx random now peerId peerServer d else (d, Done))"

section \<open>Signals\<close>

definition note_hs_gen :: "jsstring \<Rightarrow> int option \<Rightarrow> disc \<Rightarrow> disc" where
  "note_hs_gen from hs d = d\<lparr>expectedRemoteIceHsGen :=
     (case hs of Some g \<Rightarrow> map_put from g (expectedRemoteIceHsGen d) | None \<Rightarrow> map_del from (expectedRemoteIceHsGen d))\<rparr>"

text \<open>An empty key counts as absent, as in the code.\<close>

definition given :: "jsstring option \<Rightarrow> jsstring option" where
  "given k = (case k of Some (c # cs) \<Rightarrow> Some (c # cs) | _ \<Rightarrow> None)"

definition handleOffer :: "key_exchange \<Rightarrow> buffer \<Rightarrow> int \<Rightarrow> tmgr \<Rightarrow> jsstring \<Rightarrow> jsstring \<Rightarrow> jsstring option \<Rightarrow> int option \<Rightarrow> disc \<Rightarrow> disc \<times> waiting" where
  "handleOffer kx random now tm from offer key hs d =
     (let d = note_hs_gen from hs d in
      if tm_isConnected tm from \<and> Websocket \<in> set (getAvailableTransports from tm) then (d, Done)
      else
        let d = d\<lparr>pendingConnections := map_put from \<lparr>pe_initiator = False, pe_timestamp = now\<rparr> (pendingConnections d)\<rparr> in
        case createSession kx random from (d_sessions d) of (pub, ss) \<Rightarrow>
        let d = d\<lparr>d_sessions := ss\<rparr> in
        case given key of
          None \<Rightarrow> (d, Wait_answer_for from offer pub)
        | Some k \<Rightarrow>
            (case completeSession kx from k ss of
               Inl e \<Rightarrow> (d\<lparr>pendingConnections := map_del from (pendingConnections d)\<rparr>, Done)
             | Inr (_, ss) \<Rightarrow> (d\<lparr>d_sessions := ss\<rparr>, Wait_answer_for from offer pub)))"

definition quic_key :: "jsstring \<Rightarrow> disc \<Rightarrow> disc_action list" where
  "quic_key from d = (case getSessionKey (d_sessions d) from of Some k \<Rightarrow> [Set_quic_key from k] | None \<Rightarrow> [])"

text \<open>\<open>handleWebRTCOffer\<close> answers with a description and the handshake generation, or it throws.\<close>

definition answer_result :: "(jsstring \<times> int) option \<Rightarrow> jsstring \<Rightarrow> jsstring \<Rightarrow> disc \<Rightarrow> disc \<times> disc_action list" where
  "answer_result r from pub d =
     (case r of
        Some (answer, hs) \<Rightarrow> (d, Send_signal from (Answer answer (Some pub) (hs_field hs)) # quic_key from d)
      | None \<Rightarrow> (d\<lparr>pendingConnections := map_del from (pendingConnections d)\<rparr>, []))"

definition handleAnswer :: "jsstring \<Rightarrow> jsstring \<Rightarrow> jsstring option \<Rightarrow> int option \<Rightarrow> disc \<Rightarrow> disc \<times> waiting" where
  "handleAnswer from answer key hs d = (note_hs_gen from hs d, Wait_set_answer from key answer)"

definition set_answer_result :: "key_exchange \<Rightarrow> bool \<Rightarrow> jsstring \<Rightarrow> jsstring option \<Rightarrow> disc \<Rightarrow> disc \<times> disc_action list" where
  "set_answer_result kx ok from key d =
     (let failed = (d\<lparr>pendingConnections := map_del from (pendingConnections d)\<rparr>, []) in
      if \<not> ok then failed
      else case given key of
        None \<Rightarrow> (d, [])
      | Some k \<Rightarrow>
          (case completeSession kx from k (d_sessions d) of
             Inl e \<Rightarrow> failed
           | Inr (_, ss) \<Rightarrow> let d = d\<lparr>d_sessions := ss\<rparr> in (d, quic_key from d)))"

text \<open>An error in these two is only logged by the work queue.\<close>

definition handleSessionKey :: "key_exchange \<Rightarrow> buffer \<Rightarrow> jsstring \<Rightarrow> jsstring option \<Rightarrow> disc \<Rightarrow> disc \<times> disc_action list" where
  "handleSessionKey kx random from key d =
     (case given key of
        None \<Rightarrow> (d, [])
      | Some k \<Rightarrow>
          (case createSession kx random from (d_sessions d) of (pub, ss) \<Rightarrow>
           case completeSession kx from k ss of
             Inl e \<Rightarrow> (d\<lparr>d_sessions := ss\<rparr>, [])
           | Inr (_, ss) \<Rightarrow> (d\<lparr>d_sessions := ss\<rparr>, [Send_signal from (Session_key_ack (Some pub))])))"

definition handleSessionKeyAck :: "key_exchange \<Rightarrow> jsstring \<Rightarrow> jsstring option \<Rightarrow> disc \<Rightarrow> disc" where
  "handleSessionKeyAck kx from key d =
     (case given key of
        None \<Rightarrow> d
      | Some k \<Rightarrow> (case completeSession kx from k (d_sessions d) of Inl e \<Rightarrow> d | Inr (_, ss) \<Rightarrow> d\<lparr>d_sessions := ss\<rparr>))"

definition handleIce :: "jsstring \<Rightarrow> jsstring \<Rightarrow> int option \<Rightarrow> disc \<Rightarrow> disc \<times> disc_action list" where
  "handleIce from candidate hs d =
     (case (hs, map_get (expectedRemoteIceHsGen d) from) of
        (Some g, Some e) \<Rightarrow>
          if g < e then (d, [])
          else (d\<lparr>expectedRemoteIceHsGen := (if g > e then map_put from g (expectedRemoteIceHsGen d) else expectedRemoteIceHsGen d)\<rparr>, [Add_ice from candidate])
      | _ \<Rightarrow> (d, [Add_ice from candidate]))"

definition disc_handleSignal :: "key_exchange \<Rightarrow> buffer \<Rightarrow> int \<Rightarrow> tmgr \<Rightarrow> jsstring \<Rightarrow> signal \<Rightarrow> disc \<Rightarrow> disc \<times> disc_action list \<times> waiting" where
  "disc_handleSignal kx random now tm from sig d =
     (case sig of
        Offer offer key hs \<Rightarrow> (case handleOffer kx random now tm from offer key hs d of (d, w) \<Rightarrow> (d, [], w))
      | Answer answer key hs \<Rightarrow> (case handleAnswer from answer key hs d of (d, w) \<Rightarrow> (d, [], w))
      | Ice_candidate c hs \<Rightarrow> (case handleIce from c hs d of (d, acts) \<Rightarrow> (d, acts, Done))
      | Session_key key \<Rightarrow> (case handleSessionKey kx random from key d of (d, acts) \<Rightarrow> (d, acts, Done))
      | Session_key_ack key \<Rightarrow> (handleSessionKeyAck kx from key d, [], Done)
      | Other_signal \<Rightarrow> (d, [], Done))"

section \<open>Events of the transports and of signalling\<close>

definition on_ice_candidate :: "int \<Rightarrow> jsstring \<Rightarrow> jsstring \<Rightarrow> disc_action list" where
  "on_ice_candidate hsGen peerId candidate = [Send_signal peerId (Ice_candidate candidate (hs_field hsGen))]"

definition disc_peer_connected :: "jsstring \<Rightarrow> ttype \<Rightarrow> disc \<Rightarrow> disc \<times> disc_action list" where
  "disc_peer_connected peerId t d =
     (let d = clearPendingPeerLeave peerId (clearMeshReconnectTimer peerId d);
          d = d\<lparr>establishedPeers := set_add peerId (establishedPeers d), pendingConnections := map_del peerId (pendingConnections d)\<rparr> in
      (d, [Update_topology (establishedPeers d), Emit_peer_connected peerId t]))"

definition disc_peer_disconnected :: "(jsstring \<Rightarrow> bool) \<Rightarrow> jsstring \<Rightarrow> disc \<Rightarrow> disc \<times> disc_action list" where
  "disc_peer_disconnected known peerId d =
     (let d = d\<lparr>expectedRemoteIceHsGen := map_del peerId (expectedRemoteIceHsGen d), establishedPeers := set_del peerId (establishedPeers d),
                d_sessions := removeSession peerId (d_sessions d), pendingConnections := map_del peerId (pendingConnections d)\<rparr>;
          d = (if known peerId then d\<lparr>meshReconnectTimers := set_add peerId (set_del peerId (meshReconnectTimers d))\<rparr> else d) in
      (d, [Update_topology (establishedPeers d), Emit_peer_disconnected peerId]))"

text \<open>\<open>peer-join\<close>: the part that runs at once; superseding and connecting are queued.\<close>

definition on_peer_join :: "jsstring \<Rightarrow> disc \<Rightarrow> disc" where
  "on_peer_join nodeId d =
     (let d = clearPendingPeerLeave nodeId (clearMeshReconnectTimer nodeId d) in
      d\<lparr>expectedRemoteIceHsGen := map_del nodeId (expectedRemoteIceHsGen d)\<rparr>)"

definition reconnect_timer :: "jsstring \<Rightarrow> disc \<Rightarrow> disc" where
  "reconnect_timer peerId d = d\<lparr>meshReconnectTimers := set_del peerId (meshReconnectTimers d)\<rparr>"

definition stop_discovery :: "disc \<Rightarrow> disc" where
  "stop_discovery d = d\<lparr>peerLeaveTimers := [], meshReconnectTimers := [], d_sessions := clear_sessions (d_sessions d), pendingConnections := [],
     establishedPeers := [], leaveIntentGen := [], expectedRemoteIceHsGen := []\<rparr>"

section \<open>All events\<close>

datatype disc_event =
    D_join jsstring
  | D_supersede int jsstring
  | D_connect buffer int jsstring "jsstring option"
  | D_websocket bool jsstring jsstring
  | D_offer "(jsstring \<times> int) option" jsstring jsstring
  | D_signal buffer int tmgr jsstring signal
  | D_answer_made "(jsstring \<times> int) option" jsstring jsstring
  | D_answer_set bool jsstring "jsstring option"
  | D_peers_entry buffer int jsstring "jsstring option"
  | D_leave jsstring
  | D_leave_timer "jsstring \<Rightarrow> bool" tmgr jsstring
  | D_up jsstring ttype
  | D_down "jsstring \<Rightarrow> bool" jsstring
  | D_reconnect_timer jsstring
  | D_reconnect buffer int "jsstring \<Rightarrow> bool" jsstring "jsstring option"

fun disc_step :: "key_exchange \<Rightarrow> disc_event \<Rightarrow> disc \<Rightarrow> disc" where
  "disc_step kx (D_join n) d = on_peer_join n d"
| "disc_step kx (D_supersede now n) d = fst (supersedePending now n d)"
| "disc_step kx (D_connect r now n server) d = fst (initiateConnection kx r now n server d)"
| "disc_step kx (D_websocket ok n pub) d = fst (websocket_result ok n pub d)"
| "disc_step kx (D_offer res n pub) d = fst (offer_result res n pub d)"
| "disc_step kx (D_signal r now tm n sig) d = fst (disc_handleSignal kx r now tm n sig d)"
| "disc_step kx (D_answer_made res n pub) d = fst (answer_result res n pub d)"
| "disc_step kx (D_answer_set ok n key) d = fst (set_answer_result kx ok n key d)"
| "disc_step kx (D_peers_entry r now n server) d = fst (peers_update_one kx r now n server d)"
| "disc_step kx (D_leave n) d = disc_handlePeerLeave n d"
| "disc_step kx (D_leave_timer known tm n) d = fst (leave_timer known tm n d)"
| "disc_step kx (D_up n t) d = fst (disc_peer_connected n t d)"
| "disc_step kx (D_down known n) d = fst (disc_peer_disconnected known n d)"
| "disc_step kx (D_reconnect_timer n) d = reconnect_timer n d"
| "disc_step kx (D_reconnect r now known n server) d = fst (maybeReconnectMeshPeer kx r now known n server d)"

definition disc_run :: "key_exchange \<Rightarrow> disc_event list \<Rightarrow> disc \<Rightarrow> disc" where
  "disc_run kx evs d = fold (disc_step kx) evs d"

text \<open>The specification: a node is about to leave when a leave was the last news of it.\<close>

fun leaving_after :: "jsstring \<Rightarrow> disc_event \<Rightarrow> bool \<Rightarrow> bool" where
  "leaving_after n (D_leave p) b = (n = p \<or> b)"
| "leaving_after n (D_join p) b = (n \<noteq> p \<and> b)"
| "leaving_after n (D_peers_entry r now p server) b = (n \<noteq> p \<and> b)"
| "leaving_after n (D_up p t) b = (n \<noteq> p \<and> b)"
| "leaving_after n (D_leave_timer known tm p) b = (n \<noteq> p \<and> b)"
| "leaving_after n ev b = b"

definition leaving :: "jsstring \<Rightarrow> disc_event list \<Rightarrow> bool" where
  "leaving n evs = fold (leaving_after n) evs False"

definition leave_state :: "disc \<Rightarrow> (jsstring, nat) jsmap \<times> (jsstring, nat) jsmap" where
  "leave_state d = (peerLeaveTimers d, leaveIntentGen d)"

lemma leave_state_upd [simp]:
  "leave_state (d\<lparr>d_sessions := a\<rparr>) = leave_state d" "leave_state (d\<lparr>pendingConnections := b\<rparr>) = leave_state d"
  "leave_state (d\<lparr>establishedPeers := c\<rparr>) = leave_state d" "leave_state (d\<lparr>meshReconnectTimers := e\<rparr>) = leave_state d"
  "leave_state (d\<lparr>expectedRemoteIceHsGen := f\<rparr>) = leave_state d"
  by (simp_all add: leave_state_def)

lemma leave_state_connect [simp]: "leave_state (fst (initiateConnection kx r now n server d)) = leave_state d"
  by (simp add: initiateConnection_def case_prod_beta)

lemma leave_state_signal [simp]: "leave_state (fst (disc_handleSignal kx r now tm n sig d)) = leave_state d"
  by (cases sig)
    (simp_all add: disc_handleSignal_def handleOffer_def handleAnswer_def handleIce_def handleSessionKey_def handleSessionKeyAck_def note_hs_gen_def
      case_prod_beta Let_def split: option.split sum.split)

lemma leave_state_quiet:
  "leave_state (fst (supersedePending now n d)) = leave_state d" "leave_state (fst (websocket_result ok n pub d)) = leave_state d"
  "leave_state (fst (offer_result res n pub d)) = leave_state d" "leave_state (fst (answer_result res n pub d)) = leave_state d"
  "leave_state (fst (set_answer_result kx ok n key d)) = leave_state d" "leave_state (fst (disc_peer_disconnected known n d)) = leave_state d"
  "leave_state (reconnect_timer n d) = leave_state d" "leave_state (fst (maybeReconnectMeshPeer kx r now known n server d)) = leave_state d"
  by (simp_all add: supersedePending_def websocket_result_def offer_result_def answer_result_def set_answer_result_def disc_peer_disconnected_def
      reconnect_timer_def maybeReconnectMeshPeer_def case_prod_beta Let_def split: option.split sum.split)

text \<open>A pending timer is always of the current generation.\<close>

definition timers_ok :: "jsstring \<Rightarrow> bool \<Rightarrow> disc \<Rightarrow> bool" where
  "timers_ok n b d \<longleftrightarrow> (if b then \<exists>g. map_get (peerLeaveTimers d) n = Some g \<and> map_get (leaveIntentGen d) n = Some g else map_get (peerLeaveTimers d) n = None)"

lemma timers_ok_cong: "leave_state d' = leave_state d \<Longrightarrow> timers_ok n b d' = timers_ok n b d"
  by (simp add: timers_ok_def leave_state_def)

lemma timers_ok_clear: "timers_ok n b d \<Longrightarrow> timers_ok n (n \<noteq> p \<and> b) (clearPendingPeerLeave p d)"
  by (auto simp: timers_ok_def clearPendingPeerLeave_def split: if_splits)

lemma timers_ok_reconnect [simp]: "timers_ok n b (clearMeshReconnectTimer p d) = timers_ok n b d"
  by (rule timers_ok_cong) (simp add: clearMeshReconnectTimer_def)

lemma timers_ok_leave: "timers_ok n b d \<Longrightarrow> timers_ok n (n = p \<or> b) (disc_handlePeerLeave p d)"
  by (auto simp: timers_ok_def disc_handlePeerLeave_def clearPendingPeerLeave_def clearMeshReconnectTimer_def Let_def split: if_splits)

lemma timers_ok_fire: "timers_ok n b d \<Longrightarrow> timers_ok n (n \<noteq> p \<and> b) (fst (leave_timer known tm p d))"
  by (auto simp: timers_ok_def leave_timer_def applyPeerLeave_def Let_def split: option.splits if_splits)

lemma timers_ok_step:
  assumes "timers_ok n b d"
  shows "timers_ok n (leaving_after n ev b) (disc_step kx ev d)"
proof (cases ev)
  case (D_join p)
  have "timers_ok n (n \<noteq> p \<and> b) (clearPendingPeerLeave p (clearMeshReconnectTimer p d))" using assms by (intro timers_ok_clear) simp
  then show ?thesis using D_join timers_ok_cong [OF leave_state_upd(5)] by (simp add: on_peer_join_def Let_def)
next
  case (D_up p t)
  have "timers_ok n (n \<noteq> p \<and> b) (clearPendingPeerLeave p (clearMeshReconnectTimer p d))" using assms by (intro timers_ok_clear) simp
  then show ?thesis using D_up by (simp add: disc_peer_connected_def timers_ok_def Let_def)
next
  case (D_peers_entry r now p server)
  show ?thesis
    using timers_ok_clear [OF assms, of p] D_peers_entry by (simp add: peers_update_one_def timers_ok_cong [OF leave_state_connect] Let_def)
next
  case (D_leave p)
  then show ?thesis using timers_ok_leave [OF assms] by simp
next
  case (D_leave_timer known tm p)
  then show ?thesis using timers_ok_fire [OF assms] by simp
qed (use assms in \<open>simp_all add: timers_ok_cong [OF leave_state_signal] timers_ok_cong [OF leave_state_connect] leave_state_quiet [THEN timers_ok_cong]\<close>)

lemma timers_ok_run: "timers_ok n b d \<Longrightarrow> timers_ok n (fold (leaving_after n) evs b) (disc_run kx evs d)"
proof (induction evs arbitrary: b d)
  case (Cons ev evs)
  show ?case using Cons.IH [OF timers_ok_step [OF Cons.prems]] by (simp add: disc_run_def)
qed (simp add: disc_run_def)


end
