(* ===== verification/Key_Agreement.thy ===== *)
theory Key_Agreement
  imports Discovery
begin

text \<open>
  The exchange of session keys between two nodes by the handlers of \<open>src/control/discovery.js\<close>: each side may start again at any time,
  both may start at once, and signals arrive in the order in which they were sent. The handlers are shown to simulate a small
  protocol on the two sessions, whose invariant gives that the keys agree whenever no signal is under way.
\<close>

section \<open>The protocol\<close>

text \<open>A message carries a public key and says whether it asks for one in return.\<close>

type_synonym key_msg = "bool \<times> jsstring"

record proto =
  pr_a :: "session option"
  pr_b :: "session option"
  pr_ab :: "key_msg list"
  pr_ba :: "key_msg list"

definition flip_proto :: "proto \<Rightarrow> proto" where
  "flip_proto p = \<lparr>pr_a = pr_b p, pr_b = pr_a p, pr_ab = pr_ba p, pr_ba = pr_ab p\<rparr>"

definition pub64 :: "key_exchange \<Rightarrow> buffer \<Rightarrow> jsstring" where
  "pub64 kx r = to_base64 (dh_public kx r)"

definition fresh_session :: "key_exchange \<Rightarrow> buffer \<Rightarrow> session" where
  "fresh_session kx r = \<lparr>s_privateKey = r, s_publicKey = dh_public kx r, s_sessionKey = None, s_established = False\<rparr>"

definition with_key :: "key_exchange \<Rightarrow> jsstring \<Rightarrow> session \<Rightarrow> session" where
  "with_key kx k s = s\<lparr>s_sessionKey := map_option (dh_kdf kx) (dh_shared kx (s_privateKey s) (from_base64 k)), s_established := True\<rparr>"

inductive proto_step :: "key_exchange \<Rightarrow> proto \<Rightarrow> proto \<Rightarrow> bool" for kx where
  idle: "proto_step kx p p"
| start: "length r = 32 \<Longrightarrow> proto_step kx p (p\<lparr>pr_a := Some (fresh_session kx r), pr_ab := pr_ab p @ [(True, pub64 kx r)]\<rparr>)"
| reply: "length r = 32 \<Longrightarrow> pr_ba p = (True, k) # ms \<Longrightarrow>
    proto_step kx p (p\<lparr>pr_a := Some (with_key kx k (fresh_session kx r)), pr_ab := pr_ab p @ [(False, pub64 kx r)], pr_ba := ms\<rparr>)"
| finish: "pr_ba p = (False, k) # ms \<Longrightarrow> pr_a p = Some s \<Longrightarrow> proto_step kx p (p\<lparr>pr_a := Some (with_key kx k s), pr_ba := ms\<rparr>)"
| other: "proto_step kx (flip_proto p) q \<Longrightarrow> proto_step kx p (flip_proto q)"

definition synced :: "key_exchange \<Rightarrow> session \<Rightarrow> session \<Rightarrow> bool" where
  "synced kx x y \<longleftrightarrow> s_established x \<and>
     (\<exists>z. dh_shared kx (s_privateKey x) (dh_public kx (s_privateKey y)) = Some z \<and> s_sessionKey x = Some (dh_kdf kx z))"

text \<open>What holds of the messages from \<open>a\<close> to \<open>b\<close>.\<close>

definition half :: "key_exchange \<Rightarrow> proto \<Rightarrow> bool" where
  "half kx p \<longleftrightarrow>
     (\<forall>m \<in> set (pr_ab p). \<exists>r. length r = 32 \<and> snd m = pub64 kx r)
     \<and> (case pr_a p of
          None \<Rightarrow> pr_ab p = [] \<and> (\<forall>m \<in> set (pr_ba p). fst m) \<and> (pr_b p \<noteq> None \<longrightarrow> pr_ba p \<noteq> [])
        | Some a \<Rightarrow> length (s_privateKey a) = 32 \<and>
            (pr_ab p \<noteq> [] \<and> snd (last (pr_ab p)) = pub64 kx (s_privateKey a)
             \<or> (\<exists>m \<in> set (pr_ba p). fst m)
             \<or> pr_ab p = [] \<and> (\<exists>b. pr_b p = Some b \<and> synced kx b a)))"

definition proto_inv :: "key_exchange \<Rightarrow> proto \<Rightarrow> bool" where
  "proto_inv kx p \<longleftrightarrow> half kx p \<and> half kx (flip_proto p)"

lemma flip_flip [simp]: "flip_proto (flip_proto p) = p"
  by (simp add: flip_proto_def)

lemma flip_fields [simp]: "pr_a (flip_proto p) = pr_b p" "pr_b (flip_proto p) = pr_a p" "pr_ab (flip_proto p) = pr_ba p" "pr_ba (flip_proto p) = pr_ab p"
  by (simp_all add: flip_proto_def)

lemma proto_inv_flip [simp]: "proto_inv kx (flip_proto p) = proto_inv kx p"
  by (auto simp: proto_inv_def)

lemma synced_with_key:
  assumes "dh_ok kx" "length (s_privateKey x) = 32" "length (s_privateKey y) = 32" "k = pub64 kx (s_privateKey y)"
  shows "synced kx (with_key kx k x) y"
proof -
  obtain z where "dh_shared kx (s_privateKey x) (dh_public kx (s_privateKey y)) = Some z"
    using assms(1-3) unfolding dh_ok_def by blast
  then show ?thesis by (simp add: synced_def with_key_def assms(4) pub64_def)
qed

lemma priv_simps [simp]: "s_privateKey (fresh_session kx r) = r" "s_privateKey (with_key kx k s) = s_privateKey s"
  by (simp_all add: fresh_session_def with_key_def)

lemma synced_other [simp]: "synced kx x (with_key kx k y) = synced kx x y"
  by (simp add: synced_def)

lemma proto_step_inv:
  assumes "dh_ok kx" "proto_step kx p q" "proto_inv kx p"
  shows "proto_inv kx q"
  using assms(2,3)
proof (induction rule: proto_step.induct)
  case (start r p)
  then show ?case by (auto simp: proto_inv_def half_def split: option.splits)
next
  case (reply r p k ms)
  have sync: "synced kx (with_key kx k (fresh_session kx r)) b" if "length (s_privateKey b) = 32" "k = pub64 kx (s_privateKey b)" for b
    using synced_with_key [OF assms(1)] reply(1) that by simp
  show ?case using reply sync by (auto simp: proto_inv_def half_def split: option.splits if_splits)
next
  case (finish p k ms s)
  have sync: "synced kx (with_key kx k s) b" if "length (s_privateKey s) = 32" "length (s_privateKey b) = 32" "k = pub64 kx (s_privateKey b)" for b
    using synced_with_key [OF assms(1)] that by simp
  show ?case using finish sync by (auto simp: proto_inv_def half_def split: option.splits if_splits)
next
  case (other p q)
  then show ?case by simp
qed simp

section \<open>Two nodes\<close>

record pair_sys =
  sy_a :: disc
  sy_b :: disc
  sy_ab :: "signal list"
  sy_ba :: "signal list"

definition flip_sys :: "pair_sys \<Rightarrow> pair_sys" where
  "flip_sys s = \<lparr>sy_a = sy_b s, sy_b = sy_a s, sy_ab = sy_ba s, sy_ba = sy_ab s\<rparr>"

datatype side_event =
    Start buffer int "jsstring option" jsstring int
  | Receive buffer int tmgr jsstring int
  | Transport_up ttype
  | Joined
  | Left
  | Own_ice jsstring int

datatype pair_event = On_a side_event | On_b side_event

definition signals :: "disc_action list \<Rightarrow> signal list" where
  "signals acts = concat (map (\<lambda>a. case a of Send_signal p sig \<Rightarrow> [sig] | _ \<Rightarrow> []) acts)"

text \<open>The rest of a handler, when WebSocket and WebRTC succeed.\<close>

fun continue :: "key_exchange \<Rightarrow> jsstring \<Rightarrow> int \<Rightarrow> waiting \<Rightarrow> disc \<Rightarrow> disc \<times> disc_action list" where
  "continue kx sdp hs Done d = (d, [])"
| "continue kx sdp hs (Wait_websocket p url pub) d = (case websocket_result True p pub d of (d, acts, w) \<Rightarrow> (d, acts))"
| "continue kx sdp hs (Wait_offer p pub) d = offer_result (Some (sdp, hs)) p pub d"
| "continue kx sdp hs (Wait_answer_for p offer pub) d = answer_result (Some (sdp, hs)) p pub d"
| "continue kx sdp hs (Wait_set_answer p key answer) d = set_answer_result kx True p key d"

fun side_step :: "key_exchange \<Rightarrow> side_event \<Rightarrow> pair_sys \<Rightarrow> pair_sys" where
  "side_step kx (Start r now server sdp hs) s =
     (case initiateConnection kx r now (d_nodeId (sy_b s)) server (sy_a s) of (d, w) \<Rightarrow>
      case continue kx sdp hs w d of (d, acts) \<Rightarrow> s\<lparr>sy_a := d, sy_ab := sy_ab s @ signals acts\<rparr>)"
| "side_step kx (Receive r now tm sdp hs) s =
     (case sy_ba s of
        [] \<Rightarrow> s
      | sig # ms \<Rightarrow>
          (case disc_handleSignal kx r now tm (d_nodeId (sy_b s)) sig (sy_a s) of (d, acts, w) \<Rightarrow>
           case continue kx sdp hs w d of (d, acts') \<Rightarrow> s\<lparr>sy_a := d, sy_ab := sy_ab s @ signals (acts @ acts'), sy_ba := ms\<rparr>))"
| "side_step kx (Transport_up t) s = s\<lparr>sy_a := fst (disc_peer_connected (d_nodeId (sy_b s)) t (sy_a s))\<rparr>"
| "side_step kx Joined s = s\<lparr>sy_a := on_peer_join (d_nodeId (sy_b s)) (sy_a s)\<rparr>"
| "side_step kx Left s = s\<lparr>sy_a := disc_handlePeerLeave (d_nodeId (sy_b s)) (sy_a s)\<rparr>"
| "side_step kx (Own_ice c hs) s = s\<lparr>sy_ab := sy_ab s @ signals (on_ice_candidate hs (d_nodeId (sy_b s)) c)\<rparr>"

fun pair_step :: "key_exchange \<Rightarrow> pair_event \<Rightarrow> pair_sys \<Rightarrow> pair_sys" where
  "pair_step kx (On_a ev) s = side_step kx ev s"
| "pair_step kx (On_b ev) s = flip_sys (side_step kx ev (flip_sys s))"

text \<open>Random keys have 32 bytes, and an offer is not skipped because of a WebSocket connection.\<close>

fun side_ok :: "side_event \<Rightarrow> pair_sys \<Rightarrow> bool" where
  "side_ok (Start r now server sdp hs) s \<longleftrightarrow> length r = 32"
| "side_ok (Receive r now tm sdp hs) s \<longleftrightarrow> length r = 32 \<and> \<not> (tm_isConnected tm (d_nodeId (sy_b s)) \<and> Websocket \<in> set (getAvailableTransports (d_nodeId (sy_b s)) tm))"
| "side_ok ev s \<longleftrightarrow> True"

fun pair_ok :: "pair_event \<Rightarrow> pair_sys \<Rightarrow> bool" where
  "pair_ok (On_a ev) s = side_ok ev s"
| "pair_ok (On_b ev) s = side_ok ev (flip_sys s)"

inductive pair_reach :: "key_exchange \<Rightarrow> pair_sys \<Rightarrow> pair_sys \<Rightarrow> bool" for kx s0 where
  here: "pair_reach kx s0 s0"
| more: "pair_reach kx s0 s \<Longrightarrow> pair_ok ev s \<Longrightarrow> pair_reach kx s0 (pair_step kx ev s)"

definition carried :: "signal \<Rightarrow> key_msg list" where
  "carried sig =
     (case sig of
        Offer _ k _ \<Rightarrow> (case given k of Some k \<Rightarrow> [(True, k)] | None \<Rightarrow> [])
      | Session_key k \<Rightarrow> (case given k of Some k \<Rightarrow> [(True, k)] | None \<Rightarrow> [])
      | Answer _ k _ \<Rightarrow> (case given k of Some k \<Rightarrow> [(False, k)] | None \<Rightarrow> [])
      | Session_key_ack k \<Rightarrow> (case given k of Some k \<Rightarrow> [(False, k)] | None \<Rightarrow> [])
      | _ \<Rightarrow> [])"

definition keyless_offer :: "signal \<Rightarrow> bool" where
  "keyless_offer sig \<longleftrightarrow> (case sig of Offer _ k _ \<Rightarrow> given k = None | _ \<Rightarrow> False)"

definition abs_pair :: "pair_sys \<Rightarrow> proto" where
  "abs_pair s = \<lparr>pr_a = map_get (d_sessions (sy_a s)) (d_nodeId (sy_b s)), pr_b = map_get (d_sessions (sy_b s)) (d_nodeId (sy_a s)),
     pr_ab = concat (map carried (sy_ab s)), pr_ba = concat (map carried (sy_ba s))\<rparr>"

lemma abs_flip: "abs_pair (flip_sys s) = flip_proto (abs_pair s)"
  by (simp add: abs_pair_def flip_sys_def flip_proto_def)

lemma flip_flip_sys [simp]: "flip_sys (flip_sys s) = s"
  by (simp add: flip_sys_def)

definition pub_ok :: "key_exchange \<Rightarrow> bool" where
  "pub_ok kx \<longleftrightarrow> (\<forall>r. length r = 32 \<longrightarrow> dh_public kx r \<noteq> [])"

lemma pub64_given: "pub_ok kx \<Longrightarrow> length r = 32 \<Longrightarrow> given (Some (pub64 kx r)) = Some (pub64 kx r)"
proof -
  assume "pub_ok kx" "length r = 32"
  then have "dh_public kx r \<noteq> []" by (simp add: pub_ok_def)
  then have "pub64 kx r \<noteq> []"
    using base64_roundtrip [of "dh_public kx r"] by (auto simp: pub64_def from_base64_def map_filter_simps)
  then show ?thesis by (simp add: given_def split: list.split)
qed

lemma create_eq: "createSession kx r p ss = (pub64 kx r, map_put p (fresh_session kx r) ss)"
  by (simp add: createSession_def pub64_def fresh_session_def Let_def)

lemma complete_eq:
  assumes "dh_ok kx" "map_get ss p = Some x" "length (s_privateKey x) = 32" "length r = 32"
  shows "\<exists>key. completeSession kx p (pub64 kx r) ss = Inr (key, map_put p (with_key kx (pub64 kx r) x) ss)"
proof -
  obtain z where "dh_shared kx (s_privateKey x) (dh_public kx r) = Some z"
    using assms(1,3,4) unfolding dh_ok_def by blast
  then show ?thesis using assms(2) by (simp add: completeSession_def pub64_def with_key_def Let_def)
qed

lemma signals_simps [simp]: "signals [] = []" "signals (Send_signal p sig # acts) = sig # signals acts" "signals (xs @ ys) = signals xs @ signals ys"
    "signals (quic_key p d) = []"
  by (simp_all add: signals_def) (auto simp: quic_key_def split: option.splits)

text \<open>What the handlers do to the session with the peer, and the signals they send.\<close>

lemma start_effect:
  assumes "pub_ok kx" "length r = 32"
  shows "let s' = side_step kx (Start r now server sdp hs) s in d_nodeId (sy_a s') = d_nodeId (sy_a s) \<and> sy_b s' = sy_b s \<and> sy_ba s' = sy_ba s \<and>
    (d_sessions (sy_a s') = d_sessions (sy_a s) \<and> sy_ab s' = sy_ab s \<or>
     d_sessions (sy_a s') = map_put (d_nodeId (sy_b s)) (fresh_session kx r) (d_sessions (sy_a s)) \<and>
     (\<exists>sig. sy_ab s' = sy_ab s @ [sig] \<and> carried sig = [(True, pub64 kx r)]))"
  using pub64_given [OF assms]
  by (simp add: initiateConnection_def create_eq websocket_result_def offer_result_def carried_def Let_def split: option.split)

lemma note_gen_frame [simp]: "d_sessions (note_hs_gen p g d) = d_sessions d" "d_nodeId (note_hs_gen p g d) = d_nodeId d"
  by (simp_all add: note_hs_gen_def)

lemma clear_frame [simp]:
  "d_sessions (clearPendingPeerLeave n d) = d_sessions d" "d_nodeId (clearPendingPeerLeave n d) = d_nodeId d"
  "d_sessions (clearMeshReconnectTimer n d) = d_sessions d" "d_nodeId (clearMeshReconnectTimer n d) = d_nodeId d"
  by (simp_all add: clearPendingPeerLeave_def clearMeshReconnectTimer_def)

lemma receive_request:
  assumes "dh_ok kx" "pub_ok kx" "length r = 32" "length r' = 32" "sy_ba s = sig # ms" "carried sig = [(True, pub64 kx r')]"
    "side_ok (Receive r now tm sdp hs) s"
  shows "let s' = side_step kx (Receive r now tm sdp hs) s in d_nodeId (sy_a s') = d_nodeId (sy_a s) \<and> sy_b s' = sy_b s \<and> sy_ba s' = ms \<and>
    map_get (d_sessions (sy_a s')) (d_nodeId (sy_b s)) = Some (with_key kx (pub64 kx r') (fresh_session kx r)) \<and>
    (\<exists>sig. sy_ab s' = sy_ab s @ [sig] \<and> carried sig = [(False, pub64 kx r)])"
proof -
  let ?b = "d_nodeId (sy_b s)"
  obtain key where comp: "completeSession kx ?b (pub64 kx r') (map_put ?b (fresh_session kx r) (d_sessions (sy_a s))) =
      Inr (key, map_put ?b (with_key kx (pub64 kx r') (fresh_session kx r)) (map_put ?b (fresh_session kx r) (d_sessions (sy_a s))))"
    using complete_eq [OF assms(1), of "map_put ?b (fresh_session kx r) (d_sessions (sy_a s))" ?b "fresh_session kx r" r'] assms(3,4) by auto
  note g = pub64_given [OF assms(2,3)]
  show ?thesis
  proof (cases sig)
    case (Offer offer k h)
    then have "given k = Some (pub64 kx r')" using assms(6) by (simp add: carried_def split: option.splits)
    then show ?thesis
      using assms(5,7) Offer comp g by (auto simp: disc_handleSignal_def handleOffer_def create_eq answer_result_def carried_def Let_def)
  next
    case (Session_key k)
    then have "given k = Some (pub64 kx r')" using assms(6) by (simp add: carried_def split: option.splits)
    then show ?thesis
      using assms(5) Session_key comp g by (auto simp: disc_handleSignal_def handleSessionKey_def create_eq carried_def Let_def)
  qed (use assms(6) in \<open>auto simp: carried_def split: option.splits\<close>)
qed

lemma receive_reply:
  assumes "dh_ok kx" "length r' = 32" "sy_ba s = sig # ms" "carried sig = [(False, pub64 kx r')]"
    "map_get (d_sessions (sy_a s)) (d_nodeId (sy_b s)) = Some x" "length (s_privateKey x) = 32"
  shows "let s' = side_step kx (Receive r now tm sdp hs) s in d_nodeId (sy_a s') = d_nodeId (sy_a s) \<and> sy_b s' = sy_b s \<and> sy_ba s' = ms \<and>
    map_get (d_sessions (sy_a s')) (d_nodeId (sy_b s)) = Some (with_key kx (pub64 kx r') x) \<and> sy_ab s' = sy_ab s"
proof -
  let ?b = "d_nodeId (sy_b s)"
  obtain key where comp: "completeSession kx ?b (pub64 kx r') (d_sessions (sy_a s)) = Inr (key, map_put ?b (with_key kx (pub64 kx r') x) (d_sessions (sy_a s)))"
    using complete_eq [OF assms(1,5,6,2)] by blast
  show ?thesis
  proof (cases sig)
    case (Answer answer k h)
    then have "given k = Some (pub64 kx r')" using assms(4) by (simp add: carried_def split: option.splits)
    then show ?thesis using assms(3) Answer comp by (simp add: disc_handleSignal_def handleAnswer_def set_answer_result_def Let_def)
  next
    case (Session_key_ack k)
    then have "given k = Some (pub64 kx r')" using assms(4) by (simp add: carried_def split: option.splits)
    then show ?thesis using assms(3) Session_key_ack comp by (simp add: disc_handleSignal_def handleSessionKeyAck_def Let_def)
  qed (use assms(4) in \<open>auto simp: carried_def split: option.splits\<close>)
qed

lemma receive_other:
  assumes "sy_ba s = sig # ms" "carried sig = []" "\<not> keyless_offer sig"
  shows "let s' = side_step kx (Receive r now tm sdp hs) s in d_nodeId (sy_a s') = d_nodeId (sy_a s) \<and> sy_b s' = sy_b s \<and> sy_ba s' = ms \<and>
    d_sessions (sy_a s') = d_sessions (sy_a s) \<and> sy_ab s' = sy_ab s"
proof -
  have ice: "signals (snd (handleIce p c h d)) = []" "d_sessions (fst (handleIce p c h d)) = d_sessions d"
    "d_nodeId (fst (handleIce p c h d)) = d_nodeId d" for p c h d
    by (auto simp: handleIce_def signals_def split: option.split)
  have split: "(case handleIce p c h d of (d, acts) \<Rightarrow> F d acts) = F (fst (handleIce p c h d)) (snd (handleIce p c h d))" for p c h d F
    by (simp add: case_prod_beta)
  show ?thesis
    using assms
    by (cases sig)
      (auto simp: disc_handleSignal_def carried_def keyless_offer_def handleAnswer_def set_answer_result_def handleSessionKey_def handleSessionKeyAck_def
        split ice Let_def split: option.splits)
qed

definition pair_inv :: "key_exchange \<Rightarrow> pair_sys \<Rightarrow> bool" where
  "pair_inv kx s \<longleftrightarrow> proto_inv kx (abs_pair s) \<and> list_all (\<lambda>m. \<not> keyless_offer m) (sy_ab s) \<and> list_all (\<lambda>m. \<not> keyless_offer m) (sy_ba s)"

lemma carried_key: "carried sig = [x] \<Longrightarrow> \<not> keyless_offer sig"
  by (auto simp: carried_def keyless_offer_def split: signal.splits option.splits)

lemma carried_one: "carried sig = [] \<or> (\<exists>b k. carried sig = [(b, k)])"
  by (auto simp: carried_def split: signal.splits option.splits)

lemma abs_step:
  assumes "d_nodeId (sy_a s') = d_nodeId (sy_a s)" "sy_b s' = sy_b s"
    "map_get (d_sessions (sy_a s')) (d_nodeId (sy_b s)) = x" "concat (map carried (sy_ab s')) = ab" "concat (map carried (sy_ba s')) = ba"
  shows "abs_pair s' = (abs_pair s)\<lparr>pr_a := x, pr_ab := ab, pr_ba := ba\<rparr>"
  using assms by (simp add: abs_pair_def)

lemma abs_idle:
  assumes "d_nodeId (sy_a s') = d_nodeId (sy_a s)" "sy_b s' = sy_b s" "d_sessions (sy_a s') = d_sessions (sy_a s)"
    "concat (map carried (sy_ab s')) = concat (map carried (sy_ab s))" "concat (map carried (sy_ba s')) = concat (map carried (sy_ba s))"
  shows "proto_step kx (abs_pair s) (abs_pair s')"
proof -
  have "abs_pair s' = abs_pair s" using assms by (simp add: abs_pair_def)
  then show ?thesis by (simp add: proto_step.idle)
qed

lemma receive_sim:
  assumes kx: "dh_ok kx" "pub_ok kx" and inv: "pair_inv kx s" and ok: "side_ok (Receive r now tm sdp hs) s" and ba: "sy_ba s = sig # ms"
  defines "s' \<equiv> side_step kx (Receive r now tm sdp hs) s"
  shows "proto_step kx (abs_pair s) (abs_pair s') \<and> list_all (\<lambda>m. \<not> keyless_offer m) (sy_ab s') \<and> list_all (\<lambda>m. \<not> keyless_offer m) (sy_ba s')"
proof -
  have r: "length r = 32" using ok by simp
  have half: "half kx (abs_pair s)" "half kx (flip_proto (abs_pair s))" and nk: "list_all (\<lambda>m. \<not> keyless_offer m) (sy_ab s)" "list_all (\<lambda>m. \<not> keyless_offer m) (sig # ms)"
    using inv ba by (simp_all add: pair_inv_def proto_inv_def)
  have msgs: "pr_ba (abs_pair s) = carried sig @ concat (map carried ms)" by (simp add: abs_pair_def ba)
  have valid: "\<exists>r'. length r' = 32 \<and> snd m = pub64 kx r'" if "m \<in> set (carried sig)" for m
    using half(2) that msgs by (auto simp: half_def)
  consider "carried sig = []" | k where "carried sig = [(True, k)]" | k where "carried sig = [(False, k)]" using carried_one [of sig] by (metis (full_types))
  then show ?thesis
  proof cases
    case 1
    have E: "d_nodeId (sy_a s') = d_nodeId (sy_a s) \<and> sy_b s' = sy_b s \<and> sy_ba s' = ms \<and> d_sessions (sy_a s') = d_sessions (sy_a s) \<and> sy_ab s' = sy_ab s"
      using receive_other [OF ba 1, of kx r now tm sdp hs] nk(2) by (simp add: s'_def Let_def)
    then have "proto_step kx (abs_pair s) (abs_pair s')" by (intro abs_idle) (simp_all add: ba 1)
    then show ?thesis using E nk by simp
  next
    case (2 k)
    obtain r' where r': "length r' = 32" "k = pub64 kx r'" using valid [of "(True, k)"] 2 by auto
    obtain sg where E: "d_nodeId (sy_a s') = d_nodeId (sy_a s)" "sy_b s' = sy_b s" "sy_ba s' = ms" "sy_ab s' = sy_ab s @ [sg]" "carried sg = [(False, pub64 kx r)]"
        "map_get (d_sessions (sy_a s')) (d_nodeId (sy_b s)) = Some (with_key kx k (fresh_session kx r))"
      using receive_request [OF kx r r'(1) ba _ ok] 2 r'(2) by (auto simp: s'_def Let_def)
    have "abs_pair s' = (abs_pair s)\<lparr>pr_a := Some (with_key kx k (fresh_session kx r)), pr_ab := pr_ab (abs_pair s) @ [(False, pub64 kx r)], pr_ba := concat (map carried ms)\<rparr>"
      by (rule abs_step) (simp_all add: E abs_pair_def)
    moreover have "pr_ba (abs_pair s) = (True, k) # concat (map carried ms)" using msgs 2 by simp
    ultimately have "proto_step kx (abs_pair s) (abs_pair s')" using proto_step.reply [OF r] by simp
    then show ?thesis using E nk carried_key [OF E(5)] by simp
  next
    case (3 k)
    obtain r' where r': "length r' = 32" "k = pub64 kx r'" using valid [of "(False, k)"] 3 by auto
    have head: "pr_ba (abs_pair s) = (False, k) # concat (map carried ms)" using msgs 3 by simp
    obtain x where x: "pr_a (abs_pair s) = Some x" "length (s_privateKey x) = 32"
      using half(1) head by (cases "pr_a (abs_pair s)") (auto simp: half_def)
    then have "map_get (d_sessions (sy_a s)) (d_nodeId (sy_b s)) = Some x" by (simp add: abs_pair_def)
    then have E: "d_nodeId (sy_a s') = d_nodeId (sy_a s)" "sy_b s' = sy_b s" "sy_ba s' = ms" "sy_ab s' = sy_ab s"
        "map_get (d_sessions (sy_a s')) (d_nodeId (sy_b s)) = Some (with_key kx k x)"
      using receive_reply [OF kx(1) r'(1) ba, of x r now tm sdp hs] x(2) 3 r'(2) by (simp_all add: s'_def Let_def)
    have "abs_pair s' = (abs_pair s)\<lparr>pr_a := Some (with_key kx k x), pr_ab := pr_ab (abs_pair s), pr_ba := concat (map carried ms)\<rparr>"
      by (rule abs_step) (simp_all add: E abs_pair_def)
    then have "proto_step kx (abs_pair s) (abs_pair s')" using proto_step.finish [OF head x(1)] by simp
    then show ?thesis using E nk by simp
  qed
qed

lemma side_sim:
  assumes kx: "dh_ok kx" "pub_ok kx" and inv: "pair_inv kx s" and ok: "side_ok ev s"
  defines "s' \<equiv> side_step kx ev s"
  shows "proto_step kx (abs_pair s) (abs_pair s') \<and> list_all (\<lambda>m. \<not> keyless_offer m) (sy_ab s') \<and> list_all (\<lambda>m. \<not> keyless_offer m) (sy_ba s')"
proof -
  have nk: "list_all (\<lambda>m. \<not> keyless_offer m) (sy_ab s)" "list_all (\<lambda>m. \<not> keyless_offer m) (sy_ba s)"
    using inv by (simp_all add: pair_inv_def)
  show ?thesis
  proof (cases ev)
    case (Start r now server sdp hs)
    have r: "length r = 32" using ok Start by simp
    from start_effect [OF kx(2) r, of now server sdp hs s]
    consider "d_nodeId (sy_a s') = d_nodeId (sy_a s)" "sy_b s' = sy_b s" "sy_ba s' = sy_ba s" "d_sessions (sy_a s') = d_sessions (sy_a s)" "sy_ab s' = sy_ab s"
      | sg where "d_nodeId (sy_a s') = d_nodeId (sy_a s)" "sy_b s' = sy_b s" "sy_ba s' = sy_ba s"
          "d_sessions (sy_a s') = map_put (d_nodeId (sy_b s)) (fresh_session kx r) (d_sessions (sy_a s))" "sy_ab s' = sy_ab s @ [sg]" "carried sg = [(True, pub64 kx r)]"
      unfolding s'_def Start Let_def by blast
    then show ?thesis
    proof cases
      case 1
      then have "proto_step kx (abs_pair s) (abs_pair s')" by (intro abs_idle) simp_all
      then show ?thesis using 1 nk by simp
    next
      case (2 sg)
      have "abs_pair s' = (abs_pair s)\<lparr>pr_a := Some (fresh_session kx r), pr_ab := pr_ab (abs_pair s) @ [(True, pub64 kx r)], pr_ba := pr_ba (abs_pair s)\<rparr>"
        by (rule abs_step) (simp_all add: 2 abs_pair_def)
      then have "proto_step kx (abs_pair s) (abs_pair s')" using proto_step.start [OF r] by simp
      then show ?thesis using 2 nk carried_key [OF 2(6)] by simp
    qed
  next
    case (Receive r now tm sdp hs)
    show ?thesis
    proof (cases "sy_ba s")
      case Nil
      then have "s' = s" by (simp add: s'_def Receive)
      then show ?thesis using nk proto_step.idle by simp
    next
      case (Cons sig ms)
      then show ?thesis using receive_sim [OF kx inv, of r now tm sdp hs sig ms] ok Receive by (simp add: s'_def)
    qed
  next
    case (Own_ice c hs)
    then have "proto_step kx (abs_pair s) (abs_pair s')" unfolding s'_def by (intro abs_idle) (simp_all add: on_ice_candidate_def carried_def)
    then show ?thesis using nk Own_ice by (simp add: s'_def on_ice_candidate_def keyless_offer_def)
  next
    case (Transport_up t)
    then have "proto_step kx (abs_pair s) (abs_pair s')" unfolding s'_def by (intro abs_idle) (simp_all add: disc_peer_connected_def Let_def)
    then show ?thesis using nk Transport_up by (simp add: s'_def)
  next
    case Joined
    then have "proto_step kx (abs_pair s) (abs_pair s')" unfolding s'_def by (intro abs_idle) (simp_all add: on_peer_join_def Let_def)
    then show ?thesis using nk Joined by (simp add: s'_def)
  next
    case Left
    then have "proto_step kx (abs_pair s) (abs_pair s')" unfolding s'_def by (intro abs_idle) (simp_all add: disc_handlePeerLeave_def Let_def)
    then show ?thesis using nk Left by (simp add: s'_def)
  qed
qed

lemma pair_inv_flip [simp]: "pair_inv kx (flip_sys s) = pair_inv kx s"
  by (auto simp: pair_inv_def abs_flip) (simp_all add: flip_sys_def)

lemma pair_step_inv:
  assumes "dh_ok kx" "pub_ok kx" "pair_inv kx s" "pair_ok ev s"
  shows "pair_inv kx (pair_step kx ev s)"
proof -
  have side: "pair_inv kx (side_step kx e t)" if "pair_inv kx t" "side_ok e t" for e t
    using side_sim [OF assms(1,2) that] proto_step_inv [OF assms(1)] that(1) unfolding pair_inv_def by blast
  show ?thesis using side assms(3,4) by (cases ev) simp_all
qed

lemma pair_reach_inv: "pair_reach kx s0 s \<Longrightarrow> dh_ok kx \<Longrightarrow> pub_ok kx \<Longrightarrow> pair_inv kx s0 \<Longrightarrow> pair_inv kx s"
  by (induction rule: pair_reach.induct) (auto intro: pair_step_inv)


definition demo_pair :: pair_sys where
  "demo_pair = \<lparr>sy_a = new_PeerDiscovery (js ''a'') None None, sy_b = new_PeerDiscovery (js ''b'') None None, sy_ab = [], sy_ba = []\<rparr>"

definition demo_tm :: tmgr where
  "demo_tm = new_TransportManager True True True None"

definition demo_done :: pair_sys where
  "demo_done = fold (pair_step demo_kx) [On_a (Start (replicate 32 3) 0 None (js ''offer'') 1), On_b (Receive (replicate 32 5) 0 demo_tm (js ''answer'') 1),
     On_a (Receive (replicate 32 0) 0 demo_tm (js ''-'') 0)] demo_pair"


end
