(* ===== verification/Socket_Transport.thy ===== *)
theory Socket_Transport
  imports Framing Packet_Wire "HOL-Library.Sublist"
begin

text \<open>
  \<open>src/transport/websocket.js\<close> and \<open>src/transport/ws-data-server.js\<close>: the two ends of the WebSocket data
  transport. Sockets are numbers. The send buffer of a connection writes to the socket it was created for
  and may outlive its entry in \<open>sendBuffers\<close> (its timer keeps running), so the buffers are kept in a store
  under their socket; the frames handed to a socket are \<open>sb_sent\<close> of its buffer. Listening, the HTTP upgrade
  and the state of a socket belong to the \<open>ws\<close> library: they appear as events and arguments.
\<close>

section \<open>Transports\<close>

text \<open>
  What the transport manager relies on: a peer without a connection is answered \<open>false\<close> and nothing
  changes, sending does not change who is connected, and closing a peer removes that peer only.
\<close>

locale peer_transport =
  fixes send :: "jsstring \<Rightarrow> buffer \<Rightarrow> 's \<Rightarrow> ('s \<times> bool) res"
    and close :: "jsstring \<Rightarrow> 's \<Rightarrow> 's \<times> 'a list"
    and reach :: "'s \<Rightarrow> jsstring set"
  assumes send_unreachable: "p \<notin> reach s \<Longrightarrow> send p d s = Inr (s, False)"
    and send_reach: "send p d s = Inr (s', ok) \<Longrightarrow> reach s' = reach s"
    and close_reach: "reach (fst (close p s)) = reach s - {p}"
begin

lemma close_list_reach: "reach (fold (\<lambda>p s. fst (close p s)) ps s) = reach s - set ps"
  by (induction ps arbitrary: s) (auto simp: close_reach)

lemma closed_peer_unsendable:
  "p \<in> set ps \<Longrightarrow> send p d (fold (\<lambda>p s. fst (close p s)) ps s) = Inr (fold (\<lambda>p s. fst (close p s)) ps s, False)"
  by (rule send_unreachable) (simp add: close_list_reach)

end

section \<open>WebSocketTransport\<close>

type_synonym wsock = nat

datatype ws_action =
    Ws_close wsock
  | Ws_reject wsock
  | Ws_server_close
  | Peer_up jsstring
  | Peer_down jsstring
  | Peer_message jsstring buffer
  | Peer_error jsstring

record ws_state =
  ws_localNodeId :: "jsstring option"
  ws_connections :: "(jsstring, wsock) jsmap"
  ws_sendBuffers :: "(jsstring, wsock) jsmap"
  ws_store :: "(wsock, sendbuf) jsmap"
  ws_server :: bool

definition new_WebSocketTransport :: "jsstring option \<Rightarrow> ws_state" where
  "new_WebSocketTransport localNodeId =
     \<lparr>ws_localNodeId = localNodeId, ws_connections = [], ws_sendBuffers = [], ws_store = [], ws_server = False\<rparr>"

definition ws_setLocalNodeId :: "jsstring \<Rightarrow> ws_state \<Rightarrow> ws_state" where
  "ws_setLocalNodeId nodeId st = st\<lparr>ws_localNodeId := Some nodeId\<rparr>"

text \<open>\<open>_setupConnection\<close>; \<open>mem\<close> is the content of the buffers that \<open>allocUnsafe\<close> returns.\<close>

definition ws_setupConnection :: "(nat \<Rightarrow> byte) \<Rightarrow> jsstring \<Rightarrow> wsock \<Rightarrow> ws_state \<Rightarrow> ws_state \<times> ws_action list" where
  "ws_setupConnection mem peerId ws st =
     (st\<lparr>ws_connections := map_put peerId ws (ws_connections st),
         ws_sendBuffers := map_put peerId ws (ws_sendBuffers st),
         ws_store := map_put ws (new_TransportSendBuffer None None (\<lambda>_. True) mem) (ws_store st)\<rparr>,
      [Peer_up peerId])"

definition ws_startServer :: "ws_state \<Rightarrow> ws_state" where
  "ws_startServer st = st\<lparr>ws_server := True\<rparr>"

text \<open>The \<open>connection\<close> event of \<open>startServer\<close>, with the header \<open>x-peer-id\<close>.\<close>

definition ws_on_connection :: "(nat \<Rightarrow> byte) \<Rightarrow> jsstring option \<Rightarrow> wsock \<Rightarrow> ws_state \<Rightarrow> ws_state \<times> ws_action list" where
  "ws_on_connection mem header ws st =
     (case Option.bind header or_null of
        None \<Rightarrow> (st, [Ws_reject ws])
      | Some peerId \<Rightarrow> ws_setupConnection mem peerId ws st)"

text \<open>
  \<open>connect\<close>: a pending attempt ends with the first of the socket's \<open>open\<close>, its \<open>error\<close> and the timeout; what
  comes later finds the timer gone and the promise settled. The result is the answer of the promise.
\<close>

datatype ws_attempt_event = Attempt_open | Attempt_error | Attempt_timeout

definition ws_peer_header :: "jsstring \<Rightarrow> ws_state \<Rightarrow> jsstring" where
  "ws_peer_header peerId st = (case Option.bind (ws_localNodeId st) or_null of Some n \<Rightarrow> n | None \<Rightarrow> peerId)"

fun ws_connect :: "(nat \<Rightarrow> byte) \<Rightarrow> jsstring \<Rightarrow> wsock \<Rightarrow> ws_attempt_event \<Rightarrow> ws_state
    \<Rightarrow> ws_state \<times> ws_action list \<times> unit res" where
  "ws_connect mem peerId ws Attempt_open st =
     (case ws_setupConnection mem peerId ws st of (st, acts) \<Rightarrow> (st, acts, Inr ()))"
| "ws_connect mem peerId ws Attempt_error st = (st, [], Inl (Err ''error''))"
| "ws_connect mem peerId ws Attempt_timeout st = (st, [Ws_close ws], Inl (Err ''Connection timeout''))"

definition ws_send :: "jsstring \<Rightarrow> buffer \<Rightarrow> ws_state \<Rightarrow> (ws_state \<times> bool) res" where
  "ws_send peerId data st =
     (case map_get (ws_sendBuffers st) peerId of
        None \<Rightarrow> Inr (st, False)
      | Some ws \<Rightarrow>
          ebind (push data (the (map_get (ws_store st) ws))) (\<lambda>(sb, _).
          Inr (st\<lparr>ws_store := map_put ws sb (ws_store st)\<rparr>, True)))"

text \<open>\<open>isOpen\<close> says which sockets are in the state \<open>WebSocket.OPEN\<close>.\<close>

definition ws_isConnected :: "(wsock \<Rightarrow> bool) \<Rightarrow> jsstring \<Rightarrow> ws_state \<Rightarrow> bool" where
  "ws_isConnected isOpen peerId st =
     (case map_get (ws_connections st) peerId of Some ws \<Rightarrow> isOpen ws | None \<Rightarrow> False)"

definition ws_getConnectedPeers :: "(wsock \<Rightarrow> bool) \<Rightarrow> ws_state \<Rightarrow> jsstring list" where
  "ws_getConnectedPeers isOpen st = map fst (filter (\<lambda>(_, ws). isOpen ws) (ws_connections st))"

text \<open>\<open>if (sb) { sb.stop(); this.sendBuffers.delete(peerId); }\<close>\<close>

definition ws_drop_buffer :: "jsstring \<Rightarrow> ws_state \<Rightarrow> ws_state" where
  "ws_drop_buffer peerId st =
     (case map_get (ws_sendBuffers st) peerId of
        None \<Rightarrow> st
      | Some ws \<Rightarrow> st\<lparr>ws_sendBuffers := map_del peerId (ws_sendBuffers st),
                     ws_store := map_put ws (sb_stop (the (map_get (ws_store st) ws))) (ws_store st)\<rparr>)"

definition ws_close :: "jsstring \<Rightarrow> ws_state \<Rightarrow> ws_state \<times> ws_action list" where
  "ws_close peerId st =
     (let st = ws_drop_buffer peerId st in
      case map_get (ws_connections st) peerId of
        None \<Rightarrow> (st, [])
      | Some ws \<Rightarrow> (st\<lparr>ws_connections := map_del peerId (ws_connections st)\<rparr>, [Ws_close ws]))"

fun ws_close_each :: "jsstring list \<Rightarrow> ws_state \<Rightarrow> ws_state \<times> ws_action list" where
  "ws_close_each [] st = (st, [])"
| "ws_close_each (p # ps) st =
     (case ws_close p st of (st, a) \<Rightarrow> case ws_close_each ps st of (st, as) \<Rightarrow> (st, a @ as))"

definition ws_closeAll :: "ws_state \<Rightarrow> ws_state \<times> ws_action list" where
  "ws_closeAll st =
     (case ws_close_each (map_keys (ws_connections st)) st of
        (st, acts) \<Rightarrow> (st, acts @ (if ws_server st then [Ws_server_close] else [])))"

text \<open>The handlers that \<open>_setupConnection\<close> installs on a socket of the peer.\<close>

definition ws_on_message :: "jsstring \<Rightarrow> buffer \<Rightarrow> ws_action list" where
  "ws_on_message peerId raw = (case unframe raw of None \<Rightarrow> [] | Some packets \<Rightarrow> map (Peer_message peerId) packets)"

definition ws_on_close :: "jsstring \<Rightarrow> ws_state \<Rightarrow> ws_state \<times> ws_action list" where
  "ws_on_close peerId st =
     (let st = ws_drop_buffer peerId st in
      (st\<lparr>ws_connections := map_del peerId (ws_connections st)\<rparr>, [Peer_down peerId]))"

definition ws_on_error :: "jsstring \<Rightarrow> ws_action list" where
  "ws_on_error peerId = [Peer_error peerId]"

text \<open>The flush timer of the buffer of a socket.\<close>

definition ws_buffer_timer :: "wsock \<Rightarrow> ws_state \<Rightarrow> ws_state res" where
  "ws_buffer_timer ws st =
     (case map_get (ws_store st) ws of
        None \<Rightarrow> Inr st
      | Some sb \<Rightarrow> ebind (sb_timeout sb) (\<lambda>sb. Inr (st\<lparr>ws_store := map_put ws sb (ws_store st)\<rparr>)))"

section \<open>WebSocketDataServer\<close>

text \<open>The data server keeps the same state; only what it does differently is written out.\<close>

definition new_WebSocketDataServer :: "jsstring option \<Rightarrow> ws_state" where
  "new_WebSocketDataServer nodeId =
     \<lparr>ws_localNodeId = nodeId, ws_connections = [], ws_sendBuffers = [], ws_store = [], ws_server = False\<rparr>"

definition wsd_start :: "ws_state \<Rightarrow> ws_state" where
  "wsd_start st = st\<lparr>ws_server := True\<rparr>"

definition wsd_handleConnection :: "(nat \<Rightarrow> byte) \<Rightarrow> jsstring option \<Rightarrow> wsock \<Rightarrow> ws_state \<Rightarrow> ws_state \<times> ws_action list" where
  "wsd_handleConnection mem header ws st =
     (case Option.bind header or_null of
        None \<Rightarrow> (st, [Ws_reject ws])
      | Some peerId \<Rightarrow>
          (st\<lparr>ws_connections := map_put peerId ws (ws_connections st),
              ws_sendBuffers := map_put peerId ws (ws_sendBuffers st),
              ws_store := map_put ws (new_TransportSendBuffer None None (\<lambda>_. True) mem) (ws_store st)\<rparr>,
           [Peer_up peerId]))"

definition wsd_send :: "jsstring \<Rightarrow> buffer \<Rightarrow> ws_state \<Rightarrow> (ws_state \<times> bool) res" where
  "wsd_send = ws_send"

definition wsd_isConnected :: "(wsock \<Rightarrow> bool) \<Rightarrow> jsstring \<Rightarrow> ws_state \<Rightarrow> bool" where
  "wsd_isConnected = ws_isConnected"

definition wsd_close :: "jsstring \<Rightarrow> ws_state \<Rightarrow> ws_state \<times> ws_action list" where
  "wsd_close = ws_close"

definition wsd_getConnectedPeers :: "(wsock \<Rightarrow> bool) \<Rightarrow> ws_state \<Rightarrow> jsstring list" where
  "wsd_getConnectedPeers = ws_getConnectedPeers"

definition stop_sock :: "wsock \<Rightarrow> ws_state \<Rightarrow> ws_state" where
  "stop_sock ws st = st\<lparr>ws_store := map_put ws (sb_stop (the (map_get (ws_store st) ws))) (ws_store st)\<rparr>"

definition wsd_stop :: "ws_state \<Rightarrow> ws_state \<times> ws_action list" where
  "wsd_stop st =
     (if ws_server st
      then let st' = fold stop_sock (map snd (ws_sendBuffers st)) st in
        (st'\<lparr>ws_sendBuffers := [], ws_connections := [], ws_server := False\<rparr>,
         map (\<lambda>(_, ws). Ws_close ws) (ws_connections st) @ [Ws_server_close])
      else (st, []))"

section \<open>Buffers of sockets\<close>

text \<open>
  A socket is always ready, so its buffer is flushed as soon as a frame is full: with packets of the
  size the node sends, the limit on the number of queued packets is never reached.
\<close>

definition mesh_sized :: "buffer \<Rightarrow> bool" where
  "mesh_sized p \<longleftrightarrow> plain_frame p \<and> 62 \<le> length p"

definition sock_buf :: "sendbuf \<Rightarrow> bool" where
  "sock_buf sb \<longleftrightarrow> wf_sendbuf sb \<and> maxFrameSize sb = MAX_FRAME_SIZE \<and> maxQueuePackets sb = DEFAULT_MAX_QUEUE
     \<and> sb_ready sb = (\<lambda>_. True) \<and> (\<forall>p \<in> set (sb_packets sb). mesh_sized p) \<and> currentSize sb < MAX_FRAME_SIZE"

definition stream :: "sendbuf \<Rightarrow> buffer list" where
  "stream sb = concat (map unframed (sb_sent sb)) @ sb_packets sb"

lemma sock_buf_new [simp]: "sock_buf (new_TransportSendBuffer None None (\<lambda>_. True) mem)"
    "stream (new_TransportSendBuffer None None (\<lambda>_. True) mem) = []"
  by (simp_all add: sock_buf_def stream_def new_TransportSendBuffer_def wf_sendbuf_def frame_size_def
      HEADER_SIZE_def MAX_FRAME_SIZE_def)

lemma sock_buf_stop [simp]: "sock_buf sb \<Longrightarrow> sock_buf (sb_stop sb)"
  by (auto simp: sock_buf_def sb_stop_def wf_sendbuf_def frame_size_def HEADER_SIZE_def MAX_FRAME_SIZE_def)

lemma stream_stop: "prefix (stream (sb_stop sb)) (stream sb)"
  by (simp add: stream_def sb_stop_def)

lemma sock_flush:
  assumes "wf_sendbuf (sb\<lparr>sb_timer := True\<rparr>)" "maxFrameSize sb = MAX_FRAME_SIZE" "maxQueuePackets sb = DEFAULT_MAX_QUEUE"
    "sb_ready sb = (\<lambda>_. True)"
  shows "\<exists>sb'. sb_flush sb = Inr sb' \<and> sock_buf sb' \<and> sb_packets sb' = [] \<and> stream sb' = stream sb"
proof -
  have eq: "sb_flush (sb\<lparr>sb_timer := True\<rparr>) = sb_flush sb" by (simp add: sb_flush_def)
  obtain sb' where sb': "sb_flush sb = Inr sb'" "wf_sendbuf sb'" "stream sb' = stream sb"
    using sb_flush_channel [OF assms(1)] unfolding eq by (auto simp: stream_def)
  obtain n out where "sb_flush sb = Inr (sb\<lparr>sb_packets := [], currentSize := HEADER_SIZE, sb_timer := False, sb_polls := n,
      sb_sent := sb_sent sb @ out\<rparr>)"
    using sb_flush_ok [of sb] assms by (auto simp: wf_sendbuf_def frame_size_def)
  then have "sock_buf sb'" "sb_packets sb' = []"
    using sb' assms by (auto simp: sock_buf_def HEADER_SIZE_def MAX_FRAME_SIZE_def)
  then show ?thesis using sb' by blast
qed

lemma queue_room:
  assumes "sock_buf sb"
  shows "length (sb_packets sb) < maxQueuePackets sb"
proof -
  have "64 * length ps \<le> (\<Sum>p\<leftarrow>ps. 2 + length p)" if "\<forall>p \<in> set ps. mesh_sized p" for ps :: "buffer list"
    using that by (induction ps) (auto simp: mesh_sized_def)
  from this [of "sb_packets sb"] show ?thesis
    using assms by (simp add: sock_buf_def wf_sendbuf_def frame_size_def HEADER_SIZE_def MAX_FRAME_SIZE_def DEFAULT_MAX_QUEUE_def)
qed

lemma sock_push:
  assumes sb: "sock_buf sb" and data: "mesh_sized data"
  shows "\<exists>sb'. push data sb = Inr (sb', True) \<and> sock_buf sb' \<and> stream sb' = stream sb @ [data]"
proof -
  define pre where "pre = (if currentSize sb + (2 + length data) > maxFrameSize sb \<and> sb_packets sb \<noteq> []
      then sb_flush sb else Inr sb)"
  obtain sb1 where sb1: "pre = Inr sb1" "sock_buf sb1" "stream sb1 = stream sb"
  proof (cases "currentSize sb + (2 + length data) > maxFrameSize sb \<and> sb_packets sb \<noteq> []")
    case True
    have "wf_sendbuf (sb\<lparr>sb_timer := True\<rparr>)" using sb by (auto simp: sock_buf_def wf_sendbuf_def)
    then show thesis using sock_flush [of sb] sb True that by (auto simp: pre_def sock_buf_def)
  next
    case False
    then show thesis using that sb by (auto simp: pre_def)
  qed
  define sb2 where "sb2 = sb1\<lparr>sb_packets := sb_packets sb1 @ [data], currentSize := currentSize sb1 + (2 + length data)\<rparr>"
  have push: "push data sb = (if currentSize sb2 \<ge> maxFrameSize sb2 then ebind (sb_flush sb2) (\<lambda>sb. Inr (sb, True))
      else Inr (sb2\<lparr>sb_timer := True\<rparr>, True))"
    using queue_room [OF sb] sb1(1) unfolding push_def Let_def pre_def [symmetric] by (simp add: sb2_def)
  have wf2: "wf_sendbuf (sb2\<lparr>sb_timer := True\<rparr>)"
    using sb1(2) queue_room [OF sb1(2)] data by (auto simp: wf_sendbuf_def sock_buf_def sb2_def frame_size_def mesh_sized_def)
  have conf: "maxFrameSize sb2 = MAX_FRAME_SIZE" "maxQueuePackets sb2 = DEFAULT_MAX_QUEUE" "sb_ready sb2 = (\<lambda>_. True)"
      "\<forall>p \<in> set (sb_packets sb2). mesh_sized p" "stream sb2 = stream sb @ [data]"
    using sb1(2,3) data by (auto simp: sock_buf_def sb2_def stream_def)
  show ?thesis
  proof (cases "currentSize sb2 \<ge> maxFrameSize sb2")
    case True
    then show ?thesis using sock_flush [OF wf2 conf(1-3)] push conf(5) by auto
  next
    case False
    have "stream (sb2\<lparr>sb_timer := True\<rparr>) = stream sb2" by (simp add: stream_def)
    then show ?thesis using False push wf2 conf by (simp add: sock_buf_def)
  qed
qed

lemma sock_timeout:
  assumes "sock_buf sb"
  shows "\<exists>sb'. sb_timeout sb = Inr sb' \<and> sock_buf sb' \<and> stream sb' = stream sb"
proof -
  have "wf_sendbuf (sb\<lparr>sb_timer := True\<rparr>)" "sb_flush (sb\<lparr>sb_timer := False\<rparr>) = sb_flush sb"
    using assms by (auto simp: sock_buf_def wf_sendbuf_def sb_flush_def)
  then show ?thesis using sock_flush [of sb] assms by (auto simp: sb_timeout_def sock_buf_def)
qed

section \<open>Events\<close>

datatype ws_event =
    WOpen jsstring wsock
  | WSend jsstring buffer
  | WTimer wsock
  | WClosed jsstring
  | WClose jsstring
  | WCloseAll
  | WStop

fun ws_step :: "(wsock \<Rightarrow> nat \<Rightarrow> byte) \<Rightarrow> ws_event \<Rightarrow> ws_state \<Rightarrow> ws_state res" where
  "ws_step mem (WOpen p s) st = Inr (fst (ws_setupConnection (mem s) p s st))"
| "ws_step mem (WSend p data) st = ebind (ws_send p data st) (\<lambda>(st, _). Inr st)"
| "ws_step mem (WTimer s) st = ws_buffer_timer s st"
| "ws_step mem (WClosed p) st = Inr (fst (ws_on_close p st))"
| "ws_step mem (WClose p) st = Inr (fst (ws_close p st))"
| "ws_step mem WCloseAll st = Inr (fst (ws_closeAll st))"
| "ws_step mem WStop st = Inr (fst (wsd_stop st))"

text \<open>The packets for which \<open>send\<close> answers \<open>true\<close> while the peer's buffer is that of the socket.\<close>

fun ws_accepted :: "wsock \<Rightarrow> ws_event \<Rightarrow> ws_state \<Rightarrow> buffer list" where
  "ws_accepted s (WSend p data) st = (if map_get (ws_sendBuffers st) p = Some s then [data] else [])"
| "ws_accepted s _ st = []"

fun opened :: "ws_event list \<Rightarrow> wsock list" where
  "opened [] = []"
| "opened (WOpen p s # es) = s # opened es"
| "opened (_ # es) = opened es"

fun ws_event_ok :: "ws_event \<Rightarrow> bool" where
  "ws_event_ok (WSend p data) = mesh_sized data"
| "ws_event_ok _ = True"

definition ws_inv :: "ws_state \<Rightarrow> bool" where
  "ws_inv st \<longleftrightarrow> wf_map (ws_sendBuffers st) \<and> (\<forall>p. map_get (ws_sendBuffers st) p = map_get (ws_connections st) p)
     \<and> (\<forall>p s. map_get (ws_sendBuffers st) p = Some s \<longrightarrow> map_get (ws_store st) s \<noteq> None)
     \<and> (\<forall>p q s. map_get (ws_sendBuffers st) p = Some s \<longrightarrow> map_get (ws_sendBuffers st) q = Some s \<longrightarrow> p = q)
     \<and> (\<forall>s sb. map_get (ws_store st) s = Some sb \<longrightarrow> sock_buf sb)"

text \<open>The stream of a socket with respect to the packets accepted for it.\<close>

definition ws_chan :: "wsock \<Rightarrow> buffer list \<Rightarrow> ws_state \<Rightarrow> bool" where
  "ws_chan s log st \<longleftrightarrow> (case map_get (ws_store st) s of
      None \<Rightarrow> log = []
    | Some sb \<Rightarrow> prefix (stream sb) log \<and> ((\<exists>p. map_get (ws_sendBuffers st) p = Some s) \<longrightarrow> stream sb = log))"

lemma ws_invD:
  assumes "ws_inv st"
  shows "map_get (ws_sendBuffers st) p = map_get (ws_connections st) p"
    and "map_get (ws_sendBuffers st) p = Some s \<Longrightarrow> \<exists>sb. map_get (ws_store st) s = Some sb"
    and "map_get (ws_sendBuffers st) p = Some s \<Longrightarrow> map_get (ws_sendBuffers st) q = Some s \<Longrightarrow> p = q"
    and "map_get (ws_store st) s = Some sb \<Longrightarrow> sock_buf sb"
    and "wf_map (ws_sendBuffers st)"
  using assms unfolding ws_inv_def by blast+

lemma ws_inv_new [simp]: "ws_inv (new_WebSocketTransport n)" "ws_inv (new_WebSocketDataServer n)"
    "ws_chan s [] (new_WebSocketTransport n)" "ws_chan s [] (new_WebSocketDataServer n)"
  by (simp_all add: ws_inv_def ws_chan_def new_WebSocketTransport_def new_WebSocketDataServer_def)

lemma open_step:
  assumes "ws_inv st" "ws_chan s log st" "map_get (ws_store st) s' = None"
  shows "ws_inv (fst (ws_setupConnection mem p s' st)) \<and> ws_chan s log (fst (ws_setupConnection mem p s' st))"
proof -
  have fresh: "map_get (ws_sendBuffers st) q \<noteq> Some s'" for q
    using ws_invD(2) [OF assms(1), of q s'] assms(3) by auto
  have "ws_inv (fst (ws_setupConnection mem p s' st))"
    using ws_invD [OF assms(1)] fresh unfolding ws_inv_def ws_setupConnection_def by auto
  moreover have "ws_chan s log (fst (ws_setupConnection mem p s' st))"
    using assms(2,3) fresh by (auto simp: ws_chan_def ws_setupConnection_def split: option.splits if_splits)
  ultimately show ?thesis ..
qed

text \<open>Replacing the buffer of a socket by one with a stream that is longer or shorter.\<close>

lemma put_store:
  assumes "ws_inv st" "map_get (ws_store st) s' = Some sb" "sock_buf sb'"
  shows "ws_inv (st\<lparr>ws_store := map_put s' sb' (ws_store st)\<rparr>)"
  using assms ws_invD [OF assms(1)] unfolding ws_inv_def by auto

lemma send_step:
  assumes inv: "ws_inv st" and ch: "ws_chan s log st" and data: "mesh_sized data"
  shows "\<exists>st' ok. ws_send p data st = Inr (st', ok) \<and> ok = (map_get (ws_connections st) p \<noteq> None) \<and> ws_inv st' \<and>
    ws_chan s (log @ ws_accepted s (WSend p data) st) st' \<and> dom (map_get (ws_store st')) = dom (map_get (ws_store st))"
proof (cases "map_get (ws_sendBuffers st) p")
  case None
  then show ?thesis using inv ch ws_invD(1) [OF inv, of p] by (auto simp: ws_send_def)
next
  case (Some s')
  obtain sb where sb: "map_get (ws_store st) s' = Some sb" using ws_invD(2) [OF inv Some] by blast
  obtain sb' where sb': "push data sb = Inr (sb', True)" "sock_buf sb'" "stream sb' = stream sb @ [data]"
    using sock_push [OF ws_invD(4) [OF inv sb] data] by blast
  let ?st = "st\<lparr>ws_store := map_put s' sb' (ws_store st)\<rparr>"
  have "ws_send p data st = Inr (?st, True)" using Some sb sb'(1) by (simp add: ws_send_def)
  moreover have "ws_chan s (log @ ws_accepted s (WSend p data) st) ?st"
    using ch Some sb sb'(3) by (auto simp: ws_chan_def split: option.splits)
  moreover have "dom (map_get (ws_store ?st)) = dom (map_get (ws_store st))"
    using sb by (auto split: if_splits)
  ultimately show ?thesis
    using put_store [OF inv sb sb'(2)] Some ws_invD(1) [OF inv, of p] by auto
qed

lemma timer_step:
  assumes inv: "ws_inv st" and ch: "ws_chan s log st"
  shows "\<exists>st'. ws_buffer_timer s' st = Inr st' \<and> ws_inv st' \<and> ws_chan s log st' \<and> dom (map_get (ws_store st')) = dom (map_get (ws_store st))"
proof (cases "map_get (ws_store st) s'")
  case None
  then show ?thesis using inv ch by (simp add: ws_buffer_timer_def)
next
  case (Some sb)
  obtain sb' where sb': "sb_timeout sb = Inr sb'" "sock_buf sb'" "stream sb' = stream sb"
    using sock_timeout [OF ws_invD(4) [OF inv Some]] by blast
  let ?st = "st\<lparr>ws_store := map_put s' sb' (ws_store st)\<rparr>"
  have "ws_buffer_timer s' st = Inr ?st" using Some sb'(1) by (simp add: ws_buffer_timer_def)
  moreover have "ws_chan s log ?st" using ch Some sb'(3) by (auto simp: ws_chan_def split: option.splits)
  moreover have "dom (map_get (ws_store ?st)) = dom (map_get (ws_store st))"
    using Some by (auto split: if_splits)
  ultimately show ?thesis using put_store [OF inv Some sb'(2)] by auto
qed

lemma close_same: "fst (ws_close p st) = fst (ws_on_close p st)"
proof -
  have "map_del p m = m" if "map_get m p = None" for m :: "(jsstring, wsock) jsmap"
    using that by (simp add: map_of_eq_None_iff delete_id)
  then show ?thesis by (simp add: ws_close_def ws_on_close_def Let_def split: option.split)
qed

lemma ws_close_step:
  assumes inv: "ws_inv st" and ch: "ws_chan s log st"
  shows "ws_inv (fst (ws_on_close p st)) \<and> ws_chan s log (fst (ws_on_close p st)) \<and>
    dom (map_get (ws_store (fst (ws_on_close p st)))) = dom (map_get (ws_store st))"
proof (cases "map_get (ws_sendBuffers st) p")
  case None
  then show ?thesis
    using inv ch ws_invD(1) [OF inv] by (auto simp: ws_on_close_def ws_drop_buffer_def ws_inv_def ws_chan_def split: option.splits)
next
  case (Some s')
  obtain sb where sb: "map_get (ws_store st) s' = Some sb" using ws_invD(2) [OF inv Some] by blast
  let ?st = "st\<lparr>ws_sendBuffers := map_del p (ws_sendBuffers st), ws_store := map_put s' (sb_stop sb) (ws_store st),
      ws_connections := map_del p (ws_connections st)\<rparr>"
  have st: "fst (ws_on_close p st) = ?st" using Some sb by (simp add: ws_on_close_def ws_drop_buffer_def)
  have "ws_inv ?st" using ws_invD [OF inv] sb unfolding ws_inv_def by auto
  moreover have "ws_chan s log ?st"
    using ch sb ws_invD(3) [OF inv Some] stream_stop [of sb] by (auto simp: ws_chan_def split: option.splits)
  moreover have "dom (map_get (ws_store ?st)) = dom (map_get (ws_store st))"
    using sb by (auto split: if_splits)
  ultimately show ?thesis unfolding st by blast
qed

lemma close_each_step:
  "ws_inv st \<Longrightarrow> ws_chan s log st \<Longrightarrow> ws_inv (fst (ws_close_each ps st)) \<and> ws_chan s log (fst (ws_close_each ps st)) \<and>
    dom (map_get (ws_store (fst (ws_close_each ps st)))) = dom (map_get (ws_store st))"
proof (induction ps arbitrary: st)
  case (Cons p ps)
  have eq: "fst (ws_close_each (p # ps) st) = fst (ws_close_each ps (fst (ws_on_close p st)))"
    by (simp add: close_same [symmetric] case_prod_beta)
  show ?case
    using Cons.IH [of "fst (ws_on_close p st)"] ws_close_step [OF Cons.prems, of p] unfolding eq by simp
qed simp

text \<open>While \<open>stop\<close> runs over the buffers, the streams only get shorter.\<close>

lemma stop_socks:
  assumes "\<forall>s \<in> set ss. map_get (ws_store st) s \<noteq> None" "\<forall>s sb. map_get (ws_store st) s = Some sb \<longrightarrow> sock_buf sb"
  shows "dom (map_get (ws_store (fold stop_sock ss st))) = dom (map_get (ws_store st))
    \<and> (\<forall>s sb'. map_get (ws_store (fold stop_sock ss st)) s = Some sb' \<longrightarrow>
          sock_buf sb' \<and> (\<exists>sb. map_get (ws_store st) s = Some sb \<and> prefix (stream sb') (stream sb)))"
  using assms
proof (induction ss arbitrary: st)
  case (Cons s0 ss)
  obtain sb0 where sb0: "map_get (ws_store st) s0 = Some sb0" "sock_buf sb0" using Cons.prems by auto
  let ?st = "stop_sock s0 st"
  have keys: "dom (map_get (ws_store ?st)) = dom (map_get (ws_store st))"
    using sb0 by (auto simp: stop_sock_def split: if_splits)
  have get: "map_get (ws_store ?st) s = (if s = s0 then Some (sb_stop sb0) else map_get (ws_store st) s)" for s
    using sb0 by (simp add: stop_sock_def)
  have "\<forall>s \<in> set ss. map_get (ws_store ?st) s \<noteq> None" "\<forall>s sb. map_get (ws_store ?st) s = Some sb \<longrightarrow> sock_buf sb"
    using Cons.prems sb0 by (simp_all add: get)
  note IH = Cons.IH [OF this]
  have "sock_buf sb' \<and> (\<exists>sb. map_get (ws_store st) s = Some sb \<and> prefix (stream sb') (stream sb))"
    if "map_get (ws_store (fold stop_sock ss ?st)) s = Some sb'" for s sb'
  proof -
    have "sock_buf sb' \<and> (\<exists>sb. map_get (ws_store ?st) s = Some sb \<and> prefix (stream sb') (stream sb))"
      using IH that by blast
    then show ?thesis
      using sb0(1) stream_stop [of sb0] unfolding get by (cases "s = s0") (auto intro: prefix_order.trans)
  qed
  then show ?case using IH keys by simp
qed auto

lemma stop_step:
  assumes inv: "ws_inv st" and ch: "ws_chan s log st"
  shows "ws_inv (fst (wsd_stop st)) \<and> ws_chan s log (fst (wsd_stop st)) \<and>
    dom (map_get (ws_store (fst (wsd_stop st)))) = dom (map_get (ws_store st))"
proof (cases "ws_server st")
  case False
  then show ?thesis using assms by (simp add: wsd_stop_def)
next
  case True
  let ?st = "fold stop_sock (map snd (ws_sendBuffers st)) st"
  have "\<forall>s \<in> set (map snd (ws_sendBuffers st)). map_get (ws_store st) s \<noteq> None"
    using ws_invD(2) [OF inv] wf_map_get_iff [OF ws_invD(5) [OF inv]] by fastforce
  moreover have "\<forall>s sb. map_get (ws_store st) s = Some sb \<longrightarrow> sock_buf sb" using ws_invD(4) [OF inv] by blast
  ultimately have stopped: "dom (map_get (ws_store ?st)) = dom (map_get (ws_store st))"
      "map_get (ws_store ?st) s = Some sb' \<Longrightarrow> sock_buf sb' \<and> (\<exists>sb. map_get (ws_store st) s = Some sb \<and> prefix (stream sb') (stream sb))" for s sb'
    using stop_socks [of "map snd (ws_sendBuffers st)" st] by blast+
  have none: "map_get (ws_store ?st) s = None \<longleftrightarrow> map_get (ws_store st) s = None"
    using stopped(1) by (metis domIff)
  have st: "fst (wsd_stop st) = ?st\<lparr>ws_sendBuffers := [], ws_connections := [], ws_server := False\<rparr>"
    using True by (simp add: wsd_stop_def Let_def)
  have "ws_inv (fst (wsd_stop st))" unfolding st ws_inv_def using stopped(2) by simp
  moreover have "ws_chan s log (fst (wsd_stop st))"
    unfolding st using ch none stopped(2) [of s]
    by (auto simp: ws_chan_def split: option.splits intro: prefix_order.trans)
  ultimately show ?thesis unfolding st using stopped(1) by simp
qed

lemma ws_step_chan:
  assumes inv: "ws_inv st" and ch: "ws_chan s log st" and ok: "ws_event_ok e"
    and fresh: "\<And>p s'. e = WOpen p s' \<Longrightarrow> map_get (ws_store st) s' = None"
  shows "\<exists>st'. ws_step mem e st = Inr st' \<and> ws_inv st' \<and> ws_chan s (log @ ws_accepted s e st) st' \<and>
    dom (map_get (ws_store st')) = dom (map_get (ws_store st)) \<union> set (opened [e])"
proof (cases e)
  case (WOpen p s')
  then show ?thesis
    using open_step [OF inv ch, of s' "mem s'" p] fresh [OF WOpen]
    by (auto simp: ws_setupConnection_def)
next
  case (WSend p data)
  then show ?thesis using send_step [OF inv ch, of data p] ok by auto
next
  case (WTimer s')
  then show ?thesis using timer_step [OF inv ch, of s'] by auto
next
  case (WClosed p)
  then show ?thesis using ws_close_step [OF inv ch, of p] by simp
next
  case (WClose p)
  then show ?thesis using ws_close_step [OF inv ch, of p] by (simp add: close_same)
next
  case WCloseAll
  then show ?thesis
    using close_each_step [OF inv ch, of "map_keys (ws_connections st)"] by (simp add: ws_closeAll_def case_prod_beta)
next
  case WStop
  then show ?thesis using stop_step [OF inv ch] by simp
qed

lemma ws_run_chan:
  "ws_inv st \<Longrightarrow> ws_chan s log st \<Longrightarrow> \<forall>e \<in> set es. ws_event_ok e \<Longrightarrow> distinct (opened es) \<Longrightarrow>
   set (opened es) \<inter> dom (map_get (ws_store st)) = {} \<Longrightarrow>
   \<exists>st' acc. exec (ws_step mem) (ws_accepted s) es st = Inr (st', acc) \<and> ws_inv st' \<and> ws_chan s (log @ acc) st'"
proof (induction es arbitrary: st log)
  case (Cons e es)
  have op: "opened (e # es) = opened [e] @ opened es" by (cases e) simp_all
  have fresh: "map_get (ws_store st) s' = None" if "e = WOpen p s'" for p s'
    using Cons.prems(5) that by auto
  obtain st1 where st1: "ws_step mem e st = Inr st1" "ws_inv st1" "ws_chan s (log @ ws_accepted s e st) st1"
      "dom (map_get (ws_store st1)) = dom (map_get (ws_store st)) \<union> set (opened [e])"
    using ws_step_chan [OF Cons.prems(1,2), of e mem] fresh Cons.prems(3) by auto
  have "set (opened es) \<inter> dom (map_get (ws_store st1)) = {}"
    using Cons.prems(4,5) unfolding op st1(4) by auto
  then obtain st2 acc where "exec (ws_step mem) (ws_accepted s) es st1 = Inr (st2, acc)" "ws_inv st2"
      "ws_chan s ((log @ ws_accepted s e st) @ acc) st2"
    using Cons.IH [OF st1(2,3)] Cons.prems(3,4) unfolding op by auto
  then show ?case using st1(1) by simp
qed simp

section \<open>Properties\<close>

interpretation ws_transport: peer_transport ws_send ws_close "\<lambda>st. dom (map_get (ws_sendBuffers st))"
proof unfold_locales
  fix p d and st st' :: ws_state and ok
  show "p \<notin> dom (map_get (ws_sendBuffers st)) \<Longrightarrow> ws_send p d st = Inr (st, False)"
    by (simp add: ws_send_def domIff)
  show "ws_send p d st = Inr (st', ok) \<Longrightarrow> dom (map_get (ws_sendBuffers st')) = dom (map_get (ws_sendBuffers st))"
    by (auto simp: ws_send_def ebind_Inr_iff split: option.splits)
  show "dom (map_get (ws_sendBuffers (fst (ws_close p st)))) = dom (map_get (ws_sendBuffers st)) - {p}"
    by (auto simp: close_same ws_on_close_def ws_drop_buffer_def split: option.splits if_splits)
qed

lemma close_each_fold: "fst (ws_close_each ps st) = fold (\<lambda>p s. fst (ws_close p s)) ps st"
  by (induction ps arbitrary: st) (auto simp: case_prod_beta)

text \<open>After \<open>closeAll\<close> no packet is accepted for any peer that had a connection.\<close>

lemma ws_closeAll_unsendable:
  assumes "ws_inv st"
  shows "ws_send p d (fst (ws_closeAll st)) = Inr (fst (ws_closeAll st), False)"
proof -
  have "dom (map_get (ws_sendBuffers st)) = set (map_keys (ws_connections st))"
    using ws_invD(1) [OF assms] by (auto simp: dom_map_of_conv_image_fst [symmetric] simp del: dom_map_of_conv_image_fst)
  then have "p \<notin> dom (map_get (ws_sendBuffers (fst (ws_closeAll st))))"
    unfolding ws_closeAll_def using ws_transport.close_list_reach [of "map_keys (ws_connections st)" st]
    by (simp add: case_prod_beta close_each_fold)
  then show ?thesis by (rule ws_transport.send_unreachable)
qed

lemma wire_mesh_sized: "wf_packet p \<Longrightarrow> serialize p = Inr d \<Longrightarrow> mesh_sized d"
  using serialize_wire [of p] length_wire [of p]
  by (auto simp: mesh_sized_def plain_frame_def wire_def wire_header_def u8_bytes_def)

text \<open>What the receiving end emits for a list of frames.\<close>

definition received_on :: "jsstring \<Rightarrow> buffer list \<Rightarrow> ws_action list" where
  "received_on peer frames = concat (map (ws_on_message peer) frames)"

lemma received_on_unframed: "received_on peer frames = map (Peer_message peer) (concat (map unframed frames))"
  unfolding received_on_def
  by (induction frames) (auto simp: ws_on_message_def unframed_def split: option.split)

definition packet_sends :: "ws_event list \<Rightarrow> bool" where
  "packet_sends es \<longleftrightarrow> (\<forall>p d. WSend p d \<in> set es \<longrightarrow> (\<exists>pkt. wf_packet pkt \<and> serialize pkt = Inr d))"

lemma packet_sends_ok: "packet_sends es \<Longrightarrow> \<forall>e \<in> set es. ws_event_ok e"
proof
  fix e assume "packet_sends es" "e \<in> set es"
  then show "ws_event_ok e" using wire_mesh_sized by (cases e) (auto simp: packet_sends_def)
qed

text \<open>(C30) The WebSocket transport loses no packet that it accepts: for any interleaving of connections,
  sends of serialised packets, flush timers, socket closures, \<open>close\<close>, \<open>closeAll\<close> and \<open>stop\<close>, no operation
  throws, every peer with a connection has the send buffer of that connection, and what the other end of a
  socket emits for the frames written to it is, in order, a prefix of the packets for which \<open>send\<close>
  answered \<open>true\<close>. While the socket is the peer's connection, only the packets still in its buffer are
  missing: although \<open>send\<close> ignores the answer of \<open>push\<close>, the queue limit is never reached.\<close>

theorem websocket_lossless:
  assumes "packet_sends es" "distinct (opened es)"
  shows "\<exists>st accepted. exec (ws_step mem) (ws_accepted s) es (new_WebSocketTransport n) = Inr (st, accepted) \<and>
    (\<forall>p. map_get (ws_sendBuffers st) p = map_get (ws_connections st) p) \<and>
    (\<forall>sb. map_get (ws_store st) s = Some sb \<longrightarrow>
       prefix (received_on q (sb_sent sb)) (map (Peer_message q) accepted) \<and>
       (\<forall>p. map_get (ws_connections st) p = Some s \<longrightarrow>
          received_on q (sb_sent sb) @ map (Peer_message q) (sb_packets sb) = map (Peer_message q) accepted))"
proof -
  have "set (opened es) \<inter> dom (map_get (ws_store (new_WebSocketTransport n))) = {}"
    by (simp add: new_WebSocketTransport_def)
  then obtain st acc where st: "exec (ws_step mem) (ws_accepted s) es (new_WebSocketTransport n) = Inr (st, acc)" "ws_inv st"
      "ws_chan s acc st"
    using ws_run_chan [OF ws_inv_new(1,3) packet_sends_ok [OF assms(1)] assms(2), of n mem s] by auto
  have chan: "prefix (stream sb) acc" "map_get (ws_connections st) p = Some s \<Longrightarrow> stream sb = acc"
    if "map_get (ws_store st) s = Some sb" for sb p
    using st(3) that ws_invD(1) [OF st(2)] by (auto simp: ws_chan_def)
  have "prefix (received_on q (sb_sent sb)) (map (Peer_message q) acc)" if "map_get (ws_store st) s = Some sb" for sb
    using map_mono_prefix [OF append_prefixD [OF chan(1) [OF that, unfolded stream_def]]]
    unfolding received_on_unframed .
  moreover have "received_on q (sb_sent sb) @ map (Peer_message q) (sb_packets sb) = map (Peer_message q) acc"
    if "map_get (ws_store st) s = Some sb" "map_get (ws_connections st) p = Some s" for sb p
    using chan(2) [OF that] by (auto simp: received_on_unframed stream_def)
  ultimately show ?thesis using st(1) ws_invD(1) [OF st(2)] by blast
qed

theorem websocket_lossless_witness:
  "\<exists>st accepted. exec (ws_step (\<lambda>_ _. 0)) (ws_accepted 1)
      [WOpen (js ''b'') 1, WSend (js ''b'') (wire sample_packet), WTimer 1, WSend (js ''b'') (wire sample_packet), WClosed (js ''b'')]
      (new_WebSocketTransport None) = Inr (st, accepted) \<and>
    (\<forall>sb. map_get (ws_store st) 1 = Some sb \<longrightarrow>
       prefix (received_on (js ''a'') (sb_sent sb)) (map (Peer_message (js ''a'')) accepted))"
proof -
  have "wf_packet sample_packet"
    by (simp add: wf_packet_def sample_packet_def id_ok_def js_def packet_types ascii_def)
  then have sends: "packet_sends [WOpen (js ''b'') 1, WSend (js ''b'') (wire sample_packet), WTimer 1,
      WSend (js ''b'') (wire sample_packet), WClosed (js ''b'')]"
    using serialize_wire by (auto simp: packet_sends_def)
  have "distinct (opened [WOpen (js ''b'') 1, WSend (js ''b'') (wire sample_packet), WTimer 1,
      WSend (js ''b'') (wire sample_packet), WClosed (js ''b'')])" by simp
  from websocket_lossless [OF sends this, of "\<lambda>_ _. 0" 1 None "js ''a''"] show ?thesis by blast
qed

text \<open>
  A peer that connects again before the closure of its old socket is noticed loses the new connection: the
  \<open>close\<close> handler of the old socket removes the entries of the peer, whatever socket they are for.
\<close>

lemma stale_close_drops_connection:
  "\<exists>st. exec (ws_step mem) (ws_accepted 2) [WOpen p 1, WOpen p 2, WClosed p] (new_WebSocketTransport n) = Inr (st, [])
     \<and> \<not> ws_isConnected (\<lambda>s. s = 2) p st \<and> ws_send p d st = Inr (st, False)
     \<and> snd (ws_on_close p st) = [Peer_down p]"
  by (simp add: ws_setupConnection_def ws_on_close_def ws_drop_buffer_def new_WebSocketTransport_def
      ws_isConnected_def ws_send_def Let_def)

end
