(* ===== verification/Datagram_Transport.thy ===== *)
theory Datagram_Transport
  imports Socket_Transport Crypto_Onion
begin

text \<open>
  \<open>src/transport/quic.js\<close>: encrypted datagrams over UDP with a 16-byte peer id in front. The socket, the
  random initialisation vectors and the random ports are arguments; AES-256-GCM is the parameter
  \<open>seal\<close>/\<open>unseal\<close> of \<open>Crypto_Onion\<close>.
\<close>

record quic =
  q_port :: int
  q_socket :: bool
  q_connections :: "jsstring list"
  q_peerAddresses :: "(jsstring, jsstring \<times> int) jsmap"
  q_sessionKeys :: "(jsstring, buffer) jsmap"
  portHoppingEnabled :: bool
  portHoppingTimer :: bool

datatype quic_action =
    Datagram buffer int jsstring
  | Quic_connected jsstring
  | Quic_disconnected jsstring
  | Quic_message jsstring buffer
  | Port_changed int int
  | Socket_close

definition new_QuicTransport :: "int option \<Rightarrow> bool \<Rightarrow> quic" where
  "new_QuicTransport port portHopping =
     \<lparr>q_port = (case port of Some p \<Rightarrow> p | None \<Rightarrow> 0), q_socket = False, q_connections = [], q_peerAddresses = [],
      q_sessionKeys = [], portHoppingEnabled = portHopping, portHoppingTimer = False\<rparr>"

text \<open>\<open>start\<close>, once the socket is bound to a port.\<close>

definition quic_listening :: "int \<Rightarrow> quic \<Rightarrow> quic" where
  "quic_listening addrPort q =
     q\<lparr>q_socket := True, q_port := addrPort, portHoppingTimer := portHoppingTimer q \<or> portHoppingEnabled q\<rparr>"

definition quic_setSessionKey :: "jsstring \<Rightarrow> buffer \<Rightarrow> quic \<Rightarrow> quic" where
  "quic_setSessionKey peerId key q = q\<lparr>q_sessionKeys := map_put peerId key (q_sessionKeys q)\<rparr>"

definition quic_setPeerAddress :: "jsstring \<Rightarrow> jsstring \<Rightarrow> int \<Rightarrow> quic \<Rightarrow> quic \<times> quic_action list" where
  "quic_setPeerAddress peerId address port q =
     (q\<lparr>q_peerAddresses := map_put peerId (address, port) (q_peerAddresses q),
        q_connections := set_add peerId (q_connections q)\<rparr>, [Quic_connected peerId])"

definition quic_encrypt :: "seal \<Rightarrow> buffer \<Rightarrow> buffer \<Rightarrow> buffer \<Rightarrow> buffer res" where
  "quic_encrypt seal iv data key =
     (if length key \<noteq> 32 then Inl RangeError
      else case seal key iv data of (encrypted, authTag) \<Rightarrow> Inr (iv @ authTag @ encrypted))"

text \<open>\<open>setAuthTag\<close> accepts the tag lengths of GCM only; an empty initialisation vector is refused.\<close>

definition quic_decrypt :: "unseal \<Rightarrow> buffer \<Rightarrow> buffer \<Rightarrow> buffer res" where
  "quic_decrypt unseal data key =
     (let iv = subarray 0 12 data; authTag = subarray 12 28 data; encrypted = drop 28 data in
      if length key \<noteq> 32 then Inl RangeError
      else if iv = [] then Inl TypeError
      else if length authTag \<notin> {4, 8, 12, 13, 14, 15, 16} then Inl TypeError
      else case unseal key iv authTag encrypted of
             Some p \<Rightarrow> Inr p
           | None \<Rightarrow> Inl (Err ''Unsupported state or unable to authenticate data''))"

definition quic_send :: "seal \<Rightarrow> buffer \<Rightarrow> jsstring \<Rightarrow> buffer \<Rightarrow> quic \<Rightarrow> bool \<times> quic_action list" where
  "quic_send seal iv peerId data q =
     (case map_get (q_peerAddresses q) peerId of
        None \<Rightarrow> (False, [])
      | Some (address, port) \<Rightarrow>
          case map_get (q_sessionKeys q) peerId of
            None \<Rightarrow> (False, [])
          | Some sessionKey \<Rightarrow>
              case quic_encrypt seal iv data sessionKey of
                Inl _ \<Rightarrow> (False, [])
              | Inr encrypted \<Rightarrow>
                  let packet = Buffer_alloc (length encrypted + 16);
                      peerIdBuffer = utf8_encode (take 16 (padEnd 16 0 peerId));
                      packet = buf_copy peerIdBuffer packet 0;
                      packet = buf_copy encrypted packet 16 in
                  if q_socket q then (True, [Datagram packet port address]) else (False, []))"

definition quic_isConnected :: "jsstring \<Rightarrow> quic \<Rightarrow> bool" where
  "quic_isConnected peerId q \<longleftrightarrow> peerId \<in> set (q_connections q) \<and> map_get (q_peerAddresses q) peerId \<noteq> None"

definition quic_close :: "jsstring \<Rightarrow> quic \<Rightarrow> quic \<times> quic_action list" where
  "quic_close peerId q =
     (q\<lparr>q_connections := set_del peerId (q_connections q), q_peerAddresses := map_del peerId (q_peerAddresses q),
        q_sessionKeys := map_del peerId (q_sessionKeys q)\<rparr>, [Quic_disconnected peerId])"

fun quic_close_each :: "jsstring list \<Rightarrow> quic \<Rightarrow> quic \<times> quic_action list" where
  "quic_close_each [] q = (q, [])"
| "quic_close_each (p # ps) q =
     (case quic_close p q of (q, a) \<Rightarrow> case quic_close_each ps q of (q, as) \<Rightarrow> (q, a @ as))"

definition quic_closeAll :: "quic \<Rightarrow> quic \<times> quic_action list" where
  "quic_closeAll q =
     (let q = q\<lparr>portHoppingTimer := False\<rparr> in
      case quic_close_each (q_connections q) q of
        (q, acts) \<Rightarrow> (q, acts @ (if q_socket q then [Socket_close] else [])))"

definition quic_getConnectedPeers :: "quic \<Rightarrow> jsstring list" where
  "quic_getConnectedPeers q = q_connections q"

text \<open>\<open>String.prototype.trim\<close> removes white space and line terminators at both ends.\<close>

definition js_space :: "nat \<Rightarrow> bool" where
  "js_space c \<longleftrightarrow>
     (if c < 256 then c \<in> set [9, 10, 11, 12, 13, 32, 160]
      else c \<in> set [5760, 8232, 8233, 8239, 8287, 12288, 65279] \<or> 8192 \<le> c \<and> c \<le> 8202)"

definition js_trim :: "jsstring \<Rightarrow> jsstring" where
  "js_trim s = rev (dropWhile js_space (rev (dropWhile js_space s)))"

definition quic_handleMessage :: "unseal \<Rightarrow> buffer \<Rightarrow> jsstring \<Rightarrow> int \<Rightarrow> quic \<Rightarrow> quic \<times> quic_action list" where
  "quic_handleMessage unseal msg address port q =
     (if length msg < 17 then (q, [])
      else let peerId = js_trim (strip_nul (utf8_decode (subarray 0 16 msg)));
               encrypted = drop 16 msg in
        case map_get (q_sessionKeys q) peerId of
          None \<Rightarrow> (q, [])
        | Some sessionKey \<Rightarrow>
            case quic_decrypt unseal encrypted sessionKey of
              Inl _ \<Rightarrow> (q, [])
            | Inr decrypted \<Rightarrow>
                (q\<lparr>q_peerAddresses := map_put peerId (address, port) (q_peerAddresses q),
                   q_connections := set_add peerId (q_connections q)\<rparr>,
                 (if peerId \<in> set (q_connections q) then [] else [Quic_connected peerId]) @ [Quic_message peerId decrypted]))"

text \<open>
  One tick of the port hopping timer: a random fraction \<open>n / d\<close> below one gives the new port; \<open>bound\<close> says
  whether the new socket could be bound.
\<close>

definition hop_port :: "nat \<Rightarrow> nat \<Rightarrow> int" where
  "hop_port n d = 10000 + int (n * 55000 div d)"

definition quic_rebind :: "bool \<Rightarrow> int \<Rightarrow> quic \<Rightarrow> (quic \<times> quic_action list) res" where
  "quic_rebind bound newPort q =
     (if bound then Inr (q\<lparr>q_socket := True, q_port := newPort\<rparr>, if q_socket q then [Socket_close] else [])
      else Inl (Err ''bind failed''))"

definition port_hopping_tick :: "nat \<Rightarrow> nat \<Rightarrow> bool \<Rightarrow> quic \<Rightarrow> quic \<times> quic_action list" where
  "port_hopping_tick n d bound q =
     (let newPort = hop_port n d in
      case quic_rebind bound newPort q of
        Inl _ \<Rightarrow> (q, [])
      | Inr (q', acts) \<Rightarrow> (q', acts @ [Port_changed (q_port q) newPort]))"

section \<open>Properties\<close>

lemma hop_port_range: "n < d \<Longrightarrow> 10000 \<le> hop_port n d \<and> hop_port n d < 65000"
  by (simp add: hop_port_def div_less_iff_less_mult mult.commute)

interpretation quic_transport: peer_transport "\<lambda>p d q. Inr (q, fst (quic_send seal iv p d q))" quic_close
  "\<lambda>q. dom (map_get (q_peerAddresses q))" for seal iv
proof unfold_locales
  show "Inr (q, fst (quic_send seal iv p d q)) = Inr (q, False)" if "p \<notin> dom (map_get (q_peerAddresses q))" for p d q
    using that by (cases "map_get (q_peerAddresses q) p") (auto simp: quic_send_def)
  show "dom (map_get (q_peerAddresses (fst (quic_close p q)))) = dom (map_get (q_peerAddresses q)) - {p}" for p q
    by (auto simp: quic_close_def split: if_splits)
qed auto

lemma quic_close_each_fold: "fst (quic_close_each ps q) = fold (\<lambda>p s. fst (quic_close p s)) ps q"
  by (induction ps arbitrary: q) (auto simp: case_prod_beta)

text \<open>The invariant of the peer tables: every peer with an address counts as connected.\<close>

definition quic_inv :: "quic \<Rightarrow> bool" where
  "quic_inv q \<longleftrightarrow> (\<forall>p. map_get (q_peerAddresses q) p \<noteq> None \<longrightarrow> p \<in> set (q_connections q))"

lemma quic_inv_ops:
  "quic_inv (new_QuicTransport port hop)"
  "quic_inv q \<Longrightarrow> quic_inv (fst (quic_setPeerAddress p a n q))"
  "quic_inv q \<Longrightarrow> quic_inv (fst (quic_handleMessage unseal msg a n q))"
  "quic_inv q \<Longrightarrow> quic_inv (fst (quic_close p q))"
  "quic_inv q \<Longrightarrow> quic_inv (fst (port_hopping_tick i d b q))"
  by (auto simp: quic_inv_def new_QuicTransport_def quic_setPeerAddress_def quic_handleMessage_def quic_close_def
      port_hopping_tick_def quic_rebind_def Let_def split: if_splits option.splits sum.splits)

lemma quic_closeAll_unsendable:
  assumes "quic_inv q"
  shows "fst (quic_send seal iv p d (fst (quic_closeAll q))) = False"
proof -
  have "p \<notin> dom (map_get (q_peerAddresses (fst (quic_closeAll q))))"
    using assms quic_transport.close_list_reach [of "q_connections q" "q\<lparr>portHoppingTimer := False\<rparr>"]
    by (auto simp: quic_closeAll_def quic_inv_def case_prod_beta quic_close_each_fold Let_def)
  then show ?thesis using quic_transport.send_unreachable [of p] by blast
qed

text \<open>Node ids as they occur in the mesh: short, ASCII, without white space.\<close>

definition quic_id :: "jsstring \<Rightarrow> bool" where
  "quic_id s \<longleftrightarrow> id_ok s \<and> (\<forall>c \<in> set s. \<not> js_space c)"

lemma js_trim_id: "\<forall>c \<in> set s. \<not> js_space c \<Longrightarrow> js_trim s = s"
proof -
  have "dropWhile js_space t = t" if "\<forall>c \<in> set t. \<not> js_space c" for t using that by (cases t) auto
  from this [of s] this [of "rev s"] show "\<forall>c \<in> set s. \<not> js_space c \<Longrightarrow> js_trim s = s" by (simp add: js_trim_def)
qed

lemma id_roundtrip:
  assumes "quic_id s"
  shows "length (utf8_encode (take 16 (padEnd 16 0 s))) = 16"
    and "js_trim (strip_nul (utf8_decode (utf8_encode (take 16 (padEnd 16 0 s))))) = s"
proof -
  have p: "ascii (padEnd 16 0 s)" "length (padEnd 16 0 s) = 16" using padded_id [of s] assms by (auto simp: quic_id_def)
  then show "length (utf8_encode (take 16 (padEnd 16 0 s))) = 16" by simp
  have "strip_nul (padEnd 16 0 s) = s"
    using assms by (auto simp: quic_id_def id_ok_def strip_nul_def padEnd_def filter_id_conv intro: gr0I)
  then show "js_trim (strip_nul (utf8_decode (utf8_encode (take 16 (padEnd 16 0 s))))) = s"
    using p js_trim_id [of s] assms by (simp add: quic_id_def)
qed

text \<open>The datagram that \<open>send\<close> builds, and how the receiver takes it apart.\<close>

lemma quic_send_datagram:
  assumes "quic_id dst" "quic_send seal iv dst data q = (True, acts)"
  obtains key address port where "map_get (q_sessionKeys q) dst = Some key" "map_get (q_peerAddresses q) dst = Some (address, port)"
    "length key = 32"
    "acts = [Datagram (utf8_encode (take 16 (padEnd 16 0 dst)) @ iv @ snd (seal key iv data) @ fst (seal key iv data)) port address]"
proof -
  let ?id = "utf8_encode (take 16 (padEnd 16 0 dst))"
  have packet: "buf_copy bs (buf_copy ?id (Buffer_alloc (length bs + 16)) 0) 16 = ?id @ bs" for bs
    using id_roundtrip(1) [OF assms(1)] by (simp add: buf_copy_def put_at_def Buffer_alloc_def)
  show thesis
    using assms(2) that by (auto simp: quic_send_def quic_encrypt_def packet Let_def
      split: option.splits if_splits sum.splits prod.splits)
qed

lemma quic_received:
  assumes id: "quic_id dst" and iv: "length iv = 12" and key: "length key = 32" and ok: "aead_ok seal unseal"
  shows "quic_handleMessage unseal (utf8_encode (take 16 (padEnd 16 0 dst)) @ iv @ snd (seal key iv data) @ fst (seal key iv data)) address port q =
    (case map_get (q_sessionKeys q) dst of
       None \<Rightarrow> (q, [])
     | Some key' \<Rightarrow>
         (case quic_decrypt unseal (iv @ snd (seal key iv data) @ fst (seal key iv data)) key' of
            Inl _ \<Rightarrow> (q, [])
          | Inr p \<Rightarrow> (q\<lparr>q_peerAddresses := map_put dst (address, port) (q_peerAddresses q),
                        q_connections := set_add dst (q_connections q)\<rparr>,
                      (if dst \<in> set (q_connections q) then [] else [Quic_connected dst]) @ [Quic_message dst p])))"
  using id_roundtrip [OF id] iv by (simp add: quic_handleMessage_def subarray_def Let_def)

lemma quic_decrypt_sealed:
  assumes "length iv = 12" "length key = 32" "aead_ok seal unseal"
  shows "quic_decrypt unseal (iv @ snd (seal key iv data) @ fst (seal key iv data)) key = Inr data"
proof -
  have "length (snd (seal key iv data)) = 16" "unseal key iv (snd (seal key iv data)) (fst (seal key iv data)) = Some data"
    using assms(3) by (simp_all add: aead_ok_def)
  then show ?thesis using assms(1,2) by (auto simp: quic_decrypt_def subarray_def Let_def)
qed

text \<open>
  The receiver files a datagram under the id in its header. That id is the one the sender addressed, so
  the datagram is accepted exactly by a node that holds a matching session key under the
  \<^emph>\<open>destination's\<close> id, and it is reported as coming from the destination.
\<close>

lemma quic_delivers_as_destination:
  assumes "quic_id dst" "length iv = 12" "aead_ok seal unseal" "quic_send seal iv dst data peer = (True, [Datagram msg port address])"
    and "map_get (q_sessionKeys q) dst = map_get (q_sessionKeys peer) dst"
  shows "Quic_message dst data \<in> set (snd (quic_handleMessage unseal msg a n q))"
proof (rule quic_send_datagram [OF assms(1,4)])
  fix key address' port'
  assume "map_get (q_sessionKeys peer) dst = Some key" "length key = 32" "[Datagram msg port address] =
    [Datagram (utf8_encode (take 16 (padEnd 16 0 dst)) @ iv @ snd (seal key iv data) @ fst (seal key iv data)) port' address']"
  then show ?thesis
    using quic_received [OF assms(1,2) _ assms(3), of key] quic_decrypt_sealed [OF assms(2) _ assms(3), of key data] assms(5)
    by simp
qed

text \<open>
  Two nodes that hold each other's session keys never receive anything from each other: a node has no
  session with itself, so the key for its own id, which it looks up, is missing.
\<close>

lemma quic_never_delivers:
  assumes "quic_id me" "length iv = 12" "aead_ok seal unseal" "quic_send seal iv me data peer = (True, [Datagram msg port address])"
    and "map_get (q_sessionKeys q) me = None"
  shows "quic_handleMessage unseal msg a n q = (q, [])"
proof (rule quic_send_datagram [OF assms(1,4)])
  fix key address' port'
  assume "length key = 32" "[Datagram msg port address] =
    [Datagram (utf8_encode (take 16 (padEnd 16 0 me)) @ iv @ snd (seal key iv data) @ fst (seal key iv data)) port' address']"
  then show ?thesis using quic_received [OF assms(1,2) _ assms(3), of key] assms(5) by simp
qed

end
