(* ===== verification/Tun_Device.thy ===== *)
theory Tun_Device
  imports Datagram_Transport
begin

text \<open>
  \<open>src/network/tun.js\<close>, the TUN interface as a byte stream: construction, the handshake with the helper
  process that owns the device, the length-prefixed packets read from and written to it. The helper process
  is outside the program: what it prints and the data it sends are events, the bytes written to its input
  are kept in \<open>hp_stdin\<close>. The commands that configure the interface are in \<open>Tun_Routing\<close>.
\<close>

section \<open>TunInterface\<close>

datatype os_platform = Linux | Darwin | OtherPlatform jsstring

text \<open>The options that may stand under \<open>tun\<close> or at the top of the configuration; \<open>None\<close> is \<open>undefined\<close>.\<close>

record tun_options =
  o_defaultRoute :: "bool option"
  o_excludeFromVPN :: "jsstring list option"
  o_dnsViaVpn :: "bool option"
  o_deferDnsAfterPolicyMs :: "int option"
  o_linuxSplitDefault :: "bool option"
  o_linuxFlushRouteCache :: "bool option"
  o_logRouteDiag :: "bool option"
  o_logRouteDiagSs :: "bool option"

record mesh_vpn_config =
  mc_signallingServer :: "jsstring option"
  mc_dataServer :: "jsstring option"
  mc_turnServers :: "jsstring list list"
  mc_iceServers :: "jsstring list list"
  mc_virtualNetwork :: "jsstring option"

record tun_config =
  tc_tunName :: "jsstring option"
  tc_virtualIp :: "jsstring option"
  tc_netmask :: "jsstring option"
  tc_mtu :: "nat option"
  tc_isExit :: bool
  tc_meshVpnConfig :: "mesh_vpn_config option"
  tc_nested :: "tun_options option"
  tc_options :: tun_options

record helper_process =
  hp_writable :: bool
  hp_stdin :: "buffer list"

record tun_if =
  tun_name :: "jsstring option"
  tun_virtualIp :: "jsstring option"
  tun_netmask :: jsstring
  tun_mtu :: nat
  helperProcess :: "helper_process option"
  readBuffer :: buffer
  tun_platform :: os_platform
  tun_running :: bool
  tun_isExit :: bool
  meshVpnConfig :: "mesh_vpn_config option"
  excludedIPs :: "jsstring list"
  linuxPolicyRoutingActive :: bool
  defaultRouteEnabled :: bool
  policyRoutingDeferred :: bool
  infraAppliedEarly :: bool
  splitDefaultOnlyDeferred :: bool
  deferredInfraIpv4 :: "jsstring list option"
  deferredNetworkPrefix :: "jsstring option"
  linuxMainInfraRoutes :: "jsstring list option"
  linuxRpFilterBackup :: "(jsstring \<times> jsstring) list option"
  linuxSplitDefault :: bool
  linuxFlushRouteCache :: bool
  logRouteDiag :: bool
  logRouteDiagSs :: bool
  dnsViaVpn :: bool
  deferDnsAfterPolicyMs :: nat
  deferDnsTimer :: bool
  diagInfraSnapshot :: "jsstring list"

text \<open>A key defined at the top of the configuration replaces the nested one.\<close>

definition override :: "'a option \<Rightarrow> 'a option \<Rightarrow> 'a option" where
  "override root nested = (case root of Some v \<Rightarrow> Some v | None \<Rightarrow> nested)"

definition no_tun_options :: tun_options where
  "no_tun_options = \<lparr>o_defaultRoute = None, o_excludeFromVPN = None, o_dnsViaVpn = None,
     o_deferDnsAfterPolicyMs = None, o_linuxSplitDefault = None, o_linuxFlushRouteCache = None,
     o_logRouteDiag = None, o_logRouteDiagSs = None\<rparr>"

definition merge_options :: "tun_options \<Rightarrow> tun_options option \<Rightarrow> tun_options" where
  "merge_options root nested =
     (let n = (case nested of Some n \<Rightarrow> n | None \<Rightarrow> no_tun_options) in
      \<lparr>o_defaultRoute = override (o_defaultRoute root) (o_defaultRoute n),
       o_excludeFromVPN = override (o_excludeFromVPN root) (o_excludeFromVPN n),
       o_dnsViaVpn = override (o_dnsViaVpn root) (o_dnsViaVpn n),
       o_deferDnsAfterPolicyMs = override (o_deferDnsAfterPolicyMs root) (o_deferDnsAfterPolicyMs n),
       o_linuxSplitDefault = override (o_linuxSplitDefault root) (o_linuxSplitDefault n),
       o_linuxFlushRouteCache = override (o_linuxFlushRouteCache root) (o_linuxFlushRouteCache n),
       o_logRouteDiag = override (o_logRouteDiag root) (o_logRouteDiag n),
       o_logRouteDiagSs = override (o_logRouteDiagSs root) (o_logRouteDiagSs n)\<rparr>)"

definition new_TunInterface :: "os_platform \<Rightarrow> tun_config \<Rightarrow> tun_if" where
  "new_TunInterface platform config =
     (let tc = merge_options (tc_options config) (tc_nested config) in
      \<lparr>tun_name = None,
       tun_virtualIp = tc_virtualIp config,
       tun_netmask = (case tc_netmask config of
           Some m \<Rightarrow> if m = [] then js ''255.255.0.0'' else m | None \<Rightarrow> js ''255.255.0.0''),
       tun_mtu = (case tc_mtu config of Some n \<Rightarrow> if n = 0 then 1400 else n | None \<Rightarrow> 1400),
       helperProcess = None,
       readBuffer = [],
       tun_platform = platform,
       tun_running = False,
       tun_isExit = tc_isExit config,
       meshVpnConfig = tc_meshVpnConfig config,
       excludedIPs = (case o_excludeFromVPN tc of Some ips \<Rightarrow> ips | None \<Rightarrow> []),
       linuxPolicyRoutingActive = False,
       defaultRouteEnabled =
         (if tc_isExit config then False
          else case o_defaultRoute tc of Some b \<Rightarrow> b | None \<Rightarrow> True),
       policyRoutingDeferred = False,
       infraAppliedEarly = False,
       splitDefaultOnlyDeferred = False,
       deferredInfraIpv4 = None,
       deferredNetworkPrefix = None,
       linuxMainInfraRoutes = None,
       linuxRpFilterBackup = None,
       linuxSplitDefault = (o_linuxSplitDefault tc \<noteq> Some False),
       linuxFlushRouteCache = (o_linuxFlushRouteCache tc \<noteq> Some False),
       logRouteDiag = (o_logRouteDiag tc = Some True),
       logRouteDiagSs = (o_logRouteDiagSs tc = Some True),
       dnsViaVpn = (o_dnsViaVpn tc \<noteq> Some False),
       deferDnsAfterPolicyMs =
         (case o_deferDnsAfterPolicyMs tc of Some ms \<Rightarrow> if ms \<ge> 0 then nat ms else 0 | None \<Rightarrow> 0),
       deferDnsTimer = False,
       diagInfraSnapshot = []\<rparr>)"

text \<open>What the interface emits.\<close>

datatype tun_event = TunPacket buffer | TunError | TunOpen "jsstring option" | TunClose

text \<open>The interface of the test configurations below: running, with a fresh helper.\<close>

definition plain_config :: tun_config where
  "plain_config = \<lparr>tc_tunName = None, tc_virtualIp = None, tc_netmask = None, tc_mtu = None, tc_isExit = False,
     tc_meshVpnConfig = None, tc_nested = None, tc_options = no_tun_options\<rparr>"

definition plain_tun :: tun_if where
  "plain_tun = (new_TunInterface Linux plain_config)
     \<lparr>tun_name := Some (js ''tun0''), tun_running := True, helperProcess := Some \<lparr>hp_writable = True, hp_stdin = []\<rparr>\<rparr>"

lemma plain_tun_simps [simp]:
  "tun_running plain_tun" "readBuffer plain_tun = []" "tun_mtu plain_tun = 1400"
  "helperProcess plain_tun = Some \<lparr>hp_writable = True, hp_stdin = []\<rparr>"
  "tun_name plain_tun = Some (js ''tun0'')" "linuxPolicyRoutingActive plain_tun = False"
  "tun_platform plain_tun = Linux" "linuxSplitDefault plain_tun" "linuxFlushRouteCache plain_tun"
  by (simp_all add: plain_tun_def new_TunInterface_def plain_config_def merge_options_def no_tun_options_def
      override_def Let_def)

section \<open>Packets of the helper\<close>

text \<open>
  The loop of \<open>_processHelperData\<close> on the buffered bytes: what stays in the buffer and the packets emitted.
\<close>

function helper_loop :: "nat \<Rightarrow> buffer \<Rightarrow> buffer \<times> buffer list" where
  "helper_loop mtu rb =
     (if length rb < 4 then (rb, [])
      else let packetLen = u32_at rb 0 in
        if packetLen > mtu + 100 then ([], [])
        else if length rb < 4 + packetLen then (rb, [])
        else let packet = subarray 4 (4 + packetLen) rb in
          case helper_loop mtu (drop (4 + packetLen) rb) of
            (rest, packets) \<Rightarrow> (rest, if length packet > 0 then packet # packets else packets))"
  by pat_completeness auto
termination by (relation "measure (\<lambda>(mtu, rb). length rb)") auto

declare helper_loop.simps [simp del]

definition processHelperData :: "buffer \<Rightarrow> tun_if \<Rightarrow> tun_if \<times> tun_event list" where
  "processHelperData data t =
     (case helper_loop (tun_mtu t) (readBuffer t @ data) of
        (rb, packets) \<Rightarrow> (t\<lparr>readBuffer := rb\<rparr>, map TunPacket packets))"

text \<open>The \<open>data\<close> listener on the output of the helper.\<close>

definition on_stdout :: "buffer \<Rightarrow> tun_if \<Rightarrow> tun_if \<times> tun_event list" where
  "on_stdout data t = (if \<not> tun_running t then (t, []) else processHelperData data t)"

fun on_stdouts :: "buffer list \<Rightarrow> tun_if \<Rightarrow> tun_if \<times> tun_event list" where
  "on_stdouts [] t = (t, [])"
| "on_stdouts (d # ds) t =
     (case on_stdout d t of (t1, es) \<Rightarrow> case on_stdouts ds t1 of (t2, fs) \<Rightarrow> (t2, es @ fs))"

definition writeViaHelper :: "buffer \<Rightarrow> helper_process \<Rightarrow> helper_process \<times> tun_event list \<times> bool" where
  "writeViaHelper packet hp =
     (case writeUInt32BE (Buffer_alloc 4) (int (length packet)) 0 of
        Inl _ \<Rightarrow> (hp, [TunError], False)
      | Inr header \<Rightarrow> (hp\<lparr>hp_stdin := hp_stdin hp @ [header @ packet]\<rparr>, [], True))"

definition tun_write :: "buffer \<Rightarrow> tun_if \<Rightarrow> tun_if \<times> tun_event list \<times> bool" where
  "tun_write packet t =
     (if \<not> tun_running t then (t, [], False)
      else case helperProcess t of
        None \<Rightarrow> (t, [], False)
      | Some hp \<Rightarrow>
          if hp_writable hp then
            (case writeViaHelper packet hp of
               (hp', es, ok) \<Rightarrow> (t\<lparr>helperProcess := Some hp'\<rparr>, es, ok))
          else (t, [], False))"

fun tun_writes :: "buffer list \<Rightarrow> tun_if \<Rightarrow> tun_if" where
  "tun_writes [] t = t"
| "tun_writes (p # ps) t = tun_writes ps (fst (tun_write p t))"

text \<open>Everything written to the helper so far.\<close>

definition helper_input :: "tun_if \<Rightarrow> buffer" where
  "helper_input t = (case helperProcess t of None \<Rightarrow> [] | Some hp \<Rightarrow> concat (hp_stdin hp))"

section \<open>Opening\<close>

text \<open>
  \<open>openEarly\<close>, \<open>_openLinux\<close> and \<open>_openMacOS\<close> start the helper and return a promise. The helper prints the
  name of the interface (or an error) on its first line of error output; the configuration that follows
  ends with \<open>resolve()\<close>, on Linux after awaiting name resolution (event \<open>Configured\<close>), on macOS at once.
\<close>

datatype open_mode = EarlyMode | LinuxMode | MacMode

datatype open_promise = OpenPending | OpenResolved | OpenRejected jsstring

record tun_opening =
  op_promise :: open_promise
  op_once :: bool
  op_named :: bool
  op_killed :: bool

datatype helper_event =
    Stderr jsstring | SpawnError jsstring | HelperExit | NameTimeout | Configured

definition settle_open :: "open_promise \<Rightarrow> tun_opening \<Rightarrow> tun_opening" where
  "settle_open r p = (if op_promise p = OpenPending then p\<lparr>op_promise := r\<rparr> else p)"

definition starts_with :: "jsstring \<Rightarrow> jsstring \<Rightarrow> bool" where
  "starts_with w s \<longleftrightarrow> take (length w) s = w"

definition helper_label :: "open_mode \<Rightarrow> jsstring" where
  "helper_label mode = (if mode = MacMode then js ''utun-helper'' else js ''tun-helper'')"

definition timeout_text :: "open_mode \<Rightarrow> jsstring" where
  "timeout_text mode =
     (if mode = MacMode then js ''Timeout waiting for utun interface name'' else js ''Timeout waiting for TUN interface name'')"

definition open_start :: "open_mode \<Rightarrow> bool \<Rightarrow> tun_if \<Rightarrow> tun_if \<times> tun_opening" where
  "open_start mode helper_exists t =
     (let p = \<lparr>op_promise = OpenPending, op_once = False, op_named = False, op_killed = False\<rparr> in
      if \<not> helper_exists then (t, settle_open (OpenRejected (helper_label mode @ js '' not found'')) p)
      else (t\<lparr>helperProcess := Some \<lparr>hp_writable = True, hp_stdin = []\<rparr>\<rparr>, p))"

fun open_event :: "open_mode \<Rightarrow> helper_event \<Rightarrow> tun_if \<times> tun_opening \<Rightarrow> (tun_if \<times> tun_opening) \<times> tun_event list" where
  "open_event mode (Stderr line) (t, p) =
     (if op_once p then ((t, p), [])
      else let p = p\<lparr>op_once := True\<rparr>; output = js_trim line in
        if starts_with (js ''ERROR:'') output then ((t, settle_open (OpenRejected (helper_label mode @ js '': '' @ output)) p), [])
        else let t = t\<lparr>tun_name := Some output\<rparr>; p = p\<lparr>op_named := True\<rparr> in
          ((t, if mode = MacMode then settle_open OpenResolved p else p), []))"
| "open_event mode Configured (t, p) =
     (if op_named p then ((t, settle_open OpenResolved p), []) else ((t, p), []))"
| "open_event mode (SpawnError e) (t, p) =
     (if \<not> op_named p then ((t, settle_open (OpenRejected e) p), []) else ((t, p), [TunError]))"
| "open_event mode HelperExit (t, p) =
     (if tun_running t then ((t\<lparr>tun_running := False\<rparr>, p), [TunClose]) else ((t, p), []))"
| "open_event mode NameTimeout (t, p) =
     (if \<not> op_named p
      then ((t, settle_open (OpenRejected (timeout_text mode)) (p\<lparr>op_killed := True\<rparr>)), [])
      else ((t, p), []))"

definition openEarly_event :: "helper_event \<Rightarrow> tun_if \<times> tun_opening \<Rightarrow> (tun_if \<times> tun_opening) \<times> tun_event list" where
  "openEarly_event = open_event EarlyMode"

definition openLinux_event :: "helper_event \<Rightarrow> tun_if \<times> tun_opening \<Rightarrow> (tun_if \<times> tun_opening) \<times> tun_event list" where
  "openLinux_event = open_event LinuxMode"

definition openMacOS_event :: "helper_event \<Rightarrow> tun_if \<times> tun_opening \<Rightarrow> (tun_if \<times> tun_opening) \<times> tun_event list" where
  "openMacOS_event = open_event MacMode"

fun open_events :: "open_mode \<Rightarrow> helper_event list \<Rightarrow> tun_if \<times> tun_opening \<Rightarrow> tun_if \<times> tun_opening" where
  "open_events mode [] s = s"
| "open_events mode (e # es) s = open_events mode es (fst (open_event mode e s))"

text \<open>\<open>open()\<close> once the promise is settled: only then is data of the helper accepted.\<close>

definition open_settled :: "open_promise \<Rightarrow> tun_if \<Rightarrow> tun_if \<times> tun_event list" where
  "open_settled r t =
     (case r of OpenResolved \<Rightarrow> (t\<lparr>tun_running := True\<rparr>, [TunOpen (tun_name t)]) | _ \<Rightarrow> (t, []))"

definition open_platform :: "os_platform \<Rightarrow> open_mode res" where
  "open_platform pf = (case pf of Linux \<Rightarrow> Inr LinuxMode | Darwin \<Rightarrow> Inr MacMode
     | OtherPlatform _ \<Rightarrow> Inl (Err ''Unsupported platform''))"

section \<open>Reading a file descriptor\<close>

text \<open>The reader for a file descriptor: one read is one packet.\<close>

definition on_read :: "bool \<Rightarrow> buffer \<Rightarrow> tun_if \<Rightarrow> tun_event list \<times> bool" where
  "on_read err bytes t =
     (if err then (if tun_running t then [TunError] else [], False)
      else (if length bytes > 0 then [TunPacket bytes] else [], True))"

subsection \<open>Framing\<close>

abbreviation frames_fit :: "nat \<Rightarrow> buffer list \<Rightarrow> bool" where
  "frames_fit mtu ps \<equiv> mtu + 100 < 4294967296 \<and> (\<forall>p \<in> set ps. length p \<le> mtu + 100)"

lemma u32_at_take: "4 \<le> length a \<Longrightarrow> u32_at (a @ b) 0 = u32_at a 0"
proof -
  assume "4 \<le> length a"
  then have "(a @ b) ! i = a ! i" if "i < 4" for i using that by (simp add: nth_append)
  from this [of 0] this [of 1] this [of 2] this [of 3] show ?thesis
    by (simp add: u32_at_def numeral_2_eq_2)
qed

text \<open>One frame of the loop, and the two ways it stops without an error.\<close>

lemma helper_loop_frame:
  assumes "4 \<le> length rb" "u32_at rb 0 = n" "n \<le> mtu + 100" "4 + n \<le> length rb"
  shows "helper_loop mtu rb =
    (fst (helper_loop mtu (drop (4 + n) rb)),
     filter (\<lambda>p. p \<noteq> []) [subarray 4 (4 + n) rb] @ snd (helper_loop mtu (drop (4 + n) rb)))"
  using assms by (subst helper_loop.simps) (simp add: Let_def split_def)

lemma helper_loop_wait:
  "length rb < 4 \<or> u32_at rb 0 \<le> mtu + 100 \<and> length rb < 4 + u32_at rb 0 \<Longrightarrow> helper_loop mtu rb = (rb, [])"
  by (subst helper_loop.simps) (auto simp: Let_def)

text \<open>The first frame of a stream, as far as it has arrived.\<close>

lemma first_frame:
  assumes "a @ c = p32.packed ps" "4 \<le> length a" "frames_fit mtu ps"
  obtains p qs where "ps = p # qs" "u32_at a 0 = length p" "length p \<le> mtu + 100"
proof (cases ps)
  case Nil
  then show ?thesis using assms by (simp add: p32.packed_simps)
next
  case (Cons p qs)
  have "u32_at (a @ c) 0 = length p"
    unfolding assms(1) Cons using p32.packed_prefix_length [of p "[]" qs] assms(3) Cons by auto
  then have "u32_at a 0 = length p"
    using u32_at_take [OF assms(2), of c] by simp
  then show ?thesis
    using that [OF Cons] assms(3) Cons by simp
qed

lemma drop_frame:
  assumes "a @ c = p32.packed (p # qs)" "4 + length p \<le> length a"
  shows "drop (4 + length p) a @ c = p32.packed qs" "subarray 4 (4 + length p) a = p"
proof -
  have "take (4 + length p) a @ drop (4 + length p) a @ c = (u32_bytes (length p) @ p) @ p32.packed qs"
    using assms(1) by (simp add: p32.packed_simps flip: append_assoc)
  then have "take (4 + length p) a = u32_bytes (length p) @ p" "drop (4 + length p) a @ c = p32.packed qs"
    using assms(2) by (simp_all del: append_assoc add: append_eq_append_conv)
  then show "drop (4 + length p) a @ c = p32.packed qs" "subarray 4 (4 + length p) a = p"
    by (simp_all add: subarray_def)
qed

text \<open>On a well-formed stream the bytes may be handed over in two parts.\<close>

lemma helper_loop_append:
  assumes "a @ c = p32.packed ps" "frames_fit mtu ps"
  shows "helper_loop mtu (a @ b) =
    (case helper_loop mtu a of (r, qs) \<Rightarrow> case helper_loop mtu (r @ b) of (r', qs') \<Rightarrow> (r', qs @ qs'))"
  using assms
proof (induction mtu a arbitrary: ps rule: helper_loop.induct)
  case (1 mtu rb)
  show ?case
  proof (cases "4 \<le> length rb")
    case True
    then obtain p qs where p: "ps = p # qs" "u32_at rb 0 = length p" "length p \<le> mtu + 100"
      using first_frame [OF "1.prems"(1) _ "1.prems"(2)] by blast
    show ?thesis
    proof (cases "4 + length p \<le> length rb")
      case full: True
      have "drop (4 + length p) rb @ c = p32.packed qs"
        using drop_frame(1) "1.prems"(1) p(1) full by blast
      then have IH: "helper_loop mtu (drop (4 + length p) rb @ b) =
          (case helper_loop mtu (drop (4 + length p) rb) of
             (r, qs) \<Rightarrow> case helper_loop mtu (r @ b) of (r', qs') \<Rightarrow> (r', qs @ qs'))"
        using "1.IH" [of "length p" "subarray 4 (4 + length p) rb" qs] full True p "1.prems"(2) by simp
      have "helper_loop mtu (rb @ b) =
          (fst (helper_loop mtu (drop (4 + length p) rb @ b)),
           filter (\<lambda>p. p \<noteq> []) [subarray 4 (4 + length p) rb] @ snd (helper_loop mtu (drop (4 + length p) rb @ b)))"
        using helper_loop_frame [of "rb @ b" "length p" mtu] full True p
        by (simp add: u32_at_take subarray_def)
      then show ?thesis
        using helper_loop_frame [of rb "length p" mtu] full True p IH by (simp add: split_def)
    next
      case False
      then show ?thesis
        using True p helper_loop_wait [of rb mtu] by (simp add: split_def)
    qed
  next
    case False
    then show ?thesis using helper_loop_wait [of rb mtu] by (simp add: split_def)
  qed
qed

lemma helper_loop_packed:
  "frames_fit mtu ps \<Longrightarrow> helper_loop mtu (p32.packed ps) = ([], filter (\<lambda>p. p \<noteq> []) ps)"
proof (induction ps)
  case Nil
  then show ?case by (simp add: helper_loop.simps p32.packed_simps)
next
  case (Cons p ps)
  have len: "4 + length p \<le> length (p32.packed (p # ps))"
    by (simp add: p32.packed_simps)
  have at: "u32_at (p32.packed (p # ps)) 0 = length p"
    using p32.packed_prefix_length [of p "[]" ps] Cons.prems by auto
  have dr: "drop (4 + length p) (p32.packed (p # ps)) = p32.packed ps"
      "subarray 4 (4 + length p) (p32.packed (p # ps)) = p"
    using drop_frame [of "p32.packed (p # ps)" "[]" p ps] len by simp_all
  show ?case
    using Cons helper_loop_frame [of "p32.packed (p # ps)" "length p" mtu] len at dr by simp
qed

text \<open>What stays in the buffer is still the beginning of the stream that is left.\<close>

lemma helper_loop_rest:
  assumes "a @ c = p32.packed ps" "frames_fit mtu ps"
  shows "\<exists>qs. fst (helper_loop mtu a) @ c = p32.packed qs \<and> frames_fit mtu qs"
  using assms
proof (induction mtu a arbitrary: ps rule: helper_loop.induct)
  case (1 mtu rb)
  show ?case
  proof (cases "4 \<le> length rb")
    case True
    then obtain p qs where p: "ps = p # qs" "u32_at rb 0 = length p" "length p \<le> mtu + 100"
      using first_frame [OF "1.prems"(1) _ "1.prems"(2)] by blast
    show ?thesis
    proof (cases "4 + length p \<le> length rb")
      case full: True
      have "drop (4 + length p) rb @ c = p32.packed qs"
        using drop_frame(1) "1.prems"(1) p(1) full by blast
      then have "\<exists>qs. fst (helper_loop mtu (drop (4 + length p) rb)) @ c = p32.packed qs \<and> frames_fit mtu qs"
        using "1.IH" [of "length p" "subarray 4 (4 + length p) rb" qs] full True p "1.prems"(2) by simp
      then show ?thesis
        using helper_loop_frame [of rb "length p" mtu] full True p by simp
    next
      case False
      then show ?thesis
        using helper_loop_wait [of rb mtu] p "1.prems" by (intro exI [of _ ps]) auto
    qed
  next
    case False
    then show ?thesis using helper_loop_wait [of rb mtu] "1.prems" by auto
  qed
qed

lemma helper_loop_stuck: "helper_loop mtu (fst (helper_loop mtu a)) = (fst (helper_loop mtu a), [])"
proof (induction mtu a rule: helper_loop.induct)
  case (1 mtu rb)
  consider "length rb < 4" | "4 \<le> length rb" "u32_at rb 0 > mtu + 100"
    | "4 \<le> length rb" "u32_at rb 0 \<le> mtu + 100" "length rb < 4 + u32_at rb 0"
    | "4 \<le> length rb" "u32_at rb 0 \<le> mtu + 100" "4 + u32_at rb 0 \<le> length rb"
    by linarith
  then show ?case
  proof cases
    case 1
    then show ?thesis using helper_loop_wait [of rb mtu] by simp
  next
    case 2
    then show ?thesis by (simp add: helper_loop.simps [of mtu rb] helper_loop.simps [of mtu "[]"])
  next
    case 3
    then show ?thesis using helper_loop_wait [of rb mtu] by simp
  next
    case 4
    then show ?thesis
      using "1.IH" helper_loop_frame [of rb "u32_at rb 0" mtu] by simp
  qed
qed

lemma on_stdouts_stream:
  assumes "tun_running t" "helper_loop (tun_mtu t) (readBuffer t) = (readBuffer t, [])"
    "readBuffer t @ concat ds = p32.packed ps" "frames_fit (tun_mtu t) ps"
  shows "on_stdouts ds t = (t\<lparr>readBuffer := []\<rparr>, map TunPacket (filter (\<lambda>p. p \<noteq> []) ps))"
  using assms
proof (induction ds arbitrary: t ps)
  case Nil
  then show ?case using helper_loop_packed [of "tun_mtu t" ps] by simp
next
  case (Cons d ds)
  obtain rb out where l: "helper_loop (tun_mtu t) (readBuffer t @ d) = (rb, out)"
    by fastforce
  define t1 where "t1 = t\<lparr>readBuffer := rb\<rparr>"
  obtain qs where qs: "rb @ concat ds = p32.packed qs" "frames_fit (tun_mtu t) qs"
    using helper_loop_rest [of "readBuffer t @ d" "concat ds" ps "tun_mtu t"] Cons.prems l by auto
  have "on_stdouts ds t1 = (t1\<lparr>readBuffer := []\<rparr>, map TunPacket (filter (\<lambda>p. p \<noteq> []) qs))"
    using Cons.prems qs helper_loop_stuck [of "tun_mtu t" "readBuffer t @ d"] l
    by (intro Cons.IH) (simp_all add: t1_def)
  moreover have "filter (\<lambda>p. p \<noteq> []) ps = out @ filter (\<lambda>p. p \<noteq> []) qs"
    using helper_loop_append [of "readBuffer t @ d" "concat ds" ps "tun_mtu t" "concat ds"]
      helper_loop_packed [of "tun_mtu t" ps] helper_loop_packed [of "tun_mtu t" qs] Cons.prems l qs by simp
  ultimately show ?case
    using Cons.prems(1) l by (simp add: on_stdout_def processHelperData_def t1_def)
qed

lemma writeViaHelper_ok:
  "length p < 4294967296 \<Longrightarrow>
   writeViaHelper p hp = (hp\<lparr>hp_stdin := hp_stdin hp @ [u32_bytes (length p) @ p]\<rparr>, [], True)"
  using write_bytes_alloc [of 0 "[]" "u32_bytes (length p)" 4]
  by (simp add: writeViaHelper_def write_int Buffer_alloc_def)

lemma tun_writes_stream:
  assumes "tun_running t" "helperProcess t = Some hp" "hp_writable hp" "\<forall>p \<in> set ps. length p < 4294967296"
  shows "helper_input (tun_writes ps t) = helper_input t @ p32.packed ps"
  using assms
proof (induction ps arbitrary: t hp)
  case Nil
  then show ?case by (simp add: p32.packed_simps)
next
  case (Cons p ps)
  define hp' where "hp' = hp\<lparr>hp_stdin := hp_stdin hp @ [u32_bytes (length p) @ p]\<rparr>"
  have w: "fst (tun_write p t) = t\<lparr>helperProcess := Some hp'\<rparr>"
    using Cons.prems by (simp add: tun_write_def writeViaHelper_ok hp'_def)
  have "helper_input (tun_writes ps (t\<lparr>helperProcess := Some hp'\<rparr>)) =
      helper_input (t\<lparr>helperProcess := Some hp'\<rparr>) @ p32.packed ps"
    using Cons.prems by (intro Cons.IH [of _ hp']) (simp_all add: hp'_def)
  then show ?case
    using Cons.prems w by (simp add: helper_input_def hp'_def p32.packed_simps)
qed

text \<open>
  (C23) The framing of the helper pipe is lossless. Packets written by one interface (running, with a
  writable helper) and read back by another, whatever chunks the pipe cuts the bytes into, come out
  unchanged, all of them and in order, and leave nothing in the read buffer; the packets must not be empty
  and not longer than the MTU of the reader plus 100 bytes.
\<close>

theorem tun_frames_roundtrip:
  assumes "tun_running t" "helperProcess t = Some hp" "hp_writable hp" "hp_stdin hp = []"
    and "tun_running u" "readBuffer u = []" "tun_mtu u + 100 < 4294967296"
    and "\<forall>p \<in> set ps. p \<noteq> [] \<and> length p \<le> tun_mtu u + 100"
    and "concat ds = helper_input (tun_writes ps t)"
  shows "on_stdouts ds u = (u, map TunPacket ps)"
proof -
  have "\<forall>p \<in> set ps. length p < 4294967296" "frames_fit (tun_mtu u) ps" "filter (\<lambda>p. p \<noteq> []) ps = ps"
    using assms(7,8) by (auto simp: filter_id_conv)
  moreover have "helper_input t = []"
    using assms by (simp add: helper_input_def)
  ultimately have "concat ds = p32.packed ps"
    using tun_writes_stream [of t hp ps] assms by simp
  moreover have "helper_loop (tun_mtu u) [] = ([], [])"
    by (simp add: helper_loop.simps)
  moreover have "u\<lparr>readBuffer := []\<rparr> = u"
    using assms(6) by (cases u) simp
  ultimately show ?thesis
    using on_stdouts_stream [of u ds ps] assms \<open>filter _ ps = ps\<close> \<open>frames_fit (tun_mtu u) ps\<close> by simp
qed

theorem tun_frames_roundtrip_witness:
  "concat [[0, 0], [0, 1, 7, 0, 0], [0, 2, 8, 9]] = helper_input (tun_writes [[7], [8, 9]] plain_tun)
   \<and> on_stdouts [[0, 0], [0, 1, 7, 0, 0], [0, 2, 8, 9]] plain_tun = (plain_tun, map TunPacket [[7], [8, 9]])"
proof -
  have "concat [[0, 0], [0, 1, 7, 0, 0], [0, 2, 8, 9]] = helper_input (tun_writes [[7], [8, 9]] plain_tun)"
    using tun_writes_stream [of plain_tun "\<lparr>hp_writable = True, hp_stdin = []\<rparr>" "[[7], [8, 9]]"]
    by (simp add: helper_input_def p32.packed_simps u32_bytes_def)
  then show ?thesis
    using tun_frames_roundtrip [of plain_tun "\<lparr>hp_writable = True, hp_stdin = []\<rparr>" plain_tun "[[7], [8, 9]]"
        "[[0, 0], [0, 1, 7, 0, 0], [0, 2, 8, 9]]"] by simp
qed

text \<open>
  Whatever the helper sends, the read buffer stays below one frame of the largest length accepted.
\<close>

lemma readBuffer_bounded: "length (fst (helper_loop mtu rb)) < mtu + 104"
proof (induction mtu rb rule: helper_loop.induct)
  case (1 mtu rb)
  then show ?case by (subst helper_loop.simps) (auto simp: Let_def split: prod.splits)
qed

lemma on_stdout_bounded:
  assumes "tun_running t"
  shows "length (readBuffer (fst (on_stdout d t))) < tun_mtu t + 104"
  using readBuffer_bounded [of "tun_mtu t" "readBuffer t @ d"] assms
  by (simp add: on_stdout_def processHelperData_def split_def)

subsection \<open>The promise of opening\<close>

lemma settle_simps [simp]:
  "op_once (settle_open r p) = op_once p" "op_named (settle_open r p) = op_named p" "op_killed (settle_open r p) = op_killed p"
  by (simp_all add: settle_open_def)

lemma settled_stays: "op_promise p \<noteq> OpenPending \<Longrightarrow> settle_open r p = p"
  by (simp add: settle_open_def)

lemma settle_settles: "r \<noteq> OpenPending \<Longrightarrow> op_promise (settle_open r p) \<noteq> OpenPending"
  by (simp add: settle_open_def)

lemma open_event_settled:
  "op_promise p \<noteq> OpenPending \<Longrightarrow> op_promise (snd (fst (open_event mode e (t, p)))) = op_promise p"
  by (cases e) (simp_all add: settled_stays Let_def)

lemma open_events_settled:
  "op_promise p \<noteq> OpenPending \<Longrightarrow> op_promise (snd (open_events mode es (t, p))) = op_promise p"
proof (induction es arbitrary: t p)
  case (Cons e es)
  obtain t' p' where e: "fst (open_event mode e (t, p)) = (t', p')" by fastforce
  then show ?case
    using open_event_settled [OF Cons.prems, of mode e t] Cons.prems Cons.IH [of p' t'] by simp
qed simp

lemma open_named_event:
  "op_named p \<Longrightarrow> op_named (snd (fst (open_event mode e (t, p))))"
  by (cases e) (simp_all add: Let_def)

lemma open_named_events: "op_named p \<Longrightarrow> op_named (snd (open_events mode es (t, p)))"
proof (induction es arbitrary: t p)
  case (Cons e es)
  obtain t' p' where e: "fst (open_event mode e (t, p)) = (t', p')" by fastforce
  then show ?case
    using open_named_event [OF Cons.prems, of mode e t] Cons.IH [of p' t'] by simp
qed simp

text \<open>
  Once the five-second timer has fired and, if the helper had printed a name, the configuration has ended,
  the promise is settled, whatever else happened before, between and after; without a name it is rejected
  or was settled before.
\<close>

lemma open_timeout_settles:
  "op_promise (snd (open_events mode (NameTimeout # es @ Configured # es') (t, p))) \<noteq> OpenPending"
proof (cases "op_named p")
  case False
  then show ?thesis
    using open_events_settled [of "settle_open (OpenRejected (timeout_text mode)) (p\<lparr>op_killed := True\<rparr>)"]
    by (simp add: settle_settles)
next
  case True
  obtain t' p' where p': "open_events mode es (t, p) = (t', p')" by fastforce
  then have "op_named p'" using open_named_events [OF True, of mode es t] by simp
  moreover have split: "open_events mode (es @ Configured # es') s =
      open_events mode (Configured # es') (open_events mode es s)" for s
    by (induction es arbitrary: s) simp_all
  ultimately show ?thesis
    using True p' open_events_settled [of "settle_open OpenResolved p'"] by (simp add: settle_settles)
qed

lemma no_data_before_open: "\<not> tun_running t \<Longrightarrow> on_stdouts ds t = (t, [])"
  by (induction ds) (simp_all add: on_stdout_def)

end
