(* ===== verification/Tun_Routing.thy ===== *)
theory Tun_Routing
  imports Tun_Device Address_Tables "HOL-Library.Multiset"
begin

text \<open>
  \<open>src/network/tun.js\<close> and \<open>src/network/linux-rp-filter.js\<close>: which addresses bypass the tunnel, the policy
  routing that is set up and undone with \<open>ip\<close> and \<open>iptables\<close>, name servers, reverse-path filters, and the
  \<open>TunManager\<close>. The machine is a parameter, a record of the calls the code makes: running a command (its
  argument vector; \<open>False\<close> when it ends with an error, which the synchronous calls throw), the output of
  a query, and files. What \<open>URL\<close> and the name server answer are arguments.
\<close>

section \<open>The machine\<close>

type_synonym arg_vector = "jsstring list"

record 'h host =
  hexec :: "arg_vector \<Rightarrow> 'h \<Rightarrow> 'h \<times> bool"
  hquery :: "arg_vector \<Rightarrow> 'h \<Rightarrow> jsstring option"
  hexists :: "jsstring \<Rightarrow> 'h \<Rightarrow> bool"
  hread :: "jsstring \<Rightarrow> 'h \<Rightarrow> jsstring option"
  hwrite :: "jsstring \<Rightarrow> jsstring \<Rightarrow> 'h \<Rightarrow> 'h \<times> bool"

text \<open>The commands of the code.\<close>

datatype cmd =
    RuleDel nat
  | RuleAddTo jsstring nat nat
  | RuleAddMark nat jsstring nat
  | RouteFlush nat
  | RouteFlushCache
  | Route jsstring jsstring "jsstring option" "jsstring option" "nat option" "jsstring option"
  | MangleNew jsstring
  | MangleFlush jsstring
  | MangleMark jsstring jsstring jsstring
  | MangleCheck jsstring
  | MangleInsert jsstring
  | MangleDelete jsstring
  | MangleDrop jsstring
  | AddrAdd jsstring jsstring
  | LinkMtu jsstring nat
  | LinkUp jsstring
  | LinkDelete jsstring
  | Cp jsstring jsstring
  | Rm jsstring
  | Ifconfig jsstring jsstring jsstring nat
  | RouteAddNet jsstring jsstring

definition opt_arg :: "string \<Rightarrow> jsstring option \<Rightarrow> jsstring list" where
  "opt_arg w v = (case v of None \<Rightarrow> [] | Some v \<Rightarrow> [js w, v])"

abbreviation words :: "string list \<Rightarrow> arg_vector" where
  "words ws \<equiv> map js ws"

fun argv :: "cmd \<Rightarrow> arg_vector" where
  "argv (RuleDel pref) = words [''ip'', ''rule'', ''del'', ''pref''] @ [dec pref]"
| "argv (RuleAddTo ip pref tbl) =
     words [''ip'', ''rule'', ''add'', ''to''] @ [ip @ js ''/32'', js ''pref'', dec pref, js ''lookup'', dec tbl]"
| "argv (RuleAddMark pref mark tbl) =
     words [''ip'', ''rule'', ''add'', ''pref''] @ [dec pref, js ''fwmark'', mark, js ''lookup'', dec tbl]"
| "argv (RouteFlush tbl) = words [''ip'', ''route'', ''flush'', ''table''] @ [dec tbl]"
| "argv RouteFlushCache = words [''ip'', ''route'', ''flush'', ''cache'']"
| "argv (Route action dst via dev tbl src) =
     words [''ip'', ''route''] @ [action, dst] @ opt_arg ''via'' via @ opt_arg ''dev'' dev
     @ opt_arg ''table'' (map_option dec tbl) @ opt_arg ''src'' src"
| "argv (MangleNew ch) = words [''iptables'', ''-t'', ''mangle'', ''-N''] @ [ch]"
| "argv (MangleFlush ch) = words [''iptables'', ''-t'', ''mangle'', ''-F''] @ [ch]"
| "argv (MangleMark ch port mark) =
     words [''iptables'', ''-t'', ''mangle'', ''-A''] @ [ch] @ words [''-p'', ''tcp'', ''-m'', ''tcp''] @ [port]
     @ words [''22'', ''-m'', ''conntrack'', ''--ctstate'', ''NEW,ESTABLISHED,RELATED'', ''-j'', ''MARK'', ''--set-mark'']
     @ [mark]"
| "argv (MangleCheck ch) = words [''iptables'', ''-t'', ''mangle'', ''-C'', ''OUTPUT'', ''-j''] @ [ch]"
| "argv (MangleInsert ch) = words [''iptables'', ''-t'', ''mangle'', ''-I'', ''OUTPUT'', ''1'', ''-j''] @ [ch]"
| "argv (MangleDelete ch) = words [''iptables'', ''-t'', ''mangle'', ''-D'', ''OUTPUT'', ''-j''] @ [ch]"
| "argv (MangleDrop ch) = words [''iptables'', ''-t'', ''mangle'', ''-X''] @ [ch]"
| "argv (AddrAdd ip dev) = words [''ip'', ''addr'', ''add''] @ [ip @ js ''/16'', js ''dev'', dev]"
| "argv (LinkMtu dev mtu) = words [''ip'', ''link'', ''set'', ''dev''] @ [dev, js ''mtu'', dec mtu]"
| "argv (LinkUp dev) = words [''ip'', ''link'', ''set'', ''dev''] @ [dev, js ''up'']"
| "argv (LinkDelete dev) = words [''ip'', ''link'', ''delete''] @ [dev]"
| "argv (Cp a b) = [js ''cp'', a, b]"
| "argv (Rm a) = [js ''rm'', a]"
| "argv (Ifconfig dev ip netmask mtu) =
     [js ''ifconfig'', dev, ip, ip, js ''netmask'', netmask, js ''mtu'', dec mtu, js ''up'']"
| "argv (RouteAddNet net dev) = words [''route'', ''add'', ''-net''] @ [net, js ''-interface'', dev]"

definition sys :: "'h host \<Rightarrow> cmd \<Rightarrow> 'h \<Rightarrow> 'h \<times> bool" where
  "sys H c h = hexec H (argv c) h"

text \<open>A command whose failure is caught and ignored.\<close>

definition try_sys :: "'h host \<Rightarrow> cmd \<Rightarrow> 'h \<Rightarrow> 'h" where
  "try_sys H c h = fst (sys H c h)"

fun flushIpRulePref :: "'h host \<Rightarrow> nat \<Rightarrow> nat \<Rightarrow> 'h \<Rightarrow> 'h" where
  "flushIpRulePref H pref 0 h = h"
| "flushIpRulePref H pref (Suc maxAttempts) h =
     (case sys H (RuleDel pref) h of
        (h, True) \<Rightarrow> flushIpRulePref H pref maxAttempts h
      | (h, False) \<Rightarrow> h)"

section \<open>Addresses that bypass the tunnel\<close>

definition digit :: "nat \<Rightarrow> bool" where
  "digit c \<longleftrightarrow> 48 \<le> c \<and> c \<le> 57"

definition word_char :: "nat \<Rightarrow> bool" where
  "word_char c \<longleftrightarrow> digit c \<or> 65 \<le> c \<and> c \<le> 90 \<or> 97 \<le> c \<and> c \<le> 122 \<or> c = 95"

text \<open>\<open>IPV4_RE\<close>: four groups of one to three digits, separated by dots.\<close>

definition IPV4_RE :: "jsstring \<Rightarrow> bool" where
  "IPV4_RE s \<longleftrightarrow>
     (let ps = split_on 46 s in length ps = 4 \<and> list_all (\<lambda>p. 1 \<le> length p \<and> length p \<le> 3 \<and> list_all digit p) ps)"

definition isIpv4UplinkBypassSafe :: "jsstring \<Rightarrow> bool" where
  "isIpv4UplinkBypassSafe ip =
     (if ip = [] \<or> \<not> IPV4_RE ip then False
      else let a = from_radix 10 (split_on 46 ip ! 0); b = from_radix 10 (split_on 46 ip ! 1) in
        if a = 127 then False
        else if a = 169 \<and> b = 254 then ip = js ''169.254.169.254''
        else if a = 0 \<and> b = 0 then False
        else True)"

text \<open>Case-insensitive comparison of the scheme of a URL.\<close>

definition lower :: "jsstring \<Rightarrow> jsstring" where
  "lower s = map (\<lambda>c. if 65 \<le> c \<and> c \<le> 90 then c + 32 else c) s"

definition web_scheme :: "jsstring \<Rightarrow> bool" where
  "web_scheme t \<longleftrightarrow> list_ex (\<lambda>w. starts_with (js w) (lower t)) [''ws://'', ''wss://'', ''http://'', ''https://'']"

definition ice_host :: "jsstring \<Rightarrow> jsstring option" where
  "ice_host t =
     (case find (\<lambda>w. starts_with (js w) (lower t)) [''turn:'', ''turns:'', ''stun:'', ''stuns:''] of
        None \<Rightarrow> None
      | Some w \<Rightarrow>
          or_null (takeWhile (\<lambda>c. c \<noteq> 58 \<and> c \<noteq> 91 \<and> \<not> js_space c) (drop (length w) t)))"

text \<open>\<open>url\<close> is the host name \<open>new URL\<close> finds, \<open>None\<close> when it throws.\<close>

definition hostnameFromEnvUrlLike :: "(jsstring \<Rightarrow> jsstring option) \<Rightarrow> jsstring \<Rightarrow> jsstring option" where
  "hostnameFromEnvUrlLike url s =
     (if s = [] then None
      else let t = js_trim s in
        if web_scheme t then (case url t of None \<Rightarrow> None | Some h \<Rightarrow> or_null h)
        else map_option js_trim (ice_host t))"

definition addUrlLike :: "(jsstring \<Rightarrow> jsstring option) \<Rightarrow> jsstring \<Rightarrow> jsstring list \<Rightarrow> jsstring list" where
  "addUrlLike url s hosts =
     (if s = [] then hosts
      else let t = js_trim s in
        case (if web_scheme t then (case url t of None \<Rightarrow> None | Some h \<Rightarrow> or_null h) else ice_host t) of
          None \<Rightarrow> hosts
        | Some h \<Rightarrow> set_add (js_trim h) hosts)"

definition collectInfraHostsFromMeshConfig :: "(jsstring \<Rightarrow> jsstring option) \<Rightarrow> mesh_vpn_config option \<Rightarrow> jsstring list" where
  "collectInfraHostsFromMeshConfig url config =
     (case config of None \<Rightarrow> []
      | Some c \<Rightarrow>
          fold (addUrlLike url)
            ((case mc_signallingServer c of None \<Rightarrow> [] | Some s \<Rightarrow> [s])
             @ (case mc_dataServer c of None \<Rightarrow> [] | Some s \<Rightarrow> [s])
             @ concat (mc_turnServers c) @ concat (mc_iceServers c)) [])"

text \<open>The first match of a pattern anywhere in a string.\<close>

fun match_in :: "(jsstring \<Rightarrow> 'a option) \<Rightarrow> jsstring \<Rightarrow> 'a option" where
  "match_in f [] = f []"
| "match_in f (c # s) = (case f (c # s) of Some x \<Rightarrow> Some x | None \<Rightarrow> match_in f s)"

text \<open>Four runs of digits with dots between them, at the beginning of the string.\<close>

fun dotted_prefix :: "nat \<Rightarrow> jsstring \<Rightarrow> jsstring option" where
  "dotted_prefix 0 s = or_null (takeWhile digit s)"
| "dotted_prefix (Suc n) s =
     (let ds = takeWhile digit s in
      if ds = [] then None
      else case drop (length ds) s of
          c # rest \<Rightarrow>
            if c = 46 then map_option (\<lambda>r. ds @ 46 # r) (dotted_prefix n rest) else None
        | [] \<Rightarrow> None)"

definition ip_in_text :: "jsstring \<Rightarrow> jsstring option" where
  "ip_in_text s = match_in (dotted_prefix 3) s"

text \<open>Entries of \<open>excludeFromVPN\<close>: addresses and host names.\<close>

definition addExcluded :: "jsstring \<Rightarrow> jsstring list \<times> jsstring list \<Rightarrow> jsstring list \<times> jsstring list" where
  "addExcluded raw = (\<lambda>(hosts, ips).
     let entry = js_trim raw in
     if entry = [] then (hosts, ips)
     else if IPV4_RE entry then (hosts, set_add entry ips)
     else (set_add entry hosts, ips))"

definition addEnvServer :: "(jsstring \<Rightarrow> jsstring option) \<Rightarrow> jsstring option \<Rightarrow> jsstring list \<times> jsstring list \<Rightarrow> jsstring list \<times> jsstring list" where
  "addEnvServer url env = (\<lambda>(hosts, ips).
     case env of None \<Rightarrow> (hosts, ips)
     | Some e \<Rightarrow>
         if e = [] then (hosts, ips)
         else let t = js_trim e in
           case ip_in_text t of Some ip \<Rightarrow> (hosts, set_add ip ips)
           | None \<Rightarrow>
               (case hostnameFromEnvUrlLike url t of None \<Rightarrow> (hosts, ips)
                | Some h \<Rightarrow> if IPV4_RE h then (hosts, set_add h ips) else (set_add h hosts, ips)))"

text \<open>\<open>resolve4\<close> and \<open>lookup\<close> are the answers of the name server, \<open>None\<close> when the call rejects.\<close>

definition resolve_infra :: "(jsstring \<Rightarrow> jsstring list option) \<Rightarrow> (jsstring \<Rightarrow> jsstring option) \<Rightarrow> jsstring \<Rightarrow> jsstring list \<Rightarrow> jsstring list" where
  "resolve_infra resolve4 lookup h ips =
     (if h = [] then ips
      else if IPV4_RE h then set_add h ips
      else if h = js ''localhost'' then set_add (js ''127.0.0.1'') ips
      else case resolve4 h of
          Some addrs \<Rightarrow> fold set_add (filter IPV4_RE addrs) ips
        | None \<Rightarrow> (case lookup h of Some a \<Rightarrow> set_add a ips | None \<Rightarrow> ips))"

definition collectInfraIPv4FromMeshConfig :: "(jsstring \<Rightarrow> jsstring option) \<Rightarrow> (jsstring \<Rightarrow> jsstring list option) \<Rightarrow> (jsstring \<Rightarrow> jsstring option) \<Rightarrow> mesh_vpn_config option \<Rightarrow> jsstring list \<Rightarrow> jsstring option \<Rightarrow> jsstring list" where
  "collectInfraIPv4FromMeshConfig url resolve4 lookup config excludeFromVPN env =
     (case addEnvServer url env (fold addExcluded excludeFromVPN (collectInfraHostsFromMeshConfig url config, [])) of
        (hosts, ips) \<Rightarrow> fold (resolve_infra resolve4 lookup) hosts ips)"

section \<open>The uplink\<close>

record uplink =
  up_gateway :: "jsstring option"
  up_iface :: jsstring

text \<open>\<open>\s+\<close>, a word, \<open>\s+\<close>, \<open>\S+\<close>: what follows the word, if anything matches.\<close>

definition spaces :: "jsstring \<Rightarrow> jsstring option" where
  "spaces s = (if takeWhile js_space s = [] then None else Some (dropWhile js_space s))"

definition nonspace :: "jsstring \<Rightarrow> jsstring option" where
  "nonspace s = or_null (takeWhile (\<lambda>c. \<not> js_space c) s)"

definition dev_name :: "jsstring \<Rightarrow> jsstring option" where
  "dev_name s =
     (case spaces s of
        None \<Rightarrow> None
      | Some s1 \<Rightarrow>
          if starts_with (js ''dev'') s1 then Option.bind (spaces (drop 3 s1)) nonspace else None)"

definition match_via :: "jsstring \<Rightarrow> uplink option" where
  "match_via s =
     (if starts_with (js ''default via '') s then
        (case nonspace (drop 12 s) of None \<Rightarrow> None
         | Some gw \<Rightarrow>
             map_option (\<lambda>dev. \<lparr>up_gateway = Some gw, up_iface = dev\<rparr>) (dev_name (drop (12 + length gw) s)))
      else None)"

definition match_dev :: "jsstring \<Rightarrow> uplink option" where
  "match_dev s =
     (if starts_with (js ''default'') s
      then map_option (\<lambda>dev. \<lparr>up_gateway = None, up_iface = dev\<rparr>) (dev_name (drop 7 s)) else None)"

definition parseDefaultRoute :: "jsstring \<Rightarrow> uplink option" where
  "parseDefaultRoute routeOutput =
     (case filter (\<lambda>r. r \<noteq> []) (split_on 10 (js_trim routeOutput)) of
        [] \<Rightarrow> None
      | line # _ \<Rightarrow> (case match_in match_via line of Some u \<Rightarrow> Some u | None \<Rightarrow> match_in match_dev line))"

definition parseLinuxDefaultUplink :: "'h host \<Rightarrow> 'h \<Rightarrow> uplink option res" where
  "parseLinuxDefaultUplink H h =
     (case hquery H (words [''ip'', ''route'', ''show'', ''default'']) h of
        None \<Rightarrow> Inl (Err ''Command failed'')
      | Some out \<Rightarrow> Inr (parseDefaultRoute out))"

definition text_includes :: "jsstring \<Rightarrow> jsstring \<Rightarrow> bool" where
  "text_includes w s \<longleftrightarrow> match_in (\<lambda>t. if starts_with w t then Some () else None) s \<noteq> None"

text \<open>\<open>\d{1,3}(\.\d{1,3}){3}\b\<close>\<close>

fun dotted_octets :: "nat \<Rightarrow> jsstring \<Rightarrow> jsstring option" where
  "dotted_octets 0 s =
     (let ds = takeWhile digit s in
      if 1 \<le> length ds \<and> length ds \<le> 3 \<and> (case drop (length ds) s of [] \<Rightarrow> True | c # _ \<Rightarrow> \<not> word_char c)
      then Some ds else None)"
| "dotted_octets (Suc n) s =
     (let ds = takeWhile digit s in
      if 1 \<le> length ds \<and> length ds \<le> 3 then
        (case drop (length ds) s of
           c # rest \<Rightarrow> if c = 46 then map_option (\<lambda>r. ds @ 46 # r) (dotted_octets n rest) else None
         | [] \<Rightarrow> None)
      else None)"

fun src_search :: "bool \<Rightarrow> jsstring \<Rightarrow> jsstring option" where
  "src_search prev_word [] = None"
| "src_search prev_word (c # s) =
     (case (if \<not> prev_word \<and> starts_with (js ''src'') (c # s)
            then Option.bind (spaces (drop 3 (c # s))) (dotted_octets 3) else None) of
        Some x \<Rightarrow> Some x
      | None \<Rightarrow> src_search (word_char c) s)"

definition parseLinuxPreferredUplinkSrc :: "'h host \<Rightarrow> jsstring \<Rightarrow> 'h \<Rightarrow> jsstring option" where
  "parseLinuxPreferredUplinkSrc H iface h =
     (if iface = [] then None
      else case hquery H (words [''ip'', ''-4'', ''route'', ''get'', ''8.8.8.8'']) h of
          None \<Rightarrow> None
        | Some out \<Rightarrow> if \<not> text_includes (js ''dev '' @ iface) out then None else src_search False out)"

section \<open>Reverse-path filters\<close>

definition confPath :: "jsstring \<Rightarrow> jsstring" where
  "confPath name = js ''/proc/sys/net/ipv4/conf/'' @ name @ js ''/rp_filter''"

definition readRpFilter :: "'h host \<Rightarrow> jsstring \<Rightarrow> 'h \<Rightarrow> jsstring option" where
  "readRpFilter H name h =
     (if hexists H (confPath name) h then map_option js_trim (hread H (confPath name) h) else None)"

definition writeRpFilter :: "'h host \<Rightarrow> jsstring \<Rightarrow> jsstring \<Rightarrow> 'h \<Rightarrow> 'h \<times> bool" where
  "writeRpFilter H name val h = hwrite H (confPath name) (js_trim val @ [10]) h"

fun loosen :: "'h host \<Rightarrow> jsstring list \<Rightarrow> (jsstring \<times> jsstring) list \<Rightarrow> 'h \<Rightarrow> 'h \<times> (jsstring \<times> jsstring) list" where
  "loosen H [] backup h = (h, backup)"
| "loosen H (n # ns) backup h =
     (if \<not> hexists H (confPath n) h then loosen H ns backup h
      else case readRpFilter H n h of
          None \<Rightarrow> loosen H ns backup h
        | Some cur \<Rightarrow>
            (case writeRpFilter H n (js ''2'') h of
               (h, ok) \<Rightarrow> loosen H ns (if ok then map_put n cur backup else backup) h))"

definition rp_names :: "jsstring list \<Rightarrow> jsstring list" where
  "rp_names ifaceNames = js ''all'' # js ''default'' # fold set_add (filter (\<lambda>n. n \<noteq> []) ifaceNames) []"

definition applyLooseRpFilterForVpn :: "'h host \<Rightarrow> jsstring list \<Rightarrow> 'h \<Rightarrow> 'h \<times> (jsstring \<times> jsstring) list option" where
  "applyLooseRpFilterForVpn H ifaceNames h =
     (case loosen H (rp_names ifaceNames) [] h of
        (h, backup) \<Rightarrow> (h, if backup = [] then None else Some backup))"

definition restore_one :: "'h host \<Rightarrow> jsstring \<times> jsstring \<Rightarrow> 'h \<Rightarrow> 'h" where
  "restore_one H = (\<lambda>(n, v) h. if v \<noteq> [] then fst (writeRpFilter H n v h) else h)"

definition restoreRpFilterBackup :: "'h host \<Rightarrow> (jsstring \<times> jsstring) list option \<Rightarrow> 'h \<Rightarrow> 'h" where
  "restoreRpFilterBackup H backup h =
     (case backup of None \<Rightarrow> h | Some b \<Rightarrow> fold (restore_one H) b h)"

section \<open>Policy routing\<close>

definition LINUX_RT_TABLE_MESHVPN :: nat where "LINUX_RT_TABLE_MESHVPN = 100"
definition LINUX_IP_RULE_PREF_FWMARK_MAIN :: nat where "LINUX_IP_RULE_PREF_FWMARK_MAIN = 100"
definition LINUX_IP_RULE_PREF_LOOKUP_MESHVPN_LEGACY :: nat where "LINUX_IP_RULE_PREF_LOOKUP_MESHVPN_LEGACY = 101"
definition LINUX_IP_RULE_PREF_INFRA_TO :: nat where "LINUX_IP_RULE_PREF_INFRA_TO = 50"
definition IPTABLES_CHAIN_MESHVPN :: jsstring where "IPTABLES_CHAIN_MESHVPN = js ''MESHVPN-BYPASS''"

lemmas linux_consts = LINUX_RT_TABLE_MESHVPN_def LINUX_IP_RULE_PREF_FWMARK_MAIN_def
  LINUX_IP_RULE_PREF_LOOKUP_MESHVPN_LEGACY_def LINUX_IP_RULE_PREF_INFRA_TO_def

text \<open>
  The set-up is a script: commands whose failure is caught on the spot (\<open>May\<close>), commands whose failure
  ends the set-up (\<open>Must\<close>), the flushing of all rules of one preference, and the insertion of a jump unless
  the check before it succeeds.
\<close>

datatype script_step = Must cmd | May cmd | FlushPref nat nat | Unless cmd cmd

fun run_step :: "'h host \<Rightarrow> script_step \<Rightarrow> 'h \<Rightarrow> 'h \<times> bool" where
  "run_step H (Must c) h = sys H c h"
| "run_step H (May c) h = (try_sys H c h, True)"
| "run_step H (FlushPref pref n) h = (flushIpRulePref H pref n h, True)"
| "run_step H (Unless c d) h = (case sys H c h of (h, True) \<Rightarrow> (h, True) | (h, False) \<Rightarrow> sys H d h)"

fun run_script :: "'h host \<Rightarrow> script_step list \<Rightarrow> 'h \<Rightarrow> 'h \<times> bool" where
  "run_script H [] h = (h, True)"
| "run_script H (s # ss) h =
     (case run_step H s h of (h, True) \<Rightarrow> run_script H ss h | (h, False) \<Rightarrow> (h, False))"

definition ipRoute :: "string \<Rightarrow> jsstring \<Rightarrow> uplink \<Rightarrow> nat option \<Rightarrow> jsstring option \<Rightarrow> cmd" where
  "ipRoute action ip u tbl src =
     Route (js action) (ip @ js ''/32'') (up_gateway u) (Some (up_iface u)) tbl src"

definition cloudImds :: jsstring where "cloudImds = js ''169.254.169.254''"

definition excludeSet :: "jsstring list \<Rightarrow> jsstring list" where
  "excludeSet infraIpv4 =
     (let s = fold (\<lambda>ip s. if \<not> isIpv4UplinkBypassSafe ip then s else set_add ip s) infraIpv4 [] in
      if isIpv4UplinkBypassSafe cloudImds then set_add cloudImds s else s)"

definition name_text :: "tun_if \<Rightarrow> jsstring" where
  "name_text t = (case tun_name t of None \<Rightarrow> js ''null'' | Some n \<Rightarrow> n)"

definition tun_route :: "string \<Rightarrow> jsstring \<Rightarrow> tun_if \<Rightarrow> cmd" where
  "tun_route action dst t = Route (js action) dst None (Some (name_text t)) None None"

definition flush_steps :: "script_step list" where
  "flush_steps =
     [FlushPref LINUX_IP_RULE_PREF_LOOKUP_MESHVPN_LEGACY 6,
      FlushPref LINUX_IP_RULE_PREF_FWMARK_MAIN 6,
      FlushPref LINUX_IP_RULE_PREF_INFRA_TO 32]"

definition uplink_steps :: "uplink \<Rightarrow> jsstring option \<Rightarrow> jsstring list \<Rightarrow> script_step list" where
  "uplink_steps u prefsrc exclude =
     (let tbl = LINUX_RT_TABLE_MESHVPN in
      map (\<lambda>ip. May (ipRoute ''add'' ip u (Some tbl) prefsrc)) exclude
      @ [Must (Route (js ''replace'') (js ''default'') (up_gateway u) (Some (up_iface u)) (Some tbl) None)]
      @ map (\<lambda>ip. May (ipRoute ''replace'' ip u None prefsrc)) exclude)"

definition infra_steps :: "jsstring list \<Rightarrow> script_step list" where
  "infra_steps exclude = map (\<lambda>ip. May (RuleAddTo ip LINUX_IP_RULE_PREF_INFRA_TO LINUX_RT_TABLE_MESHVPN)) exclude"

definition tunnel_steps :: "tun_if \<Rightarrow> jsstring \<Rightarrow> bool \<Rightarrow> script_step list" where
  "tunnel_steps t networkPrefix applySplitDefault =
     (if linuxSplitDefault t \<and> applySplitDefault
      then [Must (tun_route ''replace'' (js ''0.0.0.0/1'') t), Must (tun_route ''replace'' (js ''128.0.0.0/1'') t)]
      else [])
     @ [Must (tun_route ''replace'' (networkPrefix @ js ''.0.0/16'') t)]"

definition mark_steps :: "bool \<Rightarrow> script_step list" where
  "mark_steps flushCache =
     (let ch = IPTABLES_CHAIN_MESHVPN; mk = js ''0x1'' in
      [May (MangleNew ch),
       Must (MangleFlush ch),
       Must (MangleMark ch (js ''--sport'') mk),
       Must (MangleMark ch (js ''--dport'') mk),
       Unless (MangleCheck ch) (MangleInsert ch)]
      @ (if flushCache then [May RouteFlushCache] else []))"

definition setup_script :: "tun_if \<Rightarrow> uplink \<Rightarrow> jsstring option \<Rightarrow> jsstring list \<Rightarrow> jsstring \<Rightarrow> bool \<Rightarrow> bool \<Rightarrow> script_step list" where
  "setup_script t u prefsrc exclude networkPrefix applySplitDefault flushCache =
     flush_steps
     @ [May (RouteFlush LINUX_RT_TABLE_MESHVPN)]
     @ uplink_steps u prefsrc exclude
     @ infra_steps exclude
     @ tunnel_steps t networkPrefix applySplitDefault
     @ [Must (RuleAddMark LINUX_IP_RULE_PREF_FWMARK_MAIN (js ''0x1'') LINUX_RT_TABLE_MESHVPN)]
     @ mark_steps flushCache"

text \<open>
  \<open>_setupLinuxPolicyRouting\<close>. Reading the default route is outside the \<open>try\<close> block, so its failure is
  thrown; \<open>flushCache\<close> is \<open>None\<close> when the option is not given.
\<close>

definition setupLinuxPolicyRouting :: "'h host \<Rightarrow> jsstring list \<Rightarrow> jsstring \<Rightarrow> bool \<Rightarrow> bool option \<Rightarrow> tun_if \<Rightarrow> 'h \<Rightarrow> (tun_if \<times> 'h \<times> bool) res" where
  "setupLinuxPolicyRouting H infraIpv4 networkPrefix applySplitDefault flushCache t h =
     ebind (parseLinuxDefaultUplink H h) (\<lambda>up.
       case up of
         None \<Rightarrow> Inr (t, h, False)
       | Some u \<Rightarrow>
           let prefsrc = parseLinuxPreferredUplinkSrc H (up_iface u) h;
               exclude = excludeSet infraIpv4;
               flush = (case flushCache of None \<Rightarrow> linuxFlushRouteCache t | Some b \<Rightarrow> b);
               t = t\<lparr>linuxMainInfraRoutes := Some exclude\<rparr> in
           case run_script H (setup_script t u prefsrc exclude networkPrefix applySplitDefault flush) h of
             (h, False) \<Rightarrow> Inr (t, h, False)
           | (h, True) \<Rightarrow>
               (case applyLooseRpFilterForVpn H (up_iface u # (case tun_name t of None \<Rightarrow> [] | Some n \<Rightarrow> [n])) h of
                  (h, backup) \<Rightarrow>
                    Inr (t\<lparr>linuxRpFilterBackup := backup, linuxPolicyRoutingActive := True,
                           diagInfraSnapshot := exclude\<rparr>, h, True)))"

definition del_infra_route :: "'h host \<Rightarrow> jsstring \<Rightarrow> 'h \<Rightarrow> 'h" where
  "del_infra_route H ip h =
     (if ip \<noteq> [] \<and> IPV4_RE ip then try_sys H (Route (js ''del'') (ip @ js ''/32'') None None None None) h else h)"

definition restoreLinuxPolicyRouting :: "'h host \<Rightarrow> tun_if \<Rightarrow> 'h \<Rightarrow> tun_if \<times> 'h" where
  "restoreLinuxPolicyRouting H t h =
     (if \<not> linuxPolicyRoutingActive t then (t, h)
      else let ch = IPTABLES_CHAIN_MESHVPN;
        h = restoreRpFilterBackup H (linuxRpFilterBackup t) h;
        h = try_sys H (MangleDelete ch) h;
        h = try_sys H (MangleFlush ch) h;
        h = try_sys H (MangleDrop ch) h;
        h = flushIpRulePref H LINUX_IP_RULE_PREF_LOOKUP_MESHVPN_LEGACY 6 h;
        h = flushIpRulePref H LINUX_IP_RULE_PREF_FWMARK_MAIN 6 h;
        h = flushIpRulePref H LINUX_IP_RULE_PREF_INFRA_TO 32 h;
        h = (case tun_name t of None \<Rightarrow> h
             | Some n \<Rightarrow> if n = [] then h else
                 try_sys H (tun_route ''del'' (js ''128.0.0.0/1'') t) (try_sys H (tun_route ''del'' (js ''0.0.0.0/1'') t) h));
        h = (case linuxMainInfraRoutes t of None \<Rightarrow> h | Some ips \<Rightarrow> fold (del_infra_route H) ips h);
        h = try_sys H (RouteFlush LINUX_RT_TABLE_MESHVPN) h in
      (t\<lparr>infraAppliedEarly := False, linuxPolicyRoutingActive := False, linuxRpFilterBackup := None,
         linuxMainInfraRoutes := None\<rparr>, h))"

section \<open>Name servers\<close>

definition dnsServers :: "jsstring list" where
  "dnsServers = words [''8.8.8.8'', ''8.8.4.4'', ''1.1.1.1'', ''1.0.0.1'']"

definition resolv_conf :: jsstring where "resolv_conf = js ''/etc/resolv.conf''"
definition resolv_backup :: jsstring where "resolv_backup = js ''/etc/resolv.conf.vpn-backup''"

definition resolv_text :: jsstring where
  "resolv_text = concat (map (\<lambda>d. js ''nameserver '' @ d @ [10]) dnsServers)"

definition removeDnsRoutesFromMain :: "'h host \<Rightarrow> tun_if \<Rightarrow> 'h \<Rightarrow> 'h" where
  "removeDnsRoutesFromMain H t h =
     (case tun_name t of None \<Rightarrow> h
      | Some n \<Rightarrow> if n = [] then h
          else fold (\<lambda>d. try_sys H (tun_route ''del'' (d @ js ''/32'') t)) dnsServers h)"

definition configureDNS :: "'h host \<Rightarrow> nat option \<Rightarrow> tun_if \<Rightarrow> 'h \<Rightarrow> 'h" where
  "configureDNS H linuxRouteTable t h =
     (let h = fold (\<lambda>d. try_sys H (Route (js ''add'') (d @ js ''/32'') None (Some (name_text t)) linuxRouteTable None)) dnsServers h;
          h = (if hexists H resolv_conf h \<and> \<not> hexists H resolv_backup h
               then try_sys H (Cp resolv_conf resolv_backup) h else h) in
      fst (hwrite H resolv_conf resolv_text h))"

definition restoreDNS :: "'h host \<Rightarrow> 'h \<Rightarrow> 'h" where
  "restoreDNS H h =
     (if hexists H resolv_backup h then
        (case sys H (Cp resolv_backup resolv_conf) h of
           (h, False) \<Rightarrow> h
         | (h, True) \<Rightarrow> try_sys H (Rm resolv_backup) h)
      else h)"

section \<open>Configuring the interface\<close>

definition net_prefix :: "jsstring \<Rightarrow> jsstring" where
  "net_prefix ip =
     (case split_on 46 ip of a # b # _ \<Rightarrow> a @ [46] @ b | [a] \<Rightarrow> a | [] \<Rightarrow> [])"

text \<open>A command outside every \<open>try\<close> block.\<close>

definition sys_throw :: "'h host \<Rightarrow> cmd \<Rightarrow> 'h \<Rightarrow> 'h res" where
  "sys_throw H c h = (case sys H c h of (h, ok) \<Rightarrow> if ok then Inr h else Inl (Err ''Command failed''))"

text \<open>The part of \<open>_applyEarlyLinuxRouting\<close> after the addresses have been collected.\<close>

definition applyEarlyLinuxRouting :: "'h host \<Rightarrow> jsstring list \<Rightarrow> tun_if \<Rightarrow> 'h \<Rightarrow> (tun_if \<times> 'h) res" where
  "applyEarlyLinuxRouting H infraIpv4 t h =
     (let vnet = (case meshVpnConfig t of None \<Rightarrow> None | Some c \<Rightarrow> mc_virtualNetwork c);
          vnet = (case vnet of None \<Rightarrow> js ''10.200.0.0/16'' | Some v \<Rightarrow> if v = [] then js ''10.200.0.0/16'' else v);
          networkPrefix = net_prefix (hd (split_on 47 vnet)) in
      ebind (setupLinuxPolicyRouting H infraIpv4 networkPrefix False (Some False) t h) (\<lambda>(t, h, ok).
        let t = t\<lparr>deferredInfraIpv4 := Some infraIpv4, deferredNetworkPrefix := Some networkPrefix,
                  policyRoutingDeferred := True\<rparr> in
        Inr (if ok \<and> linuxPolicyRoutingActive t
             then t\<lparr>infraAppliedEarly := True, splitDefaultOnlyDeferred := True\<rparr> else t, h)))"

text \<open>The two split-default routes inside their own \<open>try\<close> block.\<close>

definition split_default :: "'h host \<Rightarrow> tun_if \<Rightarrow> 'h \<Rightarrow> 'h \<times> bool" where
  "split_default H t h =
     (case sys H (tun_route ''replace'' (js ''0.0.0.0/1'') t) h of
        (h, False) \<Rightarrow> (h, False)
      | (h, True) \<Rightarrow> sys H (tun_route ''replace'' (js ''128.0.0.0/1'') t) h)"

definition assignIpAndBringUp :: "'h host \<Rightarrow> jsstring \<Rightarrow> tun_if \<Rightarrow> 'h \<Rightarrow> (tun_if \<times> 'h \<times> tun_event list) res" where
  "assignIpAndBringUp H virtualIp t h =
     (let t = t\<lparr>tun_virtualIp := Some virtualIp\<rparr>;
          h = try_sys H (AddrAdd virtualIp (name_text t)) h in
      ebind (sys_throw H (LinkMtu (name_text t) (tun_mtu t)) h) (\<lambda>h.
      ebind (sys_throw H (LinkUp (name_text t)) h) (\<lambda>h.
        case (if linuxSplitDefault t \<and> splitDefaultOnlyDeferred t then
                (case split_default H t h of
                   (h, ok) \<Rightarrow> (if ok then t\<lparr>splitDefaultOnlyDeferred := False\<rparr> else t, h))
              else (t, h)) of
          (t, h) \<Rightarrow> let t = t\<lparr>tun_running := True\<rparr> in Inr (t, h, [TunOpen (tun_name t)]))))"

definition useLinuxPolicyRouting :: "tun_if \<Rightarrow> bool" where
  "useLinuxPolicyRouting t \<longleftrightarrow> tun_platform t = Linux \<and> \<not> tun_isExit t \<and> defaultRouteEnabled t"

definition mesh_route :: "string \<Rightarrow> tun_if \<Rightarrow> cmd" where
  "mesh_route action t =
     tun_route action ((case tun_virtualIp t of None \<Rightarrow> [] | Some ip \<Rightarrow> net_prefix ip) @ js ''.0.0/16'') t"

text \<open>
  \<open>_configureLinuxTunAsync\<close> before it awaits the addresses (a missing virtual address makes \<open>split\<close> throw
  after the interface is up) and after.
\<close>

definition configureLinuxTun_start :: "'h host \<Rightarrow> tun_if \<Rightarrow> 'h \<Rightarrow> 'h res" where
  "configureLinuxTun_start H t h =
     (let h = try_sys H (AddrAdd (case tun_virtualIp t of None \<Rightarrow> js ''null'' | Some ip \<Rightarrow> ip) (name_text t)) h in
      ebind (sys_throw H (LinkMtu (name_text t) (tun_mtu t)) h) (\<lambda>h.
      ebind (sys_throw H (LinkUp (name_text t)) h) (\<lambda>h.
        case tun_virtualIp t of
          None \<Rightarrow> Inl TypeError
        | Some ip \<Rightarrow> Inr (if \<not> useLinuxPolicyRouting t then try_sys H (mesh_route ''add'' t) h else h))))"

definition configureLinuxTun_finish :: "'h host \<Rightarrow> jsstring list \<Rightarrow> tun_if \<Rightarrow> 'h \<Rightarrow> tun_if \<times> 'h" where
  "configureLinuxTun_finish H infraIpv4 t h =
     (if useLinuxPolicyRouting t then
        let networkPrefix = (case tun_virtualIp t of None \<Rightarrow> [] | Some ip \<Rightarrow> net_prefix ip);
            h = try_sys H (mesh_route ''add'' t) h;
            t = t\<lparr>deferredInfraIpv4 := Some infraIpv4, deferredNetworkPrefix := Some networkPrefix,
                  policyRoutingDeferred := True\<rparr> in
        case setupLinuxPolicyRouting H infraIpv4 networkPrefix (linuxSplitDefault t) (Some False) t h of
          Inl _ \<Rightarrow> (t, h)
        | Inr (t, h, earlyOk) \<Rightarrow>
            (if earlyOk \<and> linuxPolicyRoutingActive t then t\<lparr>infraAppliedEarly := True\<rparr> else t, h)
      else (t, if \<not> tun_isExit t \<and> defaultRouteEnabled t then configureDNS H None t h else h))"

definition configureMacOSTun :: "'h host \<Rightarrow> tun_if \<Rightarrow> 'h \<Rightarrow> 'h" where
  "configureMacOSTun H t h =
     (let ip = (case tun_virtualIp t of None \<Rightarrow> js ''null'' | Some ip \<Rightarrow> ip) in
      case sys H (Ifconfig (name_text t) ip (tun_netmask t) (tun_mtu t)) h of
        (h, False) \<Rightarrow> h
      | (h, True) \<Rightarrow>
          (case tun_virtualIp t of
             None \<Rightarrow> h
           | Some ip \<Rightarrow> try_sys H (RouteAddNet (net_prefix ip @ js ''.0.0/16'') (name_text t)) h))"

definition finalizeDeferredPolicyRoutingTail :: "'h host \<Rightarrow> jsstring list \<Rightarrow> tun_if \<Rightarrow> 'h \<Rightarrow> tun_if \<times> 'h" where
  "finalizeDeferredPolicyRoutingTail H infraForPolicy t h =
     (let t = t\<lparr>policyRoutingDeferred := False, deferredInfraIpv4 := None, deferredNetworkPrefix := None\<rparr>;
          t = (if diagInfraSnapshot t = [] then t\<lparr>diagInfraSnapshot := infraForPolicy\<rparr> else t) in
      if \<not> tun_isExit t \<and> defaultRouteEnabled t \<and> dnsViaVpn t then
        if deferDnsAfterPolicyMs t > 0 then (t\<lparr>deferDnsTimer := True\<rparr>, h)
        else (t, configureDNS H None t h)
      else (t, h))"

definition defer_dns_fires :: "'h host \<Rightarrow> tun_if \<Rightarrow> 'h \<Rightarrow> tun_if \<times> 'h" where
  "defer_dns_fires H t h =
     (if deferDnsTimer t then (t\<lparr>deferDnsTimer := False\<rparr>, configureDNS H None t h) else (t, h))"

text \<open>
  \<open>applyDeferredPolicyRouting\<close> up to the \<open>await\<close> (\<open>None\<close>: it returns at once) and after it; \<open>fresh\<close> is \<open>None\<close>
  when collecting the addresses throws.
\<close>

definition applyDeferred_start :: "'h host \<Rightarrow> tun_if \<Rightarrow> 'h \<Rightarrow> ('h \<times> jsstring list \<times> jsstring) option" where
  "applyDeferred_start H t h =
     (if tun_platform t \<noteq> Linux \<or> tun_isExit t \<or> \<not> policyRoutingDeferred t \<or> tun_name t \<in> {None, Some []} then None
      else case deferredNetworkPrefix t of
          None \<Rightarrow> None
        | Some netPrefix \<Rightarrow>
            if netPrefix = [] then None
            else Some (removeDnsRoutesFromMain H t h,
                       case deferredInfraIpv4 t of None \<Rightarrow> [] | Some ips \<Rightarrow> ips, netPrefix))"

definition applyDeferred_finish :: "'h host \<Rightarrow> jsstring list \<Rightarrow> jsstring \<Rightarrow> jsstring list option \<Rightarrow> tun_if \<Rightarrow> 'h \<Rightarrow> (tun_if \<times> 'h) res" where
  "applyDeferred_finish H infra netPrefix fresh t h =
     (let infraForPolicy = (case fresh of None \<Rightarrow> infra | Some ips \<Rightarrow> if ips \<noteq> [] then ips else infra) in
      ebind (if infraAppliedEarly t
             then Inr (if infraForPolicy \<noteq> [] then t\<lparr>diagInfraSnapshot := infraForPolicy\<rparr> else t, h, True)
             else setupLinuxPolicyRouting H infraForPolicy netPrefix (linuxSplitDefault t) None t h) (\<lambda>(t, h, ok).
        Inr (if \<not> ok \<or> \<not> linuxPolicyRoutingActive t then (t, h)
             else finalizeDeferredPolicyRoutingTail H infraForPolicy t h)))"

definition close_tun :: "'h host \<Rightarrow> tun_if \<Rightarrow> 'h \<Rightarrow> tun_if \<times> 'h \<times> tun_event list" where
  "close_tun H t h =
     (let t = t\<lparr>tun_running := False\<rparr> in
      case (if tun_platform t = Linux then
              (case restoreLinuxPolicyRouting H (t\<lparr>deferDnsTimer := False\<rparr>) h of (t, h) \<Rightarrow> (t, restoreDNS H h))
            else (t, h)) of
        (t, h) \<Rightarrow>
          (t\<lparr>helperProcess := None\<rparr>,
           if tun_platform t = Linux then try_sys H (LinkDelete (name_text t)) h else h,
           [TunClose]))"

end
