(* ===== verification/Tun_Policy.thy ===== *)
theory Tun_Policy
  imports Tun_Routing
begin

text \<open>
  What the policy routing of \<open>Tun_Routing\<close> achieves on a machine whose \<open>ip\<close> command behaves as documented:
  after a successful set-up the addresses of the infrastructure leave by the uplink, the bypass is in place
  before the default routes move into the tunnel, and closing the interface removes every rule it added.
  The behaviour of \<open>ip\<close> is stated in \<open>rule_laws\<close> and \<open>route_laws\<close> over the rules and routes of the machine.
\<close>

section \<open>Rules and routes of the machine\<close>

datatype rule_sel = ToAddr jsstring | Fwmark jsstring

type_synonym policy_rule = "nat \<times> rule_sel \<times> nat"

text \<open>Table, destination and device of a route; a command without a table means the main one.\<close>

type_synonym table_route = "nat \<times> jsstring \<times> jsstring option"

definition table_of :: "nat option \<Rightarrow> nat" where
  "table_of tbl = (case tbl of None \<Rightarrow> 254 | Some n \<Rightarrow> n)"

fun rule_cmd :: "cmd \<Rightarrow> bool" where
  "rule_cmd (RuleDel _) = True"
| "rule_cmd (RuleAddTo _ _ _) = True"
| "rule_cmd (RuleAddMark _ _ _) = True"
| "rule_cmd _ = False"

fun table_cmd :: "cmd \<Rightarrow> bool" where
  "table_cmd (Route _ _ _ _ _ _) = True"
| "table_cmd (RouteFlush _) = True"
| "table_cmd (AddrAdd _ _) = True"
| "table_cmd (LinkMtu _ _) = True"
| "table_cmd (LinkUp _) = True"
| "table_cmd (LinkDelete _) = True"
| "table_cmd (Ifconfig _ _ _ _) = True"
| "table_cmd (RouteAddNet _ _) = True"
| "table_cmd _ = False"

definition add_rule :: "policy_rule \<Rightarrow> policy_rule multiset \<Rightarrow> policy_rule multiset" where
  "add_rule r rs = (if r \<in># rs then rs else add_mset r rs)"

text \<open>
  \<open>ip rule del pref P\<close> removes one rule with that preference and fails when there is none; \<open>ip rule add\<close>
  adds a rule unless it is there already; nothing else touches the rules.
\<close>

definition rule_laws :: "'h host \<Rightarrow> ('h \<Rightarrow> policy_rule multiset) \<Rightarrow> bool" where
  "rule_laws H R \<longleftrightarrow>
     (\<forall>h p. if \<exists>r \<in># R h. fst r = p
            then snd (sys H (RuleDel p) h) \<and> (\<exists>r \<in># R h. fst r = p \<and> R (fst (sys H (RuleDel p) h)) = R h - {#r#})
            else \<not> snd (sys H (RuleDel p) h) \<and> R (fst (sys H (RuleDel p) h)) = R h)
     \<and> (\<forall>h ip p t. R (fst (sys H (RuleAddTo ip p t) h)) = add_rule (p, ToAddr ip, t) (R h))
     \<and> (\<forall>h p m t. R (fst (sys H (RuleAddMark p m t) h)) = add_rule (p, Fwmark m, t) (R h))
     \<and> (\<forall>c h. \<not> rule_cmd c \<longrightarrow> R (fst (sys H c h)) = R h)
     \<and> (\<forall>p s h. R (fst (hwrite H p s h)) = R h)"

text \<open>
  \<open>ip route add\<close> and \<open>replace\<close> concern the route to one destination in one table, \<open>replace\<close> that succeeds puts
  it there, \<open>flush\<close> empties a table; rules, packet filters and files do not change the routes.
\<close>

definition route_laws :: "'h host \<Rightarrow> ('h \<Rightarrow> table_route set) \<Rightarrow> bool" where
  "route_laws H T \<longleftrightarrow>
     (\<forall>h a dst via dev tbl src. a = js ''add'' \<or> a = js ''replace'' \<longrightarrow>
        T (fst (sys H (Route a dst via dev tbl src) h)) \<subseteq> insert (table_of tbl, dst, dev) (T h)
        \<and> {r \<in> T h. fst r \<noteq> table_of tbl \<or> fst (snd r) \<noteq> dst} \<subseteq> T (fst (sys H (Route a dst via dev tbl src) h)))
     \<and> (\<forall>h dst via dev tbl src. snd (sys H (Route (js ''replace'') dst via dev tbl src) h) \<longrightarrow>
        (table_of tbl, dst, dev) \<in> T (fst (sys H (Route (js ''replace'') dst via dev tbl src) h)))
     \<and> (\<forall>h t. T (fst (sys H (RouteFlush t) h)) = {r \<in> T h. fst r \<noteq> t})
     \<and> (\<forall>c h. \<not> table_cmd c \<longrightarrow> T (fst (sys H c h)) = T h)
     \<and> (\<forall>p s h. T (fst (hwrite H p s h)) = T h)"

lemma rule_laws_del:
  assumes "rule_laws H R"
  shows "\<exists>r \<in># R h. fst r = p \<Longrightarrow> snd (sys H (RuleDel p) h)
      \<and> (\<exists>r \<in># R h. fst r = p \<and> R (fst (sys H (RuleDel p) h)) = R h - {#r#})"
    and "\<forall>r \<in># R h. fst r \<noteq> p \<Longrightarrow> \<not> snd (sys H (RuleDel p) h) \<and> R (fst (sys H (RuleDel p) h)) = R h"
proof -
  have "if \<exists>r \<in># R h. fst r = p
        then snd (sys H (RuleDel p) h) \<and> (\<exists>r \<in># R h. fst r = p \<and> R (fst (sys H (RuleDel p) h)) = R h - {#r#})
        else \<not> snd (sys H (RuleDel p) h) \<and> R (fst (sys H (RuleDel p) h)) = R h"
    using assms unfolding rule_laws_def by blast
  then show "\<exists>r \<in># R h. fst r = p \<Longrightarrow> snd (sys H (RuleDel p) h)
      \<and> (\<exists>r \<in># R h. fst r = p \<and> R (fst (sys H (RuleDel p) h)) = R h - {#r#})"
    and "\<forall>r \<in># R h. fst r \<noteq> p \<Longrightarrow> \<not> snd (sys H (RuleDel p) h) \<and> R (fst (sys H (RuleDel p) h)) = R h"
    by (auto split: if_splits)
qed

lemma rule_laws_add:
  assumes "rule_laws H R"
  shows "R (fst (sys H (RuleAddTo ip p t) h)) = add_rule (p, ToAddr ip, t) (R h)"
    and "R (fst (sys H (RuleAddMark p m t) h)) = add_rule (p, Fwmark m, t) (R h)"
  using assms unfolding rule_laws_def by blast+

lemma rule_laws_frame:
  assumes "rule_laws H R"
  shows "\<not> rule_cmd c \<Longrightarrow> R (fst (sys H c h)) = R h" and "R (fst (hwrite H p s h)) = R h"
  using assms unfolding rule_laws_def by blast+

section \<open>Flushing rules\<close>

abbreviation at_pref :: "nat \<Rightarrow> policy_rule multiset \<Rightarrow> policy_rule multiset" where
  "at_pref p rs \<equiv> filter_mset (\<lambda>r. fst r = p) rs"

abbreviation off_prefs :: "nat set \<Rightarrow> policy_rule multiset \<Rightarrow> policy_rule multiset" where
  "off_prefs P rs \<equiv> filter_mset (\<lambda>r. fst r \<notin> P) rs"

lemma add_rule_simps [simp]:
  "set_mset (add_rule r rs) = insert r (set_mset rs)"
  "fst r \<noteq> q \<Longrightarrow> at_pref q (add_rule r rs) = at_pref q rs"
  "fst r \<in> P \<Longrightarrow> off_prefs P (add_rule r rs) = off_prefs P rs"
  by (auto simp: add_rule_def)

lemma add_rule_size: "size (at_pref q (add_rule r rs)) \<le> Suc (size (at_pref q rs))"
  by (simp add: add_rule_def)

lemma flush_off:
  assumes "rule_laws H R" "p \<in> P"
  shows "off_prefs P (R (flushIpRulePref H p n h)) = off_prefs P (R h)"
proof (induction n arbitrary: h)
  case (Suc n)
  show ?case
  proof (cases "\<exists>r \<in># R h. fst r = p")
    case True
    then obtain r where r: "snd (sys H (RuleDel p) h)" "r \<in># R h" "fst r = p"
        "R (fst (sys H (RuleDel p) h)) = R h - {#r#}"
      using rule_laws_del(1) [OF assms(1)] by blast
    then show ?thesis
      using Suc [of "fst (sys H (RuleDel p) h)"] assms(2) by (auto simp: split_def split: bool.split prod.split)
  next
    case False
    then have "\<not> snd (sys H (RuleDel p) h)" "R (fst (sys H (RuleDel p) h)) = R h"
      using rule_laws_del(2) [OF assms(1)] by blast+
    then show ?thesis by (auto split: bool.split prod.split)
  qed
qed simp

lemma flush_other:
  assumes "rule_laws H R" "q \<noteq> p"
  shows "at_pref q (R (flushIpRulePref H p n h)) = at_pref q (R h)"
proof -
  have "at_pref q rs = at_pref q (off_prefs {p} rs)" for rs :: "policy_rule multiset"
    using assms(2) by (auto simp: filter_filter_mset intro: filter_mset_cong)
  then show ?thesis using flush_off [OF assms(1), of p "{p}" n h] by (metis insertI1)
qed

lemma flush_all:
  assumes "rule_laws H R" "size (at_pref p (R h)) \<le> n"
  shows "at_pref p (R (flushIpRulePref H p n h)) = {#}"
  using assms(2)
proof (induction n arbitrary: h)
  case (Suc n)
  show ?case
  proof (cases "\<exists>r \<in># R h. fst r = p")
    case True
    then obtain r where r: "snd (sys H (RuleDel p) h)" "r \<in># R h" "fst r = p"
        "R (fst (sys H (RuleDel p) h)) = R h - {#r#}"
      using rule_laws_del(1) [OF assms(1)] by blast
    then have "size (at_pref p (R (fst (sys H (RuleDel p) h)))) \<le> n"
      using Suc.prems by (simp add: size_Diff_singleton)
    then show ?thesis
      using Suc.IH r(1) by (auto split: bool.split prod.split)
  next
    case False
    then have "\<not> snd (sys H (RuleDel p) h)" "R (fst (sys H (RuleDel p) h)) = R h" "at_pref p (R h) = {#}"
      using rule_laws_del(2) [OF assms(1), of h p] by (blast, blast, simp)
    then show ?thesis
      by (cases "sys H (RuleDel p) h") (simp del: filter_mset_eq_mempty_iff split: bool.split)
  qed
qed simp

section \<open>Running the script\<close>

lemma run_script_append:
  "run_script H (xs @ ys) h =
     (case run_script H xs h of (h, True) \<Rightarrow> run_script H ys h | (h, False) \<Rightarrow> (h, False))"
  by (induction xs arbitrary: h) (simp_all split: prod.splits bool.splits)

text \<open>What every step preserves is preserved by the script.\<close>

lemma run_script_invariant:
  assumes "\<And>s h. s \<in> set ss \<Longrightarrow> P h \<Longrightarrow> P (fst (run_step H s h))" "P h"
  shows "P (fst (run_script H ss h))"
  using assms
proof (induction ss arbitrary: h)
  case (Cons s ss)
  have "P (fst (run_step H s h))" using Cons.prems by simp
  moreover have "P (fst (run_script H ss (fst (run_step H s h))))"
    by (rule Cons.IH) (use Cons.prems \<open>P (fst (run_step H s h))\<close> in auto)
  ultimately show ?case by (cases "run_step H s h") (auto split: bool.splits)
qed simp

lemma run_script_ok:
  "snd (run_script H (s # ss) h) \<Longrightarrow>
   snd (run_step H s h) \<and> run_script H (s # ss) h = run_script H ss (fst (run_step H s h))"
  by (cases "run_step H s h") (auto split: bool.splits)

lemma run_script_append_ok:
  assumes "snd (run_script H (xs @ ys) h)"
  shows "snd (run_script H xs h)" "run_script H (xs @ ys) h = run_script H ys (fst (run_script H xs h))"
  using assms by (cases "run_script H xs h"; auto simp: run_script_append split: bool.splits)+

fun step_cmds :: "script_step \<Rightarrow> cmd list" where
  "step_cmds (Must c) = [c]"
| "step_cmds (May c) = [c]"
| "step_cmds (FlushPref p n) = [RuleDel p]"
| "step_cmds (Unless c d) = [c, d]"

lemma run_step_invariant:
  assumes "\<And>c h. c \<in> set (step_cmds s) \<Longrightarrow> P h \<Longrightarrow> P (fst (sys H c h))" "P h"
  shows "P (fst (run_step H s h))"
proof (cases s)
  case (FlushPref p n)
  have "P h \<Longrightarrow> P (flushIpRulePref H p n h)" for h
  proof (induction n arbitrary: h)
    case (Suc n)
    have "P (fst (sys H (RuleDel p) h))" using assms(1) Suc.prems FlushPref by simp
    then show ?case using Suc.IH by (cases "sys H (RuleDel p) h") (auto split: bool.splits)
  qed simp
  then show ?thesis using assms(2) by (simp add: FlushPref)
next
  case (Unless c d)
  have "P (fst (sys H c h))" "P (fst (sys H d (fst (sys H c h))))"
    using assms Unless by simp_all
  then show ?thesis by (cases "sys H c h") (auto simp: Unless split: bool.splits)
qed (use assms in \<open>simp_all add: try_sys_def\<close>)

lemma run_script_commands:
  assumes "\<And>c h. c \<in> set (concat (map step_cmds ss)) \<Longrightarrow> P h \<Longrightarrow> P (fst (sys H c h))" "P h"
  shows "P (fst (run_script H ss h))"
proof (rule run_script_invariant [where P = P, OF _ assms(2)])
  fix s h
  assume "s \<in> set ss" "P h"
  then show "P (fst (run_step H s h))"
    by (intro run_step_invariant [where P = P] assms(1)) auto
qed

lemma run_script_frame:
  assumes "\<And>c h. c \<in> set (concat (map step_cmds ss)) \<Longrightarrow> P (fst (sys H c h)) = P h"
  shows "P (fst (run_script H ss h)) = P h"
  by (rule run_script_commands [where P = "\<lambda>h'. P h' = P h"]) (use assms in simp_all)

text \<open>Adding the rules of a list of addresses.\<close>

abbreviation add_infra :: "nat \<Rightarrow> nat \<Rightarrow> jsstring list \<Rightarrow> script_step list" where
  "add_infra p t ips \<equiv> map (\<lambda>ip. May (RuleAddTo ip p t)) ips"

lemma add_infra_rules:
  assumes "rule_laws H R"
  shows "snd (run_script H (add_infra p t ips) h)"
    and "set_mset (R (fst (run_script H (add_infra p t ips) h))) = set_mset (R h) \<union> {(p, ToAddr ip, t) |ip. ip \<in> set ips}"
    and "size (at_pref p (R (fst (run_script H (add_infra p t ips) h)))) \<le> size (at_pref p (R h)) + length ips"
    and "q \<noteq> p \<Longrightarrow> at_pref q (R (fst (run_script H (add_infra p t ips) h))) = at_pref q (R h)"
    and "p \<in> P \<Longrightarrow> off_prefs P (R (fst (run_script H (add_infra p t ips) h))) = off_prefs P (R h)"
proof (induction ips arbitrary: h)
  case (Cons ip ips)
  have a: "R (try_sys H (RuleAddTo ip p t) h) = add_rule (p, ToAddr ip, t) (R h)" for h
    by (simp add: try_sys_def rule_laws_add(1) [OF assms])
  {
    case 1
    then show ?case using Cons(1) by simp
  next
    case 2
    then show ?case using Cons(2) [of "try_sys H (RuleAddTo ip p t) h"] by (auto simp: a)
  next
    case 3
    then show ?case using Cons(3) [of "try_sys H (RuleAddTo ip p t) h"] a
        add_rule_size [of p "(p, ToAddr ip, t)" "R h"] by simp
  next
    case 4
    then show ?case using Cons(4) [of "try_sys H (RuleAddTo ip p t) h"] a by simp
  next
    case 5
    then show ?case using Cons(5) [of "try_sys H (RuleAddTo ip p t) h"] a by simp
  }
qed simp_all

section \<open>The rules after a set-up\<close>

abbreviation our_prefs :: "nat set" where "our_prefs \<equiv> {50, 100, 101}"

text \<open>At most so many rules of an earlier run are left as one flush removes.\<close>

definition few_rules :: "policy_rule multiset \<Rightarrow> bool" where
  "few_rules rs \<longleftrightarrow> size (at_pref 101 rs) \<le> 6 \<and> size (at_pref 100 rs) \<le> 6 \<and> size (at_pref 50 rs) \<le> 32"

lemma off_prefs_id: "\<forall>r \<in># rs. fst r \<notin> P \<Longrightarrow> off_prefs P rs = rs"
  by (metis (mono_tags, lifting) filter_mset_True filter_mset_cong)

lemma flush3:
  assumes "rule_laws H R" "few_rules (R h)"
  defines "h' \<equiv> flushIpRulePref H 50 32 (flushIpRulePref H 100 6 (flushIpRulePref H 101 6 h))"
  shows "R h' = off_prefs our_prefs (R h)"
proof -
  define h1 where "h1 = flushIpRulePref H 101 6 h"
  define h2 where "h2 = flushIpRulePref H 100 6 h1"
  have h': "h' = flushIpRulePref H 50 32 h2" by (simp add: h'_def h1_def h2_def)
  have c1: "at_pref 101 (R h1) = {#}"
    unfolding h1_def by (rule flush_all [OF assms(1)]) (use assms(2) in \<open>simp add: few_rules_def\<close>)
  have c2: "at_pref 100 (R h2) = {#}"
    unfolding h2_def by (rule flush_all [OF assms(1)])
      (use assms(2) flush_other [OF assms(1), of 100 101 6 h] in \<open>simp add: few_rules_def h1_def\<close>)
  have c3: "at_pref 50 (R h') = {#}"
    unfolding h' by (rule flush_all [OF assms(1)])
      (use assms(2) flush_other [OF assms(1), of 50 101 6 h] flush_other [OF assms(1), of 50 100 6 h1]
        in \<open>simp add: few_rules_def h1_def h2_def\<close>)
  have "at_pref 100 (R h') = {#}" "at_pref 101 (R h') = {#}"
    using c1 c2 flush_other [OF assms(1), of 100 50 32 h2] flush_other [OF assms(1), of 101 50 32 h2]
      flush_other [OF assms(1), of 101 100 6 h1] by (simp_all del: filter_mset_eq_mempty_iff add: h' h2_def)
  with c3 have "\<forall>r \<in># R h'. fst r \<notin> our_prefs"
    unfolding filter_mset_eq_mempty_iff by blast
  then have "R h' = off_prefs our_prefs (R h')" by (simp only: off_prefs_id)
  also have "\<dots> = off_prefs our_prefs (R h)"
    using flush_off [OF assms(1), of 50 our_prefs 32 h2] flush_off [OF assms(1), of 100 our_prefs 6 h1]
      flush_off [OF assms(1), of 101 our_prefs 6 h] by (simp add: h' h2_def h1_def)
  finally show ?thesis .
qed

lemma rule_free_steps:
  assumes "rule_laws H R" "\<forall>c \<in> set (concat (map step_cmds ss)). \<not> rule_cmd c"
  shows "R (fst (run_script H ss h)) = R h"
proof (rule run_script_frame)
  fix c h
  assume "c \<in> set (concat (map step_cmds ss))"
  then show "R (fst (sys H c h)) = R h" using assms(2) by (intro rule_laws_frame(1) [OF assms(1)]) blast
qed

lemma steps_rule_free:
  "\<forall>c \<in> set (concat (map step_cmds (May (RouteFlush t') # uplink_steps u src ips))). \<not> rule_cmd c"
  "\<forall>c \<in> set (concat (map step_cmds (tunnel_steps t np asd))). \<not> rule_cmd c"
  "\<forall>c \<in> set (concat (map step_cmds (mark_steps fl))). \<not> rule_cmd c"
  subgoal by (auto simp: uplink_steps_def ipRoute_def Let_def)
  subgoal by (auto simp: tunnel_steps_def tun_route_def)
  subgoal by (simp add: mark_steps_def Let_def)
  done

lemma run_flush_steps:
  "run_script H (flush_steps @ ss) h =
   run_script H ss (flushIpRulePref H 50 32 (flushIpRulePref H 100 6 (flushIpRulePref H 101 6 h)))"
  by (simp add: flush_steps_def linux_consts)

text \<open>The rules when a set-up has gone through: those of others, one per address, and the one for marked packets.\<close>

lemma setup_script_rules:
  assumes L: "rule_laws H R" and few: "few_rules (R h)"
    and ok: "snd (run_script H (setup_script t u src ips np asd fl) h)"
  defines "rs \<equiv> R (fst (run_script H (setup_script t u src ips np asd fl) h))"
  shows "off_prefs our_prefs rs = off_prefs our_prefs (R h)"
    and "at_pref 101 rs = {#}" and "size (at_pref 100 rs) \<le> 1" and "size (at_pref 50 rs) \<le> length ips"
    and "set_mset (at_pref 50 rs) = {(50, ToAddr ip, 100) |ip. ip \<in> set ips}"
proof -
  define h1 where "h1 = flushIpRulePref H 50 32 (flushIpRulePref H 100 6 (flushIpRulePref H 101 6 h))"
  define A where "A = May (RouteFlush 100) # uplink_steps u src ips"
  define h2 where "h2 = fst (run_script H A h1)"
  define h3 where "h3 = fst (run_script H (infra_steps ips) h2)"
  define h4 where "h4 = fst (run_script H (tunnel_steps t np asd) h3)"
  define h5 where "h5 = fst (sys H (RuleAddMark 100 (js ''0x1'') 100) h4)"
  have R1: "R h1 = off_prefs our_prefs (R h)"
    unfolding h1_def by (rule flush3 [OF L few])
  have all: "run_script H (setup_script t u src ips np asd fl) h =
      run_script H (A @ infra_steps ips @ tunnel_steps t np asd @ [Must (RuleAddMark 100 (js ''0x1'') 100)] @ mark_steps fl) h1"
    unfolding setup_script_def run_flush_steps h1_def A_def by (simp add: linux_consts)
  have s2: "run_script H (setup_script t u src ips np asd fl) h =
      run_script H (infra_steps ips @ tunnel_steps t np asd @ [Must (RuleAddMark 100 (js ''0x1'') 100)] @ mark_steps fl) h2"
    unfolding all h2_def by (rule run_script_append_ok(2)) (use ok all in simp)
  have s3: "run_script H (setup_script t u src ips np asd fl) h =
      run_script H (tunnel_steps t np asd @ [Must (RuleAddMark 100 (js ''0x1'') 100)] @ mark_steps fl) h3"
    unfolding s2 h3_def by (rule run_script_append_ok(2)) (use ok s2 in simp)
  have s4: "run_script H (setup_script t u src ips np asd fl) h =
      run_script H ([Must (RuleAddMark 100 (js ''0x1'') 100)] @ mark_steps fl) h4"
    unfolding s3 h4_def by (rule run_script_append_ok(2)) (use ok s3 in simp)
  have s5: "run_script H (setup_script t u src ips np asd fl) h = run_script H (mark_steps fl) h5"
    using run_script_ok [of H "Must (RuleAddMark 100 (js ''0x1'') 100)" "mark_steps fl" h4] ok s4
    by (simp add: h5_def)
  have R2: "R h2 = R h1"
    unfolding h2_def A_def by (rule rule_free_steps [OF L steps_rule_free(1)])
  have R4: "R h4 = R h3"
    unfolding h4_def by (rule rule_free_steps [OF L steps_rule_free(2)])
  have R5: "R h5 = add_rule (100, Fwmark (js ''0x1''), 100) (R h4)"
    unfolding h5_def by (rule rule_laws_add(2) [OF L])
  have rs: "rs = R h5"
    unfolding rs_def s5 by (rule rule_free_steps [OF L steps_rule_free(3)])
  note add = add_infra_rules [OF L, where p = 50 and t = 100 and ips = ips and h = h2]
  have h3: "h3 = fst (run_script H (add_infra 50 100 ips) h2)"
    by (simp add: h3_def infra_steps_def linux_consts)
  have off: "off_prefs our_prefs (R h3) = off_prefs our_prefs (R h)"
    using add(5) [of our_prefs] by (simp add: h3 R2 R1 filter_filter_mset)
  show "off_prefs our_prefs rs = off_prefs our_prefs (R h)"
    using off add_rule_simps(3) [of "(100, Fwmark (js ''0x1''), 100)" our_prefs "R h3"] by (simp add: rs R5 R4)
  have none: "at_pref q (R h2) = {#}" if "q \<in> our_prefs" for q
    using that by (auto simp: R2 R1)
  show "at_pref 101 rs = {#}"
    using none [of 101] add(4) [of 101] by (simp del: filter_mset_eq_mempty_iff add: rs R5 R4 h3)
  show "size (at_pref 100 rs) \<le> 1"
    using none [of 100] add(4) [of 100] add_rule_size [of 100 "(100, Fwmark (js ''0x1''), 100)" "R h3"]
    by (simp del: filter_mset_eq_mempty_iff add: rs R5 R4 h3)
  show "size (at_pref 50 rs) \<le> length ips"
    using none [of 50] add(3) by (simp del: filter_mset_eq_mempty_iff add: rs R5 R4 h3)
  have "set_mset (R h3) = set_mset (R h2) \<union> {(50, ToAddr ip, 100) |ip. ip \<in> set ips}"
    using add(2) by (simp add: h3)
  then show "set_mset (at_pref 50 rs) = {(50, ToAddr ip, 100) |ip. ip \<in> set ips}"
    using none [of 50] unfolding filter_mset_eq_mempty_iff by (fastforce simp: rs R5 R4)
qed

section \<open>The routes after a set-up\<close>

lemma route_laws_put:
  assumes "route_laws H T" "a = js ''add'' \<or> a = js ''replace''"
  shows "T (fst (sys H (Route a dst via dev tbl src) h)) \<subseteq> insert (table_of tbl, dst, dev) (T h)"
    and "r \<in> T h \<Longrightarrow> fst r \<noteq> table_of tbl \<or> fst (snd r) \<noteq> dst \<Longrightarrow> r \<in> T (fst (sys H (Route a dst via dev tbl src) h))"
proof -
  have "T (fst (sys H (Route a dst via dev tbl src) h)) \<subseteq> insert (table_of tbl, dst, dev) (T h)
      \<and> {r \<in> T h. fst r \<noteq> table_of tbl \<or> fst (snd r) \<noteq> dst} \<subseteq> T (fst (sys H (Route a dst via dev tbl src) h))"
    by (rule assms(1) [unfolded route_laws_def, THEN conjunct1, rule_format, OF assms(2)])
  then show "T (fst (sys H (Route a dst via dev tbl src) h)) \<subseteq> insert (table_of tbl, dst, dev) (T h)"
    and "r \<in> T h \<Longrightarrow> fst r \<noteq> table_of tbl \<or> fst (snd r) \<noteq> dst \<Longrightarrow> r \<in> T (fst (sys H (Route a dst via dev tbl src) h))"
    by (simp, blast)
qed

lemma route_laws_replace:
  assumes "route_laws H T" "snd (sys H (Route (js ''replace'') dst via dev tbl src) h)"
  shows "(table_of tbl, dst, dev) \<in> T (fst (sys H (Route (js ''replace'') dst via dev tbl src) h))"
  using assms unfolding route_laws_def by blast

lemma route_laws_frame:
  assumes "route_laws H T"
  shows "T (fst (sys H (RouteFlush t) h)) = {r \<in> T h. fst r \<noteq> t}"
    and "\<not> table_cmd c \<Longrightarrow> T (fst (sys H c h)) = T h" and "T (fst (hwrite H p s h)) = T h"
  using assms unfolding route_laws_def by blast+

text \<open>The commands of the script after the table has been flushed.\<close>

definition puts_route :: "(nat \<Rightarrow> jsstring \<Rightarrow> jsstring option \<Rightarrow> bool) \<Rightarrow> cmd \<Rightarrow> bool" where
  "puts_route ok c \<longleftrightarrow>
     (case c of Route a dst via dev tbl src \<Rightarrow> (a = js ''add'' \<or> a = js ''replace'') \<and> ok (table_of tbl) dst dev
      | _ \<Rightarrow> \<not> table_cmd c)"

lemma puts_route_within:
  assumes "route_laws H T" "puts_route (\<lambda>tb dst dev. tb = 100 \<longrightarrow> dev = Some i) c"
    "\<forall>dst dev. (100, dst, dev) \<in> T h \<longrightarrow> dev = Some i"
  shows "\<forall>dst dev. (100, dst, dev) \<in> T (fst (sys H c h)) \<longrightarrow> dev = Some i"
proof (cases "table_cmd c")
  case True
  then obtain a dst via dev tbl src where c: "c = Route a dst via dev tbl src"
    using assms(2) by (cases c) (auto simp: puts_route_def)
  then have a: "a = js ''add'' \<or> a = js ''replace''" and d: "table_of tbl = 100 \<longrightarrow> dev = Some i"
    using assms(2) by (simp_all add: puts_route_def)
  show ?thesis
  proof (intro allI impI)
    fix x y
    assume "(100, x, y) \<in> T (fst (sys H c h))"
    then have "(100, x, y) = (table_of tbl, dst, dev) \<or> (100, x, y) \<in> T h"
      using route_laws_put(1) [OF assms(1) a, of dst via dev tbl src h] unfolding c by blast
    then show "y = Some i" using assms(3) d by auto
  qed
next
  case False
  then show ?thesis using assms(3) route_laws_frame(2) [OF assms(1)] by simp
qed

lemma puts_route_keeps:
  assumes "route_laws H T" "puts_route (\<lambda>tb dst dev. tb \<noteq> 100) c" "(100, d, e) \<in> T h"
  shows "(100, d, e) \<in> T (fst (sys H c h))"
proof (cases "table_cmd c")
  case True
  then obtain a dst via dev tbl src where c: "c = Route a dst via dev tbl src"
    using assms(2) by (cases c) (auto simp: puts_route_def)
  then have a: "a = js ''add'' \<or> a = js ''replace''" and d: "table_of tbl \<noteq> 100"
    using assms(2) by (simp_all add: puts_route_def)
  show ?thesis
    using route_laws_put(2) [OF assms(1) a assms(3), of tbl dst via dev src] d unfolding c by simp
next
  case False
  then show ?thesis using assms(3) route_laws_frame(2) [OF assms(1)] by simp
qed

text \<open>The steps after the flush: up to the default route of the table, and from there on.\<close>

definition steps_to_default :: "uplink \<Rightarrow> jsstring option \<Rightarrow> jsstring list \<Rightarrow> script_step list" where
  "steps_to_default u src ips =
     map (\<lambda>ip. May (ipRoute ''add'' ip u (Some 100) src)) ips"

definition steps_from_default :: "tun_if \<Rightarrow> uplink \<Rightarrow> jsstring option \<Rightarrow> jsstring list \<Rightarrow> jsstring \<Rightarrow> bool \<Rightarrow> bool \<Rightarrow> script_step list" where
  "steps_from_default t u src ips np asd fl =
     map (\<lambda>ip. May (ipRoute ''replace'' ip u None src)) ips @ infra_steps ips @ tunnel_steps t np asd
     @ [Must (RuleAddMark 100 (js ''0x1'') 100)] @ mark_steps fl"

abbreviation table_default :: "uplink \<Rightarrow> cmd" where
  "table_default u \<equiv> Route (js ''replace'') (js ''default'') (up_gateway u) (Some (up_iface u)) (Some 100) None"

lemma setup_script_parts:
  "setup_script t u src ips np asd fl =
   (flush_steps @ [May (RouteFlush 100)]) @ steps_to_default u src ips @ Must (table_default u) # steps_from_default t u src ips np asd fl"
  by (simp add: setup_script_def uplink_steps_def steps_to_default_def steps_from_default_def linux_consts Let_def)

lemma to_default_puts:
  "\<forall>c \<in> set (concat (map step_cmds (steps_to_default u src ips))).
     puts_route (\<lambda>tb dst dev. tb = 100 \<longrightarrow> dev = Some (up_iface u)) c"
  by (auto simp: steps_to_default_def ipRoute_def puts_route_def)

lemma from_default_puts:
  "\<forall>c \<in> set (concat (map step_cmds (steps_from_default t u src ips np asd fl))). puts_route (\<lambda>tb dst dev. tb \<noteq> 100) c"
  by (auto simp: steps_from_default_def infra_steps_def tunnel_steps_def mark_steps_def tun_route_def ipRoute_def
      puts_route_def table_of_def Let_def)

lemma puts_route_mono:
  "puts_route P c \<Longrightarrow> (\<And>tb dst dev. P tb dst dev \<Longrightarrow> Q tb dst dev) \<Longrightarrow> puts_route Q c"
  by (cases c) (auto simp: puts_route_def)

lemma setup_script_routes:
  assumes L: "route_laws H T" and ok: "snd (run_script H (setup_script t u src ips np asd fl) h)"
  defines "h' \<equiv> fst (run_script H (setup_script t u src ips np asd fl) h)"
  shows "(100, js ''default'', Some (up_iface u)) \<in> T h'"
    and "\<forall>dst dev. (100, dst, dev) \<in> T h' \<longrightarrow> dev = Some (up_iface u)"
proof -
  define h1 where "h1 = fst (run_script H (flush_steps @ [May (RouteFlush 100)]) h)"
  define h2 where "h2 = fst (run_script H (steps_to_default u src ips) h1)"
  define h3 where "h3 = fst (sys H (table_default u) h2)"
  let ?rest = "steps_from_default t u src ips np asd fl"
  have s1: "run_script H (setup_script t u src ips np asd fl) h =
      run_script H (steps_to_default u src ips @ Must (table_default u) # ?rest) h1"
    unfolding setup_script_parts h1_def by (rule run_script_append_ok(2)) (use ok setup_script_parts in simp)
  have s2: "run_script H (setup_script t u src ips np asd fl) h = run_script H (Must (table_default u) # ?rest) h2"
    unfolding s1 h2_def by (rule run_script_append_ok(2)) (use ok s1 in simp)
  then have ok3: "snd (sys H (table_default u) h2)"
    and s3: "run_script H (setup_script t u src ips np asd fl) h = run_script H ?rest h3"
    using run_script_ok [of H "Must (table_default u)" ?rest h2] ok by (simp_all add: h3_def)
  have "T h1 = {r \<in> T (fst (run_script H flush_steps h)). fst r \<noteq> 100}"
    using route_laws_frame(1) [OF L] by (simp add: h1_def flush_steps_def try_sys_def)
  then have i1: "\<forall>dst dev. (100, dst, dev) \<in> T h1 \<longrightarrow> dev = Some (up_iface u)" by simp
  have i2: "\<forall>dst dev. (100, dst, dev) \<in> T h2 \<longrightarrow> dev = Some (up_iface u)"
    unfolding h2_def
    by (rule run_script_commands [where P = "\<lambda>h. \<forall>dst dev. (100, dst, dev) \<in> T h \<longrightarrow> dev = Some (up_iface u)", OF _ i1],
        rule puts_route_within [OF L]) (use to_default_puts in blast)+
  have i3: "\<forall>dst dev. (100, dst, dev) \<in> T h3 \<longrightarrow> dev = Some (up_iface u)"
    unfolding h3_def by (rule puts_route_within [OF L _ i2]) (simp add: puts_route_def)
  have d3: "(100, js ''default'', Some (up_iface u)) \<in> T h3"
    using route_laws_replace [OF L ok3] by (simp add: h3_def table_of_def)
  show "(100, js ''default'', Some (up_iface u)) \<in> T h'"
    unfolding h'_def s3
    by (rule run_script_commands [where P = "\<lambda>h. (100, js ''default'', Some (up_iface u)) \<in> T h", OF _ d3],
        rule puts_route_keeps [OF L]) (use from_default_puts in blast)+
  show "\<forall>dst dev. (100, dst, dev) \<in> T h' \<longrightarrow> dev = Some (up_iface u)"
    unfolding h'_def s3
  proof (rule run_script_commands [where P = "\<lambda>h. \<forall>dst dev. (100, dst, dev) \<in> T h \<longrightarrow> dev = Some (up_iface u)", OF _ i3])
    fix c h
    assume "c \<in> set (concat (map step_cmds ?rest))" and p: "\<forall>dst dev. (100, dst, dev) \<in> T h \<longrightarrow> dev = Some (up_iface u)"
    then have "puts_route (\<lambda>tb dst dev. tb = 100 \<longrightarrow> dev = Some (up_iface u)) c"
      using from_default_puts puts_route_mono by (metis (mono_tags, lifting))
    then show "\<forall>dst dev. (100, dst, dev) \<in> T (fst (sys H c h)) \<longrightarrow> dev = Some (up_iface u)"
      by (rule puts_route_within [OF L _ p])
  qed
qed

section \<open>Set-up and restore\<close>

lemma setup_script_fields: "setup_script (t\<lparr>linuxMainInfraRoutes := a\<rparr>) = setup_script t"
  by (rule ext)+ (simp add: setup_script_def tunnel_steps_def tun_route_def name_text_def)

lemma setup_success:
  assumes "setupLinuxPolicyRouting H infra np asd fc t h = Inr (t', h', True)"
  obtains u src fl hs where "parseLinuxDefaultUplink H h = Inr (Some u)"
    "run_script H (setup_script t u src (excludeSet infra) np asd fl) h = (hs, True)"
    "h' = fst (applyLooseRpFilterForVpn H (up_iface u # (case tun_name t of None \<Rightarrow> [] | Some n \<Rightarrow> [n])) hs)"
    "t' = t\<lparr>linuxMainInfraRoutes := Some (excludeSet infra),
        linuxRpFilterBackup := snd (applyLooseRpFilterForVpn H (up_iface u # (case tun_name t of None \<Rightarrow> [] | Some n \<Rightarrow> [n])) hs),
        linuxPolicyRoutingActive := True, diagInfraSnapshot := excludeSet infra\<rparr>"
proof -
  obtain u where u: "parseLinuxDefaultUplink H h = Inr (Some u)"
    using assms by (cases "parseLinuxDefaultUplink H h") (auto simp: setupLinuxPolicyRouting_def split: option.splits)
  let ?fl = "case fc of None \<Rightarrow> linuxFlushRouteCache t | Some b \<Rightarrow> b"
  obtain hs ok where run: "run_script H (setup_script t u (parseLinuxPreferredUplinkSrc H (up_iface u) h) (excludeSet infra) np asd ?fl) h = (hs, ok)"
    by fastforce
  from assms u run have "ok"
    by (cases ok) (simp_all add: setupLinuxPolicyRouting_def Let_def setup_script_fields)
  with assms u run show thesis
    by (intro that [OF u]) (auto simp: setupLinuxPolicyRouting_def Let_def setup_script_fields split: prod.splits)
qed

text \<open>Reverse-path filters are files: they change neither rules nor routes.\<close>

lemma loosen_frame:
  assumes "\<And>n s h. P (fst (hwrite H (confPath n) s h)) = P h"
  shows "P (fst (loosen H ns b h)) = P h"
proof (induction ns arbitrary: b h)
  case (Cons n ns)
  have "P (fst (writeRpFilter H n (js ''2'') h)) = P h" using assms by (simp add: writeRpFilter_def)
  then show ?case using Cons by (auto split: option.splits prod.splits)
qed simp

lemma applyLoose_frame:
  "(\<And>n s h. P (fst (hwrite H (confPath n) s h)) = P h) \<Longrightarrow> P (fst (applyLooseRpFilterForVpn H ns h)) = P h"
  using loosen_frame [of P H "rp_names ns" "[]" h] by (simp add: applyLooseRpFilterForVpn_def split_def)

lemma restoreRp_frame:
  assumes "\<And>n s h. P (fst (hwrite H (confPath n) s h)) = P h"
  shows "P (restoreRpFilterBackup H b h) = P h"
proof -
  have "P (fold (restore_one H) xs h) = P h" for xs h
    by (induction xs arbitrary: h) (auto simp: restore_one_def writeRpFilter_def assms)
  then show ?thesis by (simp add: restoreRpFilterBackup_def split: option.split)
qed

lemma cloudImds_safe: "isIpv4UplinkBypassSafe cloudImds"
  by code_simp

lemma set_excludeSet: "set (excludeSet infra) = insert cloudImds {ip \<in> set infra. isIpv4UplinkBypassSafe ip}"
proof -
  have "set (fold (\<lambda>ip s. if \<not> isIpv4UplinkBypassSafe ip then s else set_add ip s) xs s) =
      set s \<union> {ip \<in> set xs. isIpv4UplinkBypassSafe ip}" for xs s
    by (induction xs arbitrary: s) auto
  then show ?thesis by (simp add: excludeSet_def Let_def cloudImds_safe)
qed



section \<open>A small machine\<close>

text \<open>
  A machine with rules and routes only, which reads the words of a command; it shows that the laws can
  hold. Packet filters and files have no effect on it.
\<close>

record machine =
  m_rules :: "policy_rule list"
  m_routes :: "table_route list"

fun arg_of :: "jsstring \<Rightarrow> arg_vector \<Rightarrow> jsstring option" where
  "arg_of w (a # b # rest) = (if a = w then Some b else arg_of w rest)"
| "arg_of w _ = None"

definition m_add_rule :: "policy_rule \<Rightarrow> machine \<Rightarrow> machine \<times> bool" where
  "m_add_rule r m = (if r \<in> set (m_rules m) then (m, False) else (m\<lparr>m_rules := m_rules m @ [r]\<rparr>, True))"

fun m_rule :: "arg_vector \<Rightarrow> machine \<Rightarrow> machine \<times> bool" where
  "m_rule [d, p, n] m =
     (case find (\<lambda>r. fst r = from_radix 10 n) (m_rules m) of
        None \<Rightarrow> (m, False)
      | Some r \<Rightarrow> (m\<lparr>m_rules := remove1 r (m_rules m)\<rparr>, True))"
| "m_rule [a, k, x, k2, y, l, n] m =
     (if k = js ''to'' then m_add_rule (from_radix 10 y, ToAddr (take (length x - 3) x), from_radix 10 n) m
      else m_add_rule (from_radix 10 x, Fwmark y, from_radix 10 n) m)"
| "m_rule _ m = (m, False)"

definition m_route :: "jsstring \<Rightarrow> table_route \<Rightarrow> machine \<Rightarrow> machine \<times> bool" where
  "m_route action r m =
     (let others = filter (\<lambda>x. fst x \<noteq> fst r \<or> fst (snd x) \<noteq> fst (snd r)) (m_routes m) in
      if action = js ''replace'' then (m\<lparr>m_routes := others @ [r]\<rparr>, True)
      else if others \<noteq> m_routes m then (m, False)
      else (m\<lparr>m_routes := m_routes m @ [r]\<rparr>, True))"

definition m_exec :: "arg_vector \<Rightarrow> machine \<Rightarrow> machine \<times> bool" where
  "m_exec a m =
     (if take 2 a = words [''ip'', ''rule''] then m_rule (drop 2 a) m
      else if take 4 a = words [''ip'', ''route'', ''flush'', ''table''] then
        (m\<lparr>m_routes := filter (\<lambda>r. fst r \<noteq> from_radix 10 (a ! 4)) (m_routes m)\<rparr>, True)
      else if take 2 a = words [''ip'', ''route''] \<and> (a ! 2 = js ''add'' \<or> a ! 2 = js ''replace'') then
        m_route (a ! 2)
          (case arg_of (js ''table'') (drop 4 a) of None \<Rightarrow> 254 | Some n \<Rightarrow> from_radix 10 n,
           a ! 3, arg_of (js ''dev'') (drop 4 a)) m
      else (m, True))"

definition small_host :: "machine host" where
  "small_host = \<lparr>hexec = m_exec,
     hquery = (\<lambda>a m. Some (js ''default via 192.0.2.1 dev eth0 proto dhcp'')),
     hexists = (\<lambda>p m. False), hread = (\<lambda>p m. None), hwrite = (\<lambda>p s m. (m, True))\<rparr>"

lemma js_eq_iff [simp]: "js s = js t \<longleftrightarrow> s = t"
  by (simp add: js_def inj_map_eq_map [OF inj_of_char])

lemma small_rule_laws: "rule_laws small_host (\<lambda>m. mset (m_rules m))"
proof -
  have del: "sys small_host (RuleDel p) m =
      (case find (\<lambda>r. fst r = p) (m_rules m) of
         None \<Rightarrow> (m, False) | Some r \<Rightarrow> (m\<lparr>m_rules := remove1 r (m_rules m)\<rparr>, True))" for p m
    by (simp add: sys_def small_host_def m_exec_def)
  have add: "sys small_host (RuleAddTo ip p t) m = m_add_rule (p, ToAddr ip, t) m"
      "sys small_host (RuleAddMark p k t) m = m_add_rule (p, Fwmark k, t) m" for ip p t k m
    by (simp_all add: sys_def small_host_def m_exec_def js_def)
  have hw: "hwrite small_host p s m = (m, True)" for p s m
    by (simp add: small_host_def)
  have other: "m_rules (fst (sys small_host c m)) = m_rules m" if "\<not> rule_cmd c" for c m
    using that by (cases c) (auto simp: sys_def small_host_def m_exec_def m_route_def Let_def)
  have law1: "if \<exists>r \<in># mset (m_rules m). fst r = p
      then snd (sys small_host (RuleDel p) m) \<and> (\<exists>r \<in># mset (m_rules m). fst r = p
        \<and> mset (m_rules (fst (sys small_host (RuleDel p) m))) = mset (m_rules m) - {#r#})
      else \<not> snd (sys small_host (RuleDel p) m) \<and> mset (m_rules (fst (sys small_host (RuleDel p) m))) = mset (m_rules m)"
    for m p
  proof (cases "find (\<lambda>r. fst r = p) (m_rules m)")
    case None
    then have "\<not> (\<exists>r \<in># mset (m_rules m). fst r = p)" by (auto simp: find_None_iff)
    then show ?thesis by (simp add: del None)
  next
    case (Some r)
    then have "r \<in># mset (m_rules m)" "fst r = p" by (auto simp: find_Some_iff in_set_conv_nth)
    moreover have "sys small_host (RuleDel p) m = (m\<lparr>m_rules := remove1 r (m_rules m)\<rparr>, True)"
      by (simp add: del Some)
    moreover have "\<exists>r \<in># mset (m_rules m). fst r = p" using calculation(1,2) by blast
    ultimately show ?thesis
      by (simp only: if_True fst_conv snd_conv) (intro conjI TrueI bexI [of _ r]; simp)
  qed
  show ?thesis
    unfolding rule_laws_def add
    by (intro conjI allI impI) (rule law1, simp_all add: other m_add_rule_def add_rule_def hw)
qed

lemma small_route_laws: "route_laws small_host (\<lambda>m. set (m_routes m))"
proof -
  have put: "sys small_host (Route a dst via dev tbl src) m = m_route a (table_of tbl, dst, dev) m"
    if "a = js ''add'' \<or> a = js ''replace''" for a dst via dev tbl src m
    using that by (cases via; cases dev; cases tbl; cases src)
      (auto simp: sys_def small_host_def m_exec_def opt_arg_def table_of_def)
  have flush: "sys small_host (RouteFlush t) m = (m\<lparr>m_routes := filter (\<lambda>r. fst r \<noteq> t) (m_routes m)\<rparr>, True)" for t m
    by (simp add: sys_def small_host_def m_exec_def)
  have hw: "hwrite small_host p s m = (m, True)" for p s m
    by (simp add: small_host_def)
  have other: "m_routes (fst (sys small_host c m)) = m_routes m" if "\<not> table_cmd c" for c m
    using that by (cases c) (auto simp: sys_def small_host_def m_exec_def m_add_rule_def split: option.split)
  show ?thesis
    unfolding route_laws_def
    by (intro conjI allI impI) (auto simp: put flush other m_route_def Let_def hw split: if_splits)
qed

definition demo_machine :: machine where
  "demo_machine = \<lparr>m_rules = [(50, ToAddr (js ''198.51.100.9''), 100), (220, Fwmark (js ''0x0''), 254)],
     m_routes = [(254, js ''default'', Some (js ''eth0''))]\<rparr>"

definition demo_infra :: "jsstring list" where
  "demo_infra = words [''203.0.113.7'', ''127.0.0.1'']"

definition demo_uplink :: uplink where
  "demo_uplink = \<lparr>up_gateway = Some (js ''192.0.2.1''), up_iface = js ''eth0''\<rparr>"

lemma demo_tunnel:
  "tunnel_steps plain_tun (js ''10.200'') True =
     [Must (Route (js ''replace'') (js ''0.0.0.0/1'') None (Some (js ''tun0'')) None None),
      Must (Route (js ''replace'') (js ''128.0.0.0/1'') None (Some (js ''tun0'')) None None),
      Must (Route (js ''replace'') (js ''10.200.0.0/16'') None (Some (js ''tun0'')) None None)]"
  by (simp add: tunnel_steps_def tun_route_def name_text_def js_def)

lemma demo_script:
  "snd (run_script small_host
     (setup_script plain_tun demo_uplink None [js ''203.0.113.7'', cloudImds] (js ''10.200'') True True) demo_machine)"
  unfolding setup_script_def demo_tunnel by code_simp

lemma demo_uplink_parse:
  "parseLinuxDefaultUplink small_host demo_machine = Inr (Some demo_uplink)"
  "excludeSet demo_infra = [js ''203.0.113.7'', cloudImds]"
  "parseLinuxPreferredUplinkSrc small_host (up_iface demo_uplink) demo_machine = None"
  by code_simp+

lemma demo_setup:
  "\<exists>t' m'. setupLinuxPolicyRouting small_host demo_infra (js ''10.200'') True None plain_tun demo_machine = Inr (t', m', True)"
  using demo_script
  by (auto simp: setupLinuxPolicyRouting_def demo_uplink_parse setup_script_fields Let_def split: prod.split bool.split)

lemma demo_few: "few_rules (mset (m_rules demo_machine))"
  by (simp add: few_rules_def demo_machine_def)



section \<open>Order of the commands\<close>

text \<open>A machine that also keeps the commands it was given.\<close>

definition logged :: "'h host \<Rightarrow> ('h \<times> arg_vector list) host" where
  "logged H = \<lparr>hexec = (\<lambda>a s. case hexec H a (fst s) of (h, ok) \<Rightarrow> ((h, snd s @ [a]), ok)),
     hquery = (\<lambda>a s. hquery H a (fst s)), hexists = (\<lambda>p s. hexists H p (fst s)),
     hread = (\<lambda>p s. hread H p (fst s)),
     hwrite = (\<lambda>p v s. case hwrite H p v (fst s) of (h, ok) \<Rightarrow> ((h, snd s), ok))\<rparr>"

lemma sys_logged: "sys (logged H) c s = ((fst (sys H c (fst s)), snd s @ [argv c]), snd (sys H c (fst s)))"
  by (simp add: sys_def logged_def split_def)

text \<open>The log grows by commands of the script only.\<close>

lemma run_script_log:
  "\<exists>l. snd (fst (run_script (logged H) ss s)) = snd s @ l \<and> set l \<subseteq> argv ` set (concat (map step_cmds ss))"
  by (rule run_script_commands [where P = "\<lambda>x. \<exists>l. snd x = snd s @ l \<and> set l \<subseteq> argv ` set (concat (map step_cmds ss))"])
    (auto 4 4 simp: sys_logged)

lemma infra_steps_log:
  "run_script (logged H) (infra_steps ips) s =
     ((fst (fst (run_script (logged H) (infra_steps ips) s)), snd s @ map (\<lambda>ip. argv (RuleAddTo ip 50 100)) ips), True)"
  by (induction ips arbitrary: s) (simp_all add: infra_steps_def linux_consts try_sys_def sys_logged prod_eq_iff)

abbreviation split_cmds :: "tun_if \<Rightarrow> cmd set" where
  "split_cmds t \<equiv> {tun_route ''replace'' (js ''0.0.0.0/1'') t, tun_route ''replace'' (js ''128.0.0.0/1'') t}"

lemma split_not_before:
  assumes "c \<in> set (concat (map step_cmds (flush_steps @ [May (RouteFlush 100)] @ uplink_steps u src ips @ infra_steps ips)))"
    and "d \<in> split_cmds t"
  shows "argv c \<noteq> argv d"
proof -
  have last: "x @ js ''/32'' \<noteq> js ''0.0.0.0/1''" "x @ js ''/32'' \<noteq> js ''128.0.0.0/1''" for x
    by (auto simp: js_def append_eq_Cons_conv)
  have "c \<in> {RuleDel 101, RuleDel 100, RuleDel 50, RouteFlush 100, table_default u}
      \<or> (\<exists>ip a tb. c = ipRoute a ip u tb src) \<or> (\<exists>ip. c = RuleAddTo ip 50 100)"
    using assms(1) by (auto simp: flush_steps_def uplink_steps_def infra_steps_def linux_consts Let_def)
  then show ?thesis
    using assms(2) last by (auto simp: tun_route_def ipRoute_def)
qed

lemma append_after:
  assumes "xs @ ys = pre @ d # post" "d \<notin> set xs"
  shows "set xs \<subseteq> set pre"
proof -
  from assms(1) obtain us where "xs = pre @ us \<and> us @ ys = d # post \<or> xs @ us = pre \<and> ys = us @ d # post"
    by (auto simp: append_eq_append_conv2)
  then show ?thesis using assms(2) by (cases us) auto
qed

lemma script_bypass_first:
  assumes log: "snd (fst (run_script (logged H) (setup_script t u src ips np asd fl) (h, []))) = pre @ argv d # post"
    and d: "d \<in> split_cmds t" and ip: "ip \<in> set ips"
  shows "argv (RuleAddTo ip 50 100) \<in> set pre"
proof -
  define A where "A = flush_steps @ [May (RouteFlush 100)] @ uplink_steps u src ips"
  define B where "B = tunnel_steps t np asd @ [Must (RuleAddMark 100 (js ''0x1'') 100)] @ mark_steps fl"
  have script: "setup_script t u src ips np asd fl = A @ infra_steps ips @ B"
    by (simp add: setup_script_def A_def B_def linux_consts)
  have notA: "argv d \<notin> argv ` set (concat (map step_cmds (A @ infra_steps ips)))"
  proof
    assume "argv d \<in> argv ` set (concat (map step_cmds (A @ infra_steps ips)))"
    then obtain c where "c \<in> set (concat (map step_cmds (A @ infra_steps ips)))" "argv d = argv c"
      by (elim imageE)
    then show False using split_not_before [of c u src ips d t] d by (simp add: A_def)
  qed
  obtain hA lA okA where A: "run_script (logged H) A (h, []) = ((hA, lA), okA)"
    by (metis prod.exhaust)
  have lA: "set lA \<subseteq> argv ` set (concat (map step_cmds A))"
    using run_script_log [of H A "(h, [])"] A by auto
  show ?thesis
  proof (cases okA)
    case False
    then have "argv d \<in> set lA" using log by (simp add: script run_script_append A)
    then show ?thesis using lA notA by auto
  next
    case True
    obtain hI where I: "run_script (logged H) (infra_steps ips) (hA, lA) =
        ((hI, lA @ map (\<lambda>ip. argv (RuleAddTo ip 50 100)) ips), True)"
      using infra_steps_log [of H ips "(hA, lA)"] by auto
    obtain lB where B: "snd (fst (run_script (logged H) B (hI, lA @ map (\<lambda>ip. argv (RuleAddTo ip 50 100)) ips))) =
        (lA @ map (\<lambda>ip. argv (RuleAddTo ip 50 100)) ips) @ lB"
      using run_script_log [of H B "(hI, lA @ map (\<lambda>ip. argv (RuleAddTo ip 50 100)) ips)"] by auto
    have eq: "(lA @ map (\<lambda>ip. argv (RuleAddTo ip 50 100)) ips) @ lB = pre @ argv d # post"
      using log B by (simp add: script run_script_append A True I)
    have "argv d \<notin> set (lA @ map (\<lambda>ip. argv (RuleAddTo ip 50 100)) ips)"
    proof -
      have "set (map (\<lambda>ip. argv (RuleAddTo ip 50 100)) ips) \<subseteq> argv ` set (concat (map step_cmds (infra_steps ips)))"
        by (auto simp: infra_steps_def linux_consts simp del: argv.simps)
      then have "set (lA @ map (\<lambda>ip. argv (RuleAddTo ip 50 100)) ips) \<subseteq> argv ` set (concat (map step_cmds (A @ infra_steps ips)))"
        using lA by (simp add: image_Un del: argv.simps) blast
      then show ?thesis using notA by blast
    qed
    from append_after [OF eq this] show ?thesis using ip by auto
  qed
qed

text \<open>
  (C22) The bypass comes first. In whatever way the commands succeed or fail, whenever the set-up gives the
  machine one of the two commands that move the default route into the tunnel, it has given the command for
  the bypass rule of every (safe) infrastructure address before, so connections to the infrastructure are
  never diverted.
\<close>

theorem bypass_before_split_default:
  assumes "setupLinuxPolicyRouting (logged H) infra np asd fc t (h, []) = Inr (t', s', ok)"
    and "snd s' = pre @ argv (tun_route ''replace'' dst t) # post" "dst = js ''0.0.0.0/1'' \<or> dst = js ''128.0.0.0/1''"
    and "ip \<in> set infra" "isIpv4UplinkBypassSafe ip"
  shows "argv (RuleAddTo ip LINUX_IP_RULE_PREF_INFRA_TO LINUX_RT_TABLE_MESHVPN) \<in> set pre"
proof -
  obtain up where up: "parseLinuxDefaultUplink (logged H) (h, []) = Inr up"
    using assms(1) by (cases "parseLinuxDefaultUplink (logged H) (h, [])") (auto simp: setupLinuxPolicyRouting_def)
  show ?thesis
  proof (cases up)
    case None
    then show ?thesis using assms(1,2) up by (auto simp: setupLinuxPolicyRouting_def)
  next
    case (Some u)
    let ?src = "parseLinuxPreferredUplinkSrc (logged H) (up_iface u) (h, [])"
    let ?fl = "case fc of None \<Rightarrow> linuxFlushRouteCache t | Some b \<Rightarrow> b"
    have hw: "snd (fst (hwrite (logged H) p v s)) = snd s" for p v and s :: "'a \<times> arg_vector list"
      by (simp add: logged_def split_def)
    obtain s1 ok1 where run: "run_script (logged H) (setup_script t u ?src (excludeSet infra) np asd ?fl) (h, []) = (s1, ok1)"
      by fastforce
    have fr: "snd (fst (applyLooseRpFilterForVpn (logged H) ns s1)) = snd s1" for ns
      by (rule applyLoose_frame [of snd, OF hw])
    have "snd s' = snd s1"
      using assms(1) up Some run fr [of "up_iface u # (case tun_name t of None \<Rightarrow> [] | Some n \<Rightarrow> [n])"]
      by (cases ok1) (auto simp: setupLinuxPolicyRouting_def Let_def setup_script_fields split: prod.splits)
    then have "argv (RuleAddTo ip 50 100) \<in> set pre"
      using assms(2-5) run by (intro script_bypass_first [of H t u ?src "excludeSet infra" np asd ?fl h pre "tun_route ''replace'' dst t" post])
        (auto simp: set_excludeSet)
    then show ?thesis by (simp add: linux_consts)
  qed
qed


lemma parse_logged:
  "parseLinuxDefaultUplink (logged H) s = parseLinuxDefaultUplink H (fst s)"
  "parseLinuxPreferredUplinkSrc (logged H) i s = parseLinuxPreferredUplinkSrc H i (fst s)"
  by (simp_all add: parseLinuxDefaultUplink_def parseLinuxPreferredUplinkSrc_def logged_def)

text \<open>The least machine: nothing to delete, every other command succeeds.\<close>

definition plain_host :: "unit host" where
  "plain_host = \<lparr>hexec = (\<lambda>a m. (m, a ! 2 \<noteq> js ''del'')),
     hquery = (\<lambda>a m. Some (js ''default via 192.0.2.1 dev eth0 proto dhcp'')),
     hexists = (\<lambda>p m. False), hread = (\<lambda>p m. None), hwrite = (\<lambda>p s m. (m, True))\<rparr>"

lemma plain_parse:
  "parseLinuxDefaultUplink plain_host () = Inr (Some demo_uplink)"
  "parseLinuxPreferredUplinkSrc plain_host (up_iface demo_uplink) () = None"
  by code_simp+

theorem bypass_before_split_default_witness:
  "\<exists>t' s' pre post. setupLinuxPolicyRouting (logged plain_host) demo_infra (js ''10.200'') True None plain_tun ((), []) = Inr (t', s', True)
     \<and> snd s' = pre @ argv (tun_route ''replace'' (js ''0.0.0.0/1'') plain_tun) # post
     \<and> argv (RuleAddTo (js ''203.0.113.7'') LINUX_IP_RULE_PREF_INFRA_TO LINUX_RT_TABLE_MESHVPN) \<in> set pre"
proof -
  let ?split = "argv (Route (js ''replace'') (js ''0.0.0.0/1'') None (Some (js ''tun0'')) None None)"
  let ?run = "run_script (logged plain_host)
     (setup_script plain_tun demo_uplink None [js ''203.0.113.7'', cloudImds] (js ''10.200'') True True) ((), [])"
  have r: "snd ?run \<and> ?split \<in> set (snd (fst ?run))"
    unfolding setup_script_def demo_tunnel by code_simp
  have hw: "snd (fst (hwrite (logged plain_host) p v s)) = snd s" for p v and s :: "unit \<times> arg_vector list"
    by (simp add: logged_def split_def)
  let ?fin = "applyLooseRpFilterForVpn (logged plain_host) [up_iface demo_uplink, js ''tun0''] (fst ?run)"
  obtain s1 where s1: "?run = (s1, True)" using r by (cases ?run) simp
  have "\<exists>t'. setupLinuxPolicyRouting (logged plain_host) demo_infra (js ''10.200'') True None plain_tun ((), []) = Inr (t', fst ?fin, True)"
    by (simp add: setupLinuxPolicyRouting_def demo_uplink_parse(2) plain_parse parse_logged setup_script_fields Let_def s1 split_def)
  then obtain t' s' where s: "setupLinuxPolicyRouting (logged plain_host) demo_infra (js ''10.200'') True None plain_tun ((), []) = Inr (t', s', True)"
      "s' = fst ?fin" by blast
  have log: "snd s' = snd (fst ?run)"
    unfolding s(2) by (rule applyLoose_frame [of snd, OF hw])
  have split: "tun_route ''replace'' (js ''0.0.0.0/1'') plain_tun =
      Route (js ''replace'') (js ''0.0.0.0/1'') None (Some (js ''tun0'')) None None"
    by (simp add: tun_route_def name_text_def)
  then obtain pre post where p: "snd s' = pre @ argv (tun_route ''replace'' (js ''0.0.0.0/1'') plain_tun) # post"
    using r log split_list by metis
  have "js ''203.0.113.7'' \<in> set demo_infra" "isIpv4UplinkBypassSafe (js ''203.0.113.7'')"
    by code_simp+
  from bypass_before_split_default [OF s(1) p disjI1 [OF refl] this] s(1) p show ?thesis by blast
qed

end
