(* ===== verification/Tun_Manager.thy ===== *)
theory Tun_Manager
  imports Tun_Policy
begin

text \<open>
  The files the interface changes and puts back (\<open>resolv.conf\<close>, the reverse-path filters), what happens when
  the set-up stops half-way, and \<open>TunManager\<close> with the choice of an interface name.
\<close>

section \<open>Name servers\<close>

fun file_cmd :: "cmd \<Rightarrow> bool" where
  "file_cmd (Cp _ _) = True"
| "file_cmd (Rm _) = True"
| "file_cmd _ = False"

type_synonym resolv_view = "jsstring option \<times> bool \<times> jsstring option \<times> bool"

text \<open>Contents and existence of \<open>resolv.conf\<close> and of its copy.\<close>

definition resolv :: "'h host \<Rightarrow> 'h \<Rightarrow> resolv_view" where
  "resolv H h = (hread H resolv_conf h, hexists H resolv_conf h, hread H resolv_backup h, hexists H resolv_backup h)"

text \<open>\<open>cp\<close> of an existing file, \<open>rm\<close> and writing succeed, network commands leave the two files alone.\<close>

definition resolv_laws :: "'h host \<Rightarrow> bool" where
  "resolv_laws H \<longleftrightarrow>
     (\<forall>c h. \<not> file_cmd c \<longrightarrow> resolv H (fst (sys H c h)) = resolv H h)
     \<and> (\<forall>h x b e. resolv H h = (x, True, b, e) \<longrightarrow>
          snd (sys H (Cp resolv_conf resolv_backup) h) \<and> resolv H (fst (sys H (Cp resolv_conf resolv_backup) h)) = (x, True, x, True))
     \<and> (\<forall>h x e b. resolv H h = (x, e, b, True) \<longrightarrow>
          snd (sys H (Cp resolv_backup resolv_conf) h) \<and> resolv H (fst (sys H (Cp resolv_backup resolv_conf) h)) = (b, True, b, True))
     \<and> (\<forall>h x e b. resolv H h = (x, e, b, True) \<longrightarrow> resolv H (fst (sys H (Rm resolv_backup) h)) = (x, e, None, False))
     \<and> (\<forall>h x e b f s. resolv H h = (x, e, b, f) \<longrightarrow> resolv H (fst (hwrite H resolv_conf s h)) = (Some s, True, b, f))"

lemma resolv_laws_dest:
  assumes "resolv_laws H"
  shows "\<not> file_cmd c \<Longrightarrow> resolv H (fst (sys H c h)) = resolv H h"
    and "resolv H h = (x, True, b, e) \<Longrightarrow> resolv H (fst (sys H (Cp resolv_conf resolv_backup) h)) = (x, True, x, True)"
    and "resolv H h = (x, e, b, True) \<Longrightarrow>
      snd (sys H (Cp resolv_backup resolv_conf) h) \<and> resolv H (fst (sys H (Cp resolv_backup resolv_conf) h)) = (b, True, b, True)"
    and "resolv H h = (x, e, b, True) \<Longrightarrow> resolv H (fst (sys H (Rm resolv_backup) h)) = (x, e, None, False)"
    and "resolv H h = (x, e, b, f) \<Longrightarrow> resolv H (fst (hwrite H resolv_conf s h)) = (Some s, True, b, f)"
  using assms unfolding resolv_laws_def by metis+

lemma configureDNS_resolv:
  assumes L: "resolv_laws H" and "resolv H h = (x, True, b, e)"
  shows "resolv H (configureDNS H tb t h) = (Some resolv_text, True, if e then b else x, True)"
proof -
  define h1 where "h1 = fold (\<lambda>d. try_sys H (Route (js ''add'') (d @ js ''/32'') None (Some (name_text t)) tb None)) dnsServers h"
  have "resolv H (fold (\<lambda>d. try_sys H (Route (js ''add'') (d @ js ''/32'') None (Some (name_text t)) tb None)) ds h0) = resolv H h0" for ds h0
    by (induction ds arbitrary: h0) (simp_all add: try_sys_def resolv_laws_dest(1) [OF L])
  then have h1: "resolv H h1 = (x, True, b, e)" using assms(2) by (simp add: h1_def)
  define h2 where "h2 = (if hexists H resolv_conf h1 \<and> \<not> hexists H resolv_backup h1
      then try_sys H (Cp resolv_conf resolv_backup) h1 else h1)"
  have "hexists H resolv_conf h1" "hexists H resolv_backup h1 = e" using h1 by (simp_all add: resolv_def)
  then have "resolv H h2 = (x, True, if e then b else x, True)"
    using h1 resolv_laws_dest(2) [OF L h1] by (simp add: h2_def try_sys_def)
  then show ?thesis
    using resolv_laws_dest(5) [OF L] by (simp add: configureDNS_def Let_def flip: h1_def h2_def)
qed

lemma configureDNS_many:
  assumes "resolv_laws H" "resolv H h = (x, True, b, True)"
  shows "\<exists>y. resolv H (fold (\<lambda>(tb, t). configureDNS H tb t) calls h) = (y, True, b, True)"
  using assms(2)
proof (induction calls arbitrary: h x)
  case (Cons a calls)
  obtain tb t where a: "a = (tb, t)" by fastforce
  show ?case
    using Cons.IH [of "configureDNS H tb t h"] configureDNS_resolv [OF assms(1) Cons.prems, of tb t] by (simp add: a)
qed simp

text \<open>
  (C24) The name servers come back. Starting with a \<open>resolv.conf\<close> and no copy of it, after any number of times
  the interface redirects the name servers into the tunnel, \<open>_restoreDNS\<close> leaves \<open>resolv.conf\<close> with its
  original contents and removes the copy.
\<close>

theorem resolv_conf_restored:
  assumes "resolv_laws H" "resolv H h = (Some txt, True, None, False)"
  shows "resolv H (restoreDNS H (fold (\<lambda>(tb, t). configureDNS H tb t) calls h)) = (Some txt, True, None, False)"
proof (cases calls)
  case Nil
  then show ?thesis using assms(2) by (simp add: restoreDNS_def resolv_def)
next
  case (Cons a calls')
  obtain tb t where a: "a = (tb, t)" by fastforce
  obtain y where y: "resolv H (fold (\<lambda>(tb, t). configureDNS H tb t) calls h) = (y, True, Some txt, True)"
    using configureDNS_resolv [OF assms, of tb t] configureDNS_many [OF assms(1), of "configureDNS H tb t h"]
    by (auto simp: Cons a)
  define h1 where "h1 = fold (\<lambda>(tb, t). configureDNS H tb t) calls h"
  define h2 where "h2 = fst (sys H (Cp resolv_backup resolv_conf) h1)"
  have c: "snd (sys H (Cp resolv_backup resolv_conf) h1)" "resolv H h2 = (Some txt, True, Some txt, True)"
    using resolv_laws_dest(3) [OF assms(1) y] by (simp_all add: h1_def h2_def)
  have "hexists H resolv_backup h1" using y by (simp add: resolv_def h1_def)
  then have "restoreDNS H h1 = fst (sys H (Rm resolv_backup) h2)"
    using c(1) by (cases "sys H (Cp resolv_backup resolv_conf) h1") (simp add: restoreDNS_def try_sys_def h2_def)
  then show ?thesis
    using resolv_laws_dest(4) [OF assms(1) c(2)] by (simp add: h1_def)
qed

section \<open>Reverse-path filters\<close>

text \<open>
  Writing an existing filter succeeds and is read back up to white space; other files do not change.
\<close>

definition rp_laws :: "'h host \<Rightarrow> bool" where
  "rp_laws H \<longleftrightarrow> (\<forall>n v h. hexists H (confPath n) h \<longrightarrow>
     snd (hwrite H (confPath n) v h)
     \<and> map_option js_trim (hread H (confPath n) (fst (hwrite H (confPath n) v h))) = Some (js_trim v)
     \<and> (\<forall>m. hexists H (confPath m) (fst (hwrite H (confPath n) v h)) = hexists H (confPath m) h)
     \<and> (\<forall>m. m \<noteq> n \<longrightarrow> hread H (confPath m) (fst (hwrite H (confPath n) v h)) = hread H (confPath m) h))"

lemma trim_line: "js_trim (js_trim s @ [10]) = js_trim s"
proof -
  define t where "t = js_trim s"
  have sp: "js_space 10" by code_simp
  have hd: "t \<noteq> [] \<Longrightarrow> \<not> js_space (last t)"
    unfolding t_def js_trim_def using hd_dropWhile [of js_space "rev (dropWhile js_space s)"]
    by (auto simp: last_rev)
  have hd0: "dropWhile js_space t = t"
  proof (cases t)
    case (Cons a as)
    obtain zs where z: "dropWhile js_space s = t @ zs"
      unfolding t_def js_trim_def using takeWhile_dropWhile_id [of js_space "rev (dropWhile js_space s)"]
      by (metis rev_append rev_rev_ident)
    then have "\<not> js_space a" using hd_dropWhile [of js_space s] Cons by auto
    then show ?thesis using Cons by simp
  qed simp
  show ?thesis
    unfolding t_def [symmetric]
  proof (cases "t = []")
    case True
    then show "js_trim (t @ [10]) = t" using sp by (simp add: js_trim_def)
  next
    case False
    have "dropWhile js_space (t @ [10]) = t @ [10]"
      using hd_dropWhile [of js_space t] hd0 False by (cases t) simp_all
    moreover have "dropWhile js_space (rev t) = rev t"
      using hd [OF False] False by (cases t rule: rev_cases) auto
    ultimately show "js_trim (t @ [10]) = t" using sp by (simp add: js_trim_def)
  qed
qed

lemma trim_twice: "js_trim (js_trim s) = js_trim s"
proof -
  define t where "t = js_trim s"
  have l: "js_trim (t @ [10]) = t" unfolding t_def by (rule trim_line)
  have sp: "js_space 10" by code_simp
  have "js_trim (t @ [10]) = js_trim t"
  proof (cases "\<forall>x \<in> set t. js_space x")
    case True
    then have "\<forall>x \<in> set (t @ [10]). js_space x" using sp by simp
    then have a: "dropWhile js_space t = []" and b: "dropWhile js_space (t @ [10]) = []"
      using dropWhile_eq_Nil_conv [THEN iffD2] True by blast+
    show ?thesis unfolding js_trim_def a b ..
  next
    case False
    then show ?thesis using sp by (auto simp: js_trim_def dropWhile_append)
  qed
  then show ?thesis using l by (simp add: t_def)
qed

lemma confPath_inj [simp]: "confPath m = confPath n \<longleftrightarrow> m = n"
  by (simp add: confPath_def)

text \<open>One write of a filter, as seen through \<open>readRpFilter\<close>.\<close>

lemma write_filter:
  assumes "rp_laws H" "hexists H (confPath n) h"
  shows "snd (writeRpFilter H n v h)"
    and "readRpFilter H m (fst (writeRpFilter H n v h)) = (if m = n then Some (js_trim v) else readRpFilter H m h)"
    and "hexists H (confPath m) (fst (writeRpFilter H n v h)) = hexists H (confPath m) h"
proof -
  have w: "snd (hwrite H (confPath n) x h)
     \<and> map_option js_trim (hread H (confPath n) (fst (hwrite H (confPath n) x h))) = Some (js_trim x)
     \<and> (\<forall>m. hexists H (confPath m) (fst (hwrite H (confPath n) x h)) = hexists H (confPath m) h)
     \<and> (\<forall>m. m \<noteq> n \<longrightarrow> hread H (confPath m) (fst (hwrite H (confPath n) x h)) = hread H (confPath m) h)" for x
    using assms unfolding rp_laws_def by blast
  note w = w [of "js_trim v @ [10]"]
  show "snd (writeRpFilter H n v h)" using w by (simp add: writeRpFilter_def)
  show "hexists H (confPath m) (fst (writeRpFilter H n v h)) = hexists H (confPath m) h"
    using w by (simp add: writeRpFilter_def)
  show "readRpFilter H m (fst (writeRpFilter H n v h)) = (if m = n then Some (js_trim v) else readRpFilter H m h)"
    using w assms(2) by (simp add: writeRpFilter_def readRpFilter_def trim_line)
qed

lemma readRpFilter_exists: "readRpFilter H n h = Some v \<Longrightarrow> hexists H (confPath n) h"
  by (simp add: readRpFilter_def split: if_splits)

lemma loosen_step:
  assumes "rp_laws H"
  shows "readRpFilter H n h = None \<Longrightarrow> loosen H (n # ns) b h = loosen H ns b h"
    and "readRpFilter H n h = Some cur \<Longrightarrow>
      loosen H (n # ns) b h = loosen H ns (map_put n cur b) (fst (writeRpFilter H n (js ''2'') h))"
proof -
  show "readRpFilter H n h = None \<Longrightarrow> loosen H (n # ns) b h = loosen H ns b h" by simp
  assume r: "readRpFilter H n h = Some cur"
  have "snd (writeRpFilter H n (js ''2'') h)"
    by (rule write_filter(1) [OF assms readRpFilter_exists [OF r]])
  then show "loosen H (n # ns) b h = loosen H ns (map_put n cur b) (fst (writeRpFilter H n (js ''2'') h))"
    using r readRpFilter_exists [OF r] by (cases "writeRpFilter H n (js ''2'') h") simp
qed

lemma loosen_filters:
  assumes "rp_laws H" "distinct ns" "\<forall>n \<in> set ns. map_get b n = None" "wf_map b"
  shows "(\<forall>m. readRpFilter H m (fst (loosen H ns b h)) =
      (if m \<in> set ns \<and> readRpFilter H m h \<noteq> None then Some (js ''2'') else readRpFilter H m h))
    \<and> (\<forall>m. map_get (snd (loosen H ns b h)) m = (if m \<in> set ns then readRpFilter H m h else map_get b m))
    \<and> wf_map (snd (loosen H ns b h))"
  using assms(2-4)
proof (induction ns arbitrary: b h)
  case (Cons n ns)
  show ?case
  proof (cases "readRpFilter H n h")
    case None
    have p: "distinct ns" "\<forall>n \<in> set ns. map_get b n = None" "map_get b n = None" using Cons.prems by simp_all
    show ?thesis
      unfolding loosen_step(1) [OF assms(1) None]
      using Cons.IH [OF p(1,2) Cons.prems(3), of h] None p(3) by (simp del: loosen.simps)
  next
    case (Some cur)
    define h1 where "h1 = fst (writeRpFilter H n (js ''2'') h)"
    have two: "js_trim (js ''2'') = js ''2''" by code_simp
    have w: "readRpFilter H m h1 = (if m = n then Some (js ''2'') else readRpFilter H m h)" for m
      unfolding h1_def write_filter(2) [OF assms(1) readRpFilter_exists [OF Some]] two ..
    have p: "distinct ns" "\<forall>x \<in> set ns. map_get (map_put n cur b) x = None" "wf_map (map_put n cur b)" "n \<notin> set ns"
      using Cons.prems by auto
    note IH = Cons.IH [OF p(1-3), of h1]
    show ?thesis
      unfolding loosen_step(2) [OF assms(1) Some] h1_def [symmetric]
      using IH p(4) Some by (simp add: w)
  qed
qed simp

lemma restore_filters:
  assumes "rp_laws H" "wf_map b" "\<forall>n v. (n, v) \<in> set b \<longrightarrow> hexists H (confPath n) h \<and> js_trim v = v"
  shows "readRpFilter H m (fold (restore_one H) b h) =
    (case map_get b m of Some v \<Rightarrow> if v \<noteq> [] then Some v else readRpFilter H m h | None \<Rightarrow> readRpFilter H m h)"
  using assms(2,3)
proof (induction b arbitrary: h)
  case (Cons a b)
  obtain n v where a: "a = (n, v)" by fastforce
  have ex: "hexists H (confPath n) h" and v: "js_trim v = v" using Cons.prems(2) by (auto simp: a)
  define h1 where "h1 = restore_one H a h"
  have r1: "readRpFilter H m h1 = (if m = n \<and> v \<noteq> [] then Some v else readRpFilter H m h)" for m
    unfolding h1_def a restore_one_def by (simp add: write_filter(2) [OF assms(1) ex] v)
  have e1: "hexists H (confPath m) h1 = hexists H (confPath m) h" for m
    using write_filter(3) [OF assms(1) ex, of m v] by (simp add: h1_def a restore_one_def)
  have wf: "wf_map b" "map_get b n = None"
    using Cons.prems(1) by (auto simp: wf_map_def a map_of_eq_None_iff)
  have "readRpFilter H m (fold (restore_one H) b h1) =
    (case map_get b m of Some v \<Rightarrow> if v \<noteq> [] then Some v else readRpFilter H m h1 | None \<Rightarrow> readRpFilter H m h1)"
    using Cons.prems(2) by (intro Cons.IH wf) (auto simp: e1)
  then show ?case
    using wf(2) by (auto simp: a r1 h1_def [symmetric, unfolded a] split: option.split)
qed simp

lemma rp_names_distinct:
  assumes "js ''all'' \<notin> set ifs" "js ''default'' \<notin> set ifs"
  shows "distinct (rp_names ifs)"
proof -
  have "distinct (fold set_add xs ys) \<and> set (fold set_add xs ys) = set ys \<union> set xs" if "distinct ys" for xs ys :: "jsstring list"
    using that by (induction xs arbitrary: ys) auto
  then show ?thesis using assms by (simp add: rp_names_def)
qed

text \<open>
  The reverse-path filters come back. While policy routing is on, the filter of every listed interface
  that has one is loose (2); restoring the snapshot gives every interface the value it had before (unless the
  file was empty), on a machine where filters can be written and no interface is called \<open>all\<close> or \<open>default\<close>.
\<close>

theorem rp_filter_restored:
  assumes "rp_laws H" "js ''all'' \<notin> set ifs" "js ''default'' \<notin> set ifs"
    and "applyLooseRpFilterForVpn H ifs h = (h', backup)" "readRpFilter H n h \<noteq> Some []"
  shows "(n \<in> set (rp_names ifs) \<and> readRpFilter H n h \<noteq> None \<longrightarrow> readRpFilter H n h' = Some (js ''2''))
    \<and> readRpFilter H n (restoreRpFilterBackup H backup h') = readRpFilter H n h"
proof -
  obtain b where l: "loosen H (rp_names ifs) [] h = (h', b)" and b: "backup = (if b = [] then None else Some b)"
    using assms(4) by (auto simp: applyLooseRpFilterForVpn_def split: prod.splits)
  have "\<forall>m. readRpFilter H m h' = (if m \<in> set (rp_names ifs) \<and> readRpFilter H m h \<noteq> None then Some (js ''2'') else readRpFilter H m h)"
    and m: "\<forall>m. map_get b m = (if m \<in> set (rp_names ifs) then readRpFilter H m h else None)"
    and wf: "wf_map b"
    using loosen_filters [OF assms(1) rp_names_distinct [OF assms(2,3)], of "[]" h] l by simp_all
  then have r: "readRpFilter H m h' = (if m \<in> set (rp_names ifs) \<and> readRpFilter H m h \<noteq> None then Some (js ''2'') else readRpFilter H m h)" for m
    by blast
  have ent: "hexists H (confPath k) h' \<and> js_trim v = v" if "(k, v) \<in> set b" for k v
  proof -
    have "map_get b k = Some v" using that wf by (simp add: wf_map_get_iff)
    then have k: "k \<in> set (rp_names ifs)" "readRpFilter H k h = Some v" using m by (auto split: if_splits)
    then have "readRpFilter H k h' = Some (js ''2'')" by (simp add: r)
    moreover have "js_trim v = v"
      using k(2) by (auto simp: readRpFilter_def trim_twice split: if_splits)
    ultimately show ?thesis using readRpFilter_exists [of H k h'] by simp
  qed
  have "restoreRpFilterBackup H backup h' = fold (restore_one H) b h'"
    by (simp add: restoreRpFilterBackup_def b)
  moreover have "readRpFilter H n (fold (restore_one H) b h') =
      (case map_get b n of Some v \<Rightarrow> if v \<noteq> [] then Some v else readRpFilter H n h' | None \<Rightarrow> readRpFilter H n h')"
    by (rule restore_filters [OF assms(1) wf]) (use ent in blast)
  ultimately have "readRpFilter H n (restoreRpFilterBackup H backup h') = readRpFilter H n h"
    using m [rule_format, of n] r [of n] assms(5) by (auto split: option.splits if_splits)
  then show ?thesis by (simp add: r)
qed

section \<open>When the set-up stops half-way\<close>

lemma flush_leaves:
  assumes "rule_laws H R"
  shows "size (at_pref p (R (flushIpRulePref H p n h))) = size (at_pref p (R h)) - n"
proof (induction n arbitrary: h)
  case (Suc n)
  show ?case
  proof (cases "\<exists>r \<in># R h. fst r = p")
    case True
    then obtain r where r: "snd (sys H (RuleDel p) h)" "r \<in># R h" "fst r = p"
        "R (fst (sys H (RuleDel p) h)) = R h - {#r#}"
      using rule_laws_del(1) [OF assms] by blast
    then have "size (at_pref p (R (fst (sys H (RuleDel p) h)))) = size (at_pref p (R h)) - 1"
      by (simp add: size_Diff_singleton)
    then show ?thesis
      using Suc.IH [of "fst (sys H (RuleDel p) h)"] r(1) by (cases "sys H (RuleDel p) h") simp
  next
    case False
    then have "\<not> snd (sys H (RuleDel p) h)" "R (fst (sys H (RuleDel p) h)) = R h" "at_pref p (R h) = {#}"
      using rule_laws_del(2) [OF assms, of h p] by (blast, blast, simp)
    then show ?thesis by (cases "sys H (RuleDel p) h") (simp del: filter_mset_eq_mempty_iff)
  qed
qed simp

text \<open>
  With more than 32 addresses (public STUN pools have many, and all their A records are added) the flush,
  bounded by 32 attempts, leaves rules behind, in the restore as in the next set-up.
\<close>

theorem infra_rules_left_behind:
  assumes "rule_laws H R" "linuxPolicyRoutingActive t" "size (at_pref 50 (R h)) > 32"
  shows "at_pref 50 (R (snd (restoreLinuxPolicyRouting H t h))) \<noteq> {#}"
proof -
  have quiet: "R (try_sys H c x) = R x" if "\<not> rule_cmd c" for c x
    using rule_laws_frame(1) [OF assms(1) that] by (simp add: try_sys_def)
  have del: "R (fold (del_infra_route H) ips x) = R x" for ips x
    by (induction ips arbitrary: x) (auto simp: del_infra_route_def quiet)
  define h1 where "h1 = try_sys H (MangleDrop IPTABLES_CHAIN_MESHVPN) (try_sys H (MangleFlush IPTABLES_CHAIN_MESHVPN)
      (try_sys H (MangleDelete IPTABLES_CHAIN_MESHVPN) (restoreRpFilterBackup H (linuxRpFilterBackup t) h)))"
  have R1: "R h1 = R h"
    unfolding h1_def using rule_laws_frame(2) [OF assms(1)] by (simp add: quiet restoreRp_frame)
  have "R (snd (restoreLinuxPolicyRouting H t h)) =
      R (flushIpRulePref H 50 32 (flushIpRulePref H 100 6 (flushIpRulePref H 101 6 h1)))"
    using assms(2) by (simp add: restoreLinuxPolicyRouting_def Let_def linux_consts quiet del tun_route_def h1_def
        split: option.split)
  then have "size (at_pref 50 (R (snd (restoreLinuxPolicyRouting H t h)))) = size (at_pref 50 (R h)) - 32"
    using flush_other [OF assms(1), of 50 100 6] flush_other [OF assms(1), of 50 101 6]
    by (simp add: flush_leaves [OF assms(1)] R1)
  then show ?thesis using assms(3) by (metis size_empty zero_less_diff less_irrefl)
qed

text \<open>
  When a command in the middle fails, the set-up answers \<open>false\<close> and the interface does not count as active:
  restoring does nothing, and the rules and routes added up to then stay.
\<close>

theorem failed_setup_not_undone:
  assumes "setupLinuxPolicyRouting H infra np asd fc t h = Inr (t', h', False)" "\<not> linuxPolicyRoutingActive t"
  shows "restoreLinuxPolicyRouting H t' h' = (t', h')"
proof -
  have "\<not> linuxPolicyRoutingActive t'"
    using assms by (cases "parseLinuxDefaultUplink H h")
      (auto simp: setupLinuxPolicyRouting_def Let_def split: option.splits prod.splits bool.splits)
  then show ?thesis by (simp add: restoreLinuxPolicyRouting_def)
qed

text \<open>
  If the default routes cannot be moved when the interface comes up after an early set-up, they never are:
  the deferred phase finds the early set-up done, only sets the name servers and ends the deferral.
\<close>

theorem split_default_not_retried:
  assumes "assignIpAndBringUp H ip t h = Inr (t1, h1, es)"
    and "linuxSplitDefault t" "splitDefaultOnlyDeferred t" "\<And>h. \<not> snd (split_default H (t\<lparr>tun_virtualIp := Some ip\<rparr>) h)"
    and "infraAppliedEarly t" "linuxPolicyRoutingActive t"
    and "applyDeferred_finish H infra np fresh t1 h2 = Inr (t2, h3)"
  shows "splitDefaultOnlyDeferred t2 \<and> \<not> policyRoutingDeferred t2 \<and> applyDeferred_start H t2 h4 = None"
proof -
  have "t1 = t\<lparr>tun_virtualIp := Some ip, tun_running := True\<rparr>"
    using assms(1-3) by (auto simp: assignIpAndBringUp_def Let_def ebind_Inr_iff split_def assms(4))
  then have "splitDefaultOnlyDeferred t1" "infraAppliedEarly t1" "linuxPolicyRoutingActive t1"
    using assms(3,5,6) by simp_all
  then have "splitDefaultOnlyDeferred t2 \<and> \<not> policyRoutingDeferred t2"
    using assms(7)
    by (auto simp: applyDeferred_finish_def finalizeDeferredPolicyRoutingTail_def Let_def split: if_splits)
  then show ?thesis by (simp add: applyDeferred_start_def)
qed

section \<open>A machine with files\<close>

text \<open>Two instances of the laws above: files as a list of paths and contents.\<close>

type_synonym files = "(jsstring \<times> jsstring) list"

definition file_exec :: "arg_vector \<Rightarrow> files \<Rightarrow> files \<times> bool" where
  "file_exec a fs =
     (if a ! 0 = js ''cp'' then
        (case map_get fs (a ! 1) of None \<Rightarrow> (fs, False) | Some v \<Rightarrow> (map_put (a ! 2) v fs, True))
      else if a ! 0 = js ''rm'' then (map_del (a ! 1) fs, True)
      else (fs, True))"

definition file_host :: "files host" where
  "file_host = \<lparr>hexec = file_exec, hquery = (\<lambda>a fs. None), hexists = (\<lambda>p fs. map_get fs p \<noteq> None),
     hread = (\<lambda>p fs. map_get fs p), hwrite = (\<lambda>p s fs. (map_put p s fs, True))\<rparr>"

lemma file_resolv_laws: "resolv_laws file_host"
proof -
  have ne: "resolv_conf \<noteq> resolv_backup" by (simp add: resolv_conf_def resolv_backup_def)
  have net: "fst (sys file_host c fs) = fs" if "\<not> file_cmd c" for c fs
    using that by (cases c) (simp_all add: sys_def file_host_def file_exec_def)
  show ?thesis
    unfolding resolv_laws_def
    using ne by (intro conjI allI impI)
      (simp add: net, auto simp: resolv_def sys_def file_host_def file_exec_def)
qed

lemma file_rp_laws: "rp_laws file_host"
  by (auto simp: rp_laws_def file_host_def)

theorem resolv_conf_restored_witness:
  "resolv file_host (restoreDNS file_host (fold (\<lambda>(tb, t). configureDNS file_host tb t)
     [(None, plain_tun), (Some 100, plain_tun)] [(resolv_conf, js ''nameserver 192.0.2.53'')]))
   = (Some (js ''nameserver 192.0.2.53''), True, None, False)"
proof -
  have "resolv file_host [(resolv_conf, js ''nameserver 192.0.2.53'')] = (Some (js ''nameserver 192.0.2.53''), True, None, False)"
    by (simp add: resolv_def file_host_def resolv_conf_def resolv_backup_def)
  from resolv_conf_restored [OF file_resolv_laws this] show ?thesis .
qed

theorem rp_filter_restored_witness:
  "(\<exists>h' b. applyLooseRpFilterForVpn file_host [js ''eth0''] [(confPath (js ''eth0''), js ''1'')] = (h', b)
     \<and> readRpFilter file_host (js ''eth0'') h' = Some (js ''2'')
     \<and> readRpFilter file_host (js ''eth0'') (restoreRpFilterBackup file_host b h') = Some (js ''1''))"
proof -
  obtain h' b where a: "applyLooseRpFilterForVpn file_host [js ''eth0''] [(confPath (js ''eth0''), js ''1'')] = (h', b)"
    by fastforce
  have one: "js_trim (js ''1'') = js ''1''" by code_simp
  then have r: "readRpFilter file_host (js ''eth0'') [(confPath (js ''eth0''), js ''1'')] = Some (js ''1'')"
    by (simp add: readRpFilter_def file_host_def)
  have "js ''eth0'' \<in> set (rp_names [js ''eth0''])" by code_simp
  then show ?thesis
    using rp_filter_restored [OF file_rp_laws _ _ a, of "js ''eth0''"] a r by (simp add: js_def)
qed

section \<open>Names of interfaces\<close>

text \<open>\<open>while (used.includes(i)) i++\<close>\<close>

function nextFreeIndex :: "nat list \<Rightarrow> nat \<Rightarrow> nat" where
  "nextFreeIndex used i = (if i \<in> set used then nextFreeIndex used (Suc i) else i)"
  by pat_completeness auto
termination
proof (relation "measure (\<lambda>(used, i). card {x \<in> set used. i \<le> x})")
  fix used and i :: nat
  assume "i \<in> set used"
  then have "i \<in> {x \<in> set used. i \<le> x}" "i \<notin> {x \<in> set used. Suc i \<le> x}" by auto
  moreover have "{x \<in> set used. Suc i \<le> x} \<subseteq> {x \<in> set used. i \<le> x}" by auto
  ultimately have "{x \<in> set used. Suc i \<le> x} \<subset> {x \<in> set used. i \<le> x}" by blast
  then have "card {x \<in> set used. Suc i \<le> x} < card {x \<in> set used. i \<le> x}"
    by (rule psubset_card_mono [rotated]) simp
  then show "((used, Suc i), (used, i)) \<in> measure (\<lambda>(used, i). card {x \<in> set used. i \<le> x})"
    by (simp only: in_measure prod.case)
qed simp

declare nextFreeIndex.simps [simp del]

definition parse_index :: "jsstring \<Rightarrow> nat option" where
  "parse_index s = (let ds = takeWhile digit s in if ds = [] then None else Some (from_radix 10 ds))"

definition findFreeUtunIndex :: "jsstring option \<Rightarrow> nat" where
  "findFreeUtunIndex ifconfig_output =
     (case ifconfig_output of None \<Rightarrow> 0
      | Some out \<Rightarrow>
          nextFreeIndex (List.map_filter (\<lambda>n. parse_index (drop 4 n))
            (filter (starts_with (js ''utun'')) (split_on 32 (js_trim out)))) 0)"

text \<open>All matches of \<open>/tun(\d+):/g\<close>, from left to right.\<close>

function tun_indices :: "jsstring \<Rightarrow> nat list" where
  "tun_indices s =
     (if s = [] then []
      else let ds = takeWhile digit (drop 3 s) in
        if starts_with (js ''tun'') s \<and> ds \<noteq> [] \<and> take 1 (drop (3 + length ds) s) = [58]
        then from_radix 10 ds # tun_indices (drop (4 + length ds) s)
        else tun_indices (tl s))"
  by pat_completeness auto
termination by (relation "measure length") simp_all

declare tun_indices.simps [simp del]

definition findFreeTunName :: "jsstring option \<Rightarrow> jsstring" where
  "findFreeTunName link_output =
     (case link_output of None \<Rightarrow> js ''tun0''
      | Some out \<Rightarrow> js ''tun'' @ dec (nextFreeIndex (tun_indices out) 0))"

lemma nextFreeIndex_least:
  "nextFreeIndex used i \<notin> set used \<and> i \<le> nextFreeIndex used i \<and> (\<forall>k. i \<le> k \<and> k < nextFreeIndex used i \<longrightarrow> k \<in> set used)"
proof (induction used i rule: nextFreeIndex.induct)
  case (1 used i)
  show ?case
  proof (cases "i \<in> set used")
    case True
    show ?thesis
    proof -
      have e: "nextFreeIndex used i = nextFreeIndex used (Suc i)" using True by (subst nextFreeIndex.simps) simp
      show ?thesis unfolding e using 1 [OF True] True by (metis Suc_leD Suc_leI le_neq_implies_less)
    qed
  next
    case False
    then show ?thesis by (subst (1 2 3) nextFreeIndex.simps) auto
  qed
qed

section \<open>TunManager\<close>

record tun_mgr =
  mgr_tun :: "tun_if option"
  mgr_virtualIp :: "jsstring option"

definition new_TunManager :: tun_mgr where
  "new_TunManager = \<lparr>mgr_tun = None, mgr_virtualIp = None\<rparr>"

definition mgr_setupEarly :: "os_platform \<Rightarrow> tun_config \<Rightarrow> tun_mgr \<Rightarrow> tun_mgr" where
  "mgr_setupEarly pf config m = m\<lparr>mgr_tun := Some (new_TunInterface pf (config\<lparr>tc_virtualIp := None\<rparr>))\<rparr>"

text \<open>
  \<open>setup\<close> with an interface that \<open>setupEarly\<close> has created answers at once; otherwise it creates one, and
  \<open>mgr_opened\<close> is what follows once the promise of opening is settled.
\<close>

definition mgr_setup :: "'h host \<Rightarrow> os_platform \<Rightarrow> tun_config \<Rightarrow> jsstring \<Rightarrow> tun_mgr \<Rightarrow> 'h \<Rightarrow> tun_mgr \<times> 'h \<times> bool option" where
  "mgr_setup H pf config virtualIp m h =
     (let m = m\<lparr>mgr_virtualIp := Some virtualIp\<rparr> in
      case mgr_tun m of
        Some t \<Rightarrow>
          (case assignIpAndBringUp H virtualIp t h of
             Inl _ \<Rightarrow> (m\<lparr>mgr_tun := None\<rparr>, h, Some False)
           | Inr (t, h, _) \<Rightarrow> (m\<lparr>mgr_tun := Some t\<rparr>, h, Some True))
      | None \<Rightarrow> (m\<lparr>mgr_tun := Some (new_TunInterface pf (config\<lparr>tc_virtualIp := Some virtualIp\<rparr>))\<rparr>, h, None))"

definition mgr_opened :: "open_promise \<Rightarrow> tun_mgr \<Rightarrow> tun_mgr \<times> bool" where
  "mgr_opened r m =
     (case mgr_tun m of
        None \<Rightarrow> (m, False)
      | Some t \<Rightarrow>
          if r = OpenResolved then (m\<lparr>mgr_tun := Some (fst (open_settled r t))\<rparr>, True)
          else (m\<lparr>mgr_tun := None\<rparr>, False))"

definition injectPacket :: "buffer \<Rightarrow> tun_mgr \<Rightarrow> tun_mgr \<times> bool" where
  "injectPacket packet m =
     (case mgr_tun m of
        None \<Rightarrow> (m, False)
      | Some t \<Rightarrow> (case tun_write packet t of (t, _, ok) \<Rightarrow> (m\<lparr>mgr_tun := Some t\<rparr>, ok)))"

definition mgr_shutdown :: "'h host \<Rightarrow> tun_mgr \<Rightarrow> 'h \<Rightarrow> tun_mgr \<times> 'h" where
  "mgr_shutdown H m h =
     (case mgr_tun m of
        None \<Rightarrow> (m, h)
      | Some t \<Rightarrow> (m\<lparr>mgr_tun := None\<rparr>, fst (snd (close_tun H t h))))"

text \<open>\<open>applyDeferredPolicyRouting\<close>, before and after its \<open>await\<close>.\<close>

definition mgr_applyDeferred_start :: "'h host \<Rightarrow> tun_mgr \<Rightarrow> 'h \<Rightarrow> ('h \<times> jsstring list \<times> jsstring) option" where
  "mgr_applyDeferred_start H m h = (case mgr_tun m of None \<Rightarrow> None | Some t \<Rightarrow> applyDeferred_start H t h)"

definition mgr_applyDeferred_finish :: "'h host \<Rightarrow> jsstring list \<Rightarrow> jsstring \<Rightarrow> jsstring list option \<Rightarrow> tun_mgr \<Rightarrow> 'h \<Rightarrow> (tun_mgr \<times> 'h) res" where
  "mgr_applyDeferred_finish H infra netPrefix fresh m h =
     (case mgr_tun m of
        None \<Rightarrow> Inr (m, h)
      | Some t \<Rightarrow>
          ebind (applyDeferred_finish H infra netPrefix fresh t h) (\<lambda>(t, h). Inr (m\<lparr>mgr_tun := Some t\<rparr>, h)))"

definition mgr_isRunning :: "tun_mgr \<Rightarrow> bool" where
  "mgr_isRunning m \<longleftrightarrow> (case mgr_tun m of None \<Rightarrow> False | Some t \<Rightarrow> tun_running t)"

definition getInterfaceName :: "tun_mgr \<Rightarrow> jsstring option" where
  "getInterfaceName m = (case mgr_tun m of None \<Rightarrow> None | Some t \<Rightarrow> tun_name t)"

lemma assign_running: "assignIpAndBringUp H ip t h = Inr (t', h', es) \<Longrightarrow> tun_running t'"
  by (auto simp: assignIpAndBringUp_def Let_def ebind_Inr_iff split_def)

lemma mgr_setup_running:
  "snd (snd (mgr_setup H pf config ip m h)) = Some ok \<Longrightarrow> mgr_isRunning (fst (mgr_setup H pf config ip m h)) = ok"
  using assign_running by (fastforce simp: mgr_setup_def mgr_isRunning_def Let_def split: option.splits sum.splits prod.splits)

lemma mgr_opened_running: "mgr_isRunning (fst (mgr_opened r m)) = snd (mgr_opened r m) \<or> mgr_tun m = None"
  by (auto simp: mgr_opened_def mgr_isRunning_def open_settled_def split: option.splits)

lemma inject_needs_running: "snd (injectPacket p m) \<Longrightarrow> mgr_isRunning m"
  by (auto simp: injectPacket_def mgr_isRunning_def tun_write_def split: option.splits if_splits prod.splits)

lemma shutdown_stops: "\<not> mgr_isRunning (fst (mgr_shutdown H m h))"
  by (simp add: mgr_shutdown_def mgr_isRunning_def split: option.split)

end
