(* ===== verification/Host_NAT.thy ===== *)
theory Host_NAT
  imports Tun_Manager
begin

text \<open>
  \<open>src/exit/nat-manager.js\<close>: address translation by the operating system of an exit node. The machine is the
  record \<open>host\<close> of \<open>Tun_Routing\<close>, with the directory calls in a second record. A command given as a line to the
  shell is one word.
\<close>

section \<open>State and commands\<close>

record nat_mgr =
  nm_platform :: os_platform
  nm_enabled :: bool
  nm_tunInterface :: "jsstring option"
  nm_externalInterface :: "jsstring option"
  nm_backupCreated :: bool
  nm_rpFilterBackup :: "(jsstring \<times> jsstring) list option"

definition new_NATManager :: "os_platform \<Rightarrow> nat_mgr" where
  "new_NATManager pf = \<lparr>nm_platform = pf, nm_enabled = False, nm_tunInterface = None, nm_externalInterface = None,
     nm_backupCreated = False, nm_rpFilterBackup = None\<rparr>"

record 'h dir_ops =
  dmkdir :: "jsstring \<Rightarrow> 'h \<Rightarrow> 'h \<times> bool"
  dlist :: "jsstring \<Rightarrow> 'h \<Rightarrow> jsstring list option"
  dunlink :: "jsstring \<Rightarrow> 'h \<Rightarrow> 'h \<times> bool"
  drmdir :: "jsstring \<Rightarrow> 'h \<Rightarrow> 'h \<times> bool"

text \<open>The three packet filter rules of the exit, and what the code does with one of them.\<close>

datatype fw_rule = Masquerade jsstring | ForwardIn | ForwardOut

datatype fw_op = FwCheck | FwAdd | FwDelete

fun fw_flag :: "fw_op \<Rightarrow> string" where
  "fw_flag FwCheck = ''-C''"
| "fw_flag FwAdd = ''-A''"
| "fw_flag FwDelete = ''-D''"

fun fw_line :: "fw_op \<Rightarrow> fw_rule \<Rightarrow> jsstring" where
  "fw_line f (Masquerade i) =
     js ''sudo iptables -t nat '' @ js (fw_flag f) @ js '' POSTROUTING -s 10.200.0.0/16 -o '' @ i @ js '' -j MASQUERADE''"
| "fw_line f ForwardIn = js ''sudo iptables '' @ js (fw_flag f) @ js '' FORWARD -i tun+ -j ACCEPT''"
| "fw_line f ForwardOut = js ''sudo iptables '' @ js (fw_flag f) @ js '' FORWARD -o tun+ -j ACCEPT''"

definition shell :: "'h host \<Rightarrow> jsstring \<Rightarrow> 'h \<Rightarrow> 'h \<times> bool" where
  "shell H line h = hexec H [line] h"

definition shell_out :: "'h host \<Rightarrow> jsstring \<Rightarrow> 'h \<Rightarrow> jsstring option" where
  "shell_out H line h = hquery H [line] h"

definition sysctl_line :: "os_platform \<Rightarrow> jsstring \<Rightarrow> jsstring" where
  "sysctl_line pf v =
     (if pf = Darwin then js ''sudo sysctl -w net.inet.ip.forwarding='' else js ''sudo sysctl -w net.ipv4.ip_forward='') @ v"

section \<open>Backup\<close>

definition backup_path :: "jsstring \<Rightarrow> string \<Rightarrow> jsstring" where
  "backup_path dir file = dir @ js ''/'' @ js file"

definition detectExternalInterface :: "'h host \<Rightarrow> nat_mgr \<Rightarrow> 'h \<Rightarrow> jsstring option" where
  "detectExternalInterface H m h =
     (case nm_platform m of
        Linux \<Rightarrow>
          Option.bind (shell_out H (js ''ip route | grep default | head -1'') h)
            (match_in (\<lambda>s. if starts_with (js ''dev'') s then Option.bind (spaces (drop 3 s)) nonspace else None))
      | Darwin \<Rightarrow>
          Option.bind (shell_out H (js ''route -n get default 2>/dev/null'') h)
            (match_in (\<lambda>s. if starts_with (js ''interface:'') s then nonspace (dropWhile js_space (drop 10 s)) else None))
      | OtherPlatform _ \<Rightarrow> None)"

text \<open>
  A sequence of calls that a thrown error ends: the state of the machine and whether all went well so far.
\<close>

definition andthen :: "'h \<times> bool \<Rightarrow> ('h \<Rightarrow> 'h \<times> bool) \<Rightarrow> 'h \<times> bool" where
  "andthen r f = (if snd r then f (fst r) else r)"

definition ensureBackupDir :: "'h host \<Rightarrow> 'h dir_ops \<Rightarrow> jsstring \<Rightarrow> 'h \<Rightarrow> 'h \<times> bool" where
  "ensureBackupDir H D dir h = (if hexists H dir h then (h, True) else dmkdir D dir h)"

text \<open>
  A rule set saved by a command inside a \<open>try\<close> block of its own; when the command or the write fails, macOS
  writes a fallback instead, Linux writes nothing.
\<close>

definition save_output :: "'h host \<Rightarrow> jsstring \<Rightarrow> (jsstring \<Rightarrow> jsstring) \<Rightarrow> jsstring \<Rightarrow> jsstring option \<Rightarrow> 'h \<Rightarrow> 'h \<times> bool" where
  "save_output H line f p fallback h =
     (case (case shell_out H line h of None \<Rightarrow> (h, False) | Some out \<Rightarrow> hwrite H p (f out) h) of
        (h, True) \<Rightarrow> (h, True)
      | (h, False) \<Rightarrow> (case fallback of None \<Rightarrow> (h, True) | Some v \<Rightarrow> hwrite H p v h))"

definition save_forwarding :: "'h host \<Rightarrow> jsstring \<Rightarrow> jsstring \<Rightarrow> 'h \<Rightarrow> 'h \<times> bool" where
  "save_forwarding H dir line h =
     (case shell_out H line h of
        None \<Rightarrow> (h, False)
      | Some out \<Rightarrow> hwrite H (backup_path dir ''ip_forward'') (js_trim out) h)"

definition pf_status_of :: "jsstring \<Rightarrow> jsstring" where
  "pf_status_of out = (if text_includes (js ''Status: Enabled'') out then js ''enabled'' else js ''disabled'')"

definition or_empty :: "jsstring option \<Rightarrow> jsstring" where
  "or_empty x = (case x of None \<Rightarrow> [] | Some s \<Rightarrow> s)"

definition save_platform :: "'h host \<Rightarrow> jsstring \<Rightarrow> os_platform \<Rightarrow> 'h \<Rightarrow> 'h \<times> bool" where
  "save_platform H dir pf h =
     (case pf of
        Linux \<Rightarrow>
          andthen (save_forwarding H dir (js ''cat /proc/sys/net/ipv4/ip_forward'') h)
            (save_output H (js ''sudo iptables-save 2>/dev/null'') id (backup_path dir ''iptables.rules'') None)
      | Darwin \<Rightarrow>
          andthen (andthen (andthen (save_forwarding H dir (js ''sysctl -n net.inet.ip.forwarding'') h)
            (save_output H (js ''sudo pfctl -sn 2>/dev/null'') id (backup_path dir ''pf_nat.rules'') (Some [])))
            (save_output H (js ''sudo pfctl -sr 2>/dev/null'') id (backup_path dir ''pf_filter.rules'') (Some [])))
            (save_output H (js ''sudo pfctl -s info 2>/dev/null'') pf_status_of (backup_path dir ''pf_status'') (Some (js ''disabled'')))
      | OtherPlatform _ \<Rightarrow> (h, True))"

text \<open>\<open>_saveBackup\<close>: only creating the directory is outside the \<open>try\<close> block and can throw.\<close>

definition saveBackup :: "'h host \<Rightarrow> 'h dir_ops \<Rightarrow> jsstring \<Rightarrow> nat_mgr \<Rightarrow> 'h \<Rightarrow> (nat_mgr \<times> 'h) res" where
  "saveBackup H D dir m h =
     (case ensureBackupDir H D dir h of
        (h, False) \<Rightarrow> Inl (Err ''mkdir failed'')
      | (h, True) \<Rightarrow>
          (case andthen (andthen (save_platform H dir (nm_platform m) h)
                 (hwrite H (backup_path dir ''interface'') (or_empty (nm_externalInterface m))))
                 (hwrite H (backup_path dir ''tun_interface'') (or_empty (nm_tunInterface m))) of
             (h, ok) \<Rightarrow> Inr (if ok then m\<lparr>nm_backupCreated := True\<rparr> else m, h)))"

definition readBackupFile :: "'h host \<Rightarrow> jsstring \<Rightarrow> string \<Rightarrow> 'h \<Rightarrow> jsstring option" where
  "readBackupFile H dir file h =
     (if hexists H (backup_path dir file) h then map_option js_trim (hread H (backup_path dir file) h) else None)"

section \<open>Enabling\<close>

text \<open>A rule is added unless the check before it finds it.\<close>

definition fw_ensure :: "'h host \<Rightarrow> fw_rule \<Rightarrow> 'h \<Rightarrow> 'h \<times> bool" where
  "fw_ensure H r h =
     (case shell H (fw_line FwCheck r @ js '' 2>/dev/null'') h of
        (h, True) \<Rightarrow> (h, True)
      | (h, False) \<Rightarrow> shell H (fw_line FwAdd r) h)"

definition enableLinux :: "'h host \<Rightarrow> nat_mgr \<Rightarrow> 'h \<Rightarrow> nat_mgr \<times> 'h \<times> bool" where
  "enableLinux H m h =
     (case andthen (andthen (andthen (shell H (sysctl_line Linux (js ''1'')) h)
             (fw_ensure H (Masquerade (or_empty (nm_externalInterface m)))))
             (fw_ensure H ForwardIn))
             (fw_ensure H ForwardOut) of
        (h, False) \<Rightarrow> (m, h, False)
      | (h, True) \<Rightarrow>
          (case applyLooseRpFilterForVpn H [or_empty (nm_externalInterface m), or_empty (nm_tunInterface m)] h of
             (h, backup) \<Rightarrow> (m\<lparr>nm_rpFilterBackup := backup\<rparr>, h, True)))"

definition join_lines :: "jsstring list \<Rightarrow> jsstring" where
  "join_lines ls = (case ls of [] \<Rightarrow> [] | l # ls \<Rightarrow> l @ concat (map (\<lambda>x. 10 # x) ls))"

definition pf_config :: "jsstring \<Rightarrow> jsstring \<Rightarrow> jsstring \<Rightarrow> jsstring \<Rightarrow> jsstring" where
  "pf_config ext tun existingNat existingRules =
     (let natRule = js ''nat on '' @ ext @ js '' from 10.200.0.0/16 to any -> ('' @ ext @ js '')'';
          passRules = join_lines
            [js ''pass in on '' @ tun @ js '' from 10.200.0.0/16 to any'',
             js ''pass out on '' @ ext @ js '' from any to any'',
             js ''pass in on '' @ ext @ js '' from any to any'',
             js ''pass out on '' @ tun @ js '' from any to 10.200.0.0/16''] in
      join_lines (filter (\<lambda>s. s \<noteq> []) [existingNat, natRule, existingRules, passRules]))"

definition trimmed_output :: "'h host \<Rightarrow> jsstring \<Rightarrow> 'h \<Rightarrow> jsstring" where
  "trimmed_output H line h = (case shell_out H line h of None \<Rightarrow> [] | Some out \<Rightarrow> js_trim out)"

text \<open>The name of the temporary file, which contains the process id, is an argument.\<close>

definition enableMacOS :: "'h host \<Rightarrow> 'h dir_ops \<Rightarrow> jsstring \<Rightarrow> nat_mgr \<Rightarrow> 'h \<Rightarrow> 'h \<times> bool" where
  "enableMacOS H D tempFile m h =
     andthen (shell H (sysctl_line Darwin (js ''1'')) h) (\<lambda>h.
       let config = pf_config (or_empty (nm_externalInterface m)) (case nm_tunInterface m of None \<Rightarrow> js ''null'' | Some n \<Rightarrow> n)
             (trimmed_output H (js ''sudo pfctl -sn 2>/dev/null'') h) (trimmed_output H (js ''sudo pfctl -sr 2>/dev/null'') h) in
       andthen (hwrite H tempFile (config @ [10]) h) (\<lambda>h.
         let h = fst (shell H (js ''sudo pfctl -e 2>/dev/null'') h) in
         case shell H (js ''sudo pfctl -f '' @ tempFile) h of (h, ok) \<Rightarrow> (fst (dunlink D tempFile h), ok)))"

definition enable_nat :: "'h host \<Rightarrow> 'h dir_ops \<Rightarrow> jsstring \<Rightarrow> jsstring \<Rightarrow> jsstring option \<Rightarrow> jsstring option \<Rightarrow> nat_mgr \<Rightarrow> 'h \<Rightarrow> (nat_mgr \<times> 'h \<times> bool) res" where
  "enable_nat H D dir tempFile tunInterface externalInterface m h =
     (if nm_enabled m then Inr (m, h, True)
      else
        let ext = (case externalInterface of
              Some e \<Rightarrow> if e = [] then detectExternalInterface H m h else Some e
            | None \<Rightarrow> detectExternalInterface H m h);
            m = m\<lparr>nm_tunInterface := tunInterface, nm_externalInterface := ext\<rparr> in
        if ext = None then Inr (m, h, False)
        else ebind (saveBackup H D dir m h) (\<lambda>(m, h).
          case (case nm_platform m of
                  Linux \<Rightarrow> enableLinux H m h
                | Darwin \<Rightarrow> (case enableMacOS H D tempFile m h of (h, ok) \<Rightarrow> (m, h, ok))
                | OtherPlatform _ \<Rightarrow> (m, h, False)) of
            (m, h, ok) \<Rightarrow> Inr (if ok then m\<lparr>nm_enabled := True\<rparr> else m, h, ok)))"

section \<open>Disabling\<close>

text \<open>Restoring the forwarding flag is the only step of \<open>_disableLinux\<close> that can throw.\<close>

definition restore_forwarding :: "'h host \<Rightarrow> jsstring \<Rightarrow> os_platform \<Rightarrow> 'h \<Rightarrow> 'h \<times> bool" where
  "restore_forwarding H dir pf h =
     (case readBackupFile H dir ''ip_forward'' h of
        None \<Rightarrow> (h, True)
      | Some v \<Rightarrow> shell H (sysctl_line pf v) h)"

definition disableLinux :: "'h host \<Rightarrow> jsstring \<Rightarrow> nat_mgr \<Rightarrow> 'h \<Rightarrow> nat_mgr \<times> 'h \<times> bool" where
  "disableLinux H dir m h =
     (let h = restoreRpFilterBackup H (nm_rpFilterBackup m) h;
          m = m\<lparr>nm_rpFilterBackup := None\<rparr>;
          extIface = (case nm_externalInterface m of
              Some e \<Rightarrow> if e = [] then readBackupFile H dir ''interface'' h else Some e
            | None \<Rightarrow> readBackupFile H dir ''interface'' h);
          h = (case extIface of None \<Rightarrow> h
               | Some e \<Rightarrow> if e = [] then h else fst (shell H (fw_line FwDelete (Masquerade e) @ js '' 2>/dev/null'') h));
          h = fst (shell H (fw_line FwDelete ForwardIn @ js '' 2>/dev/null'') h);
          h = fst (shell H (fw_line FwDelete ForwardOut @ js '' 2>/dev/null'') h) in
      case restore_forwarding H dir Linux h of (h, ok) \<Rightarrow> (m, h, ok))"

text \<open>Loading a saved rule set through a temporary file, with a flush when that fails.\<close>

definition load_rules :: "'h host \<Rightarrow> 'h dir_ops \<Rightarrow> jsstring \<Rightarrow> jsstring \<Rightarrow> jsstring \<Rightarrow> jsstring \<Rightarrow> 'h \<Rightarrow> 'h" where
  "load_rules H D tempFile load flush rules h =
     (case andthen (hwrite H tempFile rules h) (shell H (load @ tempFile @ js '' 2>/dev/null'')) of
        (h, ok) \<Rightarrow> fst (dunlink D tempFile (if ok then h else fst (shell H flush h))))"

definition disableMacOS :: "'h host \<Rightarrow> 'h dir_ops \<Rightarrow> jsstring \<Rightarrow> jsstring \<Rightarrow> jsstring \<Rightarrow> 'h \<Rightarrow> 'h \<times> bool" where
  "disableMacOS H D dir tempFile tempFilter h =
     (let backupNat = readBackupFile H dir ''pf_nat.rules'' h;
          backupFilter = readBackupFile H dir ''pf_filter.rules'' h;
          flushNat = js ''sudo pfctl -F nat 2>/dev/null'';
          h = (case backupNat of
                 None \<Rightarrow> fst (shell H flushNat h)
               | Some rules \<Rightarrow> load_rules H D tempFile (js ''sudo pfctl -N -f '') flushNat rules h);
          h = (case backupFilter of
                 None \<Rightarrow> h
               | Some rules \<Rightarrow> load_rules H D tempFilter (js ''sudo pfctl -f '') (js ''sudo pfctl -F rules 2>/dev/null'') rules h) in
      andthen (restore_forwarding H dir Darwin h) (\<lambda>h.
        (if readBackupFile H dir ''pf_status'' h = Some (js ''disabled'')
         then fst (shell H (js ''sudo pfctl -d 2>/dev/null'') h) else h, True)))"

definition disable_nat :: "'h host \<Rightarrow> 'h dir_ops \<Rightarrow> jsstring \<Rightarrow> jsstring \<Rightarrow> jsstring \<Rightarrow> nat_mgr \<Rightarrow> 'h \<Rightarrow> nat_mgr \<times> 'h \<times> bool" where
  "disable_nat H D dir tempFile tempFilter m h =
     (if \<not> nm_enabled m \<and> \<not> nm_backupCreated m then (m, h, True)
      else
        case (case nm_platform m of
                Linux \<Rightarrow> disableLinux H dir m h
              | Darwin \<Rightarrow> (case disableMacOS H D dir tempFile tempFilter h of (h, ok) \<Rightarrow> (m, h, ok))
              | OtherPlatform _ \<Rightarrow> (m, h, True)) of
          (m, h, ok) \<Rightarrow> (if ok then m\<lparr>nm_enabled := False\<rparr> else m, h, ok))"

fun unlink_each :: "'h dir_ops \<Rightarrow> jsstring \<Rightarrow> jsstring list \<Rightarrow> 'h \<Rightarrow> 'h \<times> bool" where
  "unlink_each D dir [] h = (h, True)"
| "unlink_each D dir (f # fs) h = andthen (dunlink D (dir @ js ''/'' @ f) h) (unlink_each D dir fs)"

definition cleanup_backup :: "'h host \<Rightarrow> 'h dir_ops \<Rightarrow> jsstring \<Rightarrow> 'h \<Rightarrow> 'h" where
  "cleanup_backup H D dir h =
     (if hexists H dir h then
        (case dlist D dir h of
           None \<Rightarrow> h
         | Some files \<Rightarrow> fst (andthen (unlink_each D dir files h) (drmdir D dir)))
      else h)"

section \<open>Enabling and disabling on Linux\<close>

text \<open>
  The packet filter rules of the machine, its forwarding flag, and the saved value of that flag. \<open>iptables -C\<close>
  succeeds exactly if the rule is there, \<open>-A\<close> adds it, \<open>-D\<close> removes one copy; \<open>sysctl\<close> sets the flag and \<open>cat\<close>
  prints it; the saved value is read back, and nothing else touches the three.
\<close>

type_synonym nat_view = "fw_rule multiset \<times> jsstring \<times> jsstring option"

definition nat_laws :: "'h host \<Rightarrow> 'h dir_ops \<Rightarrow> jsstring \<Rightarrow> ('h \<Rightarrow> fw_rule multiset) \<Rightarrow> ('h \<Rightarrow> jsstring) \<Rightarrow> bool" where
  "nat_laws H D dir F G \<longleftrightarrow>
     (let V = (\<lambda>h. (F h, G h, readBackupFile H dir ''ip_forward'' h)); quiet = js '' 2>/dev/null'' in
      (\<forall>r h. snd (shell H (fw_line FwCheck r @ quiet) h) = (r \<in># F h) \<and> V (fst (shell H (fw_line FwCheck r @ quiet) h)) = V h)
      \<and> (\<forall>r h. snd (shell H (fw_line FwAdd r) h)
            \<and> V (fst (shell H (fw_line FwAdd r) h)) = (add_mset r (F h), snd (V h)))
      \<and> (\<forall>r h. V (fst (shell H (fw_line FwDelete r @ quiet) h)) = (F h - {#r#}, snd (V h)))
      \<and> (\<forall>v h. snd (shell H (sysctl_line Linux v) h)
            \<and> V (fst (shell H (sysctl_line Linux v) h)) = (F h, js_trim v, snd (snd (V h))))
      \<and> (\<forall>h. map_option js_trim (shell_out H (js ''cat /proc/sys/net/ipv4/ip_forward'') h) = Some (G h))
      \<and> (\<forall>v h. snd (hwrite H (backup_path dir ''ip_forward'') v h)
            \<and> V (fst (hwrite H (backup_path dir ''ip_forward'') v h)) = (F h, G h, Some (js_trim v)))
      \<and> (\<forall>p v h. p \<noteq> backup_path dir ''ip_forward'' \<longrightarrow> V (fst (hwrite H p v h)) = V h)
      \<and> (\<forall>n. confPath n \<noteq> backup_path dir ''ip_forward'')
      \<and> (\<forall>h. F (fst (dmkdir D dir h)) = F h \<and> G (fst (dmkdir D dir h)) = G h))"

abbreviation nat_seen :: "'h host \<Rightarrow> jsstring \<Rightarrow> ('h \<Rightarrow> fw_rule multiset) \<Rightarrow> ('h \<Rightarrow> jsstring) \<Rightarrow> 'h \<Rightarrow> nat_view" where
  "nat_seen H dir F G h \<equiv> (F h, G h, readBackupFile H dir ''ip_forward'' h)"

lemma nat_laws_dest:
  assumes "nat_laws H D dir F G"
  shows "snd (shell H (fw_line FwCheck r @ js '' 2>/dev/null'') h) = (r \<in># F h)"
    and "nat_seen H dir F G (fst (shell H (fw_line FwCheck r @ js '' 2>/dev/null'') h)) = nat_seen H dir F G h"
    and "snd (shell H (fw_line FwAdd r) h)"
    and "nat_seen H dir F G (fst (shell H (fw_line FwAdd r) h)) = (add_mset r (F h), G h, readBackupFile H dir ''ip_forward'' h)"
    and "nat_seen H dir F G (fst (shell H (fw_line FwDelete r @ js '' 2>/dev/null'') h)) = (F h - {#r#}, G h, readBackupFile H dir ''ip_forward'' h)"
    and "snd (shell H (sysctl_line Linux v) h)"
    and "nat_seen H dir F G (fst (shell H (sysctl_line Linux v) h)) = (F h, js_trim v, readBackupFile H dir ''ip_forward'' h)"
    and "map_option js_trim (shell_out H (js ''cat /proc/sys/net/ipv4/ip_forward'') h) = Some (G h)"
    and "snd (hwrite H (backup_path dir ''ip_forward'') v h)"
    and "nat_seen H dir F G (fst (hwrite H (backup_path dir ''ip_forward'') v h)) = (F h, G h, Some (js_trim v))"
    and "p \<noteq> backup_path dir ''ip_forward'' \<Longrightarrow> nat_seen H dir F G (fst (hwrite H p v h)) = nat_seen H dir F G h"
    and "confPath n \<noteq> backup_path dir ''ip_forward''"
    and "F (fst (dmkdir D dir h)) = F h" "G (fst (dmkdir D dir h)) = G h"
  using assms unfolding nat_laws_def Let_def by simp_all

lemma backup_path_eq [simp]: "backup_path dir f = backup_path dir g \<longleftrightarrow> f = g"
  by (simp add: backup_path_def)

lemma andthen_invariant:
  assumes "P (fst r)" "\<And>h. P h \<Longrightarrow> P (fst (f h))"
  shows "P (fst (andthen r f))"
  using assms by (simp add: andthen_def)

text \<open>The three rules are added unless they are there; flag and saved value stay.\<close>

lemma fw_ensure_effect:
  assumes "nat_laws H D dir F G"
  shows "snd (fw_ensure H r h)"
    and "nat_seen H dir F G (fst (fw_ensure H r h)) =
      (if r \<in># F h then F h else add_mset r (F h), G h, readBackupFile H dir ''ip_forward'' h)"
proof -
  note L = nat_laws_dest [OF assms]
  obtain h1 ok where c: "shell H (fw_line FwCheck r @ js '' 2>/dev/null'') h = (h1, ok)" by fastforce
  have v: "nat_seen H dir F G h1 = nat_seen H dir F G h" and ok: "ok = (r \<in># F h)"
    using L(1) [of r h] L(2) [of r h] c by simp_all
  show "snd (fw_ensure H r h)"
    using c L(3) [of r h1] by (cases ok) (simp_all add: fw_ensure_def)
  show "nat_seen H dir F G (fst (fw_ensure H r h)) =
      (if r \<in># F h then F h else add_mset r (F h), G h, readBackupFile H dir ''ip_forward'' h)"
    using c v ok L(4) [of r h1] by (cases ok) (simp_all add: fw_ensure_def)
qed

lemma enableLinux_succeeds:
  assumes "nat_laws H D dir F G"
  shows "snd (snd (enableLinux H m h))"
proof -
  let ?r = "andthen (andthen (andthen (shell H (sysctl_line Linux (js ''1'')) h)
      (fw_ensure H (Masquerade (or_empty (nm_externalInterface m))))) (fw_ensure H ForwardIn)) (fw_ensure H ForwardOut)"
  have "snd ?r"
    using nat_laws_dest(6) [OF assms, of "js ''1''" h] fw_ensure_effect(1) [OF assms] by (simp add: andthen_def)
  then show ?thesis
    by (cases ?r) (simp add: enableLinux_def split: prod.split)
qed

lemma enableLinux_effect:
  assumes L: "nat_laws H D dir F G" and "enableLinux H m h = (m', h', True)"
    and e: "nm_externalInterface m = Some e" "Masquerade e \<notin># F h" "ForwardIn \<notin># F h" "ForwardOut \<notin># F h"
  shows "nat_seen H dir F G h' = (F h + {#Masquerade e, ForwardIn, ForwardOut#}, js_trim (js ''1''), readBackupFile H dir ''ip_forward'' h)"
    and "nm_externalInterface m' = Some e" "nm_platform m' = nm_platform m"
    and "nm_enabled m' = nm_enabled m" "nm_backupCreated m' = nm_backupCreated m"
proof -
  define h1 where "h1 = fst (shell H (sysctl_line Linux (js ''1'')) h)"
  define h2 where "h2 = fst (fw_ensure H (Masquerade e) h1)"
  define h3 where "h3 = fst (fw_ensure H ForwardIn h2)"
  define h4 where "h4 = fst (fw_ensure H ForwardOut h3)"
  have v1: "nat_seen H dir F G h1 = (F h, js_trim (js ''1''), readBackupFile H dir ''ip_forward'' h)"
    unfolding h1_def by (rule nat_laws_dest(7) [OF L])
  have v2: "nat_seen H dir F G h2 = (add_mset (Masquerade e) (F h), js_trim (js ''1''), readBackupFile H dir ''ip_forward'' h)"
    unfolding h2_def fw_ensure_effect(2) [OF L] using v1 e by simp
  have v3: "nat_seen H dir F G h3 = (add_mset ForwardIn (add_mset (Masquerade e) (F h)), js_trim (js ''1''), readBackupFile H dir ''ip_forward'' h)"
    unfolding h3_def fw_ensure_effect(2) [OF L] using v2 e by simp
  have v4: "nat_seen H dir F G h4 =
      (add_mset ForwardOut (add_mset ForwardIn (add_mset (Masquerade e) (F h))), js_trim (js ''1''), readBackupFile H dir ''ip_forward'' h)"
    unfolding h4_def fw_ensure_effect(2) [OF L] using v3 e by simp
  have run: "andthen (andthen (andthen (shell H (sysctl_line Linux (js ''1'')) h)
      (fw_ensure H (Masquerade e))) (fw_ensure H ForwardIn)) (fw_ensure H ForwardOut) = (h4, True)"
    using nat_laws_dest(6) [OF L, of "js ''1''" h] fw_ensure_effect(1) [OF L]
    by (simp add: andthen_def prod_eq_iff h1_def h2_def h3_def h4_def)
  have rp: "nat_seen H dir F G (fst (applyLooseRpFilterForVpn H ns x)) = nat_seen H dir F G x" for ns x
    by (rule applyLoose_frame) (rule nat_laws_dest(11) [OF L nat_laws_dest(12) [OF L]])
  have res: "m' = m\<lparr>nm_rpFilterBackup := snd (applyLooseRpFilterForVpn H [e, or_empty (nm_tunInterface m)] h4)\<rparr>"
      "h' = fst (applyLooseRpFilterForVpn H [e, or_empty (nm_tunInterface m)] h4)"
    using assms(2) e(1) run by (simp_all add: enableLinux_def or_empty_def split_def split: prod.splits)
  show "nat_seen H dir F G h' = (F h + {#Masquerade e, ForwardIn, ForwardOut#}, js_trim (js ''1''), readBackupFile H dir ''ip_forward'' h)"
    unfolding res(2) rp using v4 by simp
  show "nm_externalInterface m' = Some e" "nm_platform m' = nm_platform m"
      "nm_enabled m' = nm_enabled m" "nm_backupCreated m' = nm_backupCreated m"
    using e(1) by (simp_all add: res(1))
qed

lemma saveBackup_effect:
  assumes L: "nat_laws H D dir F G" and "nm_platform m = Linux" and "saveBackup H D dir m h = Inr (m', h')"
  shows "nat_seen H dir F G h' = (F h, G h, Some (G h))"
    and "m' = m \<or> m' = m\<lparr>nm_backupCreated := True\<rparr>"
proof -
  obtain h0 where d: "ensureBackupDir H D dir h = (h0, True)"
    using assms(3) by (cases "ensureBackupDir H D dir h") (auto simp: saveBackup_def split: bool.splits)
  have f0: "F h0 = F h" "G h0 = G h"
    using d nat_laws_dest(13,14) [OF L, of h] by (auto simp: ensureBackupDir_def split: if_splits)
  obtain out where out: "shell_out H (js ''cat /proc/sys/net/ipv4/ip_forward'') h0 = Some out" "js_trim out = G h0"
    using nat_laws_dest(8) [OF L, of h0] by auto
  define h1 where "h1 = fst (save_forwarding H dir (js ''cat /proc/sys/net/ipv4/ip_forward'') h0)"
  have s1: "snd (save_forwarding H dir (js ''cat /proc/sys/net/ipv4/ip_forward'') h0)"
    using nat_laws_dest(9) [OF L] out by (simp add: save_forwarding_def)
  have trim: "js_trim (G h0) = G h0" using trim_twice [of out] out(2) by simp
  have v1: "nat_seen H dir F G h1 = (F h, G h, Some (G h))"
    using nat_laws_dest(10) [OF L, of "js_trim out" h0] out trim f0 by (simp add: h1_def save_forwarding_def)
  have w: "nat_seen H dir F G (fst (hwrite H (backup_path dir f) x y)) = nat_seen H dir F G y" if "f \<noteq> ''ip_forward''" for f x y
    using nat_laws_dest(11) [OF L, of "backup_path dir f" x y] that by simp
  have so: "nat_seen H dir F G (fst (save_output H line g (backup_path dir f) None y)) = nat_seen H dir F G y"
    if "f \<noteq> ''ip_forward''" for line g f y
    using w [OF that] by (auto simp: save_output_def split: option.splits prod.splits bool.splits) (metis fst_conv)+
  let ?P = "\<lambda>y. nat_seen H dir F G y = (F h, G h, Some (G h))"
  have p2: "?P (fst (save_platform H dir Linux h0))"
    unfolding save_platform_def os_platform.case
    by (rule andthen_invariant [where P = ?P]) (use v1 so in \<open>simp_all add: h1_def\<close>)
  have "?P (fst (andthen (andthen (save_platform H dir Linux h0)
      (hwrite H (backup_path dir ''interface'') (or_empty (nm_externalInterface m))))
      (hwrite H (backup_path dir ''tun_interface'') (or_empty (nm_tunInterface m)))))"
    by (intro andthen_invariant [where P = ?P] p2) (simp_all add: w)
  then show "nat_seen H dir F G h' = (F h, G h, Some (G h))" "m' = m \<or> m' = m\<lparr>nm_backupCreated := True\<rparr>"
    using assms(2,3) d by (auto simp: saveBackup_def split: prod.splits if_splits)
qed

lemma match_in_result: "match_in f s = Some x \<Longrightarrow> \<exists>t. f t = Some x"
  by (induction s) (auto split: option.splits)

lemma detected_nonempty: "detectExternalInterface H m h = Some e \<Longrightarrow> e \<noteq> []"
  by (auto simp: detectExternalInterface_def nonspace_def or_null_def Option.bind_eq_Some_conv
      split: os_platform.splits if_splits dest!: match_in_result)

text \<open>
  (C25) The exit leaves the machine as it found it. If address translation was enabled on Linux on a machine
  without the three rules of the exit, then disabling it succeeds, removes exactly these rules and gives the
  forwarding flag its old value.
\<close>

theorem host_nat_restored:
  assumes L: "nat_laws H D dir F G" and "nm_platform m = Linux" "\<not> nm_enabled m"
    and en: "enable_nat H D dir tmp tunInterface ext m h = Inr (m', h', True)"
    and none: "Masquerade (or_empty (nm_externalInterface m')) \<notin># F h" "ForwardIn \<notin># F h" "ForwardOut \<notin># F h"
  shows "\<exists>m2 h2. disable_nat H D dir tmp1 tmp2 m' h' = (m2, h2, True) \<and> F h2 = F h \<and> G h2 = G h \<and> \<not> nm_enabled m2"
proof -
  let ?ext = "case ext of Some e \<Rightarrow> if e = [] then detectExternalInterface H m h else Some e | None \<Rightarrow> detectExternalInterface H m h"
  define m0 where "m0 = m\<lparr>nm_tunInterface := tunInterface, nm_externalInterface := ?ext\<rparr>"
  obtain e where e: "?ext = Some e"
    using en assms(3) by (cases ?ext) (simp_all add: enable_nat_def Let_def)
  have e0: "e \<noteq> []" using e detected_nonempty [of H m h e] by (auto split: option.splits if_splits)
  obtain m1 h1 where s: "saveBackup H D dir m0 h = Inr (m1, h1)"
    using en assms(3) e by (cases "saveBackup H D dir m0 h") (auto simp: enable_nat_def Let_def m0_def)
  have v1: "nat_seen H dir F G h1 = (F h, G h, Some (G h))" and m1: "m1 = m0 \<or> m1 = m0\<lparr>nm_backupCreated := True\<rparr>"
    using saveBackup_effect [OF L _ s] assms(2) by (simp_all add: m0_def)
  have pl: "nm_platform m1 = Linux" "nm_externalInterface m1 = Some e" "\<not> nm_enabled m1"
    using m1 assms(2,3) e by (auto simp: m0_def)
  obtain m1' where el: "enableLinux H m1 h1 = (m1', h', True)" and m': "m' = m1'\<lparr>nm_enabled := True\<rparr>"
    using en assms(3) e s pl by (auto simp: enable_nat_def Let_def m0_def split: prod.splits if_splits)
  have ext': "nm_externalInterface m1' = Some e" "nm_platform m1' = Linux"
    using el pl by (auto simp: enableLinux_def split: prod.splits bool.splits)
  have "Masquerade e \<notin># F h1" "ForwardIn \<notin># F h1" "ForwardOut \<notin># F h1"
    using none v1 ext' m' by (simp_all add: or_empty_def)
  from enableLinux_effect(1) [OF L el pl(2) this]
  have v2: "nat_seen H dir F G h' = (F h + {#Masquerade e, ForwardIn, ForwardOut#}, js_trim (js ''1''), Some (G h))"
    using v1 by simp
  define d1 where "d1 = restoreRpFilterBackup H (nm_rpFilterBackup m') h'"
  define d2 where "d2 = fst (shell H (fw_line FwDelete (Masquerade e) @ js '' 2>/dev/null'') d1)"
  define d3 where "d3 = fst (shell H (fw_line FwDelete ForwardIn @ js '' 2>/dev/null'') d2)"
  define d4 where "d4 = fst (shell H (fw_line FwDelete ForwardOut @ js '' 2>/dev/null'') d3)"
  define d5 where "d5 = fst (shell H (sysctl_line Linux (G h)) d4)"
  have w1: "nat_seen H dir F G d1 = nat_seen H dir F G h'"
    unfolding d1_def by (rule restoreRp_frame) (rule nat_laws_dest(11) [OF L nat_laws_dest(12) [OF L]])
  have w2: "nat_seen H dir F G d2 = (F h + {#ForwardIn, ForwardOut#}, js_trim (js ''1''), Some (G h))"
    unfolding d2_def nat_laws_dest(5) [OF L] using w1 v2 by simp
  have w3: "nat_seen H dir F G d3 = (F h + {#ForwardOut#}, js_trim (js ''1''), Some (G h))"
    unfolding d3_def nat_laws_dest(5) [OF L] using w2 by simp
  have w4: "nat_seen H dir F G d4 = (F h, js_trim (js ''1''), Some (G h))"
    unfolding d4_def nat_laws_dest(5) [OF L] using w3 by simp
  have trim: "js_trim (G h) = G h"
  proof -
    obtain z where "js_trim z = G h" using nat_laws_dest(8) [OF L, of h] by auto
    then show ?thesis using trim_twice [of z] by simp
  qed
  have w5: "nat_seen H dir F G d5 = (F h, G h, Some (G h))"
    unfolding d5_def nat_laws_dest(7) [OF L] using w4 trim by simp
  have "restore_forwarding H dir Linux d4 = (d5, True)"
    using w4 nat_laws_dest(6) [OF L, of "G h" d4] by (simp add: restore_forwarding_def d5_def prod_eq_iff)
  then have "disableLinux H dir m' h' = (m'\<lparr>nm_rpFilterBackup := None\<rparr>, d5, True)"
    using ext' m' e0 by (simp add: disableLinux_def Let_def d1_def d2_def d3_def d4_def del: fw_line.simps)
  then have "disable_nat H D dir tmp1 tmp2 m' h' = (m'\<lparr>nm_rpFilterBackup := None, nm_enabled := False\<rparr>, d5, True)"
    using ext' m' by (simp add: disable_nat_def)
  then show ?thesis using w5 by simp
qed

text \<open>
  A machine that reads the lines of the shell, to show that the laws can hold: rules, forwarding flag, files.
\<close>

record nat_machine =
  nx_rules :: "fw_rule list"
  nx_forward :: jsstring
  nx_files :: files

definition cut_out :: "jsstring \<Rightarrow> jsstring \<Rightarrow> jsstring \<Rightarrow> jsstring option" where
  "cut_out a b s =
     (if starts_with a s \<and> length a + length b \<le> length s \<and> drop (length s - length b) s = b
      then Some (take (length s - length a - length b) (drop (length a) s)) else None)"

definition masq_of :: "fw_op \<Rightarrow> jsstring \<Rightarrow> jsstring \<Rightarrow> fw_rule option" where
  "masq_of f tail s =
     map_option Masquerade (cut_out (js ''sudo iptables -t nat '' @ js (fw_flag f) @ js '' POSTROUTING -s 10.200.0.0/16 -o '')
       (js '' -j MASQUERADE'' @ tail) s)"

definition fw_of :: "fw_op \<Rightarrow> jsstring \<Rightarrow> jsstring \<Rightarrow> fw_rule option" where
  "fw_of f tail s =
     (if s = fw_line f ForwardIn @ tail then Some ForwardIn
      else if s = fw_line f ForwardOut @ tail then Some ForwardOut
      else masq_of f tail s)"

definition nx_exec :: "arg_vector \<Rightarrow> nat_machine \<Rightarrow> nat_machine \<times> bool" where
  "nx_exec a x =
     (let s = a ! 0; quiet = js '' 2>/dev/null'' in
      case fw_of FwCheck quiet s of Some r \<Rightarrow> (x, r \<in> set (nx_rules x))
      | None \<Rightarrow>
        (case fw_of FwDelete quiet s of Some r \<Rightarrow> (x\<lparr>nx_rules := remove1 r (nx_rules x)\<rparr>, r \<in> set (nx_rules x))
         | None \<Rightarrow>
           (case fw_of FwAdd [] s of Some r \<Rightarrow> (x\<lparr>nx_rules := nx_rules x @ [r]\<rparr>, True)
            | None \<Rightarrow>
              (case cut_out (js ''sudo sysctl -w net.ipv4.ip_forward='') [] s of
                 Some v \<Rightarrow> (x\<lparr>nx_forward := v\<rparr>, True)
               | None \<Rightarrow> (x, True)))))"

definition nat_host :: "nat_machine host" where
  "nat_host = \<lparr>hexec = nx_exec,
     hquery = (\<lambda>a x. if a = [js ''cat /proc/sys/net/ipv4/ip_forward''] then Some (nx_forward x) else None),
     hexists = (\<lambda>p x. map_get (nx_files x) p \<noteq> None), hread = (\<lambda>p x. map_get (nx_files x) p),
     hwrite = (\<lambda>p v x. (x\<lparr>nx_files := map_put p v (nx_files x)\<rparr>, True))\<rparr>"

definition nat_dirs :: "nat_machine dir_ops" where
  "nat_dirs = \<lparr>dmkdir = (\<lambda>p x. (x, True)), dlist = (\<lambda>p x. None), dunlink = (\<lambda>p x. (x, True)), drmdir = (\<lambda>p x. (x, True))\<rparr>"

lemma cut_some: "cut_out a b (a @ x @ b) = Some x"
  by (simp add: cut_out_def starts_with_def)

lemma cut_other: "take (length a) s \<noteq> a \<Longrightarrow> cut_out a b s = None"
  by (simp add: cut_out_def starts_with_def)

lemma fw_of_line:
  "fw_of f tail (fw_line f r @ tail) = Some r"
proof (cases r)
  case (Masquerade i)
  have "fw_line f r @ tail = (js ''sudo iptables -t nat '' @ js (fw_flag f) @ js '' POSTROUTING -s 10.200.0.0/16 -o '') @ i @ (js '' -j MASQUERADE'' @ tail)"
    by (simp add: Masquerade)
  then have "masq_of f tail (fw_line f r @ tail) = Some r"
    unfolding masq_of_def by (simp only: cut_some) (simp add: Masquerade)
  moreover have "fw_line f r @ tail \<noteq> fw_line f ForwardIn @ tail" "fw_line f r @ tail \<noteq> fw_line f ForwardOut @ tail"
    by (cases f; simp add: Masquerade js_def)+
  ultimately show ?thesis by (simp add: fw_of_def del: fw_line.simps)
next
  case ForwardIn
  then show ?thesis by (simp add: fw_of_def)
next
  case ForwardOut
  then show ?thesis by (simp add: fw_of_def)
qed

lemma fw_of_other:
  assumes "f \<noteq> g"
  shows "fw_of f tail (fw_line g r @ tail') = None"
  using assms
  by (cases f; cases g; cases r) (simp_all add: fw_of_def masq_of_def cut_out_def starts_with_def js_def)

lemma fw_of_sysctl: "fw_of f tail (sysctl_line Linux v) = None"
  by (cases f) (simp_all add: fw_of_def masq_of_def cut_out_def starts_with_def js_def sysctl_line_def)

lemma nat_host_laws: "nat_laws nat_host nat_dirs (js ''/b'') (\<lambda>x. mset (nx_rules x)) (\<lambda>x. js_trim (nx_forward x))"
proof -
  let ?q = "js '' 2>/dev/null''"
  have check: "shell nat_host (fw_line FwCheck r @ ?q) x = (x, r \<in> set (nx_rules x))" for r x
    by (simp add: shell_def nat_host_def nx_exec_def Let_def fw_of_line del: fw_line.simps)
  have delete: "shell nat_host (fw_line FwDelete r @ ?q) x = (x\<lparr>nx_rules := remove1 r (nx_rules x)\<rparr>, r \<in> set (nx_rules x))" for r x
    by (simp add: shell_def nat_host_def nx_exec_def Let_def fw_of_line fw_of_other del: fw_line.simps)
  have add: "shell nat_host (fw_line FwAdd r) x = (x\<lparr>nx_rules := nx_rules x @ [r]\<rparr>, True)" for r x
    using fw_of_line [of FwAdd "[]" r] fw_of_other [of _ FwAdd _ r "[]"]
    by (simp add: shell_def nat_host_def nx_exec_def Let_def del: fw_line.simps)
  have sysctl: "shell nat_host (sysctl_line Linux v) x = (x\<lparr>nx_forward := v\<rparr>, True)" for v x
    using cut_some [of "js ''sudo sysctl -w net.ipv4.ip_forward=''" "[]" v]
    by (simp add: shell_def nat_host_def nx_exec_def Let_def fw_of_sysctl) (simp add: sysctl_line_def)
  have path: "confPath n \<noteq> backup_path (js ''/b'') ''ip_forward''" for n
    by (simp add: confPath_def backup_path_def js_def)
  have saved: "readBackupFile nat_host dir f x = map_option js_trim (map_get (nx_files x) (backup_path dir f))" for dir f x
    by (simp add: readBackupFile_def nat_host_def)
  have w: "hwrite nat_host p v x = (x\<lparr>nx_files := map_put p v (nx_files x)\<rparr>, True)" for p v x
    by (simp add: nat_host_def)
  have cat: "shell_out nat_host (js ''cat /proc/sys/net/ipv4/ip_forward'') x = Some (nx_forward x)" for x
    by (simp add: shell_out_def nat_host_def)
  show ?thesis
    unfolding nat_laws_def Let_def check delete add sysctl w saved cat
    by (simp add: path nat_dirs_def)
qed

definition quiet_machine :: nat_machine where
  "quiet_machine = \<lparr>nx_rules = [], nx_forward = js ''0'', nx_files = []\<rparr>"

theorem host_nat_restored_witness:
  "\<exists>m' x' m2 x2. enable_nat nat_host nat_dirs (js ''/b'') (js ''/t'') (Some (js ''tun0'')) (Some (js ''eth0'')) (new_NATManager Linux) quiet_machine
       = Inr (m', x', True)
     \<and> disable_nat nat_host nat_dirs (js ''/b'') (js ''/t1'') (js ''/t2'') m' x' = (m2, x2, True)
     \<and> nx_rules x2 = [] \<and> js_trim (nx_forward x2) = js_trim (js ''0'')"
proof -
  let ?m0 = "(new_NATManager Linux)\<lparr>nm_tunInterface := Some (js ''tun0''), nm_externalInterface := Some (js ''eth0'')\<rparr>"
  have "ensureBackupDir nat_host nat_dirs (js ''/b'') quiet_machine = (quiet_machine, True)"
    by (simp add: ensureBackupDir_def nat_dirs_def)
  then obtain m1 x1 where s: "saveBackup nat_host nat_dirs (js ''/b'') ?m0 quiet_machine = Inr (m1, x1)"
    unfolding saveBackup_def by (auto simp: split_def)
  have v: "nx_rules x1 = []" and m1: "m1 = ?m0 \<or> m1 = ?m0\<lparr>nm_backupCreated := True\<rparr>"
    using saveBackup_effect [OF nat_host_laws _ s] by (simp_all add: new_NATManager_def quiet_machine_def)
  obtain m2 x2 ok where e: "enableLinux nat_host m1 x1 = (m2, x2, ok)" by (metis prod.exhaust)
  have ok: "ok"
    using enableLinux_succeeds [OF nat_host_laws, of m1 x1] e by simp
  have ext: "nm_externalInterface m2 = Some (js ''eth0'')"
    using e ok m1 by (auto simp: enableLinux_def split: prod.splits bool.splits)
  have en: "enable_nat nat_host nat_dirs (js ''/b'') (js ''/t'') (Some (js ''tun0'')) (Some (js ''eth0'')) (new_NATManager Linux) quiet_machine
      = Inr (m2\<lparr>nm_enabled := True\<rparr>, x2, True)"
    using s e ok m1 by (auto simp: enable_nat_def Let_def new_NATManager_def js_def)
  have "\<exists>m3 x3. disable_nat nat_host nat_dirs (js ''/b'') (js ''/t1'') (js ''/t2'') (m2\<lparr>nm_enabled := True\<rparr>) x2 = (m3, x3, True)
      \<and> mset (nx_rules x3) = mset (nx_rules quiet_machine) \<and> js_trim (nx_forward x3) = js_trim (nx_forward quiet_machine) \<and> \<not> nm_enabled m3"
    by (rule host_nat_restored [OF nat_host_laws _ _ en]) (simp_all add: new_NATManager_def quiet_machine_def)
  then show ?thesis using en by (auto simp: quiet_machine_def)
qed

text \<open>
  A masquerading rule that was there before is not added a second time but removed all the same, so
  disabling takes away a rule the exit had not put there.
\<close>

theorem foreign_rule_removed:
  assumes L: "nat_laws H D dir F G" and "F h = {#Masquerade e#}" "e \<noteq> []"
    and "nm_externalInterface m = Some e" "nm_rpFilterBackup m = None"
  shows "F (fst (fw_ensure H (Masquerade e) h)) = F h"
    and "F (fst (snd (disableLinux H dir m h))) = {#}"
proof -
  show "F (fst (fw_ensure H (Masquerade e) h)) = F h"
    using fw_ensure_effect(2) [OF L, of "Masquerade e" h] assms(2) by simp
  define d2 where "d2 = fst (shell H (fw_line FwDelete (Masquerade e) @ js '' 2>/dev/null'') h)"
  define d3 where "d3 = fst (shell H (fw_line FwDelete ForwardIn @ js '' 2>/dev/null'') d2)"
  define d4 where "d4 = fst (shell H (fw_line FwDelete ForwardOut @ js '' 2>/dev/null'') d3)"
  have "F d2 = {#}" "F d3 = F d2 - {#ForwardIn#}" "F d4 = F d3 - {#ForwardOut#}"
    using nat_laws_dest(5) [OF L, of "Masquerade e" h] nat_laws_dest(5) [OF L, of ForwardIn d2]
      nat_laws_dest(5) [OF L, of ForwardOut d3] assms(2) by (simp_all add: d2_def d3_def d4_def del: fw_line.simps)
  then have d4: "F d4 = {#}" by simp
  have "F (fst (restore_forwarding H dir Linux d4)) = F d4"
    using nat_laws_dest(7) [OF L, of _ d4] by (auto simp: restore_forwarding_def split: option.split)
  moreover have "fst (snd (disableLinux H dir m h)) = fst (restore_forwarding H dir Linux d4)"
    using assms(3-5) by (simp add: disableLinux_def restoreRpFilterBackup_def Let_def d2_def d3_def d4_def split_def del: fw_line.simps)
  ultimately show "F (fst (snd (disableLinux H dir m h))) = {#}" using d4 by simp
qed

end
