(* ===== verification/WebRTC.thy ===== *)
theory WebRTC
  imports Socket_Transport
begin

text \<open>
  \<open>src/transport/webrtc.js\<close>: peer connections, the offer/answer promises that wait for ICE gathering, queued
  remote candidates, data channels with their send buffers and overflow queues. Peer connections and data
  channels are objects of the library \<open>node-datachannel\<close>; here they are numbers, and what their methods
  return (the local description, the gathering state, whether a call throws, whether the channel takes
  more data) comes with the event. A promise is a number, settled at most once; timers that are running are
  part of the state. Log messages are left out.
\<close>

section \<open>Strings\<close>

definition js_lower :: "jsstring \<Rightarrow> jsstring" where
  "js_lower s = map (\<lambda>c. if 65 \<le> c \<and> c \<le> 90 then c + 32 else c) s"

definition js_includes :: "jsstring \<Rightarrow> jsstring \<Rightarrow> bool" where
  "js_includes s pat = list_ex (\<lambda>i. take (length pat) (drop i s) = pat) [0..<Suc (length s)]"

definition startsWith :: "jsstring \<Rightarrow> jsstring \<Rightarrow> bool" where
  "startsWith s pat \<longleftrightarrow> take (length pat) s = pat"

section \<open>ICE servers\<close>

record ice_server =
  ice_urls :: "jsstring list"
  ice_username :: "jsstring option"
  ice_credential :: "jsstring option"

definition rtc_truthy :: "jsstring option \<Rightarrow> bool" where
  "rtc_truthy s \<longleftrightarrow> Option.bind s or_null \<noteq> None"

text \<open>A template literal prints \<open>undefined\<close> for a missing value.\<close>

definition template :: "jsstring option \<Rightarrow> jsstring" where
  "template s = (case s of Some t \<Rightarrow> t | None \<Rightarrow> js ''undefined'')"

definition convert_url :: "jsstring \<Rightarrow> ice_server \<Rightarrow> jsstring \<Rightarrow> jsstring list" where
  "convert_url iceMode s url =
     (let isStun = startsWith url (js ''stun:'');
          isTurn = startsWith url (js ''turn:'') \<or> startsWith url (js ''turns:'') in
      if url = [] then []
      else if iceMode = js ''relay'' \<and> isStun then []
      else if iceMode = js ''direct'' \<and> isTurn then []
      else if isTurn \<and> (rtc_truthy (ice_username s) \<or> rtc_truthy (ice_credential s)) then
        let proto = (if startsWith url (js ''turns:'') then js ''turns'' else js ''turn'');
            addr = drop (length proto + 1) url in
        [proto @ js '':'' @ template (ice_username s) @ js '':'' @ template (ice_credential s) @ js ''@'' @ addr]
      else [url])"

definition convertIceServers :: "ice_server list \<Rightarrow> jsstring \<Rightarrow> jsstring list" where
  "convertIceServers servers iceMode = concat (map (\<lambda>s. concat (map (convert_url iceMode s) (ice_urls s))) servers)"

definition DEFAULT_ICE_SERVERS :: "ice_server list" where
  "DEFAULT_ICE_SERVERS =
     [\<lparr>ice_urls = [js ''stun:stun.l.google.com:19302''], ice_username = None, ice_credential = None\<rparr>,
      \<lparr>ice_urls = [js ''stun:stun1.l.google.com:19302''], ice_username = None, ice_credential = None\<rparr>]"

section \<open>State\<close>

datatype sdp_kind = Sdp_offer | Sdp_answer

record local_desc =
  ld_sdp :: jsstring
  ld_type :: "jsstring option"

record sdp_entry =
  se_epoch :: nat
  se_promise :: nat
  se_pc :: nat
  se_kind :: sdp_kind

text \<open>A running timer of \<open>_finishSdpAfterGatheringTimeout\<close>; only the first one of a promise can be cleared.\<close>

record sdp_timer =
  ti_clearable :: bool
  ti_promise :: nat
  ti_peer :: jsstring
  ti_epoch :: nat
  ti_pc :: nat
  ti_round :: nat

record rtc =
  rtc_iceMode :: jsstring
  rtc_dcMode :: jsstring
  ndcIceServers :: "jsstring list"
  sendBufferMaxQueue :: nat
  sendOverflowMax :: int
  sendOverflow :: "(jsstring, buffer list) jsmap"
  overflowBlocked :: nat
  rtc_connections :: "(jsstring, nat) jsmap"
  dataChannels :: "(jsstring, nat) jsmap"
  rtc_sendBuffers :: "(jsstring, nat) jsmap"
  rtc_store :: "(nat, sendbuf) jsmap"
  sdpAfterGathering :: "(jsstring, sdp_entry) jsmap"
  remoteDescForTrickle :: "jsstring list"
  pendingRemoteIce :: "(jsstring, (jsstring \<times> jsstring) list) jsmap"
  peerDisconnectEmitTimer :: "jsstring list"
  connectionEpoch :: "(jsstring, nat) jsmap"
  handshakeGen :: "(jsstring, nat) jsmap"
  dcOpenEpoch :: "(jsstring, nat) jsmap"
  turnConnections :: "(jsstring, bool) jsmap"
  rtc_timers :: "sdp_timer list"
  rtc_settled :: "(nat, js_error + (jsstring \<times> jsstring)) jsmap"
  rtc_next :: nat

datatype rtc_action =
    New_pc nat
  | Create_dc nat nat
  | Set_remote nat jsstring sdp_kind
  | Add_candidate nat jsstring jsstring
  | Pc_destroy nat
  | Dc_close nat
  | Rtc_connected jsstring
  | Rtc_disconnected jsstring
  | Rtc_message jsstring buffer
  | Rtc_ice jsstring jsstring jsstring
  | Rtc_state jsstring
  | Rtc_error jsstring
  | Rtc_buffer_low jsstring

definition new_WebRTCTransport :: "jsstring option \<Rightarrow> jsstring option \<Rightarrow> ice_server list option \<Rightarrow> nat option \<Rightarrow> int option \<Rightarrow> rtc" where
  "new_WebRTCTransport mode dc servers maxQueue overflowMax =
     (let iceMode = (case Option.bind mode or_null of Some m \<Rightarrow> m | None \<Rightarrow> js ''auto'');
          raw = (case servers of Some s \<Rightarrow> s | None \<Rightarrow> DEFAULT_ICE_SERVERS) in
      \<lparr>rtc_iceMode = iceMode,
       rtc_dcMode = (case Option.bind dc or_null of Some m \<Rightarrow> m | None \<Rightarrow> js ''reliable''),
       ndcIceServers = convertIceServers raw iceMode,
       sendBufferMaxQueue = (case maxQueue of Some n \<Rightarrow> n | None \<Rightarrow> 2000),
       sendOverflowMax = (case overflowMax of Some n \<Rightarrow> n | None \<Rightarrow> 8000),
       sendOverflow = [], overflowBlocked = 0, rtc_connections = [], dataChannels = [], rtc_sendBuffers = [], rtc_store = [],
       sdpAfterGathering = [], remoteDescForTrickle = [], pendingRemoteIce = [], peerDisconnectEmitTimer = [],
       connectionEpoch = [], handshakeGen = [], dcOpenEpoch = [], turnConnections = [],
       rtc_timers = [], rtc_settled = [], rtc_next = 0\<rparr>)"

text \<open>\<open>resolve\<close> and \<open>reject\<close>: the first call settles the promise.\<close>

definition settle :: "nat \<Rightarrow> js_error + (jsstring \<times> jsstring) \<Rightarrow> rtc \<Rightarrow> rtc" where
  "settle n v r = (if map_get (rtc_settled r) n = None then r\<lparr>rtc_settled := map_put n v (rtc_settled r)\<rparr> else r)"

definition clear_sdp_timer :: "nat \<Rightarrow> rtc \<Rightarrow> rtc" where
  "clear_sdp_timer n r = r\<lparr>rtc_timers := filter (\<lambda>t. \<not> (ti_clearable t \<and> ti_promise t = n)) (rtc_timers r)\<rparr>"

section \<open>Offers and answers\<close>

definition ICE_GATHERING_GRACE_ROUNDS :: nat where "ICE_GATHERING_GRACE_ROUNDS = 24"
definition ICE_SDP_MIN_CANDIDATE_BYTES :: nat where "ICE_SDP_MIN_CANDIDATE_BYTES = 480"

definition sdpLooksCompleteEnough :: "jsstring \<Rightarrow> bool" where
  "sdpLooksCompleteEnough sdp \<longleftrightarrow>
     sdp \<noteq> [] \<and> js_includes sdp (js ''a=candidate:'') \<and> length (utf8_encode sdp) \<ge> ICE_SDP_MIN_CANDIDATE_BYTES"

definition localDescriptionToSignal :: "local_desc option \<Rightarrow> (jsstring \<times> jsstring) res" where
  "localDescriptionToSignal ld =
     (case ld of
        None \<Rightarrow> Inl TypeError
      | Some d \<Rightarrow>
          Inr (case ld_type d of
                 None \<Rightarrow> (js ''offer'', ld_sdp d)
               | Some t \<Rightarrow> (if js_includes (js_lower t) (js ''answer'') then js ''answer'' else js ''offer'', ld_sdp d)))"

text \<open>\<open>ld?.sdp\<close>, with the empty string for a missing one: the code only asks whether it is rtc_truthy.\<close>

definition sdp_of :: "local_desc option \<Rightarrow> jsstring" where
  "sdp_of ld = (case ld of Some d \<Rightarrow> ld_sdp d | None \<Rightarrow> [])"

definition drop_sdp_entry :: "jsstring \<Rightarrow> sdp_entry \<Rightarrow> rtc \<Rightarrow> rtc" where
  "drop_sdp_entry peerId entry r =
     (clear_sdp_timer (se_promise entry) r)\<lparr>sdpAfterGathering := map_del peerId (sdpAfterGathering r)\<rparr>"

text \<open>\<open>complete\<close> is \<open>_gatheringStateIsComplete(pc)\<close>. An exception in this timer callback is not caught.\<close>

definition finishSdpAfterGatheringTimeout ::
    "jsstring \<Rightarrow> nat \<Rightarrow> nat \<Rightarrow> nat \<Rightarrow> local_desc option \<Rightarrow> bool \<Rightarrow> rtc \<Rightarrow> rtc res" where
  "finishSdpAfterGatheringTimeout peerId epoch pc graceRound ld complete r =
     (case map_get (sdpAfterGathering r) peerId of
        None \<Rightarrow> Inr r
      | Some entry \<Rightarrow>
          if se_epoch entry \<noteq> epoch then Inr r
          else let sdp = sdp_of ld in
          if complete \<or> sdpLooksCompleteEnough sdp then
            let r = drop_sdp_entry peerId entry r in
            ebind (localDescriptionToSignal ld) (\<lambda>signal. Inr (settle (se_promise entry) (Inr signal) r))
          else if graceRound < ICE_GATHERING_GRACE_ROUNDS then
            Inr (r\<lparr>rtc_timers := rtc_timers r @ [\<lparr>ti_clearable = False, ti_promise = se_promise entry, ti_peer = peerId,
                     ti_epoch = epoch, ti_pc = pc, ti_round = graceRound + 1\<rparr>]\<rparr>)
          else
            let r = drop_sdp_entry peerId entry r in
            if sdp \<noteq> [] then
              ebind (localDescriptionToSignal ld) (\<lambda>signal. Inr (settle (se_promise entry) (Inr signal) r))
            else Inr (settle (se_promise entry) (Inl (Err ''ICE gathering timeout with no localDescription'')) r))"

definition resolveSdpAfterGathering :: "jsstring \<Rightarrow> nat \<Rightarrow> local_desc option \<Rightarrow> rtc \<Rightarrow> rtc res" where
  "resolveSdpAfterGathering peerId epoch ld r =
     (case map_get (sdpAfterGathering r) peerId of
        None \<Rightarrow> Inr r
      | Some entry \<Rightarrow>
          if se_epoch entry \<noteq> epoch then Inr r
          else let r = drop_sdp_entry peerId entry r in
            if sdp_of ld = [] then
              Inr (settle (se_promise entry) (Inl (Err ''localDescription() empty after ICE gathering complete'')) r)
            else ebind (localDescriptionToSignal ld) (\<lambda>signal. Inr (settle (se_promise entry) (Inr signal) r)))"

section \<open>Closing\<close>

definition rtc_drop_buffer :: "jsstring \<Rightarrow> rtc \<Rightarrow> rtc" where
  "rtc_drop_buffer peerId r =
     (case map_get (rtc_sendBuffers r) peerId of
        None \<Rightarrow> r
      | Some dc \<Rightarrow> r\<lparr>rtc_sendBuffers := map_del peerId (rtc_sendBuffers r),
                    rtc_store := map_put dc (sb_stop (the (map_get (rtc_store r) dc))) (rtc_store r)\<rparr>)"

definition cancelPeerDisconnectEmit :: "jsstring \<Rightarrow> rtc \<Rightarrow> rtc" where
  "cancelPeerDisconnectEmit peerId r = r\<lparr>peerDisconnectEmitTimer := set_del peerId (peerDisconnectEmitTimer r)\<rparr>"

definition tearDownPeerWebRtcState :: "bool \<Rightarrow> jsstring \<Rightarrow> rtc \<Rightarrow> rtc \<times> rtc_action list" where
  "tearDownPeerWebRtcState cancelDisconnectEmit peerId r =
     (let r = r\<lparr>remoteDescForTrickle := set_del peerId (remoteDescForTrickle r),
                pendingRemoteIce := map_del peerId (pendingRemoteIce r),
                sendOverflow := map_del peerId (sendOverflow r)\<rparr>;
          r = rtc_drop_buffer peerId r;
          dcActs = (case map_get (dataChannels r) peerId of None \<Rightarrow> [] | Some dc \<Rightarrow> [Dc_close dc]);
          r = r\<lparr>dataChannels := map_del peerId (dataChannels r)\<rparr>;
          pcActs = (case map_get (rtc_connections r) peerId of None \<Rightarrow> [] | Some pc \<Rightarrow> [Pc_destroy pc]);
          r = r\<lparr>rtc_connections := map_del peerId (rtc_connections r)\<rparr>;
          r = (case map_get (sdpAfterGathering r) peerId of
                 None \<Rightarrow> r
               | Some entry \<Rightarrow> settle (se_promise entry)
                   (Inl (Err ''Peer connection closed before ICE gathering completed'')) (drop_sdp_entry peerId entry r));
          r = r\<lparr>dcOpenEpoch := map_del peerId (dcOpenEpoch r), turnConnections := map_del peerId (turnConnections r)\<rparr>;
          r = (if cancelDisconnectEmit then cancelPeerDisconnectEmit peerId r else r) in
      (r, dcActs @ pcActs))"

definition rtc_close :: "jsstring \<Rightarrow> rtc \<Rightarrow> rtc \<times> rtc_action list" where
  "rtc_close peerId r = tearDownPeerWebRtcState True peerId r"

fun rtc_close_each :: "jsstring list \<Rightarrow> rtc \<Rightarrow> rtc \<times> rtc_action list" where
  "rtc_close_each [] r = (r, [])"
| "rtc_close_each (p # ps) r =
     (case rtc_close p r of (r, a) \<Rightarrow> case rtc_close_each ps r of (r, as) \<Rightarrow> (r, a @ as))"

definition rtc_closeAll :: "rtc \<Rightarrow> rtc \<times> rtc_action list" where
  "rtc_closeAll r = rtc_close_each (map_keys (rtc_connections r)) r"

section \<open>Connecting\<close>

definition epoch_of :: "rtc \<Rightarrow> jsstring \<Rightarrow> nat" where
  "epoch_of r peerId = (case map_get (connectionEpoch r) peerId of Some e \<Rightarrow> e | None \<Rightarrow> 0)"

definition getHandshakeGen :: "rtc \<Rightarrow> jsstring \<Rightarrow> nat" where
  "getHandshakeGen r peerId = (case map_get (handshakeGen r) peerId of Some g \<Rightarrow> g | None \<Rightarrow> 0)"

text \<open>The new peer connection is the next unused number.\<close>

definition createPeerConnection :: "jsstring \<Rightarrow> rtc \<Rightarrow> rtc \<times> rtc_action list \<times> nat \<times> nat" where
  "createPeerConnection peerId r =
     (let epoch = epoch_of r peerId + 1;
          r = r\<lparr>connectionEpoch := map_put peerId epoch (connectionEpoch r),
                handshakeGen := map_put peerId (getHandshakeGen r peerId + 1) (handshakeGen r)\<rparr>;
          (r, acts) = (if map_get (rtc_connections r) peerId \<noteq> None then rtc_close peerId r else (r, []));
          pc = rtc_next r in
      (r\<lparr>rtc_next := pc + 1, rtc_connections := map_put peerId pc (rtc_connections r)\<rparr>, acts @ [New_pc pc], pc, epoch))"

text \<open>The part that \<open>createOffer\<close> and \<open>handleOffer\<close> share: the promise (the next number) with its timer.\<close>

definition await_gathering :: "jsstring \<Rightarrow> nat \<Rightarrow> nat \<Rightarrow> sdp_kind \<Rightarrow> rtc \<Rightarrow> rtc" where
  "await_gathering peerId pc epoch kind r =
     (let n = rtc_next r in
      r\<lparr>rtc_next := n + 1,
        rtc_timers := rtc_timers r @ [\<lparr>ti_clearable = True, ti_promise = n, ti_peer = peerId, ti_epoch = epoch, ti_pc = pc, ti_round = 0\<rparr>],
        sdpAfterGathering := map_put peerId \<lparr>se_epoch = epoch, se_promise = n, se_pc = pc, se_kind = kind\<rparr> (sdpAfterGathering r)\<rparr>)"

definition setupDataChannel :: "jsstring \<Rightarrow> nat \<Rightarrow> rtc \<Rightarrow> rtc" where
  "setupDataChannel peerId dc r = r\<lparr>dataChannels := map_put peerId dc (dataChannels r)\<rparr>"

definition createOffer :: "jsstring \<Rightarrow> rtc \<Rightarrow> rtc \<times> rtc_action list \<times> nat" where
  "createOffer peerId r =
     (case createPeerConnection peerId r of (r, acts, pc, epoch) \<Rightarrow>
      let n = rtc_next r;
          r = await_gathering peerId pc epoch Sdp_offer r;
          dc = rtc_next r;
          r = setupDataChannel peerId dc (r\<lparr>rtc_next := dc + 1\<rparr>) in
      (r, acts @ [Create_dc pc dc], n))"

definition flushPendingRemoteIce :: "jsstring \<Rightarrow> rtc \<Rightarrow> rtc \<times> rtc_action list" where
  "flushPendingRemoteIce peerId r =
     (case map_get (rtc_connections r) peerId of
        None \<Rightarrow> (r, [])
      | Some pc \<Rightarrow>
          case map_get (pendingRemoteIce r) peerId of
            None \<Rightarrow> (r, [])
          | Some q \<Rightarrow>
              if q = [] then (r, [])
              else (r\<lparr>pendingRemoteIce := map_del peerId (pendingRemoteIce r)\<rparr>,
                    map (\<lambda>(candidateStr, mid). Add_candidate pc candidateStr mid) q))"

definition afterRemoteDescriptionForTrickle :: "jsstring \<Rightarrow> rtc \<Rightarrow> rtc \<times> rtc_action list" where
  "afterRemoteDescriptionForTrickle peerId r =
     flushPendingRemoteIce peerId (r\<lparr>remoteDescForTrickle := set_add peerId (remoteDescForTrickle r)\<rparr>)"

text \<open>\<open>throws\<close>: whether \<open>setRemoteDescription\<close> throws; inside the executor that rejects the promise.\<close>

definition rtc_handleOffer :: "jsstring \<Rightarrow> jsstring \<Rightarrow> bool \<Rightarrow> rtc \<Rightarrow> rtc \<times> rtc_action list \<times> nat" where
  "rtc_handleOffer peerId sdp throws r =
     (case createPeerConnection peerId r of (r, acts, pc, epoch) \<Rightarrow>
      let n = rtc_next r;
          r = await_gathering peerId pc epoch Sdp_answer r in
      if throws then (settle n (Inl (Err ''setRemoteDescription'')) r, acts, n)
      else case afterRemoteDescriptionForTrickle peerId r of
        (r, acts') \<Rightarrow> (r, acts @ Set_remote pc sdp Sdp_offer # acts', n))"

definition rtc_handleAnswer :: "jsstring \<Rightarrow> jsstring \<Rightarrow> bool \<Rightarrow> rtc \<Rightarrow> (rtc \<times> rtc_action list) res" where
  "rtc_handleAnswer peerId sdp throws r =
     (case map_get (rtc_connections r) peerId of
        None \<Rightarrow> Inl (Err ''No connection found for peer'')
      | Some pc \<Rightarrow>
          if throws then Inl (Err ''setRemoteDescription'')
          else case afterRemoteDescriptionForTrickle peerId r of
            (r, acts) \<Rightarrow> Inr (r, Set_remote pc sdp Sdp_answer # acts))"

definition pushPendingIce :: "jsstring \<Rightarrow> jsstring \<Rightarrow> jsstring \<Rightarrow> rtc \<Rightarrow> rtc" where
  "pushPendingIce peerId candidateStr mid r =
     (let q = (case map_get (pendingRemoteIce r) peerId of Some q \<Rightarrow> q | None \<Rightarrow> []) in
      r\<lparr>pendingRemoteIce := map_put peerId (q @ [(candidateStr, mid)]) (pendingRemoteIce r)\<rparr>)"

text \<open>How \<open>addRemoteCandidate\<close> ends; \<open>Add_stale\<close> are the errors whose message names the ICE transport.\<close>

datatype add_outcome = Add_ok | Add_stale | Add_failed

definition addIceCandidate :: "jsstring \<Rightarrow> jsstring \<Rightarrow> jsstring \<Rightarrow> add_outcome \<Rightarrow> rtc \<Rightarrow> rtc \<times> rtc_action list" where
  "addIceCandidate peerId candidateStr mid outcome r =
     (if peerId \<notin> set (remoteDescForTrickle r) then (pushPendingIce peerId candidateStr mid r, [])
      else case map_get (rtc_connections r) peerId of
        None \<Rightarrow> (pushPendingIce peerId candidateStr mid r, [])
      | Some pc \<Rightarrow>
          if outcome = Add_stale then
            (pushPendingIce peerId candidateStr mid
               (r\<lparr>remoteDescForTrickle := set_del peerId (remoteDescForTrickle r),
                  rtc_connections := map_del peerId (rtc_connections r)\<rparr>), [Add_candidate pc candidateStr mid, Pc_destroy pc])
          else (r, [Add_candidate pc candidateStr mid]))"

section \<open>Sending\<close>

text \<open>The loop of \<open>_drainSendOverflow\<close>: what is left of the queue, and the buffer.\<close>

fun drain_overflow :: "buffer list \<Rightarrow> sendbuf \<Rightarrow> (buffer list \<times> sendbuf) res" where
  "drain_overflow [] sb = Inr ([], sb)"
| "drain_overflow (p # q) sb =
     ebind (push p sb) (\<lambda>(sb, ok). if ok then drain_overflow q sb else Inr (p # q, sb))"

definition drainSendOverflow :: "jsstring \<Rightarrow> rtc \<Rightarrow> rtc res" where
  "drainSendOverflow peerId r =
     (case map_get (rtc_sendBuffers r) peerId of
        None \<Rightarrow> Inr r
      | Some dc \<Rightarrow>
          case map_get (sendOverflow r) peerId of
            None \<Rightarrow> Inr r
          | Some q \<Rightarrow>
              if q = [] then Inr r
              else ebind (drain_overflow q (the (map_get (rtc_store r) dc))) (\<lambda>(q, sb).
                Inr (r\<lparr>rtc_store := map_put dc sb (rtc_store r),
                       sendOverflow := (if q = [] then map_del peerId (sendOverflow r) else map_put peerId q (sendOverflow r))\<rparr>)))"

definition rtc_send :: "jsstring \<Rightarrow> buffer \<Rightarrow> rtc \<Rightarrow> (rtc \<times> bool) res" where
  "rtc_send peerId buffer r =
     (case map_get (rtc_sendBuffers r) peerId of
        None \<Rightarrow> Inr (r, False)
      | Some dc \<Rightarrow>
          ebind (push buffer (the (map_get (rtc_store r) dc))) (\<lambda>(sb, pushed).
          let r = r\<lparr>rtc_store := map_put dc sb (rtc_store r)\<rparr> in
          if pushed then ebind (drainSendOverflow peerId r) (\<lambda>r. Inr (r, True))
          else if sendOverflowMax r \<le> 0 then Inr (r, False)
          else let q = (case map_get (sendOverflow r) peerId of Some q \<Rightarrow> q | None \<Rightarrow> []) in
            if int (length q) \<ge> sendOverflowMax r
            then Inr (r\<lparr>sendOverflow := map_put peerId q (sendOverflow r), overflowBlocked := overflowBlocked r + 1\<rparr>, False)
            else Inr (r\<lparr>sendOverflow := map_put peerId (q @ [buffer]) (sendOverflow r)\<rparr>, True)))"

text \<open>\<open>isOpen\<close> says which data channels are open; a throwing library call counts as not open.\<close>

definition rtc_isConnected :: "(nat \<Rightarrow> bool) \<Rightarrow> jsstring \<Rightarrow> rtc \<Rightarrow> bool" where
  "rtc_isConnected isOpen peerId r = (case map_get (dataChannels r) peerId of Some dc \<Rightarrow> isOpen dc | None \<Rightarrow> False)"

definition rtc_getConnectedPeers :: "(nat \<Rightarrow> bool) \<Rightarrow> rtc \<Rightarrow> jsstring list" where
  "rtc_getConnectedPeers isOpen r = map fst (filter (\<lambda>(_, dc). isOpen dc) (dataChannels r))"

definition isTurnConnection :: "jsstring \<Rightarrow> rtc \<Rightarrow> bool" where
  "isTurnConnection peerId r = (case map_get (turnConnections r) peerId of Some b \<Rightarrow> b | None \<Rightarrow> False)"

text \<open>\<open>_getDcOptions\<close>: \<open>unordered\<close> and \<open>maxRetransmits\<close>.\<close>

definition getDcOptions :: "rtc \<Rightarrow> bool \<times> nat option" where
  "getDcOptions r = (if rtc_dcMode r = js ''performance'' then (True, Some 0) else (False, None))"

definition getSendDiagnostics :: "(nat \<Rightarrow> nat option) \<Rightarrow> rtc \<Rightarrow> (jsstring \<times> nat option \<times> nat \<times> nat) list \<times> nat" where
  "getSendDiagnostics bufferedAmount r =
     (map (\<lambda>(peerId, dc).
        (take 12 peerId, bufferedAmount dc,
         (case map_get (rtc_sendBuffers r) peerId of
            Some b \<Rightarrow> length (sb_packets (the (map_get (rtc_store r) b))) | None \<Rightarrow> 0),
         (case map_get (sendOverflow r) peerId of Some q \<Rightarrow> length q | None \<Rightarrow> 0))) (dataChannels r),
      overflowBlocked r)"

section \<open>Callbacks\<close>

text \<open>
  The callbacks registered for a connection compare the epoch they were created with with the
  current one of the peer.
\<close>

definition current :: "jsstring \<Rightarrow> nat \<Rightarrow> rtc \<Rightarrow> bool" where
  "current peerId epoch r \<longleftrightarrow> map_get (connectionEpoch r) peerId = Some epoch"

definition emitPeerDisconnectSoon :: "jsstring \<Rightarrow> rtc \<Rightarrow> rtc" where
  "emitPeerDisconnectSoon peerId r = r\<lparr>peerDisconnectEmitTimer := set_add peerId (peerDisconnectEmitTimer r)\<rparr>"

definition disconnect_timer :: "jsstring \<Rightarrow> rtc \<Rightarrow> rtc \<times> rtc_action list" where
  "disconnect_timer peerId r =
     (if peerId \<in> set (peerDisconnectEmitTimer r)
      then (r\<lparr>peerDisconnectEmitTimer := set_del peerId (peerDisconnectEmitTimer r)\<rparr>, [Rtc_disconnected peerId])
      else (r, []))"

definition on_local_candidate :: "jsstring \<Rightarrow> nat \<Rightarrow> jsstring \<Rightarrow> jsstring \<Rightarrow> rtc \<Rightarrow> rtc_action list" where
  "on_local_candidate peerId epoch candidate mid r =
     (if \<not> current peerId epoch r then [] else [Rtc_ice peerId candidate mid])"

datatype pc_state = Pc_connected | Pc_failed | Pc_closed | Pc_other

text \<open>\<open>pair\<close>: the types of the selected candidates are \<open>relay\<close>; \<open>None\<close> if asking for the pair throws.\<close>

definition logSelectedCandidatePair :: "jsstring \<Rightarrow> (bool \<times> bool) option \<Rightarrow> rtc \<Rightarrow> rtc" where
  "logSelectedCandidatePair peerId pair r =
     (case pair of None \<Rightarrow> r | Some (l, m) \<Rightarrow> r\<lparr>turnConnections := map_put peerId (l \<or> m) (turnConnections r)\<rparr>)"

definition on_pc_state :: "jsstring \<Rightarrow> nat \<Rightarrow> pc_state \<Rightarrow> (bool \<times> bool) option \<Rightarrow> rtc \<Rightarrow> rtc \<times> rtc_action list" where
  "on_pc_state peerId epoch state pair r =
     (if \<not> current peerId epoch r then (r, [])
      else let r = (if state = Pc_connected then logSelectedCandidatePair peerId pair r else r) in
      if state = Pc_failed \<or> state = Pc_closed then
        (case tearDownPeerWebRtcState False peerId (r\<lparr>dcOpenEpoch := map_del peerId (dcOpenEpoch r)\<rparr>) of
           (r, acts) \<Rightarrow> (emitPeerDisconnectSoon peerId r, Rtc_state peerId # acts))
      else (r, [Rtc_state peerId]))"

definition on_gathering_state :: "jsstring \<Rightarrow> nat \<Rightarrow> bool \<Rightarrow> local_desc option \<Rightarrow> rtc \<Rightarrow> rtc res" where
  "on_gathering_state peerId epoch complete ld r =
     (if \<not> current peerId epoch r then Inr r
      else if complete then resolveSdpAfterGathering peerId epoch ld r else Inr r)"

definition on_dc_open :: "jsstring \<Rightarrow> nat \<Rightarrow> nat \<Rightarrow> (nat \<Rightarrow> bool) \<Rightarrow> (nat \<Rightarrow> byte) \<Rightarrow> rtc \<Rightarrow> rtc \<times> rtc_action list" where
  "on_dc_open peerId epoch dc ready mem r =
     (if \<not> current peerId epoch r then (r, [])
      else (r\<lparr>dcOpenEpoch := map_put peerId epoch (dcOpenEpoch r),
              rtc_store := map_put dc (new_TransportSendBuffer None (Some (sendBufferMaxQueue r)) ready mem) (rtc_store r),
              rtc_sendBuffers := map_put peerId dc (rtc_sendBuffers r)\<rparr>, [Rtc_connected peerId]))"

definition on_dc_closed :: "jsstring \<Rightarrow> nat \<Rightarrow> rtc \<Rightarrow> rtc" where
  "on_dc_closed peerId epoch r =
     (if \<not> current peerId epoch r then r
      else if map_get (dcOpenEpoch r) peerId \<noteq> Some epoch then r
      else emitPeerDisconnectSoon peerId (rtc_drop_buffer peerId (r\<lparr>dcOpenEpoch := map_del peerId (dcOpenEpoch r)\<rparr>)))"

definition on_dc_error :: "jsstring \<Rightarrow> nat \<Rightarrow> rtc \<Rightarrow> rtc_action list" where
  "on_dc_error peerId epoch r = (if \<not> current peerId epoch r then [] else [Rtc_error peerId])"

definition on_dc_message :: "jsstring \<Rightarrow> nat \<Rightarrow> buffer \<Rightarrow> rtc \<Rightarrow> rtc_action list" where
  "on_dc_message peerId epoch raw r =
     (if \<not> current peerId epoch r then []
      else case unframe raw of None \<Rightarrow> [] | Some packets \<Rightarrow> map (Rtc_message peerId) packets)"

definition on_buffered_low :: "jsstring \<Rightarrow> nat \<Rightarrow> rtc \<Rightarrow> (rtc \<times> rtc_action list) res" where
  "on_buffered_low peerId epoch r =
     (if \<not> current peerId epoch r then Inr (r, [])
      else ebind (case map_get (rtc_sendBuffers r) peerId of
                    None \<Rightarrow> Inr r
                  | Some dc \<Rightarrow> ebind (resume (the (map_get (rtc_store r) dc))) (\<lambda>sb.
                      Inr (r\<lparr>rtc_store := map_put dc sb (rtc_store r)\<rparr>))) (\<lambda>r.
           ebind (drainSendOverflow peerId r) (\<lambda>r. Inr (r, [Rtc_buffer_low peerId]))))"

definition rtc_buffer_timer :: "nat \<Rightarrow> rtc \<Rightarrow> rtc res" where
  "rtc_buffer_timer dc r =
     (case map_get (rtc_store r) dc of
        None \<Rightarrow> Inr r
      | Some sb \<Rightarrow> ebind (sb_timeout sb) (\<lambda>sb. Inr (r\<lparr>rtc_store := map_put dc sb (rtc_store r)\<rparr>)))"

text \<open>The first running timer of the promise made for the peer in the epoch fires.\<close>

definition fire_sdp_timer :: "jsstring \<Rightarrow> nat \<Rightarrow> local_desc option \<Rightarrow> bool \<Rightarrow> rtc \<Rightarrow> rtc res" where
  "fire_sdp_timer peerId epoch ld complete r =
     (case List.extract (\<lambda>t. ti_peer t = peerId \<and> ti_epoch t = epoch) (rtc_timers r) of
        None \<Rightarrow> Inr r
      | Some (before, t, after) \<Rightarrow>
          finishSdpAfterGatheringTimeout peerId epoch (ti_pc t) (ti_round t) ld complete (r\<lparr>rtc_timers := before @ after\<rparr>))"

end
