(* ===== verification/WebRTC_Session.thy ===== *)
theory WebRTC_Session
  imports WebRTC "HOL-Library.Multiset"
begin

text \<open>
  Runs of the WebRTC transport: any interleaving of calls, timers and library callbacks. The theorems show that
  such a run never throws, that the promise of an offer or answer is settled after a bounded number
  of timer callbacks, that remote candidates reach the peer connection in order and exactly once, and that
  accepted packets are not lost.
\<close>

section \<open>Events\<close>

datatype rtc_event =
    Offer jsstring
  | Offer_from jsstring jsstring bool
  | Answer_from jsstring jsstring bool
  | Candidate_from jsstring jsstring jsstring add_outcome
  | Send_to jsstring buffer
  | Buffer_timer nat
  | Close_rtc jsstring
  | Close_rtc_all
  | Sdp_timer jsstring nat "local_desc option" bool
  | Disconnect_timer jsstring
  | Pc_candidate jsstring nat jsstring jsstring
  | Pc_state jsstring nat pc_state "(bool \<times> bool) option"
  | Pc_gathering jsstring nat bool "local_desc option"
  | Pc_channel jsstring nat
  | Dc_open jsstring nat nat "nat \<Rightarrow> bool" "nat \<Rightarrow> byte"
  | Dc_closed jsstring nat
  | Dc_error jsstring nat
  | Dc_message jsstring nat buffer
  | Dc_low jsstring nat

text \<open>A rejected \<open>rtc_handleAnswer\<close> is reported to its caller and changes nothing.\<close>

fun rtc_step :: "rtc_event \<Rightarrow> rtc \<Rightarrow> (rtc \<times> rtc_action list) res" where
  "rtc_step (Offer p) r = (case createOffer p r of (r, a, _) \<Rightarrow> Inr (r, a))"
| "rtc_step (Offer_from p sdp throws) r = (case rtc_handleOffer p sdp throws r of (r, a, _) \<Rightarrow> Inr (r, a))"
| "rtc_step (Answer_from p sdp throws) r = (case rtc_handleAnswer p sdp throws r of Inl _ \<Rightarrow> Inr (r, []) | Inr x \<Rightarrow> Inr x)"
| "rtc_step (Candidate_from p c m out) r = Inr (addIceCandidate p c m out r)"
| "rtc_step (Send_to p d) r = ebind (rtc_send p d r) (\<lambda>(r, _). Inr (r, []))"
| "rtc_step (Buffer_timer dc) r = ebind (rtc_buffer_timer dc r) (\<lambda>r. Inr (r, []))"
| "rtc_step (Close_rtc p) r = Inr (rtc_close p r)"
| "rtc_step Close_rtc_all r = Inr (rtc_closeAll r)"
| "rtc_step (Sdp_timer p e ld complete) r = ebind (fire_sdp_timer p e ld complete r) (\<lambda>r. Inr (r, []))"
| "rtc_step (Disconnect_timer p) r = Inr (disconnect_timer p r)"
| "rtc_step (Pc_candidate p e c m) r = Inr (r, on_local_candidate p e c m r)"
| "rtc_step (Pc_state p e st pair) r = Inr (on_pc_state p e st pair r)"
| "rtc_step (Pc_gathering p e complete ld) r = ebind (on_gathering_state p e complete ld r) (\<lambda>r. Inr (r, []))"
| "rtc_step (Pc_channel p dc) r = Inr (setupDataChannel p dc r, [])"
| "rtc_step (Dc_open p e dc ready mem) r = Inr (on_dc_open p e dc ready mem r)"
| "rtc_step (Dc_closed p e) r = Inr (on_dc_closed p e r, [])"
| "rtc_step (Dc_error p e) r = Inr (r, on_dc_error p e r)"
| "rtc_step (Dc_message p e raw) r = Inr (r, on_dc_message p e raw r)"
| "rtc_step (Dc_low p e) r = on_buffered_low p e r"

fun rtc_run :: "rtc_event list \<Rightarrow> rtc \<Rightarrow> (rtc \<times> rtc_action list) res" where
  "rtc_run [] r = Inr (r, [])"
| "rtc_run (e # es) r = ebind (rtc_step e r) (\<lambda>(r, a). ebind (rtc_run es r) (\<lambda>(r, b). Inr (r, a @ b)))"

text \<open>
  A complete gathering comes with a local description (the library sets it before it starts to gather),
  and packets do not start with the frame marker (serialised packets start with their version).
\<close>

fun rtc_event_ok :: "rtc_event \<Rightarrow> bool" where
  "rtc_event_ok (Send_to p d) = plain_frame d"
| "rtc_event_ok (Sdp_timer p e ld complete) = (complete \<longrightarrow> ld \<noteq> None)"
| "rtc_event_ok _ = True"

section \<open>Effect of the operations\<close>

lemma settle_fields [simp]:
  "rtc_connections (settle n v r) = rtc_connections r" "remoteDescForTrickle (settle n v r) = remoteDescForTrickle r"
  "pendingRemoteIce (settle n v r) = pendingRemoteIce r" "sendOverflow (settle n v r) = sendOverflow r"
  "sendOverflowMax (settle n v r) = sendOverflowMax r"
  "rtc_sendBuffers (settle n v r) = rtc_sendBuffers r" "rtc_store (settle n v r) = rtc_store r"
  "sdpAfterGathering (settle n v r) = sdpAfterGathering r" "rtc_timers (settle n v r) = rtc_timers r"
  "connectionEpoch (settle n v r) = connectionEpoch r" "rtc_next (settle n v r) = rtc_next r"
  "map_get (rtc_settled (settle n v r)) m = (if m = n \<and> map_get (rtc_settled r) n = None then Some v else map_get (rtc_settled r) m)"
  by (simp_all add: settle_def)

lemma drop_sdp_fields [simp]:
  "rtc_connections (drop_sdp_entry p n r) = rtc_connections r" "remoteDescForTrickle (drop_sdp_entry p n r) = remoteDescForTrickle r"
  "pendingRemoteIce (drop_sdp_entry p n r) = pendingRemoteIce r" "sendOverflow (drop_sdp_entry p n r) = sendOverflow r"
  "sendOverflowMax (drop_sdp_entry p n r) = sendOverflowMax r"
  "rtc_sendBuffers (drop_sdp_entry p n r) = rtc_sendBuffers r" "rtc_store (drop_sdp_entry p n r) = rtc_store r"
  "sdpAfterGathering (drop_sdp_entry p n r) = map_del p (sdpAfterGathering r)"
  "rtc_timers (drop_sdp_entry p n r) = filter (\<lambda>t. \<not> (ti_clearable t \<and> ti_promise t = se_promise n)) (rtc_timers r)"
  "connectionEpoch (drop_sdp_entry p n r) = connectionEpoch r" "rtc_next (drop_sdp_entry p n r) = rtc_next r"
  "rtc_settled (drop_sdp_entry p n r) = rtc_settled r"
  by (simp_all add: drop_sdp_entry_def clear_sdp_timer_def)

lemma drop_buffer_fields [simp]:
  "rtc_connections (rtc_drop_buffer p r) = rtc_connections r" "remoteDescForTrickle (rtc_drop_buffer p r) = remoteDescForTrickle r"
  "pendingRemoteIce (rtc_drop_buffer p r) = pendingRemoteIce r" "sendOverflow (rtc_drop_buffer p r) = sendOverflow r"
  "sendOverflowMax (rtc_drop_buffer p r) = sendOverflowMax r"
  "dataChannels (rtc_drop_buffer p r) = dataChannels r"
  "map_get (rtc_sendBuffers (rtc_drop_buffer p r)) q = (if q = p then None else map_get (rtc_sendBuffers r) q)"
  "sdpAfterGathering (rtc_drop_buffer p r) = sdpAfterGathering r" "rtc_timers (rtc_drop_buffer p r) = rtc_timers r"
  "connectionEpoch (rtc_drop_buffer p r) = connectionEpoch r" "rtc_next (rtc_drop_buffer p r) = rtc_next r"
  "rtc_settled (rtc_drop_buffer p r) = rtc_settled r"
  by (simp_all add: rtc_drop_buffer_def split: option.split)

lemma tear_down_fields [simp]:
  "rtc_connections (fst (tearDownPeerWebRtcState c p r)) = map_del p (rtc_connections r)"
  "remoteDescForTrickle (fst (tearDownPeerWebRtcState c p r)) = set_del p (remoteDescForTrickle r)"
  "pendingRemoteIce (fst (tearDownPeerWebRtcState c p r)) = map_del p (pendingRemoteIce r)"
  "sendOverflow (fst (tearDownPeerWebRtcState c p r)) = map_del p (sendOverflow r)"
  "sendOverflowMax (fst (tearDownPeerWebRtcState c p r)) = sendOverflowMax r"
  "map_get (rtc_sendBuffers (fst (tearDownPeerWebRtcState c p r))) q = (if q = p then None else map_get (rtc_sendBuffers r) q)"
  "map_get (sdpAfterGathering (fst (tearDownPeerWebRtcState c p r))) q = (if q = p then None else map_get (sdpAfterGathering r) q)"
  "connectionEpoch (fst (tearDownPeerWebRtcState c p r)) = connectionEpoch r"
  "rtc_next (fst (tearDownPeerWebRtcState c p r)) = rtc_next r"
  by (simp_all add: tearDownPeerWebRtcState_def cancelPeerDisconnectEmit_def Let_def split: option.split)

lemma tear_down_store:
  "rtc_store (fst (tearDownPeerWebRtcState c p r)) = rtc_store (rtc_drop_buffer p r)"
  by (simp add: tearDownPeerWebRtcState_def cancelPeerDisconnectEmit_def Let_def rtc_drop_buffer_def split: option.split)

lemma tear_down_timers:
  "rtc_timers (fst (tearDownPeerWebRtcState c p r)) =
     (case map_get (sdpAfterGathering r) p of None \<Rightarrow> rtc_timers r
      | Some n \<Rightarrow> filter (\<lambda>t. \<not> (ti_clearable t \<and> ti_promise t = se_promise n)) (rtc_timers r))"
  by (simp add: tearDownPeerWebRtcState_def cancelPeerDisconnectEmit_def Let_def split: option.split)

lemma tear_down_settled:
  "map_get (rtc_settled (fst (tearDownPeerWebRtcState c p r))) m \<noteq> None \<longleftrightarrow>
     map_get (rtc_settled r) m \<noteq> None \<or> (\<exists>n. map_get (sdpAfterGathering r) p = Some n \<and> se_promise n = m)"
  by (auto simp: tearDownPeerWebRtcState_def cancelPeerDisconnectEmit_def Let_def split: option.split)

text \<open>Three groups of fields that most operations leave alone.\<close>

definition same_sdp :: "rtc \<Rightarrow> rtc \<Rightarrow> bool" where
  "same_sdp r' r \<longleftrightarrow> sdpAfterGathering r' = sdpAfterGathering r \<and> rtc_timers r' = rtc_timers r \<and>
     connectionEpoch r' = connectionEpoch r \<and> rtc_settled r' = rtc_settled r"

definition same_ice :: "rtc \<Rightarrow> rtc \<Rightarrow> bool" where
  "same_ice r' r \<longleftrightarrow> rtc_connections r' = rtc_connections r \<and> remoteDescForTrickle r' = remoteDescForTrickle r \<and>
     pendingRemoteIce r' = pendingRemoteIce r \<and> rtc_next r' = rtc_next r"

definition same_buf :: "rtc \<Rightarrow> rtc \<Rightarrow> bool" where
  "same_buf r' r \<longleftrightarrow> sendOverflow r' = sendOverflow r \<and> sendOverflowMax r' = sendOverflowMax r \<and>
     rtc_sendBuffers r' = rtc_sendBuffers r \<and> rtc_store r' = rtc_store r"

lemmas same_defs = same_sdp_def same_ice_def same_buf_def

lemma drain_frame: "drainSendOverflow p r = Inr r' \<Longrightarrow> same_sdp r' r \<and> same_ice r' r"
  by (auto simp: drainSendOverflow_def same_defs ebind_Inr_iff split: option.splits if_splits)

lemma send_frame: "rtc_send p d r = Inr (r', ok) \<Longrightarrow> same_sdp r' r \<and> same_ice r' r"
proof (cases "map_get (rtc_sendBuffers r) p")
  case (Some dc)
  assume send: "rtc_send p d r = Inr (r', ok)"
  then obtain sb pushed where push: "push d (the (map_get (rtc_store r) dc)) = Inr (sb, pushed)"
    using Some by (auto simp: rtc_send_def ebind_Inr_iff)
  let ?r = "r\<lparr>rtc_store := map_put dc sb (rtc_store r)\<rparr>"
  show ?thesis
  proof (cases pushed)
    case True
    then have "drainSendOverflow p ?r = Inr r'" using send Some push by (auto simp: rtc_send_def ebind_Inr_iff Let_def)
    from drain_frame [OF this] show ?thesis by (simp add: same_defs)
  next
    case False
    then show ?thesis using send Some push by (auto simp: rtc_send_def Let_def same_defs split: if_splits)
  qed
qed (simp add: rtc_send_def same_defs)

lemma low_frame: "on_buffered_low p e r = Inr (r', a) \<Longrightarrow> same_sdp r' r \<and> same_ice r' r"
  by (auto simp: on_buffered_low_def same_defs ebind_Inr_iff dest!: drain_frame split: option.splits if_splits)

lemma buffer_timer_frame: "rtc_buffer_timer dc r = Inr r' \<Longrightarrow> same_sdp r' r \<and> same_ice r' r"
  by (auto simp: rtc_buffer_timer_def same_defs ebind_Inr_iff split: option.splits)

lemma drop_buffer_frame: "same_sdp (rtc_drop_buffer p r) r \<and> same_ice (rtc_drop_buffer p r) r"
  by (simp add: same_defs)

lemma flush_frame: "same_sdp (fst (flushPendingRemoteIce p r)) r \<and> same_buf (fst (flushPendingRemoteIce p r)) r"
  by (auto simp: flushPendingRemoteIce_def same_defs split: option.splits)

lemma after_remote_frame:
  "same_sdp (fst (afterRemoteDescriptionForTrickle p r)) r \<and> same_buf (fst (afterRemoteDescriptionForTrickle p r)) r"
  using flush_frame [of p "r\<lparr>remoteDescForTrickle := set_add p (remoteDescForTrickle r)\<rparr>"]
  by (simp add: afterRemoteDescriptionForTrickle_def same_defs)

lemma after_remote_fields [simp]:
  "rtc_connections (fst (afterRemoteDescriptionForTrickle p r)) = rtc_connections r"
  "rtc_next (fst (afterRemoteDescriptionForTrickle p r)) = rtc_next r"
  "remoteDescForTrickle (fst (afterRemoteDescriptionForTrickle p r)) = set_add p (remoteDescForTrickle r)"
  by (simp_all add: afterRemoteDescriptionForTrickle_def flushPendingRemoteIce_def split: option.split)

lemma candidate_frame: "same_sdp (fst (addIceCandidate p c m out r)) r \<and> same_buf (fst (addIceCandidate p c m out r)) r
    \<and> rtc_next (fst (addIceCandidate p c m out r)) = rtc_next r"
  by (auto simp: addIceCandidate_def pushPendingIce_def same_defs Let_def split: option.splits)

lemma answer_frame: "rtc_handleAnswer p sdp throws r = Inr (r', a) \<Longrightarrow> same_sdp r' r \<and> same_buf r' r \<and>
    rtc_connections r' = rtc_connections r \<and> rtc_next r' = rtc_next r"
  using after_remote_frame [of p r] by (auto simp: rtc_handleAnswer_def split: option.splits if_splits prod.splits
      dest: arg_cong [where f = fst]) (metis after_remote_fields(1,2) fst_conv)+

lemma dc_closed_frame: "same_sdp (on_dc_closed p e r) r \<and> same_ice (on_dc_closed p e r) r"
  by (simp add: on_dc_closed_def emitPeerDisconnectSoon_def same_defs)

lemma dc_open_frame: "same_sdp (fst (on_dc_open p e dc ready mem r)) r \<and> same_ice (fst (on_dc_open p e dc ready mem r)) r"
  by (simp add: on_dc_open_def same_defs)

lemma disconnect_timer_frame: "same_sdp (fst (disconnect_timer p r)) r \<and> same_ice (fst (disconnect_timer p r)) r \<and>
    same_buf (fst (disconnect_timer p r)) r"
  by (simp add: disconnect_timer_def same_defs)

lemma setup_channel_frame: "same_sdp (setupDataChannel p dc r) r \<and> same_ice (setupDataChannel p dc r) r \<and>
    same_buf (setupDataChannel p dc r) r"
  by (simp add: setupDataChannel_def same_defs)

text \<open>The sdp timers and the gathering callback change the promises only.\<close>

lemma finish_frame: "finishSdpAfterGatheringTimeout p e pc k ld c r = Inr r' \<Longrightarrow>
    same_ice r' r \<and> same_buf r' r \<and> connectionEpoch r' = connectionEpoch r"
  by (auto simp: finishSdpAfterGatheringTimeout_def same_defs ebind_Inr_iff Let_def split: option.splits if_splits)

lemma fire_frame: "fire_sdp_timer p e ld c r = Inr r' \<Longrightarrow> same_ice r' r \<and> same_buf r' r \<and> connectionEpoch r' = connectionEpoch r"
  by (auto simp: fire_sdp_timer_def same_defs dest!: finish_frame split: option.splits prod.splits)

lemma gathering_frame: "on_gathering_state p e c ld r = Inr r' \<Longrightarrow>
    same_ice r' r \<and> same_buf r' r \<and> connectionEpoch r' = connectionEpoch r"
  by (auto simp: on_gathering_state_def resolveSdpAfterGathering_def same_defs ebind_Inr_iff Let_def split: option.splits if_splits)

section \<open>Promises\<close>

definition sdp_inv :: "rtc \<Rightarrow> bool" where
  "sdp_inv r \<longleftrightarrow>
     (\<forall>p n. map_get (sdpAfterGathering r) p = Some n \<longrightarrow> se_promise n < rtc_next r)
     \<and> (\<forall>p q m n. map_get (sdpAfterGathering r) p = Some m \<longrightarrow> map_get (sdpAfterGathering r) q = Some n \<longrightarrow>
          se_promise m = se_promise n \<longrightarrow> p = q)
     \<and> (\<forall>t \<in> set (rtc_timers r). ti_epoch t \<le> epoch_of r (ti_peer t))"

text \<open>The promise waits for a timer of its own, which fires for the round at least \<open>k\<close>.\<close>

definition gather_waiting :: "nat \<Rightarrow> jsstring \<Rightarrow> nat \<Rightarrow> nat \<Rightarrow> rtc \<Rightarrow> bool" where
  "gather_waiting n p e k r \<longleftrightarrow>
     (\<exists>x. map_get (sdpAfterGathering r) p = Some x \<and> se_epoch x = e \<and> se_promise x = n)
     \<and> map_get (rtc_connections r) p \<noteq> None
     \<and> (\<exists>t. filter (\<lambda>t. ti_peer t = p \<and> ti_epoch t = e) (rtc_timers r) = [t] \<and> ti_promise t = n \<and>
          k \<le> ti_round t \<and> ti_round t \<le> ICE_GATHERING_GRACE_ROUNDS)"

definition settled_or_waiting :: "nat \<Rightarrow> jsstring \<Rightarrow> nat \<Rightarrow> nat \<Rightarrow> rtc \<Rightarrow> bool" where
  "settled_or_waiting n p e k r \<longleftrightarrow> map_get (rtc_settled r) n \<noteq> None \<or> gather_waiting n p e k r"

lemma same_sdp_inv: "same_sdp r' r \<Longrightarrow> rtc_next r' = rtc_next r \<Longrightarrow> sdp_inv r' = sdp_inv r"
  by (simp add: same_sdp_def sdp_inv_def epoch_of_def)

lemma sdp_inv_later: "sdp_inv r \<Longrightarrow> same_sdp r' r \<Longrightarrow> rtc_next r \<le> rtc_next r' \<Longrightarrow> sdp_inv r'"
  by (fastforce simp: same_sdp_def sdp_inv_def epoch_of_def)

lemma same_sdp_waiting: "same_sdp r' r \<Longrightarrow> map_get (rtc_connections r') p = map_get (rtc_connections r) p \<Longrightarrow>
    settled_or_waiting n p e k r' = settled_or_waiting n p e k r"
  by (simp add: same_sdp_def settled_or_waiting_def gather_waiting_def)

lemma tear_down_inv: "sdp_inv r \<Longrightarrow> sdp_inv (fst (tearDownPeerWebRtcState c p r))"
  unfolding sdp_inv_def by (auto simp: tear_down_timers epoch_of_def split: option.splits)

lemma keeps_timer:
  "filter P ts = [t] \<Longrightarrow> Q t \<Longrightarrow> filter P (filter Q ts) = [t]"
proof -
  have "filter P (filter Q ts) = filter Q (filter P ts)" by (simp add: conj_commute)
  then show "filter P ts = [t] \<Longrightarrow> Q t \<Longrightarrow> filter P (filter Q ts) = [t]" by simp
qed

lemma tear_down_waiting:
  assumes "sdp_inv r" "settled_or_waiting n p e k r"
  shows "settled_or_waiting n p e k (fst (tearDownPeerWebRtcState c q r))"
proof (cases "map_get (rtc_settled r) n = None \<and> q \<noteq> p")
  case False
  then show ?thesis
    using assms(2) tear_down_settled [of c q r n] by (auto simp: settled_or_waiting_def gather_waiting_def)
next
  case True
  then obtain x t where x: "map_get (sdpAfterGathering r) p = Some x" "se_epoch x = e" "se_promise x = n"
      "map_get (rtc_connections r) p \<noteq> None"
      "filter (\<lambda>t. ti_peer t = p \<and> ti_epoch t = e) (rtc_timers r) = [t]" "ti_promise t = n" "k \<le> ti_round t"
      "ti_round t \<le> ICE_GATHERING_GRACE_ROUNDS"
    using assms(2) by (auto simp: settled_or_waiting_def gather_waiting_def)
  have "filter (\<lambda>t. ti_peer t = p \<and> ti_epoch t = e) (rtc_timers (fst (tearDownPeerWebRtcState c q r))) = [t]"
  proof (cases "map_get (sdpAfterGathering r) q")
    case (Some y)
    then have "se_promise y \<noteq> n" using assms(1) x(1,3) True unfolding sdp_inv_def by blast
    then show ?thesis using keeps_timer [OF x(5)] x(6) Some by (simp add: tear_down_timers)
  qed (simp add: tear_down_timers x(5))
  then show ?thesis using x True by (auto simp: settled_or_waiting_def gather_waiting_def)
qed

lemma close_each_inv: "sdp_inv r \<Longrightarrow> sdp_inv (fst (rtc_close_each ps r)) \<and>
    (settled_or_waiting n p e k r \<longrightarrow> settled_or_waiting n p e k (fst (rtc_close_each ps r)))"
proof (induction ps arbitrary: r)
  case (Cons q ps)
  have eq: "fst (rtc_close_each (q # ps) r) = fst (rtc_close_each ps (fst (tearDownPeerWebRtcState True q r)))"
    by (simp add: rtc_close_def case_prod_beta)
  show ?case using Cons tear_down_inv [of r] tear_down_waiting [of r] unfolding eq by blast
qed simp

text \<open>The first half of \<open>_createPeerConnection\<close>: the next epoch, with an old connection torn down.\<close>

definition next_epoch :: "jsstring \<Rightarrow> rtc \<Rightarrow> rtc" where
  "next_epoch p r =
     (let r = r\<lparr>connectionEpoch := map_put p (epoch_of r p + 1) (connectionEpoch r),
                handshakeGen := map_put p (getHandshakeGen r p + 1) (handshakeGen r)\<rparr> in
      if map_get (rtc_connections r) p \<noteq> None then fst (tearDownPeerWebRtcState True p r) else r)"

definition connect_pc :: "jsstring \<Rightarrow> rtc \<Rightarrow> rtc" where
  "connect_pc p r = (next_epoch p r)\<lparr>rtc_next := rtc_next r + 1, rtc_connections := map_put p (rtc_next r) (rtc_connections (next_epoch p r))\<rparr>"

lemma next_epoch_next [simp]: "rtc_next (next_epoch p r) = rtc_next r"
  by (simp add: next_epoch_def Let_def)

lemma create_pc_eq:
  "\<exists>acts. createPeerConnection p r = (connect_pc p r, acts, rtc_next r, epoch_of r p + 1)"
  by (simp add: createPeerConnection_def connect_pc_def next_epoch_def rtc_close_def Let_def case_prod_beta)

lemma next_epoch_inv: "sdp_inv r \<Longrightarrow> sdp_inv (next_epoch p r)"
proof -
  assume "sdp_inv r"
  then have "sdp_inv (r\<lparr>connectionEpoch := map_put p (epoch_of r p + 1) (connectionEpoch r), handshakeGen := m\<rparr>)" for m
    unfolding sdp_inv_def by (auto simp: epoch_of_def split: option.splits)
  then show ?thesis using tear_down_inv by (simp add: next_epoch_def Let_def)
qed

lemma next_epoch_waiting:
  assumes "sdp_inv r" "settled_or_waiting n p e k r"
  shows "settled_or_waiting n p e k (next_epoch q r)"
proof -
  let ?r = "r\<lparr>connectionEpoch := map_put q (epoch_of r q + 1) (connectionEpoch r),
      handshakeGen := map_put q (getHandshakeGen r q + 1) (handshakeGen r)\<rparr>"
  have "sdp_inv ?r" using assms(1) unfolding sdp_inv_def by (auto simp: epoch_of_def split: option.splits)
  moreover have "settled_or_waiting n p e k ?r" using assms(2) by (simp add: settled_or_waiting_def gather_waiting_def)
  ultimately show ?thesis using tear_down_waiting by (simp add: next_epoch_def Let_def)
qed

text \<open>A promise that waits for the peer is settled when the connection is replaced.\<close>

lemma next_epoch_settles: "settled_or_waiting n p e k r \<Longrightarrow> map_get (rtc_settled (next_epoch p r)) n \<noteq> None"
proof -
  assume w: "settled_or_waiting n p e k r"
  show ?thesis
  proof (cases "map_get (rtc_connections r) p")
    case None
    then show ?thesis using w by (simp add: next_epoch_def Let_def settled_or_waiting_def gather_waiting_def)
  next
    case (Some x)
    then show ?thesis
      using w tear_down_settled [of True p _ n] by (auto simp: next_epoch_def Let_def settled_or_waiting_def gather_waiting_def)
  qed
qed

lemma next_epoch_fields:
  "epoch_of (next_epoch p r) q = (if q = p then epoch_of r p + 1 else epoch_of r q)"
  "set (rtc_timers (next_epoch p r)) \<subseteq> set (rtc_timers r)"
  "map_get (sdpAfterGathering (next_epoch p r)) q = Some x \<Longrightarrow> map_get (sdpAfterGathering r) q = Some x"
  by (auto simp: next_epoch_def Let_def epoch_of_def tear_down_timers split: option.splits if_splits)

text \<open>The state after \<open>createOffer\<close> and \<open>handleOffer\<close> up to their last call.\<close>

definition offered :: "jsstring \<Rightarrow> sdp_kind \<Rightarrow> rtc \<Rightarrow> rtc" where
  "offered p kind r = await_gathering p (rtc_next r) (epoch_of r p + 1) kind (connect_pc p r)"

lemma offered_fields:
  "sdpAfterGathering (offered p kind r) =
     map_put p \<lparr>se_epoch = epoch_of r p + 1, se_promise = rtc_next r + 1, se_pc = rtc_next r, se_kind = kind\<rparr>
       (sdpAfterGathering (next_epoch p r))"
  "rtc_timers (offered p kind r) = rtc_timers (next_epoch p r) @
     [\<lparr>ti_clearable = True, ti_promise = rtc_next r + 1, ti_peer = p, ti_epoch = epoch_of r p + 1, ti_pc = rtc_next r, ti_round = 0\<rparr>]"
  "rtc_next (offered p kind r) = rtc_next r + 2"
  "epoch_of (offered p kind r) = epoch_of (next_epoch p r)"
  by (simp_all add: offered_def await_gathering_def connect_pc_def Let_def epoch_of_def fun_eq_iff)

lemma offered_inv:
  assumes "sdp_inv r"
  shows "sdp_inv (offered p kind r)"
proof -
  have inv: "sdp_inv (next_epoch p r)" using assms by (rule next_epoch_inv)
  have lt: "se_promise x < rtc_next r" if "map_get (sdpAfterGathering (next_epoch p r)) q = Some x" for q x
    using inv that by (simp add: sdp_inv_def)
  have "se_promise x < rtc_next r + 2" if "map_get (sdpAfterGathering (offered p kind r)) q = Some x" for q x
    using that lt [of q x] unfolding offered_fields by (cases "q = p") auto
  moreover have "q = q'" if "map_get (sdpAfterGathering (offered p kind r)) q = Some m"
      "map_get (sdpAfterGathering (offered p kind r)) q' = Some n" "se_promise m = se_promise n" for q q' m n
  proof (cases "q = p \<or> q' = p")
    case True
    then show ?thesis using that lt [of q m] lt [of q' n] unfolding offered_fields by (auto split: if_splits)
  next
    case False
    then show ?thesis using that inv unfolding offered_fields sdp_inv_def by auto
  qed
  moreover have "\<forall>t \<in> set (rtc_timers (offered p kind r)). ti_epoch t \<le> epoch_of (offered p kind r) (ti_peer t)"
    using inv next_epoch_fields(1) [of p r p] unfolding offered_fields sdp_inv_def by simp
  ultimately show ?thesis unfolding sdp_inv_def offered_fields(3) by blast
qed

lemma offered_starts:
  assumes "sdp_inv r"
  shows "gather_waiting (rtc_next r + 1) p (epoch_of r p + 1) 0 (offered p kind r)"
proof -
  have "\<forall>t \<in> set (rtc_timers (next_epoch p r)). \<not> (ti_peer t = p \<and> ti_epoch t = Suc (epoch_of r p))"
    using assms next_epoch_fields(2) [of p r] unfolding sdp_inv_def by fastforce
  then have "filter (\<lambda>t. ti_peer t = p \<and> ti_epoch t = Suc (epoch_of r p)) (rtc_timers (next_epoch p r)) = []"
    by (simp add: filter_empty_conv)
  then show ?thesis by (simp add: gather_waiting_def offered_def await_gathering_def connect_pc_def Let_def)
qed

lemma offered_waiting:
  assumes "sdp_inv r" "settled_or_waiting n p e k r"
  shows "settled_or_waiting n p e k (offered q kind r)"
proof (cases "q = p")
  case True
  then show ?thesis
    using next_epoch_settles [OF assms(2)]
    by (simp add: settled_or_waiting_def offered_def await_gathering_def connect_pc_def Let_def)
next
  case False
  then show ?thesis
    using next_epoch_waiting [OF assms, of q]
    by (auto simp: settled_or_waiting_def gather_waiting_def offered_def await_gathering_def connect_pc_def Let_def)
qed

lemma createOffer_eq:
  "\<exists>acts r'. createOffer p r = (r', acts, rtc_next r + 1) \<and> same_sdp r' (offered p Sdp_offer r) \<and>
     rtc_connections r' = rtc_connections (offered p Sdp_offer r) \<and> same_buf r' (offered p Sdp_offer r) \<and>
     rtc_next r' = Suc (rtc_next (offered p Sdp_offer r)) \<and> remoteDescForTrickle r' = remoteDescForTrickle (offered p Sdp_offer r)"
proof -
  obtain acts where "createPeerConnection p r = (connect_pc p r, acts, rtc_next r, epoch_of r p + 1)" using create_pc_eq by blast
  then show ?thesis
    by (simp add: createOffer_def setupDataChannel_def offered_def await_gathering_def Let_def same_defs connect_pc_def)
qed

lemma handleOffer_eq:
  "\<exists>acts r'. rtc_handleOffer p sdp throws r = (r', acts, rtc_next r + 1) \<and>
     rtc_connections r' = rtc_connections (offered p Sdp_answer r) \<and> same_buf r' (offered p Sdp_answer r) \<and>
     rtc_next r' = rtc_next (offered p Sdp_answer r) \<and>
     (if throws then r' = settle (rtc_next r + 1) (Inl (Err ''setRemoteDescription'')) (offered p Sdp_answer r)
      else r' = fst (afterRemoteDescriptionForTrickle p (offered p Sdp_answer r)))"
proof -
  obtain acts where "createPeerConnection p r = (connect_pc p r, acts, rtc_next r, epoch_of r p + 1)" using create_pc_eq by blast
  then show ?thesis
    using after_remote_frame [of p "offered p Sdp_answer r"]
    by (simp add: rtc_handleOffer_def offered_def Let_def case_prod_beta connect_pc_def same_buf_def)
qed

lemma finish_entry:
  assumes "sdp_inv r" "map_get (sdpAfterGathering r) q = Some y"
  shows "sdp_inv (settle (se_promise y) v (drop_sdp_entry q y r))"
    and "map_get (rtc_settled (settle (se_promise y) v (drop_sdp_entry q y r))) (se_promise y) \<noteq> None"
    and "settled_or_waiting n p e k r \<Longrightarrow> settled_or_waiting n p e k (settle (se_promise y) v (drop_sdp_entry q y r))"
proof -
  show "sdp_inv (settle (se_promise y) v (drop_sdp_entry q y r))"
    using assms(1) unfolding sdp_inv_def by (auto simp: epoch_of_def)
  show "map_get (rtc_settled (settle (se_promise y) v (drop_sdp_entry q y r))) (se_promise y) \<noteq> None" by simp
  assume w: "settled_or_waiting n p e k r"
  show "settled_or_waiting n p e k (settle (se_promise y) v (drop_sdp_entry q y r))"
  proof (cases "map_get (rtc_settled r) n = None \<and> se_promise y \<noteq> n")
    case False
    then show ?thesis by (auto simp: settled_or_waiting_def)
  next
    case True
    then obtain x t where x: "map_get (sdpAfterGathering r) p = Some x" "se_epoch x = e" "se_promise x = n"
        "map_get (rtc_connections r) p \<noteq> None"
        "filter (\<lambda>t. ti_peer t = p \<and> ti_epoch t = e) (rtc_timers r) = [t]" "ti_promise t = n" "k \<le> ti_round t"
        "ti_round t \<le> ICE_GATHERING_GRACE_ROUNDS"
      using w by (auto simp: settled_or_waiting_def gather_waiting_def)
    have "q \<noteq> p" using True x(1,3) assms(2) by auto
    moreover have "filter (\<lambda>t. ti_peer t = p \<and> ti_epoch t = e)
        (filter (\<lambda>t. \<not> (ti_clearable t \<and> ti_promise t = se_promise y)) (rtc_timers r)) = [t]"
      by (rule keeps_timer [OF x(5)]) (use x(6) True in simp)
    ultimately show ?thesis using x by (simp add: settled_or_waiting_def gather_waiting_def)
  qed
qed

text \<open>\<open>_finishSdpAfterGatheringTimeout\<close> for the current entry settles its promise or starts the next round.\<close>

lemma finish_cases:
  assumes "map_get (sdpAfterGathering r) p = Some x" "se_epoch x = e"
    "finishSdpAfterGatheringTimeout p e pc k ld c r = Inr r'"
  shows "(\<exists>v. r' = settle (se_promise x) v (drop_sdp_entry p x r)) \<or>
    k < ICE_GATHERING_GRACE_ROUNDS \<and> r' = r\<lparr>rtc_timers := rtc_timers r @ [\<lparr>ti_clearable = False, ti_promise = se_promise x,
       ti_peer = p, ti_epoch = e, ti_pc = pc, ti_round = k + 1\<rparr>]\<rparr>"
  using assms by (auto simp: finishSdpAfterGatheringTimeout_def ebind_Inr_iff Let_def split: if_splits)

lemma finish_other:
  assumes "\<And>x. map_get (sdpAfterGathering r) p = Some x \<Longrightarrow> se_epoch x \<noteq> e"
  shows "finishSdpAfterGatheringTimeout p e pc k ld c r = Inr r"
  using assms by (auto simp: finishSdpAfterGatheringTimeout_def split: option.split)

lemma gathering_step:
  assumes "sdp_inv r" "on_gathering_state q e' c ld r = Inr r'"
  shows "sdp_inv r'" and "settled_or_waiting n p e k r \<Longrightarrow> settled_or_waiting n p e k r'"
proof -
  have "r' = r \<or> (\<exists>y v. map_get (sdpAfterGathering r) q = Some y \<and> r' = settle (se_promise y) v (drop_sdp_entry q y r))"
    using assms(2) by (auto simp: on_gathering_state_def resolveSdpAfterGathering_def ebind_Inr_iff Let_def split: option.splits if_splits)
  then show "sdp_inv r'" "settled_or_waiting n p e k r \<Longrightarrow> settled_or_waiting n p e k r'"
    using finish_entry [OF assms(1)] assms(1) by auto
qed

lemma fire_step_inv:
  assumes "sdp_inv r" "fire_sdp_timer q e' ld c r = Inr r'"
  shows "sdp_inv r'"
proof (cases "List.extract (\<lambda>t. ti_peer t = q \<and> ti_epoch t = e') (rtc_timers r)")
  case None
  then show ?thesis using assms by (simp add: fire_sdp_timer_def)
next
  case (Some z)
  obtain before t after where z: "z = (before, t, after)" by (cases z) auto
  let ?r = "r\<lparr>rtc_timers := before @ after\<rparr>"
  have ts: "rtc_timers r = before @ t # after" "ti_peer t = q" "ti_epoch t = e'"
    using Some unfolding z extract_Some_iff by auto
  have inv: "sdp_inv ?r" using assms(1) ts(1) unfolding sdp_inv_def by (auto simp: epoch_of_def)
  have le: "e' \<le> epoch_of r q" using assms(1) ts unfolding sdp_inv_def by auto
  have fin: "finishSdpAfterGatheringTimeout q e' (ti_pc t) (ti_round t) ld c ?r = Inr r'"
    using assms(2) Some by (simp add: fire_sdp_timer_def z)
  show ?thesis
  proof (cases "\<exists>x. map_get (sdpAfterGathering r) q = Some x \<and> se_epoch x = e'")
    case False
    then show ?thesis using fin finish_other [of ?r q e'] inv by auto
  next
    case True
    then obtain x where x: "map_get (sdpAfterGathering ?r) q = Some x" "se_epoch x = e'" by auto
    from finish_cases [OF this fin] show ?thesis
    proof
      assume "\<exists>v. r' = settle (se_promise x) v (drop_sdp_entry q x ?r)"
      then show ?thesis using finish_entry(1) [OF inv x(1)] by blast
    next
      assume "ti_round t < ICE_GATHERING_GRACE_ROUNDS \<and> r' = ?r\<lparr>rtc_timers := rtc_timers ?r @ [\<lparr>ti_clearable = False,
        ti_promise = se_promise x, ti_peer = q, ti_epoch = e', ti_pc = ti_pc t, ti_round = ti_round t + 1\<rparr>]\<rparr>"
      then show ?thesis using inv le unfolding sdp_inv_def by (auto simp: epoch_of_def)
    qed
  qed
qed

lemma fire_own:
  assumes "gather_waiting n p e k r" "fire_sdp_timer p e ld c r = Inr r'"
  shows "settled_or_waiting n p e (k + 1) r'"
proof -
  obtain x t where x: "map_get (sdpAfterGathering r) p = Some x" "se_epoch x = e" "se_promise x = n"
      "map_get (rtc_connections r) p \<noteq> None"
      "filter (\<lambda>t. ti_peer t = p \<and> ti_epoch t = e) (rtc_timers r) = [t]" "k \<le> ti_round t"
    using assms(1) by (auto simp: gather_waiting_def)
  have "\<exists>t \<in> set (rtc_timers r). ti_peer t = p \<and> ti_epoch t = e"
    using arg_cong [OF x(5), of set] by auto
  then obtain before t' after where ex: "List.extract (\<lambda>t. ti_peer t = p \<and> ti_epoch t = e) (rtc_timers r) = Some (before, t', after)"
    by (cases "List.extract (\<lambda>t. ti_peer t = p \<and> ti_epoch t = e) (rtc_timers r)") (auto simp: extract_None_iff)
  have ts: "rtc_timers r = before @ t' # after" "ti_peer t' = p" "ti_epoch t' = e" using ex unfolding extract_Some_iff by auto
  have t': "t' = t" "filter (\<lambda>t. ti_peer t = p \<and> ti_epoch t = e) (before @ after) = []"
    using x(5) ts by (auto simp: append_eq_Cons_conv)
  let ?r = "r\<lparr>rtc_timers := before @ after\<rparr>"
  have "finishSdpAfterGatheringTimeout p e (ti_pc t) (ti_round t) ld c ?r = Inr r'"
    using assms(2) ex t'(1) by (simp add: fire_sdp_timer_def)
  from finish_cases [OF _ _ this, of x] show ?thesis
  proof
    assume "\<exists>v. r' = settle (se_promise x) v (drop_sdp_entry p x ?r)"
    then show ?thesis using x(3) by (auto simp: settled_or_waiting_def)
  next
    assume "ti_round t < ICE_GATHERING_GRACE_ROUNDS \<and> r' = ?r\<lparr>rtc_timers := rtc_timers ?r @ [\<lparr>ti_clearable = False,
      ti_promise = se_promise x, ti_peer = p, ti_epoch = e, ti_pc = ti_pc t, ti_round = ti_round t + 1\<rparr>]\<rparr>"
    then show ?thesis using x t'(2) by (simp add: settled_or_waiting_def gather_waiting_def)
  qed (use x in simp_all)
qed

lemma fire_other:
  assumes "sdp_inv r" "settled_or_waiting n p e k r" "fire_sdp_timer q e' ld c r = Inr r'"
    "map_get (rtc_settled r) n \<noteq> None \<or> \<not> (q = p \<and> e' = e)"
  shows "settled_or_waiting n p e k r'"
proof (cases "List.extract (\<lambda>t. ti_peer t = q \<and> ti_epoch t = e') (rtc_timers r)")
  case None
  then show ?thesis using assms by (simp add: fire_sdp_timer_def)
next
  case (Some z)
  obtain before t after where z: "z = (before, t, after)" by (cases z) auto
  let ?r = "r\<lparr>rtc_timers := before @ after\<rparr>"
  have ts: "rtc_timers r = before @ t # after" "ti_peer t = q" "ti_epoch t = e'"
    using Some unfolding z extract_Some_iff by auto
  have inv: "sdp_inv ?r" using assms(1) ts(1) unfolding sdp_inv_def by (auto simp: epoch_of_def)
  have w: "settled_or_waiting n p e k ?r" using assms(2,4) ts unfolding settled_or_waiting_def gather_waiting_def by auto
  have fin: "finishSdpAfterGatheringTimeout q e' (ti_pc t) (ti_round t) ld c ?r = Inr r'"
    using assms(3) Some by (simp add: fire_sdp_timer_def z)
  show ?thesis
  proof (cases "\<exists>x. map_get (sdpAfterGathering r) q = Some x \<and> se_epoch x = e'")
    case False
    then show ?thesis using fin finish_other [of ?r q e'] w by auto
  next
    case True
    then obtain x where x: "map_get (sdpAfterGathering ?r) q = Some x" "se_epoch x = e'" by auto
    from finish_cases [OF this fin] show ?thesis
    proof
      assume "\<exists>v. r' = settle (se_promise x) v (drop_sdp_entry q x ?r)"
      then show ?thesis using finish_entry(3) [OF inv x(1) w] by blast
    next
      assume "ti_round t < ICE_GATHERING_GRACE_ROUNDS \<and> r' = ?r\<lparr>rtc_timers := rtc_timers ?r @ [\<lparr>ti_clearable = False,
        ti_promise = se_promise x, ti_peer = q, ti_epoch = e', ti_pc = ti_pc t, ti_round = ti_round t + 1\<rparr>]\<rparr>"
      then show ?thesis using w assms(4) unfolding settled_or_waiting_def gather_waiting_def by auto
    qed
  qed
qed

text \<open>One step keeps the invariant and the progress of the promise.\<close>

fun is_sdp_timer :: "jsstring \<Rightarrow> nat \<Rightarrow> rtc_event \<Rightarrow> bool" where
  "is_sdp_timer p e (Sdp_timer q e' ld c) = (q = p \<and> e' = e)"
| "is_sdp_timer p e _ = False"

fun is_stale_candidate :: "jsstring \<Rightarrow> rtc_event \<Rightarrow> bool" where
  "is_stale_candidate p (Candidate_from q c m out) = (q = p \<and> out = Add_stale)"
| "is_stale_candidate p _ = False"

lemma pc_state_step:
  assumes "sdp_inv r"
  shows "sdp_inv (fst (on_pc_state q e' st pair r))"
    and "settled_or_waiting n p e k r \<Longrightarrow> settled_or_waiting n p e k (fst (on_pc_state q e' st pair r))"
proof -
  have log: "same_sdp (logSelectedCandidatePair q pair r) r" "rtc_next (logSelectedCandidatePair q pair r) = rtc_next r"
      "rtc_connections (logSelectedCandidatePair q pair r) = rtc_connections r"
    by (simp_all add: logSelectedCandidatePair_def same_sdp_def split: option.split)
  have dc: "same_sdp (r\<lparr>dcOpenEpoch := m\<rparr>) r" for m by (simp add: same_sdp_def)
  have em: "same_sdp (emitPeerDisconnectSoon q r) r" "rtc_next (emitPeerDisconnectSoon q r) = rtc_next r"
      "rtc_connections (emitPeerDisconnectSoon q r) = rtc_connections r" for r
    by (simp_all add: emitPeerDisconnectSoon_def same_sdp_def)
  show "sdp_inv (fst (on_pc_state q e' st pair r))"
    using assms tear_down_inv [of "r\<lparr>dcOpenEpoch := map_del q (dcOpenEpoch r)\<rparr>" False q] same_sdp_inv [OF log(1,2)] same_sdp_inv [OF dc]
      same_sdp_inv [OF em(1,2)]
    by (auto simp: on_pc_state_def Let_def case_prod_beta)
  show "settled_or_waiting n p e k r \<Longrightarrow> settled_or_waiting n p e k (fst (on_pc_state q e' st pair r))"
    using assms tear_down_waiting [of "r\<lparr>dcOpenEpoch := map_del q (dcOpenEpoch r)\<rparr>" n p e k False q] same_sdp_inv [OF dc]
      same_sdp_waiting [OF log(1)] same_sdp_waiting [OF dc] same_sdp_waiting [OF em(1)]
    by (auto simp: on_pc_state_def Let_def case_prod_beta log(3) em(3))
qed

definition progress :: "nat \<Rightarrow> jsstring \<Rightarrow> nat \<Rightarrow> nat \<Rightarrow> nat \<Rightarrow> rtc \<Rightarrow> rtc \<Rightarrow> bool" where
  "progress n p e k k' r r' \<longleftrightarrow> sdp_inv r' \<and> (settled_or_waiting n p e k r \<longrightarrow> settled_or_waiting n p e k' r')"

lemma progress_same:
  "sdp_inv r \<Longrightarrow> same_sdp r' r \<Longrightarrow> rtc_next r' = rtc_next r \<Longrightarrow> map_get (rtc_connections r') p = map_get (rtc_connections r) p \<Longrightarrow>
   progress n p e k k r r'"
  using same_sdp_inv same_sdp_waiting by (simp add: progress_def)

lemma step_offers:
  assumes "sdp_inv r"
  shows "\<exists>r' a. rtc_step (Offer q) r = Inr (r', a) \<and> progress n p e k k r r'"
    and "\<exists>r' a. rtc_step (Offer_from q sdp throws) r = Inr (r', a) \<and> progress n p e k k r r'"
proof -
  have off: "sdp_inv (offered q kind r)" "settled_or_waiting n p e k r \<Longrightarrow> settled_or_waiting n p e k (offered q kind r)" for kind
    using offered_inv offered_waiting assms by blast+
  obtain acts r' where r': "createOffer q r = (r', acts, rtc_next r + 1)" "same_sdp r' (offered q Sdp_offer r)"
      "rtc_connections r' = rtc_connections (offered q Sdp_offer r)" "rtc_next r' = Suc (rtc_next (offered q Sdp_offer r))"
    using createOffer_eq by blast
  then show "\<exists>r' a. rtc_step (Offer q) r = Inr (r', a) \<and> progress n p e k k r r'"
    using off [of Sdp_offer] sdp_inv_later [OF off(1) r'(2)] same_sdp_waiting [OF r'(2)] by (auto simp: progress_def)
  obtain acts2 r2 where r2: "rtc_handleOffer q sdp throws r = (r2, acts2, rtc_next r + 1)"
      "rtc_connections r2 = rtc_connections (offered q Sdp_answer r)" "rtc_next r2 = rtc_next (offered q Sdp_answer r)"
      "if throws then r2 = settle (rtc_next r + 1) (Inl (Err ''setRemoteDescription'')) (offered q Sdp_answer r)
       else r2 = fst (afterRemoteDescriptionForTrickle q (offered q Sdp_answer r))"
    using handleOffer_eq [of q sdp throws r] by blast
  have "sdp_inv r2 \<and> (settled_or_waiting n p e k r \<longrightarrow> settled_or_waiting n p e k r2)"
  proof (cases throws)
    case True
    then show ?thesis using r2(4) off [of Sdp_answer]
      by (auto simp: sdp_inv_def settled_or_waiting_def gather_waiting_def epoch_of_def)
  next
    case False
    then have "same_sdp r2 (offered q Sdp_answer r)" using r2(4) after_remote_frame by simp
    then show ?thesis using off [of Sdp_answer] same_sdp_inv same_sdp_waiting r2(2,3) by metis
  qed
  then show "\<exists>r' a. rtc_step (Offer_from q sdp throws) r = Inr (r', a) \<and> progress n p e k k r r'"
    using r2(1) by (simp add: progress_def)
qed

lemma candidate_connections:
  "\<not> (q = p \<and> out = Add_stale) \<Longrightarrow> map_get (rtc_connections (fst (addIceCandidate q c m out r))) p = map_get (rtc_connections r) p"
  by (auto simp: addIceCandidate_def pushPendingIce_def Let_def split: option.splits)

lemma step_sdp:
  assumes inv: "sdp_inv r" and step: "rtc_step ev r = Inr (r', a)" and ns: "\<not> is_stale_candidate p ev"
  shows "progress n p e k (if is_sdp_timer p e ev then k + 1 else k) r r'"
proof (cases ev)
  case (Offer q)
  then show ?thesis using step_offers(1) [OF inv, where q = q] step by fastforce
next
  case (Offer_from q sdp throws)
  then show ?thesis using step_offers(2) [OF inv, where q = q and sdp = sdp and throws = throws] step by fastforce
next
  case (Answer_from q sdp throws)
  then show ?thesis
    using step progress_same [OF inv] answer_frame [of q sdp throws r]
    by (cases "rtc_handleAnswer q sdp throws r") (auto simp: same_defs)
next
  case (Candidate_from q c m out)
  then have "r' = fst (addIceCandidate q c m out r)" using step by (metis fst_conv rtc_step.simps(4) sum.inject(2))
  then show ?thesis
    using progress_same [OF inv] candidate_frame [of q c m out r] candidate_connections [of q p out c m r] ns Candidate_from by simp
next
  case (Send_to q d)
  then show ?thesis
    using step send_frame [of q d r] progress_same [OF inv] by (auto simp: ebind_Inr_iff same_ice_def)
next
  case (Buffer_timer dc)
  then show ?thesis
    using step buffer_timer_frame [of dc r] progress_same [OF inv] by (auto simp: ebind_Inr_iff same_ice_def)
next
  case (Close_rtc q)
  then have "r' = fst (tearDownPeerWebRtcState True q r)" using step by (simp add: rtc_close_def)
  then show ?thesis using tear_down_inv [OF inv] tear_down_waiting [OF inv] Close_rtc by (simp add: progress_def)
next
  case Close_rtc_all
  then have "r' = fst (rtc_close_each (map_keys (rtc_connections r)) r)" using step by (simp add: rtc_closeAll_def)
  then show ?thesis using close_each_inv [OF inv] Close_rtc_all by (simp add: progress_def)
next
  case (Sdp_timer q e' ld c)
  then have fire: "fire_sdp_timer q e' ld c r = Inr r'" using step by (auto simp: ebind_Inr_iff)
  show ?thesis
    using fire_step_inv [OF inv fire] fire_other [OF inv _ fire] fire_own [of n p e k r ld c r'] fire Sdp_timer
    by (fastforce simp: progress_def settled_or_waiting_def)
next
  case (Disconnect_timer q)
  then show ?thesis
    using step disconnect_timer_frame [of q r] progress_same [OF inv] by (auto simp: same_ice_def)
next
  case (Pc_state q e' st pair)
  then have "r' = fst (on_pc_state q e' st pair r)" using step by simp
  then show ?thesis using pc_state_step [OF inv] Pc_state by (simp add: progress_def)
next
  case (Pc_gathering q e' c ld)
  then show ?thesis using step gathering_step [OF inv, where q = q] by (auto simp: progress_def ebind_Inr_iff)
next
  case (Pc_channel q dc)
  then show ?thesis
    using step setup_channel_frame [of q dc r] progress_same [OF inv] by (auto simp: same_ice_def)
next
  case (Dc_open q e' dc ready mem)
  then show ?thesis
    using step dc_open_frame [of q e' dc ready mem r] progress_same [OF inv] by (auto simp: same_ice_def)
next
  case (Dc_closed q e')
  then show ?thesis
    using step dc_closed_frame [of q e' r] progress_same [OF inv] by (auto simp: same_ice_def)
next
  case (Dc_low q e')
  then show ?thesis using step low_frame [of q e' r] progress_same [OF inv] by (auto simp: same_ice_def)
qed (use step inv in \<open>auto simp: progress_def\<close>)

lemma run_sdp:
  "sdp_inv r \<Longrightarrow> rtc_run es r = Inr (r', a) \<Longrightarrow> \<forall>ev \<in> set es. \<not> is_stale_candidate p ev \<Longrightarrow>
   progress n p e k (k + length (filter (is_sdp_timer p e) es)) r r'"
proof (induction es arbitrary: r k a)
  case (Cons ev es)
  obtain r1 a1 a2 where r1: "rtc_step ev r = Inr (r1, a1)" "rtc_run es r1 = Inr (r', a2)"
    using Cons.prems(2) by (auto simp: ebind_Inr_iff)
  let ?k = "if is_sdp_timer p e ev then k + 1 else k"
  have p1: "progress n p e k ?k r r1" using step_sdp [OF Cons.prems(1) r1(1)] Cons.prems(3) by simp
  then have "progress n p e ?k (?k + length (filter (is_sdp_timer p e) es)) r1 r'"
    using Cons.IH [OF _ r1(2)] Cons.prems(3) by (simp add: progress_def)
  then show ?case using p1 by (auto simp: progress_def split: if_splits)
qed (simp add: progress_def)

lemma step_sdp_inv:
  assumes "sdp_inv r" "rtc_step ev r = Inr (r', a)"
  shows "sdp_inv r'"
proof -
  have "\<exists>p. \<not> is_stale_candidate p ev"
  proof (cases ev)
    case (Candidate_from q c m out)
    then show ?thesis by (intro exI [of _ "q @ [0]"]) simp
  qed simp_all
  then show ?thesis using step_sdp [OF assms] by (auto simp: progress_def)
qed

section \<open>Send buffers\<close>

definition buf_inv :: "rtc \<Rightarrow> bool" where
  "buf_inv r \<longleftrightarrow>
     (\<forall>dc sb. map_get (rtc_store r) dc = Some sb \<longrightarrow> wf_sendbuf sb)
     \<and> (\<forall>p dc. map_get (rtc_sendBuffers r) p = Some dc \<longrightarrow> map_get (rtc_store r) dc \<noteq> None)
     \<and> (\<forall>p q. map_get (sendOverflow r) p = Some q \<longrightarrow> (\<forall>d \<in> set q. plain_frame d) \<and> int (length q) \<le> max 0 (sendOverflowMax r))"

lemma same_buf_inv: "same_buf r' r \<Longrightarrow> buf_inv r' = buf_inv r"
  by (simp add: same_buf_def buf_inv_def)

lemma buf_invD:
  assumes "buf_inv r"
  shows "map_get (rtc_store r) dc = Some sb \<Longrightarrow> wf_sendbuf sb"
    and "map_get (rtc_sendBuffers r) p = Some dc \<Longrightarrow> \<exists>sb. map_get (rtc_store r) dc = Some sb"
    and "map_get (sendOverflow r) p = Some q \<Longrightarrow> (\<forall>d \<in> set q. plain_frame d) \<and> int (length q) \<le> max 0 (sendOverflowMax r)"
  using assms unfolding buf_inv_def by blast+

lemma put_buf_inv: "buf_inv r \<Longrightarrow> wf_sendbuf sb \<Longrightarrow> buf_inv (r\<lparr>rtc_store := map_put dc sb (rtc_store r)\<rparr>)"
  unfolding buf_inv_def by auto

lemma wf_stop: "wf_sendbuf sb \<Longrightarrow> wf_sendbuf (sb_stop sb)"
  by (auto simp: wf_sendbuf_def sb_stop_def frame_size_def)

lemma drain_overflow_ok:
  "wf_sendbuf sb \<Longrightarrow> \<forall>d \<in> set q. plain_frame d \<Longrightarrow>
   \<exists>q' sb'. drain_overflow q sb = Inr (q', sb') \<and> wf_sendbuf sb' \<and> suffix q' q \<and> stream sb' @ q' = stream sb @ q"
proof (induction q arbitrary: sb)
  case (Cons d q)
  obtain sb1 ok where sb1: "push d sb = Inr (sb1, ok)" "wf_sendbuf sb1" "stream sb1 = stream sb @ (if ok then [d] else [])"
    using push_channel [of sb d] Cons.prems unfolding stream_def by fastforce
  then show ?case using Cons.IH [of sb1] Cons.prems by (fastforce simp: suffix_ConsI)
qed simp

text \<open>What has been accepted for a peer and its channel and not been lost: sent, buffered or waiting.\<close>

definition overflow_of :: "rtc \<Rightarrow> jsstring \<Rightarrow> buffer list" where
  "overflow_of r p = (case map_get (sendOverflow r) p of Some q \<Rightarrow> q | None \<Rightarrow> [])"

definition rtc_carried :: "rtc \<Rightarrow> jsstring \<Rightarrow> nat \<Rightarrow> buffer multiset" where
  "rtc_carried r p dc = (case map_get (rtc_store r) dc of Some sb \<Rightarrow> mset (stream sb) | None \<Rightarrow> {#}) + mset (overflow_of r p)"

lemma drainSendOverflow_ok:
  assumes inv: "buf_inv r"
  shows "\<exists>r'. drainSendOverflow q r = Inr r' \<and> buf_inv r' \<and> rtc_sendBuffers r' = rtc_sendBuffers r \<and>
    sendOverflowMax r' = sendOverflowMax r \<and>
    (\<forall>p dc. map_get (rtc_sendBuffers r) p = Some dc \<longrightarrow> (q \<noteq> p \<longrightarrow> map_get (rtc_sendBuffers r) q \<noteq> Some dc) \<longrightarrow>
       rtc_carried r' p dc = rtc_carried r p dc)"
proof (cases "map_get (rtc_sendBuffers r) q")
  case None
  then show ?thesis using inv by (simp add: drainSendOverflow_def)
next
  case (Some dc)
  obtain sb where sb: "map_get (rtc_store r) dc = Some sb" "wf_sendbuf sb"
    using buf_invD(1,2) [OF inv] Some by blast
  show ?thesis
  proof (cases "map_get (sendOverflow r) q")
    case None
    then show ?thesis using inv Some by (simp add: drainSendOverflow_def)
  next
    case (Some os)
    note over = Some
    obtain q' sb' where d: "drain_overflow os sb = Inr (q', sb')" "wf_sendbuf sb'" "suffix q' os" "stream sb' @ q' = stream sb @ os"
      using drain_overflow_ok [OF sb(2)] buf_invD(3) [OF inv over] by blast
    show ?thesis
    proof (cases "os = []")
      case True
      then show ?thesis using inv \<open>map_get (rtc_sendBuffers r) q = Some dc\<close> over by (simp add: drainSendOverflow_def)
    next
      case False
      let ?r = "r\<lparr>rtc_store := map_put dc sb' (rtc_store r),
          sendOverflow := (if q' = [] then map_del q (sendOverflow r) else map_put q q' (sendOverflow r))\<rparr>"
      have eq: "drainSendOverflow q r = Inr ?r"
        using \<open>map_get (rtc_sendBuffers r) q = Some dc\<close> over sb(1) d(1) False by (simp add: drainSendOverflow_def)
      have "set q' \<subseteq> set os" "length q' \<le> length os" using d(3) by (auto simp: suffix_length_le dest: set_mono_suffix)
      then have "buf_inv ?r"
        using inv buf_invD(3) [OF inv over] d(2) unfolding buf_inv_def by auto
      moreover have "mset (stream sb') + mset q' = mset (stream sb) + mset os" using d(4) by (metis mset_append)
      then have "rtc_carried ?r p dc' = rtc_carried r p dc'" if "map_get (rtc_sendBuffers r) p = Some dc'"
          "q \<noteq> p \<longrightarrow> map_get (rtc_sendBuffers r) q \<noteq> Some dc'" for p dc'
        using that sb(1) over \<open>map_get (rtc_sendBuffers r) q = Some dc\<close> by (auto simp: rtc_carried_def overflow_of_def)
      ultimately show ?thesis using eq by auto
    qed
  qed
qed

text \<open>Putting a buffer back for which the accounts of the peer change by \<open>gain\<close>.\<close>

lemma rtc_carried_put:
  assumes "map_get (rtc_store r) dc' = Some sb" "mset (stream sb') = mset (stream sb) + gain"
  shows "rtc_carried (r\<lparr>rtc_store := map_put dc' sb' (rtc_store r)\<rparr>) p dc = rtc_carried r p dc + (if dc' = dc then gain else {#})"
  using assms by (auto simp: rtc_carried_def overflow_of_def)

lemma rtc_send_ok:
  assumes inv: "buf_inv r" and d: "plain_frame d"
  shows "\<exists>r' ok. rtc_send q d r = Inr (r', ok) \<and> buf_inv r' \<and> rtc_sendBuffers r' = rtc_sendBuffers r \<and>
    (\<forall>p dc. map_get (rtc_sendBuffers r) p = Some dc \<longrightarrow> (q \<noteq> p \<longrightarrow> map_get (rtc_sendBuffers r) q \<noteq> Some dc) \<longrightarrow>
       rtc_carried r' p dc = rtc_carried r p dc + (if q = p \<and> ok then {#d#} else {#}))"
proof (cases "map_get (rtc_sendBuffers r) q")
  case None
  then show ?thesis using inv by (auto simp: rtc_send_def)
next
  case (Some dc)
  obtain sb where sb: "map_get (rtc_store r) dc = Some sb" "wf_sendbuf sb"
    using buf_invD(1,2) [OF inv] Some by blast
  obtain sb1 ok where sb1: "push d sb = Inr (sb1, ok)" "wf_sendbuf sb1" "stream sb1 = stream sb @ (if ok then [d] else [])"
    using push_channel [OF sb(2) d] unfolding stream_def by fastforce
  let ?r = "r\<lparr>rtc_store := map_put dc sb1 (rtc_store r)\<rparr>"
  have inv1: "buf_inv ?r" using put_buf_inv [OF inv sb1(2)] .
  have c1: "rtc_carried ?r p dc' = rtc_carried r p dc' + (if dc = dc' \<and> ok then {#d#} else {#})" for p dc'
    using rtc_carried_put [OF sb(1), of sb1 "if ok then {#d#} else {#}" p dc'] sb1(3) by auto
  show ?thesis
  proof (cases ok)
    case True
    obtain r' where r': "drainSendOverflow q ?r = Inr r'" "buf_inv r'" "rtc_sendBuffers r' = rtc_sendBuffers ?r"
        "\<And>p dc. map_get (rtc_sendBuffers r) p = Some dc \<Longrightarrow> q \<noteq> p \<longrightarrow> map_get (rtc_sendBuffers r) q \<noteq> Some dc \<Longrightarrow>
          rtc_carried r' p dc = rtc_carried ?r p dc"
      using drainSendOverflow_ok [OF inv1, of q] by auto
    have "rtc_send q d r = Inr (r', True)" using Some sb(1) sb1(1) True r'(1) by (simp add: rtc_send_def Let_def)
    then show ?thesis using r'(2-4) c1 True Some by auto
  next
    case False
    have q: "\<forall>x \<in> set (overflow_of r q). plain_frame x" "int (length (overflow_of r q)) \<le> max 0 (sendOverflowMax r)"
      using buf_invD(3) [OF inv, of q] by (cases "map_get (sendOverflow r) q"; simp add: overflow_of_def)+
    have eq: "rtc_send q d r = (if sendOverflowMax r \<le> 0 then Inr (?r, False)
        else if int (length (overflow_of r q)) \<ge> sendOverflowMax r
        then Inr (?r\<lparr>sendOverflow := map_put q (overflow_of r q) (sendOverflow r), overflowBlocked := overflowBlocked r + 1\<rparr>, False)
        else Inr (?r\<lparr>sendOverflow := map_put q (overflow_of r q @ [d]) (sendOverflow r)\<rparr>, True))"
      using Some sb(1) sb1(1) False by (simp add: rtc_send_def overflow_of_def Let_def)
    have "buf_inv (?r\<lparr>sendOverflow := map_put q (overflow_of r q) (sendOverflow r), overflowBlocked := n\<rparr>)" for n
      using inv1 q unfolding buf_inv_def by auto
    moreover have "buf_inv (?r\<lparr>sendOverflow := map_put q (overflow_of r q @ [d]) (sendOverflow r)\<rparr>)"
        if "int (length (overflow_of r q)) < sendOverflowMax r"
      using inv1 q d that unfolding buf_inv_def by auto
    moreover have "rtc_carried (?r\<lparr>sendOverflow := map_put q (overflow_of r q) (sendOverflow r), overflowBlocked := n\<rparr>) p dc' = rtc_carried r p dc'" for p dc' n
      using c1 False by (simp add: rtc_carried_def overflow_of_def)
    moreover have "rtc_carried (?r\<lparr>sendOverflow := map_put q (overflow_of r q @ [d]) (sendOverflow r)\<rparr>) p dc' =
        rtc_carried r p dc' + (if q = p then {#d#} else {#})" for p dc'
      using c1 False by (simp add: rtc_carried_def overflow_of_def)
    ultimately show ?thesis unfolding eq using inv1 c1 False by auto
  qed
qed

lemma buffer_timer_ok:
  assumes inv: "buf_inv r"
  shows "\<exists>r'. rtc_buffer_timer dc' r = Inr r' \<and> buf_inv r' \<and> rtc_sendBuffers r' = rtc_sendBuffers r \<and> rtc_carried r' p dc = rtc_carried r p dc"
proof (cases "map_get (rtc_store r) dc'")
  case None
  then show ?thesis using inv by (simp add: rtc_buffer_timer_def)
next
  case (Some sb)
  then obtain sb' where "sb_timeout sb = Inr sb'" "wf_sendbuf sb'" "stream sb' = stream sb"
    using sb_timeout_channel [of sb] buf_invD(1) [OF inv Some] unfolding stream_def by blast
  then show ?thesis using Some put_buf_inv [OF inv, of sb' dc'] rtc_carried_put [OF Some, of sb' "{#}"] by (simp add: rtc_buffer_timer_def)
qed

lemma buffered_low_ok:
  assumes inv: "buf_inv r"
  shows "\<exists>r' a. on_buffered_low q e r = Inr (r', a) \<and> buf_inv r' \<and> rtc_sendBuffers r' = rtc_sendBuffers r \<and>
    (\<forall>p dc. map_get (rtc_sendBuffers r) p = Some dc \<longrightarrow> (q \<noteq> p \<longrightarrow> map_get (rtc_sendBuffers r) q \<noteq> Some dc) \<longrightarrow>
       rtc_carried r' p dc = rtc_carried r p dc)"
proof -
  define res where "res = (case map_get (rtc_sendBuffers r) q of None \<Rightarrow> Inr r
      | Some dc \<Rightarrow> ebind (resume (the (map_get (rtc_store r) dc))) (\<lambda>sb. Inr (r\<lparr>rtc_store := map_put dc sb (rtc_store r)\<rparr>)))"
  obtain r1 where r1: "res = Inr r1" "buf_inv r1" "rtc_sendBuffers r1 = rtc_sendBuffers r" "\<And>p dc. rtc_carried r1 p dc = rtc_carried r p dc"
  proof (cases "map_get (rtc_sendBuffers r) q")
    case None
    then show thesis using that inv by (simp add: res_def)
  next
    case (Some dc)
    obtain sb where sb: "map_get (rtc_store r) dc = Some sb" "wf_sendbuf sb" using buf_invD(1,2) [OF inv] Some by blast
    obtain sb' where "resume sb = Inr sb'" "wf_sendbuf sb'" "stream sb' = stream sb"
      using sb_flush_channel [OF sb(2)] sb(2) unfolding stream_def by (cases "sb_packets sb = []") (auto simp: resume_def)
    then show thesis
      using that [of "r\<lparr>rtc_store := map_put dc sb' (rtc_store r)\<rparr>"] Some sb(1) put_buf_inv [OF inv, of sb' dc]
        rtc_carried_put [OF sb(1), of sb' "{#}"] by (simp add: res_def)
  qed
  obtain r2 where "drainSendOverflow q r1 = Inr r2" "buf_inv r2" "rtc_sendBuffers r2 = rtc_sendBuffers r1"
      "\<And>p dc. map_get (rtc_sendBuffers r) p = Some dc \<Longrightarrow> q \<noteq> p \<longrightarrow> map_get (rtc_sendBuffers r) q \<noteq> Some dc \<Longrightarrow>
        rtc_carried r2 p dc = rtc_carried r1 p dc"
    using drainSendOverflow_ok [OF r1(2), of q] r1(3) by auto
  then show ?thesis
    using inv r1 unfolding on_buffered_low_def res_def [symmetric] by auto
qed

text \<open>Events that end the use of the peer's current buffer, or open a channel again.\<close>

fun ends_buffer :: "jsstring \<Rightarrow> nat \<Rightarrow> rtc_event \<Rightarrow> bool" where
  "ends_buffer p dc (Offer q) = (q = p)"
| "ends_buffer p dc (Offer_from q sdp throws) = (q = p)"
| "ends_buffer p dc (Close_rtc q) = (q = p)"
| "ends_buffer p dc Close_rtc_all = True"
| "ends_buffer p dc (Pc_state q e st pair) = (q = p \<and> (st = Pc_failed \<or> st = Pc_closed))"
| "ends_buffer p dc (Dc_open q e dc' ready mem) = (q = p \<or> dc' = dc)"
| "ends_buffer p dc (Dc_closed q e) = (q = p)"
| "ends_buffer p dc _ = False"

text \<open>The peer's buffer is that of the channel, and no other peer's.\<close>

definition owns :: "jsstring \<Rightarrow> nat \<Rightarrow> rtc \<Rightarrow> bool" where
  "owns p dc r \<longleftrightarrow> map_get (rtc_sendBuffers r) p = Some dc \<and> (\<forall>q. map_get (rtc_sendBuffers r) q = Some dc \<longrightarrow> q = p)"

definition keeps :: "jsstring \<Rightarrow> nat \<Rightarrow> buffer list \<Rightarrow> rtc \<Rightarrow> rtc \<Rightarrow> bool" where
  "keeps p dc acc r r' \<longleftrightarrow> buf_inv r' \<and> (owns p dc r \<longrightarrow> owns p dc r' \<and> rtc_carried r' p dc = rtc_carried r p dc + mset acc)"

lemma keeps_same: "buf_inv r \<Longrightarrow> same_buf r' r \<Longrightarrow> keeps p dc [] r r'"
  by (simp add: keeps_def same_buf_def buf_inv_def owns_def rtc_carried_def overflow_of_def)

lemma drop_buffer_keeps:
  assumes inv: "buf_inv r"
  shows "buf_inv (rtc_drop_buffer q r)" and "q \<noteq> p \<Longrightarrow> keeps p dc [] r (rtc_drop_buffer q r)"
proof -
  show "buf_inv (rtc_drop_buffer q r)"
    using buf_invD [OF inv] unfolding buf_inv_def rtc_drop_buffer_def
    by (fastforce split: option.splits if_splits intro: wf_stop)
  then show "q \<noteq> p \<Longrightarrow> keeps p dc [] r (rtc_drop_buffer q r)"
    by (auto simp: keeps_def owns_def rtc_carried_def overflow_of_def rtc_drop_buffer_def split: option.splits)
qed

lemma tear_down_keeps:
  assumes inv: "buf_inv r"
  shows "buf_inv (fst (tearDownPeerWebRtcState c q r))" and "q \<noteq> p \<Longrightarrow> keeps p dc [] r (fst (tearDownPeerWebRtcState c q r))"
proof -
  let ?d = "rtc_drop_buffer q r" and ?t = "fst (tearDownPeerWebRtcState c q r)"
  note d = drop_buffer_keeps [OF inv, of q]
  show t: "buf_inv ?t"
    using d(1) buf_invD(3) [OF inv] unfolding buf_inv_def by (auto simp: tear_down_store split: if_splits)
  show "keeps p dc [] r ?t" if "q \<noteq> p"
  proof -
    have "rtc_carried ?t p dc = rtc_carried ?d p dc" using that by (simp add: rtc_carried_def overflow_of_def tear_down_store)
    moreover have "owns p dc ?t = owns p dc ?d" by (simp add: owns_def)
    ultimately show ?thesis using d(2) [OF that, of dc] t by (simp add: keeps_def)
  qed
qed

lemma close_each_buf: "buf_inv r \<Longrightarrow> buf_inv (fst (rtc_close_each ps r))"
proof (induction ps arbitrary: r)
  case (Cons q ps)
  have eq: "fst (rtc_close_each (q # ps) r) = fst (rtc_close_each ps (fst (tearDownPeerWebRtcState True q r)))"
    by (simp add: rtc_close_def case_prod_beta)
  show ?case using Cons tear_down_keeps(1) unfolding eq by blast
qed simp

lemma offered_keeps:
  assumes inv: "buf_inv r"
  shows "buf_inv (offered q kind r)" and "q \<noteq> p \<Longrightarrow> keeps p dc [] r (offered q kind r)"
proof -
  let ?r = "r\<lparr>connectionEpoch := map_put q (epoch_of r q + 1) (connectionEpoch r),
      handshakeGen := map_put q (getHandshakeGen r q + 1) (handshakeGen r)\<rparr>"
  have s: "same_buf ?r r" by (simp add: same_buf_def)
  have inv': "buf_inv ?r" using inv same_buf_inv [OF s] by simp
  have o: "same_buf (offered q kind r) (next_epoch q r)"
    by (simp add: offered_def await_gathering_def connect_pc_def same_buf_def Let_def)
  have n: "buf_inv (next_epoch q r)"
    using inv' tear_down_keeps(1) [OF inv', of True q] by (simp add: next_epoch_def Let_def)
  show b: "buf_inv (offered q kind r)" using n same_buf_inv [OF o] by simp
  show "keeps p dc [] r (offered q kind r)" if "q \<noteq> p"
  proof -
    have "keeps p dc [] r (next_epoch q r)"
      using tear_down_keeps(2) [OF inv' that, of dc True] keeps_same [OF inv s, of p dc]
      by (auto simp: next_epoch_def Let_def keeps_def)
    then show ?thesis using keeps_same [OF n o, of p dc] by (simp add: keeps_def)
  qed
qed

definition rtc_accepted :: "jsstring \<Rightarrow> rtc_event \<Rightarrow> rtc \<Rightarrow> buffer list" where
  "rtc_accepted p ev r =
     (case ev of Send_to q d \<Rightarrow> (if q = p then (case rtc_send q d r of Inr (_, True) \<Rightarrow> [d] | _ \<Rightarrow> []) else []) | _ \<Rightarrow> [])"

lemma fire_total: "complete \<longrightarrow> ld \<noteq> None \<Longrightarrow> \<exists>r'. fire_sdp_timer p e ld complete r = Inr r'"
  by (auto simp: fire_sdp_timer_def finishSdpAfterGatheringTimeout_def localDescriptionToSignal_def sdpLooksCompleteEnough_def
      sdp_of_def Let_def split: option.split)

lemma gathering_total: "\<exists>r'. on_gathering_state p e c ld r = Inr r'"
  by (auto simp: on_gathering_state_def resolveSdpAfterGathering_def localDescriptionToSignal_def sdp_of_def Let_def split: option.split)

lemma pc_state_keeps:
  assumes inv: "buf_inv r"
  shows "buf_inv (fst (on_pc_state q e st pair r))"
    and "\<not> (q = p \<and> (st = Pc_failed \<or> st = Pc_closed)) \<Longrightarrow> keeps p dc [] r (fst (on_pc_state q e st pair r))"
proof -
  let ?r = "r\<lparr>dcOpenEpoch := map_del q (dcOpenEpoch r)\<rparr>"
  have s: "same_buf ?r r" "same_buf (logSelectedCandidatePair q pair r) r" "same_buf r r"
    by (simp_all add: same_buf_def logSelectedCandidatePair_def split: option.split)
  have inv': "buf_inv ?r" using inv same_buf_inv [OF s(1)] by simp
  have em: "same_buf (emitPeerDisconnectSoon q x) x" for x by (simp add: emitPeerDisconnectSoon_def same_buf_def)
  have t: "buf_inv (fst (tearDownPeerWebRtcState False q ?r))"
      "q \<noteq> p \<Longrightarrow> keeps p dc [] r (fst (tearDownPeerWebRtcState False q ?r))"
    using tear_down_keeps(1) [OF inv', of False q] tear_down_keeps(2) [OF inv', of q] keeps_same [OF inv s(1), of p dc] by (simp_all add: keeps_def)
  have b: "fst (on_pc_state q e st pair r) = (if \<not> current q e r then r
      else if st = Pc_failed \<or> st = Pc_closed then emitPeerDisconnectSoon q (fst (tearDownPeerWebRtcState False q ?r))
      else if st = Pc_connected then logSelectedCandidatePair q pair r else r)"
    by (simp add: on_pc_state_def Let_def case_prod_beta)
  show "buf_inv (fst (on_pc_state q e st pair r))"
    unfolding b using inv t(1) same_buf_inv [OF em] same_buf_inv [OF s(2)] by simp
  show "keeps p dc [] r (fst (on_pc_state q e st pair r))" if "\<not> (q = p \<and> (st = Pc_failed \<or> st = Pc_closed))"
    unfolding b using that t keeps_same [OF t(1) em, of p dc] keeps_same [OF inv s(2), of p dc] keeps_same [OF inv s(3), of p dc]
    by (auto simp: keeps_def)
qed

lemma dc_open_keeps:
  assumes inv: "buf_inv r"
  shows "buf_inv (fst (on_dc_open q e dc' ready mem r))"
    and "\<not> (q = p \<or> dc' = dc) \<Longrightarrow> keeps p dc [] r (fst (on_dc_open q e dc' ready mem r))"
proof -
  have "wf_sendbuf (new_TransportSendBuffer None n ready mem)" for n
    by (simp add: new_TransportSendBuffer_def wf_sendbuf_def frame_size_def MAX_FRAME_SIZE_def split: option.split)
  then show b: "buf_inv (fst (on_dc_open q e dc' ready mem r))"
    using inv unfolding buf_inv_def on_dc_open_def by auto
  show "keeps p dc [] r (fst (on_dc_open q e dc' ready mem r))" if "\<not> (q = p \<or> dc' = dc)"
    using that b by (auto simp: keeps_def owns_def rtc_carried_def overflow_of_def on_dc_open_def)
qed

lemma dc_closed_keeps:
  assumes inv: "buf_inv r"
  shows "buf_inv (on_dc_closed q e r)" and "q \<noteq> p \<Longrightarrow> keeps p dc [] r (on_dc_closed q e r)"
proof -
  let ?r = "r\<lparr>dcOpenEpoch := map_del q (dcOpenEpoch r)\<rparr>"
  have s: "same_buf ?r r" "same_buf r r" by (simp_all add: same_buf_def)
  have inv': "buf_inv ?r" using inv same_buf_inv [OF s(1)] by simp
  have em: "same_buf (emitPeerDisconnectSoon q x) x" for x by (simp add: emitPeerDisconnectSoon_def same_buf_def)
  note d = drop_buffer_keeps [OF inv', of q]
  show "buf_inv (on_dc_closed q e r)"
    using inv d(1) same_buf_inv [OF em] by (simp add: on_dc_closed_def)
  show "keeps p dc [] r (on_dc_closed q e r)" if "q \<noteq> p"
    using d(2) [OF that, of dc] keeps_same [OF d(1) em, of p dc] keeps_same [OF inv s(1), of p dc] keeps_same [OF inv s(2), of p dc]
    by (auto simp: on_dc_closed_def keeps_def)
qed

text \<open>No step throws, and it keeps the buffers and the accounts.\<close>

lemma step_buf:
  assumes inv: "buf_inv r" and ok: "rtc_event_ok ev"
  shows "\<exists>r' a. rtc_step ev r = Inr (r', a) \<and> buf_inv r' \<and> (\<not> ends_buffer p dc ev \<longrightarrow> keeps p dc (rtc_accepted p ev r) r r')"
proof (cases ev)
  case (Offer q)
  obtain acts r' where r': "createOffer q r = (r', acts, rtc_next r + 1)" "same_buf r' (offered q Sdp_offer r)"
    using createOffer_eq by blast
  then show ?thesis
    using offered_keeps [OF inv, of q] keeps_same [OF _ r'(2), of p dc] same_buf_inv [OF r'(2)] Offer
    by (auto simp: keeps_def rtc_accepted_def)
next
  case (Offer_from q sdp throws)
  obtain acts r' where r': "rtc_handleOffer q sdp throws r = (r', acts, rtc_next r + 1)" "same_buf r' (offered q Sdp_answer r)"
    using handleOffer_eq by blast
  then show ?thesis
    using offered_keeps [OF inv, of q] keeps_same [OF _ r'(2), of p dc] same_buf_inv [OF r'(2)] Offer_from
    by (auto simp: keeps_def rtc_accepted_def)
next
  case (Answer_from q sdp throws)
  then show ?thesis
    using answer_frame [of q sdp throws r] keeps_same [OF inv, of _ p dc] same_buf_inv inv
    by (cases "rtc_handleAnswer q sdp throws r") (auto simp: rtc_accepted_def keeps_def)
next
  case (Candidate_from q c m out)
  then show ?thesis
    using candidate_frame [of q c m out r] keeps_same [OF inv, of _ p dc]
    by (cases "addIceCandidate q c m out r") (auto simp: rtc_accepted_def keeps_def)
next
  case (Send_to q d)
  have "plain_frame d" using ok Send_to by simp
  from rtc_send_ok [OF inv this, of q] obtain r' b where
    r': "rtc_send q d r = Inr (r', b)" "buf_inv r'" "rtc_sendBuffers r' = rtc_sendBuffers r"
      "\<forall>p dc. map_get (rtc_sendBuffers r) p = Some dc \<longrightarrow> (q \<noteq> p \<longrightarrow> map_get (rtc_sendBuffers r) q \<noteq> Some dc) \<longrightarrow>
       rtc_carried r' p dc = rtc_carried r p dc + (if q = p \<and> b then {#d#} else {#})" by blast
  have "owns p dc r' = owns p dc r" using r'(3) by (simp add: owns_def)
  moreover have "mset (rtc_accepted p ev r) = (if q = p \<and> b then {#d#} else {#})"
    using r'(1) Send_to by (cases b) (auto simp: rtc_accepted_def)
  moreover have "rtc_carried r' p dc = rtc_carried r p dc + (if q = p \<and> b then {#d#} else {#})" if "owns p dc r"
    using r'(4) that unfolding owns_def by blast
  ultimately have "keeps p dc (rtc_accepted p ev r) r r'" using r'(2) unfolding keeps_def by simp
  then show ?thesis using Send_to r'(1,2) by simp
next
  case (Buffer_timer dc')
  then show ?thesis using buffer_timer_ok [OF inv, of dc' p dc] by (auto simp: rtc_accepted_def keeps_def owns_def)
next
  case (Close_rtc q)
  then show ?thesis
    using tear_down_keeps [OF inv]
    by (intro exI [of _ "fst (rtc_close q r)"] exI [of _ "snd (rtc_close q r)"]) (simp add: rtc_accepted_def rtc_close_def)
next
  case Close_rtc_all
  then show ?thesis
    using close_each_buf [OF inv]
    by (intro exI [of _ "fst (rtc_closeAll r)"] exI [of _ "snd (rtc_closeAll r)"]) (simp add: rtc_closeAll_def)
next
  case (Sdp_timer q e' ld c)
  then obtain r' where "fire_sdp_timer q e' ld c r = Inr r'" using fire_total [of c ld q e' r] ok by auto
  then show ?thesis
    using fire_frame [of q e' ld c r r'] keeps_same [OF inv, of r' p dc] Sdp_timer by (auto simp: rtc_accepted_def keeps_def)
next
  case (Disconnect_timer q)
  then show ?thesis
    using disconnect_timer_frame [of q r] keeps_same [OF inv, of _ p dc]
    by (cases "disconnect_timer q r") (auto simp: rtc_accepted_def keeps_def)
next
  case (Pc_state q e' st pair)
  then show ?thesis
    using pc_state_keeps [OF inv]
    by (intro exI [of _ "fst (on_pc_state q e' st pair r)"] exI [of _ "snd (on_pc_state q e' st pair r)"])
      (simp add: rtc_accepted_def)
next
  case (Pc_gathering q e' c ld)
  then obtain r' where "on_gathering_state q e' c ld r = Inr r'" using gathering_total by blast
  then show ?thesis
    using gathering_frame [of q e' c ld r r'] keeps_same [OF inv, of r' p dc] Pc_gathering by (auto simp: rtc_accepted_def keeps_def)
next
  case (Pc_channel q dc')
  then show ?thesis using setup_channel_frame [of q dc' r] keeps_same [OF inv, of _ p dc] by (auto simp: rtc_accepted_def keeps_def)
next
  case (Dc_open q e' dc' ready mem)
  then show ?thesis
    using dc_open_keeps [OF inv]
    by (intro exI [of _ "fst (on_dc_open q e' dc' ready mem r)"] exI [of _ "snd (on_dc_open q e' dc' ready mem r)"])
      (simp add: rtc_accepted_def)
next
  case (Dc_closed q e')
  then show ?thesis using dc_closed_keeps [OF inv] by (simp add: rtc_accepted_def)
next
  case (Dc_low q e')
  from buffered_low_ok [OF inv, of q e'] obtain r' a where
    r': "on_buffered_low q e' r = Inr (r', a)" "buf_inv r'" "rtc_sendBuffers r' = rtc_sendBuffers r"
      "\<forall>p dc. map_get (rtc_sendBuffers r) p = Some dc \<longrightarrow> (q \<noteq> p \<longrightarrow> map_get (rtc_sendBuffers r) q \<noteq> Some dc) \<longrightarrow>
       rtc_carried r' p dc = rtc_carried r p dc" by blast
  have "owns p dc r' = owns p dc r" using r'(3) by (simp add: owns_def)
  moreover have "rtc_carried r' p dc = rtc_carried r p dc" if "owns p dc r" using r'(4) that unfolding owns_def by blast
  ultimately have "keeps p dc [] r r'" using r'(2) unfolding keeps_def by simp
  then show ?thesis using Dc_low r'(1,2) by (simp add: rtc_accepted_def)
qed (use inv keeps_same [OF inv, of r p dc] in \<open>auto simp: rtc_accepted_def same_buf_def\<close>)

fun accepted_in :: "jsstring \<Rightarrow> rtc_event list \<Rightarrow> rtc \<Rightarrow> buffer list" where
  "accepted_in p [] r = []"
| "accepted_in p (ev # es) r =
     rtc_accepted p ev r @ (case rtc_step ev r of Inr (r', _) \<Rightarrow> accepted_in p es r' | Inl _ \<Rightarrow> [])"

lemma run_buf:
  "buf_inv r \<Longrightarrow> \<forall>ev \<in> set es. rtc_event_ok ev \<Longrightarrow>
   \<exists>r' a. rtc_run es r = Inr (r', a) \<and> buf_inv r' \<and>
     ((\<forall>ev \<in> set es. \<not> ends_buffer p dc ev) \<longrightarrow> keeps p dc (accepted_in p es r) r r')"
proof (induction es arbitrary: r)
  case Nil
  then show ?case by (simp add: keeps_def)
next
  case (Cons ev es)
  obtain r1 a1 where r1: "rtc_step ev r = Inr (r1, a1)" "buf_inv r1"
      "\<not> ends_buffer p dc ev \<longrightarrow> keeps p dc (rtc_accepted p ev r) r r1"
    using step_buf [OF Cons.prems(1), of ev p dc] Cons.prems(2) by auto
  obtain r2 a2 where r2: "rtc_run es r1 = Inr (r2, a2)" "buf_inv r2"
      "(\<forall>ev \<in> set es. \<not> ends_buffer p dc ev) \<longrightarrow> keeps p dc (accepted_in p es r1) r1 r2"
    using Cons.IH [OF r1(2)] Cons.prems(2) by auto
  have "keeps p dc (accepted_in p (ev # es) r) r r2" if "\<forall>ev \<in> set (ev # es). \<not> ends_buffer p dc ev"
    using r1 r2(3) that by (simp add: keeps_def)
  then show ?case using r1(1) r2(1,2) by simp
qed

lemma rtc_inv_new:
  "sdp_inv (new_WebRTCTransport m d s q ov)" "buf_inv (new_WebRTCTransport m d s q ov)"
  by (simp_all add: new_WebRTCTransport_def sdp_inv_def buf_inv_def Let_def)

lemma run_sdp_inv: "sdp_inv r \<Longrightarrow> rtc_run es r = Inr (r', a) \<Longrightarrow> sdp_inv r'"
proof (induction es arbitrary: r a)
  case (Cons ev es)
  then show ?case using step_sdp_inv by (fastforce simp: ebind_Inr_iff)
qed simp

lemma reachable_inv:
  assumes "rtc_run es (new_WebRTCTransport m d s q ov) = Inr (r, a)" "\<forall>ev \<in> set es. rtc_event_ok ev"
  shows "sdp_inv r" "buf_inv r"
  using run_sdp_inv [OF rtc_inv_new(1) assms(1)] run_buf [OF rtc_inv_new(2) [of m d s q ov] assms(2)] assms(1) by auto

lemma offer_epoch:
  assumes "createOffer p r0 = (r1, a1, n) \<or> rtc_handleOffer p sdp throws r0 = (r1, a1, n)"
  shows "epoch_of r1 p = epoch_of r0 p + 1"
proof -
  have "connectionEpoch r1 = connectionEpoch (offered p Sdp_offer r0) \<or> connectionEpoch r1 = connectionEpoch (offered p Sdp_answer r0)"
    using assms createOffer_eq [of p r0] handleOffer_eq [of p sdp throws r0] after_remote_frame [of p "offered p Sdp_answer r0"]
    by (auto simp: same_sdp_def split: if_splits)
  then obtain kind where "connectionEpoch r1 = connectionEpoch (offered p kind r0)" by blast
  then have "epoch_of r1 p = epoch_of (offered p kind r0) p" by (simp add: epoch_of_def)
  then show ?thesis by (simp add: offered_fields(4) next_epoch_fields(1))
qed

lemma offer_starts:
  assumes inv: "sdp_inv r0" "buf_inv r0"
    and off: "createOffer p r0 = (r1, a1, n) \<or> rtc_handleOffer p sdp throws r0 = (r1, a1, n)"
  shows "sdp_inv r1 \<and> buf_inv r1 \<and> epoch_of r1 p = epoch_of r0 p + 1 \<and> settled_or_waiting n p (epoch_of r0 p + 1) 0 r1"
  using off
proof
  assume off: "createOffer p r0 = (r1, a1, n)"
  let ?o = "offered p Sdp_offer r0"
  have r1: "n = rtc_next r0 + 1" "same_sdp r1 ?o" "rtc_connections r1 = rtc_connections ?o" "same_buf r1 ?o"
      "rtc_next r1 = Suc (rtc_next ?o)"
    using createOffer_eq [of p r0] off by auto
  show ?thesis
    using offer_epoch [OF disjI1 [OF off]] sdp_inv_later [OF offered_inv [OF inv(1)] r1(2)] r1(5) same_buf_inv [OF r1(4)] offered_keeps(1) [OF inv(2)]
      offered_starts [OF inv(1), of p Sdp_offer] same_sdp_waiting [OF r1(2), of p n] r1(1,3) next_epoch_fields(1) [of p r0 p]
    by (simp add: offered_fields(4) settled_or_waiting_def)
next
  assume off: "rtc_handleOffer p sdp throws r0 = (r1, a1, n)"
  let ?o = "offered p Sdp_answer r0"
  have r1: "n = rtc_next r0 + 1" "rtc_connections r1 = rtc_connections ?o" "same_buf r1 ?o" "rtc_next r1 = rtc_next ?o"
      "if throws then r1 = settle n (Inl (Err ''setRemoteDescription'')) ?o else r1 = fst (afterRemoteDescriptionForTrickle p ?o)"
    using handleOffer_eq [of p sdp throws r0] off by (auto split: if_splits)
  note ep = offer_epoch [OF disjI2 [OF off]]
  have w: "settled_or_waiting n p (epoch_of r0 p + 1) 0 ?o" "sdp_inv ?o" "buf_inv r1"
    using offered_starts [OF inv(1), of p Sdp_answer] offered_inv [OF inv(1)] same_buf_inv [OF r1(3)] offered_keeps(1) [OF inv(2)] r1(1)
    by (simp_all add: settled_or_waiting_def)
  show ?thesis
  proof (cases throws)
    case True
    then show ?thesis using w ep r1(5) by (auto simp: sdp_inv_def settled_or_waiting_def gather_waiting_def epoch_of_def)
  next
    case False
    then have "same_sdp r1 ?o" using r1(5) after_remote_frame by simp
    then show ?thesis using w ep same_sdp_inv [of r1 ?o] same_sdp_waiting [of r1 ?o p] r1(2,4) by simp
  qed
qed

section \<open>Properties\<close>

text \<open>(C26) Every offer and every answer is settled. Let the transport have run through any events, and let
  \<open>createOffer\<close> or \<open>handleOffer\<close> then return a promise. Whatever happens next (further offers and answers
  for any peer, candidates, packets, library callbacks in any order, closing), no operation throws, and as
  soon as 25 callbacks of the gathering timers of this connection have been processed (the timeout and the
  24 grace rounds) the promise is settled: with the description, or with an error. Excluded is only
  the path on which a candidate destroys the peer connection while the promise is pending.\<close>

theorem sdp_promise_settles:
  assumes "rtc_run before (new_WebRTCTransport m d s q ov) = Inr (r0, a0)" "\<forall>ev \<in> set before. rtc_event_ok ev"
    and "createOffer p r0 = (r1, a1, n) \<or> rtc_handleOffer p sdp throws r0 = (r1, a1, n)"
    and "\<forall>ev \<in> set es. rtc_event_ok ev \<and> \<not> is_stale_candidate p ev"
    and "25 \<le> length (filter (is_sdp_timer p (epoch_of r1 p)) es)"
  shows "\<exists>r2 a2. rtc_run es r1 = Inr (r2, a2) \<and> map_get (rtc_settled r2) n \<noteq> None"
proof -
  note inv0 = reachable_inv [OF assms(1,2)]
  let ?e = "epoch_of r0 p + 1"
  have start: "sdp_inv r1 \<and> buf_inv r1 \<and> epoch_of r1 p = ?e \<and> settled_or_waiting n p ?e 0 r1"
    by (rule offer_starts [OF inv0 assms(3)])
  obtain r2 a2 where r2: "rtc_run es r1 = Inr (r2, a2)" using run_buf [of r1 es] start assms(4) by blast
  have "progress n p ?e 0 (length (filter (is_sdp_timer p ?e) es)) r1 r2"
    using run_sdp [OF _ r2, of p n ?e 0] start assms(4) by simp
  then show ?thesis
    using start assms(5) r2 by (auto simp: progress_def settled_or_waiting_def gather_waiting_def ICE_GATHERING_GRACE_ROUNDS_def)
qed

theorem sdp_promise_settles_witness:
  "\<exists>r2 a2. rtc_run (replicate 25 (Sdp_timer (js ''b'') 1 None False))
      (fst (createOffer (js ''b'') (new_WebRTCTransport None None None None None))) = Inr (r2, a2) \<and> map_get (rtc_settled r2) 1 \<noteq> None"
proof -
  let ?t = "new_WebRTCTransport None None None None None"
  obtain r1 a1 where r1: "createOffer (js ''b'') ?t = (r1, a1, rtc_next ?t + 1)" using createOffer_eq by blast
  have start: "rtc_next ?t = 0" "rtc_run [] ?t = Inr (?t, [])" "sdp_inv ?t" "buf_inv ?t"
    by (simp_all add: new_WebRTCTransport_def Let_def sdp_inv_def buf_inv_def)
  have ep: "epoch_of r1 (js ''b'') = 1"
    using offer_starts [OF start(3,4), of "js ''b''" r1 a1 1] r1 start(1) by (simp add: new_WebRTCTransport_def epoch_of_def Let_def)
  have "filter (is_sdp_timer (js ''b'') 1) (replicate 25 (Sdp_timer (js ''b'') 1 None False)) =
      replicate 25 (Sdp_timer (js ''b'') 1 None False)" by (simp add: filter_replicate)
  then show ?thesis
    using sdp_promise_settles [OF start(2), of "js ''b''" r1 a1 1 "[]" False "replicate 25 (Sdp_timer (js ''b'') 1 None False)"] r1 start(1) ep
    by simp
qed

text \<open>(C29) Accepted packets are not lost. While a peer's data channel is in use (no new handshake, closing or
  failure for that peer), any interleaving of sends for any peer, flush timers, \<open>bufferedAmountLow\<close> callbacks
  and other events throws nothing, and the packets for which \<open>send\<close> answered \<open>true\<close> are, with their
  multiplicity, those that were sent in frames, wait in the send buffer or wait in the overflow queue. The
  overflow queue stays within \<open>sendOverflowMax\<close>.\<close>

theorem webrtc_no_loss:
  assumes "rtc_run before (new_WebRTCTransport m d s q ov) = Inr (r0, a0)" "\<forall>ev \<in> set before. rtc_event_ok ev"
    and "map_get (rtc_sendBuffers r0) p = Some dc" "\<forall>x. map_get (rtc_sendBuffers r0) x = Some dc \<longrightarrow> x = p"
    and "\<forall>ev \<in> set es. rtc_event_ok ev \<and> \<not> ends_buffer p dc ev"
  shows "\<exists>r1 a1 sb sb0. rtc_run es r0 = Inr (r1, a1) \<and> map_get (rtc_sendBuffers r1) p = Some dc \<and>
    map_get (rtc_store r0) dc = Some sb0 \<and> map_get (rtc_store r1) dc = Some sb \<and>
    mset (concat (map unframed (sb_sent sb)) @ sb_packets sb @ overflow_of r1 p) =
      mset (concat (map unframed (sb_sent sb0)) @ sb_packets sb0 @ overflow_of r0 p @ accepted_in p es r0) \<and>
    int (length (overflow_of r1 p)) \<le> max 0 (sendOverflowMax r1)"
proof -
  note inv0 = reachable_inv(2) [OF assms(1,2)]
  have own: "owns p dc r0" using assms(3,4) unfolding owns_def by blast
  obtain r1 a1 where r1: "rtc_run es r0 = Inr (r1, a1)" "buf_inv r1" "keeps p dc (accepted_in p es r0) r0 r1"
    using run_buf [OF inv0, of es p dc] assms(5) by blast
  have own1: "owns p dc r1" "rtc_carried r1 p dc = rtc_carried r0 p dc + mset (accepted_in p es r0)"
    using r1(3) own by (simp_all add: keeps_def)
  obtain sb0 sb where sb: "map_get (rtc_store r0) dc = Some sb0" "map_get (rtc_store r1) dc = Some sb"
    using buf_invD(2) [OF inv0 assms(3)] buf_invD(2) [OF r1(2)] own1(1) unfolding owns_def by blast
  have "mset (concat (map unframed (sb_sent sb)) @ sb_packets sb @ overflow_of r1 p) =
      mset (concat (map unframed (sb_sent sb0)) @ sb_packets sb0 @ overflow_of r0 p @ accepted_in p es r0)"
    using own1(2) sb by (simp add: rtc_carried_def stream_def add.assoc)
  moreover have "int (length (overflow_of r1 p)) \<le> max 0 (sendOverflowMax r1)"
    using buf_invD(3) [OF r1(2), of p] by (cases "map_get (sendOverflow r1) p") (auto simp: overflow_of_def)
  ultimately show ?thesis using r1(1) own1(1) sb by (auto simp: owns_def)
qed

definition channel_events :: "rtc_event list" where
  "channel_events = [Offer (js ''b''), Dc_open (js ''b'') 1 2 (\<lambda>_. True) (\<lambda>_. 0)]"

lemma channel_events_run:
  "\<exists>r a. rtc_run channel_events (new_WebRTCTransport None None None None None) = Inr (r, a) \<and> rtc_sendBuffers r = [(js ''b'', 2)]"
  by (simp add: channel_events_def createOffer_def createPeerConnection_def new_WebRTCTransport_def await_gathering_def
      setupDataChannel_def epoch_of_def getHandshakeGen_def on_dc_open_def current_def Let_def)

theorem webrtc_no_loss_witness:
  "\<exists>r0 a0 r1 a1 sb. rtc_run channel_events (new_WebRTCTransport None None None None None) = Inr (r0, a0) \<and>
    rtc_run [Send_to (js ''b'') [2, 1], Buffer_timer 2, Send_to (js ''b'') [2, 2]] r0 = Inr (r1, a1) \<and>
    map_get (rtc_store r1) 2 = Some sb \<and> int (length (overflow_of r1 (js ''b''))) \<le> max 0 (sendOverflowMax r1)"
proof -
  obtain r a where r: "rtc_run channel_events (new_WebRTCTransport None None None None None) = Inr (r, a)"
      "rtc_sendBuffers r = [(js ''b'', 2)]" using channel_events_run by blast
  have "\<forall>ev \<in> set channel_events. rtc_event_ok ev" "map_get (rtc_sendBuffers r) (js ''b'') = Some 2"
      "\<forall>x. map_get (rtc_sendBuffers r) x = Some 2 \<longrightarrow> x = js ''b''"
      "\<forall>ev \<in> set [Send_to (js ''b'') [2, 1], Buffer_timer 2, Send_to (js ''b'') [2, 2]]. rtc_event_ok ev \<and> \<not> ends_buffer (js ''b'') 2 ev"
    by (simp_all add: channel_events_def r(2) plain_frame_def)
  from webrtc_no_loss [OF r(1) this] r(1) show ?thesis by blast
qed

section \<open>The interface to the transport manager\<close>

lemma drain_buffers: "drainSendOverflow p r = Inr r' \<Longrightarrow> rtc_sendBuffers r' = rtc_sendBuffers r"
  by (auto simp: drainSendOverflow_def ebind_Inr_iff split: option.splits if_splits)

lemma send_buffers: "rtc_send p d r = Inr (r', ok) \<Longrightarrow> rtc_sendBuffers r' = rtc_sendBuffers r"
proof (cases "map_get (rtc_sendBuffers r) p")
  case (Some dc)
  assume send: "rtc_send p d r = Inr (r', ok)"
  then obtain sb pushed where push: "push d (the (map_get (rtc_store r) dc)) = Inr (sb, pushed)"
    using Some by (auto simp: rtc_send_def ebind_Inr_iff)
  show ?thesis
  proof (cases pushed)
    case True
    then have "drainSendOverflow p (r\<lparr>rtc_store := map_put dc sb (rtc_store r)\<rparr>) = Inr r'"
      using send Some push by (auto simp: rtc_send_def ebind_Inr_iff Let_def)
    from drain_buffers [OF this] show ?thesis by simp
  next
    case False
    then show ?thesis using send Some push by (auto simp: rtc_send_def Let_def split: if_splits)
  qed
qed (simp add: rtc_send_def)

interpretation rtc_transport: peer_transport rtc_send rtc_close "\<lambda>r. dom (map_get (rtc_sendBuffers r))"
proof unfold_locales
  show "rtc_send p d r = Inr (r, False)" if "p \<notin> dom (map_get (rtc_sendBuffers r))" for p d r
    using that by (simp add: rtc_send_def domIff)
  show "dom (map_get (rtc_sendBuffers r')) = dom (map_get (rtc_sendBuffers r))" if "rtc_send p d r = Inr (r', ok)" for p d r r' ok
    using send_buffers [OF that] by simp
  show "dom (map_get (rtc_sendBuffers (fst (rtc_close p r)))) = dom (map_get (rtc_sendBuffers r)) - {p}" for p r
    by (auto simp: rtc_close_def split: if_splits)
qed

lemma rtc_close_each_fold: "fst (rtc_close_each ps r) = fold (\<lambda>p s. fst (rtc_close p s)) ps r"
  by (induction ps arbitrary: r) (auto simp: case_prod_beta)

text \<open>\<open>closeAll\<close> takes every peer that has a peer connection out of use.\<close>

lemma rtc_closeAll_unsendable:
  assumes "map_get (rtc_connections r) p \<noteq> None"
  shows "rtc_send p d (fst (rtc_closeAll r)) = Inr (fst (rtc_closeAll r), False)"
  using rtc_transport.closed_peer_unsendable [of p "map_keys (rtc_connections r)" d r] assms
  by (simp add: rtc_closeAll_def rtc_close_each_fold map_get_None_iff)

section \<open>Callbacks of replaced connections\<close>

text \<open>The callbacks of the peer connection and data channel made for the peer in the epoch.\<close>

fun callback_of :: "jsstring \<Rightarrow> nat \<Rightarrow> rtc_event \<Rightarrow> bool" where
  "callback_of p e (Pc_candidate q e' c m) = (q = p \<and> e' = e)"
| "callback_of p e (Pc_state q e' st pair) = (q = p \<and> e' = e)"
| "callback_of p e (Pc_gathering q e' c ld) = (q = p \<and> e' = e)"
| "callback_of p e (Dc_open q e' dc ready mem) = (q = p \<and> e' = e)"
| "callback_of p e (Dc_closed q e') = (q = p \<and> e' = e)"
| "callback_of p e (Dc_error q e') = (q = p \<and> e' = e)"
| "callback_of p e (Dc_message q e' raw) = (q = p \<and> e' = e)"
| "callback_of p e (Dc_low q e') = (q = p \<and> e' = e)"
| "callback_of p e _ = False"

lemma callback_ignored: "callback_of p e ev \<Longrightarrow> \<not> current p e r \<Longrightarrow> rtc_step ev r = Inr (r, [])"
  by (cases ev) (auto simp: on_local_candidate_def on_pc_state_def on_gathering_state_def on_dc_open_def on_dc_closed_def
      on_dc_error_def on_dc_message_def on_buffered_low_def)

lemma epoch_cong: "connectionEpoch r' = connectionEpoch r \<Longrightarrow> epoch_of r' p = epoch_of r p"
  by (simp add: epoch_of_def)

lemma close_each_epoch: "connectionEpoch (fst (rtc_close_each ps r)) = connectionEpoch r"
  by (induction ps arbitrary: r) (simp_all add: case_prod_beta rtc_close_def)

lemma offered_epoch: "epoch_of r p \<le> epoch_of (offered q kind r) p"
  using next_epoch_fields(1) [of q r p] by (simp add: offered_fields(4))

lemma step_epoch:
  assumes "rtc_step ev r = Inr (r', a)"
  shows "epoch_of r p \<le> epoch_of r' p"
proof (cases ev)
  case (Offer q)
  then have "epoch_of r' p = epoch_of (offered q Sdp_offer r) p"
    using assms createOffer_eq [of q r] by (auto simp: same_sdp_def intro: epoch_cong)
  then show ?thesis using offered_epoch by simp
next
  case (Offer_from q sdp throws)
  then have "epoch_of r' p = epoch_of (offered q Sdp_answer r) p"
    using assms handleOffer_eq [of q sdp throws r] after_remote_frame [of q "offered q Sdp_answer r"]
    by (auto simp: same_sdp_def intro!: epoch_cong split: if_splits)
  then show ?thesis using offered_epoch by simp
next
  case (Answer_from q sdp throws)
  then show ?thesis using assms answer_frame [of q sdp throws r]
    by (cases "rtc_handleAnswer q sdp throws r") (auto simp: same_sdp_def intro: eq_imp_le epoch_cong [symmetric])
next
  case (Candidate_from q c m out)
  then have "r' = fst (addIceCandidate q c m out r)" using assms by simp
  then show ?thesis using candidate_frame [of q c m out r] by (simp add: same_sdp_def epoch_of_def)
next
  case (Close_rtc q)
  then have "r' = fst (tearDownPeerWebRtcState True q r)" using assms by (simp add: rtc_close_def)
  then show ?thesis by (simp add: epoch_of_def)
next
  case Close_rtc_all
  then have "r' = fst (rtc_close_each (map_keys (rtc_connections r)) r)" using assms by (simp add: rtc_closeAll_def)
  then show ?thesis by (simp add: epoch_of_def close_each_epoch)
next
  case (Pc_state q e st pair)
  then have "r' = fst (on_pc_state q e st pair r)" using assms by simp
  then show ?thesis
    by (simp add: on_pc_state_def logSelectedCandidatePair_def emitPeerDisconnectSoon_def Let_def case_prod_beta epoch_of_def split: option.split)
qed (use assms in \<open>auto simp: same_sdp_def ebind_Inr_iff epoch_of_def disconnect_timer_def setupDataChannel_def on_dc_open_def
      on_dc_closed_def emitPeerDisconnectSoon_def
      dest!: send_frame buffer_timer_frame fire_frame gathering_frame low_frame split: if_splits\<close>)

lemma run_epoch: "rtc_run es r = Inr (r', a) \<Longrightarrow> epoch_of r p \<le> epoch_of r' p"
proof (induction es arbitrary: r a)
  case (Cons ev es)
  then show ?case using step_epoch by (fastforce simp: ebind_Inr_iff intro: le_trans)
qed simp



end
