(* ===== verification/WebRTC_Trickle.thy ===== *)
theory WebRTC_Trickle
  imports WebRTC_Session
begin

text \<open>
  Remote ICE candidates in runs of the WebRTC transport: they arrive in any order relative to offers and
  answers, wait while the peer connection has no remote description, and are handed over after it.
\<close>

section \<open>Remote candidates\<close>

definition pending_of :: "rtc \<Rightarrow> jsstring \<Rightarrow> (jsstring \<times> jsstring) list" where
  "pending_of r p = (case map_get (pendingRemoteIce r) p of Some q \<Rightarrow> q | None \<Rightarrow> [])"

definition ice_inv :: "rtc \<Rightarrow> bool" where
  "ice_inv r \<longleftrightarrow>
     (\<forall>p x. map_get (rtc_connections r) p = Some x \<longrightarrow> x < rtc_next r)
     \<and> (\<forall>p q x. map_get (rtc_connections r) p = Some x \<longrightarrow> map_get (rtc_connections r) q = Some x \<longrightarrow> p = q)
     \<and> (\<forall>p \<in> set (remoteDescForTrickle r). map_get (rtc_connections r) p \<noteq> None \<and> pending_of r p = [])"

lemma ice_invD:
  assumes "ice_inv r"
  shows "map_get (rtc_connections r) p = Some x \<Longrightarrow> x < rtc_next r"
    and "map_get (rtc_connections r) p = Some x \<Longrightarrow> map_get (rtc_connections r) q = Some x \<Longrightarrow> p = q"
    and "p \<in> set (remoteDescForTrickle r) \<Longrightarrow> \<exists>x. map_get (rtc_connections r) p = Some x"
    and "p \<in> set (remoteDescForTrickle r) \<Longrightarrow> pending_of r p = []"
  using assms unfolding ice_inv_def by blast+

text \<open>The candidates that a list of actions hands to a peer connection, and whether all come after a remote description.\<close>

fun cands :: "nat \<Rightarrow> rtc_action list \<Rightarrow> (jsstring \<times> jsstring) list" where
  "cands x [] = []"
| "cands x (Add_candidate y c m # as) = (if y = x then (c, m) # cands x as else cands x as)"
| "cands x (_ # as) = cands x as"

fun remote_first :: "nat \<Rightarrow> bool \<Rightarrow> rtc_action list \<Rightarrow> bool" where
  "remote_first x b [] = True"
| "remote_first x b (Set_remote y sdp k # as) = remote_first x (b \<or> y = x) as"
| "remote_first x b (Add_candidate y c m # as) = ((y = x \<longrightarrow> b) \<and> remote_first x b as)"
| "remote_first x b (_ # as) = remote_first x b as"

fun described :: "nat \<Rightarrow> rtc_action list \<Rightarrow> bool" where
  "described x [] = False"
| "described x (Set_remote y sdp k # as) = (y = x \<or> described x as)"
| "described x (_ # as) = described x as"

lemma cands_append: "cands x (as @ bs) = cands x as @ cands x bs"
  by (induction x as rule: cands.induct) auto

lemma described_append: "described x (as @ bs) \<longleftrightarrow> described x as \<or> described x bs"
  by (induction x as rule: described.induct) auto

lemma remote_first_append: "remote_first x b (as @ bs) \<longleftrightarrow> remote_first x b as \<and> remote_first x (b \<or> described x as) bs"
  by (induction x b as rule: remote_first.induct) auto

lemma remote_first_true: "remote_first x True as"
  by (induction x "True" as rule: remote_first.induct) auto

lemma flush_actions:
  "cands x (map (\<lambda>(c, m). Add_candidate y c m) q) = (if y = x then q else [])"
  "\<not> described x (map (\<lambda>(c, m). Add_candidate y c m) q)"
  "remote_first x b (map (\<lambda>(c, m). Add_candidate y c m) q) \<longleftrightarrow> (y = x \<and> q \<noteq> [] \<longrightarrow> b)"
  by (induction q) auto

text \<open>Actions that are neither.\<close>

definition loud :: "rtc_action \<Rightarrow> bool" where
  "loud a = (case a of Add_candidate _ _ _ \<Rightarrow> True | Set_remote _ _ _ \<Rightarrow> True | _ \<Rightarrow> False)"

definition rtc_quiet :: "rtc_action list \<Rightarrow> bool" where
  "rtc_quiet as = list_all (\<lambda>a. \<not> loud a) as"

lemma rtc_quiet_simps [simp]: "rtc_quiet []" "rtc_quiet (as @ bs) \<longleftrightarrow> rtc_quiet as \<and> rtc_quiet bs" "rtc_quiet (a # as) \<longleftrightarrow> \<not> loud a \<and> rtc_quiet as"
  by (simp_all add: rtc_quiet_def)

lemma loud_simps [simp]: "\<not> loud (New_pc x)" "\<not> loud (Create_dc x y)" "\<not> loud (Pc_destroy x)" "\<not> loud (Dc_close y)"
    "\<not> loud (Rtc_connected p)" "\<not> loud (Rtc_disconnected p)" "\<not> loud (Rtc_message p b)" "\<not> loud (Rtc_ice p c m)"
    "\<not> loud (Rtc_state p)" "\<not> loud (Rtc_error p)" "\<not> loud (Rtc_buffer_low p)"
  by (simp_all add: loud_def)

lemma quiet_actions: "rtc_quiet as \<Longrightarrow> cands x as = [] \<and> \<not> described x as \<and> remote_first x b as"
proof (induction as)
  case (Cons a as)
  then show ?case by (cases a) (auto simp: loud_def)
qed simp

lemma tear_down_quiet: "rtc_quiet (snd (tearDownPeerWebRtcState c p r))"
  by (cases "map_get (dataChannels (rtc_drop_buffer p r)) p"; cases "map_get (rtc_connections r) p")
    (simp_all add: tearDownPeerWebRtcState_def Let_def split: option.split)

text \<open>How one step treats the candidates of a connected peer.\<close>

definition trickles :: "jsstring \<Rightarrow> nat \<Rightarrow> (jsstring \<times> jsstring) list \<Rightarrow> rtc \<Rightarrow> rtc_action list \<Rightarrow> rtc \<Rightarrow> bool" where
  "trickles p x arr r as r' \<longleftrightarrow> map_get (rtc_connections r') p = Some x \<and>
     cands x as @ pending_of r' p = pending_of r p @ arr \<and>
     remote_first x (p \<in> set (remoteDescForTrickle r)) as \<and>
     (p \<in> set (remoteDescForTrickle r') \<longleftrightarrow> p \<in> set (remoteDescForTrickle r) \<or> described x as)"

definition ice_ok :: "jsstring \<Rightarrow> nat \<Rightarrow> (jsstring \<times> jsstring) list \<Rightarrow> rtc \<Rightarrow> rtc_action list \<Rightarrow> rtc \<Rightarrow> bool" where
  "ice_ok p x arr r as r' \<longleftrightarrow> ice_inv r' \<and> (map_get (rtc_connections r) p = Some x \<longrightarrow> trickles p x arr r as r')"

lemma ice_ok_quiet:
  assumes "ice_inv r" "same_ice r' r" "rtc_quiet as"
  shows "ice_ok p x [] r as r'"
  using assms quiet_actions [OF assms(3)] unfolding same_ice_def
  by (simp add: ice_ok_def trickles_def ice_inv_def pending_of_def)

lemma tear_down_ice:
  assumes inv: "ice_inv r" and "rtc_quiet as"
  shows "ice_inv (fst (tearDownPeerWebRtcState c q r))"
    and "q \<noteq> p \<Longrightarrow> ice_ok p x [] r as (fst (tearDownPeerWebRtcState c q r))"
proof -
  show i: "ice_inv (fst (tearDownPeerWebRtcState c q r))"
    using ice_invD [OF inv] unfolding ice_inv_def by (auto simp: pending_of_def split: if_splits)
  show "ice_ok p x [] r as (fst (tearDownPeerWebRtcState c q r))" if "q \<noteq> p"
    using i that quiet_actions [OF assms(2)] by (auto simp: ice_ok_def trickles_def pending_of_def)
qed

lemma next_epoch_ice:
  assumes inv: "ice_inv r"
  shows "ice_inv (next_epoch q r)" and "q \<notin> set (remoteDescForTrickle (next_epoch q r))"
    and "q \<noteq> p \<Longrightarrow> ice_ok p x [] r [] (next_epoch q r)"
proof -
  let ?r = "r\<lparr>connectionEpoch := map_put q (epoch_of r q + 1) (connectionEpoch r),
      handshakeGen := map_put q (getHandshakeGen r q + 1) (handshakeGen r)\<rparr>"
  have s: "same_ice ?r r" by (simp add: same_ice_def)
  have inv': "ice_inv ?r" using ice_ok_quiet [OF inv s rtc_quiet_simps(1)] by (simp add: ice_ok_def)
  show "ice_inv (next_epoch q r)"
    using inv' tear_down_ice(1) [OF inv' rtc_quiet_simps(1)] by (simp add: next_epoch_def Let_def)
  show "q \<notin> set (remoteDescForTrickle (next_epoch q r))"
    using ice_invD(3) [OF inv, of q] by (auto simp: next_epoch_def Let_def)
  show "ice_ok p x [] r [] (next_epoch q r)" if "q \<noteq> p"
    using tear_down_ice(2) [OF inv' rtc_quiet_simps(1) that, of x True] ice_ok_quiet [OF inv s rtc_quiet_simps(1), of p x]
    by (auto simp: next_epoch_def Let_def ice_ok_def trickles_def)
qed

lemma offered_ice_fields:
  "rtc_connections (offered q kind r) = map_put q (rtc_next r) (rtc_connections (next_epoch q r))"
  "remoteDescForTrickle (offered q kind r) = remoteDescForTrickle (next_epoch q r)"
  "pendingRemoteIce (offered q kind r) = pendingRemoteIce (next_epoch q r)"
  by (simp_all add: offered_def await_gathering_def connect_pc_def Let_def)

lemma offered_ice:
  assumes inv: "ice_inv r" and "rtc_quiet as"
  shows "ice_inv (offered q kind r)" and "q \<noteq> p \<Longrightarrow> ice_ok p x [] r as (offered q kind r)"
proof -
  note n = next_epoch_ice [OF inv, of q]
  have pend: "pending_of (offered q kind r) z = pending_of (next_epoch q r) z" for z
    by (simp add: pending_of_def offered_ice_fields)
  have lt: "y < rtc_next r" if "map_get (rtc_connections (next_epoch q r)) z = Some y" for z y
    using ice_invD(1) [OF n(1) that] by simp
  show i: "ice_inv (offered q kind r)"
    unfolding ice_inv_def offered_ice_fields offered_fields(3) pend
    using lt ice_invD(2-4) [OF n(1)] n(2) by (fastforce split: if_splits)
  show "ice_ok p x [] r as (offered q kind r)" if "q \<noteq> p"
    using n(3) [OF that, of x] i that quiet_actions [OF assms(2)]
    by (auto simp: ice_ok_def trickles_def pend offered_ice_fields)
qed

lemma after_remote_ice:
  assumes inv: "ice_inv r" and conn: "map_get (rtc_connections r) q = Some y"
  shows "snd (afterRemoteDescriptionForTrickle q r) = map (\<lambda>(c, m). Add_candidate y c m) (pending_of r q)"
    and "pending_of (fst (afterRemoteDescriptionForTrickle q r)) z = (if z = q then [] else pending_of r z)"
    and "ice_inv (fst (afterRemoteDescriptionForTrickle q r))"
proof -
  show "snd (afterRemoteDescriptionForTrickle q r) = map (\<lambda>(c, m). Add_candidate y c m) (pending_of r q)"
    using conn by (simp add: afterRemoteDescriptionForTrickle_def flushPendingRemoteIce_def pending_of_def split: option.split)
  have pend: "pending_of (fst (afterRemoteDescriptionForTrickle q r)) z = (if z = q then [] else pending_of r z)" for z
    using conn by (simp add: afterRemoteDescriptionForTrickle_def flushPendingRemoteIce_def pending_of_def split: option.split)
  then show "pending_of (fst (afterRemoteDescriptionForTrickle q r)) z = (if z = q then [] else pending_of r z)" .
  show "ice_inv (fst (afterRemoteDescriptionForTrickle q r))"
    using ice_invD [OF inv] conn unfolding ice_inv_def pend by auto
qed

text \<open>Setting the remote description of a peer: the queued candidates follow it.\<close>

lemma set_remote_ice:
  assumes inv: "ice_inv r" and conn: "map_get (rtc_connections r) q = Some y"
  shows "ice_ok p x [] r (Set_remote y sdp k # snd (afterRemoteDescriptionForTrickle q r)) (fst (afterRemoteDescriptionForTrickle q r))"
proof -
  note ar = after_remote_ice [OF inv conn]
  have "y = x \<longleftrightarrow> q = p" if "map_get (rtc_connections r) p = Some x"
    using ice_invD(2) [OF inv conn, of p] that conn by auto
  then show ?thesis
    using ar(2,3) ice_invD(4) [OF inv, of p]
    by (auto simp: ice_ok_def trickles_def ar(1) flush_actions remote_first_true)
qed

lemma ice_ok_trans:
  "ice_ok p x a1 r as r1 \<Longrightarrow> ice_ok p x a2 r1 bs r2 \<Longrightarrow> ice_ok p x (a1 @ a2) r (as @ bs) r2"
  unfolding ice_ok_def trickles_def
  by (auto simp: cands_append described_append remote_first_append) (metis append.assoc)

lemma create_quiet: "createPeerConnection q r = (r', acts, pc, e) \<Longrightarrow> rtc_quiet acts"
  using tear_down_quiet by (auto simp: createPeerConnection_def rtc_close_def Let_def case_prod_beta split: if_splits)

lemma createOffer_ice:
  assumes "createOffer q r = (r', acts, n)"
  shows "rtc_quiet acts \<and> rtc_connections r' = rtc_connections (offered q Sdp_offer r) \<and>
    remoteDescForTrickle r' = remoteDescForTrickle (offered q Sdp_offer r) \<and>
    pendingRemoteIce r' = pendingRemoteIce (offered q Sdp_offer r) \<and> rtc_next r' = Suc (rtc_next (offered q Sdp_offer r))"
proof -
  obtain acts' where a: "createPeerConnection q r = (connect_pc q r, acts', rtc_next r, epoch_of r q + 1)" using create_pc_eq by blast
  show ?thesis
    using assms create_quiet [OF a] a
    by (auto simp: createOffer_def setupDataChannel_def offered_def await_gathering_def connect_pc_def Let_def)
qed

lemma handleOffer_ice:
  assumes "rtc_handleOffer q sdp throws r = (r', acts, n)"
  shows "\<exists>acts'. rtc_quiet acts' \<and>
    (if throws then acts = acts' \<and> same_ice r' (offered q Sdp_answer r)
     else acts = acts' @ Set_remote (rtc_next r) sdp Sdp_offer # snd (afterRemoteDescriptionForTrickle q (offered q Sdp_answer r))
       \<and> r' = fst (afterRemoteDescriptionForTrickle q (offered q Sdp_answer r)))"
proof -
  obtain acts' where a: "createPeerConnection q r = (connect_pc q r, acts', rtc_next r, epoch_of r q + 1)" using create_pc_eq by blast
  show ?thesis
    using assms create_quiet [OF a] a
    by (auto simp: rtc_handleOffer_def offered_def same_ice_def Let_def case_prod_beta split: if_splits)
qed

lemma candidate_ice:
  assumes inv: "ice_inv r"
  shows "ice_inv (fst (addIceCandidate q c m out r))"
    and "\<not> (q = p \<and> out = Add_stale) \<Longrightarrow>
      ice_ok p x (if q = p then [(c, m)] else []) r (snd (addIceCandidate q c m out r)) (fst (addIceCandidate q c m out r))"
proof -
  have push: "pending_of (pushPendingIce q c m s) z = (if z = q then pending_of s q @ [(c, m)] else pending_of s z)"
    "rtc_connections (pushPendingIce q c m s) = rtc_connections s" "remoteDescForTrickle (pushPendingIce q c m s) = remoteDescForTrickle s"
    "rtc_next (pushPendingIce q c m s) = rtc_next s" for s z
    by (simp_all add: pushPendingIce_def pending_of_def Let_def)
  consider "q \<notin> set (remoteDescForTrickle r)" | y where "q \<in> set (remoteDescForTrickle r)" "map_get (rtc_connections r) q = Some y"
    using ice_invD(3) [OF inv, of q] by blast
  then have "ice_inv (fst (addIceCandidate q c m out r)) \<and> (\<not> (q = p \<and> out = Add_stale) \<longrightarrow>
      ice_ok p x (if q = p then [(c, m)] else []) r (snd (addIceCandidate q c m out r)) (fst (addIceCandidate q c m out r)))"
  proof cases
    case 1
    have "ice_inv (pushPendingIce q c m r)" using ice_invD [OF inv] 1 unfolding ice_inv_def push by auto
    then show ?thesis using 1 by (simp add: addIceCandidate_def ice_ok_def trickles_def push)
  next
    case (2 y)
    note conn = 2
    show ?thesis
    proof (cases "out = Add_stale")
      case True
      let ?r = "r\<lparr>remoteDescForTrickle := set_del q (remoteDescForTrickle r), rtc_connections := map_del q (rtc_connections r)\<rparr>"
      have pend: "pending_of ?r z = pending_of r z" for z by (simp add: pending_of_def)
      have eq: "addIceCandidate q c m out r = (pushPendingIce q c m ?r, [Add_candidate y c m, Pc_destroy y])"
        using conn True by (simp add: addIceCandidate_def)
      have "ice_inv (pushPendingIce q c m ?r)"
        using ice_invD [OF inv] unfolding ice_inv_def push pend by (auto split: if_splits)
      moreover have "y \<noteq> x" if "map_get (rtc_connections r) p = Some x" "q \<noteq> p"
        using ice_invD(2) [OF inv conn(2), of p] that by auto
      ultimately show ?thesis unfolding eq using True by (auto simp: ice_ok_def trickles_def push pend)
    next
      case False
      then have eq: "addIceCandidate q c m out r = (r, [Add_candidate y c m])" using conn by (simp add: addIceCandidate_def)
      have "y = x \<longleftrightarrow> q = p" if "map_get (rtc_connections r) p = Some x"
        using ice_invD(2) [OF inv conn(2), of p] that conn(2) by auto
      then show ?thesis
        unfolding eq using inv conn(1) ice_invD(4) [OF inv, of q] by (auto simp: ice_ok_def trickles_def)
    qed
  qed
  then show "ice_inv (fst (addIceCandidate q c m out r))"
    and "\<not> (q = p \<and> out = Add_stale) \<Longrightarrow>
      ice_ok p x (if q = p then [(c, m)] else []) r (snd (addIceCandidate q c m out r)) (fst (addIceCandidate q c m out r))" by simp_all
qed

text \<open>Events that end the peer's current connection, and the candidates that arrive for it.\<close>

fun ends_connection :: "jsstring \<Rightarrow> rtc_event \<Rightarrow> bool" where
  "ends_connection p (Offer q) = (q = p)"
| "ends_connection p (Offer_from q sdp throws) = (q = p)"
| "ends_connection p (Candidate_from q c m out) = (q = p \<and> out = Add_stale)"
| "ends_connection p (Close_rtc q) = (q = p)"
| "ends_connection p Close_rtc_all = True"
| "ends_connection p (Pc_state q e st pair) = (q = p \<and> (st = Pc_failed \<or> st = Pc_closed))"
| "ends_connection p _ = False"

fun arrivals :: "jsstring \<Rightarrow> rtc_event list \<Rightarrow> (jsstring \<times> jsstring) list" where
  "arrivals p [] = []"
| "arrivals p (Candidate_from q c m out # es) = (if q = p then (c, m) # arrivals p es else arrivals p es)"
| "arrivals p (_ # es) = arrivals p es"

lemma arrivals_Cons: "arrivals p (ev # es) = arrivals p [ev] @ arrivals p es"
  by (cases ev) simp_all

definition ice_step_ok :: "jsstring \<Rightarrow> nat \<Rightarrow> rtc_event \<Rightarrow> rtc \<Rightarrow> rtc_action list \<Rightarrow> rtc \<Rightarrow> bool" where
  "ice_step_ok p x ev r a r' \<longleftrightarrow> ice_inv r' \<and> (\<not> ends_connection p ev \<longrightarrow> ice_ok p x (arrivals p [ev]) r a r')"

lemma ice_step_quiet: "ice_inv r \<Longrightarrow> same_ice r' r \<Longrightarrow> rtc_quiet a \<Longrightarrow> arrivals p [ev] = [] \<Longrightarrow> ice_step_ok p x ev r a r'"
  using ice_ok_quiet [of r r' a p x] by (simp add: ice_step_ok_def) (simp add: ice_ok_def)

lemma step_offer_ice:
  assumes inv: "ice_inv r" and "createOffer q r = (r', a, n)"
  shows "ice_step_ok p x (Offer q) r a r'"
proof -
  let ?o = "offered q Sdp_offer r"
  have f: "rtc_quiet a" "rtc_connections r' = rtc_connections ?o" "remoteDescForTrickle r' = remoteDescForTrickle ?o"
      "pendingRemoteIce r' = pendingRemoteIce ?o" "rtc_next r' = Suc (rtc_next ?o)"
    using createOffer_ice [OF assms(2)] by simp_all
  have pend: "pending_of r' z = pending_of ?o z" for z using f(4) by (simp add: pending_of_def)
  have i: "ice_inv r'"
    using offered_ice(1) [OF inv f(1), of q Sdp_offer] unfolding ice_inv_def f pend by (blast intro: less_SucI)
  have "ice_ok p x [] r a r'" if "q \<noteq> p"
    using offered_ice(2) [OF inv f(1) that, of x Sdp_offer] i by (simp add: ice_ok_def trickles_def f pend)
  then show ?thesis using i by (simp add: ice_step_ok_def)
qed

lemma step_offer_from_ice:
  assumes inv: "ice_inv r" and off: "rtc_handleOffer q sdp throws r = (r', a, n)"
  shows "ice_step_ok p x (Offer_from q sdp throws) r a r'"
proof -
  let ?o = "offered q Sdp_answer r"
  obtain a0 where a0: "rtc_quiet a0"
      "if throws then a = a0 \<and> same_ice r' ?o
       else a = a0 @ Set_remote (rtc_next r) sdp Sdp_offer # snd (afterRemoteDescriptionForTrickle q ?o)
         \<and> r' = fst (afterRemoteDescriptionForTrickle q ?o)"
    using handleOffer_ice [OF off] by blast
  note o = offered_ice [OF inv a0(1), of q]
  have conn: "map_get (rtc_connections ?o) q = Some (rtc_next r)" by (simp add: offered_ice_fields)
  have step: "\<exists>b. a = a0 @ b \<and> ice_ok p x [] ?o b r'"
  proof (cases throws)
    case True
    then show ?thesis using a0(2) ice_ok_quiet [OF o(1) _ rtc_quiet_simps(1), of r'] by auto
  next
    case False
    then show ?thesis using a0(2) set_remote_ice [OF o(1) conn] by auto
  qed
  then have "ice_inv r'" by (auto simp: ice_ok_def)
  moreover have "ice_ok p x [] r a r'" if "q \<noteq> p"
    using step ice_ok_trans [OF o(2) [OF that, of x]] by fastforce
  ultimately show ?thesis by (simp add: ice_step_ok_def)
qed

lemma close_each_ice: "ice_inv r \<Longrightarrow> ice_inv (fst (rtc_close_each ps r))"
proof (induction ps arbitrary: r)
  case (Cons q ps)
  have eq: "fst (rtc_close_each (q # ps) r) = fst (rtc_close_each ps (fst (tearDownPeerWebRtcState True q r)))"
    by (simp add: rtc_close_def case_prod_beta)
  show ?case using Cons tear_down_ice(1) [OF _ rtc_quiet_simps(1)] unfolding eq by blast
qed simp

lemma step_pc_state_ice:
  assumes inv: "ice_inv r"
  shows "ice_step_ok p x (Pc_state q e st pair) r (snd (on_pc_state q e st pair r)) (fst (on_pc_state q e st pair r))"
proof -
  let ?r = "r\<lparr>dcOpenEpoch := map_del q (dcOpenEpoch r)\<rparr>"
  have s: "same_ice ?r r" "same_ice (logSelectedCandidatePair q pair r) r"
    by (simp_all add: same_ice_def logSelectedCandidatePair_def split: option.split)
  have inv': "ice_inv ?r" using ice_ok_quiet [OF inv s(1) rtc_quiet_simps(1)] by (simp add: ice_ok_def)
  define t where "t = tearDownPeerWebRtcState False q ?r"
  have q: "rtc_quiet (snd t)" using tear_down_quiet by (simp add: t_def)
  have em: "same_ice (emitPeerDisconnectSoon q s) s" for s by (simp add: emitPeerDisconnectSoon_def same_ice_def)
  note td = tear_down_ice(1) [OF inv' q, of False q, folded t_def] tear_down_ice(2) [OF inv' q, of q p x False, folded t_def]
  consider "\<not> current q e r" | "current q e r" "st = Pc_failed \<or> st = Pc_closed"
    | "current q e r" "\<not> (st = Pc_failed \<or> st = Pc_closed)" by blast
  then show ?thesis
  proof cases
    case 1
    then show ?thesis using ice_step_quiet [OF inv, of r "[]"] by (simp add: on_pc_state_def same_ice_def)
  next
    case 2
    then have eq: "on_pc_state q e st pair r = (emitPeerDisconnectSoon q (fst t), Rtc_state q # snd t)"
      by (auto simp: on_pc_state_def t_def case_prod_beta)
    have e: "ice_inv (emitPeerDisconnectSoon q (fst t))"
      using ice_ok_quiet [OF td(1) em rtc_quiet_simps(1)] by (simp add: ice_ok_def)
    have "ice_ok p x [] r (Rtc_state q # snd t) (emitPeerDisconnectSoon q (fst t))" if "q \<noteq> p"
    proof -
      have "ice_ok p x ([] @ []) r ([Rtc_state q] @ snd t) (fst t)"
        by (rule ice_ok_trans [OF ice_ok_quiet [OF inv s(1)] td(2) [OF that]]) simp
      then show ?thesis
        using ice_ok_trans [OF _ ice_ok_quiet [OF td(1) em rtc_quiet_simps(1)]] by fastforce
    qed
    then show ?thesis using 2 e unfolding eq by (auto simp: ice_step_ok_def)
  next
    case 3
    then show ?thesis
      using ice_step_quiet [OF inv s(2), of "[Rtc_state q]"] ice_step_quiet [OF inv, of r "[Rtc_state q]"]
      by (auto simp: on_pc_state_def same_ice_def)
  qed
qed

lemma step_ice:
  assumes inv: "ice_inv r" and step: "rtc_step ev r = Inr (r', a)"
  shows "ice_step_ok p x ev r a r'"
proof (cases ev)
  case (Offer q)
  then show ?thesis using step step_offer_ice [OF inv, of q] by (cases "createOffer q r") auto
next
  case (Offer_from q sdp throws)
  then show ?thesis using step step_offer_from_ice [OF inv, of q sdp throws] by (cases "rtc_handleOffer q sdp throws r") auto
next
  case (Answer_from q sdp throws)
  show ?thesis
  proof (cases "rtc_handleAnswer q sdp throws r")
    case (Inl err)
    then show ?thesis using step Answer_from ice_step_quiet [OF inv, of r "[]"] by (simp add: same_ice_def)
  next
    case (Inr y)
    then obtain pc where pc: "map_get (rtc_connections r) q = Some pc"
        "y = (fst (afterRemoteDescriptionForTrickle q r), Set_remote pc sdp Sdp_answer # snd (afterRemoteDescriptionForTrickle q r))"
      by (auto simp: rtc_handleAnswer_def case_prod_beta split: option.splits if_splits)
    show ?thesis
      using step Answer_from Inr pc(2) set_remote_ice [OF inv pc(1), of p x sdp Sdp_answer]
      by (auto simp: ice_step_ok_def ice_ok_def)
  qed
next
  case (Candidate_from q c m out)
  then have "r' = fst (addIceCandidate q c m out r)" "a = snd (addIceCandidate q c m out r)" using step by simp_all
  then show ?thesis
    using candidate_ice(1) [OF inv, of q c m out] candidate_ice(2) [OF inv, of q p out x c m] Candidate_from
    by (auto simp: ice_step_ok_def)
next
  case (Send_to q d)
  then show ?thesis using step send_frame [of q d r] ice_step_quiet [OF inv] by (auto simp: ebind_Inr_iff)
next
  case (Buffer_timer dc)
  then show ?thesis using step buffer_timer_frame [of dc r] ice_step_quiet [OF inv] by (auto simp: ebind_Inr_iff)
next
  case (Close_rtc q)
  then have "r' = fst (tearDownPeerWebRtcState True q r)" "a = snd (tearDownPeerWebRtcState True q r)"
    using step by (simp_all add: rtc_close_def)
  then show ?thesis using tear_down_ice [OF inv tear_down_quiet] Close_rtc by (simp add: ice_step_ok_def)
next
  case Close_rtc_all
  then show ?thesis
    using step close_each_ice [OF inv, of "map_keys (rtc_connections r)"]
    by (simp add: ice_step_ok_def rtc_closeAll_def)
next
  case (Sdp_timer q e ld c)
  then show ?thesis using step fire_frame [of q e ld c r] ice_step_quiet [OF inv] by (auto simp: ebind_Inr_iff)
next
  case (Disconnect_timer q)
  then have "r' = fst (disconnect_timer q r)" "a = snd (disconnect_timer q r)" using step by simp_all
  moreover have "rtc_quiet (snd (disconnect_timer q r))" by (simp add: disconnect_timer_def)
  ultimately show ?thesis using disconnect_timer_frame [of q r] ice_step_quiet [OF inv] Disconnect_timer by simp
next
  case (Pc_candidate q e c m)
  moreover have "rtc_quiet (on_local_candidate q e c m r)" by (simp add: on_local_candidate_def)
  ultimately show ?thesis using step ice_step_quiet [OF inv, of r] by (auto simp: same_ice_def)
next
  case (Pc_state q e st pair)
  then have "r' = fst (on_pc_state q e st pair r)" "a = snd (on_pc_state q e st pair r)" using step by simp_all
  then show ?thesis using step_pc_state_ice [OF inv] Pc_state by simp
next
  case (Pc_gathering q e c ld)
  then show ?thesis using step gathering_frame [of q e c ld r] ice_step_quiet [OF inv] by (auto simp: ebind_Inr_iff)
next
  case (Pc_channel q dc)
  then show ?thesis using step setup_channel_frame [of q dc r] ice_step_quiet [OF inv] by auto
next
  case (Dc_open q e dc ready mem)
  then have "r' = fst (on_dc_open q e dc ready mem r)" "a = snd (on_dc_open q e dc ready mem r)" using step by simp_all
  moreover have "rtc_quiet (snd (on_dc_open q e dc ready mem r))" by (simp add: on_dc_open_def)
  ultimately show ?thesis using dc_open_frame [of q e dc ready mem r] ice_step_quiet [OF inv] Dc_open by simp
next
  case (Dc_closed q e)
  then show ?thesis using step dc_closed_frame [of q e r] ice_step_quiet [OF inv] by auto
next
  case (Dc_error q e)
  moreover have "rtc_quiet (on_dc_error q e r)" by (simp add: on_dc_error_def)
  ultimately show ?thesis using step ice_step_quiet [OF inv, of r] by (auto simp: same_ice_def)
next
  case (Dc_message q e raw)
  moreover have "rtc_quiet (on_dc_message q e raw r)"
    by (auto simp: on_dc_message_def rtc_quiet_def list_all_iff split: option.split)
  ultimately show ?thesis using step ice_step_quiet [OF inv, of r] by (auto simp: same_ice_def)
next
  case (Dc_low q e)
  moreover have "rtc_quiet a" using step Dc_low by (auto simp: on_buffered_low_def ebind_Inr_iff split: if_splits)
  ultimately show ?thesis using step low_frame [of q e r] ice_step_quiet [OF inv] by auto
qed

lemma run_ice:
  "ice_inv r \<Longrightarrow> rtc_run es r = Inr (r', a) \<Longrightarrow>
   ice_inv r' \<and> ((\<forall>ev \<in> set es. \<not> ends_connection p ev) \<longrightarrow> ice_ok p x (arrivals p es) r a r')"
proof (induction es arbitrary: r a)
  case Nil
  then show ?case using ice_ok_quiet [OF Nil.prems(1), of r "[]"] by (simp add: same_ice_def)
next
  case (Cons ev es)
  obtain r1 a1 a2 where r1: "rtc_step ev r = Inr (r1, a1)" "rtc_run es r1 = Inr (r', a2)" "a = a1 @ a2"
    using Cons.prems(2) by (auto simp: ebind_Inr_iff)
  have s: "ice_inv r1" "\<not> ends_connection p ev \<Longrightarrow> ice_ok p x (arrivals p [ev]) r a1 r1"
    using step_ice [OF Cons.prems(1) r1(1), of p x] by (simp_all add: ice_step_ok_def)
  then show ?case
    using Cons.IH [OF s(1) r1(2)] r1(3) ice_ok_trans [of p x "arrivals p [ev]" r a1 r1 "arrivals p es" a2 r']
    by (auto simp: arrivals_Cons [of p ev es])
qed

lemma ice_inv_new: "ice_inv (new_WebRTCTransport m d s q ov)"
  by (simp add: new_WebRTCTransport_def ice_inv_def Let_def)

section \<open>Properties\<close>

text \<open>(C27) Remote candidates reach the peer connection in order and exactly once, after its remote
  description. Let the transport have run through any events, with a connection to the peer, and let it go on
  with any events that do not end that connection. Then nothing throws, the candidates handed to the connection
  followed by those still queued are the queued ones followed by those that arrive, in the order of arrival,
  no candidate is handed over before the remote description is set, and once it is set none waits.\<close>

theorem ice_candidates_in_order:
  assumes "rtc_run before (new_WebRTCTransport m d s q ov) = Inr (r0, a0)" "\<forall>ev \<in> set before. rtc_event_ok ev"
    and "map_get (rtc_connections r0) p = Some x" "\<forall>ev \<in> set es. rtc_event_ok ev \<and> \<not> ends_connection p ev"
  shows "\<exists>r1 a1. rtc_run es r0 = Inr (r1, a1) \<and> map_get (rtc_connections r1) p = Some x \<and>
    cands x a1 @ pending_of r1 p = pending_of r0 p @ arrivals p es \<and>
    remote_first x (p \<in> set (remoteDescForTrickle r0)) a1 \<and>
    (p \<in> set (remoteDescForTrickle r1) \<longrightarrow> pending_of r1 p = [])"
proof -
  have inv: "ice_inv r0" "buf_inv r0"
    using run_ice [OF ice_inv_new assms(1)] reachable_inv(2) [OF assms(1,2)] by auto
  then obtain r1 a1 where r1: "rtc_run es r0 = Inr (r1, a1)" using run_buf [OF inv(2), of es] assms(4) by blast
  have "ice_inv r1" "trickles p x (arrivals p es) r0 a1 r1"
    using run_ice [OF inv(1) r1, of p x] assms(3,4) by (auto simp: ice_ok_def)
  then show ?thesis using r1 ice_invD(4) [of r1 p] by (auto simp: trickles_def)
qed

theorem ice_candidates_in_order_witness:
  "\<exists>r1 a1. rtc_run [Candidate_from (js ''b'') (js ''c1'') (js ''0'') Add_ok, Answer_from (js ''b'') (js ''sdp'') False,
        Candidate_from (js ''b'') (js ''c2'') (js ''0'') Add_ok]
      (fst (createOffer (js ''b'') (new_WebRTCTransport None None None None None))) = Inr (r1, a1) \<and>
    cands 0 a1 @ pending_of r1 (js ''b'') = [(js ''c1'', js ''0''), (js ''c2'', js ''0'')]"
proof -
  let ?r = "fst (createOffer (js ''b'') (new_WebRTCTransport None None None None None))"
  let ?a = "fst (snd (createOffer (js ''b'') (new_WebRTCTransport None None None None None)))"
  have "rtc_run [Offer (js ''b'')] (new_WebRTCTransport None None None None None) = Inr (?r, ?a)"
    by (simp add: case_prod_beta)
  moreover have "map_get (rtc_connections ?r) (js ''b'') = Some 0" "pending_of ?r (js ''b'') = []"
    by code_simp+
  ultimately show ?thesis
    using ice_candidates_in_order [of "[Offer (js ''b'')]" None None None None None ?r ?a "js ''b''" 0
      "[Candidate_from (js ''b'') (js ''c1'') (js ''0'') Add_ok, Answer_from (js ''b'') (js ''sdp'') False,
        Candidate_from (js ''b'') (js ''c2'') (js ''0'') Add_ok]"] by (fastforce simp del: rtc_run.simps)
qed

section \<open>Where the code falls short\<close>

text \<open>
  When the send buffer has been flushed by its timer, \<open>send\<close> puts the new packet into it before the
  packets of the overflow queue, which were accepted earlier: the order changes.
\<close>

definition overflow_events :: "rtc_event list" where
  "overflow_events = [Offer (js ''b''), Dc_open (js ''b'') 1 2 (\<lambda>_. True) (\<lambda>_. 0), Send_to (js ''b'') [2, 1], Send_to (js ''b'') [2, 2],
     Buffer_timer 2, Send_to (js ''b'') [2, 3]]"

lemma overflow_reorders:
  "map_option (\<lambda>(r, _). (map_option stream (map_get (rtc_store r) 2), overflow_of r (js ''b'')))
     (case rtc_run overflow_events (new_WebRTCTransport None None None (Some 1) None) of Inr y \<Rightarrow> Some y | Inl _ \<Rightarrow> None) =
     Some (Some [[2, 1], [2, 3]], [[2, 2]])"
  "accepted_in (js ''b'') overflow_events (new_WebRTCTransport None None None (Some 1) None) = [[2, 1], [2, 2], [2, 3]]"
  by (simp_all add: overflow_events_def createOffer_def createPeerConnection_def new_WebRTCTransport_def await_gathering_def
      setupDataChannel_def epoch_of_def getHandshakeGen_def on_dc_open_def current_def rtc_send_def push_def rtc_buffer_timer_def
      sb_timeout_def sb_flush_def sendFrame_def drainSendOverflow_def new_TransportSendBuffer_def overflow_of_def stream_def
      unframed_def unframe_def HEADER_SIZE_def MAX_FRAME_SIZE_def rtc_accepted_def Let_def)

text \<open>
  A candidate that finds a stale peer connection destroys it, but leaves the promise of a pending offer or
  answer in place. The next offer for the peer overwrites it: neither the timer nor closing the
  peer settles it any more.
\<close>

definition orphan_events :: "rtc_event list" where
  "orphan_events = [Offer (js ''b''), Answer_from (js ''b'') (js ''sdp'') False,
     Candidate_from (js ''b'') (js ''c'') (js ''0'') Add_stale, Offer (js ''b'')]"

lemma offer_promise_orphaned:
  "case rtc_run orphan_events (new_WebRTCTransport None None None None None) of
     Inl _ \<Rightarrow> False
   | Inr (r, _) \<Rightarrow> map_get (rtc_settled r) 1 = None \<and> map_get (rtc_settled (fst (rtc_close (js ''b'') r))) 1 = None \<and>
       (case fire_sdp_timer (js ''b'') 1 (Some \<lparr>ld_sdp = js ''sdp'', ld_type = None\<rparr>) True r of
          Inl _ \<Rightarrow> False | Inr r \<Rightarrow> map_get (rtc_settled r) 1 = None)"
  by code_simp

section \<open>ICE servers and the TURN test\<close>

text \<open>In the mode \<open>relay\<close> no STUN server is used, in the mode \<open>direct\<close> no TURN server.\<close>

lemma convertIceServers_relay: "u \<in> set (convertIceServers servers (js ''relay'')) \<Longrightarrow> \<not> startsWith u (js ''stun:'')"
  by (auto simp: convertIceServers_def convert_url_def startsWith_def js_def Let_def split: if_splits)

lemma convertIceServers_direct: "u \<in> set (convertIceServers servers (js ''direct'')) \<Longrightarrow>
    \<not> startsWith u (js ''turn:'') \<and> \<not> startsWith u (js ''turns:'')"
  by (auto simp: convertIceServers_def convert_url_def startsWith_def js_def Let_def split: if_splits)

text \<open>
  \<open>testTurnConnectivity\<close>: the promise is resolved by the first relay candidate, by the end of gathering or by the
  timeout; the state is the flag \<open>hasRelay\<close> and the result, once there is one.
\<close>

datatype turn_event = Turn_candidate jsstring | Turn_complete | Turn_timeout

record turn_test =
  hasRelay :: bool
  turn_result :: "(bool \<times> string option) option"

fun turn_step :: "turn_event \<Rightarrow> turn_test \<Rightarrow> turn_test" where
  "turn_step (Turn_candidate c) t =
     (if js_includes c (js ''typ relay'')
      then t\<lparr>hasRelay := True, turn_result := (case turn_result t of None \<Rightarrow> Some (True, None) | Some x \<Rightarrow> Some x)\<rparr> else t)"
| "turn_step Turn_complete t =
     (case turn_result t of Some _ \<Rightarrow> t
      | None \<Rightarrow> t\<lparr>turn_result := Some (hasRelay t, if hasRelay t then None else Some ''no_relay_candidates'')\<rparr>)"
| "turn_step Turn_timeout t =
     (case turn_result t of Some _ \<Rightarrow> t
      | None \<Rightarrow> t\<lparr>turn_result := Some (hasRelay t, if hasRelay t then None else Some ''timeout'')\<rparr>)"

definition turn_start :: "ice_server list \<Rightarrow> turn_test" where
  "turn_start servers =
     \<lparr>hasRelay = False,
      turn_result = (if convertIceServers servers (js ''relay'') = [] then Some (False, Some ''no_turn_servers'') else None)\<rparr>"

lemma turn_result_stays: "turn_result t = Some x \<Longrightarrow> turn_result (fold turn_step es t) = Some x"
proof (induction es arbitrary: t)
  case (Cons ev es)
  have "turn_result (turn_step ev t) = Some x" using Cons.prems by (cases ev) auto
  then show ?case using Cons.IH by simp
qed simp

text \<open>The test succeeds exactly if a relay candidate comes before the end of gathering and the timeout.\<close>

lemma turn_test_result:
  assumes "convertIceServers servers (js ''relay'') \<noteq> []" "\<forall>c. Turn_candidate c \<in> set before \<longrightarrow> \<not> js_includes c (js ''typ relay'')"
    "Turn_complete \<notin> set before" "Turn_timeout \<notin> set before"
  shows "turn_result (fold turn_step (before @ ev # es) (turn_start servers)) =
    (case ev of Turn_candidate c \<Rightarrow> if js_includes c (js ''typ relay'') then Some (True, None)
        else turn_result (fold turn_step es (turn_start servers))
     | Turn_complete \<Rightarrow> Some (False, Some ''no_relay_candidates'')
     | Turn_timeout \<Rightarrow> Some (False, Some ''timeout''))"
proof -
  have skip: "fold turn_step before t = t" if "\<forall>c. Turn_candidate c \<in> set before \<longrightarrow> \<not> js_includes c (js ''typ relay'')"
      "Turn_complete \<notin> set before" "Turn_timeout \<notin> set before" for t
    using that
  proof (induction before arbitrary: t)
    case (Cons e b)
    then have "turn_step e t = t" by (cases e) auto
    then show ?case using Cons by auto
  qed simp
  show ?thesis
    using skip [OF assms(2-4)] assms(1) turn_result_stays by (cases ev) (auto simp: turn_start_def)
qed

end
