(* ===== verification/Spec2Isabelle.thy ===== *)
theory Spec2Isabelle
  imports Packet_Wire IP_Packet Framing Net_Graph Crypto_Onion Mesh_Router Multipath Address_Tables NAT_Streams NAT_Icmp Signalling Node_Events Key_Agreement Host_NAT WebRTC_Trickle
begin

text \<open>
  Verification of the mesh VPN under \<open>src/\<close>.

  A node of the mesh reads IP packets from a TUN device, picks a route to an exit node, wraps the
  packet in one layer of encryption per hop and sends it over a transport; relays peel one layer each,
  and the exit hands the inner packet to a user-space NAT that opens real sockets. A signalling server
  introduces the nodes to each other and assigns their virtual addresses.

  \<^bold>\<open>Theories and the code they model\<close>

  \<^item> \<open>Mesh_Prelude\<close>: JavaScript strings (lists of code units), \<open>Buffer\<close> with its bounds checks and
    thrown errors, \<open>Map\<close> and \<open>Set\<close> as lists in insertion order, numbers written in a radix, UTF-8.
  \<^item> \<open>Packet_Wire\<close>: the mesh packet of \<open>src/network/packet.js\<close>, its binary format, both decoders, flow ids.
  \<^item> \<open>IP_Packet\<close>: the IPv4, TCP, UDP and ICMP parsing and building of the same file.
  \<^item> \<open>Framing\<close>: \<open>src/network/batcher.js\<close> and \<open>src/transport/send-buffer.js\<close>.
  \<^item> \<open>Net_Graph\<close>: \<open>src/core/graph.js\<close>, its breadth-first searches and Dijkstra's algorithm.
  \<^item> \<open>Crypto_Onion\<close>: \<open>src/crypto/\<close>: identities, sessions, authenticated encryption, onion layers.
  \<^item> \<open>Mesh_Router\<close>: \<open>src/core/router.js\<close> on top of the graph and the onion layers.
  \<^item> \<open>Multipath\<close>: \<open>src/core/scheduler.js\<close>.
  \<^item> \<open>Address_Tables\<close>: \<open>src/network/ip-manager.js\<close> and \<open>src/exit/nat.js\<close>.
  \<^item> \<open>UserSpace_NAT\<close>, \<open>NAT_Streams\<close>, \<open>NAT_Icmp\<close>: \<open>src/exit/userspace-nat.js\<close>; the operations, the streams
    they relay, and echo requests.
  \<^item> \<open>Signalling\<close>: \<open>server/signalling-server.js\<close> and its client \<open>src/control/signalling.js\<close>.
  \<^item> \<open>Discovery\<close>: \<open>src/control/discovery.js\<close>, handshakes split at their awaits; \<open>Key_Agreement\<close> connects two
    such nodes by message queues and relates them to the abstract key exchange.
  \<^item> \<open>Worker_Pipeline\<close>: \<open>src/workers/\<close>: the encryption and decryption jobs and the queues in front of them.
  \<^item> \<open>Transport_Manager\<close>: \<open>src/transport/manager.js\<close>.
  \<^item> \<open>Socket_Transport\<close>: \<open>src/transport/websocket.js\<close> and \<open>ws-data-server.js\<close>, and the interface
    \<open>peer_transport\<close> that all transports satisfy; \<open>Datagram_Transport\<close>: \<open>src/transport/quic.js\<close>.
  \<^item> \<open>WebRTC\<close>: \<open>src/transport/webrtc.js\<close>; \<open>WebRTC_Session\<close> and \<open>WebRTC_Trickle\<close>: its runs.
  \<^item> \<open>Tun_Device\<close>: the TUN interface of \<open>src/network/tun.js\<close> and its helper process; \<open>Tun_Routing\<close>: the addresses
    that bypass the tunnel, policy routing, name servers and \<open>linux-rp-filter.js\<close> as commands given to the machine;
    \<open>Tun_Policy\<close> and \<open>Tun_Manager\<close>: what they achieve, and the \<open>TunManager\<close>; \<open>Host_NAT\<close>: \<open>src/exit/nat-manager.js\<close>.
  \<^item> \<open>Mesh_Node\<close>: the data path of \<open>src/core/node.js\<close>, which connects the components; \<open>Send_Retry\<close>,
    \<open>Mesh_Delivery\<close>, \<open>Loop_Prevention\<close> and \<open>Node_Events\<close> state what it guarantees.

  \<^bold>\<open>How the code is represented\<close>

  Classes are records, methods are functions that take and return the record; a thrown error is the left
  summand of \<open>js_error + 'a\<close>. The clock, random numbers and the answers of the environment (whether a
  transport is ready, how many bytes a socket takes) are arguments. Callbacks of timers and sockets are
  operations of their own, and the state machines (\<open>nat_next\<close>, \<open>srv_next\<close>, \<open>node_step\<close>, \<open>disc_step\<close>, \<open>rtc_step\<close>, the
  steps of the send buffer) interleave them in any order. Ciphers, signatures, key agreement, \<open>JSON.parse\<close> and \<open>geoip\<close> are
  parameters, and so is the machine that runs \<open>ip\<close>, \<open>iptables\<close> and \<open>sysctl\<close> (the records \<open>host\<close> and \<open>dir_ops\<close>, with
  the laws \<open>rule_laws\<close>, \<open>route_laws\<close>, \<open>resolv_laws\<close>, \<open>rp_laws\<close>, \<open>nat_laws\<close>): theorems about them assume the documented laws (what was sealed under a key opens under
  that key, and only that), as named hypotheses, and the witnesses satisfy them with a concrete cipher.

  \<^bold>\<open>What the theorems show\<close>

  Wire formats: what is serialised is read back, in every version, and malformed input is rejected with
  the error of the code. Routing: the searches end, find a path exactly if there is one, and the weighted
  ones find one of least latency; the route cache stores such routes. Onion routing: peeling the layers in
  order gives each hop the next one and the exit the payload. Queues: batches and frames keep the packets
  and their order, the queue drains. Addresses: no address is given out twice. User-space NAT: the
  connection table stays consistent, each direction of a TCP stream is relayed in order and completely,
  back-pressure cannot deadlock. Signalling: virtual addresses are unique, and the clients' peer lists
  agree with the server. Discovery: both ends of a handshake arrive at the same session key, and a peer is
  dropped only if it stays away for the whole leave delay. Transports: WebSocket connections lose no accepted
  packet, WebRTC offers are always settled, candidates arrive in order, callbacks of replaced connections
  are ignored. TUN device: the framing of the helper pipe is lossless; policy routing keeps the infrastructure
  out of the tunnel, puts the bypass in place before the default routes move, and closing the interface removes
  its rules and restores the name servers and the reverse-path filters; disabling the address translation of the
  machine restores its rules and its forwarding flag. Node: a packet reaches the exit and its reply the client (across the router, the workers, the wire
  format and the NAT bookkeeping), each packet is used once, none travels further than the hop limit, and the
  retry queues keep the order. Lemmas at the end of several theories show inputs for which the code does
  not do what it intends.

  \<^bold>\<open>Termination and fuel\<close>

  No definition uses fuel. Loops are total functions with a measure; the graph searches, whose end
  depends on the graph, are partial functions into \<open>option\<close>, and it is proved that they return.

  \<^bold>\<open>Not modelled\<close>

  The helper processes in C, the kernel and the sockets under the transports, and the objects of the WebRTC
  library are represented by the commands they are given and the events they produce. Start-up of the process,
  the HTTP control interface, the download of configuration changes and the counters are input and output
  around the modelled components. The command line tools under \<open>scripts/\<close> and the firmware under \<open>device/\<close> are
  separate programs.
\<close>

end
